(* ===== verification/Prelude.thy ===== *)
theory Prelude
  imports Main "HOL-Library.Word" "HOL-Library.AList"
begin

text \<open>
  Shared vocabulary of the development.

  \<^item> Machine integers: \<open>u8\<close>, \<open>u16\<close>, \<open>u32\<close>, \<open>u64\<close> are words of their width; arithmetic on
    them wraps, which is what Rust's release profile does (the workspace sets no
    \<^verbatim>\<open>overflow-checks\<close>) and what \<^verbatim>\<open>wrapping_add\<close>/\<^verbatim>\<open>wrapping_sub\<close> do in every profile.
    A \<^verbatim>\<open>usize\<close> that counts bytes or elements is a \<open>nat\<close>: such counts are bounded by memory.
  \<^item> Outcomes: \<open>res\<close> is Rust's \<^verbatim>\<open>Result\<close> with one more value, \<open>Panic\<close>, for the places where
    the code unwinds (a slice out of range, an \<^verbatim>\<open>assert!\<close>).
  \<^item> Text: a Rust \<^verbatim>\<open>String\<close> is the list of its UTF-8 bytes, written as an Isabelle \<open>string\<close>;
    \<open>as_bytes\<close> and \<open>of_bytes\<close> convert.
  \<^item> Big-endian integers on the wire: \<open>to_be\<close> and \<open>from_be\<close>.
  \<^item> Two interfaces: \<open>wire_codec\<close> (an encoder and a decoder that peels one value off the
    front of a byte string) and \<open>inv_system\<close> (a step relation with an inductive invariant).
\<close>

unbundle bit_operations_syntax

type_synonym u8 = "8 word"
type_synonym u16 = "16 word"
type_synonym u32 = "32 word"
type_synonym u64 = "64 word"
type_synonym usize = nat

named_theorems wire \<open>lengths and inverses of wire encodings\<close>
named_theorems panic_free \<open>the conditions under which an operation does not unwind\<close>

lemma unat_bound: "unat (w :: 'a::len word) < 2 ^ LENGTH('a)"
  by (rule unsigned_less)

lemma ucast_up_down:
  "LENGTH('a) \<le> LENGTH('b) \<Longrightarrow> ucast (ucast (w :: 'a::len word) :: 'b::len word) = w"
  by (rule bit_word_eqI) (auto simp: bit_ucast_iff)

section \<open>Outcomes\<close>

datatype ('e, 'a) res = Ok 'a | Err 'e | Panic

fun rbind :: "('e, 'a) res \<Rightarrow> ('a \<Rightarrow> ('e, 'b) res) \<Rightarrow> ('e, 'b) res" where
  "rbind (Ok x) f = f x"
| "rbind (Err e) f = Err e"
| "rbind Panic f = Panic"

fun ok_or :: "'e \<Rightarrow> 'a option \<Rightarrow> ('e, 'a) res" where
  "ok_or e (Some x) = Ok x"
| "ok_or e None = Err e"

fun or_panic :: "'a option \<Rightarrow> ('e, 'a) res" where
  "or_panic (Some x) = Ok x"
| "or_panic None = Panic"

fun map_err :: "('e \<Rightarrow> 'f) \<Rightarrow> ('e, 'a) res \<Rightarrow> ('f, 'a) res" where
  "map_err f (Ok x) = Ok x"
| "map_err f (Err e) = Err (f e)"
| "map_err f Panic = Panic"

lemma rbind_eq_Ok: "rbind m f = Ok y \<longleftrightarrow> (\<exists>x. m = Ok x \<and> f x = Ok y)"
  by (cases m) auto

lemma ok_or_eq_Ok [simp]: "ok_or e m = Ok x \<longleftrightarrow> m = Some x"
  by (cases m) auto

lemma or_panic_eq_Ok [simp]: "or_panic m = Ok x \<longleftrightarrow> m = Some x"
  by (cases m) auto

lemma or_panic_eq_Panic [simp]: "or_panic m = Panic \<longleftrightarrow> m = None"
  by (cases m) auto

lemma ok_or_no_panic [simp]: "ok_or e m \<noteq> Panic"
  by (cases m) auto

lemma rbind_eq_Panic [panic_free]:
  "rbind m f = Panic \<longleftrightarrow> m = Panic \<or> (\<exists>x. m = Ok x \<and> f x = Panic)"
  by (cases m) auto

text \<open>
  \<^verbatim>\<open>blocking_lock\<close> of a tokio mutex panics when it is called from an asynchronous task (\<open>blk = False\<close>).
\<close>

definition blocking_lock :: "bool \<Rightarrow> ('e, unit) res" where
  "blocking_lock blk = (if blk then Ok () else Panic)"

section \<open>Machine-size indices\<close>

text \<open>
  Where an index computation can leave the range of \<^verbatim>\<open>usize\<close> the wrap-around is written out:
  \<open>usize_sub\<close> and \<open>usize_add\<close> are 64-bit, \<open>as_usize\<close> is the cast of an \<^verbatim>\<open>isize\<close>.
\<close>

definition usize_sub :: "usize \<Rightarrow> usize \<Rightarrow> usize" where
  "usize_sub a b = (if b \<le> a then a - b else a + 2 ^ 64 - b)"

definition usize_add :: "usize \<Rightarrow> usize \<Rightarrow> usize" where
  "usize_add a b = (a + b) mod 2 ^ 64"

definition as_usize :: "int \<Rightarrow> usize" where
  "as_usize i = nat (i mod 2 ^ 64)"

lemma usize_sub_le [simp]: "b \<le> a \<Longrightarrow> usize_sub a b = a - b"
  by (simp add: usize_sub_def)

lemma as_usize_nat [simp]: "n < 2 ^ 64 \<Longrightarrow> as_usize (int n) = n"
  by (simp add: as_usize_def)

section \<open>Slices\<close>

text \<open>\<open>xs[i..j]\<close> of Rust: \<open>None\<close> is the panic of a range out of bounds.\<close>

definition slice_of :: "'a list \<Rightarrow> nat \<Rightarrow> nat \<Rightarrow> 'a list option" where
  "slice_of xs i j = (if i \<le> j \<and> j \<le> length xs then Some (take (j - i) (drop i xs)) else None)"

text \<open>
  \<open>xs[i..i + n].copy_from_slice(ys)\<close> with \<open>n = ys.len()\<close>: overwrite in place, in range only.
\<close>

definition overwrite :: "nat \<Rightarrow> 'a list \<Rightarrow> 'a list \<Rightarrow> 'a list" where
  "overwrite i ys xs = take i xs @ ys @ drop (i + length ys) xs"

lemma slice_of_Some [panic_free]:
  "slice_of xs i j = Some ys \<longleftrightarrow> i \<le> j \<and> j \<le> length xs \<and> ys = take (j - i) (drop i xs)"
  by (auto simp: slice_of_def)

lemma length_overwrite [simp]:
  "i + length ys \<le> length xs \<Longrightarrow> length (overwrite i ys xs) = length xs"
  by (simp add: overwrite_def)

lemma take_drop_overwrite [simp]:
  "i + length ys \<le> length xs \<Longrightarrow> take (length ys) (drop i (overwrite i ys xs)) = ys"
  by (simp add: overwrite_def)

lemma take_overwrite [simp]:
  "i + length ys \<le> length xs \<Longrightarrow> j \<le> i \<Longrightarrow> take j (overwrite i ys xs) = take j xs"
  by (simp add: overwrite_def)

lemma take_drop_append:
  "i \<le> j \<Longrightarrow> take (j - i) (drop i xs) @ take k (drop j xs) = take (j - i + k) (drop i xs)"
  using take_add [of "j - i" k "drop i xs"] by simp

text \<open>Appending behind a window: the window grown over the overwritten part.\<close>

lemma window_overwrite:
  "i \<le> j \<Longrightarrow> j + length ys \<le> length xs \<Longrightarrow>
   take (j + length ys - i) (drop i (overwrite j ys xs)) = take (j - i) (drop i xs) @ ys"
proof -
  assume "i \<le> j" and "j + length ys \<le> length xs"
  then obtain k where "j = i + k" by (auto simp: le_iff_add)
  with \<open>j + length ys \<le> length xs\<close> show ?thesis by (simp add: overwrite_def drop_take)
qed

section \<open>Hash maps as association lists\<close>

lemma set_AList_delete: "set (AList.delete k al) = {p \<in> set al. fst p \<noteq> k}"
  by (auto simp: AList.delete_eq)

lemma set_AList_update: "set (AList.update i r al) \<subseteq> insert (i, r) (set al)"
  by (induction al) auto

section \<open>Text\<close>

definition as_bytes :: "string \<Rightarrow> u8 list" where
  "as_bytes s = map (\<lambda>c. word_of_nat (of_char c)) s"

definition of_bytes :: "u8 list \<Rightarrow> string" where
  "of_bytes bs = map (\<lambda>b. char_of (unat b)) bs"

lemma unat_of_char [simp]: "unat (word_of_nat (of_char c) :: u8) = of_char c"
  by (simp add: unat_of_nat take_bit_eq_mod [symmetric])

lemma of_bytes_as_bytes [simp, wire]: "of_bytes (as_bytes s) = s"
  by (induction s) (simp_all add: of_bytes_def as_bytes_def)

lemma as_bytes_of_bytes [simp, wire]: "as_bytes (of_bytes bs) = bs"
proof (induction bs)
  case (Cons b bs)
  have "(of_char (char_of (unat b) :: char) :: nat) = unat b"
    using unat_bound [of b] by (simp add: take_bit_eq_mod)
  with Cons show ?case by (simp add: of_bytes_def as_bytes_def)
qed (simp add: of_bytes_def as_bytes_def)

lemma length_as_bytes [simp]: "length (as_bytes s) = length s"
  by (simp add: as_bytes_def)

lemma length_of_bytes [simp]: "length (of_bytes s) = length s"
  by (simp add: of_bytes_def)

text \<open>
  \<^verbatim>\<open>String::from_utf8_lossy\<close>: the longest valid prefixes are kept, each maximal ill-formed
  sequence becomes the replacement character U+FFFD (bytes EF BF BD). \<open>utf8_step\<close> reads one
  character off a non-empty input: \<open>(n, True)\<close> when the first \<open>n\<close> bytes are one well-formed
  character, \<open>(n, False)\<close> when they are a maximal ill-formed sequence.
\<close>

definition is_cont :: "u8 list \<Rightarrow> nat \<Rightarrow> bool" where
  "is_cont bs i \<longleftrightarrow> i < length bs \<and> bs ! i AND 192 = 128"

definition byte_in :: "u8 list \<Rightarrow> nat \<Rightarrow> u8 \<Rightarrow> u8 \<Rightarrow> bool" where
  "byte_in bs i lo hi \<longleftrightarrow> i < length bs \<and> lo \<le> bs ! i \<and> bs ! i \<le> hi"

definition utf8_step :: "u8 list \<Rightarrow> nat \<times> bool" where
  "utf8_step bs =
     (let b = bs ! 0 in
      if b < 128 then (1, True)
      else if 0xC2 \<le> b \<and> b \<le> 0xDF then (if is_cont bs 1 then (2, True) else (1, False))
      else if 0xE0 \<le> b \<and> b \<le> 0xEF then
        (if (b = 0xE0 \<and> byte_in bs 1 0xA0 0xBF) \<or> (0xE1 \<le> b \<and> b \<le> 0xEC \<and> byte_in bs 1 0x80 0xBF)
            \<or> (b = 0xED \<and> byte_in bs 1 0x80 0x9F) \<or> (0xEE \<le> b \<and> byte_in bs 1 0x80 0xBF)
         then (if is_cont bs 2 then (3, True) else (2, False))
         else (1, False))
      else if 0xF0 \<le> b \<and> b \<le> 0xF4 then
        (if (b = 0xF0 \<and> byte_in bs 1 0x90 0xBF) \<or> (0xF1 \<le> b \<and> b \<le> 0xF3 \<and> byte_in bs 1 0x80 0xBF)
            \<or> (b = 0xF4 \<and> byte_in bs 1 0x80 0x8F)
         then (if is_cont bs 2 then (if is_cont bs 3 then (4, True) else (3, False)) else (2, False))
         else (1, False))
      else (1, False))"

lemma utf8_step_pos: "0 < fst (utf8_step bs)"
  by (simp add: utf8_step_def Let_def)

function from_utf8_lossy :: "u8 list \<Rightarrow> u8 list" where
  "from_utf8_lossy bs =
     (if bs = [] then []
      else let (n, valid) = utf8_step bs in
        (if valid then take n bs else [0xEF, 0xBF, 0xBD]) @ from_utf8_lossy (drop n bs))"
  by pat_completeness auto
termination
proof (relation "measure length")
  fix bs :: "u8 list" and x n valid
  assume "bs \<noteq> []" and "x = utf8_step bs" and "(n, valid) = x"
  then have "0 < n" using utf8_step_pos [of bs] by (cases "utf8_step bs") auto
  with \<open>bs \<noteq> []\<close> show "(drop n bs, bs) \<in> measure length" by simp
qed simp

declare from_utf8_lossy.simps [simp del]

function valid_utf8 :: "u8 list \<Rightarrow> bool" where
  "valid_utf8 bs =
     (if bs = [] then True
      else let (n, valid) = utf8_step bs in valid \<and> valid_utf8 (drop n bs))"
  by pat_completeness auto
termination
proof (relation "measure length")
  fix bs :: "u8 list" and x n valid
  assume "bs \<noteq> []" and "x = utf8_step bs" and "(n, valid) = x"
  then have "0 < n" using utf8_step_pos [of bs] by (cases "utf8_step bs") auto
  with \<open>bs \<noteq> []\<close> show "(drop n bs, bs) \<in> measure length" by simp
qed simp

declare valid_utf8.simps [simp del]

lemma from_utf8_lossy_valid: "valid_utf8 bs \<Longrightarrow> from_utf8_lossy bs = bs"
proof (induction bs rule: from_utf8_lossy.induct)
  case (1 bs)
  show ?case
  proof (cases "bs = []")
    case True
    then show ?thesis by (simp add: from_utf8_lossy.simps)
  next
    case False
    obtain n v where s: "utf8_step bs = (n, v)" by (cases "utf8_step bs")
    with "1.prems" False have v: v and r: "valid_utf8 (drop n bs)"
      by (auto simp: valid_utf8.simps [of bs])
    have "from_utf8_lossy (drop n bs) = drop n bs"
      using "1.IH" [OF False refl s [symmetric] r] .
    with False s v show ?thesis by (simp add: from_utf8_lossy.simps [of bs])
  qed
qed

lemma valid_utf8_ascii: "\<forall>b \<in> set bs. b < 128 \<Longrightarrow> valid_utf8 bs"
proof (induction bs)
  case Nil
  show ?case by (subst valid_utf8.simps) simp
next
  case (Cons b bs)
  then show ?case by (subst valid_utf8.simps) (simp add: utf8_step_def)
qed

section \<open>Big-endian integers\<close>

primrec be_bytes :: "nat \<Rightarrow> nat \<Rightarrow> u8 list" where
  "be_bytes 0 n = []"
| "be_bytes (Suc k) n = be_bytes k (n div 256) @ [word_of_nat (n mod 256)]"

definition be_value :: "u8 list \<Rightarrow> nat" where
  "be_value bs = foldl (\<lambda>a b. a * 256 + unat b) 0 bs"

definition to_be16 :: "u16 \<Rightarrow> u8 list" where "to_be16 w = be_bytes 2 (unat w)"
definition to_be32 :: "u32 \<Rightarrow> u8 list" where "to_be32 w = be_bytes 4 (unat w)"
definition from_be16 :: "u8 list \<Rightarrow> u16" where "from_be16 bs = word_of_nat (be_value bs)"
definition from_be32 :: "u8 list \<Rightarrow> u32" where "from_be32 bs = word_of_nat (be_value bs)"

lemma length_be_bytes [simp, wire]: "length (be_bytes k n) = k"
  by (induction k arbitrary: n) auto

lemma be_value_snoc: "be_value (bs @ [b]) = be_value bs * 256 + unat b"
  by (simp add: be_value_def)

lemma be_value_be_bytes: "be_value (be_bytes k n) = n mod 256 ^ k"
proof (induction k arbitrary: n)
  case (Suc k)
  have u: "unat (word_of_nat (n mod 256) :: u8) = n mod 256"
    by (simp add: unat_of_nat)
  have "n mod 256 ^ Suc k = n mod (256 * 256 ^ k)" by simp
  also have "\<dots> = 256 * (n div 256 mod 256 ^ k) + n mod 256" by (rule mod_mult2_eq)
  finally show ?case by (simp add: be_value_snoc Suc u)
qed (simp add: be_value_def)

lemma be_value_bound: "be_value bs < 256 ^ length bs"
proof (induction bs rule: rev_induct)
  case (snoc b bs)
  have "unat b < 256" using unat_bound [of b] by simp
  with snoc show ?case by (simp add: be_value_snoc)
qed (simp add: be_value_def)

lemma length_to_be [simp, wire]: "length (to_be16 w) = 2" "length (to_be32 v) = 4"
  by (simp_all add: to_be16_def to_be32_def)

lemma from_to_be16 [simp, wire]: "from_be16 (to_be16 w) = w"
  using unat_bound [of w]
  by (simp add: from_be16_def to_be16_def be_value_be_bytes)

lemma from_to_be32 [simp, wire]: "from_be32 (to_be32 w) = w"
  using unat_bound [of w]
  by (simp add: from_be32_def to_be32_def be_value_be_bytes)

lemma be_bytes_be_value: "be_bytes (length bs) (be_value bs) = bs"
proof (induction bs rule: rev_induct)
  case (snoc b bs)
  have "unat b < 256" using unat_bound [of b] by simp
  with snoc show ?case by (simp add: be_value_snoc)
qed simp

lemma to_from_be16 [wire]: "length bs = 2 \<Longrightarrow> to_be16 (from_be16 bs) = bs"
  using be_value_bound [of bs] be_bytes_be_value [of bs]
  by (simp add: to_be16_def from_be16_def unat_of_nat)

lemma to_from_be32 [wire]: "length bs = 4 \<Longrightarrow> to_be32 (from_be32 bs) = bs"
  using be_value_bound [of bs] be_bytes_be_value [of bs]
  by (simp add: to_be32_def from_be32_def unat_of_nat)

text \<open>Two bytes at an offset.\<close>

definition be16_at :: "nat \<Rightarrow> u8 list \<Rightarrow> u16" where
  "be16_at i data = from_be16 (take 2 (drop i data))"

lemma unat_u16: "n \<le> 65535 \<Longrightarrow> unat (word_of_nat n :: u16) = n"
  by (simp add: unat_of_nat)

lemma nth_at: "length pre = n \<Longrightarrow> (pre @ x # post) ! n = x"
  by (simp add: nth_append)

lemma take_drop_at: "length P = n \<Longrightarrow> length x = k \<Longrightarrow> take k (drop n (P @ x @ r)) = x"
  by simp

lemma drop_at: "length P = n \<Longrightarrow> drop n (P @ r) = r"
  by simp

lemma be16_at_append: "length a = i \<Longrightarrow> be16_at i (a @ to_be16 w @ b) = w"
  by (simp add: be16_at_def)

section \<open>Interface: self-delimiting wire formats\<close>

text \<open>
  \<open>enc\<close> writes a value, \<open>dec\<close> peels one value off the front of a byte string and hands back the
  rest. \<open>ok\<close> says which values the format can carry. The lemmas are what a reader that calls
  \<open>dec\<close> in a loop relies on: encodings are prefix-free, and a concatenation of encodings is read
  back as the list of values, whatever loop drives \<open>dec\<close>.
\<close>

locale wire_codec =
  fixes enc :: "'a \<Rightarrow> u8 list"
    and dec :: "u8 list \<Rightarrow> ('e, 'a \<times> u8 list) res"
    and ok :: "'a \<Rightarrow> bool"
  assumes dec_enc: "ok a \<Longrightarrow> dec (enc a @ rest) = Ok (a, rest)"
    and dec_shrinks: "dec bs = Ok (a, rest) \<Longrightarrow> length rest < length bs"
begin

lemma enc_nonempty: "ok a \<Longrightarrow> enc a \<noteq> []"
  using dec_enc [of a "[]"] by (auto dest: dec_shrinks)

lemma enc_prefix_free:
  assumes "ok a" and "ok b" and eq: "enc a @ r = enc b @ s"
  shows "a = b \<and> r = s"
proof -
  from \<open>ok a\<close> have "dec (enc b @ s) = Ok (a, r)" unfolding eq [symmetric] by (rule dec_enc)
  with dec_enc [OF \<open>ok b\<close>, of s] show ?thesis by simp
qed

lemma enc_inj: "ok a \<Longrightarrow> ok b \<Longrightarrow> enc a = enc b \<Longrightarrow> a = b"
  using enc_prefix_free [of a b "[]" "[]"] by simp

lemma loop_decodes:
  assumes loop: "\<And>bs. f bs = (if bs = [] then Ok []
      else case dec bs of Ok (a, r) \<Rightarrow> rbind (f r) (\<lambda>as. Ok (a # as)) | Err _ \<Rightarrow> Ok [] | Panic \<Rightarrow> Panic)"
    and "\<forall>a \<in> set xs. ok a"
  shows "f (concat (map enc xs)) = Ok xs"
  using assms(2)
proof (induction xs)
  case Nil
  show ?case by (subst loop) simp
next
  case (Cons a xs)
  then have "enc a \<noteq> []" by (simp add: enc_nonempty)
  with Cons show ?case by (simp add: dec_enc loop [of "enc a @ concat (map enc xs)"])
qed

lemma dec_Nil: "dec [] \<noteq> Ok (a, r)"
  by (auto dest: dec_shrinks)

lemma loop_folds:
  assumes loop: "\<And>s bs. f s bs = (case dec bs of Ok (a, r) \<Rightarrow> f (h s a) r | _ \<Rightarrow> s)"
    and "\<forall>a \<in> set xs. ok a"
  shows "f s (concat (map enc xs)) = foldl h s xs"
  using assms(2)
proof (induction xs arbitrary: s)
  case Nil
  show ?case by (subst loop) (auto simp: dec_Nil split: res.splits)
next
  case (Cons a xs)
  then show ?case by (simp add: dec_enc loop [of s "enc a @ concat (map enc xs)"])
qed

end

section \<open>Interface: inductive invariants\<close>

inductive reach :: "('s \<Rightarrow> bool) \<Rightarrow> ('s \<Rightarrow> 's \<Rightarrow> bool) \<Rightarrow> 's \<Rightarrow> bool" for init step where
  reach_init: "init s \<Longrightarrow> reach init step s"
| reach_step: "reach init step s \<Longrightarrow> step s t \<Longrightarrow> reach init step t"

locale inv_system =
  fixes init :: "'s \<Rightarrow> bool" and step :: "'s \<Rightarrow> 's \<Rightarrow> bool" and inv :: "'s \<Rightarrow> bool"
  assumes inv_init: "init s \<Longrightarrow> inv s"
    and inv_step: "inv s \<Longrightarrow> step s t \<Longrightarrow> inv t"
begin

lemma inv_reach: "reach init step s \<Longrightarrow> inv s"
  by (induction rule: reach.induct) (auto intro: inv_init inv_step)

lemma inv_steps: "step\<^sup>*\<^sup>* s t \<Longrightarrow> inv s \<Longrightarrow> inv t"
  by (induction rule: rtranclp_induct) (auto intro: inv_step)

end

end
