(* ===== verification/Signals.thy ===== *)
theory Signals
  imports Prelude
begin

text \<open>
  \<^verbatim>\<open>common/signal.rs\<close>: the done notification under any interleaving of its waiters and closers, the notifier, the semaphore, the subscription with its bounded channel, and the
  activity timer. The primitives of \<^verbatim>\<open>tokio::sync\<close> are modelled as documented: \<^verbatim>\<open>notify_waiters\<close> wakes every future that was created before it,
  \<^verbatim>\<open>notify_one\<close> wakes one waiter or leaves one permit, and a \<^verbatim>\<open>broadcast\<close> channel keeps its last messages.
\<close>

section \<open>Done\<close>

text \<open>Where a waiter is: before the first check, behind it, with the future created at a count of wake-ups, waiting on it, returned. Where a closer is: before the swap, to notify,
  returned.\<close>

datatype waiter_pc = W_start | W_open | W_created nat | W_parked nat | W_returned

datatype closer_pc = C_start | C_notify | C_returned

record done_state =
  dn_closed :: bool
  dn_calls :: nat
  dn_waiter :: "nat \<Rightarrow> waiter_pc"
  dn_closer :: "nat \<Rightarrow> closer_pc"

definition done_new :: done_state where
  "done_new = \<lparr>dn_closed = False, dn_calls = 0, dn_waiter = (\<lambda>_. W_start), dn_closer = (\<lambda>_. C_start)\<rparr>"

definition wait_step :: "nat \<Rightarrow> done_state \<Rightarrow> done_state" where
  "wait_step i s =
     (let go = (\<lambda>pc. s\<lparr>dn_waiter := (dn_waiter s)(i := pc)\<rparr>) in
      case dn_waiter s i of
        W_start \<Rightarrow> go (if dn_closed s then W_returned else W_open)
      | W_open \<Rightarrow> go (W_created (dn_calls s))
      | W_created n \<Rightarrow> go (if dn_closed s then W_returned else W_parked n)
      | W_parked n \<Rightarrow> if dn_calls s = n then s else go W_returned
      | W_returned \<Rightarrow> s)"

definition close_step :: "nat \<Rightarrow> done_state \<Rightarrow> done_state" where
  "close_step j s =
     (case dn_closer s j of
        C_start \<Rightarrow>
          if dn_closed s then s\<lparr>dn_closer := (dn_closer s)(j := C_returned)\<rparr>
          else s\<lparr>dn_closed := True, dn_closer := (dn_closer s)(j := C_notify)\<rparr>
      | C_notify \<Rightarrow> s\<lparr>dn_calls := dn_calls s + 1, dn_closer := (dn_closer s)(j := C_returned)\<rparr>
      | C_returned \<Rightarrow> s)"

inductive done_reachable :: "done_state \<Rightarrow> bool" where
  reach_new: "done_reachable done_new"
| reach_wait: "done_reachable s \<Longrightarrow> done_reachable (wait_step i s)"
| reach_close: "done_reachable s \<Longrightarrow> done_reachable (close_step j s)"

definition done_inv :: "done_state \<Rightarrow> bool" where
  "done_inv s \<longleftrightarrow>
     (if dn_closed s then (\<exists>j. dn_closer s j = C_notify) \<or> 0 < dn_calls s
      else dn_calls s = 0 \<and> (\<forall>j. dn_closer s j = C_start)) \<and>
     (\<forall>i n. dn_waiter s i = W_parked n \<longrightarrow> n = 0) \<and>
     (\<not> dn_closed s \<longrightarrow> (\<forall>i n. dn_waiter s i = W_created n \<longrightarrow> n = 0))"

lemma wait_step_inv: "done_inv s \<Longrightarrow> done_inv (wait_step i s)"
  by (cases "dn_waiter s i") (auto simp: done_inv_def wait_step_def split: if_splits)

lemma close_step_inv:
  assumes "done_inv s"
  shows "done_inv (close_step j s)"
proof (cases "dn_closer s j")
  case C_start
  then have "(\<exists>j'. ((dn_closer s)(j := C_returned)) j' = C_notify) \<longleftrightarrow> (\<exists>j'. dn_closer s j' = C_notify)" by (metis closer_pc.distinct(1,5) fun_upd_apply)
  moreover have "\<exists>j'. ((dn_closer s)(j := C_notify)) j' = C_notify" by (rule exI [of _ j]) simp
  ultimately show ?thesis using assms C_start by (auto simp: done_inv_def close_step_def simp del: fun_upd_apply)
qed (use assms in \<open>auto simp: done_inv_def close_step_def split: if_splits\<close>)

lemma done_reachable_inv: "done_reachable s \<Longrightarrow> done_inv s"
proof (induction rule: done_reachable.induct)
  case reach_new
  show ?case by (simp add: done_inv_def done_new_def)
qed (simp_all add: wait_step_inv close_step_inv)

text \<open>C40. No wake-up is lost: under every interleaving of waiters and closers, once some \<open>close\<close> has returned and none is between its swap and its notification, every waiter
  returns, after at most four steps of its own.\<close>
theorem done_wakes_all:
  assumes "done_reachable s" and "dn_closed s" and "\<forall>j. dn_closer s j \<noteq> C_notify"
  shows "dn_waiter ((wait_step i ^^ 4) s) i = W_returned"
proof -
  have inv: "done_inv s" "0 < dn_calls s" using done_reachable_inv [OF assms(1)] assms(2,3) by (auto simp: done_inv_def)
  have f: "(wait_step i ^^ 4) s = wait_step i (wait_step i (wait_step i (wait_step i s)))" by (simp add: numeral_eq_Suc)
  show ?thesis
  proof (cases "dn_waiter s i")
    case (W_parked n)
    then have "n = 0" using inv(1) by (auto simp: done_inv_def)
    then show ?thesis using W_parked inv(2) by (simp add: f wait_step_def)
  qed (use assms(2) in \<open>simp_all add: f wait_step_def\<close>)
qed

theorem done_wakes_all_witness:
  "dn_waiter ((wait_step 0 ^^ 4) (close_step 7 (close_step 7 (wait_step 0 (wait_step 0 (wait_step 0 done_new)))))) 0 = W_returned"
proof (rule done_wakes_all)
  show "done_reachable (close_step 7 (close_step 7 (wait_step 0 (wait_step 0 (wait_step 0 done_new)))))"
    by (intro done_reachable.intros)
qed (simp_all add: close_step_def wait_step_def done_new_def)

section \<open>Notifier and semaphore\<close>

record notifier =
  nt_permit :: bool
  nt_queue :: "nat list"

definition notifier_new :: notifier where
  "notifier_new = \<lparr>nt_permit = False, nt_queue = []\<rparr>"

text \<open>A signal wakes the waiter at the front, which is the first component, or leaves a permit; waiting takes the permit or queues up.\<close>

definition nt_signal :: "notifier \<Rightarrow> nat option \<times> notifier" where
  "nt_signal n = (case nt_queue n of [] \<Rightarrow> (None, n\<lparr>nt_permit := True\<rparr>) | w # ws \<Rightarrow> (Some w, n\<lparr>nt_queue := ws\<rparr>))"

definition nt_wait :: "nat \<Rightarrow> notifier \<Rightarrow> bool \<times> notifier" where
  "nt_wait w n = (if nt_permit n then (True, n\<lparr>nt_permit := False\<rparr>) else (False, n\<lparr>nt_queue := nt_queue n @ [w]\<rparr>))"

definition sem_try_wait :: "nat \<Rightarrow> bool \<times> nat" where
  "sem_try_wait permits = (if 0 < permits then (True, permits - 1) else (False, permits))"

definition sem_signal_n :: "nat \<Rightarrow> nat \<Rightarrow> nat" where
  "sem_signal_n n permits = permits + n"

text \<open>A signal without a waiter is kept for the next one; several are one.\<close>

lemma signal_kept: "nt_queue n = [] \<Longrightarrow> fst (nt_wait w (snd (nt_signal n)))"
  by (simp add: nt_signal_def nt_wait_def)

lemma signals_merge: "nt_queue n = [] \<Longrightarrow> snd (nt_signal (snd (nt_signal n))) = snd (nt_signal n)"
  by (simp add: nt_signal_def)

section \<open>Subscriptions\<close>

text \<open>The channel keeps its last 256 messages; a subscription is the number of the next message it will read and whether it is closed. \<^term>\<open>None\<close> of the outer option is waiting.\<close>

definition CHANNEL_CAP :: nat where "CHANNEL_CAP = 256"

record pubsub =
  ps_log :: "string list"

record subscription =
  sb_next :: nat
  sb_closed :: bool

definition ps_subscribe :: "pubsub \<Rightarrow> subscription" where
  "ps_subscribe p = \<lparr>sb_next = length (ps_log p), sb_closed = False\<rparr>"

definition ps_publish :: "string \<Rightarrow> pubsub \<Rightarrow> pubsub" where
  "ps_publish m p = p\<lparr>ps_log := ps_log p @ [m]\<rparr>"

definition sb_close :: "subscription \<Rightarrow> subscription" where
  "sb_close s = s\<lparr>sb_closed := True\<rparr>"

text \<open>The two futures are polled in any order; \<open>first\<close> says whether the channel's is.\<close>

definition sb_recv :: "bool \<Rightarrow> pubsub \<Rightarrow> subscription \<Rightarrow> string option option \<times> subscription" where
  "sb_recv first p s =
     (let oldest = length (ps_log p) - CHANNEL_CAP;
          msg = (if sb_next s < oldest then Some (None, s\<lparr>sb_next := oldest\<rparr>)
                 else if sb_next s < length (ps_log p) then Some (Some (ps_log p ! sb_next s), s\<lparr>sb_next := sb_next s + 1\<rparr>)
                 else None)
      in if sb_closed s \<and> (\<not> first \<or> msg = None) then (Some None, s)
         else case msg of Some (m, s) \<Rightarrow> (Some m, s) | None \<Rightarrow> (None, s))"

text \<open>A subscriber that keeps up reads every message published since it subscribed, in order; one that falls behind by more than the capacity is told the subscription has ended,
  although the messages that are kept are still there.\<close>

fun recv_all :: "nat \<Rightarrow> pubsub \<Rightarrow> subscription \<Rightarrow> string option list" where
  "recv_all 0 p s = []"
| "recv_all (Suc k) p s = (case sb_recv True p s of (Some m, s) \<Rightarrow> m # recv_all k p s | (None, s) \<Rightarrow> [])"

lemma subscriber_reads_all:
  assumes "length (ps_log p) - sb_next s \<le> CHANNEL_CAP" and "sb_next s \<le> length (ps_log p)" and "\<not> sb_closed s"
  shows "recv_all (length (ps_log p) - sb_next s) p s = map Some (drop (sb_next s) (ps_log p))"
  using assms
proof (induction "length (ps_log p) - sb_next s" arbitrary: s)
  case (Suc k)
  have lt: "sb_next s < length (ps_log p)" using Suc.hyps(2) by simp
  have r: "sb_recv True p s = (Some (Some (ps_log p ! sb_next s)), s\<lparr>sb_next := sb_next s + 1\<rparr>)"
    using Suc.prems lt by (auto simp: sb_recv_def Let_def)
  have "recv_all k p (s\<lparr>sb_next := sb_next s + 1\<rparr>) = map Some (drop (sb_next s + 1) (ps_log p))"
  proof -
    have "k = length (ps_log p) - sb_next (s\<lparr>sb_next := sb_next s + 1\<rparr>)" using Suc.hyps(2) by simp
    from Suc.hyps(1) [OF this] this Suc.prems lt show ?thesis by simp
  qed
  then show ?case using Suc.hyps(2) [symmetric] r lt by (simp add: Cons_nth_drop_Suc [symmetric])
qed simp

lemma lagging_reads_end:
  assumes "sb_next s + CHANNEL_CAP < length (ps_log p)" and "\<not> sb_closed s"
  shows "fst (sb_recv first p s) = Some None"
  using assms by (simp add: sb_recv_def Let_def)

section \<open>The activity timer\<close>

text \<open>One task: it sleeps from the last activity; the times of the updates decide when it fires.\<close>

fun fire_time :: "nat \<Rightarrow> nat \<Rightarrow> nat list \<Rightarrow> nat" where
  "fire_time timeout t [] = t + timeout"
| "fire_time timeout t (u # us) = (if u < t + timeout then fire_time timeout u us else t + timeout)"

text \<open>\<open>set_timeout\<close> on a timer whose flag is \<open>consumed\<close>: when its callback runs, if no other task of the timer and no \<open>cancel\<close> comes first.\<close>

definition timer_set_timeout :: "bool \<Rightarrow> nat \<Rightarrow> nat \<Rightarrow> nat list \<Rightarrow> nat option" where
  "timer_set_timeout consumed now timeout updates =
     (if consumed then None else if timeout = 0 then Some now else Some (fire_time timeout now updates))"

text \<open>The timer fires when the timeout has passed since the last update that came in time, and never within the timeout after an update.\<close>

lemma fire_time_after_updates:
  assumes "sorted (t # us)" and "\<forall>i < length us. us ! i < (t # us) ! i + timeout"
  shows "fire_time timeout t us = last (t # us) + timeout"
  using assms
proof (induction us arbitrary: t)
  case (Cons u us)
  have "u < t + timeout" using Cons.prems(2) by (auto dest: spec [of _ 0])
  moreover have "fire_time timeout u us = last (u # us) + timeout"
  proof (rule Cons.IH)
    show "\<forall>i < length us. us ! i < (u # us) ! i + timeout" using Cons.prems(2) by (auto dest: spec [of _ "Suc _"])
  qed (use Cons.prems(1) in simp)
  ultimately show ?case by simp
qed simp

lemma fire_time_never_early: "\<forall>u \<in> set us. t \<le> u \<Longrightarrow> sorted us \<Longrightarrow> t + timeout \<le> fire_time timeout t us"
proof (induction us arbitrary: t)
  case (Cons u us)
  have "u + timeout \<le> fire_time timeout u us" using Cons by simp
  then show ?case using Cons.prems(1) by auto
qed simp

end
