(* ===== verification/Std_Text.thy ===== *)
theory Std_Text
  imports Prelude
begin

text \<open>
  The parts of Rust's standard library for text that the code relies on: decimal printing and
  parsing of integers, \<^verbatim>\<open>str::strip_prefix\<close>, \<^verbatim>\<open>strip_suffix\<close>, \<^verbatim>\<open>find\<close> and \<^verbatim>\<open>rfind\<close>, and the parsers and
  printers of \<^verbatim>\<open>std::net::Ipv4Addr\<close> and \<^verbatim>\<open>Ipv6Addr\<close>. The main results are the inverses: what
  an integer or an IPv4 address prints as is read back.
\<close>

section \<open>Digits and integers\<close>

definition digit_char :: "nat \<Rightarrow> char" where
  "digit_char d = (if d < 10 then char_of (48 + d) else char_of (87 + d))"

definition to_digit :: "nat \<Rightarrow> char \<Rightarrow> nat option" where
  "to_digit radix c =
     (let n = of_char c :: nat;
          d = (if 48 \<le> n \<and> n \<le> 57 then Some (n - 48)
               else if 97 \<le> n \<and> n \<le> 122 then Some (n - 87)
               else if 65 \<le> n \<and> n \<le> 90 then Some (n - 55) else None)
      in case d of Some k \<Rightarrow> (if k < radix then Some k else None) | None \<Rightarrow> None)"

function radix_digits :: "nat \<Rightarrow> nat \<Rightarrow> nat list" where
  "radix_digits r n = (if n < r \<or> r < 2 then [n] else radix_digits r (n div r) @ [n mod r])"
  by pat_completeness auto
termination
  by (relation "measure snd") auto

declare radix_digits.simps [simp del]

text \<open>Printing with \<^verbatim>\<open>{}\<close> is \<open>show_nat\<close>, with \<^verbatim>\<open>{:x}\<close> it is \<open>show_hex\<close>.\<close>

definition show_nat :: "nat \<Rightarrow> string" where "show_nat n = map digit_char (radix_digits 10 n)"
definition show_hex :: "nat \<Rightarrow> string" where "show_hex n = map digit_char (radix_digits 16 n)"

text \<open>A byte printed with \<^verbatim>\<open>{:02x}\<close>.\<close>

definition hex2 :: "u8 \<Rightarrow> string" where
  "hex2 b = (if unat b < 16 then ''0'' else []) @ show_hex (unat b)"

fun span_digits :: "nat \<Rightarrow> string \<Rightarrow> nat list \<times> string" where
  "span_digits r [] = ([], [])"
| "span_digits r (c # cs) =
     (case to_digit r c of
        Some d \<Rightarrow> (let (ds, rest) = span_digits r cs in (d # ds, rest))
      | None \<Rightarrow> ([], c # cs))"

definition digits_value :: "nat \<Rightarrow> nat list \<Rightarrow> nat" where
  "digits_value r ds = foldl (\<lambda>a d. a * r + d) 0 ds"

text \<open>
  \<^verbatim>\<open>str::parse::<u32>()\<close>: an optional plus sign, then one or more decimal digits and nothing
  else, and no overflow. \<open>None\<close> is any of the error kinds.
\<close>

definition parse_unsigned :: "nat \<Rightarrow> string \<Rightarrow> nat option" where
  "parse_unsigned maxv s =
     (let t = (case s of c # cs \<Rightarrow> (if c = CHR ''+'' \<and> cs \<noteq> [] then cs else s) | [] \<Rightarrow> [])
      in case span_digits 10 t of (ds, rest) \<Rightarrow>
        if ds = [] \<or> rest \<noteq> [] \<or> maxv < digits_value 10 ds then None
        else Some (digits_value 10 ds))"

abbreviation parse_u32 :: "string \<Rightarrow> nat option" where
  "parse_u32 \<equiv> parse_unsigned 4294967295"

lemma radix_digits_bound: "2 \<le> r \<Longrightarrow> d \<in> set (radix_digits r n) \<Longrightarrow> d < r"
proof (induction r n rule: radix_digits.induct)
  case (1 r n)
  then show ?case by (subst (asm) radix_digits.simps) (auto split: if_splits)
qed

lemma radix_digits_nonempty [simp]: "radix_digits r n \<noteq> []"
  by (subst radix_digits.simps) simp

lemma digits_value_snoc: "digits_value r (ds @ [d]) = digits_value r ds * r + d"
  by (simp add: digits_value_def)

lemma digits_value_radix_digits [simp]: "digits_value r (radix_digits r n) = n"
proof (induction r n rule: radix_digits.induct)
  case (1 r n)
  show ?case
  proof (cases "n < r \<or> r < 2")
    case True
    then show ?thesis by (simp add: radix_digits.simps [of r n] digits_value_def)
  next
    case False
    with 1 show ?thesis by (simp add: radix_digits.simps [of r n] digits_value_snoc)
  qed
qed

lemma to_digit_digit_char [simp]: "d < r \<Longrightarrow> r \<le> 16 \<Longrightarrow> to_digit r (digit_char d) = Some d"
  by (auto simp: to_digit_def digit_char_def Let_def)

lemma span_digits_append:
  "\<forall>d \<in> set ds. d < r \<Longrightarrow> r \<le> 16 \<Longrightarrow> rest = [] \<or> to_digit r (hd rest) = None \<Longrightarrow>
   span_digits r (map digit_char ds @ rest) = (ds, rest)"
proof (induction ds)
  case Nil
  then show ?case by (cases rest) auto
qed auto

lemma span_show_nat [simp]:
  "rest = [] \<or> to_digit 10 (hd rest) = None \<Longrightarrow>
   span_digits 10 (show_nat n @ rest) = (radix_digits 10 n, rest)"
  unfolding show_nat_def by (rule span_digits_append) (auto dest: radix_digits_bound [rotated])

lemma span_show_nat_Nil [simp]: "span_digits 10 (show_nat n) = (radix_digits 10 n, [])"
  using span_show_nat [of "[]" n] by simp

lemma show_nat_chars: "c \<in> set (show_nat n) \<Longrightarrow> 48 \<le> (of_char c :: nat) \<and> (of_char c :: nat) \<le> 57"
proof -
  assume "c \<in> set (show_nat n)"
  then obtain d where "d \<in> set (radix_digits 10 n)" and c: "c = digit_char d"
    by (auto simp: show_nat_def)
  then have "d < 10" using radix_digits_bound [of 10 d n] by simp
  then show ?thesis by (auto simp: c digit_char_def)
qed

lemma show_nat_nonempty [simp]: "show_nat n \<noteq> []"
  by (simp add: show_nat_def)

lemma parse_show_nat [simp]: "n \<le> maxv \<Longrightarrow> parse_unsigned maxv (show_nat n) = Some n"
proof -
  assume n: "n \<le> maxv"
  obtain c cs where s: "show_nat n = c # cs" by (cases "show_nat n") auto
  then have "c \<noteq> CHR ''+''" using show_nat_chars [of c n] by auto
  then have "(case show_nat n of c # cs \<Rightarrow> (if c = CHR ''+'' \<and> cs \<noteq> [] then cs else show_nat n)
              | [] \<Rightarrow> []) = show_nat n" by (simp add: s)
  with n show ?thesis by (simp add: parse_unsigned_def)
qed

lemma length_radix_digits: "2 \<le> r \<Longrightarrow> n < r ^ k \<Longrightarrow> 0 < k \<Longrightarrow> length (radix_digits r n) \<le> k"
proof (induction r n arbitrary: k rule: radix_digits.induct)
  case (1 r n)
  show ?case
  proof (cases "n < r \<or> r < 2")
    case True
    with 1 show ?thesis by (simp add: radix_digits.simps [of r n])
  next
    case False
    with "1.prems" obtain j where k: "k = Suc j" and j: "0 < j"
      by (cases k; cases "k - 1") auto
    have "n div r < r ^ j" using "1.prems" k by (simp add: less_mult_imp_div_less mult.commute)
    with "1.IH" False "1.prems" j have "length (radix_digits r (n div r)) \<le> j" by simp
    with False k show ?thesis by (simp add: radix_digits.simps [of r n])
  qed
qed

lemma radix_digits_no_leading_zero:
  "2 \<le> r \<Longrightarrow> hd (radix_digits r n) = 0 \<Longrightarrow> length (radix_digits r n) = 1"
proof (induction r n rule: radix_digits.induct)
  case (1 r n)
  show ?case
  proof (cases "n < r \<or> r < 2")
    case True
    then show ?thesis by (simp add: radix_digits.simps [of r n])
  next
    case False
    with 1 have hd0: "hd (radix_digits r (n div r)) = 0"
      by (simp add: radix_digits.simps [of r n])
    with 1 False have "length (radix_digits r (n div r)) = 1" by simp
    with hd0 have "radix_digits r (n div r) = [0]" by (cases "radix_digits r (n div r)") auto
    then have "n div r = 0" using digits_value_radix_digits [of r "n div r"]
      by (simp add: digits_value_def)
    with False "1.prems" show ?thesis by (simp add: div_eq_0_iff)
  qed
qed

section \<open>Searching and stripping\<close>

fun strip_prefix :: "string \<Rightarrow> string \<Rightarrow> string option" where
  "strip_prefix [] s = Some s"
| "strip_prefix (p # ps) (c # cs) = (if p = c then strip_prefix ps cs else None)"
| "strip_prefix (p # ps) [] = None"

definition strip_suffix_char :: "char \<Rightarrow> string \<Rightarrow> string option" where
  "strip_suffix_char c s = (if s \<noteq> [] \<and> last s = c then Some (butlast s) else None)"

text \<open>\<open>find_char\<close> and \<open>rfind_char\<close>: the byte index of the first and of the last occurrence.\<close>

fun find_char :: "char \<Rightarrow> string \<Rightarrow> nat option" where
  "find_char x [] = None"
| "find_char x (c # cs) = (if c = x then Some 0 else map_option Suc (find_char x cs))"

definition rfind_char :: "char \<Rightarrow> string \<Rightarrow> nat option" where
  "rfind_char x s = map_option (\<lambda>i. length s - Suc i) (find_char x (rev s))"

lemma strip_prefix_append [simp]: "strip_prefix p (p @ s) = Some s"
  by (induction p) auto

lemma strip_prefix_Some: "strip_prefix p s = Some t \<longleftrightarrow> s = p @ t"
  by (induction p s rule: strip_prefix.induct) auto

lemma find_char_append [simp]: "x \<notin> set s \<Longrightarrow> find_char x (s @ x # t) = Some (length s)"
  by (induction s) auto

lemma rfind_char_append [simp]: "x \<notin> set t \<Longrightarrow> rfind_char x (s @ x # t) = Some (length s)"
  by (simp add: rfind_char_def)

section \<open>IPv4 and IPv6 text\<close>

text \<open>
  The parsers are those of \<^verbatim>\<open>core::net::parser\<close>: a parser takes the rest of the input and returns
  a value with what is left, or nothing and leaves the input alone (\<^verbatim>\<open>read_atomically\<close>).
\<close>

definition read_number :: "nat \<Rightarrow> nat \<Rightarrow> bool \<Rightarrow> nat \<Rightarrow> string \<Rightarrow> (nat \<times> string) option" where
  "read_number radix max_digits allow_zero_prefix maxv s =
     (case span_digits radix s of (ds, rest) \<Rightarrow>
        if ds = [] \<or> max_digits < length ds \<or> maxv < digits_value radix ds
           \<or> (\<not> allow_zero_prefix \<and> hd ds = 0 \<and> 1 < length ds)
        then None else Some (digits_value radix ds, rest))"

definition read_separator ::
  "char \<Rightarrow> nat \<Rightarrow> (string \<Rightarrow> ('a \<times> string) option) \<Rightarrow> string \<Rightarrow> ('a \<times> string) option" where
  "read_separator sep i inner s =
     (if 0 < i then (case strip_prefix [sep] s of Some t \<Rightarrow> inner t | None \<Rightarrow> None) else inner s)"

primrec read_octets :: "nat \<Rightarrow> nat \<Rightarrow> string \<Rightarrow> (u8 list \<times> string) option" where
  "read_octets 0 i s = Some ([], s)"
| "read_octets (Suc k) i s =
     (case read_separator (CHR ''.'') i (read_number 10 3 False 255) s of
        None \<Rightarrow> None
      | Some (n, t) \<Rightarrow> map_option (\<lambda>(os, r). (word_of_nat n # os, r)) (read_octets k (Suc i) t))"

definition read_ipv4_addr :: "string \<Rightarrow> (u8 list \<times> string) option" where
  "read_ipv4_addr s = read_octets 4 0 s"

definition parse_ipv4 :: "string \<Rightarrow> u8 list option" where
  "parse_ipv4 s =
     (if 15 < length s then None
      else case read_ipv4_addr s of Some (os, []) \<Rightarrow> Some os | _ \<Rightarrow> None)"

function read_groups :: "nat \<Rightarrow> nat \<Rightarrow> string \<Rightarrow> u8 list list \<times> bool \<times> string" where
  "read_groups limit i s =
     (if limit \<le> i then ([], False, s)
      else case (if i + 1 < limit then read_separator (CHR '':'') i read_ipv4_addr s else None) of
        Some (os, t) \<Rightarrow> ([take 2 os, drop 2 os], True, t)
      | None \<Rightarrow>
         (case read_separator (CHR '':'') i (read_number 16 4 True 65535) s of
            Some (g, t) \<Rightarrow>
              (case read_groups limit (Suc i) t of (gs, v4, r) \<Rightarrow> (be_bytes 2 g # gs, v4, r))
          | None \<Rightarrow> ([], False, s)))"
  by pat_completeness auto
termination
  by (relation "measure (\<lambda>(limit, i, s). limit - i)") auto

declare read_groups.simps [simp del]

definition read_ipv6_addr :: "string \<Rightarrow> (u8 list \<times> string) option" where
  "read_ipv6_addr s =
     (case read_groups 8 0 s of (head, head_ipv4, t) \<Rightarrow>
        if length head = 8 then Some (concat head, t)
        else if head_ipv4 then None
        else (case strip_prefix ''::'' t of
          None \<Rightarrow> None
        | Some t' \<Rightarrow>
           (case read_groups (8 - (length head + 1)) 0 t' of (tail, _, r) \<Rightarrow>
              Some (concat head @ replicate (16 - 2 * length head - 2 * length tail) 0 @ concat tail, r))))"

definition parse_ipv6 :: "string \<Rightarrow> u8 list option" where
  "parse_ipv6 s = (case read_ipv6_addr s of Some (os, []) \<Rightarrow> Some os | _ \<Rightarrow> None)"

text \<open>\<^verbatim>\<open>Display\<close> of the two address types; an IPv6 address is 16 octets, that is 8 segments.\<close>

definition show_ipv4 :: "u8 list \<Rightarrow> string" where
  "show_ipv4 b =
     show_nat (unat (b ! 0)) @ ''.'' @ show_nat (unat (b ! 1)) @ ''.''
       @ show_nat (unat (b ! 2)) @ ''.'' @ show_nat (unat (b ! 3))"

definition segments :: "u8 list \<Rightarrow> nat list" where
  "segments b = map (\<lambda>i. be_value (take 2 (drop (2 * i) b))) [0..<8]"

text \<open>
  The longest run of zero segments, the first one when several are longest: \<open>start\<close> and \<open>len\<close> of
  the current run and of the longest one so far.
\<close>

fun longest_zeros :: "nat \<Rightarrow> nat \<times> nat \<Rightarrow> nat \<times> nat \<Rightarrow> nat list \<Rightarrow> nat \<times> nat" where
  "longest_zeros i cur best [] = best"
| "longest_zeros i (start, len) best (x # xs) =
     (if x = 0
      then let cur = (if len = 0 then i else start, Suc len)
           in longest_zeros (Suc i) cur (if snd best < snd cur then cur else best) xs
      else longest_zeros (Suc i) (0, 0) best xs)"

fun join :: "string \<Rightarrow> string list \<Rightarrow> string" where
  "join sep [] = []"
| "join sep [s] = s"
| "join sep (s # t # ts) = s @ sep @ join sep (t # ts)"

definition show_ipv6 :: "u8 list \<Rightarrow> string" where
  "show_ipv6 b =
     (if take 12 b = [0, 0, 0, 0, 0, 0, 0, 0, 0, 0, 0xff, 0xff]
      then ''::ffff:'' @ show_ipv4 (drop 12 b)
      else let segs = segments b; (start, len) = longest_zeros 0 (0, 0) (0, 0) segs
           in if 1 < len
              then join '':'' (map show_hex (take start segs)) @ ''::''
                   @ join '':'' (map show_hex (drop (start + len) segs))
              else join '':'' (map show_hex segs))"

lemma read_octets_4: "read_octets 4 0 s = read_octets (Suc (Suc (Suc (Suc 0)))) 0 s"
  by (simp only: eval_nat_numeral BitM.simps One_nat_def)

lemmas parser_eval = parse_ipv4_def read_ipv4_addr_def read_octets_4 read_separator_def
  read_number_def to_digit_def parse_ipv6_def read_ipv6_addr_def read_groups.simps
  digits_value_def parse_unsigned_def

lemma read_octet_show:
  assumes "rest = [] \<or> to_digit 10 (hd rest) = None"
  shows "read_number 10 3 False 255 (show_nat (unat (b :: u8)) @ rest) = Some (unat b, rest)"
proof -
  have b: "unat b < 256" using unat_bound [of b] by simp
  then have "length (radix_digits 10 (unat b)) \<le> 3" by (intro length_radix_digits) auto
  moreover have "hd (radix_digits 10 (unat b)) = 0 \<Longrightarrow> length (radix_digits 10 (unat b)) = 1"
    by (rule radix_digits_no_leading_zero) auto
  ultimately show ?thesis using b assms by (auto simp: read_number_def)
qed

lemma read_octet_show_Nil:
  "read_number 10 3 False 255 (show_nat (unat (b :: u8))) = Some (unat b, [])"
  using read_octet_show [of "[]" b] by simp

lemma dot_no_digit [simp]: "to_digit 10 (CHR ''.'') = None"
  by (simp add: to_digit_def)

lemma length_show_octet: "length (show_nat (unat (b :: u8))) \<le> 3"
  using unat_bound [of b] by (simp add: show_nat_def length_radix_digits)

lemma parse_show_ipv4 [simp]:
  assumes "length b = 4"
  shows "parse_ipv4 (show_ipv4 b) = Some b"
proof -
  from assms obtain w x y z where b: "b = [w, x, y, z]"
    by (auto simp: length_Suc_conv numeral_eq_Suc)
  have "length (show_ipv4 b) \<le> 15"
    using length_show_octet [of w] length_show_octet [of x] length_show_octet [of y]
      length_show_octet [of z] by (simp add: show_ipv4_def b)
  moreover have "read_ipv4_addr (show_ipv4 b) = Some (b, [])"
    by (simp add: read_ipv4_addr_def show_ipv4_def b read_separator_def read_octets_4
        read_octet_show read_octet_show_Nil)
  ultimately show ?thesis by (simp add: parse_ipv4_def)
qed

lemma show_ipv4_chars:
  "length b = 4 \<Longrightarrow> c \<in> set (show_ipv4 b) \<Longrightarrow>
   c = CHR ''.'' \<or> (48 \<le> (of_char c :: nat) \<and> (of_char c :: nat) \<le> 57)"
  by (auto simp: show_ipv4_def dest: show_nat_chars)

section \<open>Searching and trimming\<close>

definition starts_with :: "string \<Rightarrow> string \<Rightarrow> bool" where
  "starts_with p s \<longleftrightarrow> take (length p) s = p"

definition ends_with :: "string \<Rightarrow> string \<Rightarrow> bool" where
  "ends_with p s \<longleftrightarrow> starts_with (rev p) (rev s)"

fun contains_str :: "string \<Rightarrow> string \<Rightarrow> bool" where
  "contains_str p [] = (p = [])"
| "contains_str p (c # s) = (starts_with p (c # s) \<or> contains_str p s)"

definition trim_start_matches :: "char \<Rightarrow> string \<Rightarrow> string" where
  "trim_start_matches c s = dropWhile (\<lambda>x. x = c) s"

definition trim_end_matches :: "char \<Rightarrow> string \<Rightarrow> string" where
  "trim_end_matches c s = rev (dropWhile (\<lambda>x. x = c) (rev s))"

text \<open>\<open>trim_end_matches\<close> with a string pattern removes it as often as it is there.\<close>

function trim_end_str :: "string \<Rightarrow> string \<Rightarrow> string" where
  "trim_end_str p s =
     (if p \<noteq> [] \<and> ends_with p s \<and> s \<noteq> [] then trim_end_str p (take (length s - length p) s) else s)"
  by pat_completeness auto
termination
  by (relation "measure (length \<circ> snd)") (auto simp: min_def neq_Nil_conv)

declare trim_end_str.simps [simp del]

text \<open>
  \<open>trim\<close>: the white space of Unicode, as its UTF-8 bytes. Stripping one encoded character at a
  time; on text that is valid UTF-8 no encoding straddles a character.
\<close>

definition whitespace :: "string list" where
  "whitespace =
     map (\<lambda>n. [char_of n]) [9, 10, 11, 12, 13, 32 :: nat] @
     map (\<lambda>n. [char_of (0xC2 :: nat), char_of n]) [0x85, 0xA0 :: nat] @
     [[char_of (0xE1 :: nat), char_of (0x9A :: nat), char_of (0x80 :: nat)]] @
     map (\<lambda>n. [char_of (0xE2 :: nat), char_of (0x80 :: nat), char_of n])
       [0x80, 0x81, 0x82, 0x83, 0x84, 0x85, 0x86, 0x87, 0x88, 0x89, 0x8A, 0xA8, 0xA9, 0xAF :: nat] @
     [[char_of (0xE2 :: nat), char_of (0x81 :: nat), char_of (0x9F :: nat)],
      [char_of (0xE3 :: nat), char_of (0x80 :: nat), char_of (0x80 :: nat)]]"

lemma whitespace_nonempty: "w \<in> set whitespace \<Longrightarrow> w \<noteq> []"
  by (auto simp: whitespace_def)

function trim_prefixes :: "string list \<Rightarrow> string \<Rightarrow> string" where
  "trim_prefixes ws s =
     (case find (\<lambda>w. w \<noteq> [] \<and> starts_with w s) ws of
        Some w \<Rightarrow> if s = [] then s else trim_prefixes ws (drop (length w) s)
      | None \<Rightarrow> s)"
  by pat_completeness auto
termination
  by (relation "measure (length \<circ> snd)") (auto simp: find_Some_iff)

declare trim_prefixes.simps [simp del]

lemma trim_prefixes_none: "\<forall>w \<in> set ws. w = [] \<or> \<not> starts_with w s \<Longrightarrow> trim_prefixes ws s = s"
  by (subst trim_prefixes.simps) (auto simp: find_Some_iff split: option.splits dest: nth_mem)

lemma starts_with_hd: "starts_with w s \<Longrightarrow> w \<noteq> [] \<Longrightarrow> s \<noteq> [] \<and> hd s = hd w"
  by (cases w; cases s) (auto simp: starts_with_def)

definition trim_start :: "string \<Rightarrow> string" where "trim_start s = trim_prefixes whitespace s"
definition trim_end :: "string \<Rightarrow> string" where "trim_end s = rev (trim_prefixes (map rev whitespace) (rev s))"
definition trim :: "string \<Rightarrow> string" where "trim s = trim_end (trim_start s)"

text \<open>\<open>lines\<close>: split at line feeds, a carriage return before one dropped, no empty last line.\<close>

fun split_char :: "char \<Rightarrow> string \<Rightarrow> string list" where
  "split_char c [] = [[]]"
| "split_char c (x # s) =
     (if x = c then [] # split_char c s
      else case split_char c s of l # ls \<Rightarrow> (x # l) # ls | [] \<Rightarrow> [[x]])"

definition strip_cr :: "string \<Rightarrow> string" where
  "strip_cr l = (if l \<noteq> [] \<and> last l = CHR 0x0D then butlast l else l)"

definition str_lines :: "string \<Rightarrow> string list" where
  "str_lines s =
     (let ls = split_char (CHR 0x0A) s
      in map strip_cr (butlast ls) @ (if last ls = [] then [] else [last ls]))"

end
