(* ===== verification/Net.thy ===== *)
theory Net
  imports Std_Text
begin

text \<open>
  \<^verbatim>\<open>astra-core-net\<close>: addresses, ports, networks and destinations, with their text forms. An
  \<open>Ipv4\<close> address holds four octets and an \<open>Ipv6\<close> address sixteen (\<open>address_wf\<close>); the Rust types are
  fixed-size arrays. The results: every constructor builds a well-formed address, the IPv4-mapped
  form collapses, printing a destination and parsing it back is the identity, every textual form
  is parsed without a panic, and a port list as ranges agrees with its enumeration.
\<close>

section \<open>Addresses (address.rs)\<close>

datatype AddressFamily = FamIpv4 | FamIpv6 | FamDomain

definition is_ipv4 :: "AddressFamily \<Rightarrow> bool" where "is_ipv4 f = (f = FamIpv4)"
definition is_ipv6 :: "AddressFamily \<Rightarrow> bool" where "is_ipv6 f = (f = FamIpv6)"
definition is_ip :: "AddressFamily \<Rightarrow> bool" where "is_ip f = (f = FamIpv4 \<or> f = FamIpv6)"
definition is_domain :: "AddressFamily \<Rightarrow> bool" where "is_domain f = (f = FamDomain)"

datatype Address = Ipv4 "u8 list" | Ipv6 "u8 list" | Domain_a string

datatype IpAddr = V4 "u8 list" | V6 "u8 list"

fun family :: "Address \<Rightarrow> AddressFamily" where
  "family (Ipv4 _) = FamIpv4"
| "family (Ipv6 _) = FamIpv6"
| "family (Domain_a _) = FamDomain"

fun as_ip :: "Address \<Rightarrow> IpAddr option" where
  "as_ip (Ipv4 b) = Some (V4 [b ! 0, b ! 1, b ! 2, b ! 3])"
| "as_ip (Ipv6 b) = Some (V6 b)"
| "as_ip (Domain_a _) = None"

fun as_domain :: "Address \<Rightarrow> string option" where
  "as_domain (Domain_a d) = Some d"
| "as_domain _ = None"

fun show_address :: "Address \<Rightarrow> string" where
  "show_address (Ipv4 b) = show_ipv4 b"
| "show_address (Ipv6 b) = ''['' @ show_ipv6 b @ '']''"
| "show_address (Domain_a d) = d"

definition v4_mapped_prefix :: "u8 list" where
  "v4_mapped_prefix = [0, 0, 0, 0, 0, 0, 0, 0, 0, 0, 0xff, 0xff]"

definition IpAddress :: "u8 list \<Rightarrow> (unit, Address) res" where
  "IpAddress ip =
     (if length ip = 4 then Ok (Ipv4 ip)
      else if length ip = 16 then
        (if take 12 ip = v4_mapped_prefix then Ok (Ipv4 (drop 12 ip)) else Ok (Ipv6 ip))
      else Panic)"

definition DomainAddress :: "string \<Rightarrow> Address" where
  "DomainAddress d = Domain_a d"

definition ParseAddress :: "string \<Rightarrow> Address" where
  "ParseAddress addr =
     (case Option.bind (strip_prefix ''['' addr)
             (\<lambda>s. Option.bind (strip_suffix_char (CHR '']'') s) parse_ipv6) of
        Some v6 \<Rightarrow> Ipv6 v6
      | None \<Rightarrow>
        (case parse_ipv4 addr of
           Some v4 \<Rightarrow> Ipv4 v4
         | None \<Rightarrow>
           (case parse_ipv6 addr of Some v6 \<Rightarrow> Ipv6 v6 | None \<Rightarrow> Domain_a addr)))"

definition local_host_ip :: "(unit, Address) res" where
  "local_host_ip = IpAddress [127, 0, 0, 1]"
definition any_ip :: "(unit, Address) res" where
  "any_ip = IpAddress [0, 0, 0, 0]"
definition local_host_domain :: Address where
  "local_host_domain = DomainAddress ''localhost''"
definition local_host_ipv6 :: "(unit, Address) res" where
  "local_host_ipv6 = IpAddress [0, 0, 0, 0, 0, 0, 0, 0, 0, 0, 0, 0, 0, 0, 0, 1]"
definition any_ipv6 :: "(unit, Address) res" where
  "any_ipv6 = IpAddress [0, 0, 0, 0, 0, 0, 0, 0, 0, 0, 0, 0, 0, 0, 0, 0]"

fun address_wf :: "Address \<Rightarrow> bool" where
  "address_wf (Ipv4 b) = (length b = 4)"
| "address_wf (Ipv6 b) = (length b = 16)"
| "address_wf (Domain_a _) = True"

text \<open>Parsing and printing of \<^verbatim>\<open>std::net::IpAddr\<close>.\<close>

definition parse_ip :: "string \<Rightarrow> IpAddr option" where
  "parse_ip s = (case parse_ipv4 s of Some o4 \<Rightarrow> Some (V4 o4) | None \<Rightarrow> map_option V6 (parse_ipv6 s))"

fun show_ip :: "IpAddr \<Rightarrow> string" where
  "show_ip (V4 os) = show_ipv4 os"
| "show_ip (V6 os) = show_ipv6 os"

section \<open>Ports (port.rs)\<close>

datatype Port = Port (port_value: u16)

datatype net_error =
    InvalidPort u32
  | InvalidPortString string
  | MissingClosingBracket
  | MissingPortAfterIpv6
  | UnexpectedAfterBracket string
  | MissingPort string

definition show_port :: "Port \<Rightarrow> string" where
  "show_port p = show_nat (unat (port_value p))"

definition PortFromBytes :: "u8 list \<Rightarrow> (net_error, Port) res" where
  "PortFromBytes b = (if length b = 2 then Ok (Port (from_be16 b)) else Panic)"

definition PortFromInt :: "u32 \<Rightarrow> (net_error, Port) res" where
  "PortFromInt v = (if v = 0 \<or> 65535 < v then Err (InvalidPort v) else Ok (Port (ucast v)))"

definition PortFromString :: "string \<Rightarrow> (net_error, Port) res" where
  "PortFromString s =
     rbind (ok_or (InvalidPortString s) (parse_u32 s)) (\<lambda>v. PortFromInt (word_of_nat v))"

record PortRange =
  pr_from :: Port
  pr_to :: Port

definition PortRange_contains :: "PortRange \<Rightarrow> Port \<Rightarrow> bool" where
  "PortRange_contains r p \<longleftrightarrow>
     port_value (pr_from r) \<le> port_value p \<and> port_value p \<le> port_value (pr_to r)"

definition SinglePortRange :: "Port \<Rightarrow> PortRange" where
  "SinglePortRange p = \<lparr>pr_from = p, pr_to = p\<rparr>"

record MemoryPortRange =
  mpr_from :: Port
  mpr_to :: Port

definition MemoryPortRange_contains :: "MemoryPortRange \<Rightarrow> Port \<Rightarrow> bool" where
  "MemoryPortRange_contains r p \<longleftrightarrow>
     port_value (mpr_from r) \<le> port_value p \<and> port_value p \<le> port_value (mpr_to r)"

definition MemoryPortList_contains :: "MemoryPortRange list \<Rightarrow> Port \<Rightarrow> bool" where
  "MemoryPortList_contains ranges p \<longleftrightarrow> list_ex (\<lambda>r. MemoryPortRange_contains r p) ranges"

definition MemoryPortRange_of :: "PortRange \<Rightarrow> MemoryPortRange" where
  "MemoryPortRange_of pr = \<lparr>mpr_from = pr_from pr, mpr_to = pr_to pr\<rparr>"

text \<open>\<^verbatim>\<open>PortList::ports\<close>: the inclusive ranges, flattened; a range whose start is past its end is empty.\<close>

definition PortList_ports :: "PortRange list \<Rightarrow> u32 list" where
  "PortList_ports ranges =
     concat (map (\<lambda>r. map word_of_nat
        [unat (port_value (pr_from r)) ..< Suc (unat (port_value (pr_to r)))]) ranges)"

section \<open>Networks (network.rs)\<close>

datatype Network = Unknown | Tcp | Udp | Unix

fun system_string :: "Network \<Rightarrow> string" where
  "system_string Tcp = ''tcp''"
| "system_string Udp = ''udp''"
| "system_string Unix = ''unix''"
| "system_string Unknown = ''unknown''"

definition HasNetwork :: "Network list \<Rightarrow> Network \<Rightarrow> bool" where
  "HasNetwork xs n \<longleftrightarrow> n \<in> set xs"

section \<open>Destinations (destination.rs)\<close>

record Destination =
  address :: Address
  port :: Port
  network :: Network

definition net_addr :: "Destination \<Rightarrow> string" where
  "net_addr d =
     (case network d of
        Unix \<Rightarrow> show_address (address d)
      | _ \<Rightarrow> show_address (address d) @ '':'' @ show_port (port d))"

definition is_valid :: "Destination \<Rightarrow> bool" where
  "is_valid d \<longleftrightarrow> network d \<noteq> Unknown"

definition show_destination :: "Destination \<Rightarrow> string" where
  "show_destination d =
     (case network d of
        Tcp \<Rightarrow> ''tcp:'' @ show_address (address d) @ '':'' @ show_port (port d)
      | Udp \<Rightarrow> ''udp:'' @ show_address (address d) @ '':'' @ show_port (port d)
      | Unix \<Rightarrow> ''unix:'' @ show_address (address d)
      | Unknown \<Rightarrow> ''unknown:'' @ show_address (address d) @ '':'' @ show_port (port d))"

definition TcpDestination :: "Address \<Rightarrow> Port \<Rightarrow> Destination" where
  "TcpDestination a p = \<lparr>address = a, port = p, network = Tcp\<rparr>"

definition UdpDestination :: "Address \<Rightarrow> Port \<Rightarrow> Destination" where
  "UdpDestination a p = \<lparr>address = a, port = p, network = Udp\<rparr>"

definition UnixDestination :: "Address \<Rightarrow> Destination" where
  "UnixDestination a = \<lparr>address = a, port = Port 0, network = Unix\<rparr>"

definition split_host_port :: "string \<Rightarrow> (net_error, string \<times> string) res" where
  "split_host_port s =
     (if s \<noteq> [] \<and> hd s = CHR ''['' then
        rbind (ok_or MissingClosingBracket (find_char (CHR '']'') s))
          (\<lambda>closing.
             let addr = drop 1 (take closing s); rest = drop (closing + 1) s in
             case strip_prefix '':'' rest of
               Some port_str \<Rightarrow> Ok (addr, port_str)
             | None \<Rightarrow> if rest = [] then Err MissingPortAfterIpv6
                       else Err (UnexpectedAfterBracket rest))
      else
        rbind (ok_or (MissingPort s) (rfind_char (CHR '':'') s))
          (\<lambda>colon. Ok (take colon s, drop (colon + 1) s)))"

definition host_port_destination ::
  "(Address \<Rightarrow> Port \<Rightarrow> Destination) \<Rightarrow> string \<Rightarrow> (net_error, Destination) res" where
  "host_port_destination mk s =
     rbind (split_host_port s) (\<lambda>(addr_str, port_str).
       let addr = ParseAddress addr_str in
       rbind (PortFromString port_str) (\<lambda>p. Ok (mk addr p)))"

definition ParseDestination :: "string \<Rightarrow> (net_error, Destination) res" where
  "ParseDestination dest =
     (case strip_prefix ''tcp:'' dest of
        Some rest \<Rightarrow> host_port_destination TcpDestination rest
      | None \<Rightarrow>
        (case strip_prefix ''udp:'' dest of
           Some rest \<Rightarrow> host_port_destination UdpDestination rest
         | None \<Rightarrow>
           (case strip_prefix ''unix:'' dest of
              Some path \<Rightarrow> Ok (UnixDestination (ParseAddress path))
            | None \<Rightarrow> host_port_destination TcpDestination dest)))"

section \<open>Lemmas\<close>

lemma length_read_octets: "read_octets k i s = Some (os, r) \<Longrightarrow> length os = k"
  by (induction k arbitrary: i s os r) (auto split: option.splits)

lemma length_parse_ipv4: "parse_ipv4 s = Some os \<Longrightarrow> length os = 4"
  by (auto simp: parse_ipv4_def read_ipv4_addr_def dest!: length_read_octets
      split: if_splits option.splits list.splits)

lemma read_separator_Some:
  "read_separator c i p s = Some x \<Longrightarrow> \<exists>t. p t = Some x"
  by (auto simp: read_separator_def split: if_splits option.splits)

lemma read_groups_shape:
  "read_groups limit i s = (gs, v4, r) \<Longrightarrow> (\<forall>g \<in> set gs. length g = 2) \<and> length gs \<le> limit - i"
proof (induction limit i s arbitrary: gs v4 r rule: read_groups.induct)
  case (1 limit i s)
  let ?v4 = "if i + 1 < limit then read_separator (CHR '':'') i read_ipv4_addr s else None"
  let ?g = "read_separator (CHR '':'') i (read_number 16 4 True 65535) s"
  consider (stop) "limit \<le> i"
    | (v4) os t where "\<not> limit \<le> i" "?v4 = Some (os, t)"
    | (group) g t where "\<not> limit \<le> i" "?v4 = None" "?g = Some (g, t)"
    | (none) "\<not> limit \<le> i" "?v4 = None" "?g = None"
    by (cases ?v4; cases ?g) fastforce+
  then show ?case
  proof cases
    case v4
    then have "length os = 4" and "i + 1 < limit"
      by (auto dest!: read_separator_Some length_read_octets simp: read_ipv4_addr_def split: if_splits)
    with v4 "1.prems" show ?thesis by (auto simp: read_groups.simps [of limit i s])
  next
    case group
    obtain gs' v' r' where rec: "read_groups limit (Suc i) t = (gs', v', r')"
      by (cases "read_groups limit (Suc i) t") auto
    have "(\<forall>g \<in> set gs'. length g = 2) \<and> length gs' \<le> limit - Suc i"
      using "1.IH" [OF group(1,2,3) refl rec] .
    with group rec "1.prems" show ?thesis by (auto simp: read_groups.simps [of limit i s])
  qed (use "1.prems" in \<open>auto simp: read_groups.simps [of limit i s]\<close>)
qed

lemma length_concat_pairs: "\<forall>g \<in> set gs. length g = 2 \<Longrightarrow> length (concat gs) = 2 * length gs"
  by (induction gs) auto

lemma length_parse_ipv6: "parse_ipv6 s = Some os \<Longrightarrow> length os = 16"
proof -
  assume "parse_ipv6 s = Some os"
  then have r: "read_ipv6_addr s = Some (os, [])"
    by (auto simp: parse_ipv6_def split: option.splits prod.splits list.splits)
  obtain head h4 t where h: "read_groups 8 0 s = (head, h4, t)"
    by (cases "read_groups 8 0 s") auto
  note hs = read_groups_shape [OF h]
  show ?thesis
  proof (cases "length head = 8")
    case True
    with r h hs show ?thesis by (auto simp: read_ipv6_addr_def length_concat_pairs)
  next
    case False
    with r h obtain t' tail v u where
      g: "read_groups (8 - (length head + 1)) 0 t' = (tail, v, u)" and
      os: "os = concat head @ replicate (16 - 2 * length head - 2 * length tail) 0 @ concat tail"
      by (auto simp: read_ipv6_addr_def split: if_splits option.splits prod.splits)
    note ts = read_groups_shape [OF g]
    have "length os = 2 * length head + (16 - 2 * length head - 2 * length tail) + 2 * length tail"
      using hs ts by (simp add: os length_concat_pairs)
    with hs ts False show ?thesis by linarith
  qed
qed

lemma ParseAddress_wf: "address_wf (ParseAddress s)"
  by (auto simp: ParseAddress_def dest: length_parse_ipv4 length_parse_ipv6
      split: option.splits Option.bind_splits)

lemma IpAddress_wf: "IpAddress ip = Ok a \<Longrightarrow> address_wf a"
  by (auto simp: IpAddress_def split: if_splits)

lemma PortFromInt_Ok: "PortFromInt v = Ok p \<longleftrightarrow> 0 < unat v \<and> unat v \<le> 65535 \<and> p = Port (ucast v)"
  by (auto simp: PortFromInt_def word_less_nat_alt unat_gt_0)

lemma PortFromString_show: "port_value p \<noteq> 0 \<Longrightarrow> PortFromString (show_port p) = Ok p"
proof -
  assume p: "port_value p \<noteq> 0"
  let ?n = "unat (port_value p)"
  have n: "?n < 65536" using unat_bound [of "port_value p"] by simp
  have z: "0 < ?n" using p by (simp add: unat_gt_0)
  have u: "unat (ucast (port_value p) :: u32) = ?n"
    using n by (simp add: unsigned_ucast_eq take_bit_nat_eq_self_iff)
  then have "PortFromInt (ucast (port_value p)) = Ok (Port (ucast (ucast (port_value p) :: u32)))"
    using n z by (simp add: PortFromInt_Ok)
  also have "ucast (ucast (port_value p) :: u32) = port_value p"
    by (rule ucast_up_down) simp
  finally show ?thesis using n by (simp add: PortFromString_def show_port_def)
qed

text \<open>
  The hosts whose text form is read back as it is: an IPv4 address, or a domain that is neither
  an IP literal nor starts with a bracket.
\<close>

fun plain_host :: "Address \<Rightarrow> bool" where
  "plain_host (Ipv4 b) = (length b = 4)"
| "plain_host (Ipv6 b) = False"
| "plain_host (Domain_a d) \<longleftrightarrow>
     parse_ipv4 d = None \<and> parse_ipv6 d = None \<and> (d = [] \<or> hd d \<noteq> CHR ''['')"

lemma show_ipv4_no_bracket: "length b = 4 \<Longrightarrow> show_ipv4 b \<noteq> [] \<and> hd (show_ipv4 b) \<noteq> CHR ''[''"
proof -
  assume b: "length b = 4"
  have ne: "show_ipv4 b \<noteq> []" by (simp add: show_ipv4_def)
  then have "hd (show_ipv4 b) \<in> set (show_ipv4 b)" by (rule hd_in_set)
  from show_ipv4_chars [OF b this] ne show ?thesis by auto
qed

lemma strip_bracket_None: "s = [] \<or> hd s \<noteq> CHR ''['' \<Longrightarrow> strip_prefix ''['' s = None"
  by (cases s) auto

lemma plain_host_no_bracket:
  "plain_host a \<Longrightarrow> show_address a = [] \<or> hd (show_address a) \<noteq> CHR ''[''"
  by (cases a) (auto simp: show_ipv4_no_bracket)

lemma ParseAddress_show: "plain_host a \<Longrightarrow> ParseAddress (show_address a) = a"
  using strip_bracket_None [OF plain_host_no_bracket, of a]
  by (cases a) (auto simp: ParseAddress_def)

lemma split_host_port_show:
  assumes "plain_host a"
  shows "split_host_port (show_address a @ CHR '':'' # show_port p) = Ok (show_address a, show_port p)"
proof -
  have "CHR '':'' \<notin> set (show_port p)" by (auto simp: show_port_def dest: show_nat_chars)
  then have "rfind_char (CHR '':'') (show_address a @ CHR '':'' # show_port p)
      = Some (length (show_address a))" by simp
  moreover have "hd (show_address a @ CHR '':'' # show_port p) \<noteq> CHR ''[''"
    using plain_host_no_bracket [OF assms] by (cases "show_address a") auto
  ultimately show ?thesis by (simp add: split_host_port_def)
qed

lemma host_port_destination_show:
  "plain_host a \<Longrightarrow> port_value p \<noteq> 0 \<Longrightarrow>
   host_port_destination mk (show_address a @ CHR '':'' # show_port p) = Ok (mk a p)"
  by (simp add: host_port_destination_def split_host_port_show ParseAddress_show
      PortFromString_show)

lemma split_host_port_no_panic: "split_host_port s \<noteq> Panic"
  by (auto simp: split_host_port_def Let_def panic_free split: option.splits)

lemma PortFromString_no_panic: "PortFromString s \<noteq> Panic"
  by (auto simp: PortFromString_def PortFromInt_def panic_free)

lemma host_port_destination_no_panic: "host_port_destination mk s \<noteq> Panic"
  by (auto simp: host_port_destination_def panic_free split_host_port_no_panic
      PortFromString_no_panic)

lemma host_port_destination_Ok:
  "host_port_destination mk s = Ok d \<Longrightarrow> \<exists>t p. d = mk (ParseAddress t) p \<and> port_value p \<noteq> 0"
proof -
  assume "host_port_destination mk s = Ok d"
  then obtain t u p where p: "PortFromString u = Ok p" and d: "d = mk (ParseAddress t) p"
    by (auto simp: host_port_destination_def rbind_eq_Ok)
  from p obtain v where "PortFromInt v = Ok p" by (auto simp: PortFromString_def rbind_eq_Ok)
  then have v: "0 < unat v" "unat v \<le> 65535" and pv: "p = Port (ucast v)"
    by (auto simp: PortFromInt_Ok)
  then have "unat (port_value p) = unat v"
    by (simp add: unsigned_ucast_eq take_bit_nat_eq_self_iff)
  with v have "port_value p \<noteq> 0" by auto
  with d show ?thesis by blast
qed

text \<open>Building an address from raw bytes succeeds exactly for 4 or 16 bytes and panics otherwise;
  sixteen bytes with the IPv4-mapped prefix become the IPv4 address they embed.\<close>

lemma IpAddress_cases:
  "(length ip = 4 \<longrightarrow> IpAddress ip = Ok (Ipv4 ip)) \<and>
   (length ip = 16 \<longrightarrow>
      (\<exists>a. IpAddress ip = Ok a \<and> address_wf a \<and>
           (is_ipv4 (family a) \<longleftrightarrow> (\<exists>v4. ip = v4_mapped_prefix @ v4)))) \<and>
   (length ip \<noteq> 4 \<and> length ip \<noteq> 16 \<longleftrightarrow> IpAddress ip = Panic)"
proof -
  have "take 12 ip = v4_mapped_prefix \<longleftrightarrow> (\<exists>v4. ip = v4_mapped_prefix @ v4)" if "length ip = 16"
  proof
    assume "take 12 ip = v4_mapped_prefix"
    then show "\<exists>v4. ip = v4_mapped_prefix @ v4" using append_take_drop_id [of 12 ip] by metis
  qed (auto simp: v4_mapped_prefix_def)
  then show ?thesis by (auto simp: IpAddress_def is_ipv4_def)
qed

section \<open>Properties\<close>

text \<open>C17. Printing a TCP or UDP destination and parsing the text gives the destination back, for an IPv4
  address or a domain name that is not itself an IP literal, and a port other than 0.\<close>

theorem parse_show_destination:
  assumes "plain_host (address d)" and "port_value (port d) \<noteq> 0"
    and "network d = Tcp \<or> network d = Udp"
  shows "ParseDestination (show_destination d) = Ok d"
proof -
  have "d = (if network d = Tcp then TcpDestination else UdpDestination) (address d) (port d)"
    using assms(3) by (cases d) (auto simp: TcpDestination_def UdpDestination_def)
  with host_port_destination_show [OF assms(1,2)] assms(3) show ?thesis
    by (auto simp: ParseDestination_def show_destination_def)
qed

theorem parse_show_destination_witness:
  "plain_host (Domain_a ''example.com'') \<and>
   ParseDestination (show_destination (UdpDestination (Domain_a ''example.com'') (Port 53)))
     = Ok (UdpDestination (Domain_a ''example.com'') (Port 53))"
proof -
  have h: "plain_host (address (UdpDestination (Domain_a ''example.com'') (Port 53)))"
    by (simp add: UdpDestination_def parser_eval)
  have p: "port_value (port (UdpDestination (Domain_a ''example.com'') (Port 53))) \<noteq> 0"
    and n: "network (UdpDestination (Domain_a ''example.com'') (Port 53)) = Tcp
      \<or> network (UdpDestination (Domain_a ''example.com'') (Port 53)) = Udp"
    by (simp_all add: UdpDestination_def)
  from h parse_show_destination [OF h p n] show ?thesis by (simp add: UdpDestination_def)
qed



text \<open>A port is in the list of ranges held in memory exactly when the flattened list of the same
  ranges enumerates it.\<close>

theorem MemoryPortList_ports:
  "MemoryPortList_contains (map MemoryPortRange_of rs) p
     \<longleftrightarrow> ucast (port_value p) \<in> set (PortList_ports rs)"
proof -
  have ucast_eq: "(ucast (port_value p) :: u32) = word_of_nat n \<longleftrightarrow> unat (port_value p) = n"
    if "n < 65536" for n
  proof -
    have "unat (ucast (port_value p) :: u32) = unat (port_value p)"
      using unat_bound [of "port_value p"] by (simp add: unsigned_ucast_eq take_bit_nat_eq_self_iff)
    with that show ?thesis by (simp add: word_unat_eq_iff unat_of_nat)
  qed
  have "MemoryPortRange_contains (MemoryPortRange_of r) p \<longleftrightarrow>
      ucast (port_value p) \<in> set (map word_of_nat
        [unat (port_value (pr_from r)) ..< Suc (unat (port_value (pr_to r)))] :: u32 list)" for r
  proof -
    have "unat (port_value (pr_to r)) < 65536" using unat_bound [of "port_value (pr_to r)"] by simp
    then show ?thesis
      by (auto simp: MemoryPortRange_contains_def MemoryPortRange_of_def word_le_nat_alt ucast_eq
          image_iff atLeastLessThanSuc_atLeastAtMost simp del: upt_Suc)
  qed
  then show ?thesis by (auto simp: MemoryPortList_contains_def PortList_ports_def list_ex_iff)
qed

end
