(* ===== verification/Stats.thy ===== *)
theory Stats
  imports Prelude
begin

text \<open>
  \<^verbatim>\<open>astra-core-stats\<close>: counters and channels shared by reference, the registry that names them, the names of traffic
  counters, and the table of addresses a user is online from. A reference (\<^verbatim>\<open>Arc\<close>) is an index into the list of
  everything allocated so far, so a handle that outlives its registration keeps pointing at the same counter.
  Values are \<^verbatim>\<open>i64\<close> and \<^verbatim>\<open>u64\<close> words; a signed value is read with \<open>sint\<close>. Instants are natural numbers.
\<close>

section \<open>Counters and channels (lib.rs)\<close>

type_synonym i64 = "64 word"

record Counter =
  counter_name :: string
  counter_value :: i64

definition Counter_new :: "string \<Rightarrow> Counter" where
  "Counter_new n = \<lparr>counter_name = n, counter_value = 0\<rparr>"

definition counter_add :: "i64 \<Rightarrow> Counter \<Rightarrow> Counter" where
  "counter_add n c = c\<lparr>counter_value := counter_value c + n\<rparr>"

definition counter_set :: "i64 \<Rightarrow> Counter \<Rightarrow> Counter" where
  "counter_set n c = c\<lparr>counter_value := n\<rparr>"

definition counter_get :: "Counter \<Rightarrow> i64" where
  "counter_get c = counter_value c"

definition counter_reset :: "Counter \<Rightarrow> Counter" where
  "counter_reset c = c\<lparr>counter_value := 0\<rparr>"

record Channel =
  channel_name :: string
  channel_value :: i64
  chan_last_updated :: nat

definition Channel_new :: "nat \<Rightarrow> string \<Rightarrow> Channel" where
  "Channel_new now n = \<lparr>channel_name = n, channel_value = 0, chan_last_updated = now\<rparr>"

definition channel_add :: "nat \<Rightarrow> i64 \<Rightarrow> Channel \<Rightarrow> Channel" where
  "channel_add now n c = c\<lparr>channel_value := channel_value c + n, chan_last_updated := now\<rparr>"

definition channel_set :: "nat \<Rightarrow> i64 \<Rightarrow> Channel \<Rightarrow> Channel" where
  "channel_set now n c = c\<lparr>channel_value := n, chan_last_updated := now\<rparr>"

definition channel_get :: "Channel \<Rightarrow> i64" where
  "channel_get c = channel_value c"

section \<open>The registry\<close>

record StatsManager =
  counters :: "(string \<times> nat) list"
  channels :: "(string \<times> nat) list"
  counter_heap :: "Counter list"
  channel_heap :: "Channel list"

definition StatsManager_new :: StatsManager where
  "StatsManager_new = \<lparr>counters = [], channels = [], counter_heap = [], channel_heap = []\<rparr>"

definition register_counter :: "string \<Rightarrow> StatsManager \<Rightarrow> nat \<times> StatsManager" where
  "register_counter n s =
     (case map_of (counters s) n of
        Some r \<Rightarrow> (r, s)
      | None \<Rightarrow>
          let r = length (counter_heap s) in
          (r, s\<lparr>counters := AList.update n r (counters s), counter_heap := counter_heap s @ [Counter_new n]\<rparr>))"

definition get_counter :: "string \<Rightarrow> StatsManager \<Rightarrow> nat option" where
  "get_counter n s = map_of (counters s) n"

definition register_channel :: "nat \<Rightarrow> string \<Rightarrow> StatsManager \<Rightarrow> nat \<times> StatsManager" where
  "register_channel now n s =
     (case map_of (channels s) n of
        Some r \<Rightarrow> (r, s)
      | None \<Rightarrow>
          let r = length (channel_heap s) in
          (r, s\<lparr>channels := AList.update n r (channels s), channel_heap := channel_heap s @ [Channel_new now n]\<rparr>))"

definition get_channel :: "string \<Rightarrow> StatsManager \<Rightarrow> nat option" where
  "get_channel n s = map_of (channels s) n"

definition all_counters :: "StatsManager \<Rightarrow> nat list" where
  "all_counters s = map snd (counters s)"

definition all_channels :: "StatsManager \<Rightarrow> nat list" where
  "all_channels s = map snd (channels s)"

definition remove_counter :: "string \<Rightarrow> StatsManager \<Rightarrow> bool \<times> StatsManager" where
  "remove_counter n s = (map_of (counters s) n \<noteq> None, s\<lparr>counters := AList.delete n (counters s)\<rparr>)"

definition remove_channel :: "string \<Rightarrow> StatsManager \<Rightarrow> bool \<times> StatsManager" where
  "remove_channel n s = (map_of (channels s) n \<noteq> None, s\<lparr>channels := AList.delete n (channels s)\<rparr>)"

text \<open>A call through a handle.\<close>

definition on_counter :: "nat \<Rightarrow> (Counter \<Rightarrow> Counter) \<Rightarrow> StatsManager \<Rightarrow> StatsManager" where
  "on_counter r f s = s\<lparr>counter_heap := (counter_heap s)[r := f (counter_heap s ! r)]\<rparr>"

definition on_channel :: "nat \<Rightarrow> (Channel \<Rightarrow> Channel) \<Rightarrow> StatsManager \<Rightarrow> StatsManager" where
  "on_channel r f s = s\<lparr>channel_heap := (channel_heap s)[r := f (channel_heap s ! r)]\<rparr>"

text \<open>The manager used when statistics are off allocates and stores nothing.\<close>

definition noop_register_counter :: "string \<Rightarrow> StatsManager \<Rightarrow> nat \<times> StatsManager" where
  "noop_register_counter n s = (length (counter_heap s), s\<lparr>counter_heap := counter_heap s @ [Counter_new n]\<rparr>)"

definition noop_get_counter :: "string \<Rightarrow> nat option" where
  "noop_get_counter n = None"

definition noop_register_channel :: "nat \<Rightarrow> string \<Rightarrow> StatsManager \<Rightarrow> nat \<times> StatsManager" where
  "noop_register_channel now n s =
     (length (channel_heap s), s\<lparr>channel_heap := channel_heap s @ [Channel_new now n]\<rparr>)"

definition noop_get_channel :: "string \<Rightarrow> nat option" where
  "noop_get_channel n = None"

section \<open>Names\<close>

definition inbound_downlink :: "string \<Rightarrow> string" where
  "inbound_downlink tag = ''inbound>>>'' @ tag @ ''>>>traffic>>>downlink''"

definition inbound_uplink :: "string \<Rightarrow> string" where
  "inbound_uplink tag = ''inbound>>>'' @ tag @ ''>>>traffic>>>uplink''"

definition outbound_downlink :: "string \<Rightarrow> string" where
  "outbound_downlink tag = ''outbound>>>'' @ tag @ ''>>>traffic>>>downlink''"

definition outbound_uplink :: "string \<Rightarrow> string" where
  "outbound_uplink tag = ''outbound>>>'' @ tag @ ''>>>traffic>>>uplink''"

definition user_downlink :: "string \<Rightarrow> string" where
  "user_downlink email = ''user>>>'' @ email @ ''>>>traffic>>>downlink''"

definition user_uplink :: "string \<Rightarrow> string" where
  "user_uplink email = ''user>>>'' @ email @ ''>>>traffic>>>uplink''"

section \<open>Online addresses (online\_map.rs)\<close>

record 'a IpEntry =
  ip_addr :: 'a
  last_access :: nat
  ip_uplink :: u64
  ip_downlink :: u64

record 'a OnlineEntry =
  online_email :: string
  ips :: "'a IpEntry list"
  last_seen :: nat

record 'a OnlineMap =
  online_inner :: "(string \<times> 'a OnlineEntry) list"
  online_ttl :: nat

definition OnlineMap_new :: "u64 \<Rightarrow> 'a OnlineMap" where
  "OnlineMap_new ttl_secs = \<lparr>online_inner = [], online_ttl = unat ttl_secs * 1000000000\<rparr>"

fun touch_ip :: "nat \<Rightarrow> 'a \<Rightarrow> u64 \<Rightarrow> u64 \<Rightarrow> 'a IpEntry list \<Rightarrow> 'a IpEntry list" where
  "touch_ip now ip up down [] = [\<lparr>ip_addr = ip, last_access = now, ip_uplink = up, ip_downlink = down\<rparr>]"
| "touch_ip now ip up down (e # es) =
     (if ip_addr e = ip
      then e\<lparr>last_access := now, ip_uplink := ip_uplink e + up, ip_downlink := ip_downlink e + down\<rparr> # es
      else e # touch_ip now ip up down es)"

definition record_access :: "nat \<Rightarrow> string \<Rightarrow> 'a \<Rightarrow> u64 \<Rightarrow> u64 \<Rightarrow> 'a OnlineMap \<Rightarrow> 'a OnlineMap" where
  "record_access now email ip up down m =
     (let e = (case map_of (online_inner m) email of
                 Some e \<Rightarrow> e | None \<Rightarrow> \<lparr>online_email = email, ips = [], last_seen = now\<rparr>);
          e = e\<lparr>last_seen := now\<rparr>;
          e = e\<lparr>ips := touch_ip now ip up down (ips e)\<rparr>
      in m\<lparr>online_inner := AList.update email e (online_inner m)\<rparr>)"

definition get_user_ips :: "string \<Rightarrow> 'a OnlineMap \<Rightarrow> 'a IpEntry list" where
  "get_user_ips email m = (case map_of (online_inner m) email of Some e \<Rightarrow> ips e | None \<Rightarrow> [])"

definition get_all_users :: "nat \<Rightarrow> 'a OnlineMap \<Rightarrow> 'a OnlineEntry list" where
  "get_all_users now m = filter (\<lambda>e. now - last_seen e < online_ttl m) (map snd (online_inner m))"

definition online_cleanup :: "nat \<Rightarrow> 'a OnlineMap \<Rightarrow> 'a OnlineMap" where
  "online_cleanup now m =
     m\<lparr>online_inner :=
         map (\<lambda>(k, e). (k, e\<lparr>ips := filter (\<lambda>i. now - last_access i < online_ttl m) (ips e)\<rparr>))
           (filter (\<lambda>(k, e). now - last_seen e < online_ttl m) (online_inner m))\<rparr>"

definition online_count :: "'a OnlineMap \<Rightarrow> nat" where
  "online_count m = length (online_inner m)"

section \<open>Counters are shared by name\<close>

text \<open>What clients do with the registry.\<close>

datatype stats_op =
    RegisterCounter string | RemoveCounter string | AddTo nat i64 | SetTo nat i64 | ResetAt nat

fun stats_step :: "stats_op \<Rightarrow> StatsManager \<Rightarrow> StatsManager" where
  "stats_step (RegisterCounter n) s = snd (register_counter n s)"
| "stats_step (RemoveCounter n) s = snd (remove_counter n s)"
| "stats_step (AddTo r v) s = on_counter r (counter_add v) s"
| "stats_step (SetTo r v) s = on_counter r (counter_set v) s"
| "stats_step (ResetAt r) s = on_counter r counter_reset s"

text \<open>The meaning of a handle: the value its own operations give it, whatever happens to the others.\<close>

fun value_after :: "nat \<Rightarrow> i64 \<Rightarrow> stats_op list \<Rightarrow> i64" where
  "value_after r v [] = v"
| "value_after r v (AddTo r' d # os) = value_after r (if r' = r then v + d else v) os"
| "value_after r v (SetTo r' d # os) = value_after r (if r' = r then d else v) os"
| "value_after r v (ResetAt r' # os) = value_after r (if r' = r then 0 else v) os"
| "value_after r v (RegisterCounter _ # os) = value_after r v os"
| "value_after r v (RemoveCounter _ # os) = value_after r v os"

definition stats_wf :: "StatsManager \<Rightarrow> bool" where
  "stats_wf s \<longleftrightarrow> distinct (map fst (counters s)) \<and>
     (\<forall>n r. map_of (counters s) n = Some r \<longrightarrow> r < length (counter_heap s) \<and> counter_name (counter_heap s ! r) = n)"

lemma stats_wf_new: "stats_wf StatsManager_new"
  by (simp add: stats_wf_def StatsManager_new_def)

lemma on_counter_wf:
  assumes "\<And>c. counter_name (f c) = counter_name c" "stats_wf s"
  shows "stats_wf (on_counter r f s)"
  unfolding stats_wf_def
proof (intro conjI allI impI)
  fix n q assume "map_of (counters (on_counter r f s)) n = Some q"
  then have q: "q < length (counter_heap s)" "counter_name (counter_heap s ! q) = n"
    using assms(2) by (auto simp: stats_wf_def on_counter_def)
  show "q < length (counter_heap (on_counter r f s))" using q by (simp add: on_counter_def)
  show "counter_name (counter_heap (on_counter r f s) ! q) = n"
    using q assms(1) by (cases "q = r") (simp_all add: on_counter_def)
qed (use assms(2) in \<open>simp add: stats_wf_def on_counter_def\<close>)

lemma register_counter_wf:
  assumes "stats_wf s"
  shows "stats_wf (snd (register_counter n s))"
proof (cases "map_of (counters s) n")
  case None
  then show ?thesis using assms
    by (auto simp: stats_wf_def register_counter_def Let_def nth_append Counter_new_def distinct_update update_conv
        less_Suc_eq simp del: map_of_eq_Some_iff split: if_splits)
qed (use assms in \<open>simp add: register_counter_def\<close>)

lemma remove_counter_wf: "stats_wf s \<Longrightarrow> stats_wf (snd (remove_counter n s))"
  by (auto simp: stats_wf_def remove_counter_def distinct_delete delete_conv' restrict_map_def split: if_splits)

lemma stats_step_wf: "stats_wf s \<Longrightarrow> stats_wf (stats_step op s)"
  by (cases op) (simp_all add: on_counter_wf register_counter_wf remove_counter_wf
      counter_add_def counter_set_def counter_reset_def)

lemma stats_step_value:
  assumes "r < length (counter_heap s)"
  shows "r < length (counter_heap (stats_step op s))"
    "counter_value (counter_heap (stats_step op s) ! r) = value_after r (counter_value (counter_heap s ! r)) [op]"
  using assms
  by (cases op; simp add: register_counter_def remove_counter_def on_counter_def counter_add_def counter_set_def
      counter_reset_def Let_def nth_append nth_list_update split: option.split)+

lemma value_after_Cons: "value_after r v (op # ops) = value_after r (value_after r v [op]) ops"
  by (cases op) simp_all

lemma stats_fold_value:
  "r < length (counter_heap s) \<Longrightarrow>
   counter_value (counter_heap (fold stats_step ops s) ! r) = value_after r (counter_value (counter_heap s ! r)) ops"
proof (induction ops arbitrary: s)
  case (Cons op ops)
  then show ?case using stats_step_value [OF Cons.prems, of op] value_after_Cons [of r _ op ops] by simp
qed simp

lemma stats_step_name:
  "map_of (counters s) n = Some r \<Longrightarrow> op \<noteq> RemoveCounter n \<Longrightarrow> map_of (counters (stats_step op s)) n = Some r"
  by (cases op) (auto simp: register_counter_def remove_counter_def on_counter_def Let_def update_conv delete_conv'
      restrict_map_def split: option.split)

lemma stats_fold_name:
  "map_of (counters s) n = Some r \<Longrightarrow> RemoveCounter n \<notin> set ops \<Longrightarrow> map_of (counters (fold stats_step ops s)) n = Some r"
  by (induction ops arbitrary: s) (auto simp: stats_step_name)

lemma register_counter_handle:
  "stats_wf s \<Longrightarrow> register_counter n s = (r, s') \<Longrightarrow>
   stats_wf s' \<and> map_of (counters s') n = Some r \<and> r < length (counter_heap s') \<and>
   (map_of (counters s) n = None \<longrightarrow> counter_value (counter_heap s' ! r) = 0)"
  using register_counter_wf [of s n]
  by (cases "map_of (counters s) n")
    (auto simp: register_counter_def Let_def update_conv Counter_new_def stats_wf_def simp del: map_of_eq_Some_iff)

text \<open>A counter is one object per name: whatever clients do with any handles, a name that is not removed keeps resolving to the
  handle its first registration returned, registering it again returns the same handle without touching the value, and
  the value read through it is exactly what the operations on this handle add up to (64-bit wrap-around included).\<close>
theorem counters_shared_by_name:
  assumes "stats_wf s" and "get_counter n s = None" and "register_counter n s = (r, s')" and "RemoveCounter n \<notin> set ops"
  shows "get_counter n (fold stats_step ops s') = Some r \<and>
    register_counter n (fold stats_step ops s') = (r, fold stats_step ops s') \<and>
    counter_get (counter_heap (fold stats_step ops s') ! r) = value_after r 0 ops"
proof -
  note h = register_counter_handle [OF assms(1,3)]
  then have "map_of (counters (fold stats_step ops s')) n = Some r" using stats_fold_name assms(4) by blast
  moreover have "counter_value (counter_heap s' ! r) = 0" using h assms(2) by (simp add: get_counter_def)
  ultimately show ?thesis using h stats_fold_value [of r s' ops]
    by (simp add: get_counter_def register_counter_def counter_get_def)
qed

theorem counters_shared_by_name_witness:
  "get_counter ''c'' (fold stats_step [AddTo 0 5, RegisterCounter ''d'', AddTo 1 7, RegisterCounter ''c'', AddTo 0 3]
     (snd (register_counter ''c'' StatsManager_new))) = Some 0 \<and>
   counter_get (counter_heap (fold stats_step [AddTo 0 5, RegisterCounter ''d'', AddTo 1 7, RegisterCounter ''c'', AddTo 0 3]
     (snd (register_counter ''c'' StatsManager_new))) ! 0) = 8"
proof -
  have "register_counter ''c'' StatsManager_new = (0, snd (register_counter ''c'' StatsManager_new))"
    by (simp add: register_counter_def StatsManager_new_def Let_def)
  from counters_shared_by_name [OF stats_wf_new _ this, of "[AddTo 0 5, RegisterCounter ''d'', AddTo 1 7, RegisterCounter ''c'', AddTo 0 3]"]
  show ?thesis by (simp add: get_counter_def StatsManager_new_def del: fold_simps)
qed

section \<open>The online table as a map from user and address to traffic\<close>

definition traffic_of :: "'a OnlineMap \<Rightarrow> string \<Rightarrow> 'a \<Rightarrow> (u64 \<times> u64 \<times> nat) option" where
  "traffic_of m email ip =
     map_option (\<lambda>e. (ip_uplink e, ip_downlink e, last_access e)) (find (\<lambda>e. ip_addr e = ip) (get_user_ips email m))"

definition online_entry_wf :: "nat \<Rightarrow> 'a OnlineEntry \<Rightarrow> bool" where
  "online_entry_wf now e \<longleftrightarrow> distinct (map ip_addr (ips e)) \<and> last_seen e \<le> now \<and> (\<forall>i \<in> set (ips e). last_access i \<le> last_seen e)"

definition online_wf :: "nat \<Rightarrow> 'a OnlineMap \<Rightarrow> bool" where
  "online_wf now m \<longleftrightarrow> distinct (map fst (online_inner m)) \<and> (\<forall>k e. map_of (online_inner m) k = Some e \<longrightarrow> online_entry_wf now e)"

lemma find_touch_ip:
  "find (\<lambda>e. ip_addr e = j) (touch_ip now ip up down es) =
     (if j = ip then
        Some (case find (\<lambda>e. ip_addr e = ip) es of
                Some e \<Rightarrow> e\<lparr>last_access := now, ip_uplink := ip_uplink e + up, ip_downlink := ip_downlink e + down\<rparr>
              | None \<Rightarrow> \<lparr>ip_addr = ip, last_access = now, ip_uplink = up, ip_downlink = down\<rparr>)
      else find (\<lambda>e. ip_addr e = j) es)"
  by (induction es) auto

lemma addrs_touch_ip: "ip_addr ` set (touch_ip now ip up down es) = insert ip (ip_addr ` set es)"
  by (induction es) auto

lemma distinct_touch_ip: "distinct (map ip_addr es) \<Longrightarrow> distinct (map ip_addr (touch_ip now ip up down es))"
  by (induction es) (auto simp: addrs_touch_ip)

lemma access_touch_ip: "i \<in> set (touch_ip now ip up down es) \<Longrightarrow> last_access i = now \<or> i \<in> set es"
  by (induction es) (auto split: if_splits)

lemma record_access_wf:
  assumes "online_wf t m" "t \<le> now"
  shows "online_wf now (record_access now email ip up down m)"
proof -
  have "online_entry_wf now e" if "map_of (online_inner m) k = Some e" for k e
    using assms that by (fastforce simp: online_wf_def online_entry_wf_def simp del: map_of_eq_Some_iff)
  then show ?thesis using assms
    by (auto simp: online_wf_def record_access_def Let_def update_conv distinct_update online_entry_wf_def distinct_touch_ip
        simp del: map_of_eq_Some_iff split: option.splits if_splits dest!: access_touch_ip)
      (meson order_trans)
qed

lemma map_of_retain:
  "distinct (map fst xs) \<Longrightarrow>
   map_of (map (\<lambda>(k, e). (k, g e)) (filter (\<lambda>(k, e). P e) xs)) k =
     (case map_of xs k of Some e \<Rightarrow> if P e then Some (g e) else None | None \<Rightarrow> None)"
  by (induction xs) (auto split: option.splits simp: map_of_eq_None_iff, force+)

lemma find_filter_distinct:
  "distinct (map f es) \<Longrightarrow>
   find (\<lambda>e. f e = j) (filter P es) = (case find (\<lambda>e. f e = j) es of Some e \<Rightarrow> if P e then Some e else None | None \<Rightarrow> None)"
proof (induction es)
  case (Cons a es)
  show ?case
  proof (cases "f a = j")
    case True
    then have "find (\<lambda>e. f e = j) (filter P es) = None" using Cons.prems by (auto simp: find_None_iff image_iff)
    then show ?thesis using True by simp
  qed (use Cons in auto)
qed simp

lemma cleanup_wf:
  assumes "online_wf t m" "t \<le> now"
  shows "online_wf now (online_cleanup now m)"
proof -
  have d: "distinct (map fst (online_inner m))" using assms(1) by (simp add: online_wf_def)
  have "map fst (online_inner (online_cleanup now m)) = map fst (filter (\<lambda>(k, e). now - last_seen e < online_ttl m) (online_inner m))"
    by (simp add: online_cleanup_def case_prod_unfold)
  then have "distinct (map fst (online_inner (online_cleanup now m)))" using d by (simp add: distinct_map_filter)
  moreover have "online_entry_wf now e" if "map_of (online_inner (online_cleanup now m)) k = Some e" for k e
    using assms that d
    by (fastforce simp: online_cleanup_def map_of_retain online_wf_def online_entry_wf_def distinct_map_filter
        simp del: map_of_eq_Some_iff split: option.splits if_splits)
  ultimately show ?thesis by (simp add: online_wf_def del: map_of_eq_Some_iff)
qed

lemma traffic_record:
  "traffic_of (record_access now email ip up down m) email' ip' =
     (if email' = email \<and> ip' = ip
      then Some (case traffic_of m email ip of Some (u, d, _) \<Rightarrow> (u + up, d + down, now) | None \<Rightarrow> (up, down, now))
      else traffic_of m email' ip')"
  by (auto simp: traffic_of_def get_user_ips_def record_access_def Let_def update_conv find_touch_ip
      simp del: map_of_eq_Some_iff split: option.splits)

lemma traffic_cleanup:
  assumes "online_wf t m" "t \<le> now"
  shows "traffic_of (online_cleanup now m) email ip =
     (case traffic_of m email ip of Some (u, d, a) \<Rightarrow> if now - a < online_ttl m then Some (u, d, a) else None | None \<Rightarrow> None)"
proof (cases "map_of (online_inner m) email")
  case None
  then show ?thesis using assms(1)
    by (simp add: traffic_of_def get_user_ips_def online_cleanup_def map_of_retain online_wf_def)
next
  case (Some e)
  then have e: "distinct (map ip_addr (ips e))" "\<And>i. i \<in> set (ips e) \<Longrightarrow> last_access i \<le> last_seen e"
    and d: "distinct (map fst (online_inner m))"
    using assms(1) by (auto simp: online_wf_def online_entry_wf_def simp del: map_of_eq_Some_iff)
  have "last_access i \<le> last_seen e" if "find (\<lambda>e. ip_addr e = ip) (ips e) = Some i" for i
    using that e(2) by (auto simp: find_Some_iff in_set_conv_nth)
  then show ?thesis using Some e(1) d
    by (auto simp: traffic_of_def get_user_ips_def online_cleanup_def map_of_retain find_filter_distinct
        simp del: map_of_eq_Some_iff split: option.splits)
qed

text \<open>The operations in the order of their times, and the same on a map that only knows users, addresses and traffic.\<close>

datatype 'a online_op = RecordAccess string 'a u64 u64 | Cleanup

fun online_step :: "nat \<times> 'a online_op \<Rightarrow> 'a OnlineMap \<Rightarrow> 'a OnlineMap" where
  "online_step (now, RecordAccess e i u d) m = record_access now e i u d m"
| "online_step (now, Cleanup) m = online_cleanup now m"

fun traffic_step :: "nat \<Rightarrow> nat \<times> 'a online_op \<Rightarrow> (string \<times> 'a \<Rightarrow> (u64 \<times> u64 \<times> nat) option) \<Rightarrow> (string \<times> 'a \<Rightarrow> (u64 \<times> u64 \<times> nat) option)" where
  "traffic_step ttl (now, RecordAccess e i u d) f =
     f((e, i) := Some (case f (e, i) of Some (u0, d0, _) \<Rightarrow> (u0 + u, d0 + d, now) | None \<Rightarrow> (u, d, now)))"
| "traffic_step ttl (now, Cleanup) f =
     (\<lambda>k. case f k of Some (u, d, a) \<Rightarrow> if now - a < ttl then Some (u, d, a) else None | None \<Rightarrow> None)"

lemma online_ttl_step: "online_ttl (online_step op m) = online_ttl m"
  by (cases "(op, m)" rule: online_step.cases) (auto simp: record_access_def online_cleanup_def Let_def)

lemma online_step_refines:
  assumes "online_wf t m" "t \<le> now"
  shows "online_wf now (online_step (now, op) m)"
    "(\<lambda>(e, i). traffic_of (online_step (now, op) m) e i) = traffic_step (online_ttl m) (now, op) (\<lambda>(e, i). traffic_of m e i)"
  using assms by (cases op; force simp: record_access_wf cleanup_wf traffic_record traffic_cleanup fun_eq_iff)+

lemma online_fold_refines:
  "online_wf t m \<Longrightarrow> sorted (t # map fst ops) \<Longrightarrow>
   (\<lambda>(e, i). traffic_of (fold online_step ops m) e i) = fold (traffic_step (online_ttl m)) ops (\<lambda>(e, i). traffic_of m e i)"
proof (induction ops arbitrary: t m)
  case (Cons op ops)
  obtain now o' where op: "op = (now, o')" by force
  from Cons.prems have "t \<le> now" "sorted (now # map fst ops)" by (auto simp: op)
  from Cons.IH [OF online_step_refines(1) [OF Cons.prems(1) this(1)] this(2)] online_step_refines(2) [OF Cons.prems(1) this(1), of o']
  show ?case by (simp add: op online_ttl_step)
qed simp



end
