(* ===== verification/Logs.thy ===== *)
theory Logs
  imports Net Stats
begin

text \<open>
  Diagnostics: severities, access messages and the masking of addresses (\<^verbatim>\<open>common/log.rs\<close>), the logger of the application (\<^verbatim>\<open>app-log\<close>), errors with
  causes (\<^verbatim>\<open>common/errors.rs\<close>), environment flags (\<^verbatim>\<open>common/platform.rs\<close>) and the exposition of counters (\<^verbatim>\<open>metrics\<close>). Lower and upper case of Unicode,
  regular expressions, the clock and the environment are arguments; what is written is a list of texts with their sinks.
\<close>

unbundle bit_operations_syntax

section \<open>Messages (log.rs)\<close>

datatype Severity = Sev_Debug | Sev_Info | Sev_Warning | Sev_Error

fun sev_rank :: "Severity \<Rightarrow> nat" where
  "sev_rank Sev_Debug = 0"
| "sev_rank Sev_Info = 1"
| "sev_rank Sev_Warning = 2"
| "sev_rank Sev_Error = 3"

fun sev_str :: "Severity \<Rightarrow> string" where
  "sev_str Sev_Debug = ''Debug''"
| "sev_str Sev_Info = ''Info''"
| "sev_str Sev_Warning = ''Warning''"
| "sev_str Sev_Error = ''Error''"

definition sev_from_str :: "(string \<Rightarrow> string) \<Rightarrow> string \<Rightarrow> Severity" where
  "sev_from_str to_lowercase s =
     (let t = to_lowercase s in
      if t = ''debug'' then Sev_Debug
      else if t = ''warning'' \<or> t = ''warn'' then Sev_Warning
      else if t = ''error'' \<or> t = ''err'' then Sev_Error else Sev_Info)"

datatype AccessStatus = Accepted | Rejected | Dropped

fun access_str :: "AccessStatus \<Rightarrow> string" where
  "access_str Accepted = ''accepted''"
| "access_str Rejected = ''rejected''"
| "access_str Dropped = ''dropped''"

record AccessMessage =
  am_from :: string
  am_to :: string
  am_status :: AccessStatus
  am_reason :: string
  am_email :: "string option"
  am_protocol :: "string option"
  am_outbound_tag :: "string option"
  am_timestamp :: u64

record LogMessage =
  lm_severity :: Severity
  lm_message :: string

definition cut_last :: "char \<Rightarrow> string \<Rightarrow> string option" where
  "cut_last c s = map_option (\<lambda>i. take i s) (rfind_char c s)"

text \<open>The masking of an address in a message: the last part, or the last two, replaced.\<close>

definition mask_ip :: "string \<Rightarrow> string \<Rightarrow> string" where
  "mask_ip ip mode =
     (if mode = ''half'' then
        (case cut_last (CHR ''.'') ip of
           Some pre \<Rightarrow> (case cut_last (CHR ''.'') pre of Some q \<Rightarrow> q @ ''.xxx.xxx'' | None \<Rightarrow> pre @ ''.xxx'')
         | None \<Rightarrow>
             (case cut_last (CHR '':'') ip of
                Some pre \<Rightarrow> (case cut_last (CHR '':'') pre of Some q \<Rightarrow> q @ '':xxxx:xxxx'' | None \<Rightarrow> pre @ '':xxxx'')
              | None \<Rightarrow> ''xxx''))
      else if mode = ''quarter'' then
        (case cut_last (CHR ''.'') ip of
           Some pre \<Rightarrow> pre @ ''.xxx''
         | None \<Rightarrow> (case cut_last (CHR '':'') ip of Some pre \<Rightarrow> pre @ '':xxxx'' | None \<Rightarrow> ''xxx''))
      else if mode = ''full'' then ''xxx''
      else ip)"

section \<open>The application's logger (app-log)\<close>

datatype LogType = Log_None | Log_Console | Log_File

definition logtype_from_str :: "(string \<Rightarrow> string) \<Rightarrow> string \<Rightarrow> LogType" where
  "logtype_from_str to_lowercase s =
     (let t = to_lowercase s in
      if t = ''console'' \<or> t = ''stdout'' then Log_Console else if t = ''file'' then Log_File else Log_None)"

fun logtype_str :: "LogType \<Rightarrow> string" where
  "logtype_str Log_None = ''none''"
| "logtype_str Log_Console = ''console''"
| "logtype_str Log_File = ''file''"

record LogConfig =
  access_log_type :: LogType
  access_log_path :: string
  error_log_type :: LogType
  error_log_path :: string
  error_log_level :: Severity
  mask_address :: string
  enable_dns_log :: bool

text \<open>How many bits of IPv4 and IPv6 addresses stay visible. Sizes are machine words of 64 bits.\<close>

definition mask_part :: "nat \<Rightarrow> string option \<Rightarrow> nat" where
  "mask_part d p = min (case Option.bind p (\<lambda>p. parse_unsigned (2 ^ 64 - 1) (trim_start_matches (CHR ''/'') p)) of Some n \<Rightarrow> n | None \<Rightarrow> d) d"

definition parse_mask_address :: "string \<Rightarrow> nat \<times> nat" where
  "parse_mask_address c =
     (if c = ''half'' then (16, 32)
      else if c = ''quarter'' then (8, 16)
      else if c = ''full'' then (0, 0)
      else if c = [] then (32, 128)
      else let parts = split_char (CHR ''+'') c in
        (mask_part 32 (case parts of [] \<Rightarrow> None | p # _ \<Rightarrow> Some p), mask_part 128 (case parts of _ # p # _ \<Rightarrow> Some p | _ \<Rightarrow> None)))"

text \<open>The text of one IPv4 address with \<open>bits\<close> bits left.\<close>

definition mask_ipv4_text :: "nat \<Rightarrow> string \<Rightarrow> string" where
  "mask_ipv4_text bits ip =
     (if bits = 0 then ''[Masked IPv4]''
      else join ''.'' (map (\<lambda>(i, p). if i < bits div 8 then p else ''*'') (enumerate 0 (split_char (CHR ''.'') ip))))"

text \<open>A message and the matches of an expression in it: the text in pieces, each marked as a match or not.\<close>

definition replace_all :: "(string \<Rightarrow> (bool \<times> string) list) \<Rightarrow> (string \<Rightarrow> string) \<Rightarrow> string \<Rightarrow> string" where
  "replace_all re f s = concat (map (\<lambda>(hit, p). if hit then f p else p) (re s))"

definition mask_ipv4 :: "(string \<Rightarrow> (bool \<times> string) list) \<Rightarrow> nat \<Rightarrow> string \<Rightarrow> string" where
  "mask_ipv4 re bits s = (if 32 \<le> bits then s else replace_all re (mask_ipv4_text bits) s)"

text \<open>For IPv6 the bits behind the visible ones are cleared. The shift of the mask by a whole byte is a shift by zero, as it is for a machine without the check of debug builds.\<close>

definition v6_mask :: "nat \<Rightarrow> u8 list \<Rightarrow> u8 list option" where
  "v6_mask bits octets =
     (if 128 < bits then None
      else let full = bits div 8; m = push_bit ((8 - bits mod 8) mod 8) 0xFF :: u8 in
        Some (take full octets @ (if full < 16 then [octets ! full AND m] @ replicate (15 - full) 0 else [])))"

definition mask_ipv6_text :: "nat \<Rightarrow> string \<Rightarrow> string" where
  "mask_ipv6_text bits p =
     (if bits = 0 then ''[Masked IPv6]''
      else case parse_ip p of
        Some (V6 v6) \<Rightarrow> show_ipv6 (case v6_mask bits v6 of Some m \<Rightarrow> m | None \<Rightarrow> v6) @ ''/'' @ show_nat bits
      | _ \<Rightarrow> p)"

definition mask_ipv6 :: "(string \<Rightarrow> (bool \<times> string) list) \<Rightarrow> nat \<Rightarrow> string \<Rightarrow> string" where
  "mask_ipv6 re bits s = (if 128 \<le> bits then s else replace_all re (mask_ipv6_text bits) s)"

record mask_env =
  re4 :: "string \<Rightarrow> (bool \<times> string) list"
  re6 :: "string \<Rightarrow> (bool \<times> string) list"
  now_text :: string

definition mask_message :: "mask_env \<Rightarrow> nat \<Rightarrow> nat \<Rightarrow> string \<Rightarrow> string" where
  "mask_message E m4 m6 msg = mask_ipv4 (re4 E) m4 (mask_ipv6 (re6 E) m6 msg)"

datatype log_sink = Trace Severity | Stdout | Stderr | File_sink string

datatype log_handler = ConsoleHandler | FileHandler string

definition create_handler :: "LogType \<Rightarrow> string \<Rightarrow> (string, log_handler option) res" where
  "create_handler t path =
     (case t of
        Log_None \<Rightarrow> Ok None
      | Log_Console \<Rightarrow> Ok (Some ConsoleHandler)
      | Log_File \<Rightarrow> if path = [] then Err ''file log type requires a path'' else Ok (Some (FileHandler path)))"

definition access_line :: "AccessMessage \<Rightarrow> string" where
  "access_line m = ''[Access] '' @ access_str (am_status m) @ '' '' @ am_from m @ '' -> '' @ am_to m @ '' '' @ am_reason m"

definition handler_access :: "log_handler \<Rightarrow> AccessMessage \<Rightarrow> log_sink \<times> string" where
  "handler_access h m = (case h of ConsoleHandler \<Rightarrow> (Stdout, access_line m @ [CHR 0x0A]) | FileHandler p \<Rightarrow> (File_sink p, access_line m @ [CHR 0x0A]))"

definition handler_log :: "log_handler \<Rightarrow> LogMessage \<Rightarrow> log_sink \<times> string" where
  "handler_log h m =
     (let l = ''['' @ sev_str (lm_severity m) @ ''] '' @ lm_message m @ [CHR 0x0A] in
      case h of ConsoleHandler \<Rightarrow> (Stderr, l) | FileHandler p \<Rightarrow> (File_sink p, l))"

record LoggerInstance =
  lg_config :: LogConfig
  access_logger :: "log_handler option"
  error_logger :: "log_handler option"
  lg_active :: bool
  lg_mask4 :: nat
  lg_mask6 :: nat

definition LoggerInstance_new :: "LogConfig \<Rightarrow> LoggerInstance" where
  "LoggerInstance_new cfg =
     (let (m4, m6) = parse_mask_address (mask_address cfg) in
      \<lparr>lg_config = cfg, access_logger = None, error_logger = None, lg_active = False, lg_mask4 = m4, lg_mask6 = m6\<rparr>)"

definition logger_start :: "LoggerInstance \<Rightarrow> (string, unit) res \<times> LoggerInstance" where
  "logger_start l =
     (if lg_active l then (Ok (), l)
      else
        let l = l\<lparr>lg_active := True\<rparr> in
        case create_handler (access_log_type (lg_config l)) (access_log_path (lg_config l)) of
          Ok a \<Rightarrow>
            (let l = l\<lparr>access_logger := a\<rparr> in
             case create_handler (error_log_type (lg_config l)) (error_log_path (lg_config l)) of
               Ok b \<Rightarrow> (Ok (), l\<lparr>error_logger := b\<rparr>) | Err e \<Rightarrow> (Err e, l) | Panic \<Rightarrow> (Panic, l))
        | Err e \<Rightarrow> (Err e, l) | Panic \<Rightarrow> (Panic, l))"

definition logger_close :: "LoggerInstance \<Rightarrow> LoggerInstance" where
  "logger_close l = l\<lparr>lg_active := False, access_logger := None, error_logger := None\<rparr>"

definition format_access :: "mask_env \<Rightarrow> AccessMessage \<Rightarrow> string" where
  "format_access E m = now_text E @ '' '' @ am_from m @ '' -> '' @ am_to m @ '' ['' @ access_str (am_status m) @ ''] '' @ am_reason m"

definition lg_masked :: "mask_env \<Rightarrow> LoggerInstance \<Rightarrow> string \<Rightarrow> string" where
  "lg_masked E l s = (if mask_address (lg_config l) \<noteq> [] then mask_message E (lg_mask4 l) (lg_mask6 l) s else s)"

definition logger_access :: "mask_env \<Rightarrow> LoggerInstance \<Rightarrow> AccessMessage \<Rightarrow> (log_sink \<times> string) list" where
  "logger_access E l m =
     (if \<not> lg_active l then []
      else case access_logger l of
        Some h \<Rightarrow> [handler_access h m, (Trace Sev_Info, lg_masked E l (format_access E m))]
      | None \<Rightarrow> [])"

definition logger_log :: "mask_env \<Rightarrow> LoggerInstance \<Rightarrow> LogMessage \<Rightarrow> (log_sink \<times> string) list" where
  "logger_log E l m =
     (if \<not> lg_active l then []
      else if sev_rank (error_log_level (lg_config l)) < sev_rank (lm_severity m) then []
      else [(Trace (lm_severity m), lg_masked E l (lm_message m))])"

section \<open>Errors (errors.rs)\<close>

datatype XrayError = XrayError (err_message: string) (err_severity: Severity) (err_cause: "XrayError option")

definition XrayError_new :: "string \<Rightarrow> XrayError" where
  "XrayError_new m = XrayError m Sev_Error None"

definition at_severity :: "Severity \<Rightarrow> XrayError \<Rightarrow> XrayError" where
  "at_severity sv e = XrayError (err_message e) sv (err_cause e)"

definition err_base :: "XrayError \<Rightarrow> XrayError \<Rightarrow> XrayError" where
  "err_base e c = XrayError (err_message e) (err_severity e) (Some c)"

primrec full_message :: "XrayError \<Rightarrow> string" where
  "full_message (XrayError m sv c) = (case map_option full_message c of Some t \<Rightarrow> m @ '': '' @ t | None \<Rightarrow> m)"

definition show_error :: "XrayError \<Rightarrow> string" where
  "show_error e = ''['' @ sev_str (err_severity e) @ ''] '' @ full_message e"

definition err_combine :: "XrayError list \<Rightarrow> XrayError" where
  "err_combine es = (case es of [] \<Rightarrow> XrayError_new ''unknown error'' | e # es \<Rightarrow> foldl err_base e es)"

section \<open>Environment flags (platform.rs)\<close>

record EnvFlag =
  ef_name :: string
  ef_alt_name :: string
  ef_cached :: "string option"

definition normalize_env_name :: "(string \<Rightarrow> string) \<Rightarrow> string \<Rightarrow> string" where
  "normalize_env_name to_uppercase name = to_uppercase (map (\<lambda>c. if c = CHR ''.'' then CHR ''_'' else c) name)"

definition EnvFlag_new :: "(string \<Rightarrow> string) \<Rightarrow> string \<Rightarrow> EnvFlag" where
  "EnvFlag_new to_uppercase name = \<lparr>ef_name = name, ef_alt_name = normalize_env_name to_uppercase name, ef_cached = None\<rparr>"

definition EnvFlag_get :: "(string \<Rightarrow> string option) \<Rightarrow> string \<Rightarrow> EnvFlag \<Rightarrow> string \<times> EnvFlag" where
  "EnvFlag_get env d f =
     (case ef_cached f of
        Some v \<Rightarrow> (v, f)
      | None \<Rightarrow>
          let v = (case env (ef_name f) of Some v \<Rightarrow> v | None \<Rightarrow> (case env (ef_alt_name f) of Some v \<Rightarrow> v | None \<Rightarrow> d)) in
          (v, f\<lparr>ef_cached := Some v\<rparr>))"

definition is_cone_nat_enabled :: "(string \<Rightarrow> string) \<Rightarrow> (string \<Rightarrow> string option) \<Rightarrow> bool" where
  "is_cone_nat_enabled up env \<longleftrightarrow> fst (EnvFlag_get env [] (EnvFlag_new up ''xray.cone.disabled'')) \<noteq> ''true''"

definition config_paths :: "(string \<Rightarrow> string) \<Rightarrow> (string \<Rightarrow> string option) \<Rightarrow> string list" where
  "config_paths up env =
     (let path = fst (EnvFlag_get env [] (EnvFlag_new up ''xray.location.config'')) in
      if path = [] then [''./config.json'', ''./config.yaml'', ''./config.toml''] else [path])"

section \<open>Exposition of counters (metrics)\<close>

definition sanitize_label_value :: "string \<Rightarrow> string" where
  "sanitize_label_value s = map (\<lambda>c. if c = CHR 0x22 \<or> c = CHR 0x5C \<or> c = CHR 0x0A then CHR ''_'' else c) s"

function split_str :: "string \<Rightarrow> string \<Rightarrow> string list" where
  "split_str sep s =
     (if sep = [] then [s]
      else case s of
        [] \<Rightarrow> [[]]
      | c # cs \<Rightarrow>
          if starts_with sep s then [] # split_str sep (drop (length sep) s)
          else (case split_str sep cs of p # ps \<Rightarrow> (c # p) # ps | [] \<Rightarrow> [[c]]))"
  by pat_completeness auto
termination
  by (relation "measure (length \<circ> snd)") (auto simp: diff_less)

declare split_str.simps [simp del]

definition quoted :: "string \<Rightarrow> string" where
  "quoted s = [CHR 0x22] @ s @ [CHR 0x22]"

definition parse_traffic_name :: "string \<Rightarrow> string" where
  "parse_traffic_name name =
     (let parts = split_str ''>>>'' name in
      if 4 \<le> length parts \<and> parts ! 2 = ''traffic'' then
        ''kind='' @ quoted (sanitize_label_value (parts ! 0)) @ '',tag='' @ quoted (sanitize_label_value (parts ! 1)) @
        '',direction='' @ quoted (sanitize_label_value (parts ! 3)) @ '',name='' @ quoted (sanitize_label_value name)
      else ''name='' @ quoted (sanitize_label_value name))"

definition show_i64 :: "i64 \<Rightarrow> string" where
  "show_i64 w = (if sint w < 0 then ''-'' @ show_nat (nat (- sint w)) else show_nat (nat (sint w)))"

definition format_metric_line :: "string \<Rightarrow> i64 \<Rightarrow> string" where
  "format_metric_line name v = ''astra_traffic_bytes{'' @ parse_traffic_name name @ ''} '' @ show_i64 v @ [CHR 0x0A]"

definition render_metrics :: "StatsManager \<Rightarrow> string" where
  "render_metrics s =
     ''# HELP astra_traffic_bytes Traffic counters in bytes'' @ [CHR 0x0A] @ ''# TYPE astra_traffic_bytes counter'' @ [CHR 0x0A] @
     concat (map (\<lambda>i. format_metric_line (counter_name (counter_heap s ! i)) (counter_get (counter_heap s ! i))) (all_counters s)) @
     concat (map (\<lambda>i. format_metric_line (channel_name (channel_heap s ! i)) (channel_get (channel_heap s ! i))) (all_channels s))"

section \<open>What is logged\<close>

text \<open>The level works the wrong way round: a message is written when it is at most as severe as the level, so the default level writes debug messages only, and errors are written at
  the level of errors only.\<close>

lemma logger_level: "logger_log E l m \<noteq> [] \<longleftrightarrow> lg_active l \<and> sev_rank (lm_severity m) \<le> sev_rank (error_log_level (lg_config l))"
  by (auto simp: logger_log_def)

lemma errors_dropped: "lm_severity m = Sev_Error \<Longrightarrow> error_log_level (lg_config l) \<noteq> Sev_Error \<Longrightarrow> logger_log E l m = []"
  by (cases "error_log_level (lg_config l)") (simp_all add: logger_log_def)

text \<open>The handler of access messages gets the addresses unmasked, whatever the mask.\<close>

lemma access_unmasked:
  assumes "lg_active l" and "access_logger l = Some h"
  shows "\<exists>sink rest. logger_access E l m = (sink, access_line m @ [CHR 0x0A]) # rest"
  using assms by (cases h) (simp_all add: logger_access_def handler_access_def)

text \<open>A logger whose start failed counts as started: a second start succeeds without handlers.\<close>

lemma failed_start_stays:
  assumes "\<not> lg_active l" and "access_log_type (lg_config l) = Log_File" and "access_log_path (lg_config l) = []"
  shows "\<exists>e l'. logger_start l = (Err e, l') \<and> logger_start l' = (Ok (), l') \<and> access_logger l' = access_logger l"
  using assms by (simp add: logger_start_def create_handler_def Let_def)

section \<open>Masks\<close>

lemma split_char_skip: "c \<notin> set a \<Longrightarrow> split_char c (a @ c # b) = a # split_char c b" "c \<notin> set a \<Longrightarrow> split_char c a = [a]"
  by (induction a) auto

lemma octet_no_dot: "CHR ''.'' \<notin> set (show_nat n)"
proof
  assume "CHR ''.'' \<in> set (show_nat n)"
  from show_nat_chars [OF this] show False by simp
qed

lemma mask_ipv4_half:
  "mask_ipv4_text 16 (show_ipv4 [w, x, y, z]) = show_nat (unat w) @ ''.'' @ show_nat (unat x) @ ''.*.*''"
proof -
  have "split_char (CHR ''.'') (show_ipv4 [w, x, y, z]) = [show_nat (unat w), show_nat (unat x), show_nat (unat y), show_nat (unat z)]"
    by (simp add: show_ipv4_def split_char_skip octet_no_dot)
  then show ?thesis by (simp add: mask_ipv4_text_def)
qed

text \<open>What stays visible of an IPv6 address: the whole octets in front, and of the next one the bits asked for; but when they are none, that octet stays whole.\<close>

lemma v6_mask_octets:
  assumes "length os = 16" and "bits < 128" and "i < 16"
  obtains m where "v6_mask bits os = Some m" "length m = 16"
    "m ! i = (if i < bits div 8 then os ! i else if i = bits div 8 then os ! i AND push_bit ((8 - bits mod 8) mod 8) 0xFF else 0)"
proof -
  let ?f = "bits div 8"
  let ?x = "os ! ?f AND push_bit ((8 - bits mod 8) mod 8) 0xFF"
  have f: "?f < 16" using assms(2) by simp
  have m: "v6_mask bits os = Some (take ?f os @ [?x] @ replicate (15 - ?f) 0)" using assms(2) f by (simp add: v6_mask_def Let_def)
  have "(take ?f os @ [?x] @ replicate (15 - ?f) 0) ! i = (if i < ?f then os ! i else if i = ?f then ?x else 0)"
    using assms(1,3) f by (auto simp: nth_append nth_Cons split: nat.split)
  then show thesis using that [OF m] assms(1) f by auto
qed

lemma v6_mask_octet_shown:
  assumes "length os = 16" and "bits < 128" and "bits mod 8 = 0"
  shows "\<exists>m. v6_mask bits os = Some m \<and> m ! (bits div 8) = os ! (bits div 8)"
proof -
  have "x AND 0xFF = x" for x :: u8
  proof -
    have "(0xFF :: u8) = - 1" by simp
    then show ?thesis by (simp only: and.right_neutral)
  qed
  moreover have "bits div 8 < 16" using assms(2) by simp
  from v6_mask_octets [OF assms(1,2) this] obtain m where "v6_mask bits os = Some m"
    "m ! (bits div 8) = os ! (bits div 8) AND push_bit ((8 - bits mod 8) mod 8) 0xFF" by auto
  ultimately show ?thesis using assms(3) by simp
qed

section \<open>Errors, flags, labels\<close>

text \<open>Of a list of errors the first and the last are kept.\<close>

lemma combine_keeps_ends: "full_message (err_combine (e # es @ [l])) = err_message e @ '': '' @ full_message l"
proof -
  have "err_message (foldl err_base e es) = err_message e" for e by (induction es arbitrary: e) (simp_all add: err_base_def)
  then show ?thesis by (simp add: err_combine_def err_base_def)
qed

text \<open>A flag keeps the value of its first reading.\<close>

lemma flag_cached: "EnvFlag_get env d f = (v, f') \<Longrightarrow> EnvFlag_get env' d' f' = (v, f')"
  by (auto simp: EnvFlag_get_def Let_def split: option.splits)

text \<open>No name breaks the lines of the exposition.\<close>

lemma sanitize_clean: "CHR 0x22 \<notin> set (sanitize_label_value s)" "CHR 0x0A \<notin> set (sanitize_label_value s)"
  by (auto simp: sanitize_label_value_def)

lemma split_str_parts: "\<forall>i < length a. \<not> starts_with sep (drop i (a @ sep @ b)) \<Longrightarrow> sep \<noteq> [] \<Longrightarrow> split_str sep (a @ sep @ b) = a # split_str sep b"
proof (induction a)
  case Nil
  then have "starts_with sep (sep @ b)" by (simp add: starts_with_def)
  then show ?case using Nil by (subst split_str.simps) (cases sep, simp_all)
next
  case (Cons c a)
  have "split_str sep (a @ sep @ b) = a # split_str sep b"
  proof (rule Cons.IH)
    show "\<forall>i < length a. \<not> starts_with sep (drop i (a @ sep @ b))" using Cons.prems(1) by (auto dest: spec [of _ "Suc _"])
  qed (rule Cons.prems(2))
  moreover have "\<not> starts_with sep (c # a @ sep @ b)" using Cons.prems(1) by (auto dest: spec [of _ 0])
  ultimately show ?case using Cons.prems(2) by (subst split_str.simps) simp
qed

end
