(* ===== verification/Routing.thy ===== *)
theory Routing
  imports Net
begin

text \<open>
  \<^verbatim>\<open>astra-core-routing\<close>: routing contexts, matchers, rules, the router, the balancer and the webhook
  notifier. Regular expressions (crate \<^verbatim>\<open>regex\<close>), CIDR networks (crate \<^verbatim>\<open>ipnetwork\<close>) and Unicode lower
  case are the fields of the parameter \<open>ext\<close>. The floating-point score of the least-load strategy
  is a parameter of \<open>Balancer_pick\<close>; so are the clock readings of the random strategy and of the
  webhook de-duplication.
\<close>

section \<open>Context (context.rs)\<close>

record RoutingContext =
  target_domain :: "string option"
  target_ip :: "IpAddr option"
  target_port :: u16
  source_ip :: "IpAddr option"
  source_port :: u16
  inbound_tag :: string
  ctx_network :: string
  protocol :: "string option"
  user :: "string option"
  attributes :: "(string \<times> string) list"

definition RoutingContext_default :: RoutingContext where
  "RoutingContext_default =
     \<lparr>target_domain = None, target_ip = None, target_port = 0, source_ip = None, source_port = 0,
      inbound_tag = [], ctx_network = [], protocol = None, user = None, attributes = []\<rparr>"

section \<open>Matchers (matcher.rs)\<close>

record ('re, 'net) ext =
  lower :: "string \<Rightarrow> string"
  re_new :: "string \<Rightarrow> 're option"
  re_empty :: 're
  re_match :: "'re \<Rightarrow> string \<Rightarrow> bool"
  net_parse :: "string \<Rightarrow> 'net option"
  net_of_ip :: "IpAddr \<Rightarrow> 'net"
  net_contains :: "'net \<Rightarrow> IpAddr \<Rightarrow> bool"

datatype 're DomainPattern = Exact string | Subdomain string | Keyword string | Regex 're

definition re_or_empty :: "('re, 'net) ext \<Rightarrow> string \<Rightarrow> 're" where
  "re_or_empty e s = (case re_new e s of Some r \<Rightarrow> r | None \<Rightarrow> re_empty e)"

definition DomainPattern_new :: "('re, 'net) ext \<Rightarrow> string \<Rightarrow> 're DomainPattern" where
  "DomainPattern_new e d =
     (case strip_prefix ''keyword:'' d of
        Some keyword \<Rightarrow> Keyword (lower e keyword)
      | None \<Rightarrow>
     (case strip_prefix ''regexp:'' d of
        Some re_str \<Rightarrow> Regex (re_or_empty e re_str)
      | None \<Rightarrow>
     (case strip_prefix ''domain:'' d of
        Some plain \<Rightarrow> if starts_with ''.'' plain then Subdomain (lower e plain) else Exact (lower e plain)
      | None \<Rightarrow> if starts_with ''.'' d then Subdomain (lower e d) else Exact (lower e d))))"

definition DomainMatcher_new :: "('re, 'net) ext \<Rightarrow> string list \<Rightarrow> 're DomainPattern list" where
  "DomainMatcher_new e domains = map (DomainPattern_new e) domains"

fun pattern_matches :: "('re, 'net) ext \<Rightarrow> string \<Rightarrow> 're DomainPattern \<Rightarrow> bool" where
  "pattern_matches e domain (Exact d) \<longleftrightarrow>
     domain = d \<or> domain @ ''.'' = d \<or> domain = trim_end_matches (CHR ''.'') d"
| "pattern_matches e domain (Subdomain s) \<longleftrightarrow>
     (let s = trim_start_matches (CHR ''.'') s in domain = s \<or> ends_with (CHR ''.'' # s) domain)"
| "pattern_matches e domain (Keyword k) \<longleftrightarrow> contains_str k domain"
| "pattern_matches e domain (Regex r) \<longleftrightarrow> re_match e r domain"

definition DomainMatcher_matches ::
  "('re, 'net) ext \<Rightarrow> 're DomainPattern list \<Rightarrow> RoutingContext \<Rightarrow> bool" where
  "DomainMatcher_matches e patterns ctx =
     (case target_domain ctx of
        None \<Rightarrow> False
      | Some d \<Rightarrow> list_ex (pattern_matches e (lower e d)) patterns)"

datatype routing_error = InvalidCidr string | InvalidIp string

definition parse_network :: "('re, 'net) ext \<Rightarrow> string \<Rightarrow> (routing_error, 'net) res" where
  "parse_network e s =
     (if CHR ''/'' \<in> set s then ok_or (InvalidCidr s) (net_parse e s)
      else rbind (ok_or (InvalidIp s) (parse_ip s)) (\<lambda>ip. Ok (net_of_ip e ip)))"

text \<open>\<open>collect\<close> into a \<^verbatim>\<open>Result\<close>: the first error wins.\<close>

fun IpMatcher_new :: "('re, 'net) ext \<Rightarrow> string list \<Rightarrow> (routing_error, 'net list) res" where
  "IpMatcher_new e [] = Ok []"
| "IpMatcher_new e (s # ss) =
     rbind (parse_network e s) (\<lambda>n. rbind (IpMatcher_new e ss) (\<lambda>ns. Ok (n # ns)))"

definition ip_in :: "('re, 'net) ext \<Rightarrow> 'net list \<Rightarrow> IpAddr option \<Rightarrow> bool" where
  "ip_in e networks ip = (case ip of None \<Rightarrow> False | Some i \<Rightarrow> list_ex (\<lambda>n. net_contains e n i) networks)"

definition port_in :: "(u16 \<times> u16) list \<Rightarrow> u16 \<Rightarrow> bool" where
  "port_in ranges p = list_ex (\<lambda>(lo, hi). lo \<le> p \<and> p \<le> hi) ranges"

record ProcessNames =
  process_names :: "string list"
  abs_paths :: "string list"
  folders :: "string list"
  match_self :: bool

definition add_process :: "string \<Rightarrow> ProcessNames \<Rightarrow> ProcessNames" where
  "add_process name p =
     (if name = ''self/'' then p\<lparr>match_self := True\<rparr>
      else let name = map (\<lambda>c. if c = CHR 0x5C then CHR ''/'' else c) name in
        if ends_with ''/'' name then p\<lparr>folders := folders p @ [name]\<rparr>
        else if CHR ''/'' \<in> set name then p\<lparr>abs_paths := abs_paths p @ [name]\<rparr>
        else p\<lparr>process_names := process_names p @ [trim_end_str ''.exe'' name]\<rparr>)"

definition ProcessNameMatcher_new :: "string list \<Rightarrow> ProcessNames" where
  "ProcessNameMatcher_new names =
     fold add_process names \<lparr>process_names = [], abs_paths = [], folders = [], match_self = False\<rparr>"

definition ProcessNameMatcher_matches :: "ProcessNames \<Rightarrow> RoutingContext \<Rightarrow> bool" where
  "ProcessNameMatcher_matches p ctx =
     (case map_of (attributes ctx) ''process_name'' of
        None \<Rightarrow> False
      | Some n \<Rightarrow> n \<in> set (process_names p) \<or> n \<in> set (abs_paths p) \<or> list_ex (\<lambda>f. starts_with f n) (folders p))"

definition AttributeMatcher_new :: "('re, 'net) ext \<Rightarrow> (string \<times> string) list \<Rightarrow> (string \<times> 're) list" where
  "AttributeMatcher_new e attrs = map (\<lambda>(k, v). (lower e k, re_or_empty e v)) attrs"

definition AttributeMatcher_matches ::
  "('re, 'net) ext \<Rightarrow> (string \<times> 're) list \<Rightarrow> RoutingContext \<Rightarrow> bool" where
  "AttributeMatcher_matches e patterns ctx =
     list_all (\<lambda>(k, r). case map_of (attributes ctx) k of Some v \<Rightarrow> re_match e r v | None \<Rightarrow> False) patterns"

text \<open>The trait objects: one constructor per implementation of \<open>Matcher\<close>.\<close>

datatype ('re, 'net) Matcher =
    DomainM "'re DomainPattern list"
  | IpM "'net list"
  | PortM "(u16 \<times> u16) list"
  | NetworkM "string list"
  | InboundTagM "string list"
  | ProtocolM "string list"
  | SourceIpM "'net list"
  | SourcePortM "(u16 \<times> u16) list"
  | UserM "string list"
  | ProcessNameM ProcessNames
  | AttributeM "(string \<times> 're) list"

fun matches :: "('re, 'net) ext \<Rightarrow> RoutingContext \<Rightarrow> ('re, 'net) Matcher \<Rightarrow> bool" where
  "matches e ctx (DomainM ps) = DomainMatcher_matches e ps ctx"
| "matches e ctx (IpM ns) = ip_in e ns (target_ip ctx)"
| "matches e ctx (PortM rs) = port_in rs (target_port ctx)"
| "matches e ctx (NetworkM ns) = (ctx_network ctx \<in> set ns)"
| "matches e ctx (InboundTagM ts) = (inbound_tag ctx \<in> set ts)"
| "matches e ctx (ProtocolM ps) =
     (case protocol ctx of Some p \<Rightarrow> list_ex (\<lambda>proto. contains_str proto p) ps | None \<Rightarrow> False)"
| "matches e ctx (SourceIpM ns) = ip_in e ns (source_ip ctx)"
| "matches e ctx (SourcePortM rs) = port_in rs (source_port ctx)"
| "matches e ctx (UserM es) = (case user ctx of Some u \<Rightarrow> u \<in> set es | None \<Rightarrow> False)"
| "matches e ctx (ProcessNameM p) = ProcessNameMatcher_matches p ctx"
| "matches e ctx (AttributeM ps) = AttributeMatcher_matches e ps ctx"

section \<open>Rules and the router (rule.rs, router.rs)\<close>

text \<open>A rule names its webhook notifier, which rules may share, by an index.\<close>

record ('re, 'net) RouteRule =
  rule_tag :: string
  conditions :: "('re, 'net) Matcher list"
  outbound_tag :: string
  balancer_tag :: string
  webhook :: "nat option"

definition RouteRule_new :: "string \<Rightarrow> string \<Rightarrow> string \<Rightarrow> ('re, 'net) RouteRule" where
  "RouteRule_new t ob bl = \<lparr>rule_tag = t, conditions = [], outbound_tag = ob, balancer_tag = bl, webhook = None\<rparr>"

definition add_condition :: "('re, 'net) Matcher \<Rightarrow> ('re, 'net) RouteRule \<Rightarrow> ('re, 'net) RouteRule" where
  "add_condition c r = r\<lparr>conditions := conditions r @ [c]\<rparr>"

definition rule_matches :: "('re, 'net) ext \<Rightarrow> RoutingContext \<Rightarrow> ('re, 'net) RouteRule \<Rightarrow> bool" where
  "rule_matches e ctx r = (if conditions r = [] then False else list_all (matches e ctx) (conditions r))"

text \<open>The webhook calls a rule makes: notifier and tag.\<close>

definition rule_target :: "('re, 'net) RouteRule \<Rightarrow> string" where
  "rule_target r = (if outbound_tag r \<noteq> [] then outbound_tag r else balancer_tag r)"

definition matches_and_notify ::
  "('re, 'net) ext \<Rightarrow> RoutingContext \<Rightarrow> ('re, 'net) RouteRule \<Rightarrow> bool \<times> (nat \<times> string) list" where
  "matches_and_notify e ctx r =
     (let matched = rule_matches e ctx r
      in (matched, if matched then (case webhook r of Some w \<Rightarrow> [(w, rule_target r)] | None \<Rightarrow> []) else []))"

datatype DomainStrategy = AsIs | IpIfNonMatch | IpOnDemand

definition DomainStrategy_from_str :: "string \<Rightarrow> DomainStrategy" where
  "DomainStrategy_from_str s =
     (if s = ''IpIfNonMatch'' then IpIfNonMatch else if s = ''IpOnDemand'' then IpOnDemand else AsIs)"

record RouteResult =
  res_outbound_tag :: string
  res_rule_tag :: string

fun pick_route ::
  "('re, 'net) ext \<Rightarrow> RoutingContext \<Rightarrow> ('re, 'net) RouteRule list \<Rightarrow> RouteResult option \<times> (nat \<times> string) list" where
  "pick_route e ctx [] = (None, [])"
| "pick_route e ctx (r # rs) =
     (case matches_and_notify e ctx r of (matched, calls) \<Rightarrow>
        if matched \<and> outbound_tag r \<noteq> []
        then (Some \<lparr>res_outbound_tag = outbound_tag r, res_rule_tag = rule_tag r\<rparr>, calls)
        else if matched \<and> balancer_tag r \<noteq> []
        then (Some \<lparr>res_outbound_tag = balancer_tag r, res_rule_tag = rule_tag r\<rparr>, calls)
        else case pick_route e ctx rs of (res, calls') \<Rightarrow> (res, calls @ calls'))"

text \<open>A rule that settles the route: it matches and names a target.\<close>

definition decides :: "('re, 'net) ext \<Rightarrow> RoutingContext \<Rightarrow> ('re, 'net) RouteRule \<Rightarrow> bool" where
  "decides e ctx r \<longleftrightarrow> conditions r \<noteq> [] \<and> (\<forall>c \<in> set (conditions r). matches e ctx c) \<and> rule_target r \<noteq> []"

lemma pick_route_unfold:
  "fst (pick_route e ctx (r # rs)) =
     (if decides e ctx r then Some \<lparr>res_outbound_tag = rule_target r, res_rule_tag = rule_tag r\<rparr>
      else fst (pick_route e ctx rs))"
  by (auto simp: matches_and_notify_def rule_matches_def rule_target_def decides_def list_all_iff
      split: prod.splits)

text \<open>C15. Routing is first match: the route is the target of the first rule whose conditions all hold (an
  empty condition list never holds) and that names an outbound or a balancer, the outbound winning
  over the balancer; there is no route exactly when no rule decides.\<close>
theorem pick_route_first_match:
  "fst (pick_route e ctx rules) =
     (case find (decides e ctx) rules of
        Some r \<Rightarrow> Some \<lparr>res_outbound_tag = rule_target r, res_rule_tag = rule_tag r\<rparr>
      | None \<Rightarrow> None)"
proof (induction rules)
  case (Cons r rs)
  then show ?case by (simp add: pick_route_unfold del: pick_route.simps)
qed simp

text \<open>The webhooks called are those of the matching rules up to the deciding one.\<close>

lemma pick_route_calls:
  "snd (pick_route e ctx rules) =
     concat (map (\<lambda>r. if rule_matches e ctx r then (case webhook r of Some w \<Rightarrow> [(w, rule_target r)] | None \<Rightarrow> []) else [])
       (take (length (takeWhile (\<lambda>r. \<not> decides e ctx r) rules) + 1) rules))"
proof (induction rules)
  case (Cons r rs)
  have "decides e ctx r = (rule_matches e ctx r \<and> (outbound_tag r \<noteq> [] \<or> balancer_tag r \<noteq> []))"
    by (auto simp: decides_def rule_matches_def rule_target_def list_all_iff)
  with Cons show ?case by (auto simp: matches_and_notify_def split: prod.splits)
qed simp

section \<open>Load balancing (balancer.rs)\<close>

datatype BalancerStrategy = Random | RoundRobin | LeastPing | LeastLoad

definition BalancerStrategy_from_str :: "string \<Rightarrow> BalancerStrategy" where
  "BalancerStrategy_from_str s =
     (if s = ''roundRobin'' then RoundRobin else if s = ''leastPing'' then LeastPing
      else if s = ''leastLoad'' then LeastLoad else Random)"

record Balancer =
  bal_tag :: string
  selector :: "string list"
  strategy :: BalancerStrategy
  fallback_tag :: "string option"
  counter :: u64
  alive :: "string list option"
  override_target :: "string option"

definition Balancer_new :: "string \<Rightarrow> string list \<Rightarrow> BalancerStrategy \<Rightarrow> string option \<Rightarrow> Balancer" where
  "Balancer_new t sel st fb =
     \<lparr>bal_tag = t, selector = sel, strategy = st, fallback_tag = fb, counter = 0, alive = None, override_target = None\<rparr>"

definition with_alive :: "string list \<Rightarrow> Balancer \<Rightarrow> Balancer" where
  "with_alive a b = b\<lparr>alive := Some a\<rparr>"

definition set_override :: "string \<Rightarrow> Balancer \<Rightarrow> Balancer" where
  "set_override t b = b\<lparr>override_target := (if t = [] then None else Some t)\<rparr>"

definition clear_override :: "Balancer \<Rightarrow> Balancer" where
  "clear_override b = b\<lparr>override_target := None\<rparr>"

definition pick_override :: "Balancer \<Rightarrow> string option" where
  "pick_override b = override_target b"

definition candidates :: "Balancer \<Rightarrow> string list" where
  "candidates b = (case alive b of Some a \<Rightarrow> filter (\<lambda>t. t \<in> set a) (selector b) | None \<Rightarrow> selector b)"

text \<open>The scan for the least score: \<open>lt\<close> is \<^verbatim>\<open><\<close> on \<^verbatim>\<open>f64\<close>, the best score starts at \<^verbatim>\<open>f64::MAX\<close>.\<close>

fun least_scan :: "('f \<Rightarrow> 'f \<Rightarrow> bool) \<Rightarrow> (string \<Rightarrow> 'f) \<Rightarrow> nat \<Rightarrow> nat \<Rightarrow> 'f \<Rightarrow> string list \<Rightarrow> nat" where
  "least_scan lt score i best_idx best_score [] = best_idx"
| "least_scan lt score i best_idx best_score (t # ts) =
     (if lt (score t) best_score then least_scan lt score (i + 1) i (score t) ts
      else least_scan lt score (i + 1) best_idx best_score ts)"

definition Balancer_pick ::
  "nat \<Rightarrow> ('f \<Rightarrow> 'f \<Rightarrow> bool) \<Rightarrow> (string \<Rightarrow> 'f) \<Rightarrow> 'f \<Rightarrow> Balancer \<Rightarrow> string option \<times> Balancer" where
  "Balancer_pick nanos lt score fmax b =
     (let cs = candidates b in
      if cs = [] then (fallback_tag b, b)
      else case strategy b of
             Random \<Rightarrow> (Some (cs ! (nanos mod length cs)), b)
           | RoundRobin \<Rightarrow> (Some (cs ! (unat (counter b) mod length cs)), b\<lparr>counter := counter b + 1\<rparr>)
           | LeastPing \<Rightarrow> (Some (cs ! (unat (counter b) mod length cs)), b\<lparr>counter := counter b + 1\<rparr>)
           | LeastLoad \<Rightarrow> (Some (cs ! least_scan lt score 0 0 fmax cs), b))"

lemma least_scan_less:
  "best_idx < i + length ts \<Longrightarrow> least_scan lt score i best_idx best ts < i + length ts"
proof (induction ts arbitrary: i best_idx best)
  case (Cons t ts)
  from Cons.IH [of i "i + 1" "score t"] Cons.IH [of best_idx "i + 1" best] Cons.prems show ?case by simp
qed simp

text \<open>A pick is one of the live candidates, or the fallback when there is none; it never sees the override.\<close>

lemma Balancer_pick_candidate:
  "fst (Balancer_pick nanos lt score fmax b) \<in> (if candidates b = [] then {fallback_tag b} else Some ` set (candidates b))"
  using least_scan_less [of 0 0 "candidates b" lt score fmax]
  by (cases "strategy b") (auto simp: Balancer_pick_def Let_def)

lemma Balancer_pick_ignores_override:
  "fst (Balancer_pick nanos lt score fmax (set_override t b)) = fst (Balancer_pick nanos lt score fmax b)"
proof -
  have "candidates (set_override t b) = candidates b"
    by (cases "alive b") (simp_all add: candidates_def set_override_def)
  moreover have "strategy (set_override t b) = strategy b" "counter (set_override t b) = counter b"
    "fallback_tag (set_override t b) = fallback_tag b" by (simp_all add: set_override_def)
  ultimately show ?thesis by (cases "strategy b") (simp_all add: Balancer_pick_def Let_def)
qed

primrec picks :: "nat \<Rightarrow> Balancer \<Rightarrow> string option list" where
  "picks 0 b = []"
| "picks (Suc k) b =
     (case Balancer_pick 0 (\<lambda>(_ :: nat) _. False) (\<lambda>_. 0) 0 b of (t, b') \<Rightarrow> t # picks k b')"

lemma picks_round_robin:
  assumes "strategy b = RoundRobin \<or> strategy b = LeastPing" and "candidates b \<noteq> []"
    and "unat (counter b) + k < 2 ^ 64"
  shows "picks k b = map (\<lambda>j. Some (candidates b ! ((unat (counter b) + j) mod length (candidates b)))) [0..<k]"
  using assms
proof (induction k arbitrary: b)
  case (Suc k)
  let ?b = "b\<lparr>counter := counter b + 1\<rparr>"
  have c: "candidates ?b = candidates b" by (cases "alive b") (simp_all add: candidates_def)
  have u: "unat (counter b + 1) = Suc (unat (counter b))"
    using Suc.prems(3) by (simp add: unat_word_ariths)
  have p: "Balancer_pick 0 (\<lambda>(_ :: nat) _. False) (\<lambda>_. 0) 0 b =
      (Some (candidates b ! (unat (counter b) mod length (candidates b))), ?b)"
    using Suc.prems(1,2) by (auto simp: Balancer_pick_def Let_def)
  have "picks k ?b = map (\<lambda>j. Some (candidates b ! ((Suc (unat (counter b)) + j) mod length (candidates b)))) [0..<k]"
    using Suc.IH [of ?b] Suc.prems c u by simp
  then show ?case
    by (simp add: p map_upt_Suc del: upt_Suc)
qed simp



section \<open>Webhooks (webhook.rs)\<close>

record WebhookEvent =
  ev_email :: "string option"
  ev_protocol :: "string option"
  ev_network :: "string option"
  ev_source :: "string option"
  ev_destination :: "string option"
  ev_inbound_tag :: "string option"
  ev_outbound_tag :: "string option"
  ev_ts :: int

text \<open>Instants are nanoseconds; \<open>seen\<close> has the last notification of each user.\<close>

record WebhookNotifier =
  wh_url :: string
  wh_headers :: "(string \<times> string) list"
  deduplication_secs :: u32
  seen :: "(string \<times> nat) list"
  wh_closed :: bool

definition WebhookNotifier_new :: "string \<Rightarrow> u32 \<Rightarrow> (string \<times> string) list \<Rightarrow> WebhookNotifier option" where
  "WebhookNotifier_new url secs hs =
     (if url = [] then None
      else Some \<lparr>wh_url = url, wh_headers = hs, deduplication_secs = secs, seen = [], wh_closed = False\<rparr>)"

definition filter_nonempty :: "string option \<Rightarrow> string option" where
  "filter_nonempty x = (case x of Some s \<Rightarrow> if s = [] then None else Some s | None \<Rightarrow> None)"

definition build_event :: "int \<Rightarrow> RoutingContext \<Rightarrow> string \<Rightarrow> WebhookEvent" where
  "build_event ts ctx tag =
     \<lparr>ev_email = filter_nonempty (user ctx), ev_protocol = protocol ctx, ev_network = Some (ctx_network ctx),
      ev_source = map_option (\<lambda>ip. show_ip ip @ '':'' @ show_nat (unat (source_port ctx))) (source_ip ctx),
      ev_destination = map_option (\<lambda>host. host @ '':'' @ show_nat (unat (target_port ctx)))
        (case target_domain ctx of Some d \<Rightarrow> Some d | None \<Rightarrow> map_option show_ip (target_ip ctx)),
      ev_inbound_tag = filter_nonempty (Some (inbound_tag ctx)), ev_outbound_tag = Some tag, ev_ts = ts\<rparr>"

definition dedup_ns :: "WebhookNotifier \<Rightarrow> nat" where
  "dedup_ns n = unat (deduplication_secs n) * 10 ^ 9"

definition is_duplicate :: "nat \<Rightarrow> string \<Rightarrow> WebhookNotifier \<Rightarrow> bool \<times> WebhookNotifier" where
  "is_duplicate now email n =
     (if deduplication_secs n = 0 \<or> email = [] then (False, n)
      else if (case map_of (seen n) email of Some prev \<Rightarrow> now - prev < dedup_ns n | None \<Rightarrow> False)
      then (True, n)
      else (False, n\<lparr>seen := AList.update email now (seen n)\<rparr>))"

definition user_or_empty :: "RoutingContext \<Rightarrow> string" where
  "user_or_empty ctx = (case user ctx of Some u \<Rightarrow> u | None \<Rightarrow> [])"

definition fire ::
  "nat \<Rightarrow> int \<Rightarrow> RoutingContext \<Rightarrow> string \<Rightarrow> WebhookNotifier \<Rightarrow> WebhookEvent option \<times> WebhookNotifier" where
  "fire now ts ctx tag n =
     (if wh_closed n then (None, n)
      else case is_duplicate now (user_or_empty ctx) n of (dup, n) \<Rightarrow>
        if dup then (None, n) else (Some (build_event ts ctx tag), n))"

text \<open>The notifications sent over a run of calls: their instants and users.\<close>

fun notifications :: "WebhookNotifier \<Rightarrow> (nat \<times> int \<times> RoutingContext \<times> string) list \<Rightarrow> (nat \<times> string) list" where
  "notifications n [] = []"
| "notifications n ((now, ts, ctx, tag) # cs) =
     (case fire now ts ctx tag n of
        (Some _, n') \<Rightarrow> (now, user_or_empty ctx) # notifications n' cs
      | (None, n') \<Rightarrow> notifications n' cs)"

lemma fire_Some:
  assumes "fire now ts ctx tag n = (Some ev, n')" and "0 < deduplication_secs n"
  shows "deduplication_secs n' = deduplication_secs n \<and>
    (user_or_empty ctx \<noteq> [] \<longrightarrow> map_of (seen n') (user_or_empty ctx) = Some now) \<and>
    (\<forall>u. u \<noteq> user_or_empty ctx \<or> u = [] \<longrightarrow> map_of (seen n') u = map_of (seen n) u) \<and>
    (\<forall>prev. user_or_empty ctx \<noteq> [] \<longrightarrow> map_of (seen n) (user_or_empty ctx) = Some prev \<longrightarrow> prev + dedup_ns n \<le> now)"
proof -
  have pos: "0 < dedup_ns n" using assms(2) by (simp add: dedup_ns_def word_less_nat_alt)
  show ?thesis
    using assms pos
    by (auto simp: fire_def is_duplicate_def update_conv' split: if_splits option.splits prod.splits)
qed

lemma fire_None: "fire now ts ctx tag n = (None, n') \<Longrightarrow> n' = n"
  by (auto simp: fire_def is_duplicate_def split: if_splits option.splits prod.splits)

lemma notifications_after_seen:
  assumes "0 < deduplication_secs n" and "(t, u) \<in> set (notifications n cs)" and "u \<noteq> []"
    and "map_of (seen n) u = Some prev"
  shows "prev + dedup_ns n \<le> t"
  using assms
proof (induction n cs arbitrary: prev rule: notifications.induct)
  case (2 n now ts ctx tag cs)
  show ?case
  proof (cases "fire now ts ctx tag n")
    case (Pair r n')
    show ?thesis
    proof (cases r)
      case None
      with Pair fire_None [of now ts ctx tag n n'] 2 show ?thesis by simp
    next
      case (Some ev)
      from fire_Some [of now ts ctx tag n ev n'] Pair Some "2.prems"(1)
      have f: "deduplication_secs n' = deduplication_secs n"
        "user_or_empty ctx \<noteq> [] \<longrightarrow> map_of (seen n') (user_or_empty ctx) = Some now"
        "\<forall>u. u \<noteq> user_or_empty ctx \<or> u = [] \<longrightarrow> map_of (seen n') u = map_of (seen n) u"
        "\<forall>l. user_or_empty ctx \<noteq> [] \<longrightarrow> map_of (seen n) (user_or_empty ctx) = Some l \<longrightarrow> l + dedup_ns n \<le> now"
        by auto
      have d: "dedup_ns n' = dedup_ns n" using f(1) by (simp add: dedup_ns_def)
      consider "(t, u) = (now, user_or_empty ctx)" | "(t, u) \<in> set (notifications n' cs)"
        using "2.prems"(2) Pair Some by auto
      then show ?thesis
      proof cases
        case 1
        then show ?thesis using f(4) "2.prems"(3,4) by auto
      next
        case inlater: 2
        have IH: "\<And>l. map_of (seen n') u = Some l \<Longrightarrow> l + dedup_ns n' \<le> t"
          using "2.IH"(2) [OF Pair [symmetric] Some] inlater f(1) "2.prems"(1,3) by simp
        show ?thesis
        proof (cases "u = user_or_empty ctx")
          case True
          then have "now + dedup_ns n \<le> t" "prev + dedup_ns n \<le> now"
            using IH f(2,4) "2.prems"(3,4) d by auto
          then show ?thesis by simp
        next
          case False
          then show ?thesis using IH f(3) "2.prems"(4) d by auto
        qed
      qed
    qed
  qed
qed simp

text \<open>Webhook notifications are rate limited per user: with a de-duplication period set, any two
  notifications sent for the same named user over any run of routing matches are at least that
  period apart.\<close>
theorem webhook_rate_limited:
  assumes "0 < deduplication_secs n"
  shows "sorted_wrt (\<lambda>(t, u) (t', u'). u = u' \<and> u \<noteq> [] \<longrightarrow> t + dedup_ns n \<le> t') (notifications n cs)"
  using assms
proof (induction n cs rule: notifications.induct)
  case (2 n now ts ctx tag cs)
  show ?case
  proof (cases "fire now ts ctx tag n")
    case (Pair r n')
    show ?thesis
    proof (cases r)
      case None
      with Pair fire_None [of now ts ctx tag n n'] 2 show ?thesis by simp
    next
      case (Some ev)
      from fire_Some [of now ts ctx tag n ev n'] Pair Some "2.prems"
      have f: "deduplication_secs n' = deduplication_secs n"
        "user_or_empty ctx \<noteq> [] \<longrightarrow> map_of (seen n') (user_or_empty ctx) = Some now" by auto
      then have d: "dedup_ns n' = dedup_ns n" by (simp add: dedup_ns_def)
      have "sorted_wrt (\<lambda>(t, u) (t', u'). u = u' \<and> u \<noteq> [] \<longrightarrow> t + dedup_ns n' \<le> t') (notifications n' cs)"
        using "2.IH"(2) [OF Pair [symmetric] Some] f(1) "2.prems" by simp
      moreover have "now + dedup_ns n \<le> t" if "(t, u) \<in> set (notifications n' cs)" "u = user_or_empty ctx" "u \<noteq> []" for t u
        using notifications_after_seen [of n' t u cs now] f d that "2.prems" by auto
      ultimately show ?thesis using Pair Some d by auto
    qed
  qed
qed simp

theorem webhook_rate_limited_witness:
  "let n = \<lparr>wh_url = ''u'', wh_headers = [], deduplication_secs = 60, seen = [], wh_closed = False\<rparr> in
   sorted_wrt (\<lambda>(t, u) (t', u'). u \<noteq> u' \<or> u = [] \<or> t + dedup_ns n \<le> t')
    (notifications n [(0, 0, RoutingContext_default\<lparr>user := Some ''a''\<rparr>, ''t''), (5, 0, RoutingContext_default\<lparr>user := Some ''a''\<rparr>, ''t'')])"
proof -
  let ?n = "\<lparr>wh_url = ''u'', wh_headers = [], deduplication_secs = 60 :: u32, seen = [] :: (string \<times> nat) list, wh_closed = False\<rparr>"
  have "0 < deduplication_secs ?n" by simp
  from webhook_rate_limited [OF this, of "[(0, 0, RoutingContext_default\<lparr>user := Some ''a''\<rparr>, ''t''),
      (5, 0, RoutingContext_default\<lparr>user := Some ''a''\<rparr>, ''t'')]"]
  show ?thesis unfolding Let_def by (rule sorted_wrt_mono_rel [rotated]) auto
qed

end
