(* ===== verification/Dns.thy ===== *)
theory Dns
  imports Net
begin

text \<open>
  \<^verbatim>\<open>astra-core-dns\<close>: names and messages on the wire, name servers, the answer cache and static hosts.
  \<open>lower\<close> (Unicode lower case) is a parameter. The decoder of compressed names follows pointers
  without a bound, so it has fuel; \<open>None\<close> is a run that has not ended.
\<close>

section \<open>Errors and strategies\<close>

datatype DnsError = EmptyResponse | RecordNotFound | RCode u8 string | DnsTimeout | NetworkError string

datatype QueryStrategy = UseIp | UseIp4 | UseIp6

definition QueryStrategy_from_str :: "string \<Rightarrow> QueryStrategy" where
  "QueryStrategy_from_str s = (if s = ''UseIPv4'' then UseIp4 else if s = ''UseIPv6'' then UseIp6 else UseIp)"

definition ipv4_enabled :: "QueryStrategy \<Rightarrow> bool" where
  "ipv4_enabled q \<longleftrightarrow> q = UseIp \<or> q = UseIp4"

definition ipv6_enabled :: "QueryStrategy \<Rightarrow> bool" where
  "ipv6_enabled q \<longleftrightarrow> q = UseIp \<or> q = UseIp6"

definition QTYPE_A :: u16 where "QTYPE_A = 1"
definition QTYPE_AAAA :: u16 where "QTYPE_AAAA = 28"
definition QCLASS_IN :: u16 where "QCLASS_IN = 1"
definition DNS_HEADER_SIZE :: nat where "DNS_HEADER_SIZE = 12"
definition DEFAULT_TTL :: u32 where "DEFAULT_TTL = 300"

section \<open>Names on the wire\<close>

fun split_dot :: "string \<Rightarrow> string list" where
  "split_dot [] = [[]]"
| "split_dot (c # s) =
     (if c = CHR ''.'' then [] # split_dot s
      else case split_dot s of l # ls \<Rightarrow> (c # l) # ls | [] \<Rightarrow> [[c]])"

definition encode_label :: "string \<Rightarrow> u8 list" where
  "encode_label l = (let n = min (length l) 63 in word_of_nat n # take n (as_bytes l))"

definition encode_domain_name :: "string \<Rightarrow> u8 list" where
  "encode_domain_name domain = concat (map encode_label (split_dot domain)) @ [0]"

text \<open>The loop of \<open>decode_domain_name\<close>; \<open>jump\<close> is the position behind the first pointer once there was one.\<close>

fun decode_loop :: "nat \<Rightarrow> u8 list \<Rightarrow> nat \<Rightarrow> nat option \<Rightarrow> string list \<Rightarrow> (string, string \<times> nat) res option" where
  "decode_loop 0 data pos jump labels = None"
| "decode_loop (Suc k) data pos jump labels =
     (if pos \<ge> length data then Some (Err ''truncated domain name'')
      else let len = data ! pos in
        if len = 0 then Some (Ok (join ''.'' labels, case jump of Some j \<Rightarrow> j | None \<Rightarrow> pos + 1))
        else if len AND 0xC0 = 0xC0 then
          (if pos + 1 \<ge> length data then Some (Err ''truncated pointer'')
           else decode_loop k data (unat (len AND 0x3F) * 256 + unat (data ! (pos + 1)))
                  (Some (case jump of Some j \<Rightarrow> j | None \<Rightarrow> pos + 2)) labels)
        else if pos + 1 + unat len > length data then Some (Err ''truncated label'')
        else let bs = take (unat len) (drop (pos + 1) data) in
          if \<not> valid_utf8 bs then Some (Err ''invalid utf8 in domain'')
          else decode_loop k data (pos + 1 + unat len) jump (labels @ [of_bytes bs]))"

definition decode_domain_name :: "nat \<Rightarrow> u8 list \<Rightarrow> nat \<Rightarrow> (string, string \<times> nat) res option" where
  "decode_domain_name fuel data offset = decode_loop fuel data offset None []"

section \<open>Queries\<close>

definition build_edns0_subnet_option :: "IpAddr option \<Rightarrow> u8 list option" where
  "build_edns0_subnet_option client_ip =
     (case client_ip of
        None \<Rightarrow> None
      | Some ip \<Rightarrow>
          (let (family, netmask, masked) =
             (case ip of V4 os \<Rightarrow> (1 :: u16, 24 :: u8, take 3 os @ [0])
                       | V6 os \<Rightarrow> (2, 96, take 12 os @ replicate 4 0))
           in Some (to_be16 8 @ to_be16 (word_of_nat (4 + length masked)) @ to_be16 family @
                    [netmask, 0] @ take (unat netmask div 8) masked)))"

definition build_edns0_padding_option :: "nat \<Rightarrow> u8 list" where
  "build_edns0_padding_option n = to_be16 12 @ to_be16 (word_of_nat n) @ replicate n 0"

definition build_dns_query_with_edns ::
  "string \<Rightarrow> u16 \<Rightarrow> u16 \<Rightarrow> IpAddr option \<Rightarrow> nat option \<Rightarrow> u8 list" where
  "build_dns_query_with_edns domain qtype qid client_ip padding =
     (let opt_data =
        (case build_edns0_subnet_option client_ip of Some s \<Rightarrow> s | None \<Rightarrow> []) @
        (case padding of Some n \<Rightarrow> if n > 0 then build_edns0_padding_option n else [] | None \<Rightarrow> [])
      in to_be16 qid @ [1, 0] @ [0, 1] @ [0, 0] @ [0, 0] @ [0, 1] @ encode_domain_name domain @
         to_be16 qtype @ to_be16 QCLASS_IN @ [0] @ [0, 0x29] @ [5, 0x36] @ [0, 0, 0x80, 0] @
         to_be16 (word_of_nat (length opt_data)) @ opt_data)"

definition build_dns_query :: "u16 \<Rightarrow> string \<Rightarrow> u16 \<Rightarrow> u8 list" where
  "build_dns_query random_id domain qtype = build_dns_query_with_edns domain qtype random_id None None"

section \<open>Responses\<close>

definition rcode_reason :: "u8 \<Rightarrow> string" where
  "rcode_reason c =
     (let reasons = [''NoError'', ''FormErr'', ''ServFail'', ''NXDomain'', ''NotImp'', ''Refused'', ''YXDomain'',
                     ''YXRRSet'', ''NXRRSet'', ''NotAuth'', ''NotZone'']
      in if unat c < length reasons then reasons ! unat c else ''Unknown'')"

text \<open>Sequencing over fuel and results, and the outcome of a name as a \<open>DnsError\<close>.\<close>

definition fbind :: "('e, 'a) res option \<Rightarrow> ('a \<Rightarrow> ('e, 'b) res option) \<Rightarrow> ('e, 'b) res option" where
  "fbind m f =
     (case m of None \<Rightarrow> None | Some (Ok x) \<Rightarrow> f x | Some (Err e) \<Rightarrow> Some (Err e) | Some Panic \<Rightarrow> Some Panic)"

lemma fbind_simps [simp]:
  "fbind None f = None" "fbind (Some (Ok x)) f = f x" "fbind (Some (Err e)) f = Some (Err e)"
  "fbind (Some Panic) f = Some Panic"
  by (simp_all add: fbind_def)

definition name_end :: "nat \<Rightarrow> u8 list \<Rightarrow> nat \<Rightarrow> (DnsError, nat) res option" where
  "name_end fuel data pos =
     map_option (\<lambda>r. rbind (map_err NetworkError r) (\<lambda>(_, new_pos). Ok new_pos)) (decode_domain_name fuel data pos)"

primrec skip_questions :: "nat \<Rightarrow> u8 list \<Rightarrow> nat \<Rightarrow> nat \<Rightarrow> (DnsError, nat) res option" where
  "skip_questions fuel data 0 pos = Some (Ok pos)"
| "skip_questions fuel data (Suc n) pos =
     fbind (name_end fuel data pos) (\<lambda>new_pos. skip_questions fuel data n (new_pos + 4))"

text \<open>One answer: the fixed part behind the name, then the data of an A or AAAA record.\<close>

definition read_rdata ::
  "u8 list \<Rightarrow> nat \<Rightarrow> IpAddr list \<Rightarrow> u32 \<Rightarrow> (DnsError, nat \<times> IpAddr list \<times> u32) res" where
  "read_rdata data pos ips min_ttl =
     (if pos + 10 > length data then Err (NetworkError ''truncated answer'')
      else let rtype = be16_at pos data;
               ttl = from_be32 (take 4 (drop (pos + 4) data));
               rdlength = unat (be16_at (pos + 8) data)
           in if pos + 10 + rdlength > length data then Err (NetworkError ''truncated rdata'')
              else if rtype = QTYPE_A \<and> rdlength = 4
              then Ok (pos + 10 + rdlength, ips @ [V4 (take 4 (drop (pos + 10) data))], min min_ttl ttl)
              else if rtype = QTYPE_AAAA \<and> rdlength = 16
              then Ok (pos + 10 + rdlength, ips @ [V6 (take 16 (drop (pos + 10) data))], min min_ttl ttl)
              else Ok (pos + 10 + rdlength, ips, min_ttl))"

definition read_answer ::
  "nat \<Rightarrow> u8 list \<Rightarrow> nat \<times> IpAddr list \<times> u32 \<Rightarrow> (DnsError, nat \<times> IpAddr list \<times> u32) res option" where
  "read_answer fuel data st =
     (case st of (pos, ips, min_ttl) \<Rightarrow>
        fbind (name_end fuel data pos) (\<lambda>new_pos. Some (read_rdata data new_pos ips min_ttl)))"

primrec read_answers ::
  "nat \<Rightarrow> u8 list \<Rightarrow> nat \<Rightarrow> nat \<times> IpAddr list \<times> u32 \<Rightarrow> (DnsError, nat \<times> IpAddr list \<times> u32) res option" where
  "read_answers fuel data 0 st = Some (Ok st)"
| "read_answers fuel data (Suc n) st = fbind (read_answer fuel data st) (read_answers fuel data n)"

definition parse_dns_response :: "nat \<Rightarrow> u8 list \<Rightarrow> (DnsError, IpAddr list \<times> u32) res option" where
  "parse_dns_response fuel data =
     (if length data < DNS_HEADER_SIZE then Some (Err (NetworkError ''response too short''))
      else let flags = be16_at 2 data in
        if flags AND 0x8000 = 0 then Some (Err (NetworkError ''not a DNS response''))
        else let rcode = ucast (flags AND 0x000F) in
          if rcode \<noteq> 0 then Some (Err (RCode rcode (rcode_reason rcode)))
          else
            fbind (skip_questions fuel data (unat (be16_at 4 data)) DNS_HEADER_SIZE) (\<lambda>pos.
            fbind (read_answers fuel data (unat (be16_at 6 data)) (pos, [], DEFAULT_TTL)) (\<lambda>(_, ips, min_ttl).
            Some (if ips = [] then Err EmptyResponse else Ok (ips, min_ttl)))))"

section \<open>Name servers\<close>

record NameServer =
  ns_address :: string
  ns_port :: u16
  ns_protocol :: string
  ns_domains :: "string list"
  expected_ips :: "IpAddr list"
  client_ip :: "IpAddr option"
  skip_fallback :: bool
  ns_tag :: string
  query_strategy :: QueryStrategy

definition is_or_under :: "string \<Rightarrow> string \<Rightarrow> bool" where
  "is_or_under domain suffix \<longleftrightarrow> domain = suffix \<or> ends_with (CHR ''.'' # suffix) domain"

definition pattern_covers :: "string \<Rightarrow> string \<Rightarrow> bool" where
  "pattern_covers domain pat =
     (case strip_prefix ''domain:'' pat of
        Some suffix \<Rightarrow> is_or_under domain suffix
      | None \<Rightarrow>
     (case strip_prefix ''keyword:'' pat of
        Some keyword \<Rightarrow> contains_str keyword domain
      | None \<Rightarrow>
     (case strip_prefix ''regexp:'' pat of
        Some _ \<Rightarrow> False
      | None \<Rightarrow>
     (case strip_prefix ''geosite:'' pat of
        Some geosite \<Rightarrow> is_or_under domain geosite
      | None \<Rightarrow> is_or_under domain pat))))"

definition matches_domain :: "string \<Rightarrow> NameServer \<Rightarrow> bool" where
  "matches_domain domain ns = (if ns_domains ns = [] then True else list_ex (pattern_covers domain) (ns_domains ns))"

text \<open>
  References to servers are compared by address in the source; here a server list is indexed by
  position, so the servers that are not matched are those at the other positions.
\<close>

definition sort_clients_by_domain :: "string \<Rightarrow> NameServer list \<Rightarrow> NameServer list \<times> bool" where
  "sort_clients_by_domain domain nameservers =
     (let matched = filter (matches_domain domain) nameservers in
      if list_ex (\<lambda>ns. CHR ''+'' \<in> set (ns_tag ns)) matched then (matched, True)
      else (matched @ filter (\<lambda>ns. \<not> matches_domain domain ns \<and> \<not> skip_fallback ns) nameservers, False))"

definition filter_expected :: "IpAddr list \<Rightarrow> IpAddr list \<Rightarrow> IpAddr list" where
  "filter_expected ips expected = (if expected = [] then ips else filter (\<lambda>ip. ip \<in> set expected) ips)"

fun dns_query_types :: "QueryStrategy \<Rightarrow> u16 list" where
  "dns_query_types UseIp4 = [QTYPE_A]"
| "dns_query_types UseIp6 = [QTYPE_AAAA]"
| "dns_query_types UseIp = [QTYPE_A, QTYPE_AAAA]"

section \<open>The cache\<close>

text \<open>Instants and durations are in nanoseconds.\<close>

record CacheRecord =
  rec_ips :: "IpAddr list"
  expiry :: nat

record CacheController =
  disable_cache :: bool
  serve_stale :: bool
  serve_expired_ttl :: nat
  records :: "(string \<times> CacheRecord) list"

definition secs :: "nat \<Rightarrow> nat" where "secs n = n * 10 ^ 9"

definition CacheController_new :: "bool \<Rightarrow> bool \<Rightarrow> int \<Rightarrow> CacheController" where
  "CacheController_new dis stale ttl =
     \<lparr>disable_cache = dis, serve_stale = stale, serve_expired_ttl = (if ttl > 0 then secs (nat ttl) else 0), records = []\<rparr>"

definition cache_find :: "nat \<Rightarrow> string \<Rightarrow> CacheController \<Rightarrow> (IpAddr list \<times> u32) option" where
  "cache_find now key c =
     (if disable_cache c then None
      else case map_of (records c) key of
             None \<Rightarrow> None
           | Some r \<Rightarrow>
               if expiry r > now then Some (rec_ips r, max (word_of_nat ((expiry r - now) div 10 ^ 9)) 1)
               else if serve_stale c \<and> (serve_expired_ttl c = 0 \<or> now - expiry r \<le> serve_expired_ttl c)
               then Some (rec_ips r, 1)
               else None)"

definition cache_update :: "nat \<Rightarrow> string \<Rightarrow> IpAddr list \<Rightarrow> u32 \<Rightarrow> CacheController \<Rightarrow> CacheController" where
  "cache_update now key ips ttl c =
     (if disable_cache c \<or> ips = [] then c
      else let ttl = (if ttl = 0 then DEFAULT_TTL else ttl)
           in c\<lparr>records := AList.update key \<lparr>rec_ips = ips, expiry = now + secs (unat ttl)\<rparr> (records c)\<rparr>)"

section \<open>Static hosts\<close>

datatype HostEntry = Ips "IpAddr list" | DomainEntry string

type_synonym StaticHosts = "(string \<times> HostEntry) list"

text \<open>Values of \<^verbatim>\<open>serde_json\<close>; an object lists its members in iteration order.\<close>

datatype json = JNull | JBool bool | JNum string | JStr string | JArr "json list" | JObj "(string \<times> json) list"

fun as_str :: "json \<Rightarrow> string option" where
  "as_str (JStr s) = Some s"
| "as_str _ = None"

definition host_key :: "(string \<Rightarrow> string) \<Rightarrow> string \<Rightarrow> string" where
  "host_key lower domain = lower (trim_end_matches (CHR ''.'') domain)"

definition array_ips :: "json list \<Rightarrow> IpAddr list" where
  "array_ips arr = List.map_filter (\<lambda>v. Option.bind (as_str v) parse_ip) arr"

fun add_host :: "(string \<Rightarrow> string) \<Rightarrow> string \<Rightarrow> json \<Rightarrow> StaticHosts \<Rightarrow> (string, StaticHosts) res" where
  "add_host lower domain (JStr s) h =
     (if starts_with ''#'' s then Ok h
      else case parse_ip s of
             Some ip \<Rightarrow> Ok (AList.update (host_key lower domain) (Ips [ip]) h)
           | None \<Rightarrow> Ok (AList.update (host_key lower domain) (DomainEntry (lower s)) h))"
| "add_host lower domain (JArr arr) h =
     (let ips = array_ips arr
      in Ok (if ips \<noteq> [] then AList.update (host_key lower domain) (Ips ips) h else h))"
| "add_host lower domain _ h = Err (''invalid hosts value for '' @ [CHR 0x27] @ domain @ [CHR 0x27])"

primrec add_hosts :: "(string \<Rightarrow> string) \<Rightarrow> (string \<times> json) list \<Rightarrow> StaticHosts \<Rightarrow> (string, StaticHosts) res" where
  "add_hosts lower [] h = Ok h"
| "add_hosts lower (e # es) h = rbind (add_host lower (fst e) (snd e) h) (add_hosts lower es)"

fun hosts_from_json :: "(string \<Rightarrow> string) \<Rightarrow> json \<Rightarrow> (string, StaticHosts) res" where
  "hosts_from_json lower (JObj es) = add_hosts lower es []"
| "hosts_from_json lower _ = Err ''hosts must be a JSON object''"

definition parse_hosts :: "(string \<Rightarrow> string) \<Rightarrow> json option \<Rightarrow> (string, StaticHosts) res" where
  "parse_hosts lower v = (case v of None \<Rightarrow> Ok [] | Some val \<Rightarrow> hosts_from_json lower val)"

definition hosts_lookup :: "(string \<Rightarrow> string) \<Rightarrow> string \<Rightarrow> StaticHosts \<Rightarrow> HostEntry option" where
  "hosts_lookup lower domain h = map_of h (host_key lower domain)"

text \<open>\<open>Some (Err d)\<close> is the last replacement name, to be asked of the servers.\<close>

function lookup_recursive ::
  "(string \<Rightarrow> string) \<Rightarrow> StaticHosts \<Rightarrow> string \<Rightarrow> nat \<Rightarrow> (string, IpAddr list) res option" where
  "lookup_recursive lower h domain depth =
     (if depth > 5 then None
      else case hosts_lookup lower domain h of
             Some (Ips ips) \<Rightarrow> Some (Ok ips)
           | Some (DomainEntry replacement) \<Rightarrow>
               (case lookup_recursive lower h replacement (depth + 1) of
                  Some r \<Rightarrow> Some r
                | None \<Rightarrow> Some (Err replacement))
           | None \<Rightarrow> None)"
  by pat_completeness auto
termination by (relation "measure (\<lambda>(_, _, _, depth). 6 - depth)") auto

declare lookup_recursive.simps [simp del]

section \<open>Names round trip\<close>

definition valid_label :: "string \<Rightarrow> bool" where
  "valid_label l \<longleftrightarrow> l \<noteq> [] \<and> length l \<le> 63 \<and> valid_utf8 (as_bytes l)"

definition valid_name :: "string \<Rightarrow> bool" where
  "valid_name d \<longleftrightarrow> list_all valid_label (split_dot d)"

lemma split_dot_nonempty [simp]: "split_dot s \<noteq> []"
  by (cases s) (auto split: list.splits)

lemma join_Cons_head: "join sep ((c # l) # ls) = c # join sep (l # ls)"
  by (cases ls) simp_all

lemma join_split_dot: "join ''.'' (split_dot d) = d"
proof (induction d)
  case (Cons c d)
  then obtain l ls where "split_dot d = l # ls" by (cases "split_dot d") auto
  with Cons show ?case by (auto simp: join_Cons_head)
qed simp

lemma small_byte:
  fixes w :: u8
  assumes "unat w < 64"
  shows "w AND 0xC0 \<noteq> 0xC0"
proof
  assume "w AND 0xC0 = 0xC0"
  then have "bit (w AND 0xC0) 7" by simp
  then have "bit w 7" by (simp add: bit_and_iff)
  moreover have "drop_bit 7 w = 0"
    using assms by (simp add: word_unat_eq_iff drop_bit_eq_div unat_div_distrib)
  ultimately show False by (simp add: bit_iff_odd_drop_bit)
qed

lemma encode_label_valid: "valid_label l \<Longrightarrow> encode_label l = word_of_nat (length l) # as_bytes l"
  by (simp add: encode_label_def valid_label_def min_def)

lemma decode_loop_labels:
  assumes "list_all valid_label ls" and "length ls < fuel"
    and "data = pre @ concat (map encode_label ls) @ 0 # post"
  shows "decode_loop fuel data (length pre) jump acc =
    Some (Ok (join ''.'' (acc @ ls),
      case jump of Some j \<Rightarrow> j | None \<Rightarrow> length pre + length (concat (map encode_label ls)) + 1))"
  using assms
proof (induction ls arbitrary: fuel pre acc)
  case Nil
  then obtain k where "fuel = Suc k" by (cases fuel) auto
  with Nil show ?case by (simp add: nth_append split: option.splits)
next
  case (Cons l ls)
  then obtain k where k: "fuel = Suc k" "length ls < k" by (cases fuel) auto
  have l: "valid_label l" and e: "encode_label l = word_of_nat (length l) # as_bytes l"
    using Cons.prems(1) by (simp_all add: encode_label_valid)
  have n: "unat (word_of_nat (length l) :: u8) = length l"
    using l by (simp add: valid_label_def unat_of_nat)
  have nz: "(word_of_nat (length l) :: u8) \<noteq> 0"
    using l n by (metis valid_label_def length_0_conv unat_0)
  have sm: "(word_of_nat (length l) :: u8) AND 0xC0 \<noteq> 0xC0"
    using l n by (intro small_byte) (simp add: valid_label_def)
  have d: "data = pre @ word_of_nat (length l) # as_bytes l @ concat (map encode_label ls) @ 0 # post"
    using Cons.prems(3) e by simp
  have IH: "decode_loop k data (length (pre @ encode_label l)) jump (acc @ [l]) =
    Some (Ok (join ''.'' ((acc @ [l]) @ ls),
      case jump of Some j \<Rightarrow> j | None \<Rightarrow> length (pre @ encode_label l) + length (concat (map encode_label ls)) + 1))"
    using Cons.prems k by (intro Cons.IH) simp_all
  have u: "valid_utf8 (as_bytes l)" using l by (simp add: valid_label_def)
  have len: "length data = length pre + Suc (length l + length (concat (map encode_label ls)) + Suc (length post))"
    using d by simp
  have at: "data ! length pre = word_of_nat (length l)" using d by (simp add: nth_append)
  have bs: "take (length l) (drop (Suc (length pre)) data) = as_bytes l" using d by simp
  have "decode_loop fuel data (length pre) jump acc = decode_loop k data (length pre + 1 + length l) jump (acc @ [l])"
    using k nz sm n u len at bs by (simp add: Let_def)
  with IH e show ?case by (simp add: ac_simps split: option.splits)
qed

lemma decode_encode_name:
  assumes "valid_name d" and "length (split_dot d) < fuel"
  shows "decode_domain_name fuel (pre @ encode_domain_name d @ post) (length pre) =
    Some (Ok (d, length pre + length (encode_domain_name d)))"
  using decode_loop_labels [of "split_dot d" fuel "pre @ encode_domain_name d @ post" pre post None "[]"] assms
  by (simp add: decode_domain_name_def valid_name_def encode_domain_name_def join_split_dot)

section \<open>Responses round trip\<close>

text \<open>
  A response as a server writes it: the question, then records whose owner is a pointer to the
  question's name. \<open>record_ip\<close> is the address a record carries.
\<close>

type_synonym rr = "u16 \<times> u32 \<times> u8 list"

fun record_ip :: "rr \<Rightarrow> IpAddr option" where
  "record_ip (t, _, rd) =
     (if t = QTYPE_A \<and> length rd = 4 then Some (V4 rd)
      else if t = QTYPE_AAAA \<and> length rd = 16 then Some (V6 rd) else None)"

fun encode_rr :: "rr \<Rightarrow> u8 list" where
  "encode_rr (t, ttl, rd) =
     [0xC0, 12] @ to_be16 t @ to_be16 QCLASS_IN @ to_be32 ttl @ to_be16 (word_of_nat (length rd)) @ rd"

definition response_head :: "u16 \<Rightarrow> nat \<Rightarrow> u8 list" where
  "response_head qid n = to_be16 qid @ to_be16 0x8180 @ to_be16 1 @ to_be16 (word_of_nat n) @ [0, 0, 0, 0]"

definition response :: "u16 \<Rightarrow> string \<Rightarrow> u16 \<Rightarrow> rr list \<Rightarrow> u8 list \<Rightarrow> u8 list" where
  "response qid domain qtype rrs additional =
     response_head qid (length rrs) @ encode_domain_name domain @ to_be16 qtype @ to_be16 QCLASS_IN @
     concat (map encode_rr rrs) @ additional"

definition collect_rr :: "rr \<Rightarrow> IpAddr list \<times> u32 \<Rightarrow> IpAddr list \<times> u32" where
  "collect_rr r acc =
     (case record_ip r of Some ip \<Rightarrow> (fst acc @ [ip], min (snd acc) (fst (snd r))) | None \<Rightarrow> acc)"

lemma length_response_head [simp]: "length (response_head qid n) = 12"
  by (simp add: response_head_def)

lemma name_end_pointer:
  assumes data: "data = pre @ [0xC0, 12] @ post" and name: "data = hd12 @ encode_domain_name d @ rest"
    and "length hd12 = 12" and "valid_name d" and "length (split_dot d) + 1 < fuel"
  shows "name_end fuel data (length pre) = Some (Ok (length pre + 2))"
proof -
  obtain k where k: "fuel = Suc k" "length (split_dot d) < k" using assms(5) by (cases fuel) auto
  have "decode_loop k data 12 (Some (length pre + 2)) [] = Some (Ok (d, length pre + 2))"
    using decode_loop_labels [of "split_dot d" k data hd12 rest "Some (length pre + 2)" "[]"] assms k
    by (simp add: valid_name_def encode_domain_name_def join_split_dot)
  moreover have "data ! length pre = 0xC0" "data ! Suc (length pre) = 12" "Suc (length pre) < length data"
    using data by (simp_all add: nth_append)
  ultimately have "decode_domain_name fuel data (length pre) = Some (Ok (d, length pre + 2))"
    using k by (simp add: decode_domain_name_def Let_def)
  then show ?thesis by (simp add: name_end_def)
qed

lemma read_rdata_rr:
  assumes "data = pre @ to_be16 t @ to_be16 QCLASS_IN @ to_be32 ttl @ to_be16 (word_of_nat (length rd)) @ rd @ post"
    and "length rd < 65536"
  shows "read_rdata data (length pre) ips m =
    Ok (length pre + 10 + length rd, collect_rr (t, ttl, rd) (ips, m))"
proof -
  have u: "unat (word_of_nat (length rd) :: u16) = length rd" using assms(2) by (simp add: unat_of_nat)
  have a: "be16_at (length pre) data = t"
    unfolding assms(1) by (rule be16_at_append) simp
  have b: "be16_at (length pre + 8) data = word_of_nat (length rd)"
    unfolding assms(1)
    using be16_at_append [of "pre @ to_be16 t @ to_be16 QCLASS_IN @ to_be32 ttl" "length pre + 8"] by simp
  have c: "take 4 (drop (length pre + 4) data) = to_be32 ttl" unfolding assms(1) by simp
  have d: "take (length rd) (drop (length pre + 10) data) = rd" unfolding assms(1) by simp
  have e: "length pre + 10 + length rd \<le> length data" unfolding assms(1) by simp
  show ?thesis
    using a b c d e u by (auto simp: read_rdata_def collect_rr_def Let_def QTYPE_A_def QTYPE_AAAA_def)
qed

lemma read_answers_rrs:
  assumes "data = pre @ concat (map encode_rr rrs) @ post" and "data = hd12 @ encode_domain_name d @ rest"
    and "length hd12 = 12" and "valid_name d" and "length (split_dot d) + 1 < fuel"
    and "list_all (\<lambda>(_, _, rd). length rd < 65536) rrs"
  shows "read_answers fuel data (length rrs) (length pre, acc) =
    Some (Ok (length pre + length (concat (map encode_rr rrs)), fold collect_rr rrs acc))"
  using assms(1,6)
proof (induction rrs arbitrary: pre acc)
  case (Cons r rrs)
  obtain t ttl rd where r: "r = (t, ttl, rd)" by (cases r)
  obtain ips m where acc: "acc = (ips, m)" by (cases acc)
  have "name_end fuel data (length pre) = Some (Ok (length pre + 2))"
    using Cons.prems(1) r by (intro name_end_pointer [OF _ assms(2-5)]) simp
  moreover have "read_rdata data (length (pre @ [0xC0, 12])) ips m =
      Ok (length (pre @ [0xC0, 12]) + 10 + length rd, collect_rr r acc)"
    unfolding r acc
    using Cons.prems r by (intro read_rdata_rr [where post = "concat (map encode_rr rrs) @ post"]) simp_all
  ultimately have "read_answer fuel data (length pre, acc) = Some (Ok (length (pre @ encode_rr r), collect_rr r acc))"
    by (simp add: read_answer_def acc r)
  moreover have "read_answers fuel data (length rrs) (length (pre @ encode_rr r), collect_rr r acc) =
      Some (Ok (length (pre @ encode_rr r) + length (concat (map encode_rr rrs)), fold collect_rr rrs (collect_rr r acc)))"
    using Cons.prems by (intro Cons.IH) simp_all
  ultimately show ?case by simp
qed simp

lemma fold_collect_ips: "fst (fold collect_rr rrs (ips, m)) = ips @ List.map_filter record_ip rrs"
  by (induction rrs arbitrary: ips m) (simp_all add: collect_rr_def map_filter_simps split: option.splits)

text \<open>C14. Responses are read completely: for every response with one question for a valid name and any list
  of records that point back to it, the parser returns the addresses of all its A and AAAA records
  in order together with the least of their lifetimes and 300, or reports an empty response when
  there is none; as many steps as the name has labels, and two more, are enough.\<close>
theorem dns_response_parsed:
  assumes "valid_name domain" and "length (split_dot domain) + 1 < fuel"
    and "length rrs < 65536" and "list_all (\<lambda>(_, _, rd). length rd < 65536) rrs"
  shows "parse_dns_response fuel (response qid domain qtype rrs additional) =
    Some (if List.map_filter record_ip rrs = [] then Err EmptyResponse
          else Ok (List.map_filter record_ip rrs, snd (fold collect_rr rrs ([], DEFAULT_TTL))))"
proof -
  define data where "data = response qid domain qtype rrs additional"
  let ?q = "response_head qid (length rrs) @ encode_domain_name domain @ to_be16 qtype @ to_be16 QCLASS_IN"
  have h: "data = response_head qid (length rrs) @ encode_domain_name domain @
      (to_be16 qtype @ to_be16 QCLASS_IN @ concat (map encode_rr rrs) @ additional)"
    by (simp add: data_def response_def)
  have q: "data = ?q @ concat (map encode_rr rrs) @ additional" by (simp add: data_def response_def)
  have len: "12 \<le> length data" by (simp add: h)
  have fl: "be16_at 2 data = 0x8180" and qd: "be16_at 4 data = 1" and an: "be16_at 6 data = word_of_nat (length rrs)"
    by (simp_all add: h response_head_def be16_at_def)
  have n: "unat (word_of_nat (length rrs) :: u16) = length rrs" using assms(3) by (simp add: unat_of_nat)
  have "name_end fuel data 12 = Some (Ok (12 + length (encode_domain_name domain)))"
    using decode_encode_name [of domain fuel "response_head qid (length rrs)"] assms(1,2)
    by (simp add: name_end_def h)
  then have sk: "skip_questions fuel data 1 12 = Some (Ok (length ?q))" by (simp add: One_nat_def)
  have ra: "read_answers fuel data (length rrs) (length ?q, [], DEFAULT_TTL) =
      Some (Ok (length ?q + length (concat (map encode_rr rrs)), fold collect_rr rrs ([], DEFAULT_TTL)))"
    by (rule read_answers_rrs [OF q h _ assms(1,2,4)]) simp
  obtain ips m where f: "fold collect_rr rrs ([], DEFAULT_TTL) = (ips, m)" by (cases "fold collect_rr rrs ([], DEFAULT_TTL)")
  have ips: "ips = List.map_filter record_ip rrs" using fold_collect_ips [of rrs "[]" DEFAULT_TTL] f by simp
  have "parse_dns_response fuel data = Some (if ips = [] then Err EmptyResponse else Ok (ips, m))"
    using len fl qd an n sk ra f
    by (simp add: parse_dns_response_def DNS_HEADER_SIZE_def Let_def)
  then show ?thesis by (simp add: data_def f ips)
qed

theorem dns_response_parsed_witness:
  "parse_dns_response 5 (response 7 ''a.b'' 1 [(5, 9, [0]), (1, 60, [1, 2, 3, 4]), (1, 400, [5, 6, 7, 8])] []) =
     Some (Ok ([V4 [1, 2, 3, 4], V4 [5, 6, 7, 8]], 60))"
proof -
  have v: "valid_name ''a.b''" by code_simp
  have f: "length (split_dot ''a.b'') + 1 < 5" by simp
  have "List.map_filter record_ip [(5, 9, [0]), (1, 60, [1, 2, 3, 4]), (1, 400, [5, 6, 7, 8])] = [V4 [1, 2, 3, 4], V4 [5, 6, 7, 8]]"
    by (simp add: map_filter_simps QTYPE_A_def QTYPE_AAAA_def)
  moreover have "snd (fold collect_rr [(5, 9, [0]), (1, 60, [1, 2, 3, 4]), (1, 400, [5, 6, 7, 8])] ([], DEFAULT_TTL)) = 60"
    by (simp add: collect_rr_def QTYPE_A_def QTYPE_AAAA_def DEFAULT_TTL_def)
  ultimately show ?thesis
    using dns_response_parsed [OF v f, of "[(5, 9, [0]), (1, 60, [1, 2, 3, 4]), (1, 400, [5, 6, 7, 8])]" 7 1 "[]"]
    by simp
qed

section \<open>Compression pointers\<close>

lemma decode_loop_self_pointer:
  assumes "data ! pos = 0xC0" and "data ! Suc pos = word_of_nat pos" and "pos < 256" and "Suc pos < length data"
  shows "decode_loop fuel data pos jump labels = None"
  using assms
proof (induction fuel arbitrary: jump)
  case (Suc fuel)
  then have "unat (word_of_nat pos :: u8) = pos" by (simp add: unat_of_nat)
  with Suc show ?case by (simp add: Let_def)
qed simp

text \<open>C24. A response can hang the resolver: when the name of the first question is a compression pointer to
  its own position, parsing ends for no number of steps, whatever follows. The decoder neither counts the
  pointers it follows nor requires them to point backwards.\<close>
theorem parse_self_pointer_hangs:
  "parse_dns_response fuel (response_head qid n @ [0xC0, 12] @ rest) = None"
proof -
  let ?data = "response_head qid n @ [0xC0, 12] @ rest"
  have fl: "be16_at 2 ?data = 0x8180" and qd: "be16_at 4 ?data = 1"
    by (simp_all add: response_head_def be16_at_def)
  have "decode_loop fuel ?data 12 None [] = None"
    by (rule decode_loop_self_pointer) (simp_all add: nth_append)
  then have "skip_questions fuel ?data 1 12 = None"
    by (simp add: One_nat_def name_end_def decode_domain_name_def)
  with fl qd show ?thesis by (simp add: parse_dns_response_def DNS_HEADER_SIZE_def Let_def)
qed

text \<open>Fuel only decides whether a result is there, never which.\<close>

lemma decode_loop_mono:
  "decode_loop k data pos jump labels = Some r \<Longrightarrow> k \<le> k' \<Longrightarrow> decode_loop k' data pos jump labels = Some r"
proof (induction k arbitrary: k' pos jump labels)
  case (Suc k)
  then obtain k'' where "k' = Suc k''" "k \<le> k''" by (cases k') auto
  with Suc.IH [of _ _ _ k''] Suc.prems(1) show ?case by (auto simp: Let_def split: if_splits)
qed simp

lemma decode_loop_no_panic: "decode_loop k data pos jump labels \<noteq> Some Panic"
  by (induction k arbitrary: pos jump labels) (simp_all add: Let_def)

lemma name_end_no_panic: "name_end k data pos \<noteq> Some Panic"
proof (cases "decode_domain_name k data pos")
  case (Some r)
  then show ?thesis
    using decode_loop_no_panic [of k data pos None "[]"] by (cases r) (auto simp: name_end_def decode_domain_name_def)
qed (simp add: name_end_def)

lemma fbind_eq_Panic: "fbind m f = Some Panic \<longleftrightarrow> m = Some Panic \<or> (\<exists>x. m = Some (Ok x) \<and> f x = Some Panic)"
  by (auto simp: fbind_def split: option.splits res.splits)

lemma read_answer_no_panic: "read_answer k data st \<noteq> Some Panic"
  by (auto simp: read_answer_def fbind_eq_Panic name_end_no_panic read_rdata_def Let_def split: prod.splits if_splits)

lemma read_answers_no_panic: "read_answers k data n st \<noteq> Some Panic"
  by (induction n arbitrary: st) (simp_all add: fbind_eq_Panic read_answer_no_panic)

lemma skip_questions_no_panic: "skip_questions k data n pos \<noteq> Some Panic"
  by (induction n arbitrary: pos) (simp_all add: fbind_eq_Panic name_end_no_panic)

lemma parse_dns_response_no_panic: "parse_dns_response k data \<noteq> Some Panic"
  by (simp add: parse_dns_response_def Let_def fbind_eq_Panic skip_questions_no_panic read_answers_no_panic split: prod.splits)

text \<open>The parser never reports success without an address.\<close>

lemma fbind_eq_Ok: "fbind m f = Some (Ok y) \<longleftrightarrow> (\<exists>x. m = Some (Ok x) \<and> f x = Some (Ok y))"
  by (auto simp: fbind_def split: option.splits res.splits)

lemma parse_dns_response_nonempty: "parse_dns_response k data \<noteq> Some (Ok ([], ttl))"
  by (auto simp: parse_dns_response_def Let_def fbind_eq_Ok split: if_splits)

section \<open>Options, cache and hosts\<close>

text \<open>The length field of the client-subnet option counts one byte (four for IPv6) more than follow it.\<close>

lemma edns0_subnet_length_wrong:
  "build_edns0_subnet_option (Some (V4 [a, b, c, d])) = Some opt \<Longrightarrow>
   be16_at 2 opt = 8 \<and> length (drop 4 opt) = 7"
  "build_edns0_subnet_option (Some (V6 os)) = Some opt \<Longrightarrow> length os = 16 \<Longrightarrow>
   be16_at 2 opt = 20 \<and> length (drop 4 opt) = 16"
  by (auto simp: build_edns0_subnet_option_def be16_at_def)

text \<open>What is stored is found until it expires, with the seconds left, and never empty.\<close>

lemma cache_find_update:
  assumes "\<not> disable_cache c" and "ips \<noteq> []" and "0 < ttl" and "now \<le> t" and "t < now + secs (unat ttl)"
  shows "cache_find t key (cache_update now key ips ttl c) =
    Some (ips, max (word_of_nat ((now + secs (unat ttl) - t) div 10 ^ 9)) 1)"
  using assms by (auto simp: cache_find_def cache_update_def update_conv')

definition cache_ok :: "CacheController \<Rightarrow> bool" where
  "cache_ok c \<longleftrightarrow> list_all (\<lambda>(_, r). rec_ips r \<noteq> []) (records c)"

lemma cache_ok_new [simp]: "cache_ok (CacheController_new d s t)"
  by (simp add: cache_ok_def CacheController_new_def)

lemma cache_ok_update: "cache_ok c \<Longrightarrow> cache_ok (cache_update now key ips ttl c)"
  using set_AList_update [of key "\<lparr>rec_ips = ips, expiry = now + secs (unat (if ttl = 0 then DEFAULT_TTL else ttl))\<rparr>" "records c"]
  by (fastforce simp: cache_ok_def cache_update_def Let_def list_all_iff)

lemma cache_ok_find: "cache_ok c \<Longrightarrow> cache_find now key c = Some (ips, ttl) \<Longrightarrow> ips \<noteq> []"
  by (auto simp: cache_ok_def cache_find_def list_all_iff dest!: map_of_SomeD split: if_splits option.splits)

definition hosts_ok :: "StaticHosts \<Rightarrow> bool" where
  "hosts_ok h \<longleftrightarrow> list_all (\<lambda>(_, e). e \<noteq> Ips []) h"

lemma hosts_ok_update: "hosts_ok h \<Longrightarrow> e \<noteq> Ips [] \<Longrightarrow> hosts_ok (AList.update k e h)"
  using set_AList_update [of k e h] by (fastforce simp: hosts_ok_def list_all_iff)

lemma add_host_ok: "hosts_ok h \<Longrightarrow> add_host lower d v h = Ok h' \<Longrightarrow> hosts_ok h'"
  by (cases v) (auto simp: Let_def intro: hosts_ok_update split: if_splits option.splits)

lemma hosts_from_json_ok: "hosts_from_json lower v = Ok h \<Longrightarrow> hosts_ok h"
proof (cases v)
  case (JObj es)
  have "add_hosts lower es h' = Ok h \<Longrightarrow> hosts_ok h' \<Longrightarrow> hosts_ok h" for h'
    by (induction es arbitrary: h') (auto simp: rbind_eq_Ok intro: add_host_ok)
  then show "hosts_from_json lower v = Ok h \<Longrightarrow> ?thesis" using JObj by (simp add: hosts_ok_def)
qed auto

lemma parse_hosts_ok: "parse_hosts lower v = Ok h \<Longrightarrow> hosts_ok h"
  by (auto simp: parse_hosts_def hosts_ok_def [of "[]"] hosts_from_json_ok split: option.splits)

lemma lookup_recursive_ok:
  assumes "hosts_ok h"
  shows "lookup_recursive lower h d n \<noteq> Some (Ok []) \<and> lookup_recursive lower h d n \<noteq> Some Panic"
  using assms
proof (induction lower h d n rule: lookup_recursive.induct)
  case (1 lower h d n)
  have "hosts_lookup lower d h \<noteq> Some (Ips [])"
    using "1.prems" by (auto simp: hosts_lookup_def hosts_ok_def list_all_iff dest!: map_of_SomeD)
  then show ?case
    using 1 by (subst (1 2) lookup_recursive.simps) (auto split: option.splits HostEntry.splits)
qed

end
