(* ===== verification/Dns_Resolver.thy ===== *)
theory Dns_Resolver
  imports Dns
begin

text \<open>
  The resolvers of \<^verbatim>\<open>astra-core-dns\<close>: exchanges over UDP and TCP, serial and parallel queries, the two
  caching resolvers, the system resolver and the fake resolver, and the contract of the trait
  \<^verbatim>\<open>DnsResolver\<close> as a locale. The world the exchanges act on is a parameter.
\<close>

section \<open>Exchanges with a server\<close>

text \<open>
  What the resolvers do with the world: draw an identifier, exchange a datagram, run a TCP
  connection (the bytes received and the error that ends the reading), post an HTTP request (status
  and body), read the clock. A computation over the world ends with a result, or never (\<open>None\<close>).
\<close>

record 'w dns_env =
  draw_id :: "'w \<Rightarrow> u16 \<times> 'w"
  udp_exchange :: "string \<Rightarrow> u8 list \<Rightarrow> 'w \<Rightarrow> (DnsError + u8 list) \<times> 'w"
  tcp_exchange :: "string \<Rightarrow> u8 list \<Rightarrow> 'w \<Rightarrow> (DnsError + u8 list \<times> DnsError) \<times> 'w"
  http_exchange :: "string \<Rightarrow> u8 list \<Rightarrow> 'w \<Rightarrow> (DnsError + nat \<times> (DnsError + u8 list)) \<times> 'w"
  status_text :: "nat \<Rightarrow> string"
  clock :: "'w \<Rightarrow> nat"

type_synonym ('w, 'a) dns_io = "'w \<Rightarrow> (DnsError, 'a) res option \<times> 'w"

definition io_ok :: "'a \<Rightarrow> ('w, 'a) dns_io" where "io_ok x w = (Some (Ok x), w)"
definition io_err :: "DnsError \<Rightarrow> ('w, 'a) dns_io" where "io_err e w = (Some (Err e), w)"

definition io_bind :: "('w, 'a) dns_io \<Rightarrow> ('a \<Rightarrow> ('w, 'b) dns_io) \<Rightarrow> ('w, 'b) dns_io" where
  "io_bind m f w =
     (case m w of
        (None, w') \<Rightarrow> (None, w')
      | (Some (Ok x), w') \<Rightarrow> f x w'
      | (Some (Err e), w') \<Rightarrow> (Some (Err e), w')
      | (Some Panic, w') \<Rightarrow> (Some Panic, w'))"

text \<open>\<^verbatim>\<open>match\<close> on a result: the error is a value.\<close>

definition io_attempt :: "('w, 'a) dns_io \<Rightarrow> ('w, DnsError + 'a) dns_io" where
  "io_attempt m w =
     (case m w of
        (None, w') \<Rightarrow> (None, w')
      | (Some (Ok x), w') \<Rightarrow> (Some (Ok (Inr x)), w')
      | (Some (Err e), w') \<Rightarrow> (Some (Ok (Inl e)), w')
      | (Some Panic, w') \<Rightarrow> (Some Panic, w'))"

definition parsed_ips :: "nat \<Rightarrow> u8 list \<Rightarrow> ('w, IpAddr list) dns_io" where
  "parsed_ips fuel data w = (fbind (parse_dns_response fuel data) (\<lambda>(ips, _). Some (Ok ips)), w)"

text \<open>A datagram is received into a zeroed buffer of 4096 bytes.\<close>

definition resolve_udp ::
  "'w dns_env \<Rightarrow> nat \<Rightarrow> NameServer \<Rightarrow> string \<Rightarrow> string \<Rightarrow> u16 \<Rightarrow> ('w, IpAddr list) dns_io" where
  "resolve_udp env fuel ns ns_addr domain qtype w =
     (case draw_id env w of (qid, w) \<Rightarrow>
      case udp_exchange env ns_addr (build_dns_query_with_edns domain qtype qid (client_ip ns) None) w of
        (Inl e, w) \<Rightarrow> (Some (Err e), w)
      | (Inr datagram, w) \<Rightarrow>
          (let got = take 4096 datagram;
               buf = got @ replicate (4096 - length got) 0
           in if be16_at 0 buf \<noteq> qid then (Some (Err (NetworkError ''response ID mismatch'')), w)
              else parsed_ips fuel got w))"

definition frame_query :: "u8 list \<Rightarrow> u8 list" where
  "frame_query query = to_be16 (word_of_nat (length query)) @ query"

definition tcp_ask :: "'w dns_env \<Rightarrow> nat \<Rightarrow> string \<Rightarrow> u8 list \<Rightarrow> ('w, IpAddr list) dns_io" where
  "tcp_ask env fuel addr wire w =
     (case tcp_exchange env addr wire w of
        (Inl e, w) \<Rightarrow> (Some (Err e), w)
      | (Inr (stream, e), w) \<Rightarrow>
          (if length stream < 2 then (Some (Err e), w)
           else let resp_len = unat (be16_at 0 stream) in
             if length stream < 2 + resp_len then (Some (Err e), w)
             else parsed_ips fuel (take resp_len (drop 2 stream)) w))"

definition resolve_tcp ::
  "'w dns_env \<Rightarrow> nat \<Rightarrow> NameServer \<Rightarrow> string \<Rightarrow> string \<Rightarrow> u16 \<Rightarrow> ('w, IpAddr list) dns_io" where
  "resolve_tcp env fuel ns ns_addr domain qtype w =
     (case draw_id env w of (qid, w) \<Rightarrow>
      tcp_ask env fuel ns_addr (frame_query (build_dns_query_with_edns domain qtype qid (client_ip ns) None)) w)"

text \<open>The loop over query types: the first non-empty filtered answer, and the last error.\<close>

fun ask_types ::
  "(u16 \<Rightarrow> ('w, IpAddr list) dns_io) \<Rightarrow> IpAddr list \<Rightarrow> DnsError \<Rightarrow> u16 list \<Rightarrow> ('w, IpAddr list \<times> DnsError) dns_io" where
  "ask_types ask expected err [] = io_ok ([], err)"
| "ask_types ask expected err (q # qs) =
     io_bind (io_attempt (ask q)) (\<lambda>r.
       case r of
         Inl e \<Rightarrow> ask_types ask expected e qs
       | Inr ips \<Rightarrow>
           (let filtered = filter_expected ips expected
            in if filtered \<noteq> [] then io_ok (filtered, err) else ask_types ask expected err qs))"

definition ns_addr :: "NameServer \<Rightarrow> string" where
  "ns_addr ns = ns_address ns @ '':'' @ show_nat (unat (ns_port ns))"

definition ips_or_empty :: "IpAddr list \<times> DnsError \<Rightarrow> ('w, IpAddr list) dns_io" where
  "ips_or_empty r = (if fst r = [] then io_err EmptyResponse else io_ok (fst r))"

definition query_single ::
  "'w dns_env \<Rightarrow> nat \<Rightarrow> string \<Rightarrow> u16 list \<Rightarrow> NameServer \<Rightarrow> ('w, IpAddr list) dns_io" where
  "query_single env fuel domain qtypes ns =
     io_bind
       (ask_types
         (if ns_protocol ns = ''tcp'' \<or> ns_protocol ns = ''tcp+local''
          then resolve_tcp env fuel ns (ns_addr ns) domain else resolve_udp env fuel ns (ns_addr ns) domain)
         (expected_ips ns) EmptyResponse qtypes)
       ips_or_empty"

fun serial_query ::
  "(NameServer \<Rightarrow> ('w, IpAddr list) dns_io) \<Rightarrow> DnsError \<Rightarrow> NameServer list \<Rightarrow> ('w, IpAddr list) dns_io" where
  "serial_query query last_err [] = io_err last_err"
| "serial_query query last_err (ns # nss) =
     io_bind (io_attempt (query ns)) (\<lambda>r.
       case r of
         Inr ips \<Rightarrow> if ips \<noteq> [] then io_ok ips else serial_query query last_err nss
       | Inl e \<Rightarrow> serial_query query e nss)"

text \<open>\<open>join_all\<close>: every future is run to its end, then the results are looked at in order.\<close>

fun join_all :: "('a \<Rightarrow> ('w, 'b) dns_io) \<Rightarrow> 'a list \<Rightarrow> ('w, (DnsError + 'b) list) dns_io" where
  "join_all f [] = io_ok []"
| "join_all f (x # xs) = io_bind (io_attempt (f x)) (\<lambda>r. io_bind (join_all f xs) (\<lambda>rs. io_ok (r # rs)))"

fun first_ips :: "(DnsError + IpAddr list) list \<Rightarrow> IpAddr list option" where
  "first_ips [] = None"
| "first_ips (Inr ips # rs) = (if ips \<noteq> [] then Some ips else first_ips rs)"
| "first_ips (Inl e # rs) = first_ips rs"

definition parallel_query ::
  "(NameServer \<Rightarrow> ('w, IpAddr list) dns_io) \<Rightarrow> NameServer list \<Rightarrow> ('w, IpAddr list) dns_io" where
  "parallel_query query nss =
     io_bind (join_all query nss) (\<lambda>rs.
       case first_ips rs of Some ips \<Rightarrow> io_ok ips | None \<Rightarrow> io_err EmptyResponse)"

section \<open>The caching resolvers\<close>

record UdpDnsResolver =
  nameservers :: "NameServer list"
  res_hosts :: StaticHosts
  res_strategy :: QueryStrategy
  res_cache :: CacheController
  enable_parallel :: bool
  disable_fallback :: bool
  disable_fallback_if_match :: bool

type_synonym TcpDnsResolver = UdpDnsResolver

definition UdpDnsResolver_new ::
  "NameServer list \<Rightarrow> StaticHosts \<Rightarrow> QueryStrategy \<Rightarrow> bool \<Rightarrow> bool \<Rightarrow> bool \<Rightarrow> bool \<Rightarrow> UdpDnsResolver" where
  "UdpDnsResolver_new nss h q dis par df dfm =
     \<lparr>nameservers = nss, res_hosts = h, res_strategy = q, res_cache = CacheController_new dis False 0,
      enable_parallel = par, disable_fallback = df, disable_fallback_if_match = dfm\<rparr>"

definition cache_key :: "string \<Rightarrow> u16 list \<Rightarrow> string" where
  "cache_key domain qtypes = domain @ ''|['' @ join '', '' (map (show_nat \<circ> unat) qtypes) @ '']''"

definition query_servers ::
  "'w dns_env \<Rightarrow> nat \<Rightarrow> UdpDnsResolver \<Rightarrow> string \<Rightarrow> u16 list \<Rightarrow> NameServer list \<Rightarrow> ('w, IpAddr list) dns_io" where
  "query_servers env fuel r domain qtypes nss =
     (if enable_parallel r then parallel_query (query_single env fuel domain qtypes) nss
      else serial_query (query_single env fuel domain qtypes) EmptyResponse nss)"

text \<open>Storing a good answer: the clock is read again once the answer is there.\<close>

definition cache_answer ::
  "'w dns_env \<Rightarrow> string \<Rightarrow> UdpDnsResolver \<Rightarrow> (DnsError, IpAddr list) res option \<times> 'w \<Rightarrow>
   (DnsError, IpAddr list) res option \<times> UdpDnsResolver \<times> 'w" where
  "cache_answer env key r a =
     (case a of
        (Some (Ok ips), w) \<Rightarrow> (Some (Ok ips), r\<lparr>res_cache := cache_update (clock env w) key ips DEFAULT_TTL (res_cache r)\<rparr>, w)
      | (res, w) \<Rightarrow> (res, r, w))"

definition udp_nameserver_lookup ::
  "'w dns_env \<Rightarrow> nat \<Rightarrow> string \<Rightarrow> u16 list \<Rightarrow> UdpDnsResolver \<times> 'w \<Rightarrow>
   (DnsError, IpAddr list) res option \<times> UdpDnsResolver \<times> 'w" where
  "udp_nameserver_lookup env fuel domain qtypes st =
     (case st of (r, w) \<Rightarrow>
      case cache_find (clock env w) (cache_key domain qtypes) (res_cache r) of
        Some (cached_ips, _) \<Rightarrow> (Some (Ok cached_ips), r, w)
      | None \<Rightarrow>
          (case sort_clients_by_domain domain (nameservers r) of (sorted_ns, has_final) \<Rightarrow>
           let has_match = (sorted_ns \<noteq> [] \<and> matches_domain domain (hd sorted_ns)) in
           if (disable_fallback r \<or> disable_fallback_if_match r \<and> has_match) \<and> \<not> has_final
           then let matched_only = filter (matches_domain domain) sorted_ns in
             if matched_only = [] then (Some (Err EmptyResponse), r, w)
             else case query_servers env fuel r domain qtypes matched_only w of (res, w') \<Rightarrow> (res, r, w')
           else cache_answer env (cache_key domain qtypes) r (query_servers env fuel r domain qtypes sorted_ns w)))"

text \<open>\<open>resolve\<close>: the static hosts first, then the servers, for the replacement name if there is one.\<close>

definition resolve_hosts ::
  "(string \<Rightarrow> string) \<Rightarrow> StaticHosts \<Rightarrow> (string \<Rightarrow> 's \<Rightarrow> (DnsError, IpAddr list) res option \<times> 's) \<Rightarrow>
   string \<Rightarrow> 's \<Rightarrow> (DnsError, IpAddr list) res option \<times> 's" where
  "resolve_hosts lower h lookup domain st =
     (let low = host_key lower domain in
      case lookup_recursive lower h low 0 of
        Some (Ok ips) \<Rightarrow> (Some (Ok ips), st)
      | Some (Err replacement) \<Rightarrow> lookup replacement st
      | Some Panic \<Rightarrow> (Some Panic, st)
      | None \<Rightarrow> lookup low st)"

definition resolve_via ::
  "(string \<Rightarrow> string) \<Rightarrow>
   (string \<Rightarrow> u16 list \<Rightarrow> UdpDnsResolver \<times> 'w \<Rightarrow> (DnsError, IpAddr list) res option \<times> UdpDnsResolver \<times> 'w) \<Rightarrow>
   string \<Rightarrow> UdpDnsResolver \<times> 'w \<Rightarrow> (DnsError, IpAddr list) res option \<times> UdpDnsResolver \<times> 'w" where
  "resolve_via lower lookup domain st =
     resolve_hosts lower (res_hosts (fst st)) (\<lambda>d. lookup d (dns_query_types (res_strategy (fst st)))) domain st"

definition udp_resolve ::
  "(string \<Rightarrow> string) \<Rightarrow> 'w dns_env \<Rightarrow> nat \<Rightarrow> string \<Rightarrow> UdpDnsResolver \<times> 'w \<Rightarrow>
   (DnsError, IpAddr list) res option \<times> UdpDnsResolver \<times> 'w" where
  "udp_resolve lower env fuel = resolve_via lower (udp_nameserver_lookup env fuel)"

fun tcp_serial_query ::
  "'w dns_env \<Rightarrow> nat \<Rightarrow> string \<Rightarrow> u16 list \<Rightarrow> DnsError \<Rightarrow> NameServer list \<Rightarrow> ('w, IpAddr list) dns_io" where
  "tcp_serial_query env fuel domain qtypes last_err [] = io_err last_err"
| "tcp_serial_query env fuel domain qtypes last_err (ns # nss) =
     io_bind (ask_types (resolve_tcp env fuel ns (ns_addr ns) domain) (expected_ips ns) last_err qtypes) (\<lambda>(all_ips, err).
       if all_ips \<noteq> [] then io_ok all_ips else tcp_serial_query env fuel domain qtypes err nss)"

definition tcp_query_one ::
  "'w dns_env \<Rightarrow> nat \<Rightarrow> string \<Rightarrow> u16 list \<Rightarrow> NameServer \<Rightarrow> ('w, IpAddr list) dns_io" where
  "tcp_query_one env fuel domain qtypes ns =
     io_bind (ask_types (resolve_tcp env fuel ns (ns_addr ns) domain) (expected_ips ns) EmptyResponse qtypes) ips_or_empty"

definition tcp_parallel_query ::
  "'w dns_env \<Rightarrow> nat \<Rightarrow> string \<Rightarrow> u16 list \<Rightarrow> NameServer list \<Rightarrow> ('w, IpAddr list) dns_io" where
  "tcp_parallel_query env fuel domain qtypes nss = parallel_query (tcp_query_one env fuel domain qtypes) nss"

definition tcp_nameserver_lookup ::
  "'w dns_env \<Rightarrow> nat \<Rightarrow> string \<Rightarrow> u16 list \<Rightarrow> TcpDnsResolver \<times> 'w \<Rightarrow>
   (DnsError, IpAddr list) res option \<times> TcpDnsResolver \<times> 'w" where
  "tcp_nameserver_lookup env fuel domain qtypes st =
     (case st of (r, w) \<Rightarrow>
      case cache_find (clock env w) (cache_key domain qtypes) (res_cache r) of
        Some (cached_ips, _) \<Rightarrow> (Some (Ok cached_ips), r, w)
      | None \<Rightarrow>
          (let sorted_ns = fst (sort_clients_by_domain domain (nameservers r)) in
           cache_answer env (cache_key domain qtypes) r
             (if enable_parallel r then tcp_parallel_query env fuel domain qtypes sorted_ns w
              else tcp_serial_query env fuel domain qtypes EmptyResponse sorted_ns w)))"

definition tcp_resolve ::
  "(string \<Rightarrow> string) \<Rightarrow> 'w dns_env \<Rightarrow> nat \<Rightarrow> string \<Rightarrow> TcpDnsResolver \<times> 'w \<Rightarrow>
   (DnsError, IpAddr list) res option \<times> TcpDnsResolver \<times> 'w" where
  "tcp_resolve lower env fuel = resolve_via lower (tcp_nameserver_lookup env fuel)"

section \<open>The encrypted resolvers\<close>

text \<open>\<open>DoHResolver\<close> (the endpoint is a URL) and \<open>DoQResolver\<close> (a host, with or without a port).\<close>

record EncryptedResolver =
  endpoint :: string
  enc_hosts :: StaticHosts
  enc_strategy :: QueryStrategy
  enc_cache :: CacheController

type_synonym DoHResolver = EncryptedResolver
type_synonym DoQResolver = EncryptedResolver

fun doh_loop :: "'w dns_env \<Rightarrow> nat \<Rightarrow> string \<Rightarrow> string \<Rightarrow> u16 list \<Rightarrow> ('w, IpAddr list) dns_io" where
  "doh_loop env fuel url domain [] w = (Some (Ok []), w)"
| "doh_loop env fuel url domain (q # qs) w =
     (case draw_id env w of (qid, w) \<Rightarrow>
      case http_exchange env url (build_dns_query_with_edns domain q qid None (Some 100)) w of
        (Inl e, w) \<Rightarrow> (Some (Err e), w)
      | (Inr (status, body), w) \<Rightarrow>
          (if status \<noteq> 200 then (Some (Err (NetworkError (''DoH status '' @ status_text env status))), w)
           else case body of
                  Inl e \<Rightarrow> (Some (Err e), w)
                | Inr body \<Rightarrow>
                    (case parse_dns_response fuel body of
                       None \<Rightarrow> (None, w)
                     | Some (Ok (ips, _)) \<Rightarrow> (Some (Ok ips), w)
                     | Some _ \<Rightarrow> doh_loop env fuel url domain qs w)))"

function replace_str :: "string \<Rightarrow> string \<Rightarrow> string \<Rightarrow> string" where
  "replace_str pat rep s =
     (if pat = [] \<or> s = [] then s
      else case strip_prefix pat s of
             Some rest \<Rightarrow> rep @ replace_str pat rep rest
           | None \<Rightarrow> hd s # replace_str pat rep (tl s))"
  by pat_completeness auto

lemma strip_prefix_eq: "strip_prefix p s = Some r \<Longrightarrow> s = p @ r"
  by (induction p s rule: strip_prefix.induct) (auto split: if_splits)

termination replace_str
  by (relation "measure (\<lambda>(_, _, s). length s)") (auto dest!: strip_prefix_eq)

declare replace_str.simps [simp del]

definition quic_or_tcp :: "'w dns_env \<Rightarrow> nat \<Rightarrow> string \<Rightarrow> u8 list \<Rightarrow> ('w, IpAddr list) dns_io" where
  "quic_or_tcp env fuel server wire = tcp_ask env fuel (replace_str '':853'' '':53'' server) wire"

definition doq_server :: "string \<Rightarrow> string" where
  "doq_server e = (if CHR '':'' \<in> set e then e else e @ '':853'')"

fun doq_loop :: "'w dns_env \<Rightarrow> nat \<Rightarrow> string \<Rightarrow> string \<Rightarrow> u16 list \<Rightarrow> ('w, IpAddr list) dns_io" where
  "doq_loop env fuel server domain [] w = (Some (Ok []), w)"
| "doq_loop env fuel server domain (q # qs) w =
     (case draw_id env w of (qid, w) \<Rightarrow>
      case quic_or_tcp env fuel server (frame_query (build_dns_query_with_edns domain q qid None None)) w of
        (Some (Err e), w) \<Rightarrow> doq_loop env fuel server domain qs w
      | r \<Rightarrow> r)"

definition encrypted_lookup ::
  "'w dns_env \<Rightarrow> (string \<Rightarrow> string \<Rightarrow> u16 list \<Rightarrow> ('w, IpAddr list) dns_io) \<Rightarrow> string \<Rightarrow> EncryptedResolver \<times> 'w \<Rightarrow>
   (DnsError, IpAddr list) res option \<times> EncryptedResolver \<times> 'w" where
  "encrypted_lookup env ask domain st =
     (case st of (r, w) \<Rightarrow>
      let qtypes = dns_query_types (enc_strategy r); key = cache_key domain qtypes in
      case cache_find (clock env w) key (enc_cache r) of
        Some (cached_ips, _) \<Rightarrow> (Some (Ok cached_ips), r, w)
      | None \<Rightarrow>
          (case ask (endpoint r) domain qtypes w of
             (Some (Ok all_ips), w) \<Rightarrow>
               (if all_ips = [] then (Some (Err EmptyResponse), r, w)
                else (Some (Ok all_ips), r\<lparr>enc_cache := cache_update (clock env w) key all_ips DEFAULT_TTL (enc_cache r)\<rparr>, w))
           | (res, w) \<Rightarrow> (res, r, w)))"

definition doh_resolve ::
  "(string \<Rightarrow> string) \<Rightarrow> 'w dns_env \<Rightarrow> nat \<Rightarrow> string \<Rightarrow> DoHResolver \<times> 'w \<Rightarrow>
   (DnsError, IpAddr list) res option \<times> DoHResolver \<times> 'w" where
  "doh_resolve lower env fuel domain st =
     resolve_hosts lower (enc_hosts (fst st)) (encrypted_lookup env (doh_loop env fuel)) domain st"

definition doq_resolve ::
  "(string \<Rightarrow> string) \<Rightarrow> 'w dns_env \<Rightarrow> nat \<Rightarrow> string \<Rightarrow> DoQResolver \<times> 'w \<Rightarrow>
   (DnsError, IpAddr list) res option \<times> DoQResolver \<times> 'w" where
  "doq_resolve lower env fuel domain st =
     resolve_hosts lower (enc_hosts (fst st)) (encrypted_lookup env (\<lambda>e. doq_loop env fuel (doq_server e))) domain st"

section \<open>The system resolver\<close>

text \<open>\<open>lookup_host\<close> is the operating system's resolver.\<close>

definition simple_resolve ::
  "(string \<Rightarrow> string) \<Rightarrow> (string \<Rightarrow> DnsError + IpAddr list) \<Rightarrow> string \<Rightarrow> StaticHosts \<Rightarrow>
   (DnsError, IpAddr list) res option \<times> StaticHosts" where
  "simple_resolve lower lookup_host domain h =
     (case lookup_recursive lower h (host_key lower domain) 0 of
        Some (Ok ips) \<Rightarrow> (Some (Ok ips), h)
      | Some (Err replacement) \<Rightarrow>
          (case lookup_host replacement of Inl e \<Rightarrow> (Some (Err e), h) | Inr ips \<Rightarrow> (Some (Ok ips), h))
      | Some Panic \<Rightarrow> (Some Panic, h)
      | None \<Rightarrow>
          (case lookup_host domain of
             Inl e \<Rightarrow> (Some (Err e), h)
           | Inr ips \<Rightarrow> (Some (if ips = [] then Err EmptyResponse else Ok ips), h)))"

section \<open>The contract of a resolver\<close>

text \<open>
  The callers of the trait \<^verbatim>\<open>DnsResolver\<close> index the first address of a successful answer, so a
  successful answer has to be non-empty; \<open>res_ok\<close> is the state a resolver keeps for that.
\<close>

locale dns_resolver =
  fixes resolve :: "string \<Rightarrow> 's \<Rightarrow> (DnsError, IpAddr list) res option \<times> 's" and res_ok :: "'s \<Rightarrow> bool"
  assumes resolve_keeps: "res_ok s \<Longrightarrow> res_ok (snd (resolve d s))"
    and resolve_nonempty: "res_ok s \<Longrightarrow> fst (resolve d s) \<noteq> Some (Ok [])"
    and resolve_no_panic: "res_ok s \<Longrightarrow> fst (resolve d s) \<noteq> Some Panic"

section \<open>The resolvers keep the contract\<close>

definition io_no_panic :: "('w, 'a) dns_io \<Rightarrow> bool" where
  "io_no_panic m \<longleftrightarrow> (\<forall>w. fst (m w) \<noteq> Some Panic)"

definition io_answers :: "('w, IpAddr list) dns_io \<Rightarrow> bool" where
  "io_answers m \<longleftrightarrow> (\<forall>w. fst (m w) \<noteq> Some Panic \<and> fst (m w) \<noteq> Some (Ok []))"

named_theorems io_safe

lemma io_no_panic_basic [io_safe]: "io_no_panic (io_ok x)" "io_no_panic (io_err e)"
  by (simp_all add: io_no_panic_def io_ok_def io_err_def)

lemma io_no_panic_bind [io_safe]: "io_no_panic m \<Longrightarrow> (\<And>x. io_no_panic (f x)) \<Longrightarrow> io_no_panic (io_bind m f)"
  by (auto simp: io_no_panic_def io_bind_def split: prod.splits option.splits res.splits) (metis fst_conv)+

lemma io_no_panic_attempt [io_safe]: "io_no_panic m \<Longrightarrow> io_no_panic (io_attempt m)"
  by (auto simp: io_no_panic_def io_attempt_def split: prod.splits option.splits res.splits) (metis fst_conv)+

lemma io_answers_basic [io_safe]: "ips \<noteq> [] \<Longrightarrow> io_answers (io_ok ips)" "io_answers (io_err e)" "io_answers (ips_or_empty r)"
  by (simp_all add: io_answers_def io_ok_def io_err_def ips_or_empty_def)

lemma io_answers_bind [io_safe]: "io_no_panic m \<Longrightarrow> (\<And>x. io_answers (f x)) \<Longrightarrow> io_answers (io_bind m f)"
  by (auto simp: io_no_panic_def io_answers_def io_bind_def split: prod.splits option.splits res.splits) (metis fst_conv)+

lemma io_answers_no_panic: "io_answers m \<Longrightarrow> io_no_panic m"
  by (simp add: io_answers_def io_no_panic_def)

lemma resolve_no_panic_once [io_safe]:
  "io_no_panic (resolve_udp env fuel ns a d q)" "io_no_panic (resolve_tcp env fuel ns a d q)"
proof -
  have p: "fst (parsed_ips fuel x w) \<noteq> Some Panic" for x and w :: 'a
    by (auto simp: parsed_ips_def fbind_eq_Panic parse_dns_response_no_panic split: prod.splits)
  show "io_no_panic (resolve_udp env fuel ns a d q)" "io_no_panic (resolve_tcp env fuel ns a d q)"
    using p by (auto simp: io_no_panic_def resolve_udp_def resolve_tcp_def tcp_ask_def Let_def split: prod.splits sum.splits)
qed

lemma ask_types_no_panic [io_safe]: "(\<And>q. io_no_panic (ask q)) \<Longrightarrow> io_no_panic (ask_types ask ex err qs)"
  by (induction ask ex err qs rule: ask_types.induct)
    (auto intro!: io_safe simp: Let_def split: sum.splits)

lemma query_single_answers [io_safe]: "io_answers (query_single env fuel d qs ns)" "io_answers (tcp_query_one env fuel d qs ns)"
  by (auto simp: query_single_def tcp_query_one_def intro!: io_safe)

lemma serial_query_answers [io_safe]:
  "(\<And>ns. io_answers (query ns)) \<Longrightarrow> io_answers (serial_query query err nss)"
  "io_answers (tcp_serial_query env fuel d qs err nss)"
  by (induction nss arbitrary: err)
    (auto intro!: io_safe io_answers_no_panic split: sum.splits prod.splits)

lemma join_all_no_panic [io_safe]: "(\<And>x. io_no_panic (f x)) \<Longrightarrow> io_no_panic (join_all f xs)"
  by (induction xs) (auto intro!: io_safe)

lemma first_ips_nonempty: "first_ips rs \<noteq> Some []"
  by (induction rs rule: first_ips.induct) (auto split: if_splits)

lemma parallel_query_answers [io_safe]: "(\<And>ns. io_answers (query ns)) \<Longrightarrow> io_answers (parallel_query query nss)"
  by (auto simp: parallel_query_def first_ips_nonempty intro!: io_safe io_answers_no_panic split: option.splits)

lemma query_servers_answers: "io_answers (query_servers env fuel r d qs nss)"
  by (simp add: query_servers_def io_safe)

definition resolver_ok :: "UdpDnsResolver \<times> 'w \<Rightarrow> bool" where
  "resolver_ok st \<longleftrightarrow> hosts_ok (res_hosts (fst st)) \<and> cache_ok (res_cache (fst st))"

definition good_answer :: "(DnsError, IpAddr list) res option \<times> UdpDnsResolver \<times> 'w \<Rightarrow> bool" where
  "good_answer a \<longleftrightarrow> resolver_ok (snd a) \<and> fst a \<noteq> Some Panic \<and> fst a \<noteq> Some (Ok [])"

lemma cache_answer_good:
  "resolver_ok (r, w) \<Longrightarrow> io_answers m \<Longrightarrow> good_answer (cache_answer env key r (m w'))"
  by (auto simp: good_answer_def resolver_ok_def io_answers_def cache_answer_def cache_ok_update
      split: prod.splits option.splits res.splits) (metis fst_conv)+

lemma udp_nameserver_lookup_good:
  assumes "resolver_ok (r, w)"
  shows "good_answer (udp_nameserver_lookup env fuel d qs (r, w))"
proof (cases "cache_find (clock env w) (cache_key d qs) (res_cache r)")
  case (Some a)
  then have "fst a \<noteq> []" using assms cache_ok_find by (cases a) (fastforce simp: resolver_ok_def)
  then show ?thesis using assms Some
    by (cases a) (auto simp: udp_nameserver_lookup_def good_answer_def resolver_ok_def)
next
  case None
  have q: "fst (query_servers env fuel r d qs nss w) \<noteq> Some Panic \<and> fst (query_servers env fuel r d qs nss w) \<noteq> Some (Ok [])" for nss
    using query_servers_answers [of env fuel r d qs nss] by (simp add: io_answers_def)
  have "good_answer (cache_answer env (cache_key d qs) r (query_servers env fuel r d qs nss w))" for nss
    by (rule cache_answer_good [OF assms query_servers_answers])
  then show ?thesis
    using None assms q by (auto simp: udp_nameserver_lookup_def good_answer_def resolver_ok_def Let_def split: prod.splits) (metis fst_conv)+
qed

lemma tcp_nameserver_lookup_good:
  assumes "resolver_ok (r, w)"
  shows "good_answer (tcp_nameserver_lookup env fuel d qs (r, w))"
proof (cases "cache_find (clock env w) (cache_key d qs) (res_cache r)")
  case (Some a)
  then have "fst a \<noteq> []" using assms cache_ok_find by (cases a) (fastforce simp: resolver_ok_def)
  then show ?thesis using assms Some
    by (cases a) (auto simp: tcp_nameserver_lookup_def good_answer_def resolver_ok_def)
next
  case None
  then show ?thesis
    using cache_answer_good [OF assms, of "tcp_parallel_query env fuel d qs nss" env "cache_key d qs" w for nss]
      cache_answer_good [OF assms, of "tcp_serial_query env fuel d qs EmptyResponse nss" env "cache_key d qs" w for nss]
    by (simp add: tcp_nameserver_lookup_def tcp_parallel_query_def Let_def io_safe)
qed

lemma resolve_via_good:
  assumes "resolver_ok st" and "\<And>d qs. good_answer (lookup d qs st)"
  shows "good_answer (resolve_via lower lookup domain st)"
  using assms lookup_recursive_ok [of "res_hosts (fst st)" lower "host_key lower domain" 0]
  by (auto simp: resolve_via_def resolve_hosts_def Let_def good_answer_def resolver_ok_def split: option.splits res.splits)

interpretation udp: dns_resolver "udp_resolve lower env fuel" resolver_ok
proof unfold_locales
  fix st :: "UdpDnsResolver \<times> 'a" and d
  assume ok: "resolver_ok st"
  then have "good_answer (udp_resolve lower env fuel d st)"
    unfolding udp_resolve_def by (intro resolve_via_good) (metis prod.collapse udp_nameserver_lookup_good)+
  then show "resolver_ok (snd (udp_resolve lower env fuel d st))" "fst (udp_resolve lower env fuel d st) \<noteq> Some (Ok [])"
    "fst (udp_resolve lower env fuel d st) \<noteq> Some Panic"
    by (simp_all add: good_answer_def)
qed

interpretation tcp: dns_resolver "tcp_resolve lower env fuel" resolver_ok
proof unfold_locales
  fix st :: "UdpDnsResolver \<times> 'a" and d
  assume ok: "resolver_ok st"
  then have "good_answer (tcp_resolve lower env fuel d st)"
    unfolding tcp_resolve_def by (intro resolve_via_good) (metis prod.collapse tcp_nameserver_lookup_good)+
  then show "resolver_ok (snd (tcp_resolve lower env fuel d st))" "fst (tcp_resolve lower env fuel d st) \<noteq> Some (Ok [])"
    "fst (tcp_resolve lower env fuel d st) \<noteq> Some Panic"
    by (simp_all add: good_answer_def)
qed

definition encrypted_ok :: "EncryptedResolver \<times> 'w \<Rightarrow> bool" where
  "encrypted_ok st \<longleftrightarrow> hosts_ok (enc_hosts (fst st)) \<and> cache_ok (enc_cache (fst st))"

lemma encrypted_lookup_good:
  assumes ok: "encrypted_ok (r, w)" and np: "\<And>e d q. io_no_panic (ask e d q)"
  shows "encrypted_ok (snd (encrypted_lookup env ask domain (r, w))) \<and>
    fst (encrypted_lookup env ask domain (r, w)) \<noteq> Some Panic \<and> fst (encrypted_lookup env ask domain (r, w)) \<noteq> Some (Ok [])"
proof (cases "cache_find (clock env w) (cache_key domain (dns_query_types (enc_strategy r))) (enc_cache r)")
  case (Some a)
  then have "fst a \<noteq> []" using ok cache_ok_find by (cases a) (fastforce simp: encrypted_ok_def)
  with Some ok show ?thesis by (cases a) (auto simp: encrypted_lookup_def Let_def encrypted_ok_def)
next
  case None
  have "fst (ask (endpoint r) domain (dns_query_types (enc_strategy r)) w) \<noteq> Some Panic"
    using np by (simp add: io_no_panic_def)
  with None ok show ?thesis
    by (auto simp: encrypted_lookup_def Let_def encrypted_ok_def cache_ok_update split: prod.splits option.splits res.splits)
qed

lemma resolve_hosts_good:
  assumes "encrypted_ok st" and "\<And>e d q. io_no_panic (ask e d q)"
  shows "encrypted_ok (snd (resolve_hosts lower (enc_hosts (fst st)) (encrypted_lookup env ask) d st)) \<and>
    fst (resolve_hosts lower (enc_hosts (fst st)) (encrypted_lookup env ask) d st) \<noteq> Some Panic \<and>
    fst (resolve_hosts lower (enc_hosts (fst st)) (encrypted_lookup env ask) d st) \<noteq> Some (Ok [])"
proof (cases st)
  case (Pair r w)
  have "hosts_ok (enc_hosts r)" using assms(1) by (simp add: Pair encrypted_ok_def)
  from lookup_recursive_ok [OF this, of lower "host_key lower d" 0]
    encrypted_lookup_good [of r w ask env, OF _ assms(2)] assms(1)
  show ?thesis by (auto simp: Pair resolve_hosts_def Let_def split: option.splits res.splits)
qed

lemma doh_loop_no_panic: "io_no_panic (doh_loop env fuel url d qs)"
  unfolding io_no_panic_def
proof
  show "fst (doh_loop env fuel url d qs w) \<noteq> Some Panic" for w
    by (induction env fuel url d qs w rule: doh_loop.induct)
      (auto split: prod.splits sum.splits option.splits res.splits)
qed

lemma doq_loop_no_panic: "io_no_panic (doq_loop env fuel server d qs)"
proof -
  have p: "fst (quic_or_tcp env fuel server x w) \<noteq> Some Panic" for x w
    using parse_dns_response_no_panic
    by (auto simp: quic_or_tcp_def tcp_ask_def parsed_ips_def fbind_eq_Panic Let_def split: prod.splits sum.splits)
  have "fst (doq_loop env fuel server d qs w) \<noteq> Some Panic" for w
    by (induction qs arbitrary: w) (auto split: prod.splits option.splits res.splits, (metis p fst_conv)+)
  then show ?thesis by (simp add: io_no_panic_def)
qed

interpretation doh: dns_resolver "doh_resolve lower env fuel" encrypted_ok
  using resolve_hosts_good [of _ "doh_loop env fuel", OF _ doh_loop_no_panic]
  by unfold_locales (simp_all add: doh_resolve_def)

interpretation doq: dns_resolver "doq_resolve lower env fuel" encrypted_ok
  using resolve_hosts_good [of _ "\<lambda>e. doq_loop env fuel (doq_server e)", OF _ doq_loop_no_panic]
  by unfold_locales (simp_all add: doq_resolve_def)

text \<open>The system resolver breaks the contract for a replaced name the system has no address for.\<close>

lemma simple_resolve_empty:
  "lookup_recursive lower h (host_key lower d) 0 = Some (Err r) \<Longrightarrow> lookup_host r = Inr [] \<Longrightarrow>
   fst (simple_resolve lower lookup_host d h) = Some (Ok [])"
  by (simp add: simple_resolve_def)

end
