(* ===== verification/Fake_Dns.thy ===== *)
theory Fake_Dns
  imports Dns_Resolver
begin

text \<open>
  The fake resolver of \<^verbatim>\<open>astra-core-dns\<close>: the address pool and the two maps, sequentially and with
  concurrent requests. A request is three atomic parts (look up, allocate, record), since the locks
  are released in between. The unchecked 32-bit offset counter wraps.
\<close>

section \<open>The pool and the maps\<close>

record FakeIpPool =
  base :: "u8 list"
  pool_count :: u32
  pool_next :: u32

definition FakeIpPool_new :: "u8 list \<Rightarrow> nat \<Rightarrow> FakeIpPool" where
  "FakeIpPool_new b prefix_len =
     \<lparr>base = b, pool_count = push_bit (32 - max (min prefix_len 32) 8) 1, pool_next = 1\<rparr>"

definition pool_ip :: "u8 list \<Rightarrow> u32 \<Rightarrow> IpAddr" where
  "pool_ip b offset = V4 (to_be32 (from_be32 b + offset))"

definition allocate_ip :: "FakeIpPool \<Rightarrow> IpAddr option \<times> FakeIpPool" where
  "allocate_ip p =
     (let offset = pool_next p; p' = p\<lparr>pool_next := pool_next p + 1\<rparr>
      in if offset \<ge> pool_count p then (None, p') else (Some (pool_ip (base p) offset), p'))"

record FakeDnsResolver =
  pool :: FakeIpPool
  domain_to_ip :: "(string \<times> IpAddr) list"
  ip_to_domain :: "(IpAddr \<times> string) list"

definition FakeDnsResolver_new :: "u8 list \<Rightarrow> nat \<Rightarrow> FakeDnsResolver" where
  "FakeDnsResolver_new b prefix_len = \<lparr>pool = FakeIpPool_new b prefix_len, domain_to_ip = [], ip_to_domain = []\<rparr>"

definition FakeDnsResolver_new_default :: FakeDnsResolver where
  "FakeDnsResolver_new_default = FakeDnsResolver_new [198, 18, 0, 0] 15"

text \<open>\<open>contended\<close>: whether the map is locked when \<^verbatim>\<open>try_lock\<close> runs.\<close>

definition get_domain :: "bool \<Rightarrow> IpAddr \<Rightarrow> FakeDnsResolver \<Rightarrow> string option" where
  "get_domain contended ip f = (if contended then None else map_of (ip_to_domain f) ip)"

fun is_fake_ip :: "IpAddr \<Rightarrow> FakeDnsResolver \<Rightarrow> bool" where
  "is_fake_ip (V4 os) f \<longleftrightarrow> os ! 0 = base (pool f) ! 0 \<and> os ! 1 = base (pool f) ! 1"
| "is_fake_ip (V6 os) f \<longleftrightarrow> False"

definition fake_lookup :: "string \<Rightarrow> FakeDnsResolver \<Rightarrow> IpAddr option" where
  "fake_lookup low f = map_of (domain_to_ip f) low"

definition fake_allocate :: "FakeDnsResolver \<Rightarrow> IpAddr option \<times> FakeDnsResolver" where
  "fake_allocate f = (case allocate_ip (pool f) of (ip, p) \<Rightarrow> (ip, f\<lparr>pool := p\<rparr>))"

definition fake_record :: "string \<Rightarrow> IpAddr \<Rightarrow> FakeDnsResolver \<Rightarrow> FakeDnsResolver" where
  "fake_record low ip f =
     f\<lparr>domain_to_ip := AList.update low ip (domain_to_ip f), ip_to_domain := AList.update ip low (ip_to_domain f)\<rparr>"

definition fake_resolve ::
  "(string \<Rightarrow> string) \<Rightarrow> string \<Rightarrow> FakeDnsResolver \<Rightarrow> (DnsError, IpAddr list) res option \<times> FakeDnsResolver" where
  "fake_resolve lower domain f =
     (case fake_lookup (lower domain) f of
        Some ip \<Rightarrow> (Some (Ok [ip]), f)
      | None \<Rightarrow>
          (case fake_allocate f of
             (None, f) \<Rightarrow> (Some (Err (NetworkError ''fake DNS pool exhausted'')), f)
           | (Some ip, f) \<Rightarrow> (Some (Ok [ip]), fake_record (lower domain) ip f)))"

interpretation fake: dns_resolver "fake_resolve lower" "\<lambda>_. True"
  by unfold_locales (auto simp: fake_resolve_def split: option.splits prod.splits)

section \<open>Concurrent requests\<close>

text \<open>
  The requests under way: names looked up without success, addresses drawn and not yet recorded;
  and, for the statement, the answers given and the number of draws.
\<close>

record fake_sys =
  fd :: FakeDnsResolver
  missed :: "string list"
  drawn :: "(string \<times> IpAddr) list"
  answers :: "(string \<times> IpAddr) list"
  draws :: nat

inductive fake_step :: "fake_sys \<Rightarrow> fake_sys \<Rightarrow> bool" where
  hit: "fake_lookup d (fd s) = Some ip \<Longrightarrow> fake_step s (s\<lparr>answers := (d, ip) # answers s\<rparr>)"
| miss: "fake_lookup d (fd s) = None \<Longrightarrow> fake_step s (s\<lparr>missed := d # missed s\<rparr>)"
| draw: "d \<in> set (missed s) \<Longrightarrow> fake_allocate (fd s) = (Some ip, f) \<Longrightarrow>
    fake_step s (s\<lparr>fd := f, missed := remove1 d (missed s), drawn := (d, ip) # drawn s, draws := Suc (draws s)\<rparr>)"
| exhausted: "d \<in> set (missed s) \<Longrightarrow> fake_allocate (fd s) = (None, f) \<Longrightarrow>
    fake_step s (s\<lparr>fd := f, missed := remove1 d (missed s), draws := Suc (draws s)\<rparr>)"
| store: "(d, ip) \<in> set (drawn s) \<Longrightarrow>
    fake_step s (s\<lparr>fd := fake_record d ip (fd s), drawn := remove1 (d, ip) (drawn s), answers := (d, ip) # answers s\<rparr>)"

definition fake_init :: "fake_sys \<Rightarrow> bool" where
  "fake_init s \<longleftrightarrow> (\<exists>b n. s = \<lparr>fd = FakeDnsResolver_new b n, missed = [], drawn = [], answers = [], draws = 0\<rparr>)"

text \<open>\<open>older n\<close>: an address with an offset below \<open>n\<close>.\<close>

definition older :: "fake_sys \<Rightarrow> IpAddr \<Rightarrow> bool" where
  "older s ip \<longleftrightarrow> (\<exists>i. i \<le> draws s \<and> ip = pool_ip (base (pool (fd s))) (word_of_nat i))"

definition fake_good :: "fake_sys \<Rightarrow> bool" where
  "fake_good s \<longleftrightarrow>
     pool_next (pool (fd s)) = word_of_nat (Suc (draws s)) \<and>
     (\<forall>ip d. map_of (ip_to_domain (fd s)) ip = Some d \<longrightarrow> older s ip) \<and>
     (\<forall>(d, ip) \<in> set (drawn s). older s ip \<and> map_of (ip_to_domain (fd s)) ip = None) \<and>
     distinct (map snd (drawn s)) \<and>
     (\<forall>d ip. map_of (domain_to_ip (fd s)) d = Some ip \<longrightarrow> map_of (ip_to_domain (fd s)) ip = Some d) \<and>
     (\<forall>(d, ip) \<in> set (answers s). map_of (ip_to_domain (fd s)) ip = Some d)"

definition fake_inv :: "fake_sys \<Rightarrow> bool" where
  "fake_inv s \<longleftrightarrow> (Suc (draws s) < 2 ^ 32 \<longrightarrow> fake_good s)"

lemma pool_ip_inj:
  assumes "i < 2 ^ 32" "j < 2 ^ 32" "pool_ip b (word_of_nat i) = pool_ip b (word_of_nat j)"
  shows "i = j"
proof -
  have "from_be32 b + word_of_nat i = from_be32 b + (word_of_nat j :: u32)"
    using assms(3) from_to_be32 by (metis IpAddr.inject(1) pool_ip_def)
  then have "unat (word_of_nat i :: u32) = unat (word_of_nat j :: u32)" by simp
  with assms(1,2) show ?thesis by (simp add: unat_of_nat)
qed

lemma pool_ip_eqI: "from_be32 b + off = from_be32 os \<Longrightarrow> length os = 4 \<Longrightarrow> pool_ip b off = V4 os"
  by (simp add: pool_ip_def to_from_be32)

lemma fake_allocate_Some:
  assumes "fake_allocate f = (Some ip, f')"
  shows "ip = pool_ip (base (pool f)) (pool_next (pool f))" "f' = f\<lparr>pool := (pool f)\<lparr>pool_next := pool_next (pool f) + 1\<rparr>\<rparr>"
  using assms by (auto simp: fake_allocate_def allocate_ip_def Let_def split: if_splits)

lemma fake_allocate_None:
  "fake_allocate f = (None, f') \<Longrightarrow> f' = f\<lparr>pool := (pool f)\<lparr>pool_next := pool_next (pool f) + 1\<rparr>\<rparr>"
  by (auto simp: fake_allocate_def allocate_ip_def Let_def split: if_splits)

lemma older_mono: "older s ip \<Longrightarrow> base (pool (fd t)) = base (pool (fd s)) \<Longrightarrow> draws s \<le> draws t \<Longrightarrow> older t ip"
  by (auto simp: older_def intro: order.trans)

lemma draw_good:
  assumes good: "fake_good s" and bound: "Suc (Suc (draws s)) < 2 ^ 32" and a: "fake_allocate (fd s) = (Some ip, f)"
    and t: "t = s\<lparr>fd := f, missed := remove1 d (missed s), drawn := (d, ip) # drawn s, draws := Suc (draws s)\<rparr>"
  shows "fake_good t"
proof -
  note al = fake_allocate_Some [OF a]
  have ip: "ip = pool_ip (base (pool (fd s))) (word_of_nat (Suc (draws s)))"
    using al good by (simp add: fake_good_def)
  have new: "\<not> older s ip"
  proof
    assume "older s ip"
    then obtain i where "i \<le> draws s" "ip = pool_ip (base (pool (fd s))) (word_of_nat i)" by (auto simp: older_def)
    moreover have "Suc (draws s) = i"
      by (rule pool_ip_inj [of _ _ "base (pool (fd s))"]) (use bound calculation ip in simp_all)
    ultimately show False by simp
  qed
  have old: "older s x \<Longrightarrow> older t x" for x by (erule older_mono) (simp_all add: t al)
  have "older t ip" unfolding older_def
    by (rule exI [of _ "Suc (draws s)"]) (simp add: t al(2), simp add: ip)
  moreover have "map_of (ip_to_domain (fd s)) ip = None"
    using new good by (cases "map_of (ip_to_domain (fd s)) ip") (auto simp: fake_good_def)
  moreover have "ip \<notin> snd ` set (drawn s)" using new good by (auto simp: fake_good_def)
  moreover have "pool_next (pool (fd t)) = word_of_nat (Suc (draws t))" using good by (simp add: t al fake_good_def)
  ultimately show ?thesis using good old by (auto simp: t al fake_good_def)
qed

lemma exhausted_good:
  assumes good: "fake_good s" and a: "fake_allocate (fd s) = (None, f)"
    and t: "t = s\<lparr>fd := f, missed := remove1 d (missed s), draws := Suc (draws s)\<rparr>"
  shows "fake_good t"
proof -
  note al = fake_allocate_None [OF a]
  have old: "older s x \<Longrightarrow> older t x" for x by (erule older_mono) (simp_all add: t al)
  have "pool_next (pool (fd t)) = word_of_nat (Suc (draws t))" using good by (simp add: t al fake_good_def)
  then show ?thesis using good old by (auto simp: t al fake_good_def)
qed

lemma store_good:
  assumes good: "fake_good s" and mem: "(d, ip) \<in> set (drawn s)"
    and t: "t = s\<lparr>fd := fake_record d ip (fd s), drawn := remove1 (d, ip) (drawn s), answers := (d, ip) # answers s\<rparr>"
  shows "fake_good t"
proof -
  have old: "older s x \<Longrightarrow> older t x" for x by (erule older_mono) (simp_all add: t fake_record_def)
  have ip: "older s ip" "map_of (ip_to_domain (fd s)) ip = None" using good mem by (auto simp: fake_good_def)
  have dist: "distinct (map snd (drawn s))" using good by (simp add: fake_good_def)
  have other: "ip' \<noteq> ip" if "(d', ip') \<in> set (remove1 (d, ip) (drawn s))" for d' ip'
  proof
    assume "ip' = ip"
    moreover have "(d', ip') \<in> set (drawn s)" "(d', ip') \<noteq> (d, ip)"
      using that dist by (auto simp: distinct_map dest: notin_set_remove1)
    ultimately show False using dist mem by (fastforce simp: distinct_map inj_on_def)
  qed
  have i2d: "map_of (ip_to_domain (fd t)) = (map_of (ip_to_domain (fd s)))(ip \<mapsto> d)"
    and d2i: "map_of (domain_to_ip (fd t)) = (map_of (domain_to_ip (fd s)))(d \<mapsto> ip)"
    by (auto simp: t fake_record_def update_conv')
  have "distinct (map snd (drawn t))"
    using dist by (simp add: t) (metis distinct_map distinct_remove1 inj_on_subset set_remove1_subset)
  moreover have "pool_next (pool (fd t)) = word_of_nat (Suc (draws t))"
    using good by (simp add: t fake_record_def fake_good_def)
  moreover have "\<forall>(d', ip') \<in> set (drawn t). older t ip' \<and> map_of (ip_to_domain (fd t)) ip' = None"
  proof clarify
    fix d' ip'
    assume m: "(d', ip') \<in> set (drawn t)"
    then have "(d', ip') \<in> set (drawn s)" using set_remove1_subset by (fastforce simp: t)
    then have "older s ip'" "map_of (ip_to_domain (fd s)) ip' = None" using good by (auto simp: fake_good_def)
    moreover have "ip' \<noteq> ip" using other [of d' ip'] m by (simp add: t)
    ultimately show "older t ip' \<and> map_of (ip_to_domain (fd t)) ip' = None"
      using old [of ip'] unfolding i2d by simp
  qed
  moreover have "\<forall>x y. map_of (ip_to_domain (fd t)) x = Some y \<longrightarrow> older t x"
    using good old ip by (auto simp: i2d fake_good_def)
  moreover have "\<forall>x y. map_of (domain_to_ip (fd t)) x = Some y \<longrightarrow> map_of (ip_to_domain (fd t)) y = Some x"
    using good ip by (auto simp: i2d d2i fake_good_def)
  moreover have "\<forall>(x, y) \<in> set (answers t). map_of (ip_to_domain (fd t)) y = Some x"
  proof -
    have "answers t = (d, ip) # answers s" by (simp add: t)
    then show ?thesis using good ip by (auto simp: i2d fake_good_def)
  qed
  ultimately show ?thesis unfolding fake_good_def by blast
qed

interpretation fake_sys: inv_system fake_init fake_step fake_inv
proof unfold_locales
  fix s
  assume "fake_init s"
  then show "fake_inv s" by (auto simp: fake_init_def fake_inv_def fake_good_def FakeDnsResolver_new_def FakeIpPool_new_def)
next
  fix s t
  assume inv: "fake_inv s" and "fake_step s t"
  show "fake_inv t"
    using \<open>fake_step s t\<close>
  proof cases
    case (hit d ip)
    with inv show ?thesis by (auto simp: fake_inv_def fake_good_def fake_lookup_def older_def)
  next
    case (miss d)
    with inv show ?thesis by (auto simp: fake_inv_def fake_good_def older_def)
  next
    case (draw d ip f)
    with inv draw_good [of s ip f t d] show ?thesis by (auto simp: fake_inv_def)
  next
    case (exhausted d f)
    with inv exhausted_good [of s f t d] show ?thesis by (auto simp: fake_inv_def)
  next
    case (store d ip)
    with inv store_good [of s d ip t] show ?thesis by (auto simp: fake_inv_def)
  qed
qed

lemma fake_answers_spec:
  assumes "reach fake_init fake_step s" and "Suc (draws s) < 2 ^ 32" and "(d, ip) \<in> set (answers s)"
  shows "get_domain False ip (fd s) = Some d"
  using fake_sys.inv_reach [OF assms(1)] assms(2,3) by (auto simp: fake_inv_def fake_good_def get_domain_def)

text \<open>C9. Fake addresses can be turned back: under every interleaving of concurrent requests, each address the
  fake resolver ever answered for a name is still mapped back to that name, as long as fewer than
  2^32 - 1 addresses were drawn (the offset counter is never checked for wrapping); so no address
  is given to two names.\<close>
theorem fake_dns_invertible:
  assumes "reach fake_init fake_step s" and "Suc (draws s) < 2 ^ 32" and "(d, ip) \<in> set (answers s)"
  shows "get_domain False ip (fd s) = Some d \<and> (\<forall>d'. (d', ip) \<in> set (answers s) \<longrightarrow> d' = d)"
  using fake_answers_spec [OF assms] fake_answers_spec [OF assms(1,2)] by fastforce

text \<open>Two concurrent requests for one name: both miss, both draw, and both answers map back to it.\<close>

definition fake_sample :: fake_sys where
  "fake_sample =
     \<lparr>fd = fake_record ''a'' (V4 [198, 18, 0, 1]) (fake_record ''a'' (V4 [198, 18, 0, 2])
        (FakeDnsResolver_new_default\<lparr>pool := (pool FakeDnsResolver_new_default)\<lparr>pool_next := 3\<rparr>\<rparr>)),
      missed = [], drawn = [], answers = [(''a'', V4 [198, 18, 0, 1]), (''a'', V4 [198, 18, 0, 2])], draws = 2\<rparr>"

lemma fake_sample_facts:
  "draws fake_sample = 2" "answers fake_sample = [(''a'', V4 [198, 18, 0, 1]), (''a'', V4 [198, 18, 0, 2])]"
  "base (pool (fd fake_sample)) = [198, 18, 0, 0]"
  by (simp_all add: fake_sample_def fake_record_def FakeDnsResolver_new_default_def FakeDnsResolver_new_def FakeIpPool_new_def)

lemma fake_sample_reach: "reach fake_init fake_step fake_sample"
proof -
  define f0 where "f0 = FakeDnsResolver_new_default"
  define f1 where "f1 = f0\<lparr>pool := (pool f0)\<lparr>pool_next := 2\<rparr>\<rparr>"
  define f2 where "f2 = f1\<lparr>pool := (pool f1)\<lparr>pool_next := 3\<rparr>\<rparr>"
  let ?a = "(''a'', V4 [198, 18, 0, 1])" and ?b = "(''a'', V4 [198, 18, 0, 2])"
  let ?s = "\<lambda>f m dr an k. \<lparr>fd = f, missed = m, drawn = dr, answers = an, draws = k\<rparr>"
  note fs = f0_def f1_def f2_def FakeDnsResolver_new_default_def FakeDnsResolver_new_def FakeIpPool_new_def
  have p: "pool_ip [198, 18, 0, 0] 1 = snd ?a" "pool_ip [198, 18, 0, 0] 2 = snd ?b"
    unfolding snd_conv by (rule pool_ip_eqI; simp add: from_be32_def be_value_def)+
  have a1: "fake_allocate f0 = (Some (snd ?a), f1)"
    using p by (simp add: fs fake_allocate_def allocate_ip_def Let_def word_le_nat_alt)
  have a2: "fake_allocate f1 = (Some (snd ?b), f2)"
    using p by (simp add: fs fake_allocate_def allocate_ip_def Let_def)
  have l: "fake_lookup ''a'' f0 = None" by (simp add: fake_lookup_def fs)
  have r0: "reach fake_init fake_step (?s f0 [] [] [] 0)"
    by (rule reach_init) (auto simp: fake_init_def f0_def FakeDnsResolver_new_default_def)
  have s1: "fake_step (?s f0 [] [] [] 0) (?s f0 [''a''] [] [] 0)"
    using fake_step.miss [of "''a''" "?s f0 [] [] [] 0"] l by simp
  have s2: "fake_step (?s f0 [''a''] [] [] 0) (?s f0 [''a'', ''a''] [] [] 0)"
    using fake_step.miss [of "''a''" "?s f0 [''a''] [] [] 0"] l by simp
  have s3: "fake_step (?s f0 [''a'', ''a''] [] [] 0) (?s f1 [''a''] [?a] [] (Suc 0))"
    using fake_step.draw [of "''a''" "?s f0 [''a'', ''a''] [] [] 0"] a1 by simp
  have s4: "fake_step (?s f1 [''a''] [?a] [] (Suc 0)) (?s f2 [] [?b, ?a] [] (Suc (Suc 0)))"
    using fake_step.draw [of "''a''" "?s f1 [''a''] [?a] [] (Suc 0)"] a2 by simp
  have s5: "fake_step (?s f2 [] [?b, ?a] [] (Suc (Suc 0))) (?s (fake_record ''a'' (snd ?b) f2) [] [?a] [?b] (Suc (Suc 0)))"
    using fake_step.store [of "''a''" "snd ?b" "?s f2 [] [?b, ?a] [] (Suc (Suc 0))"] by simp
  define f4 where "f4 = fake_record ''a'' (snd ?a) (fake_record ''a'' (snd ?b) f2)"
  have s6: "fake_step (?s (fake_record ''a'' (snd ?b) f2) [] [?a] [?b] (Suc (Suc 0))) (?s f4 [] [] [?a, ?b] (Suc (Suc 0)))"
    using fake_step.store [of "''a''" "snd ?a" "?s (fake_record ''a'' (snd ?b) f2) [] [?a] [?b] (Suc (Suc 0))"]
    by (simp add: f4_def)
  note rs = reach_step [where init = fake_init and step = fake_step]
  have "reach fake_init fake_step (?s f4 [] [] [?a, ?b] (Suc (Suc 0)))"
    by (rule rs [OF rs [OF rs [OF rs [OF rs [OF rs [OF r0 s1] s2] s3] s4] s5] s6])
  moreover have "?s f4 [] [] [?a, ?b] (Suc (Suc 0)) = fake_sample"
    by (simp add: fake_sample_def f4_def f2_def f1_def f0_def)
  ultimately show ?thesis by (rule back_subst)
qed

theorem fake_dns_invertible_witness:
  "get_domain False (V4 [198, 18, 0, 1]) (fd fake_sample) = Some ''a'' \<and>
   get_domain False (V4 [198, 18, 0, 2]) (fd fake_sample) = Some ''a''"
  by (intro conjI fake_dns_invertible [OF fake_sample_reach, THEN conjunct1]) (simp_all add: fake_sample_facts)

text \<open>
  The default pool is a /15: the addresses of its upper half, handed out from offset 65536 on, are
  not recognised as fake, and their names are never recovered.
\<close>

lemma upper_half_not_fake:
  assumes "base (pool f) = [198, 18, 0, 0]" and "pool_count (pool f) = push_bit 17 1" and "pool_next (pool f) = 0x10000"
  shows "fst (fake_allocate f) = Some (V4 [198, 19, 0, 0])" and "\<not> is_fake_ip (V4 [198, 19, 0, 0]) f"
proof -
  have "\<not> (push_bit 17 1 :: u32) \<le> 0x10000" by (simp add: push_bit_eq_mult)
  moreover have "pool_ip [198, 18, 0, 0] 0x10000 = V4 [198, 19, 0, 0]"
    by (rule pool_ip_eqI) (simp_all add: from_be32_def be_value_def)
  ultimately show "fst (fake_allocate f) = Some (V4 [198, 19, 0, 0])"
    using assms by (simp add: fake_allocate_def allocate_ip_def Let_def)
  show "\<not> is_fake_ip (V4 [198, 19, 0, 0]) f" using assms by simp
qed

end
