(* ===== verification/Dispatcher.thy ===== *)
theory Dispatcher
  imports Routing Fake_Dns
begin

text \<open>
  \<^verbatim>\<open>astra-core-session\<close> and \<^verbatim>\<open>astra-core-dispatcher\<close>: sessions, the routing context built from one, the
  fake-address and DNS enrichment, and the choice of the outbound handler. The resolver, the handler
  table and the readings a balancer takes (clock, scores) are parameters. A dispatch ends with a handler
  and the session it is given, with an error, in a panic, or never (\<open>None\<close>).
\<close>

section \<open>Sessions\<close>

record Inbound =
  ib_source :: Destination
  ib_local :: "Destination option"
  ib_gateway :: "Destination option"
  ib_tag :: string

record Outbound =
  ob_target :: Destination
  original_target :: Destination
  route_target :: "Destination option"
  ob_tag :: string

record SniffingRequest =
  sniff_enabled :: bool
  metadata_only :: bool
  route_only :: bool

record Content =
  ct_protocol :: "string option"
  sniffing_request :: "SniffingRequest option"
  ct_attributes :: "(string \<times> string) list"
  skip_dns_resolve :: bool

record Session =
  inbound :: "Inbound option"
  outbound :: "Outbound option"
  content :: "Content option"

section \<open>The dispatcher\<close>

record ('re, 'net, 's) DefaultDispatcher =
  router_rules :: "('re, 'net) RouteRule list"
  domain_strategy :: DomainStrategy
  dns_resolver_state :: "'s option"
  fake_dns :: "FakeDnsResolver option"
  balancers :: "(string \<times> Balancer) list"

text \<open>The readings of a balancer's pick: nanoseconds, the order on scores, the scores, the greatest score.\<close>

record 'f pick_env =
  nanos :: nat
  score_lt :: "'f \<Rightarrow> 'f \<Rightarrow> bool"
  score_of :: "string \<Rightarrow> 'f"
  score_max :: 'f

definition build_routing_context :: "Session \<Rightarrow> RoutingContext" where
  "build_routing_context s =
     (let ctx = RoutingContext_default;
          ctx = (case outbound s of
                   Some ob \<Rightarrow> ctx\<lparr>target_domain := as_domain (address (ob_target ob)), target_ip := as_ip (address (ob_target ob)),
                                target_port := port_value (port (ob_target ob))\<rparr>
                 | None \<Rightarrow> ctx);
          ctx = (case inbound s of
                   Some ib \<Rightarrow> ctx\<lparr>source_ip := as_ip (address (ib_source ib)), source_port := port_value (port (ib_source ib)),
                                inbound_tag := ib_tag ib\<rparr>
                 | None \<Rightarrow> ctx)
      in case content s of
           Some c \<Rightarrow> ctx\<lparr>protocol := ct_protocol c, attributes := ct_attributes c\<rparr>
         | None \<Rightarrow> ctx)"

definition enrich_with_fake_dns ::
  "bool \<Rightarrow> ('re, 'net, 's) DefaultDispatcher \<Rightarrow> RoutingContext \<Rightarrow> RoutingContext" where
  "enrich_with_fake_dns contended d ctx =
     (case fake_dns d of
        None \<Rightarrow> ctx
      | Some fake \<Rightarrow>
          (case target_ip ctx of
             None \<Rightarrow> ctx
           | Some ip \<Rightarrow>
               if \<not> is_fake_ip ip fake then ctx
               else case get_domain contended ip fake of
                      Some domain \<Rightarrow> ctx\<lparr>target_domain := Some domain\<rparr>
                    | None \<Rightarrow> ctx))"

definition is_v4 :: "IpAddr \<Rightarrow> bool" where
  "is_v4 ip = (case ip of V4 _ \<Rightarrow> True | V6 _ \<Rightarrow> False)"

text \<open>\<open>unwrap_or(&ips[0])\<close> evaluates its argument first, so an empty list panics.\<close>

definition choose_ip :: "IpAddr list \<Rightarrow> (string, IpAddr) res" where
  "choose_ip ips = (if ips = [] then Panic else case find is_v4 ips of Some ip \<Rightarrow> Ok ip | None \<Rightarrow> Ok (hd ips))"

definition resolve_context ::
  "(string \<Rightarrow> 's \<Rightarrow> (DnsError, IpAddr list) res option \<times> 's) \<Rightarrow> RoutingContext \<Rightarrow> ('re, 'net, 's) DefaultDispatcher \<Rightarrow>
   (string, RoutingContext) res option \<times> ('re, 'net, 's) DefaultDispatcher" where
  "resolve_context resolve ctx d =
     (case (target_domain ctx, target_ip ctx, dns_resolver_state d) of
        (Some domain, None, Some r) \<Rightarrow>
          (case resolve domain r of (ans, r') \<Rightarrow>
             ((case ans of
                 None \<Rightarrow> None
               | Some (Ok ips) \<Rightarrow> Some (rbind (choose_ip ips) (\<lambda>ip. Ok (ctx\<lparr>target_ip := Some ip\<rparr>)))
               | Some (Err e) \<Rightarrow> Some (Ok ctx)
               | Some Panic \<Rightarrow> Some Panic), d\<lparr>dns_resolver_state := Some r'\<rparr>))
      | _ \<Rightarrow> (Some (Ok ctx), d))"

definition set_ob_tag :: "string \<Rightarrow> Session \<Rightarrow> Session" where
  "set_ob_tag t s = s\<lparr>outbound := map_option (\<lambda>ob. ob\<lparr>ob_tag := t\<rparr>) (outbound s)\<rparr>"

definition pick_outbound_tag ::
  "('re, 'net) ext \<Rightarrow> 'f pick_env \<Rightarrow> RoutingContext \<Rightarrow> Session \<Rightarrow> ('re, 'net, 's) DefaultDispatcher \<Rightarrow>
   string \<times> Session \<times> ('re, 'net, 's) DefaultDispatcher \<times> (nat \<times> string) list" where
  "pick_outbound_tag e pk ctx session d =
     (case pick_route e ctx (router_rules d) of
        (None, calls) \<Rightarrow> ([], session, d, calls)
      | (Some r, calls) \<Rightarrow>
          (let t = res_outbound_tag r; session = set_ob_tag t session in
           if t = [] then (t, session, d, calls)
           else case map_of (balancers d) t of
                  None \<Rightarrow> (t, session, d, calls)
                | Some b \<Rightarrow>
                    (case Balancer_pick (nanos pk) (score_lt pk) (score_of pk) (score_max pk) b of (sel, b') \<Rightarrow>
                       let d = d\<lparr>balancers := AList.update t b' (balancers d)\<rparr> in
                       case sel of
                         Some selected \<Rightarrow> (selected, set_ob_tag selected session, d, calls)
                       | None \<Rightarrow> (t, session, d, calls))))"

definition choose_handler ::
  "(string \<Rightarrow> 'h option) \<Rightarrow> 'h option \<Rightarrow> string \<Rightarrow> Session \<Rightarrow> (string, 'h \<times> Session) res" where
  "choose_handler get_handler default_handler t session =
     (case (if t \<noteq> [] then get_handler t else default_handler) of
        Some h \<Rightarrow> Ok (h, session)
      | None \<Rightarrow> Err ''no outbound handler available'')"

text \<open>A context that was not obtained ends the dispatch: it panicked, or never came back.\<close>

definition no_context :: "(string, RoutingContext) res option \<Rightarrow> (string, 'b) res option" where
  "no_context r = (case r of None \<Rightarrow> None | Some (Err e) \<Rightarrow> Some (Err e) | Some _ \<Rightarrow> Some Panic)"

definition routed_dispatch ::
  "('re, 'net) ext \<Rightarrow> 'f pick_env \<Rightarrow> (string \<Rightarrow> 's \<Rightarrow> (DnsError, IpAddr list) res option \<times> 's) \<Rightarrow>
   (string \<Rightarrow> 'h option) \<Rightarrow> 'h option \<Rightarrow> bool \<Rightarrow> Session \<Rightarrow> ('re, 'net, 's) DefaultDispatcher \<Rightarrow>
   (string, 'h \<times> Session) res option \<times> ('re, 'net, 's) DefaultDispatcher \<times> (nat \<times> string) list" where
  "routed_dispatch e pk resolve get_handler default_handler contended session d =
     (let ctx = enrich_with_fake_dns contended d (build_routing_context session) in
      case (if domain_strategy d = IpOnDemand then resolve_context resolve ctx d else (Some (Ok ctx), d)) of
        (Some (Ok ctx), d) \<Rightarrow>
          (case pick_outbound_tag e pk ctx session d of (t, session, d, calls) \<Rightarrow>
             if t = [] \<and> domain_strategy d = IpIfNonMatch
             then case resolve_context resolve ctx d of
                    (Some (Ok ctx), d) \<Rightarrow>
                      (case pick_outbound_tag e pk ctx session d of (t, session, d, calls') \<Rightarrow>
                         (Some (choose_handler get_handler default_handler t session), d, calls @ calls'))
                  | (r, d) \<Rightarrow> (no_context r, d, calls)
             else (Some (choose_handler get_handler default_handler t session), d, calls))
      | (r, d) \<Rightarrow> (no_context r, d, []))"

text \<open>\<open>dispatch_link\<close> repeats the choice for a given link; \<open>dispatch_udp\<close> does so in its task, where a missing handler is only logged.\<close>

definition dispatch_link ::
  "('re, 'net) ext \<Rightarrow> 'f pick_env \<Rightarrow> (string \<Rightarrow> 's \<Rightarrow> (DnsError, IpAddr list) res option \<times> 's) \<Rightarrow>
   (string \<Rightarrow> 'h option) \<Rightarrow> 'h option \<Rightarrow> bool \<Rightarrow> Session \<Rightarrow> ('re, 'net, 's) DefaultDispatcher \<Rightarrow>
   (string, 'h \<times> Session) res option \<times> ('re, 'net, 's) DefaultDispatcher \<times> (nat \<times> string) list" where
  "dispatch_link = routed_dispatch"

definition dispatch_udp ::
  "('re, 'net) ext \<Rightarrow> 'f pick_env \<Rightarrow> (string \<Rightarrow> 's \<Rightarrow> (DnsError, IpAddr list) res option \<times> 's) \<Rightarrow>
   (string \<Rightarrow> 'h option) \<Rightarrow> 'h option \<Rightarrow> bool \<Rightarrow> Session \<Rightarrow> ('re, 'net, 's) DefaultDispatcher \<Rightarrow>
   (string, ('h \<times> Session) option) res option \<times> ('re, 'net, 's) DefaultDispatcher \<times> (nat \<times> string) list" where
  "dispatch_udp e pk resolve get_handler default_handler contended session d =
     (case routed_dispatch e pk resolve get_handler default_handler contended session d of (r, d, calls) \<Rightarrow>
        (map_option (\<lambda>r. case r of Ok h \<Rightarrow> Ok (Some h) | Err e \<Rightarrow> Ok None | Panic \<Rightarrow> Panic) r, d, calls))"

section \<open>What the context never carries\<close>

text \<open>\<open>build_routing_context\<close> sets neither the network nor the user, and nothing later does.\<close>

definition anonymous :: "RoutingContext \<Rightarrow> bool" where
  "anonymous ctx \<longleftrightarrow> ctx_network ctx = [] \<and> user ctx = None"

lemma anonymous_build [simp]: "anonymous (build_routing_context s)"
  by (simp add: anonymous_def build_routing_context_def RoutingContext_default_def Let_def split: option.splits)

lemma anonymous_enrich [simp]: "anonymous (enrich_with_fake_dns c d ctx) = anonymous ctx"
  by (simp add: anonymous_def enrich_with_fake_dns_def split: option.splits)

lemma resolve_context_Ok:
  assumes "resolve_context resolve ctx d = (Some (Ok ctx'), d')"
  shows "anonymous ctx' = anonymous ctx" and "target_domain ctx' = target_domain ctx"
proof -
  have "ctx' = ctx \<or> (\<exists>ip. ctx' = ctx\<lparr>target_ip := Some ip\<rparr>)"
    using assms by (auto simp: resolve_context_def rbind_eq_Ok split: option.splits prod.splits res.splits)
  then show "anonymous ctx' = anonymous ctx" "target_domain ctx' = target_domain ctx" by (auto simp: anonymous_def)
qed

fun dead_condition :: "('re, 'net) Matcher \<Rightarrow> bool" where
  "dead_condition (NetworkM ns) \<longleftrightarrow> [] \<notin> set ns"
| "dead_condition (UserM us) \<longleftrightarrow> True"
| "dead_condition _ \<longleftrightarrow> False"

definition dead_rule :: "('re, 'net) RouteRule \<Rightarrow> bool" where
  "dead_rule r \<longleftrightarrow> list_ex dead_condition (conditions r)"

definition drop_dead :: "('re, 'net, 's) DefaultDispatcher \<Rightarrow> ('re, 'net, 's) DefaultDispatcher" where
  "drop_dead d = d\<lparr>router_rules := filter (\<lambda>r. \<not> dead_rule r) (router_rules d)\<rparr>"

lemma drop_dead_simps [simp]:
  "domain_strategy (drop_dead d) = domain_strategy d" "dns_resolver_state (drop_dead d) = dns_resolver_state d"
  "fake_dns (drop_dead d) = fake_dns d" "balancers (drop_dead d) = balancers d"
  "router_rules (drop_dead d) = filter (\<lambda>r. \<not> dead_rule r) (router_rules d)"
  by (simp_all add: drop_dead_def)

lemma dead_condition_fails: "anonymous ctx \<Longrightarrow> dead_condition c \<Longrightarrow> \<not> matches e ctx c"
  by (cases c) (auto simp: anonymous_def)

lemma dead_rule_fails: "anonymous ctx \<Longrightarrow> dead_rule r \<Longrightarrow> \<not> rule_matches e ctx r"
  by (auto simp: rule_matches_def dead_rule_def list_all_iff list_ex_iff dest: dead_condition_fails)

lemma pick_route_drop_dead:
  "anonymous ctx \<Longrightarrow> pick_route e ctx (filter (\<lambda>r. \<not> dead_rule r) rules) = pick_route e ctx rules"
  by (induction rules) (auto simp: matches_and_notify_def dead_rule_fails split: prod.splits)

lemma drop_dead_balancers: "drop_dead d\<lparr>balancers := b\<rparr> = drop_dead (d\<lparr>balancers := b\<rparr>)"
  by (simp add: drop_dead_def)

lemma pick_outbound_tag_drop_dead:
  "anonymous ctx \<Longrightarrow> pick_outbound_tag e pk ctx s (drop_dead d) =
     (case pick_outbound_tag e pk ctx s d of (t, s', d', calls) \<Rightarrow> (t, s', drop_dead d', calls))"
  by (auto simp: pick_outbound_tag_def pick_route_drop_dead drop_dead_balancers Let_def split: prod.splits option.splits)

lemma resolve_context_drop_dead:
  "resolve_context resolve ctx (drop_dead d) = (case resolve_context resolve ctx d of (r, d') \<Rightarrow> (r, drop_dead d'))"
  by (auto simp: resolve_context_def drop_dead_def split: prod.splits option.splits)

lemma enrich_drop_dead [simp]: "enrich_with_fake_dns c (drop_dead d) ctx = enrich_with_fake_dns c d ctx"
  by (simp add: enrich_with_fake_dns_def)

lemma pick_outbound_tag_strategy:
  "pick_outbound_tag e pk ctx s d = (t, s', d', calls) \<Longrightarrow> domain_strategy d' = domain_strategy d"
  by (auto simp: pick_outbound_tag_def Let_def split: prod.splits option.splits if_splits)

text \<open>Rules on the network or the user are dead: since the routing context of a session carries neither,
  removing every rule that has such a condition (other than one naming the empty network) changes
  nothing about a dispatch, neither the handler and session, nor the webhooks called, nor the state
  left behind.\<close>
theorem network_user_rules_dead:
  "routed_dispatch e pk resolve gh dh contended session (drop_dead d) =
     (case routed_dispatch e pk resolve gh dh contended session d of (r, d', calls) \<Rightarrow> (r, drop_dead d', calls))"
proof -
  define ctx where "ctx = enrich_with_fake_dns contended d (build_routing_context session)"
  have a: "anonymous ctx" by (simp add: ctx_def)
  define first where "first = (if domain_strategy d = IpOnDemand then resolve_context resolve ctx d else (Some (Ok ctx), d))"
  have f: "(if domain_strategy d = IpOnDemand then resolve_context resolve ctx (drop_dead d) else (Some (Ok ctx), drop_dead d))
      = (fst first, drop_dead (snd first))"
    by (simp add: first_def resolve_context_drop_dead split: prod.splits)
  have ok: "anonymous ctx'" if "fst first = Some (Ok ctx')" for ctx'
    using that a resolve_context_Ok(1) [of resolve ctx d ctx' "snd first"]
    by (cases "domain_strategy d = IpOnDemand") (auto simp: first_def prod_eq_iff)
  obtain r1 d1 where p: "first = (r1, d1)" by (cases first)
  show ?thesis
  proof (cases "\<exists>c. r1 = Some (Ok c)")
    case False
    then show ?thesis
      using f p by (auto simp: routed_dispatch_def ctx_def [symmetric] first_def [symmetric] split: option.splits res.splits)
  next
    case True
    then obtain c where c: "r1 = Some (Ok c)" by blast
    with ok p have ac: "anonymous c" by simp
    obtain t s' d2 calls where pt: "pick_outbound_tag e pk c session d1 = (t, s', d2, calls)"
      by (cases "pick_outbound_tag e pk c session d1")
    obtain r2 d3 where rc: "resolve_context resolve c d2 = (r2, d3)" by (cases "resolve_context resolve c d2")
    show ?thesis
      using f p c pt ac rc resolve_context_Ok(1) [of resolve c d2 _ d3]
      by (auto simp: routed_dispatch_def ctx_def [symmetric] first_def [symmetric] pick_outbound_tag_drop_dead
          resolve_context_drop_dead split: option.splits res.splits prod.splits)
  qed
qed

section \<open>Sequences of dispatches\<close>

primrec dispatches ::
  "('re, 'net) ext \<Rightarrow> (string \<Rightarrow> 's \<Rightarrow> (DnsError, IpAddr list) res option \<times> 's) \<Rightarrow> (string \<Rightarrow> 'h option) \<Rightarrow> 'h option \<Rightarrow>
   ('f pick_env \<times> bool \<times> Session) list \<Rightarrow> ('re, 'net, 's) DefaultDispatcher \<Rightarrow> (string, 'h \<times> Session) res option list" where
  "dispatches e resolve gh dh [] d = []"
| "dispatches e resolve gh dh (x # xs) d =
     (case routed_dispatch e (fst x) resolve gh dh (fst (snd x)) (snd (snd x)) d of (r, d', _) \<Rightarrow>
        r # dispatches e resolve gh dh xs d')"

lemma choose_handler_no_panic [simp]: "choose_handler gh dh t s \<noteq> Panic"
  by (simp add: choose_handler_def split: option.splits)

lemma pick_outbound_tag_resolver:
  "pick_outbound_tag e pk ctx s d = (t, s', d', calls) \<Longrightarrow> dns_resolver_state d' = dns_resolver_state d"
  by (auto simp: pick_outbound_tag_def Let_def split: prod.splits option.splits if_splits)

context dns_resolver
begin

definition state_ok :: "('re, 'net, 's) DefaultDispatcher \<Rightarrow> bool" where
  "state_ok d \<longleftrightarrow> (case dns_resolver_state d of None \<Rightarrow> True | Some s \<Rightarrow> res_ok s)"

lemma resolve_context_ok:
  assumes "state_ok d" and "resolve_context resolve ctx d = (r, d')"
  shows "state_ok d'" and "r = None \<or> (\<exists>c. r = Some (Ok c))"
proof -
  show "state_ok d'"
    using assms resolve_keeps by (auto simp: resolve_context_def state_ok_def split: option.splits prod.splits) (metis snd_conv)+
  have a: "resolve dom s = (a, s') \<Longrightarrow> res_ok s \<Longrightarrow> a \<noteq> Some Panic \<and> a \<noteq> Some (Ok [])" for dom s a s'
    using resolve_nonempty [of s dom] resolve_no_panic [of s dom] by simp
  have b: "ips \<noteq> [] \<Longrightarrow> \<exists>ip. choose_ip ips = Ok ip" for ips by (auto simp: choose_ip_def split: option.splits)
  show "r = None \<or> (\<exists>c. r = Some (Ok c))"
  proof (cases "target_domain ctx = None \<or> target_ip ctx \<noteq> None \<or> dns_resolver_state d = None")
    case True
    then show ?thesis using assms(2) by (auto simp: resolve_context_def split: option.splits)
  next
    case False
    then obtain dom st where f: "target_domain ctx = Some dom" "target_ip ctx = None" "dns_resolver_state d = Some st" by auto
    obtain ans st' where rs: "resolve dom st = (ans, st')" by (cases "resolve dom st")
    have "ans \<noteq> Some Panic" "ans \<noteq> Some (Ok [])" using a [OF rs] f assms(1) by (auto simp: state_ok_def)
    then show ?thesis
      using assms(2) f rs b by (cases ans) (fastforce simp: resolve_context_def rbind_eq_Ok split: res.splits)+
  qed
qed

lemma routed_dispatch_ok:
  assumes ok: "state_ok d" and rd: "routed_dispatch e pk resolve gh dh contended session d = (r, d', calls)"
  shows "state_ok d' \<and> r \<noteq> Some Panic"
proof -
  define ctx where "ctx = enrich_with_fake_dns contended d (build_routing_context session)"
  obtain r1 d1 where p: "(if domain_strategy d = IpOnDemand then resolve_context resolve ctx d else (Some (Ok ctx), d)) = (r1, d1)"
    by (cases "if domain_strategy d = IpOnDemand then resolve_context resolve ctx d else (Some (Ok ctx), d)")
  have d1: "state_ok d1" and r1: "r1 = None \<or> (\<exists>c. r1 = Some (Ok c))"
    using p resolve_context_ok [OF ok, of ctx r1 d1] ok by (auto split: if_splits)
  from r1 show ?thesis
  proof
    assume "r1 = None"
    then show ?thesis using rd p d1 by (simp add: routed_dispatch_def ctx_def [symmetric] no_context_def)
  next
    assume "\<exists>c. r1 = Some (Ok c)"
    then obtain c where c: "r1 = Some (Ok c)" ..
    obtain t s' d2 calls' where pt: "pick_outbound_tag e pk c session d1 = (t, s', d2, calls')"
      by (cases "pick_outbound_tag e pk c session d1")
    have d2: "state_ok d2" using d1 pick_outbound_tag_resolver [OF pt] by (simp add: state_ok_def)
    obtain r2 d3 where rc: "resolve_context resolve c d2 = (r2, d3)" by (cases "resolve_context resolve c d2")
    note r2 = resolve_context_ok [OF d2 rc]
    show ?thesis
    proof (cases "t = [] \<and> domain_strategy d2 = IpIfNonMatch")
      case False
      then show ?thesis using rd p c pt d2 by (auto simp: routed_dispatch_def ctx_def [symmetric])
    next
      case True
      have pk: "state_ok d4" if "pick_outbound_tag e pk c' s' d3 = (t', s'', d4, calls'')" for c' t' s'' d4 calls''
        using r2(1) pick_outbound_tag_resolver [OF that] by (simp add: state_ok_def)
      from r2(2) show ?thesis
        using True rd p c pt rc r2(1) pk
        by (auto simp: routed_dispatch_def ctx_def [symmetric] no_context_def split: prod.splits)
    qed
  qed
qed

lemma dispatches_no_panic: "state_ok d \<Longrightarrow> Some Panic \<notin> set (dispatches e resolve gh dh xs d)"
proof (induction xs arbitrary: d)
  case (Cons x xs)
  obtain r d' calls where "routed_dispatch e (fst x) resolve gh dh (fst (snd x)) (snd (snd x)) d = (r, d', calls)"
    by (cases "routed_dispatch e (fst x) resolve gh dh (fst (snd x)) (snd (snd x)) d")
  moreover from this have "state_ok d'" "r \<noteq> Some Panic" using routed_dispatch_ok [OF Cons.prems] by blast+
  ultimately show ?case using Cons.IH [of d'] by auto
qed simp

end

text \<open>Dispatching never panics on an answer of the DNS: with the UDP resolver built from any list of servers
  and any hosts table read from the configuration, no sequence of dispatches panics, whatever the servers
  answer (the dispatcher indexes the first address of an answer without a check).\<close>
theorem dispatch_udp_resolver_no_panic:
  assumes "parse_hosts lc hosts_json = Ok hosts"
    and "dns_resolver_state d = Some (UdpDnsResolver_new nss hosts qst dis par df dfm, w)"
  shows "Some Panic \<notin> set (dispatches e (udp_resolve lc env fuel) gh dh xs d)"
proof (rule udp.dispatches_no_panic)
  have "resolver_ok (UdpDnsResolver_new nss hosts qst dis par df dfm, w)"
    using parse_hosts_ok [OF assms(1)] by (simp add: resolver_ok_def UdpDnsResolver_new_def)
  with assms(2) show "udp.state_ok d" by (simp add: udp.state_ok_def)
qed

theorem dispatch_udp_resolver_no_panic_witness:
  "let d = \<lparr>router_rules = [] :: (unit, unit) RouteRule list, domain_strategy = IpOnDemand,
            dns_resolver_state = Some (UdpDnsResolver_new [] [] UseIp False False False False, ()), fake_dns = None, balancers = []\<rparr>;
       env = \<lparr>draw_id = \<lambda>w. (0, w), udp_exchange = \<lambda>_ _ w. (Inr [], w), tcp_exchange = \<lambda>_ _ w. (Inr ([], DnsTimeout), w),
             http_exchange = \<lambda>_ _ w. (Inl DnsTimeout, w), status_text = \<lambda>_. [], clock = \<lambda>_. 0\<rparr>
   in \<forall>e (xs :: (nat pick_env \<times> bool \<times> Session) list).
        Some Panic \<notin> set (dispatches e (udp_resolve id env 9) Some (Some ''direct'') xs d)"
proof -
  have "parse_hosts id None = Ok []" by (simp add: parse_hosts_def)
  then show ?thesis unfolding Let_def
    by (intro allI dispatch_udp_resolver_no_panic [where hosts_json = None and w = "()"]) auto
qed

section \<open>The handler chosen\<close>

text \<open>The tag a context is routed to: the first deciding rule's target, through its balancer if it names one.\<close>

definition balanced :: "'f pick_env \<Rightarrow> (string \<times> Balancer) list \<Rightarrow> string \<Rightarrow> string" where
  "balanced pk bs t =
     (case map_of bs t of
        None \<Rightarrow> t
      | Some b \<Rightarrow> (case fst (Balancer_pick (nanos pk) (score_lt pk) (score_of pk) (score_max pk) b) of Some x \<Rightarrow> x | None \<Rightarrow> t))"

definition routed_tag :: "('re, 'net) ext \<Rightarrow> 'f pick_env \<Rightarrow> RoutingContext \<Rightarrow> ('re, 'net, 's) DefaultDispatcher \<Rightarrow> string" where
  "routed_tag e pk ctx d =
     (case find (decides e ctx) (router_rules d) of None \<Rightarrow> [] | Some r \<Rightarrow> balanced pk (balancers d) (rule_target r))"

lemma pick_route_find:
  "fst (pick_route e ctx rules) =
     map_option (\<lambda>r. \<lparr>res_outbound_tag = rule_target r, res_rule_tag = rule_tag r\<rparr>) (find (decides e ctx) rules)"
proof (induction rules)
  case (Cons r rs)
  then show ?case by (simp add: pick_route_unfold del: pick_route.simps)
qed simp

lemma pick_outbound_tag_routed: "fst (pick_outbound_tag e pk ctx s d) = routed_tag e pk ctx d"
proof (cases "find (decides e ctx) (router_rules d)")
  case None
  then have "fst (pick_route e ctx (router_rules d)) = None" by (simp add: pick_route_find)
  with None show ?thesis by (cases "pick_route e ctx (router_rules d)") (simp add: pick_outbound_tag_def routed_tag_def)
next
  case (Some r)
  then have "fst (pick_route e ctx (router_rules d)) = Some \<lparr>res_outbound_tag = rule_target r, res_rule_tag = rule_tag r\<rparr>"
    by (simp add: pick_route_find)
  moreover have "rule_target r \<noteq> []" using Some by (auto simp: find_Some_iff decides_def)
  ultimately show ?thesis
    using Some by (cases "pick_route e ctx (router_rules d)")
      (auto simp: pick_outbound_tag_def routed_tag_def balanced_def Let_def split: option.splits prod.splits)
qed

lemma pick_outbound_tag_session:
  "fst (snd (pick_outbound_tag e pk ctx s d)) =
     (if find (decides e ctx) (router_rules d) = None then s else set_ob_tag (routed_tag e pk ctx d) s)"
proof (cases "find (decides e ctx) (router_rules d)")
  case None
  then have "fst (pick_route e ctx (router_rules d)) = None" by (simp add: pick_route_find)
  with None show ?thesis by (cases "pick_route e ctx (router_rules d)") (simp add: pick_outbound_tag_def)
next
  case (Some r)
  then have f: "fst (pick_route e ctx (router_rules d)) = Some \<lparr>res_outbound_tag = rule_target r, res_rule_tag = rule_tag r\<rparr>"
    by (simp add: pick_route_find)
  have t: "rule_target r \<noteq> []" using Some by (auto simp: find_Some_iff decides_def)
  have twice: "set_ob_tag a (set_ob_tag b s) = set_ob_tag a s" for a b
    by (cases "outbound s") (simp_all add: set_ob_tag_def)
  show ?thesis
    using Some f t twice by (cases "pick_route e ctx (router_rules d)")
      (auto simp: pick_outbound_tag_def routed_tag_def balanced_def Let_def split: option.splits prod.splits)
qed



section \<open>Fake addresses and routing\<close>

text \<open>Fake addresses are routed by name: when the fake resolver, over any interleaving of its requests, has
  answered an address for a name, a later session to that address is routed with the name as its target
  domain, as long as the address is recognised as fake (its first two octets are the pool's) and the
  reverse map is not locked at that moment.\<close>
theorem fake_address_routed_by_name:
  assumes "reach fake_init fake_step s" and "Suc (draws s) < 2 ^ 32" and "(domain, ip) \<in> set (answers s)"
    and "fake_dns d = Some (fd s)" and "is_fake_ip ip (fd s)" and "target_ip ctx = Some ip"
  shows "target_domain (enrich_with_fake_dns False d ctx) = Some domain"
  using fake_answers_spec [OF assms(1-3)] assms(4-6) by (simp add: enrich_with_fake_dns_def)

theorem fake_address_routed_by_name_witness:
  "target_domain (enrich_with_fake_dns False
      (\<lparr>router_rules = [], domain_strategy = AsIs, dns_resolver_state = None, fake_dns = Some (fd fake_sample), balancers = []\<rparr> ::
        (unit, unit, unit) DefaultDispatcher)
      (RoutingContext_default\<lparr>target_ip := Some (V4 [198, 18, 0, 1])\<rparr>)) = Some ''a''"
  by (rule fake_address_routed_by_name [OF fake_sample_reach]) (simp_all add: fake_sample_facts)

end
