(* ===== verification/Reverse.thy ===== *)
theory Reverse
  imports Dispatcher
begin

text \<open>
  \<^verbatim>\<open>astra-core-app-reverse\<close>: control messages, the portal with the workers it picks from, and the bridge: its sessions and the list of its workers under the two tasks that
  touch it. A multiplexing client is a number, and which ones are done is an argument; the multiplexer itself is modelled in the theories of \<^verbatim>\<open>astra-core-mux\<close>.
\<close>

section \<open>Control messages\<close>

datatype ControlState = Control_Active | Control_Drain

record Control =
  ctl_state :: ControlState
  ctl_random :: "u8 list"

definition Control_new :: "ControlState \<Rightarrow> u64 \<Rightarrow> (nat \<Rightarrow> u8) \<Rightarrow> Control" where
  "Control_new st r bytes = \<lparr>ctl_state = st, ctl_random = map bytes [0..<unat (r mod 64) + 1]\<rparr>"

definition Control_encode :: "Control \<Rightarrow> u8 list" where
  "Control_encode c =
     (case ctl_state c of Control_Active \<Rightarrow> 0 | Control_Drain \<Rightarrow> 1) # to_be16 (word_of_nat (length (ctl_random c))) @ ctl_random c"

definition Control_decode :: "u8 list \<Rightarrow> Control option" where
  "Control_decode data =
     (if length data < 3 then None
      else case (if data ! 0 = 0 then Some Control_Active else if data ! 0 = 1 then Some Control_Drain else None) of
        None \<Rightarrow> None
      | Some st \<Rightarrow>
          let len = unat (be16_at 1 data) in
          if length data < 3 + len then None else Some \<lparr>ctl_state = st, ctl_random = take len (drop 3 data)\<rparr>)"

definition INTERNAL_DOMAIN :: string where "INTERNAL_DOMAIN = ''reverse''"

definition is_internal_domain :: "Destination \<Rightarrow> bool" where
  "is_internal_domain dest \<longleftrightarrow> as_domain (address dest) = Some INTERNAL_DOMAIN"

section \<open>The portal\<close>

record portal_worker =
  pw_client :: nat
  pw_draining :: bool

definition PortalWorker_new :: "nat \<Rightarrow> portal_worker" where
  "PortalWorker_new client = \<lparr>pw_client = client, pw_draining = False\<rparr>"

definition add_worker :: "portal_worker \<Rightarrow> portal_worker list \<Rightarrow> portal_worker list" where
  "add_worker w ws = ws @ [w]"

definition pick_available :: "(nat \<Rightarrow> bool) \<Rightarrow> portal_worker list \<Rightarrow> portal_worker option" where
  "pick_available is_done ws = find (\<lambda>w. \<not> pw_draining w \<and> \<not> is_done (pw_client w)) ws"

definition cleanup :: "(nat \<Rightarrow> bool) \<Rightarrow> portal_worker list \<Rightarrow> portal_worker list" where
  "cleanup is_done ws = filter (\<lambda>w. \<not> is_done (pw_client w)) ws"

text \<open>What becomes of a session: its link is the connection of a new client, or it is relayed over a stream of a client. \<open>client\<close> is the number a new client would get,
  \<open>opens\<close> says which clients open a stream.\<close>

datatype portal_result = Registered nat | Relayed nat

definition portal_process ::
  "string \<Rightarrow> (nat \<Rightarrow> bool) \<Rightarrow> (nat \<Rightarrow> bool) \<Rightarrow> nat \<Rightarrow> Session \<Rightarrow> portal_worker list \<Rightarrow> (string, portal_result) res \<times> portal_worker list" where
  "portal_process domain is_done opens client session ws =
     (case map_option ob_target (outbound session) of
        None \<Rightarrow> (Err ''no target'', ws)
      | Some target \<Rightarrow>
          if as_domain (address target) = Some domain then (Ok (Registered client), add_worker (PortalWorker_new client) ws)
          else case pick_available is_done ws of
            Some w \<Rightarrow> if opens (pw_client w) then (Ok (Relayed (pw_client w)), ws) else (Err ''no reverse worker available'', ws)
          | None \<Rightarrow> (Err ''no reverse worker available'', ws))"

definition portal_process_udp :: "(string, unit) res" where
  "portal_process_udp = Err ''reverse portal udp not supported''"

section \<open>The bridge\<close>

definition Session_default :: Session where
  "Session_default = \<lparr>inbound = None, outbound = None, content = None\<rparr>"

definition bridge_placeholder :: Destination where
  "bridge_placeholder = TcpDestination (Domain_a ''placeholder.adapter'') (Port 0)"

text \<open>A new session of the multiplexer: what is dispatched for it. \<open>attach\<close> is whether the session exists and took its channels.\<close>

definition bridge_session :: "(u16 \<Rightarrow> bool) \<Rightarrow> u16 \<Rightarrow> (Session \<times> Destination) list" where
  "bridge_session attach sid = (if attach sid then [(Session_default, bridge_placeholder)] else [])"

text \<open>The loop over announced sessions, each with whether the multiplexer is done by then.\<close>

fun bridge_run :: "(u16 \<Rightarrow> bool) \<Rightarrow> (u16 \<times> bool) list \<Rightarrow> (Session \<times> Destination) list" where
  "bridge_run attach [] = []"
| "bridge_run attach ((sid, fin) # ss) = (if fin then [] else bridge_session attach sid @ bridge_run attach ss)"

record bridge_worker =
  bw_connections :: u32
  bw_closed :: bool

record Bridge =
  br_workers :: "bridge_worker list"
  br_running :: bool

definition Bridge_new :: Bridge where
  "Bridge_new = \<lparr>br_workers = [], br_running = True\<rparr>"

text \<open>The main loop dispatched to the portal's domain, with success or not; the monitor looked at the workers; the bridge was closed.\<close>

datatype bridge_event = Bridge_dispatch bool | Bridge_monitor | Bridge_close

definition bridge_target :: "string \<Rightarrow> Destination" where
  "bridge_target domain = TcpDestination (Domain_a domain) (Port 0)"

fun bridge_step :: "Bridge \<Rightarrow> bridge_event \<Rightarrow> Bridge" where
  "bridge_step b (Bridge_dispatch ok) =
     (if br_running b \<and> ok then b\<lparr>br_workers := br_workers b @ [\<lparr>bw_connections = 0, bw_closed = False\<rparr>]\<rparr> else b)"
| "bridge_step b Bridge_monitor = (if br_running b then b\<lparr>br_workers := filter (\<lambda>w. \<not> bw_closed w) (br_workers b)\<rparr> else b)"
| "bridge_step b Bridge_close = b\<lparr>br_running := False\<rparr>"

section \<open>Properties\<close>

lemma control_roundtrip:
  assumes "length (ctl_random c) \<le> 65535"
  shows "Control_decode (Control_encode c @ rest) = Some c"
proof -
  have n: "unat (word_of_nat (length (ctl_random c)) :: u16) = length (ctl_random c)" using assms by (rule unat_u16)
  have b: "be16_at (Suc 0) (x # to_be16 w @ ctl_random c @ rest) = w" for x :: u8 and w using be16_at_append [of "[x]" "Suc 0" w] by simp
  show ?thesis using n by (cases "ctl_state c") (simp_all add: Control_decode_def Control_encode_def b Let_def)
qed

lemma control_new_roundtrip: "Control_decode (Control_encode (Control_new st r bytes)) = Some (Control_new st r bytes)"
proof -
  have "unat (r mod 64) < 64" by (simp add: unat_mod)
  then have "length (ctl_random (Control_new st r bytes)) \<le> 65535" by (simp add: Control_new_def)
  from control_roundtrip [OF this, of "[]"] show ?thesis by simp
qed

text \<open>A portal relays over the first client that is not done, in the order in which they came in; it never relays a session for its own domain.\<close>

lemma pick_first:
  assumes "\<forall>w \<in> set ws. \<not> pw_draining w" and "pick_available is_done ws = Some w"
  shows "\<exists>a b. ws = a @ w # b \<and> (\<forall>v \<in> set a. is_done (pw_client v)) \<and> \<not> is_done (pw_client w)"
  using assms
proof (induction ws)
  case (Cons v ws)
  show ?case
  proof (cases "is_done (pw_client v)")
    case True
    then obtain a b where "ws = a @ w # b \<and> (\<forall>v \<in> set a. is_done (pw_client v)) \<and> \<not> is_done (pw_client w)" using Cons by (auto simp: pick_available_def)
    then show ?thesis using True by (intro exI [of _ "v # a"] exI [of _ b]) auto
  next
    case False
    then show ?thesis using Cons.prems by (intro exI [of _ "[]"] exI [of _ ws]) (auto simp: pick_available_def)
  qed
qed (simp add: pick_available_def)

fun portal_run :: "string \<Rightarrow> (nat \<Rightarrow> bool) \<Rightarrow> (nat \<Rightarrow> bool) \<Rightarrow> nat \<Rightarrow> Session list \<Rightarrow> portal_worker list \<Rightarrow> portal_worker list" where
  "portal_run domain is_done opens n [] ws = ws"
| "portal_run domain is_done opens n (s # ss) ws = portal_run domain is_done opens (Suc n) ss (snd (portal_process domain is_done opens n s ws))"

text \<open>No worker is ever removed or drained: the list has one for each session to the portal's domain, whether its client is done or not.\<close>

definition to_portal :: "string \<Rightarrow> Session \<Rightarrow> bool" where
  "to_portal domain s \<longleftrightarrow> (\<exists>ob. outbound s = Some ob \<and> as_domain (address (ob_target ob)) = Some domain)"

lemma portal_keeps_workers:
  "length (portal_run domain is_done opens n ss ws) = length ws + length (filter (to_portal domain) ss)"
proof (induction ss arbitrary: n ws)
  case (Cons s ss)
  have "length (snd (portal_process domain is_done opens n s ws)) = length ws + (if to_portal domain s then 1 else 0)"
    by (auto simp: portal_process_def to_portal_def add_worker_def split: option.split)
  then show ?case using Cons by simp
qed simp

lemma portal_never_drains:
  "\<forall>w \<in> set ws. \<not> pw_draining w \<Longrightarrow> \<forall>w \<in> set (portal_run domain is_done opens n ss ws). \<not> pw_draining w"
proof (induction ss arbitrary: n ws)
  case (Cons s ss)
  have "\<forall>w \<in> set (snd (portal_process domain is_done opens n s ws)). \<not> pw_draining w"
    using Cons.prems by (auto simp: portal_process_def add_worker_def PortalWorker_new_def split: option.split)
  then show ?case using Cons.IH by simp
qed simp

text \<open>Every session of a bridge is dispatched to one and the same placeholder, whatever target the portal sent.\<close>

lemma bridge_placeholder_only: "set (bridge_run attach ss) \<subseteq> {(Session_default, bridge_placeholder)}"
  by (induction attach ss rule: bridge_run.induct) (auto simp: bridge_session_def)

text \<open>No worker of a bridge is ever closed, so the monitor removes none.\<close>

lemma bridge_workers_grow:
  "br_workers (foldl bridge_step Bridge_new evs) =
   replicate (length (filter (\<lambda>e. e = Bridge_dispatch True) (takeWhile (\<lambda>e. e \<noteq> Bridge_close) evs))) \<lparr>bw_connections = 0, bw_closed = False\<rparr>"
proof (induction evs rule: rev_induct)
  case (snoc e evs)
  have run: "br_running (foldl bridge_step Bridge_new evs) \<longleftrightarrow> Bridge_close \<notin> set evs" for evs
  proof (induction evs rule: rev_induct)
    case (snoc e evs)
    then show ?case by (cases e) auto
  qed (simp add: Bridge_new_def)
  have tw: "takeWhile (\<lambda>e. e \<noteq> Bridge_close) (evs @ [e]) =
    (if Bridge_close \<in> set evs then takeWhile (\<lambda>e. e \<noteq> Bridge_close) evs else evs @ (if e = Bridge_close then [] else [e]))" "Bridge_close \<notin> set evs \<Longrightarrow> takeWhile (\<lambda>e. e \<noteq> Bridge_close) evs = evs"
    by (auto simp: takeWhile_append)
  show ?case using snoc run [of evs] tw by (cases e) (auto simp: replicate_append_same simp del: takeWhile_eq_all_conv)
qed (simp add: Bridge_new_def)

end
