(* ===== verification/Split_Queue.thy ===== *)
theory Split_Queue
  imports Prelude "HOL-Library.Multiset" "HOL-Library.Sublist"
begin

text \<open>
  \<^verbatim>\<open>transport-splithttp\<close>, the parts that order and cut a stream: the upload queue of a session (\<^verbatim>\<open>upload_queue.rs\<close>), the
  table of sessions (\<^verbatim>\<open>session.rs\<close>) and the dialer's upload loop (\<^verbatim>\<open>dialer.rs\<close>).
\<close>

section \<open>The heap\<close>

record Packet =
  pk_seq :: u64
  pk_data :: "u8 list"

text \<open>
  \<^verbatim>\<open>BinaryHeap\<close> with the reversed order of packets, as far as its users can see it: a list ordered by sequence number. Which of
  two packets with the same number is on top is not specified, and nothing below depends on it.
\<close>

type_synonym heap = "Packet list"

definition heap_push :: "Packet \<Rightarrow> heap \<Rightarrow> heap" where
  "heap_push p h = insort_key pk_seq p h"

fun heap_peek :: "heap \<Rightarrow> Packet option" where
  "heap_peek [] = None"
| "heap_peek (p # _) = Some p"

definition heap_pop :: "heap \<Rightarrow> heap" where
  "heap_pop h = tl h"

definition heap_inv :: "heap \<Rightarrow> bool" where
  "heap_inv h \<longleftrightarrow> sorted (map pk_seq h)"

text \<open>What the queue relies on: the top has the least number, push and pop change the contents by one packet.\<close>

locale min_heap =
  fixes key :: "'p \<Rightarrow> 'k :: linorder"
    and push :: "'p \<Rightarrow> 'h \<Rightarrow> 'h"
    and peek :: "'h \<Rightarrow> 'p option"
    and pop :: "'h \<Rightarrow> 'h"
    and items :: "'h \<Rightarrow> 'p multiset"
    and inv :: "'h \<Rightarrow> bool"
  assumes items_push: "items (push p h) = add_mset p (items h)"
    and inv_push: "inv h \<Longrightarrow> inv (push p h)"
    and items_pop: "peek h = Some p \<Longrightarrow> items h = add_mset p (items (pop h))"
    and inv_pop: "inv h \<Longrightarrow> inv (pop h)"
    and peek_None: "peek h = None \<longleftrightarrow> items h = {#}"
    and peek_min: "inv h \<Longrightarrow> peek h = Some p \<Longrightarrow> q \<in># items h \<Longrightarrow> key p \<le> key q"
begin

lemma peek_in: "peek h = Some p \<Longrightarrow> p \<in># items h"
  using items_pop by fastforce

lemma peek_below:
  assumes "inv h" and "p \<in># items h"
  shows "\<exists>q. peek h = Some q \<and> q \<in># items h \<and> key q \<le> key p"
proof -
  obtain q where "peek h = Some q" using assms(2) peek_None [of h] by (cases "peek h") auto
  then show ?thesis using peek_in peek_min [OF assms(1) _ assms(2)] by blast
qed

text \<open>A packet with the least possible number is on top.\<close>

lemma peek_least:
  assumes "inv h" and "p \<in># items h" and "\<And>q. q \<in># items h \<Longrightarrow> key p \<le> key q"
  shows "\<exists>q. peek h = Some q \<and> key q = key p"
  using peek_below [OF assms(1,2)] assms(3) by force

end

interpretation ph: min_heap pk_seq heap_push heap_peek heap_pop mset heap_inv
proof
  show "mset (heap_push p h) = add_mset p (mset h)" for p h by (simp add: heap_push_def)
  show "heap_inv h \<Longrightarrow> heap_inv (heap_push p h)" for p h by (simp add: heap_inv_def heap_push_def sorted_insort_key)
  show "heap_peek h = Some p \<Longrightarrow> mset h = add_mset p (mset (heap_pop h))" for p h by (cases h) (auto simp: heap_pop_def)
  show "heap_inv h \<Longrightarrow> heap_inv (heap_pop h)" for h by (cases h) (auto simp: heap_inv_def heap_pop_def)
  show "heap_peek h = None \<longleftrightarrow> mset h = {#}" for h by (cases h) auto
  show "heap_inv h \<Longrightarrow> heap_peek h = Some p \<Longrightarrow> q \<in># mset h \<Longrightarrow> pk_seq p \<le> pk_seq q" for h p q
    by (cases h) (auto simp: heap_inv_def)
qed

section \<open>The upload queue (upload\_queue.rs)\<close>

record UploadQueue =
  uq_heap :: heap
  next_seq :: u64
  max_packets :: usize

definition UploadQueue_new :: UploadQueue where
  "UploadQueue_new = \<lparr>uq_heap = [], next_seq = 0, max_packets = 128\<rparr>"

definition uq_push :: "u64 \<Rightarrow> u8 list \<Rightarrow> UploadQueue \<Rightarrow> UploadQueue" where
  "uq_push seq data q =
     (if seq < next_seq q then q
      else if length (uq_heap q) \<ge> max_packets q then q
      else q\<lparr>uq_heap := heap_push \<lparr>pk_seq = seq, pk_data = data\<rparr> (uq_heap q)\<rparr>)"

definition uq_try_pop :: "UploadQueue \<Rightarrow> u8 list option \<times> UploadQueue" where
  "uq_try_pop q =
     (case heap_peek (uq_heap q) of
        None \<Rightarrow> (None, q)
      | Some p \<Rightarrow>
          if pk_seq p = next_seq q then (Some (pk_data p), q\<lparr>uq_heap := heap_pop (uq_heap q), next_seq := next_seq q + 1\<rparr>)
          else (None, q))"

text \<open>
  What happens to a queue: pushes by the handlers of requests, attempts to pop by the task that feeds the connection (\<^verbatim>\<open>pop\<close>
  repeats them until one succeeds). The result is what was popped and the queue.
\<close>

datatype uq_event = Uq_push u64 "u8 list" | Uq_pop

fun uq_run :: "uq_event list \<Rightarrow> UploadQueue \<Rightarrow> u8 list list \<times> UploadQueue" where
  "uq_run [] q = ([], q)"
| "uq_run (Uq_push s d # es) q = uq_run es (uq_push s d q)"
| "uq_run (Uq_pop # es) q =
     (case uq_try_pop q of (r, q') \<Rightarrow> map_prod ((@) (case r of Some d \<Rightarrow> [d] | None \<Rightarrow> [])) id (uq_run es q'))"

lemma uq_run_append: "uq_run (es @ es') q = (case uq_run es q of (out, q') \<Rightarrow> map_prod ((@) out) id (uq_run es' q'))"
  by (induction es q rule: uq_run.induct) (auto simp: map_prod_def split: prod.splits)

text \<open>
  \<open>uq_pop n\<close> is \<^verbatim>\<open>pop\<close> given \<open>n\<close> rounds of its loop: nothing when they are used up.
\<close>

fun uq_pop :: "nat \<Rightarrow> UploadQueue \<Rightarrow> (u8 list \<times> UploadQueue) option" where
  "uq_pop 0 q = None"
| "uq_pop (Suc n) q = (case uq_try_pop q of (Some d, q') \<Rightarrow> Some (d, q') | (None, q') \<Rightarrow> uq_pop n q')"

section \<open>Order of delivery\<close>

definition genuine :: "u8 list list \<Rightarrow> u64 \<Rightarrow> u8 list \<Rightarrow> bool" where
  "genuine chunks s d \<longleftrightarrow> unat s < length chunks \<and> d = chunks ! unat s"

definition uq_ok :: "u8 list list \<Rightarrow> UploadQueue \<Rightarrow> bool" where
  "uq_ok chunks q \<longleftrightarrow> heap_inv (uq_heap q) \<and> unat (next_seq q) \<le> length chunks \<and>
     (\<forall>p \<in># mset (uq_heap q). genuine chunks (pk_seq p) (pk_data p))"

lemma unat_next: "unat (w :: u64) < n \<Longrightarrow> n < 2 ^ 64 \<Longrightarrow> unat (w + 1) = Suc (unat w)"
proof -
  assume b: "unat w < n" "n < 2 ^ 64"
  have "1 + w \<noteq> 0"
  proof
    assume "1 + w = 0"
    then have "w = - 1" by (simp add: eq_neg_iff_add_eq_0 add.commute)
    then have "unat w = 2 ^ 64 - 1" by (simp add: unsigned_minus_1_eq_mask mask_eq_exp_minus_1)
    then show False using b by simp
  qed
  then show ?thesis by (metis unatSuc add.commute)
qed

lemma set_heap_push: "set (heap_push p h) = insert p (set h)" "distinct (map pk_seq (heap_push p h)) \<longleftrightarrow> pk_seq p \<notin> pk_seq ` set h \<and> distinct (map pk_seq h)"
proof -
  show "set (heap_push p h) = insert p (set h)" by (simp add: heap_push_def set_insort_key)
  have "mset (map pk_seq (heap_push p h)) = mset (pk_seq p # map pk_seq h)" by (simp add: heap_push_def)
  then have "distinct (map pk_seq (heap_push p h)) = distinct (pk_seq p # map pk_seq h)" by (rule mset_eq_imp_distinct_iff)
  then show "distinct (map pk_seq (heap_push p h)) \<longleftrightarrow> pk_seq p \<notin> pk_seq ` set h \<and> distinct (map pk_seq h)" by simp
qed

lemma uq_push_ok: "uq_ok chunks q \<Longrightarrow> genuine chunks s d \<Longrightarrow> uq_ok chunks (uq_push s d q)"
  using ph.inv_push [of "uq_heap q" "\<lparr>pk_seq = s, pk_data = d\<rparr>"]
  by (auto simp: uq_push_def uq_ok_def set_heap_push)

lemma uq_try_pop_ok:
  assumes "uq_ok chunks q" and "length chunks < 2 ^ 64" and "uq_try_pop q = (r, q')"
  shows "uq_ok chunks q' \<and> (case r of None \<Rightarrow> q' = q
     | Some d \<Rightarrow> unat (next_seq q') = Suc (unat (next_seq q)) \<and> unat (next_seq q) < length chunks \<and> d = chunks ! unat (next_seq q))"
proof (cases r)
  case None
  then show ?thesis using assms by (auto simp: uq_try_pop_def split: option.splits if_splits)
next
  case (Some d)
  then obtain p where p: "heap_peek (uq_heap q) = Some p" "pk_seq p = next_seq q" "d = pk_data p"
    "q' = q\<lparr>uq_heap := heap_pop (uq_heap q), next_seq := next_seq q + 1\<rparr>"
    using assms(3) by (auto simp: uq_try_pop_def split: option.splits if_splits)
  have g: "genuine chunks (pk_seq p) (pk_data p)" using assms(1) ph.peek_in [OF p(1)] by (simp add: uq_ok_def)
  have "mset (uq_heap q) = add_mset p (mset (heap_pop (uq_heap q)))" by (rule ph.items_pop [OF p(1)])
  then have "set_mset (mset (heap_pop (uq_heap q))) \<subseteq> set_mset (mset (uq_heap q))" by auto
  then show ?thesis using Some assms(1) g p unat_next [OF _ assms(2), of "next_seq q"] ph.inv_pop [of "uq_heap q"]
    by (auto simp: uq_ok_def genuine_def)
qed

lemma uq_run_in_order:
  assumes "uq_ok chunks q" and "length chunks < 2 ^ 64" and "\<forall>s d. Uq_push s d \<in> set es \<longrightarrow> genuine chunks s d"
  shows "uq_ok chunks (snd (uq_run es q)) \<and> unat (next_seq q) \<le> unat (next_seq (snd (uq_run es q))) \<and>
    fst (uq_run es q) = take (unat (next_seq (snd (uq_run es q))) - unat (next_seq q)) (drop (unat (next_seq q)) chunks)"
  using assms
proof (induction es q rule: uq_run.induct)
  case (2 s d es q)
  have "next_seq (uq_push s d q) = next_seq q" by (simp add: uq_push_def)
  then show ?case using 2 uq_push_ok [of chunks q s d] by simp
next
  case (3 es q)
  obtain r q' where rq: "uq_try_pop q = (r, q')" by force
  note ok = uq_try_pop_ok [OF 3(2,3) rq]
  have ih: "uq_ok chunks (snd (uq_run es q')) \<and> unat (next_seq q') \<le> unat (next_seq (snd (uq_run es q'))) \<and>
    fst (uq_run es q') = take (unat (next_seq (snd (uq_run es q'))) - unat (next_seq q')) (drop (unat (next_seq q')) chunks)"
    using "3.IH" [OF rq [symmetric]] ok 3(3,4) by simp
  show ?case
  proof (cases r)
    case None
    then show ?thesis using ih ok rq by simp
  next
    case (Some d)
    let ?n = "unat (next_seq q)" and ?m = "unat (next_seq (snd (uq_run es q')))"
    have n: "unat (next_seq q') = Suc ?n" "?n < length chunks" "d = chunks ! ?n" using ok Some by auto
    have "d # take (?m - Suc ?n) (drop (Suc ?n) chunks) = take (?m - ?n) (drop ?n chunks)"
      using n ih by (subst Cons_nth_drop_Suc [symmetric]) (auto simp: take_Cons' Suc_diff_Suc)
    then show ?thesis using ih n Some rq by auto
  qed
qed simp

text \<open>Nothing gets lost when every sequence number is pushed once and the queue is never full.\<close>

fun never_full :: "uq_event list \<Rightarrow> UploadQueue \<Rightarrow> bool" where
  "never_full [] q \<longleftrightarrow> True"
| "never_full (Uq_push s d # es) q \<longleftrightarrow> length (uq_heap q) < max_packets q \<and> never_full es (uq_push s d q)"
| "never_full (Uq_pop # es) q \<longleftrightarrow> never_full es (snd (uq_try_pop q))"

fun pushed :: "uq_event list \<Rightarrow> nat list" where
  "pushed [] = []"
| "pushed (Uq_push s d # es) = unat s # pushed es"
| "pushed (Uq_pop # es) = pushed es"

definition holds :: "nat set \<Rightarrow> UploadQueue \<Rightarrow> bool" where
  "holds P q \<longleftrightarrow> distinct (map pk_seq (uq_heap q)) \<and> unat ` set (map pk_seq (uq_heap q)) = {s \<in> P. unat (next_seq q) \<le> s} \<and>
     {..< unat (next_seq q)} \<subseteq> P"

lemma holds_push:
  assumes "holds P q" and "unat s \<notin> P" and "length (uq_heap q) < max_packets q"
  shows "holds (insert (unat s) P) (uq_push s d q)"
proof -
  have le: "unat (next_seq q) \<le> unat s" using assms(1,2) by (force simp: holds_def)
  moreover have "s \<notin> pk_seq ` set (uq_heap q)"
  proof
    assume "s \<in> pk_seq ` set (uq_heap q)"
    then have "unat s \<in> unat ` set (map pk_seq (uq_heap q))" by auto
    then show False using assms(1,2) by (simp add: holds_def)
  qed
  ultimately show ?thesis using assms
    by (auto simp: holds_def uq_push_def set_heap_push word_less_nat_alt)
qed

lemma holds_pop:
  assumes "holds P q" and "uq_ok chunks q" and "length chunks < 2 ^ 64"
  shows "holds P (snd (uq_try_pop q))"
proof (cases "uq_try_pop q")
  case (Pair r q')
  show ?thesis
  proof (cases r)
    case None
    then show ?thesis using Pair uq_try_pop_ok [OF assms(2,3) Pair] assms(1) by simp
  next
    case (Some d)
    then obtain p h where p: "uq_heap q = p # h" "pk_seq p = next_seq q" "q' = q\<lparr>uq_heap := h, next_seq := next_seq q + 1\<rparr>"
      using Pair by (cases "uq_heap q") (auto simp: uq_try_pop_def heap_pop_def split: if_splits)
    have n: "unat (next_seq q') = Suc (unat (next_seq q))" using uq_try_pop_ok [OF assms(2,3) Pair] Some by simp
    have "unat ` set (map pk_seq h) = {s \<in> P. unat (next_seq q) \<le> s} - {unat (next_seq q)}"
    proof -
      have "unat (next_seq q) \<notin> unat ` set (map pk_seq h)" using assms(1) p by (auto simp: holds_def simp flip: word_unat_eq_iff)
      moreover have "insert (unat (next_seq q)) (unat ` set (map pk_seq h)) = {s \<in> P. unat (next_seq q) \<le> s}"
        using assms(1) p by (simp add: holds_def)
      ultimately show ?thesis by blast
    qed
    moreover have "unat (next_seq q) \<in> P" using assms(1) p unfolding holds_def by (metis (mono_tags, lifting) image_eqI list.set_intros(1) list.simps(9) mem_Collect_eq)
    ultimately show ?thesis using assms(1) p n Pair by (auto simp: holds_def lessThan_Suc)
  qed
qed

lemma holds_run:
  assumes "holds P q" and "uq_ok chunks q" and "length chunks < 2 ^ 64" and "\<forall>s d. Uq_push s d \<in> set es \<longrightarrow> genuine chunks s d"
    and "never_full es q" and "distinct (pushed es)" and "P \<inter> set (pushed es) = {}"
  shows "holds (P \<union> set (pushed es)) (snd (uq_run es q))"
  using assms
proof (induction es q arbitrary: P rule: uq_run.induct)
  case (2 s d es q)
  have "holds (insert (unat s) P) (uq_push s d q)" using 2 by (intro holds_push) auto
  moreover have "uq_ok chunks (uq_push s d q)" using 2 by (intro uq_push_ok) auto
  ultimately show ?case using "2.IH" [of "insert (unat s) P"] "2.prems" by (auto simp: Un_commute)
next
  case (3 es q)
  obtain r q' where rq: "uq_try_pop q = (r, q')" by force
  have "holds P q'" using holds_pop [OF 3(2,3,4)] rq by simp
  moreover have "uq_ok chunks q'" using uq_try_pop_ok [OF 3(3,4) rq] by simp
  ultimately show ?case using "3.IH" [OF rq [symmetric], of P] "3.prems" rq by simp
qed simp

lemma uq_run_pops:
  assumes "holds {..< length chunks} q" and "uq_ok chunks q" and "length chunks < 2 ^ 64" and "length chunks \<le> unat (next_seq q) + k"
  shows "unat (next_seq (snd (uq_run (replicate k Uq_pop) q))) = length chunks"
  using assms
proof (induction k arbitrary: q)
  case 0
  then have "unat (next_seq q) = length chunks" by (simp add: uq_ok_def)
  then show ?case by simp
next
  case (Suc k)
  obtain r q' where rq: "uq_try_pop q = (r, q')" by force
  have h: "holds {..< length chunks} q'" "uq_ok chunks q'"
    using holds_pop [OF Suc.prems(1,2,3)] uq_try_pop_ok [OF Suc.prems(2,3) rq] rq by simp_all
  have "length chunks \<le> unat (next_seq q') + k"
  proof (cases "unat (next_seq q) < length chunks")
    case True
    then have "unat (next_seq q) \<in> unat ` set (map pk_seq (uq_heap q))" using Suc.prems(1) by (simp add: holds_def)
    then obtain p where p: "p \<in># mset (uq_heap q)" "pk_seq p = next_seq q" by (auto simp flip: word_unat_eq_iff)
    have "\<exists>t. heap_peek (uq_heap q) = Some t \<and> pk_seq t = pk_seq p"
    proof (rule ph.peek_least [OF _ p(1)])
      show "heap_inv (uq_heap q)" using Suc.prems(2) by (simp add: uq_ok_def)
      show "pk_seq p \<le> pk_seq x" if "x \<in># mset (uq_heap q)" for x
      proof -
        have "unat (pk_seq x) \<in> {s \<in> {..< length chunks}. unat (next_seq q) \<le> s}"
          using Suc.prems(1) that unfolding holds_def by fastforce
        then show ?thesis using p(2) by (simp add: word_le_nat_alt)
      qed
    qed
    then have "r \<noteq> None" using rq p(2) by (auto simp: uq_try_pop_def)
    then show ?thesis using uq_try_pop_ok [OF Suc.prems(2,3) rq] Suc.prems(4) by auto
  next
    case False
    then show ?thesis using uq_try_pop_ok [OF Suc.prems(2,3) rq] Suc.prems(4) by (auto split: option.splits)
  qed
  then show ?case using Suc.IH [OF h Suc.prems(3)] rq by simp
qed

text \<open>The upload queue of a session puts the client's posts back in order: however pushes and pops interleave and in whatever order the posts
  arrive, repeated ones included, what is popped is a prefix of the client's stream; and when every post arrives once and finds the
  queue not full, everything is popped in the end.\<close>
lemma upload_queue_reorders:
  assumes "length chunks < 2 ^ 64" and "\<forall>s d. Uq_push s d \<in> set es \<longrightarrow> genuine chunks s d"
  shows "(\<exists>n. fst (uq_run es UploadQueue_new) = take n chunks) \<and>
    (never_full es UploadQueue_new \<and> distinct (pushed es) \<and> set (pushed es) = {..< length chunks} \<longrightarrow>
     fst (uq_run (es @ replicate (length chunks) Uq_pop) UploadQueue_new) = chunks)"
proof -
  have ok: "uq_ok chunks UploadQueue_new" "holds {} UploadQueue_new"
    by (simp_all add: uq_ok_def UploadQueue_new_def heap_inv_def holds_def)
  note run = uq_run_in_order [OF ok(1) assms]
  have "\<exists>n. fst (uq_run es UploadQueue_new) = take n chunks" using run by (auto simp: UploadQueue_new_def)
  moreover have "fst (uq_run (es @ replicate (length chunks) Uq_pop) UploadQueue_new) = chunks"
    if c: "never_full es UploadQueue_new" "distinct (pushed es)" "set (pushed es) = {..< length chunks}"
  proof -
    let ?q = "snd (uq_run es UploadQueue_new)"
    have "holds {..< length chunks} ?q" using holds_run [OF ok(2,1) assms c(1,2)] c(3) by simp
    from uq_run_pops [OF this _ assms(1), of "length chunks"] run
    have "unat (next_seq (snd (uq_run (replicate (length chunks) Uq_pop) ?q))) = length chunks" by simp
    then have "unat (next_seq (snd (uq_run (es @ replicate (length chunks) Uq_pop) UploadQueue_new))) = length chunks"
      by (simp add: uq_run_append case_prod_beta)
    moreover have "\<forall>s d. Uq_push s d \<in> set (es @ replicate (length chunks) Uq_pop) \<longrightarrow> genuine chunks s d" using assms(2) by auto
    ultimately show ?thesis using uq_run_in_order [OF ok(1) assms(1)] assms(1)
      by (simp add: UploadQueue_new_def)
  qed
  ultimately show ?thesis by blast
qed

section \<open>Queues that never deliver again\<close>

text \<open>
  A packet whose number has been passed stays on top and blocks the queue for good; this is what a post sent twice before its first copy is popped
  leaves behind. A full queue without the next packet refuses that packet, and everything else.
\<close>

lemma stale_try_pop:
  assumes "heap_inv (uq_heap q)" and "p \<in># mset (uq_heap q)" and "pk_seq p < next_seq q"
  shows "uq_try_pop q = (None, q)"
  using ph.peek_below [OF assms(1,2)] assms(3) by (auto simp: uq_try_pop_def)

lemma stale_packet_blocks:
  assumes "heap_inv (uq_heap q)" and "p \<in># mset (uq_heap q)" and "pk_seq p < next_seq q"
  shows "fst (uq_run es q) = []"
  using assms
proof (induction es q rule: uq_run.induct)
  case (2 s d es q)
  have "heap_inv (uq_heap (uq_push s d q))" "p \<in># mset (uq_heap (uq_push s d q))" "next_seq (uq_push s d q) = next_seq q"
    using 2(2,3) ph.inv_push by (auto simp: uq_push_def set_heap_push)
  then show ?case using 2 by simp
next
  case (3 es q)
  then show ?case using stale_try_pop [OF 3(2,3,4)] by simp
qed simp

lemma repeated_post_stalls:
  "\<exists>d \<in> {a, b}. fst (uq_run ([Uq_push 0 a, Uq_push 0 b, Uq_pop] @ es) UploadQueue_new) = [d]"
proof -
  let ?q = "uq_push 0 b (uq_push 0 a UploadQueue_new)"
  obtain d q' e where q': "uq_try_pop ?q = (Some d, q')" "d \<in> {a, b}" "uq_heap q' = [\<lparr>pk_seq = 0, pk_data = e\<rparr>]" "next_seq q' = 1"
    by (auto simp: uq_push_def UploadQueue_new_def uq_try_pop_def heap_push_def heap_pop_def)
  have "fst (uq_run es q') = []"
    by (rule stale_packet_blocks [of q' "\<lparr>pk_seq = 0, pk_data = e\<rparr>"]) (use q' in \<open>auto simp: heap_inv_def\<close>)
  then show ?thesis using q' by (intro bexI [of _ d]) (auto split: prod.splits)
qed

lemma full_queue_stalls:
  assumes "max_packets q \<le> length (uq_heap q)" and "next_seq q \<notin> pk_seq ` set (uq_heap q)"
  shows "uq_run es q = ([], q)"
  using assms
proof (induction es q rule: uq_run.induct)
  case (2 s d es q)
  then show ?case by (simp add: uq_push_def)
next
  case (3 es q)
  have "uq_try_pop q = (None, q)"
  proof (cases "uq_heap q")
    case Nil
    then show ?thesis by (simp add: uq_try_pop_def)
  next
    case (Cons p h)
    then show ?thesis using 3(3) by (auto simp: uq_try_pop_def)
  qed
  then show ?case using 3 by simp
qed simp

section \<open>Sessions (session.rs)\<close>

text \<open>
  The table maps identifiers to upload queues. The receiving end of the download channel is returned only when the
  session is created.
\<close>

type_synonym SessionManager = "string \<rightharpoonup> UploadQueue"

definition get_or_create :: "string \<Rightarrow> SessionManager \<Rightarrow> bool \<times> SessionManager" where
  "get_or_create sid m = (case m sid of Some _ \<Rightarrow> (False, m) | None \<Rightarrow> (True, m(sid \<mapsto> UploadQueue_new)))"

definition remove_session :: "string \<Rightarrow> SessionManager \<Rightarrow> SessionManager" where
  "remove_session sid m = m(sid := None)"

definition push_to :: "string \<Rightarrow> u64 \<Rightarrow> u8 list \<Rightarrow> SessionManager \<Rightarrow> SessionManager" where
  "push_to sid seq data m = (let (_, m) = get_or_create sid m in m(sid := map_option (uq_push seq data) (m sid)))"

lemma get_or_create_dom: "snd (get_or_create sid m) sid \<noteq> None"
  by (auto simp: get_or_create_def split: option.splits)

lemma push_to_existing: "m sid = Some q \<Longrightarrow> push_to sid seq data m = m(sid \<mapsto> uq_push seq data q)"
  by (simp add: push_to_def get_or_create_def)

lemma push_to_new: "m sid = None \<Longrightarrow> push_to sid seq data m = m(sid \<mapsto> uq_push seq data UploadQueue_new)"
  by (simp add: push_to_def get_or_create_def)

section \<open>The upload loop (dialer.rs)\<close>

text \<open>
  The inner loop cuts full posts off the buffer; \<open>ok k\<close> tells whether the post with number \<open>k\<close> succeeds. With a maximal size of zero
  it would not end. The result: the posts that were tried, and number and buffer to go on with, unless a post failed.
\<close>

partial_function (option) cut_posts ::
  "nat \<Rightarrow> (u64 \<Rightarrow> bool) \<Rightarrow> u64 \<Rightarrow> u8 list \<Rightarrow> ((u64 \<times> u8 list) list \<times> (u64 \<times> u8 list) option) option" where
  "cut_posts mx ok seq buf =
     (if length buf \<ge> mx then
        if ok seq then Option.bind (cut_posts mx ok (seq + 1) (drop mx buf)) (\<lambda>(ps, r). Some ((seq, take mx buf) # ps, r))
        else Some ([(seq, take mx buf)], None)
      else Some ([], Some (seq, buf)))"

text \<open>The loop over what the connection writes; at the end the channel is closed or the loop waits for more.\<close>

fun upload_loop ::
  "nat \<Rightarrow> (u64 \<Rightarrow> bool) \<Rightarrow> bool \<Rightarrow> u64 \<Rightarrow> u8 list \<Rightarrow> u8 list list \<Rightarrow> (u64 \<times> u8 list) list option" where
  "upload_loop mx ok closed seq buf [] = Some (if closed \<and> buf \<noteq> [] then [(seq, buf)] else [])"
| "upload_loop mx ok closed seq buf (d # ds) =
     (case cut_posts mx ok seq (buf @ d) of
        None \<Rightarrow> None
      | Some (ps, None) \<Rightarrow> Some ps
      | Some (ps, Some (seq', buf')) \<Rightarrow> map_option ((@) ps) (upload_loop mx ok closed seq' buf' ds))"

lemma cut_posts_spec:
  assumes "0 < mx"
  shows "\<exists>ps r. cut_posts mx ok seq buf = Some (ps, r) \<and> map fst ps = map (\<lambda>i. seq + word_of_nat i) [0 ..< length ps] \<and>
    (\<forall>p \<in> set ps. length (snd p) = mx) \<and>
    (case r of None \<Rightarrow> ps \<noteq> [] \<and> \<not> ok (fst (last ps)) \<and> prefix (concat (map snd ps)) buf
     | Some (seq', buf') \<Rightarrow> seq' = seq + word_of_nat (length ps) \<and> concat (map snd ps) @ buf' = buf \<and> length buf' < mx)"
proof (induction "length buf" arbitrary: seq buf rule: less_induct)
  case less
  consider "length buf < mx" | "mx \<le> length buf" "\<not> ok seq" | "mx \<le> length buf" "ok seq" by linarith
  then show ?case
  proof cases
    case 1
    then show ?thesis by (subst cut_posts.simps) simp
  next
    case 2
    then show ?thesis using assms by (subst cut_posts.simps) (simp add: take_is_prefix)
  next
    case 3
    let ?P = "\<lambda>ps r. map fst ps = map (\<lambda>i. seq + 1 + word_of_nat i) [0 ..< length ps] \<and> (\<forall>p \<in> set ps. length (snd p) = mx) \<and>
      (case r of None \<Rightarrow> ps \<noteq> [] \<and> \<not> ok (fst (last ps)) \<and> prefix (concat (map snd ps)) (drop mx buf)
       | Some (seq', buf') \<Rightarrow> seq' = seq + 1 + word_of_nat (length ps) \<and> concat (map snd ps) @ buf' = drop mx buf \<and> length buf' < mx)"
    have "length (drop mx buf) < length buf" using 3 assms by simp
    from less [OF this, of "seq + 1"] obtain ps r where ps: "cut_posts mx ok (seq + 1) (drop mx buf) = Some (ps, r)" "?P ps r" by blast
    have "cut_posts mx ok seq buf = Some ((seq, take mx buf) # ps, r)" using 3 ps(1) by (subst cut_posts.simps) simp
    moreover have "map fst ((seq, take mx buf) # ps) = map (\<lambda>i. seq + word_of_nat i) [0 ..< length ((seq, take mx buf) # ps)]"
    proof -
      have "[0 ..< Suc n] = 0 # map Suc [0 ..< n]" for n by (simp add: map_Suc_upt upt_conv_Cons del: upt_Suc)
      then show ?thesis using ps(2) by (simp add: add.assoc comp_def del: upt_Suc)
    qed
    moreover have "prefix (concat (map snd ps)) (drop mx buf) \<Longrightarrow> prefix (take mx buf @ concat (map snd ps)) buf"
      by (metis append_take_drop_id same_prefix_prefix)
    moreover have "concat (map snd ps) @ b = drop mx buf \<Longrightarrow> take mx buf @ concat (map snd ps) @ b = buf" for b
      by simp
    ultimately show ?thesis using ps(2) 3 by (intro exI conjI) (auto split: option.splits simp: add.assoc)
  qed
qed

lemma upload_loop_spec:
  assumes "0 < mx" and "length buf < mx"
  shows "\<exists>ps. upload_loop mx ok closed seq buf ds = Some ps \<and> map fst ps = map (\<lambda>i. seq + word_of_nat i) [0 ..< length ps] \<and>
    [] \<notin> snd ` set ps \<and> prefix (concat (map snd ps)) (buf @ concat ds) \<and>
    ((\<forall>s. ok s) \<longrightarrow> (if closed then concat (map snd ps) = buf @ concat ds
       else length (buf @ concat ds) < length (concat (map snd ps)) + mx \<and> (\<forall>p \<in> set ps. length (snd p) = mx)))"
  using assms(2)
proof (induction ds arbitrary: seq buf)
  case Nil
  then show ?case by simp
next
  case (Cons d ds)
  from cut_posts_spec [OF assms(1), of ok seq "buf @ d"] obtain ps r where
    ps: "cut_posts mx ok seq (buf @ d) = Some (ps, r)" "map fst ps = map (\<lambda>i. seq + word_of_nat i) [0 ..< length ps]"
      "\<forall>p \<in> set ps. length (snd p) = mx"
      "case r of None \<Rightarrow> ps \<noteq> [] \<and> \<not> ok (fst (last ps)) \<and> prefix (concat (map snd ps)) (buf @ d)
       | Some (seq', buf') \<Rightarrow> seq' = seq + word_of_nat (length ps) \<and> concat (map snd ps) @ buf' = buf @ d \<and> length buf' < mx"
    by blast
  show ?case
  proof (cases r)
    case None
    then have "prefix (concat (map snd ps)) (buf @ concat (d # ds))" using ps(4) prefix_prefix [of _ "buf @ d" "concat ds"] by simp
    then show ?thesis using None ps assms(1) by (intro exI [of _ ps]) auto
  next
    case (Some st)
    then obtain seq' buf' where st: "r = Some (seq', buf')" "seq' = seq + word_of_nat (length ps)" "concat (map snd ps) @ buf' = buf @ d" "length buf' < mx"
      using ps(4) by (cases st) auto
    from Cons.IH [OF st(4), of seq'] obtain qs where qs: "upload_loop mx ok closed seq' buf' ds = Some qs"
      "map fst qs = map (\<lambda>i. seq' + word_of_nat i) [0 ..< length qs]" "[] \<notin> snd ` set qs" "prefix (concat (map snd qs)) (buf' @ concat ds)"
      "(\<forall>s. ok s) \<longrightarrow> (if closed then concat (map snd qs) = buf' @ concat ds
         else length (buf' @ concat ds) < length (concat (map snd qs)) + mx \<and> (\<forall>p \<in> set qs. length (snd p) = mx))" by blast
    have eq: "buf @ concat (d # ds) = concat (map snd ps) @ buf' @ concat ds" using st(3) by (metis append.assoc concat.simps(2))
    have "map (\<lambda>i. seq + word_of_nat i) [0 ..< length (ps @ qs)] = map (\<lambda>i. seq + word_of_nat i) [0 ..< length ps] @ map (\<lambda>i. seq' + word_of_nat i) [0 ..< length qs]"
      by (rule nth_equalityI) (auto simp: nth_append st(2) nth_map_upt simp flip: of_nat_add)
    then have "map fst (ps @ qs) = map (\<lambda>i. seq + word_of_nat i) [0 ..< length (ps @ qs)]" using ps(2) qs(2) by simp
    then show ?thesis using ps(1,3) st(1) qs(1,3,4,5) assms(1) unfolding eq by (intro exI [of _ "ps @ qs"]) fastforce
  qed
qed

text \<open>
  Less than a full post stays in the buffer until the connection is closed: a short request is not sent, however long the client
  waits for the answer.
\<close>

lemma short_upload_waits:
  assumes "length (concat ds) < mx"
  shows "upload_loop mx ok False 0 [] ds = Some []"
proof -
  have "upload_loop mx ok False seq buf ds = Some []" if "length (buf @ concat ds) < mx" for seq buf
    using that by (induction ds arbitrary: buf) (simp, subst upload_loop.simps, subst cut_posts.simps, simp)
  then show ?thesis using assms by simp
qed

text \<open>C34. Uploads arrive in order: the dialer's loop always ends, numbers its posts from zero and, until one fails, cuts the written bytes into them
  without loss; whatever order posts arrive in, repeated ones included, and however arrivals and pops interleave, the server pops a prefix of
  what was written; and when every post arrives once and finds the queue not full, and the connection was closed, it pops all of it.\<close>
theorem upload_delivers:
  assumes "0 < mx" and "\<And>s d. Uq_push s d \<in> set es \<Longrightarrow> \<exists>ps. upload_loop mx ok closed 0 [] ds = Some ps \<and> (s, d) \<in> set ps"
    and "length (concat ds) < 2 ^ 64"
  shows "\<exists>ps. upload_loop mx ok closed 0 [] ds = Some ps \<and> prefix (concat (fst (uq_run es UploadQueue_new))) (concat ds) \<and>
    (closed \<and> (\<forall>s. ok s) \<and> never_full es UploadQueue_new \<and> distinct (pushed es) \<and> set (pushed es) = unat ` fst ` set ps \<longrightarrow>
     concat (fst (uq_run (es @ replicate (length ps) Uq_pop) UploadQueue_new)) = concat ds)"
proof -
  have "length [] < mx" using assms(1) by simp
  from upload_loop_spec [OF assms(1) this, of ok closed 0 ds] obtain ps where ps: "upload_loop mx ok closed 0 [] ds = Some ps"
    "map fst ps = map word_of_nat [0 ..< length ps]" "[] \<notin> snd ` set ps" "prefix (concat (map snd ps)) (concat ds)"
    "(\<forall>s. ok s) \<longrightarrow> closed \<longrightarrow> concat (map snd ps) = concat ds" by auto
  have "length ps \<le> length (concat (map snd ps))" using ps(3)
  proof (induction ps)
    case (Cons p ps)
    then have "0 < length (snd p)" by (cases "snd p") auto
    moreover have "length ps \<le> length (concat (map snd ps))" using Cons by simp
    moreover have "length (concat (map snd (p # ps))) = length (snd p) + length (concat (map snd ps))" by simp
    ultimately show ?case by (simp only: list.size)
  qed simp
  also have "\<dots> \<le> length (concat ds)" using prefix_length_le [OF ps(4)] .
  finally have len: "length ps < 2 ^ 64" using assms(3) by simp
  have nth: "fst (ps ! i) = word_of_nat i" if "i < length ps" for i
    using arg_cong [OF ps(2), of "\<lambda>l. l ! i"] that by simp
  have un: "unat (word_of_nat i :: u64) = i" if "i < length ps" for i
  proof -
    have "i < 2 ^ 64" using that len by (rule less_trans)
    then show ?thesis by (simp add: unsigned_of_nat take_bit_nat_eq_self_iff)
  qed
  have gen: "\<forall>s d. Uq_push s d \<in> set es \<longrightarrow> genuine (map snd ps) s d"
  proof (intro allI impI)
    fix s d assume "Uq_push s d \<in> set es"
    then have "(s, d) \<in> set ps" using assms(2) ps(1) by fastforce
    then obtain i where "i < length ps" "ps ! i = (s, d)" by (auto simp: in_set_conv_nth)
    then show "genuine (map snd ps) s d" using nth [of i] un [of i] by (auto simp: genuine_def)
  qed
  have seqs: "unat ` fst ` set ps = {..< length ps}"
  proof -
    have "unat ` fst ` set ps = (\<lambda>i. unat (word_of_nat i :: u64)) ` {..< length ps}"
      using arg_cong [OF ps(2), of set] by (simp add: image_image atLeast0LessThan)
    then show ?thesis using un by (auto simp: image_iff)
  qed
  note queue = upload_queue_reorders [OF _ gen, unfolded length_map, OF len]
  then obtain n where n: "fst (uq_run es UploadQueue_new) = take n (map snd ps)" by blast
  have "concat (map snd ps) = concat (take n (map snd ps)) @ concat (drop n (map snd ps))" by (simp flip: concat_append)
  then have "prefix (concat (fst (uq_run es UploadQueue_new))) (concat (map snd ps))" unfolding n by (rule prefixI)
  then have "prefix (concat (fst (uq_run es UploadQueue_new))) (concat ds)" using ps(4) by (rule prefix_order.trans)
  moreover have "concat (fst (uq_run (es @ replicate (length ps) Uq_pop) UploadQueue_new)) = concat ds"
    if "closed" "\<forall>s. ok s" "never_full es UploadQueue_new" "distinct (pushed es)" "set (pushed es) = unat ` fst ` set ps"
    using queue that ps(5) seqs by auto
  ultimately show ?thesis using ps(1) by blast
qed

theorem upload_delivers_witness:
  "\<exists>ps. upload_loop 2 (\<lambda>_. True) True 0 [] [[1, 2, 3]] = Some ps \<and>
    concat (fst (uq_run ([Uq_push 1 [3], Uq_pop, Uq_push 0 [1, 2], Uq_pop] @ replicate (length ps) Uq_pop) UploadQueue_new)) = [1, 2, 3]"
proof -
  let ?es = "[Uq_push 1 [3], Uq_pop, Uq_push 0 [1, 2], Uq_pop]"
  have l: "upload_loop 2 (\<lambda>_. True) True 0 [] [[1, 2, 3]] = Some [(0, [1, 2]), (1, [3])]"
    by (simp, (subst cut_posts.simps, simp)+)
  then have g: "\<exists>ps. upload_loop 2 (\<lambda>_. True) True 0 [] [[1, 2, 3]] = Some ps \<and> (s, d) \<in> set ps" if "Uq_push s d \<in> set ?es" for s d
    using that by auto
  have "never_full ?es UploadQueue_new" by (simp add: UploadQueue_new_def uq_push_def uq_try_pop_def heap_push_def)
  moreover have "distinct (pushed ?es)" "set (pushed ?es) = unat ` fst ` set [(0 :: u64, [1, 2 :: u8]), (1, [3])]" by auto
  ultimately show ?thesis using upload_delivers [of 2 ?es "\<lambda>_. True" True "[[1, 2, 3]]", OF _ g] l by auto
qed

end
