(* ===== verification/Http_Text.thy ===== *)
theory Http_Text
  imports Std_Text "HOL-Library.Sublist"
begin

text \<open>
  Functions of \<^verbatim>\<open>str\<close> and of slices that the code handling HTTP text uses: case folding, splitting, searching.
  As everywhere, a string is the list of its UTF-8 bytes.
\<close>

definition ascii_lower_char :: "char \<Rightarrow> char" where
  "ascii_lower_char c = (let n = of_char c :: nat in if 65 \<le> n \<and> n \<le> 90 then char_of (n + 32) else c)"

definition to_ascii_lowercase :: "string \<Rightarrow> string" where
  "to_ascii_lowercase s = map ascii_lower_char s"

definition eq_ignore_ascii_case :: "string \<Rightarrow> string \<Rightarrow> bool" where
  "eq_ignore_ascii_case a b \<longleftrightarrow> to_ascii_lowercase a = to_ascii_lowercase b"

text \<open>\<open>split_once\<close> at a character; \<open>rsplit_once\<close> at its last occurrence; at a string.\<close>

definition split_once :: "char \<Rightarrow> string \<Rightarrow> (string \<times> string) option" where
  "split_once c s = map_option (\<lambda>i. (take i s, drop (Suc i) s)) (find_char c s)"

definition rsplit_once :: "char \<Rightarrow> string \<Rightarrow> (string \<times> string) option" where
  "rsplit_once c s = map_option (\<lambda>i. (take i s, drop (Suc i) s)) (rfind_char c s)"

text \<open>The index of the first occurrence of a list in another (\<^verbatim>\<open>find\<close>, \<^verbatim>\<open>windows(n).position\<close>).\<close>

fun find_sub :: "'a list \<Rightarrow> 'a list \<Rightarrow> nat option" where
  "find_sub p [] = (if p = [] then Some 0 else None)"
| "find_sub p (c # s) = (if take (length p) (c # s) = p then Some 0 else map_option Suc (find_sub p s))"

definition split_once_str :: "string \<Rightarrow> string \<Rightarrow> (string \<times> string) option" where
  "split_once_str p s = map_option (\<lambda>i. (take i s, drop (i + length p) s)) (find_sub p s)"

text \<open>\<open>split_whitespace\<close>: the maximal runs without white space.\<close>

fun whitespace_words :: "string \<Rightarrow> nat \<Rightarrow> string \<Rightarrow> string list" where
  "whitespace_words acc skip [] = (if acc = [] then [] else [acc])"
| "whitespace_words acc (Suc k) (c # s) = whitespace_words acc k s"
| "whitespace_words acc 0 (c # s) =
     (case find (\<lambda>w. starts_with w (c # s)) whitespace of
        Some w \<Rightarrow> (if acc = [] then [] else [acc]) @ whitespace_words [] (length w - 1) s
      | None \<Rightarrow> whitespace_words (acc @ [c]) 0 s)"

definition split_whitespace :: "string \<Rightarrow> string list" where
  "split_whitespace s = whitespace_words [] 0 s"

definition trim_matches :: "(char \<Rightarrow> bool) \<Rightarrow> string \<Rightarrow> string" where
  "trim_matches P s = rev (dropWhile P (rev (dropWhile P s)))"

abbreviation parse_u16 :: "string \<Rightarrow> nat option" where
  "parse_u16 \<equiv> parse_unsigned 65535"

abbreviation crlf_str :: string where
  "crlf_str \<equiv> [CHR 0x0D, CHR 0x0A]"

lemma find_sub_hit: "find_sub p (p @ s) = Some 0"
  by (cases p; cases s) auto

lemma find_sub_bound: "find_sub p s = Some i \<Longrightarrow> take (length p) (drop i s) = p \<and> i \<le> length s"
  by (induction s arbitrary: i) (auto split: if_splits)

lemma find_sub_None_iff: "find_sub p s = None \<longleftrightarrow> (\<forall>i \<le> length s. take (length p) (drop i s) \<noteq> p)"
proof (induction s)
  case (Cons c s)
  show ?case
  proof
    assume h: "find_sub p (c # s) = None"
    show "\<forall>i \<le> length (c # s). take (length p) (drop i (c # s)) \<noteq> p"
    proof (intro allI impI)
      fix i assume "i \<le> length (c # s)"
      then show "take (length p) (drop i (c # s)) \<noteq> p"
        using h Cons by (cases i) (auto split: if_splits)
    qed
  next
    assume h: "\<forall>i \<le> length (c # s). take (length p) (drop i (c # s)) \<noteq> p"
    have "take (length p) (c # s) \<noteq> p" using h by force
    moreover have "\<forall>i \<le> length s. take (length p) (drop i s) \<noteq> p" using h by (metis Suc_le_mono drop_Suc_Cons length_Cons)
    ultimately show "find_sub p (c # s) = None" using Cons by simp
  qed
qed auto

lemma split_once_append: "c \<notin> set a \<Longrightarrow> split_once c (a @ c # b) = Some (a, b)"
  by (simp add: split_once_def find_char_append)

lemma split_once_Some: "split_once c s = Some (a, b) \<Longrightarrow> s = a @ c # b \<and> c \<notin> set a"
proof -
  have "find_char c s = Some i \<Longrightarrow> i < length s \<and> s ! i = c \<and> c \<notin> set (take i s)" for i
    by (induction s arbitrary: i) (auto split: if_splits)
  then show "split_once c s = Some (a, b) \<Longrightarrow> ?thesis"
    by (auto simp: split_once_def id_take_nth_drop)
qed

lemma to_ascii_lowercase_append [simp]: "to_ascii_lowercase (a @ b) = to_ascii_lowercase a @ to_ascii_lowercase b"
  by (simp add: to_ascii_lowercase_def)

section \<open>Words and lines\<close>

definition plain_char :: "char \<Rightarrow> bool" where
  "plain_char c \<longleftrightarrow> 33 \<le> (of_char c :: nat) \<and> (of_char c :: nat) \<le> 126"

definition plain_word :: "string \<Rightarrow> bool" where
  "plain_word s \<longleftrightarrow> s \<noteq> [] \<and> (\<forall>c \<in> set s. plain_char c)"

lemma whitespace_heads: "w \<in> set whitespace \<Longrightarrow> \<not> plain_char (hd w)"
  by (auto simp: whitespace_def plain_char_def)

lemma no_whitespace_plain: "plain_char c \<Longrightarrow> find (\<lambda>w. starts_with w (c # s)) whitespace = None"
proof -
  assume "plain_char c"
  have "\<not> starts_with w (c # s)" if "w \<in> set whitespace" for w
    using whitespace_heads [OF that] whitespace_nonempty [OF that] \<open>plain_char c\<close>
    by (cases w) (auto simp: starts_with_def)
  then show ?thesis by (auto simp: find_None_iff)
qed

lemma whitespace_blank: "find (\<lambda>w. starts_with w (CHR '' '' # s)) whitespace = Some '' ''"
proof -
  have "CHR '' '' = char_of n \<longleftrightarrow> n mod 256 = 32" for n :: nat
    by (subst eq_commute) (simp add: char_of_eq_iff take_bit_eq_mod)
  moreover have "char_of (32 :: nat) = CHR '' ''" by (simp add: char_of_eq_iff take_bit_eq_mod)
  ultimately show ?thesis by (simp add: whitespace_def starts_with_def)
qed

lemma words_plain:
  "\<forall>c \<in> set m. plain_char c \<Longrightarrow> whitespace_words acc 0 (m @ s) = whitespace_words (acc @ m) 0 s"
  by (induction m arbitrary: acc) (simp_all add: no_whitespace_plain)

lemma split_whitespace_word:
  assumes "plain_word m"
  shows "split_whitespace (m @ CHR '' '' # s) = m # split_whitespace s"
  using assms words_plain [of m "[]" "CHR '' '' # s"]
  by (simp add: split_whitespace_def plain_word_def whitespace_blank)

text \<open>The end of a header.\<close>

abbreviation blank_line :: "u8 list" where
  "blank_line \<equiv> [13, 10, 13, 10]"

text \<open>The blank line after lines that are not empty and have no carriage return.\<close>

lemma find_sub_prefix: "find_sub p b = Some i \<Longrightarrow> find_sub p (b @ x) = Some i"
proof (induction b arbitrary: i)
  case (Cons c b)
  have len: "take (length p) xs = p \<Longrightarrow> length p \<le> length xs" for xs :: "'a list" by (metis length_take min.cobounded1 min_def)
  have t: "take (length p) (c # b) = p \<Longrightarrow> take (length p) (c # b @ x) = p"
    using len [of "c # b"] take_append [of "length p" "c # b" x] by auto
  have "find_sub p b = None" if a: "take (length p) (c # b @ x) = p" "take (length p) (c # b) \<noteq> p"
  proof -
    have "length (c # b) < length p" using a take_append [of "length p" "c # b" x] by (cases "length p \<le> length (c # b)") auto
    then have "take (length p) (drop j b) \<noteq> p" for j using len [of "drop j b"] by auto
    then show ?thesis by (simp add: find_sub_None_iff)
  qed
  then show ?case using Cons t by (auto split: if_splits)
qed (cases x, auto split: if_splits)

lemma find_sub_strict_prefix:
  assumes "find_sub p h = Some (length h - length p)" and "length p \<le> length h" and "strict_prefix b h"
  shows "find_sub p b = None"
proof (rule ccontr)
  assume "find_sub p b \<noteq> None"
  then obtain i where i: "find_sub p b = Some i" by auto
  from assms(3) obtain x where x: "h = b @ x" "x \<noteq> []" by (auto simp: strict_prefix_def prefix_def)
  then have "i = length h - length p" using find_sub_prefix [OF i] assms(1) by simp
  moreover have "min (length p) (length b - i) = length p" "i \<le> length b"
    using find_sub_bound [OF i] length_take [of "length p" "drop i b"] by simp_all
  moreover have "length h = length b + length x" "0 < length x" using x by auto
  moreover have "p \<noteq> []"
  proof
    assume "p = []"
    then have "find_sub p h = Some 0" by (cases h) auto
    then show False using assms(1) x \<open>p = []\<close> by simp
  qed
  ultimately show False using assms(2) by (cases p; cases x) auto
qed

lemma find_blank_skip: "13 \<notin> set l \<Longrightarrow> find_sub blank_line (l @ x) = map_option ((+) (length l)) (find_sub blank_line x)"
proof (induction l)
  case Nil
  show ?case by (cases "find_sub blank_line x") auto
next
  case (Cons a l)
  then show ?case by (cases "find_sub blank_line x") auto
qed

lemma find_blank_crlf:
  assumes "x = [] \<or> hd x \<noteq> 13"
  shows "find_sub blank_line (13 # 10 # x) = map_option ((+) 2) (find_sub blank_line x)"
  using assms by (cases x; cases "find_sub blank_line x") auto

lemma find_blank_lines:
  assumes "ls \<noteq> []" and "\<forall>l \<in> set ls. l \<noteq> [] \<and> 13 \<notin> set l"
  shows "find_sub blank_line (concat (map (\<lambda>l. l @ [13, 10]) ls) @ 13 # 10 # t) = Some (length (concat (map (\<lambda>l. l @ [13, 10]) ls)) - 2)"
  using assms
proof (induction ls)
  case (Cons l ls)
  show ?case
  proof (cases "ls = []")
    case True
    then show ?thesis using Cons.prems find_blank_skip [of l "13 # 10 # 13 # 10 # t"] by simp
  next
    case False
    let ?r = "concat (map (\<lambda>l. l @ [13, 10]) ls) @ 13 # 10 # t"
    have ls: "\<forall>l \<in> set ls. l \<noteq> [] \<and> 13 \<notin> set l" using Cons.prems by simp
    have "hd ?r \<noteq> 13" using False ls by (cases ls) (auto simp: hd_append dest: hd_in_set)
    moreover have "2 \<le> length (concat (map (\<lambda>l. l @ [13, 10 :: u8]) ls))" using False by (cases ls) auto
    ultimately show ?thesis
      using Cons.IH [OF False ls] find_blank_skip [of l "13 # 10 # ?r"] find_blank_crlf [of ?r] Cons.prems by simp
  qed
qed simp

end
