(* ===== verification/Piece_Io.thy ===== *)
theory Piece_Io
  imports Http_Text
begin

text \<open>
  A connection as the network delivers it: the pieces one read after the other returns, cut as the network likes,
  then the end of the stream or an error. Over it the loop that collects bytes until a header is complete, and
  \<^verbatim>\<open>tokio::io::BufReader\<close> with its 8 KiB buffer, whose bytes are gone when the connection is taken out of it.
\<close>

section \<open>Connections in pieces\<close>

record pconn =
  pieces :: "u8 list list"
  pend :: "string option"
  pout :: "u8 list"
  pwr_err :: "string option"

definition pbytes :: "pconn \<Rightarrow> u8 list" where
  "pbytes c = concat (pieces c)"

definition pread :: "nat \<Rightarrow> pconn \<Rightarrow> (string, u8 list) res \<times> pconn" where
  "pread n c =
     (if n = 0 then (Ok [], c)
      else case pieces c of
        [] \<Rightarrow> (case pend c of None \<Rightarrow> (Ok [], c) | Some e \<Rightarrow> (Err e, c))
      | p # ps \<Rightarrow> (Ok (take n p), c\<lparr>pieces := (if length p \<le> n then ps else drop n p # ps)\<rparr>))"

definition pwrite :: "string \<Rightarrow> u8 list \<Rightarrow> pconn \<Rightarrow> (string, unit) res \<times> pconn" where
  "pwrite msg bs c =
     (case pwr_err c of Some e \<Rightarrow> (Err (msg @ e), c) | None \<Rightarrow> (Ok (), c\<lparr>pout := pout c @ bs\<rparr>))"

text \<open>No read returns nothing before the end.\<close>

definition piecewise :: "pconn \<Rightarrow> bool" where
  "piecewise c \<longleftrightarrow> [] \<notin> set (pieces c)"

definition same_out :: "pconn \<Rightarrow> pconn \<Rightarrow> bool" where
  "same_out c c' \<longleftrightarrow> pend c' = pend c \<and> pout c' = pout c \<and> pwr_err c' = pwr_err c"

lemma same_out_refl [simp]: "same_out c c" by (simp add: same_out_def)

lemma same_out_trans: "same_out a b \<Longrightarrow> same_out b c \<Longrightarrow> same_out a c" by (simp add: same_out_def)

definition weight :: "pconn \<Rightarrow> nat" where
  "weight c = length (pbytes c)"

lemma pread_shrinks: "pread n c = (Ok d, c') \<Longrightarrow> d \<noteq> [] \<Longrightarrow> weight c' < weight c"
  by (auto simp: pread_def weight_def pbytes_def split: if_splits list.splits option.splits)

lemma pread_Ok:
  assumes "piecewise c" "0 < n" "pbytes c \<noteq> []"
  obtains d c' where "pread n c = (Ok d, c')" "d \<noteq> []" "length d \<le> n" "pbytes c = d @ pbytes c'" "piecewise c'" "same_out c c'"
proof -
  obtain p ps where c: "pieces c = p # ps" "p \<noteq> []" "[] \<notin> set ps" using assms by (cases "pieces c") (auto simp: pbytes_def piecewise_def)
  then show thesis using assms(2)
    by (intro that [of "take n p" "c\<lparr>pieces := (if length p \<le> n then ps else drop n p # ps)\<rparr>"])
      (auto simp: pread_def pbytes_def piecewise_def same_out_def)
qed

lemma pread_end: "pieces c = [] \<Longrightarrow> pend c = None \<Longrightarrow> pread n c = (Ok [], c)"
  by (simp add: pread_def)

section \<open>Collecting a header\<close>

text \<open>
  The loop of the header readers: read into the room the buffer has left, stop at the end of the stream, let
  \<open>decide\<close> look at everything read so far.
\<close>

function accumulate ::
  "(nat \<Rightarrow> nat) \<Rightarrow> string \<Rightarrow> string \<Rightarrow> (u8 list \<Rightarrow> (string, 'a) res option) \<Rightarrow> u8 list \<Rightarrow> pconn \<Rightarrow> (string, 'a) res \<times> pconn" where
  "accumulate room msg closed decide buf c =
     (case pread (room (length buf)) c of
        (Ok d, c') \<Rightarrow>
          if d = [] then (Err closed, c')
          else (case decide (buf @ d) of Some r \<Rightarrow> (r, c') | None \<Rightarrow> accumulate room msg closed decide (buf @ d) c')
      | (Err e, c') \<Rightarrow> (Err (msg @ e), c')
      | (Panic, c') \<Rightarrow> (Panic, c'))"
  by pat_completeness auto
termination
  by (relation "measure (\<lambda>(_, _, _, _, _, c). weight c)") (auto intro: pread_shrinks [OF sym])

declare accumulate.simps [simp del]

lemma accumulate_complete:
  assumes "piecewise c" and "buf @ pbytes c = h @ t" and "length buf < length h"
    and room: "\<And>n. n < length h \<Longrightarrow> 0 < room n"
    and early: "\<And>b. strict_prefix b h \<Longrightarrow> decide b = None"
    and hit: "\<And>x. decide (h @ x) = Some (f x)"
  shows "\<exists>x c'. accumulate room msg closed decide buf c = (f x, c') \<and> x @ pbytes c' = t \<and> piecewise c' \<and> same_out c c'"
  using assms(1-3)
proof (induction "weight c" arbitrary: buf c rule: less_induct)
  case less
  have "pbytes c \<noteq> []" using less.prems(2,3) by auto
  from pread_Ok [OF less.prems(1) room [OF less.prems(3)] this]
  obtain d c1 where r: "pread (room (length buf)) c = (Ok d, c1)" "d \<noteq> []" "pbytes c = d @ pbytes c1" "piecewise c1" "same_out c c1" by metis
  have eq: "(buf @ d) @ pbytes c1 = h @ t" using less.prems(2) r(3) by simp
  show ?case
  proof (cases "length (buf @ d) < length h")
    case True
    then have "strict_prefix (buf @ d) h" using eq by (metis append_eq_append_conv_if order_less_imp_le prefix_def prefix_order.dual_order.strict_iff_order append_take_drop_id less_irrefl)
    then have "accumulate room msg closed decide buf c = accumulate room msg closed decide (buf @ d) c1"
      using r early by (subst accumulate.simps) simp
    moreover have "weight c1 < weight c" using r pread_shrinks by blast
    ultimately show ?thesis using less.hyps [of c1 "buf @ d"] eq True r(4,5) same_out_trans by metis
  next
    case False
    define x where "x = drop (length h) (buf @ d)"
    have "take (length h) ((buf @ d) @ pbytes c1) = h" "drop (length h) ((buf @ d) @ pbytes c1) = t" using eq by simp_all
    then have "take (length h) (buf @ d) = h" and x2: "x @ pbytes c1 = t" using False by (simp_all add: x_def)
    then have x: "buf @ d = h @ x" unfolding x_def by (metis append_take_drop_id)
    note x = x x2
    then have "accumulate room msg closed decide buf c = (f x, c1)" using r hit by (subst accumulate.simps) simp
    then show ?thesis using x r by blast
  qed
qed

section \<open>Buffered lines\<close>

text \<open>
  \<^verbatim>\<open>BufReader\<close> and \<^verbatim>\<open>read_line\<close>: the line with its line feed, or what is left at the end of the stream; the line must be UTF-8.
\<close>

definition BUF_CAPACITY :: nat where "BUF_CAPACITY = 8192"

function read_until_nl :: "u8 list \<Rightarrow> u8 list \<Rightarrow> pconn \<Rightarrow> (string, u8 list) res \<times> u8 list \<times> pconn" where
  "read_until_nl acc buf c =
     (if buf = [] then
        (case pread BUF_CAPACITY c of
           (Ok d, c') \<Rightarrow> if d = [] then (Ok acc, [], c') else read_until_nl acc d c'
         | (Err e, c') \<Rightarrow> (Err e, [], c')
         | (Panic, c') \<Rightarrow> (Panic, [], c'))
      else if 10 \<in> set buf then
        (Ok (acc @ takeWhile (\<lambda>b. b \<noteq> 10) buf @ [10]), tl (dropWhile (\<lambda>b. b \<noteq> 10) buf), c)
      else read_until_nl (acc @ buf) [] c)"
  by pat_completeness auto
termination
  by (relation "measures [\<lambda>(_, _, c). weight c, \<lambda>(_, buf, _). length buf]") (auto intro: pread_shrinks [OF sym])

declare read_until_nl.simps [simp del]

type_synonym buf_reader = "u8 list \<times> pconn"

definition rbytes :: "buf_reader \<Rightarrow> u8 list" where
  "rbytes r = fst r @ pbytes (snd r)"

definition read_line :: "string \<Rightarrow> buf_reader \<Rightarrow> (string, string) res \<times> buf_reader" where
  "read_line msg r =
     (case read_until_nl [] (fst r) (snd r) of
        (Ok bs, r') \<Rightarrow>
          ((if valid_utf8 bs then Ok (of_bytes bs) else Err (msg @ ''stream did not contain valid UTF-8'')), r')
      | (Err e, r') \<Rightarrow> (Err (msg @ e), r')
      | (Panic, r') \<Rightarrow> (Panic, r'))"

lemma read_until_nl_bytes:
  "read_until_nl acc buf c = (Ok l, buf', c') \<Longrightarrow>
   l @ buf' @ pbytes c' = acc @ buf @ pbytes c \<and> same_out c c' \<and> (piecewise c \<longrightarrow> piecewise c')"
proof (induction acc buf c rule: read_until_nl.induct)
  case (1 acc buf c)
  show ?case
  proof (cases "buf = []")
    case True
    obtain r c1 where r: "pread BUF_CAPACITY c = (r, c1)" by force
    have p: "pbytes c = d @ pbytes c1" "same_out c c1" "piecewise c \<longrightarrow> piecewise c1" if "r = Ok d" for d
      using r that by (auto simp: pread_def pbytes_def same_out_def piecewise_def BUF_CAPACITY_def split: list.splits option.splits if_splits)
    show ?thesis using 1(1) [OF True r [symmetric]] 1(3) True r p
      by (subst (asm) read_until_nl.simps) (auto split: res.splits if_splits dest: same_out_trans)
  next
    case False
    have "10 \<in> set buf \<Longrightarrow> takeWhile (\<lambda>b. b \<noteq> 10) buf @ 10 # tl (dropWhile (\<lambda>b. b \<noteq> 10) buf) = buf"
      by (metis (mono_tags, lifting) dropWhile_eq_Nil_conv hd_dropWhile list.collapse takeWhile_dropWhile_id)
    then show ?thesis using 1(2) [OF False] 1(3) False
      by (subst (asm) read_until_nl.simps) (auto split: if_splits)
  qed
qed

lemma read_line_shrinks:
  "read_line msg r = (Ok l, r') \<Longrightarrow> length (rbytes r') + length l = length (rbytes r)"
proof -
  assume l: "read_line msg r = (Ok l, r')"
  obtain b' c' where r': "r' = (b', c')" by force
  from l obtain bs where "read_until_nl [] (fst r) (snd r) = (Ok bs, b', c')" "length bs = length l"
    by (auto simp: read_line_def r' split: prod.splits res.splits if_splits)
  from read_until_nl_bytes [OF this(1)] this(2) show ?thesis
    by (metis append_Nil length_append rbytes_def r' fst_conv snd_conv add.commute)
qed

lemma read_line_less: "(Ok l, r') = read_line msg r \<Longrightarrow> l \<noteq> [] \<Longrightarrow> length (rbytes r') < length (rbytes r)"
  using read_line_shrinks [of msg r l r'] by (cases l) auto

text \<open>A line that is there is read, wherever the network cut it.\<close>

lemma read_until_nl_line:
  assumes "piecewise c" and "buf @ pbytes c = l @ 10 # t" and "10 \<notin> set l"
  shows "\<exists>buf' c'. read_until_nl acc buf c = (Ok (acc @ l @ [10]), buf', c') \<and> buf' @ pbytes c' = t \<and> piecewise c' \<and> same_out c c'"
  using assms
proof (induction acc buf c arbitrary: l rule: read_until_nl.induct)
  case (1 acc buf c)
  consider "buf = []" | "buf \<noteq> []" "10 \<in> set buf" | "buf \<noteq> []" "10 \<notin> set buf" by blast
  then show ?case
  proof cases
    case 1
    then have "pbytes c \<noteq> []" using "1.prems" by auto
    moreover have "0 < BUF_CAPACITY" by (simp add: BUF_CAPACITY_def)
    ultimately obtain d c1 where r: "pread BUF_CAPACITY c = (Ok d, c1)" "d \<noteq> []"
      "pbytes c = d @ pbytes c1" "piecewise c1" "same_out c c1" using pread_Ok [OF "1.prems"(1)] by metis
    then have "\<exists>buf' c'. read_until_nl acc d c1 = (Ok (acc @ l @ [10]), buf', c') \<and> buf' @ pbytes c' = t \<and> piecewise c' \<and> same_out c1 c'"
      using "1.IH"(1) [OF 1 r(1) [symmetric] refl r(2) r(4)] "1.prems" 1 by simp
    then show ?thesis using r 1 same_out_trans [OF r(5)] by (subst read_until_nl.simps) auto
  next
    case 2
    then have "takeWhile (\<lambda>b. b \<noteq> 10) (buf @ pbytes c) = takeWhile (\<lambda>b. b \<noteq> 10) buf"
      "dropWhile (\<lambda>b. b \<noteq> 10) (buf @ pbytes c) = dropWhile (\<lambda>b. b \<noteq> 10) buf @ pbytes c"
      by (auto simp: takeWhile_append1 dropWhile_append1)
    moreover have "takeWhile (\<lambda>b. b \<noteq> 10) (l @ 10 # t) = l" "dropWhile (\<lambda>b. b \<noteq> 10) (l @ 10 # t) = 10 # t"
      using "1.prems"(3) by (auto simp: takeWhile_append dropWhile_append)
    ultimately have "takeWhile (\<lambda>b. b \<noteq> 10) buf = l" "dropWhile (\<lambda>b. b \<noteq> 10) buf @ pbytes c = 10 # t" using "1.prems"(2) by auto
    moreover have "dropWhile (\<lambda>b. b \<noteq> 10) buf \<noteq> []" using 2 by auto
    ultimately have "tl (dropWhile (\<lambda>b. b \<noteq> 10) buf) @ pbytes c = t" "takeWhile (\<lambda>b. b \<noteq> 10) buf = l"
      by (auto simp: append_eq_Cons_conv)
    then show ?thesis using 2 "1.prems"(1) by (subst read_until_nl.simps) auto
  next
    case 3
    then obtain l' where l': "l = buf @ l'" "pbytes c = l' @ 10 # t"
      using "1.prems"(2,3) by (auto simp: append_eq_append_conv2 append_eq_Cons_conv)
    then have "\<exists>buf' c'. read_until_nl (acc @ buf) [] c = (Ok ((acc @ buf) @ l' @ [10]), buf', c') \<and> buf' @ pbytes c' = t \<and> piecewise c' \<and> same_out c c'"
      using "1.IH"(2) [OF 3] "1.prems" by simp
    then show ?thesis using 3 l' by (subst read_until_nl.simps) auto
  qed
qed

lemma read_line_ok:
  assumes "piecewise (snd r)" and "rbytes r = as_bytes l @ 10 # t" and "CHR 0x0A \<notin> set l" and "valid_utf8 (as_bytes l @ [10])"
  obtains r' where "read_line msg r = (Ok (l @ [CHR 0x0A]), r')" "rbytes r' = t" "piecewise (snd r')" "same_out (snd r) (snd r')"
proof -
  have "(10 :: u8) \<notin> set (as_bytes l)"
  proof
    assume "(10 :: u8) \<in> set (as_bytes l)"
    then obtain ch where "ch \<in> set l" "word_of_nat (of_char ch) = (10 :: u8)" by (auto simp: as_bytes_def)
    then have "unat (word_of_nat (of_char ch) :: u8) = 10" by simp
    then have "(of_char ch :: nat) = of_char (CHR 0x0A)" by simp
    then have "ch = CHR 0x0A" by (simp only: of_char_eq_iff)
    then show False using assms(3) \<open>ch \<in> set l\<close> by simp
  qed
  from read_until_nl_line [OF assms(1) _ this, of "fst r" t "[]"] assms(2) obtain b' c' where
    "read_until_nl [] (fst r) (snd r) = (Ok (as_bytes l @ [10]), b', c')" "b' @ pbytes c' = t" "piecewise c'" "same_out (snd r) c'"
    by (auto simp: rbytes_def)
  moreover have "of_bytes (as_bytes l @ [10]) = l @ [CHR 0x0A]"
  proof -
    have "(10 :: u8) = word_of_nat (of_char (CHR 0x0A))" by simp
    then have "[10 :: u8] = as_bytes [CHR 0x0A]" by (simp add: as_bytes_def)
    then show ?thesis by (metis as_bytes_def map_append of_bytes_as_bytes)
  qed
  ultimately show thesis using assms(4) by (intro that [of "(b', c')"]) (auto simp: read_line_def rbytes_def)
qed

end
