(* ===== verification/Http_Header.thy ===== *)
theory Http_Header
  imports Piece_Io
begin

text \<open>
  \<^verbatim>\<open>transport/headers/http.rs\<close>, \<^verbatim>\<open>vstream.rs\<close> and \<^verbatim>\<open>noop.rs\<close>: streams disguised by an HTTP request and response in front. The random choices
  of the configured values are an argument: \<open>rnd i n\<close> is the \<open>i\<close>-th draw below \<open>n\<close>; so is the text of the date.
\<close>

section \<open>Configuration (headers/http.rs)\<close>

definition MAX_HEADER_LENGTH :: nat where "MAX_HEADER_LENGTH = 8192"

record HttpHeader =
  hdr_name :: string
  hdr_value :: "string list"

record HttpStatus =
  st_code :: string
  st_reason :: string

record RequestConfig =
  rq_version :: "string option"
  rq_method :: "string option"
  rq_uri :: "string list"
  rq_header :: "HttpHeader list"

record ResponseConfig =
  rs_version :: "string option"
  rs_status :: "HttpStatus option"
  rs_header :: "HttpHeader list"

record HttpHeaderConfig =
  hc_request :: "RequestConfig option"
  hc_response :: "ResponseConfig option"

definition pick_str :: "(nat \<Rightarrow> nat) \<Rightarrow> string list \<Rightarrow> string" where
  "pick_str r arr =
     (if length arr \<le> 1 then (case arr of s # _ \<Rightarrow> s | [] \<Rightarrow> []) else arr ! r (length arr))"

definition pick_uri :: "(nat \<Rightarrow> nat \<Rightarrow> nat) \<Rightarrow> RequestConfig \<Rightarrow> string" where
  "pick_uri rnd c = pick_str (rnd 0) (rq_uri c)"

definition pick_headers :: "(nat \<Rightarrow> nat \<Rightarrow> nat) \<Rightarrow> HttpHeader list \<Rightarrow> string list" where
  "pick_headers rnd hs = map (\<lambda>(i, h). hdr_name h @ '': '' @ pick_str (rnd (Suc i)) (hdr_value h)) (enumerate 0 hs)"

definition version_or_default :: "string option \<Rightarrow> string" where
  "version_or_default v = (case v of Some s \<Rightarrow> s | None \<Rightarrow> ''1.1'')"

definition get_method_value :: "RequestConfig \<Rightarrow> string" where
  "get_method_value c = (case rq_method c of Some m \<Rightarrow> m | None \<Rightarrow> ''GET'')"

definition get_full_version :: "string option \<Rightarrow> string" where
  "get_full_version v = ''HTTP/'' @ version_or_default v"

definition has_header :: "string \<Rightarrow> ResponseConfig \<Rightarrow> bool" where
  "has_header name c = list_ex (\<lambda>h. to_ascii_lowercase (hdr_name h) = to_ascii_lowercase name) (rs_header c)"

definition rs_get_status :: "ResponseConfig \<Rightarrow> HttpStatus" where
  "rs_get_status c = (case rs_status c of Some s \<Rightarrow> s | None \<Rightarrow> \<lparr>st_code = ''200'', st_reason = ''OK''\<rparr>)"

definition error_config :: "string \<Rightarrow> string \<Rightarrow> ResponseConfig" where
  "error_config code reason =
     \<lparr>rs_version = Some ''1.1'', rs_status = Some \<lparr>st_code = code, st_reason = reason\<rparr>,
      rs_header =
        [\<lparr>hdr_name = ''Connection'', hdr_value = [''close'']\<rparr>, \<lparr>hdr_name = ''Cache-Control'', hdr_value = [''private'']\<rparr>,
         \<lparr>hdr_name = ''Content-Length'', hdr_value = [''0'']\<rparr>]\<rparr>"

definition resp400 :: ResponseConfig where "resp400 = error_config ''400'' ''Bad Request''"
definition resp404 :: ResponseConfig where "resp404 = error_config ''404'' ''Not Found''"

section \<open>Building headers\<close>

definition header_lines :: "string list \<Rightarrow> string" where
  "header_lines ls = concat (map (\<lambda>l. l @ crlf_str) ls)"

definition build_request_header :: "(nat \<Rightarrow> nat \<Rightarrow> nat) \<Rightarrow> RequestConfig \<Rightarrow> u8 list" where
  "build_request_header rnd c =
     as_bytes (get_method_value c @ '' '' @ pick_uri rnd c @ '' '' @ get_full_version (rq_version c) @ crlf_str) @
     as_bytes (header_lines (pick_headers rnd (rq_header c))) @ as_bytes crlf_str"

definition build_response_header :: "(nat \<Rightarrow> nat \<Rightarrow> nat) \<Rightarrow> string \<Rightarrow> ResponseConfig \<Rightarrow> u8 list" where
  "build_response_header rnd date c =
     (let st = rs_get_status c in
      as_bytes (get_full_version (rs_version c) @ '' '' @ st_code st @ '' '' @ st_reason st @ crlf_str) @
      as_bytes (header_lines (pick_headers rnd (rs_header c))) @
      (if \<not> has_header ''Date'' c then as_bytes (''Date: '' @ date @ crlf_str) else []) @ as_bytes crlf_str)"

definition error_response_400 :: "(nat \<Rightarrow> nat \<Rightarrow> nat) \<Rightarrow> string \<Rightarrow> u8 list" where
  "error_response_400 rnd date = build_response_header rnd date resp400"

definition error_response_404 :: "(nat \<Rightarrow> nat \<Rightarrow> nat) \<Rightarrow> string \<Rightarrow> u8 list" where
  "error_response_404 rnd date = build_response_header rnd date resp404"

section \<open>Reading the request\<close>

definition check_path :: "RequestConfig option \<Rightarrow> u8 list \<Rightarrow> (string, unit) res" where
  "check_path expected header_bytes =
     (case expected of
        None \<Rightarrow> Ok ()
      | Some ex \<Rightarrow>
          if \<not> valid_utf8 header_bytes then Err ''header: invalid utf8''
          else
            let path = (case split_whitespace (of_bytes header_bytes) of _ # p # _ \<Rightarrow> p | _ \<Rightarrow> [])
            in if list_ex (\<lambda>u. u = path) (rq_uri ex) then Ok () else Err ''Header Mismatch.'')"

definition header_decide :: "RequestConfig option \<Rightarrow> u8 list \<Rightarrow> (string, u8 list) res option" where
  "header_decide expected buf =
     (case find_sub blank_line buf of
        Some pos \<Rightarrow> Some (rbind (check_path expected (take pos buf)) (\<lambda>_. Ok (drop (pos + 4) buf)))
      | None \<Rightarrow> if length buf > MAX_HEADER_LENGTH then Some (Err ''Header too long.'') else None)"

definition http_read_header :: "RequestConfig option \<Rightarrow> pconn \<Rightarrow> (string, u8 list) res \<times> pconn" where
  "http_read_header expected c =
     accumulate (\<lambda>_. 1024) ''header read: '' ''header: connection closed'' (header_decide expected) [] c"

section \<open>The wrapped connection and the handshakes\<close>

record HttpConn =
  hc_inner :: pconn
  read_pending :: "u8 list option"

definition HttpConn_new :: "pconn \<Rightarrow> HttpConn" where
  "HttpConn_new c = \<lparr>hc_inner = c, read_pending = None\<rparr>"

definition HttpConn_read :: "nat \<Rightarrow> HttpConn \<Rightarrow> (string, u8 list) res \<times> HttpConn" where
  "HttpConn_read n hc =
     (case read_pending hc of
        Some d \<Rightarrow>
          if d \<noteq> [] then
            let k = min (length d) n; rest = drop k d in
            (Ok (take k d), hc\<lparr>read_pending := (if rest = [] then None else Some rest)\<rparr>)
          else (case pread n (hc_inner hc) of (r, c) \<Rightarrow> (r, \<lparr>hc_inner = c, read_pending = None\<rparr>))
      | None \<Rightarrow> (case pread n (hc_inner hc) of (r, c) \<Rightarrow> (r, hc\<lparr>hc_inner := c\<rparr>)))"

definition HttpConn_write :: "u8 list \<Rightarrow> HttpConn \<Rightarrow> (string, unit) res \<times> HttpConn" where
  "HttpConn_write bs hc = (case pwrite [] bs (hc_inner hc) of (r, c) \<Rightarrow> (r, hc\<lparr>hc_inner := c\<rparr>))"

definition client_handshake :: "(nat \<Rightarrow> nat \<Rightarrow> nat) \<Rightarrow> HttpHeaderConfig \<Rightarrow> pconn \<Rightarrow> (string, HttpConn) res" where
  "client_handshake rnd cfg c =
     (case hc_request cfg of
        Some req \<Rightarrow>
          (case pwrite ''client header: '' (build_request_header rnd req) c of
             (Ok _, c') \<Rightarrow> Ok (HttpConn_new c') | (Err e, _) \<Rightarrow> Err e | (Panic, _) \<Rightarrow> Panic)
      | None \<Rightarrow> Ok (HttpConn_new c))"

definition server_handshake :: "(nat \<Rightarrow> nat \<Rightarrow> nat) \<Rightarrow> string \<Rightarrow> HttpHeaderConfig \<Rightarrow> pconn \<Rightarrow> (string, HttpConn) res" where
  "server_handshake rnd date cfg c =
     (case http_read_header (hc_request cfg) c of
        (Ok remaining, c1) \<Rightarrow>
          (case hc_response cfg of
             Some resp \<Rightarrow>
               (case pwrite ''server header: '' (build_response_header rnd date resp) c1 of
                  (Ok _, c2) \<Rightarrow> Ok \<lparr>hc_inner = c2, read_pending = Some remaining\<rparr>
                | (Err e, _) \<Rightarrow> Err e
                | (Panic, _) \<Rightarrow> Panic)
           | None \<Rightarrow> Ok \<lparr>hc_inner = c1, read_pending = Some remaining\<rparr>)
      | (Err e, _) \<Rightarrow> Err e
      | (Panic, _) \<Rightarrow> Panic)"

section \<open>The upgrade of vstream.rs\<close>

definition vstream_request :: "string \<Rightarrow> string \<Rightarrow> string" where
  "vstream_request host path =
     ''GET '' @ path @ '' HTTP/1.1'' @ crlf_str @ ''Host: '' @ host @ crlf_str @ ''Upgrade: websocket'' @ crlf_str @
     ''Connection: Upgrade'' @ crlf_str @ crlf_str"

definition vstream_handshake :: "string \<Rightarrow> string \<Rightarrow> pconn \<Rightarrow> (string, unit) res \<times> pconn" where
  "vstream_handshake host path c =
     (case pwrite ''vstream handshake write: '' (as_bytes (vstream_request host path)) c of
        (Ok _, c1) \<Rightarrow>
          (case pread 1024 c1 of
             (Ok d, c2) \<Rightarrow>
               let response = of_bytes (from_utf8_lossy d) in
               if \<not> contains_str ''101'' response \<and> \<not> contains_str ''Switching Protocols'' response
               then (Err (''vstream handshake failed: '' @ (case str_lines response of l # _ \<Rightarrow> l | [] \<Rightarrow> ''unknown'')), c2)
               else (Ok (), c2)
           | (Err e, c2) \<Rightarrow> (Err (''vstream handshake read: '' @ e), c2)
           | (Panic, c2) \<Rightarrow> (Panic, c2))
      | (Err e, c1) \<Rightarrow> (Err e, c1)
      | (Panic, c1) \<Rightarrow> (Panic, c1))"

section \<open>The header is transparent for the server\<close>

definition hc_bytes :: "HttpConn \<Rightarrow> u8 list" where
  "hc_bytes hc = (case read_pending hc of Some d \<Rightarrow> d | None \<Rightarrow> []) @ pbytes (hc_inner hc)"

text \<open>Reads hand out the rest of the stream without a gap, and make progress while there is some.\<close>

lemma HttpConn_read_bytes:
  assumes "HttpConn_read n hc = (Ok d, hc')"
  shows "hc_bytes hc = d @ hc_bytes hc'"
  using assms
  by (auto simp: HttpConn_read_def hc_bytes_def Let_def pread_def pbytes_def split: option.splits if_splits prod.splits list.splits)

lemma HttpConn_read_progress:
  assumes "piecewise (hc_inner hc)" "hc_bytes hc \<noteq> []" "0 < n"
  obtains d hc' where "HttpConn_read n hc = (Ok d, hc')" "d \<noteq> []"
proof (cases "\<exists>d. read_pending hc = Some d \<and> d \<noteq> []")
  case True
  then show thesis using assms(3) that by (auto simp: HttpConn_read_def Let_def)
next
  case False
  then have "pbytes (hc_inner hc) \<noteq> []" using assms(2) by (auto simp: hc_bytes_def split: option.splits)
  then obtain d c' where "pread n (hc_inner hc) = (Ok d, c')" "d \<noteq> []" using pread_Ok [OF assms(1,3)] by metis
  then show thesis using False that by (cases "read_pending hc") (auto simp: HttpConn_read_def)
qed

text \<open>
  Requests the parser takes apart again: a method and addresses of printable characters, header lines without a carriage
  return, in ASCII.
\<close>

definition ascii_line :: "string \<Rightarrow> bool" where
  "ascii_line l \<longleftrightarrow> l \<noteq> [] \<and> (\<forall>c \<in> set l. (of_char c :: nat) < 128 \<and> c \<noteq> CHR 0x0D)"

definition request_ok :: "RequestConfig \<Rightarrow> bool" where
  "request_ok q \<longleftrightarrow> plain_word (get_method_value q) \<and> rq_uri q \<noteq> [] \<and> (\<forall>u \<in> set (rq_uri q). plain_word u) \<and>
     ascii_line (get_full_version (rq_version q)) \<and>
     (\<forall>h \<in> set (rq_header q). ascii_line (hdr_name h) \<and> (\<forall>v \<in> set (hdr_value h). v = [] \<or> ascii_line v))"

lemma pick_str_in: "arr \<noteq> [] \<Longrightarrow> r (length arr) < length arr \<Longrightarrow> pick_str r arr \<in> set arr"
  by (auto simp: pick_str_def split: list.split)

lemma pick_str_cases: "arr = [] \<or> r (length arr) < length arr \<Longrightarrow> pick_str r arr = [] \<or> pick_str r arr \<in> set arr"
  using pick_str_in by (cases "arr = []") (auto simp: pick_str_def)

definition request_lines :: "(nat \<Rightarrow> nat \<Rightarrow> nat) \<Rightarrow> RequestConfig \<Rightarrow> string list" where
  "request_lines rnd q =
     (get_method_value q @ '' '' @ pick_uri rnd q @ '' '' @ get_full_version (rq_version q)) # pick_headers rnd (rq_header q)"

lemma build_request_lines: "build_request_header rnd q = as_bytes (header_lines (request_lines rnd q)) @ [13, 10]"
  by (simp add: build_request_header_def request_lines_def header_lines_def as_bytes_def)

lemma as_bytes_header_lines: "as_bytes (header_lines ls) = concat (map (\<lambda>l. l @ [13, 10]) (map as_bytes ls))"
  by (induction ls) (simp_all add: header_lines_def as_bytes_def)

lemma ascii_line_bytes:
  assumes "ascii_line l"
  shows "as_bytes l \<noteq> [] \<and> 13 \<notin> set (as_bytes l) \<and> (\<forall>b \<in> set (as_bytes l). b < 128)"
proof -
  have "word_of_nat (of_char c) \<noteq> (13 :: u8)" "word_of_nat (of_char c) < (128 :: u8)" if "c \<in> set l" for c
  proof -
    have c: "(of_char c :: nat) < 128" "c \<noteq> CHR 0x0D" using assms that by (auto simp: ascii_line_def)
    then show "word_of_nat (of_char c) < (128 :: u8)" by (simp add: word_less_nat_alt)
    show "word_of_nat (of_char c) \<noteq> (13 :: u8)"
    proof
      assume "word_of_nat (of_char c) = (13 :: u8)"
      then have "unat (word_of_nat (of_char c) :: u8) = 13" by simp
      then have "(of_char c :: nat) = of_char (CHR 0x0D)" by simp
      then show False using c(2) by (simp only: of_char_eq_iff)
    qed
  qed
  then show ?thesis using assms by (auto simp: as_bytes_def ascii_line_def)
qed

lemma plain_ascii: "plain_word s \<Longrightarrow> ascii_line s"
  by (auto simp: plain_word_def plain_char_def ascii_line_def)

lemma ascii_line_append: "ascii_line a \<Longrightarrow> b = [] \<or> ascii_line b \<Longrightarrow> ascii_line (a @ b)"
  by (cases "b = []") (simp_all add: ascii_line_def ball_Un)

lemma request_lines_ascii:
  assumes "request_ok q" and "\<And>i n. 0 < n \<Longrightarrow> rnd i n < n"
  shows "\<forall>l \<in> set (request_lines rnd q). ascii_line l"
proof -
  have u: "plain_word (pick_uri rnd q)"
    using assms pick_str_in [of "rq_uri q" "rnd 0"] by (auto simp: request_ok_def pick_uri_def)
  have sp: "ascii_line '' ''" "ascii_line '': ''" by (simp_all add: ascii_line_def)
  have "ascii_line (get_method_value q @ '' '' @ pick_uri rnd q @ '' '' @ get_full_version (rq_version q))"
    using assms(1) u by (intro ascii_line_append disjI2 sp) (auto simp: request_ok_def plain_ascii)
  moreover have "ascii_line l" if "l \<in> set (pick_headers rnd (rq_header q))" for l
  proof -
    from that obtain i h where ih: "(i, h) \<in> set (enumerate 0 (rq_header q))"
      and l: "l = hdr_name h @ '': '' @ pick_str (rnd (Suc i)) (hdr_value h)" by (force simp: pick_headers_def)
    from ih have h: "h \<in> set (rq_header q)" using nth_mem [of i "rq_header q"] by (auto simp: in_set_enumerate_eq)
    have "pick_str (rnd (Suc i)) (hdr_value h) = [] \<or> ascii_line (pick_str (rnd (Suc i)) (hdr_value h))"
    proof -
      have "\<forall>v \<in> set (hdr_value h). v = [] \<or> ascii_line v" using assms(1) h by (simp add: request_ok_def)
      moreover have "hdr_value h = [] \<or> rnd (Suc i) (length (hdr_value h)) < length (hdr_value h)"
        using assms(2) by (cases "hdr_value h") auto
      ultimately show ?thesis using pick_str_cases [of "hdr_value h" "rnd (Suc i)"] by auto
    qed
    note v = ascii_line_append [OF sp(2) this]
    show ?thesis
      unfolding l by (rule ascii_line_append [OF _ disjI2, OF _ v]) (use assms(1) h in \<open>simp add: request_ok_def\<close>)
  qed
  ultimately show ?thesis by (simp add: request_lines_def)
qed

lemma request_header_found:
  assumes "request_ok q" and "\<And>i n. 0 < n \<Longrightarrow> rnd i n < n"
  shows "find_sub blank_line (build_request_header rnd q) = Some (length (build_request_header rnd q) - 4)"
    and "4 \<le> length (build_request_header rnd q)"
proof -
  have ls: "\<forall>l \<in> set (map as_bytes (request_lines rnd q)). l \<noteq> [] \<and> 13 \<notin> set l"
    using request_lines_ascii [of q rnd, OF assms] by (simp add: ascii_line_bytes)
  have "map as_bytes (request_lines rnd q) \<noteq> []" by (simp add: request_lines_def)
  from find_blank_lines [OF this ls, of "[]"]
  show "find_sub blank_line (build_request_header rnd q) = Some (length (build_request_header rnd q) - 4)"
    by (simp add: build_request_lines as_bytes_header_lines del: map_map)
  show "4 \<le> length (build_request_header rnd q)"
    by (simp add: build_request_lines request_lines_def header_lines_def)
qed

lemma request_path:
  assumes "request_ok q" and "\<And>i n. 0 < n \<Longrightarrow> rnd i n < n"
  shows "check_path (Some q) (take (length (build_request_header rnd q) - 4) (build_request_header rnd q)) = Ok ()"
proof -
  let ?m = "get_method_value q" and ?u = "pick_uri rnd q"
  let ?hs = "pick_headers rnd (rq_header q)"
  define rest where "rest = get_full_version (rq_version q) @ concat (map (\<lambda>l. crlf_str @ l) ?hs)"
  have shift: "header_lines (l # ls) = l @ concat (map (\<lambda>l. crlf_str @ l) ls) @ crlf_str" for l ls
    by (induction ls arbitrary: l) (simp_all add: header_lines_def)
  have h: "build_request_header rnd q = as_bytes (?m @ CHR '' '' # ?u @ CHR '' '' # rest) @ blank_line"
    by (simp add: build_request_lines request_lines_def shift rest_def as_bytes_def)
  then have t: "take (length (build_request_header rnd q) - 4) (build_request_header rnd q) = as_bytes (?m @ CHR '' '' # ?u @ CHR '' '' # rest)"
    by simp
  have u: "?u \<in> set (rq_uri q)" using assms pick_str_in [of "rq_uri q" "rnd 0"] by (auto simp: request_ok_def pick_uri_def)
  then have w: "plain_word ?m" "plain_word ?u" using assms(1) by (auto simp: request_ok_def)
  have "\<forall>b \<in> set (build_request_header rnd q). b < 128"
  proof -
    have "\<forall>l \<in> set (request_lines rnd q). \<forall>b \<in> set (as_bytes l). b < 128" using request_lines_ascii [of q rnd, OF assms] by (metis ascii_line_bytes)
    then show ?thesis by (auto simp: build_request_lines as_bytes_header_lines)
  qed
  then have "valid_utf8 (as_bytes (?m @ CHR '' '' # ?u @ CHR '' '' # rest))" by (intro valid_utf8_ascii) (simp add: h)
  then show ?thesis using u w unfolding t
    by (simp add: check_path_def split_whitespace_word Let_def list_ex_iff split: list.split)
qed

text \<open>C30. The HTTP disguise is transparent for the server: whatever the random choices and however the network cuts the stream, a client's
  header of the same configuration, of at most 8 KiB, is accepted and removed, the response header is
  sent, and the bytes the server then reads are exactly what the client sent behind its header.\<close>
theorem http_header_transparent:
  assumes "hc_request cfg = Some q" and "request_ok q" and "\<And>i n. 0 < n \<Longrightarrow> rnd i n < n" and "pwr_err cl = None"
    and "client_handshake rnd cfg cl = Ok hc" and "piecewise c" and "pwr_err c = None"
    and "pout cl @ pbytes c = pout (hc_inner hc) @ payload"
    and "length (build_request_header rnd q) \<le> MAX_HEADER_LENGTH"
  shows "\<exists>sc. server_handshake rnd' date cfg c = Ok sc \<and> hc_bytes sc = payload \<and> piecewise (hc_inner sc) \<and>
    pout (hc_inner sc) = pout c @ (case hc_response cfg of Some r \<Rightarrow> build_response_header rnd' date r | None \<Rightarrow> [])"
proof -
  let ?h = "build_request_header rnd q"
  have "pout (hc_inner hc) = pout cl @ ?h" using assms(1,4,5) by (auto simp: client_handshake_def pwrite_def HttpConn_new_def)
  then have b: "[] @ pbytes c = ?h @ payload" using assms(8) by simp
  note f = request_header_found [of q rnd, OF assms(2,3)]
  have early: "header_decide (Some q) b = None" if "strict_prefix b ?h" for b
  proof -
    have "find_sub blank_line b = None"
      using f that by (intro find_sub_strict_prefix [of blank_line ?h b]) (simp_all add: eval_nat_numeral)
    moreover have "length b \<le> MAX_HEADER_LENGTH" using prefix_length_less [OF that] assms(9) by simp
    ultimately show ?thesis by (simp add: header_decide_def)
  qed
  have hit: "header_decide (Some q) (?h @ x) = Some (Ok x)" for x
    using find_sub_prefix [OF f(1), of x] request_path [of q rnd, OF assms(2,3)] f(2) by (simp add: header_decide_def)
  have len: "length [] < length ?h" using f(2) by auto
  have "\<exists>x c'. http_read_header (hc_request cfg) c = (Ok x, c') \<and> x @ pbytes c' = payload \<and> piecewise c' \<and> same_out c c'"
    unfolding http_read_header_def assms(1) by (rule accumulate_complete [OF assms(6) b len]) (simp_all add: early hit)
  then show ?thesis using assms(7)
    by (auto simp: server_handshake_def pwrite_def same_out_def hc_bytes_def piecewise_def pbytes_def split: option.splits)
qed


definition sample_request :: RequestConfig where
  "sample_request = \<lparr>rq_version = None, rq_method = None, rq_uri = [''/a'', ''/b''],
     rq_header = [\<lparr>hdr_name = ''Host'', hdr_value = [''x.org'']\<rparr>]\<rparr>"

definition sample_pconn :: "u8 list list \<Rightarrow> pconn" where
  "sample_pconn ps = \<lparr>pieces = ps, pend = None, pout = [], pwr_err = None\<rparr>"

theorem http_header_transparent_witness:
  "\<exists>sc. server_handshake (\<lambda>_ _. 0) ''now'' \<lparr>hc_request = Some sample_request, hc_response = None\<rparr>
     (sample_pconn [take 30 (build_request_header (\<lambda>i n. n - 1) sample_request),
       drop 30 (build_request_header (\<lambda>i n. n - 1) sample_request) @ [1, 2], [3]]) = Ok sc \<and> hc_bytes sc = [1, 2, 3]"
proof -
  let ?rnd = "\<lambda>i n. n - 1 :: nat" and ?cfg = "\<lparr>hc_request = Some sample_request, hc_response = None\<rparr>"
  let ?h = "build_request_header ?rnd sample_request"
  let ?c = "sample_pconn [take 30 ?h, drop 30 ?h @ [1, 2], [3]]"
  have ok: "request_ok sample_request"
    by (simp add: request_ok_def sample_request_def plain_word_def plain_char_def get_method_value_def get_full_version_def
        version_or_default_def ascii_line_def)
  have l: "length ?h = 32"
    by (simp add: build_request_header_def sample_request_def get_method_value_def get_full_version_def
        version_or_default_def pick_uri_def pick_str_def header_lines_def pick_headers_def)
  have ne: "?h \<noteq> []" using l by auto
  have hs: "client_handshake ?rnd ?cfg (sample_pconn []) = Ok (HttpConn_new ((sample_pconn [])\<lparr>pout := ?h\<rparr>))"
    by (simp add: client_handshake_def pwrite_def sample_pconn_def)
  have "\<exists>sc. server_handshake (\<lambda>_ _. 0) ''now'' ?cfg ?c = Ok sc \<and> hc_bytes sc = [1, 2, 3] \<and> piecewise (hc_inner sc) \<and>
    pout (hc_inner sc) = pout ?c @ (case hc_response ?cfg of Some r \<Rightarrow> build_response_header (\<lambda>_ _. 0) ''now'' r | None \<Rightarrow> [])"
    using l ne by (intro http_header_transparent [OF _ ok _ _ hs])
      (simp_all add: sample_pconn_def piecewise_def pbytes_def HttpConn_new_def MAX_HEADER_LENGTH_def)
  then show ?thesis by blast
qed

text \<open>
  The client never removes the server's response header: what it reads starts with it.
\<close>
lemma http_client_reads_header:
  assumes "client_handshake rnd cfg cl = Ok hc" and "pbytes cl = build_response_header rnd' date r @ payload"
  shows "hc_bytes hc = build_response_header rnd' date r @ payload"
  using assms by (auto simp: client_handshake_def pwrite_def hc_bytes_def HttpConn_new_def pbytes_def split: option.splits)

end
