(* ===== verification/Proxy_Io.thy ===== *)
theory Proxy_Io
  imports Dispatcher
begin

text \<open>
  What the proxy protocols share: reading and writing on a connection, and the address formats of
  their headers. A connection is the bytes still to arrive, the error that ends them, the bytes
  written so far and the error of a broken writer.
\<close>

section \<open>Sessions with a target\<close>

definition with_target :: "Destination \<Rightarrow> Session \<Rightarrow> Session" where
  "with_target dest s =
     s\<lparr>outbound := Some \<lparr>ob_target = dest, original_target = dest, route_target = None, ob_tag = []\<rparr>\<rparr>"

section \<open>Connections\<close>

record conn =
  inp :: "u8 list"
  in_err :: string
  outp :: "u8 list"
  wr_err :: "string option"

type_synonym 'a cio = "conn \<Rightarrow> (string, 'a) res \<times> conn"

definition cret :: "'a \<Rightarrow> 'a cio" where "cret x c = (Ok x, c)"
definition cerr :: "string \<Rightarrow> 'a cio" where "cerr e c = (Err e, c)"

definition cbind :: "'a cio \<Rightarrow> ('a \<Rightarrow> 'b cio) \<Rightarrow> 'b cio" where
  "cbind m f c =
     (case m c of (Ok x, c') \<Rightarrow> f x c' | (Err e, c') \<Rightarrow> (Err e, c') | (Panic, c') \<Rightarrow> (Panic, c'))"

definition clift :: "(string, 'a) res \<Rightarrow> 'a cio" where "clift r c = (r, c)"

text \<open>\<open>read_exact\<close>: all \<open>n\<close> bytes, or the error that ends the input, prefixed by the caller's text.\<close>

definition cread :: "string \<Rightarrow> nat \<Rightarrow> u8 list cio" where
  "cread msg n c =
     (if length (inp c) < n then (Err (msg @ in_err c), c\<lparr>inp := []\<rparr>)
      else (Ok (take n (inp c)), c\<lparr>inp := drop n (inp c)\<rparr>))"

definition cread_u8 :: "string \<Rightarrow> u8 cio" where
  "cread_u8 msg = cbind (cread msg 1) (\<lambda>bs. cret (hd bs))"

definition cread_u16 :: "string \<Rightarrow> u16 cio" where
  "cread_u16 msg = cbind (cread msg 2) (\<lambda>bs. cret (from_be16 bs))"

definition cwrite :: "string \<Rightarrow> u8 list \<Rightarrow> unit cio" where
  "cwrite msg bs c =
     (case wr_err c of Some e \<Rightarrow> (Err (msg @ e), c) | None \<Rightarrow> (Ok (), c\<lparr>outp := outp c @ bs\<rparr>))"

text \<open>A connection with a working writer.\<close>

definition open_conn :: "u8 list \<Rightarrow> string \<Rightarrow> u8 list \<Rightarrow> conn" where
  "open_conn i e o' = \<lparr>inp = i, in_err = e, outp = o', wr_err = None\<rparr>"

named_theorems cio

lemma cret_run [cio]: "cret x c = (Ok x, c)" by (simp add: cret_def)
lemma cerr_run [cio]: "cerr e c = (Err e, c)" by (simp add: cerr_def)
lemma clift_run [cio]: "clift r c = (r, c)" by (simp add: clift_def)

lemma cread_app [cio]: "length bs = n \<Longrightarrow> cread m n (open_conn (bs @ r) e w) = (Ok bs, open_conn r e w)"
  by (simp add: cread_def open_conn_def)

lemma cread_0 [cio]: "cread m 0 (open_conn r e w) = (Ok [], open_conn r e w)"
  by (simp add: cread_def open_conn_def)

lemma cread_u8_run [cio]: "cread_u8 m (open_conn (b # r) e w) = (Ok b, open_conn r e w)"
  by (simp add: cread_u8_def cbind_def cret_def cread_def open_conn_def)

lemma cread_u16_run [cio]: "cread_u16 m (open_conn (to_be16 x @ r) e w) = (Ok x, open_conn r e w)"
  by (simp add: cread_u16_def cbind_def cret_def cread_app)

lemma cwrite_run [cio]: "cwrite m bs (open_conn r e w) = (Ok (), open_conn r e (w @ bs))"
  by (simp add: cwrite_def open_conn_def)

lemma cbind_Ok [cio]: "m c = (Ok x, c') \<Longrightarrow> cbind m f c = f x c'"
  by (simp add: cbind_def)

lemma cbind_Err [cio]: "m c = (Err e, c') \<Longrightarrow> cbind m f c = (Err e, c')"
  by (simp add: cbind_def)

lemma cbind_eq_Ok:
  "cbind m f c = (Ok y, c') \<longleftrightarrow> (\<exists>x d. m c = (Ok x, d) \<and> f x d = (Ok y, c'))"
  by (auto simp: cbind_def split: prod.splits res.splits)

section \<open>Addresses in headers\<close>

text \<open>
  The type bytes of a format, the texts of its errors, and how the bytes of a domain become text
  (checked, or with replacement characters).
\<close>

record addr_fmt =
  tag_v4 :: u8
  tag_v6 :: u8
  tag_domain :: u8
  short_v4 :: string
  short_v6 :: string
  short_dlen :: string
  short_domain :: string
  bad_text :: string
  unknown_tag :: "u8 \<Rightarrow> string"
  text_of :: "u8 list \<Rightarrow> string option"

definition strict_text :: "u8 list \<Rightarrow> string option" where
  "strict_text bs = (if valid_utf8 bs then Some (of_bytes bs) else None)"

definition lossy_text :: "u8 list \<Rightarrow> string option" where
  "lossy_text bs = Some (of_bytes (from_utf8_lossy bs))"

text \<open>The address behind the type byte, and the offset after it.\<close>

definition take_addr :: "addr_fmt \<Rightarrow> u8 \<Rightarrow> u8 list \<Rightarrow> nat \<Rightarrow> (string, Address \<times> nat) res" where
  "take_addr f atype data off =
     (if atype = tag_v4 f then
        if length data < off + 4 then Err (short_v4 f) else Ok (Ipv4 (take 4 (drop off data)), off + 4)
      else if atype = tag_v6 f then
        if length data < off + 16 then Err (short_v6 f) else Ok (Ipv6 (take 16 (drop off data)), off + 16)
      else if atype = tag_domain f then
        if length data < off + 1 then Err (short_dlen f)
        else let dlen = unat (data ! off) in
          if length data < off + 1 + dlen then Err (short_domain f)
          else (case text_of f (take dlen (drop (off + 1) data)) of
                  Some s \<Rightarrow> Ok (Domain_a s, off + 1 + dlen)
                | None \<Rightarrow> Err (bad_text f))
      else Err (unknown_tag f atype))"

fun addr_tag :: "addr_fmt \<Rightarrow> Address \<Rightarrow> u8" where
  "addr_tag f (Ipv4 _) = tag_v4 f"
| "addr_tag f (Ipv6 _) = tag_v6 f"
| "addr_tag f (Domain_a _) = tag_domain f"

fun addr_body :: "Address \<Rightarrow> u8 list" where
  "addr_body (Ipv4 os) = os"
| "addr_body (Ipv6 os) = os"
| "addr_body (Domain_a d) = word_of_nat (length d) # as_bytes d"

text \<open>Addresses a header can carry: domains of at most 255 bytes of valid text.\<close>

fun addr_fits :: "Address \<Rightarrow> bool" where
  "addr_fits (Ipv4 os) = (length os = 4)"
| "addr_fits (Ipv6 os) = (length os = 16)"
| "addr_fits (Domain_a d) = (length d \<le> 255 \<and> valid_utf8 (as_bytes d))"

definition fmt_ok :: "addr_fmt \<Rightarrow> bool" where
  "fmt_ok f \<longleftrightarrow> distinct [tag_v4 f, tag_v6 f, tag_domain f] \<and> (\<forall>bs. valid_utf8 bs \<longrightarrow> text_of f bs = Some (of_bytes bs))"

lemma strict_text_valid: "valid_utf8 bs \<Longrightarrow> strict_text bs = Some (of_bytes bs)"
  by (simp add: strict_text_def)

lemma lossy_text_valid: "valid_utf8 bs \<Longrightarrow> lossy_text bs = Some (of_bytes bs)"
  by (simp add: lossy_text_def from_utf8_lossy_valid)

lemma take_addr_body:
  assumes "fmt_ok f" and "addr_fits a"
  shows "take_addr f (addr_tag f a) (pre @ addr_body a @ post) (length pre) = Ok (a, length pre + length (addr_body a))"
proof (cases a)
  case (Domain_a d)
  then have n: "unat (word_of_nat (length d) :: u8) = length d" using assms(2) by (simp add: unat_of_nat)
  then show ?thesis using assms Domain_a by (auto simp: take_addr_def fmt_ok_def Let_def nth_append)
qed (use assms in \<open>auto simp: take_addr_def fmt_ok_def\<close>)

lemma take_addr_Ok:
  assumes "take_addr f t data off = Ok (a, off')" and "off \<le> length data"
  shows "off' \<le> length data \<and> off < off' \<and> address_wf a"
  using assms by (auto simp: take_addr_def Let_def split: if_splits option.splits)

lemma take_addr_no_panic [simp]: "take_addr f t data off \<noteq> Panic"
  by (simp add: take_addr_def Let_def split: option.splits)

text \<open>The same address read from a connection, each read with the caller's text.\<close>

definition read_addr :: "addr_fmt \<Rightarrow> string \<Rightarrow> string \<Rightarrow> string \<Rightarrow> string \<Rightarrow> u8 \<Rightarrow> Address cio" where
  "read_addr f m4 m6 ml md atype =
     (if atype = tag_v4 f then cbind (cread m4 4) (\<lambda>bs. cret (Ipv4 bs))
      else if atype = tag_v6 f then cbind (cread m6 16) (\<lambda>bs. cret (Ipv6 bs))
      else if atype = tag_domain f then
        cbind (cread_u8 ml) (\<lambda>n. cbind (cread md (unat n)) (\<lambda>bs.
          case text_of f bs of Some s \<Rightarrow> cret (Domain_a s) | None \<Rightarrow> cerr (bad_text f)))
      else cerr (unknown_tag f atype))"

lemma read_addr_body [cio]:
  assumes "fmt_ok f" and "addr_fits a"
  shows "read_addr f m4 m6 ml md (addr_tag f a) (open_conn (addr_body a @ r) e w) = (Ok a, open_conn r e w)"
proof (cases a)
  case (Domain_a d)
  then have n: "unat (word_of_nat (length d) :: u8) = length d" using assms(2) by (simp add: unat_of_nat)
  have "cread md (length d) (open_conn (as_bytes d @ r) e w) = (Ok (as_bytes d), open_conn r e w)"
    by (rule cread_app) simp
  then show ?thesis using assms Domain_a n by (auto simp: read_addr_def fmt_ok_def cio cbind_def)
next
  case (Ipv4 os)
  then have "cread m4 4 (open_conn (os @ r) e w) = (Ok os, open_conn r e w)" using assms(2) by (intro cread_app) simp
  then show ?thesis using Ipv4 by (simp add: read_addr_def cbind_def cio)
next
  case (Ipv6 os)
  then have "cread m6 16 (open_conn (os @ r) e w) = (Ok os, open_conn r e w)" using assms(2) by (intro cread_app) simp
  then show ?thesis using Ipv6 assms(1) by (auto simp: read_addr_def cbind_def cio fmt_ok_def)
qed

end
