(* ===== verification/Http_Proxy.thy ===== *)
theory Http_Proxy
  imports Http_Header Proxy_Io
begin

text \<open>
  \<^verbatim>\<open>proxy-http\<close>: the CONNECT proxy, both sides. Base64 (crate \<^verbatim>\<open>base64\<close>) and Unicode case mapping are arguments; the inbound handler
  is modelled up to the dispatch, the outbound handler up to the relay, with the bytes each of them keeps.
\<close>

section \<open>Inbound (lib.rs)\<close>

record HttpConfig =
  accounts :: "(string \<times> string) list"
  allow_transparent :: bool
  user_level :: u32

definition has_account :: "string \<Rightarrow> string \<Rightarrow> HttpConfig \<Rightarrow> bool" where
  "has_account username password cfg \<longleftrightarrow> map_of (accounts cfg) username = Some password"

text \<open>What the handlers use of other crates and of Unicode.\<close>

record text_env =
  b64_encode :: "u8 list \<Rightarrow> string"
  b64_decode :: "string \<Rightarrow> u8 list option"
  to_lower :: "string \<Rightarrow> string"
  to_upper :: "string \<Rightarrow> string"

definition parse_basic_auth :: "text_env \<Rightarrow> string \<Rightarrow> (string \<times> string) option" where
  "parse_basic_auth E header =
     (if \<not> starts_with ''Basic '' header then None
      else case b64_decode E (drop 6 header) of
        None \<Rightarrow> None
      | Some d \<Rightarrow> if \<not> valid_utf8 d then None else split_once (CHR '':'') (of_bytes d))"

function read_headers :: "buf_reader \<Rightarrow> (string, string list) res \<times> buf_reader" where
  "read_headers r =
     (case read_line ''http read header: '' r of
        (Ok l, r') \<Rightarrow>
          if l = crlf_str \<or> l = [CHR 0x0A] \<or> l = [] then (Ok [], r')
          else (case read_headers r' of
                  (Ok hs, r'') \<Rightarrow> (Ok (trim_end_matches (CHR 0x0A) (trim_end_str crlf_str l) # hs), r'')
                | (Err e, r'') \<Rightarrow> (Err e, r'')
                | (Panic, r'') \<Rightarrow> (Panic, r''))
      | (Err e, r') \<Rightarrow> (Err e, r')
      | (Panic, r') \<Rightarrow> (Panic, r'))"
  by pat_completeness auto
termination
  by (relation "measure (length \<circ> rbytes)") (auto intro: read_line_less)

declare read_headers.simps [simp del]

definition is_auth_header :: "text_env \<Rightarrow> string \<Rightarrow> bool" where
  "is_auth_header E h \<longleftrightarrow> starts_with ''proxy-authorization:'' (to_lower E h)"

definition authed :: "text_env \<Rightarrow> HttpConfig \<Rightarrow> string list \<Rightarrow> bool" where
  "authed E cfg headers =
     (case find (is_auth_header E) headers of
        Some h \<Rightarrow>
          let v = trim (case split_once (CHR '':'') h of Some (_, x) \<Rightarrow> x | None \<Rightarrow> []) in
          (case parse_basic_auth E v of Some (u, p) \<Rightarrow> has_account u p cfg | None \<Rightarrow> False)
      | None \<Rightarrow> False)"

definition reply_407 :: string where
  "reply_407 =
     ''HTTP/1.1 407 Proxy Authentication Required'' @ crlf_str @ ''Proxy-Authenticate: Basic realm='' @ [CHR 0x22] @ ''proxy'' @
     [CHR 0x22] @ crlf_str @ crlf_str"

definition reply_405 :: string where "reply_405 = ''HTTP/1.1 405 Method Not Allowed'' @ crlf_str @ crlf_str"
definition reply_400 :: string where "reply_400 = ''HTTP/1.1 400 Bad Request'' @ crlf_str @ crlf_str"
definition reply_200 :: string where "reply_200 = ''HTTP/1.1 200 Connection Established'' @ crlf_str @ crlf_str"

text \<open>A reply on the connection taken out of the buffered reader, then the error.\<close>

definition refuse :: "string \<Rightarrow> string \<Rightarrow> string \<Rightarrow> pconn \<Rightarrow> (string, 'a) res \<times> pconn" where
  "refuse msg reply err c =
     (case pwrite msg (as_bytes reply) c of
        (Ok _, c') \<Rightarrow> (Err err, c') | (Err e, c') \<Rightarrow> (Err e, c') | (Panic, c') \<Rightarrow> (Panic, c'))"

definition http_connect :: "text_env \<Rightarrow> Session \<Rightarrow> string \<Rightarrow> string \<Rightarrow> pconn \<Rightarrow> (string, Session \<times> Destination) res \<times> pconn" where
  "http_connect E session meth uri c =
     (if to_upper E meth \<noteq> ''CONNECT'' then refuse ''http write 405: '' reply_405 (''unsupported method: '' @ meth) c
      else
        let parts = split_char (CHR '':'') uri in
        if length parts \<noteq> 2 then refuse ''http write 400: '' reply_400 (''invalid CONNECT URI: '' @ uri) c
        else case parse_u16 (parts ! 1) of
          None \<Rightarrow> (Err (''invalid port: '' @ parts ! 1), c)
        | Some n \<Rightarrow>
            let dest = \<lparr>address = ParseAddress (parts ! 0), port = Port (word_of_nat n), network = Tcp\<rparr> in
            (case pwrite ''http reply 200: '' (as_bytes reply_200) c of
               (Ok _, c') \<Rightarrow> (Ok (with_target dest session, dest), c')
             | (Err e, c') \<Rightarrow> (Err e, c')
             | (Panic, c') \<Rightarrow> (Panic, c')))"

definition http_inbound :: "text_env \<Rightarrow> HttpConfig \<Rightarrow> Session \<Rightarrow> pconn \<Rightarrow> (string, Session \<times> Destination) res \<times> pconn" where
  "http_inbound E cfg session c =
     (case read_line ''http read request line: '' ([], c) of
        (Ok first_line, r) \<Rightarrow>
          let parts = split_whitespace first_line in
          if length parts < 2 then (Err ''invalid HTTP request line'', snd r)
          else
            (case read_headers r of
               (Ok headers, r') \<Rightarrow>
                 if accounts cfg \<noteq> [] \<and> \<not> authed E cfg headers
                 then refuse ''http write 407: '' reply_407 ''auth required'' (snd r')
                 else http_connect E session (parts ! 0) (parts ! 1) (snd r')
             | (Err e, r') \<Rightarrow> (Err e, snd r')
             | (Panic, r') \<Rightarrow> (Panic, snd r'))
      | (Err e, r) \<Rightarrow> (Err e, snd r)
      | (Panic, r) \<Rightarrow> (Panic, snd r))"

section \<open>Outbound (outbound.rs)\<close>

record HttpOutboundConfig =
  ho_server_address :: Address
  ho_server_port :: Port
  ho_username :: string
  ho_password :: string

definition connect_request :: "text_env \<Rightarrow> HttpOutboundConfig \<Rightarrow> Destination \<Rightarrow> string" where
  "connect_request E cfg target =
     (let t = show_address (address target) @ '':'' @ show_port (port target) in
      ''CONNECT '' @ t @ '' HTTP/1.1'' @ crlf_str @ ''Host: '' @ t @ crlf_str @
      (if ho_username cfg \<noteq> [] then
         ''Proxy-Authorization: Basic '' @ b64_encode E (as_bytes (ho_username cfg @ '':'' @ ho_password cfg)) @ crlf_str
       else []) @
      ''Proxy-Connection: Keep-Alive'' @ crlf_str @ crlf_str)"

definition reply_decide :: "u8 list \<Rightarrow> (string, u8 list) res option" where
  "reply_decide data =
     (case find_sub blank_line data of
        Some hdr_end \<Rightarrow>
          let status = takeWhile (\<lambda>b. b \<noteq> 13) (take hdr_end data) in
          Some (if \<not> valid_utf8 status then Err ''invalid status line''
                else if \<not> contains_str ''200'' (of_bytes status) then Err ''proxy rejected CONNECT request''
                else Ok (drop (hdr_end + 4) data))
      | None \<Rightarrow> None)"

definition read_connect_reply :: "pconn \<Rightarrow> (string, u8 list) res \<times> pconn" where
  "read_connect_reply c =
     accumulate (\<lambda>pos. 4096 - pos) ''http read response: '' ''connection closed during handshake'' reply_decide [] c"

text \<open>The bytes behind the reply, which go to the link first, and the connection for the relay.\<close>

definition http_outbound ::
  "text_env \<Rightarrow> (Session \<Rightarrow> Destination \<Rightarrow> (string, pconn) res) \<Rightarrow> HttpOutboundConfig \<Rightarrow> Session \<Rightarrow> (string, u8 list \<times> pconn) res" where
  "http_outbound E dial cfg session =
     (case outbound session of
        None \<Rightarrow> Err ''no target''
      | Some ob \<Rightarrow>
          let target = ob_target ob in
          if network target = Udp then Err ''UDP not supported by HTTP outbound''
          else
            rbind (dial session \<lparr>address = ho_server_address cfg, port = ho_server_port cfg, network = Tcp\<rparr>) (\<lambda>remote.
              case pwrite ''http connect write: '' (as_bytes (connect_request E cfg target)) remote of
                (Ok _, c) \<Rightarrow>
                  (case read_connect_reply c of
                     (Ok rest, c') \<Rightarrow> Ok (rest, c') | (Err e, _) \<Rightarrow> Err e | (Panic, _) \<Rightarrow> Panic)
              | (Err e, _) \<Rightarrow> Err e
              | (Panic, _) \<Rightarrow> Panic))"

section \<open>Lines of a request\<close>

definition http_line :: "string \<Rightarrow> bool" where
  "http_line l \<longleftrightarrow> ascii_line l \<and> CHR 0x0A \<notin> set l"

lemma http_line_append: "http_line a \<Longrightarrow> http_line b \<Longrightarrow> http_line (a @ b)"
  by (simp add: http_line_def ascii_line_append)

lemma http_line_plain: "plain_word t \<Longrightarrow> http_line t"
  using plain_ascii [of t] by (auto simp: http_line_def plain_word_def plain_char_def)

lemma ascii_valid: "\<forall>c \<in> set l. (of_char c :: nat) < 128 \<Longrightarrow> valid_utf8 (as_bytes l)"
  by (intro valid_utf8_ascii) (auto simp: as_bytes_def word_less_nat_alt)

lemma as_bytes_append: "as_bytes (a @ b) = as_bytes a @ as_bytes b"
  by (simp add: as_bytes_def)

lemma as_bytes_crlf: "as_bytes crlf_str = [13, 10]"
  by (simp add: as_bytes_def)

lemma read_line_crlf:
  assumes "piecewise (snd r)" and "rbytes r = as_bytes (l @ crlf_str) @ t" and "l = [] \<or> http_line l"
  obtains r' where "read_line msg r = (Ok (l @ crlf_str), r')" "rbytes r' = t" "piecewise (snd r')" "same_out (snd r) (snd r')"
proof -
  have "rbytes r = as_bytes (l @ [CHR 0x0D]) @ 10 # t" using assms(2) by (simp add: as_bytes_def)
  moreover have "CHR 0x0A \<notin> set (l @ [CHR 0x0D])" using assms(3) by (auto simp: http_line_def)
  moreover have "valid_utf8 (as_bytes (l @ [CHR 0x0D]) @ [10])"
    using assms(3) ascii_valid [of "l @ crlf_str"] by (auto simp: http_line_def ascii_line_def as_bytes_def)
  ultimately show thesis using read_line_ok [OF assms(1)] that by (metis append.assoc append_Cons append_Nil)
qed

lemma trim_line: "http_line l \<Longrightarrow> trim_end_matches (CHR 0x0A) (trim_end_str crlf_str (l @ crlf_str)) = l"
proof -
  assume l: "http_line l"
  have s: "trim_end_str crlf_str l = l" if "CHR 0x0D \<notin> set l" for l
  proof -
    have "\<not> ends_with crlf_str l"
    proof
      assume "ends_with crlf_str l"
      then have "take 2 (rev l) = [CHR 0x0A, CHR 0x0D]" by (simp add: ends_with_def starts_with_def eval_nat_numeral)
      then have "CHR 0x0D \<in> set (rev l)" by (metis in_set_takeD list.set_intros)
      then show False using that by simp
    qed
    then show ?thesis by (subst trim_end_str.simps) simp
  qed
  have "ends_with crlf_str (l @ crlf_str)" by (simp add: ends_with_def starts_with_def)
  then have "trim_end_str crlf_str (l @ crlf_str) = l"
    using s [of l] l by (subst trim_end_str.simps) (auto simp: http_line_def ascii_line_def)
  moreover have "trim_end_matches (CHR 0x0A) l = l"
    using l by (cases "rev l") (auto simp: trim_end_matches_def http_line_def)
  ultimately show ?thesis by simp
qed

lemma read_headers_lines:
  assumes "piecewise (snd r)" and "rbytes r = as_bytes (header_lines ls @ crlf_str) @ t" and "\<forall>l \<in> set ls. http_line l"
  shows "\<exists>r'. read_headers r = (Ok ls, r') \<and> rbytes r' = t \<and> piecewise (snd r') \<and> same_out (snd r) (snd r')"
  using assms
proof (induction ls arbitrary: r)
  case Nil
  then obtain r' where "read_line ''http read header: '' r = (Ok ([] @ crlf_str), r')" "rbytes r' = t" "piecewise (snd r')" "same_out (snd r) (snd r')"
    using read_line_crlf [of r "[]" t] by (auto simp: header_lines_def)
  then show ?case by (subst read_headers.simps) simp
next
  case (Cons l ls)
  have "rbytes r = as_bytes (l @ crlf_str) @ as_bytes (header_lines ls @ crlf_str) @ t"
    using Cons.prems(2) by (simp add: header_lines_def as_bytes_def)
  moreover have l: "http_line l" "l \<noteq> []" using Cons.prems(3) by (auto simp: http_line_def ascii_line_def)
  ultimately obtain r1 where r1: "read_line ''http read header: '' r = (Ok (l @ crlf_str), r1)" "rbytes r1 = as_bytes (header_lines ls @ crlf_str) @ t"
    "piecewise (snd r1)" "same_out (snd r) (snd r1)" using read_line_crlf [OF Cons.prems(1)] by metis
  from Cons.IH [OF r1(3,2)] Cons.prems(3) obtain r' where
    "read_headers r1 = (Ok ls, r')" "rbytes r' = t" "piecewise (snd r')" "same_out (snd r1) (snd r')" by auto
  moreover have "l @ crlf_str \<noteq> crlf_str" "l @ crlf_str \<noteq> [CHR 0x0A]" using l(2) by (auto simp: append_eq_Cons_conv)
  ultimately show ?case using r1 same_out_trans [OF r1(4)] trim_line [OF l(1)] by (subst read_headers.simps) auto
qed

section \<open>Text of credentials and targets\<close>

lemma whitespace_lasts: "w \<in> set whitespace \<Longrightarrow> \<not> plain_char (last w)"
  by (auto simp: whitespace_def plain_char_def)

lemma trim_end_plain: "s \<noteq> [] \<Longrightarrow> plain_char (last s) \<Longrightarrow> trim_end s = s"
proof -
  assume "s \<noteq> []" "plain_char (last s)"
  then have "trim_prefixes (map rev whitespace) (rev s) = rev s"
    using whitespace_lasts by (intro trim_prefixes_none) (auto simp: hd_rev dest!: starts_with_hd)
  then show ?thesis by (simp add: trim_end_def)
qed

lemma trim_start_plain: "s \<noteq> [] \<Longrightarrow> plain_char (hd s) \<Longrightarrow> trim_start s = s"
  using whitespace_heads whitespace_nonempty
  by (auto simp: trim_start_def intro!: trim_prefixes_none dest!: starts_with_hd)

lemma find_nonempty: "\<forall>w \<in> set ws. w \<noteq> [] \<Longrightarrow> find (\<lambda>w. w \<noteq> [] \<and> P w) ws = find P ws"
  by (induction ws) auto

lemma trim_blank:
  assumes "s \<noteq> []" "plain_char (hd s)" "plain_char (last s)"
  shows "trim (CHR '' '' # s) = s"
proof -
  have "trim_prefixes whitespace (CHR '' '' # s) = trim_prefixes whitespace s"
    by (subst trim_prefixes.simps) (simp add: find_nonempty whitespace_nonempty whitespace_blank)
  then show ?thesis using trim_start_plain [OF assms(1,2)] trim_end_plain [OF assms(1,3)] by (simp add: trim_def trim_start_def)
qed

lemma split_char_none: "c \<notin> set a \<Longrightarrow> split_char c a = [a]"
  by (induction a) auto

lemma split_char_first: "c \<notin> set a \<Longrightarrow> split_char c (a @ c # b) = a # split_char c b"
  by (induction a) auto

text \<open>Base64 round trips into printable text; case mapping of Unicode maps ASCII letters one by one.\<close>

definition text_env_ok :: "text_env \<Rightarrow> bool" where
  "text_env_ok E \<longleftrightarrow> (\<forall>d. b64_decode E (b64_encode E d) = Some d) \<and> (\<forall>d. d \<noteq> [] \<longrightarrow> plain_word (b64_encode E d)) \<and>
     to_upper E ''CONNECT'' = ''CONNECT'' \<and>
     (\<forall>a b. (\<forall>c \<in> set a. (of_char c :: nat) < 128) \<longrightarrow> to_lower E (a @ b) = to_ascii_lowercase a @ to_lower E b)"

lemma lower_prefix: "text_env_ok E \<Longrightarrow> \<forall>c \<in> set a. (of_char c :: nat) < 128 \<Longrightarrow> to_lower E (a @ b) = to_ascii_lowercase a @ to_lower E b"
  by (simp add: text_env_ok_def)

definition auth_line :: "text_env \<Rightarrow> string \<Rightarrow> string \<Rightarrow> string" where
  "auth_line E u p = ''Proxy-Authorization: Basic '' @ b64_encode E (as_bytes (u @ '':'' @ p))"

definition request_headers :: "text_env \<Rightarrow> HttpOutboundConfig \<Rightarrow> string \<Rightarrow> string list" where
  "request_headers E cfg t =
     [''Host: '' @ t] @ (if ho_username cfg \<noteq> [] then [auth_line E (ho_username cfg) (ho_password cfg)] else []) @
     [''Proxy-Connection: Keep-Alive'']"

lemma connect_request_lines:
  "connect_request E cfg target =
     (let t = show_address (address target) @ '':'' @ show_port (port target) in
      (''CONNECT '' @ t @ '' HTTP/1.1'') @ crlf_str @ header_lines (request_headers E cfg t) @ crlf_str)"
  by (simp add: connect_request_def request_headers_def header_lines_def auth_line_def Let_def)

lemma not_auth_header:
  assumes "text_env_ok E"
  shows "\<not> is_auth_header E (''Host: '' @ t)" "\<not> is_auth_header E ''Proxy-Connection: Keep-Alive''"
proof -
  have "to_lower E (''Host: '' @ t) = to_ascii_lowercase ''Host: '' @ to_lower E t" by (rule lower_prefix [OF assms]) simp
  then show "\<not> is_auth_header E (''Host: '' @ t)"
    by (simp add: is_auth_header_def starts_with_def to_ascii_lowercase_def ascii_lower_char_def Let_def char_of_def)
  have "to_lower E (''Proxy-Connection: Keep-Alive'' @ []) = to_ascii_lowercase ''Proxy-Connection: Keep-Alive'' @ to_lower E []"
    by (rule lower_prefix [OF assms]) simp
  then show "\<not> is_auth_header E ''Proxy-Connection: Keep-Alive''"
    by (simp add: is_auth_header_def starts_with_def to_ascii_lowercase_def ascii_lower_char_def Let_def char_of_def)
qed

lemma auth_header:
  assumes "text_env_ok E"
  shows "is_auth_header E (auth_line E u p)"
proof -
  let ?a = "''Proxy-Authorization:''"
  have "to_lower E (?a @ ('' Basic '' @ b64_encode E (as_bytes (u @ '':'' @ p)))) = to_ascii_lowercase ?a @ to_lower E ('' Basic '' @ b64_encode E (as_bytes (u @ '':'' @ p)))"
    by (rule lower_prefix [OF assms]) simp
  moreover have "to_ascii_lowercase ?a = ''proxy-authorization:''" by code_simp
  ultimately show ?thesis by (simp add: is_auth_header_def starts_with_def auth_line_def)
qed

lemma parse_basic_auth_line:
  assumes "text_env_ok E" and "CHR '':'' \<notin> set u" and "valid_utf8 (as_bytes (u @ '':'' @ p))"
  shows "parse_basic_auth E (''Basic '' @ b64_encode E (as_bytes (u @ '':'' @ p))) = Some (u, p)"
  using assms split_once_append [OF assms(2), of p]
  by (simp add: parse_basic_auth_def starts_with_def text_env_ok_def)

lemma authed_request:
  assumes "text_env_ok E" and "CHR '':'' \<notin> set (ho_username cl)" and "valid_utf8 (as_bytes (ho_username cl @ '':'' @ ho_password cl))"
  shows "authed E cfg (request_headers E cl t) \<longleftrightarrow> ho_username cl \<noteq> [] \<and> has_account (ho_username cl) (ho_password cl) cfg"
proof (cases "ho_username cl = []")
  case True
  then show ?thesis using not_auth_header [OF assms(1)] by (simp add: authed_def request_headers_def)
next
  case False
  let ?enc = "b64_encode E (as_bytes (ho_username cl @ '':'' @ ho_password cl))"
  let ?l = "auth_line E (ho_username cl) (ho_password cl)"
  have "as_bytes (ho_username cl @ '':'' @ ho_password cl) \<noteq> []" by (simp add: as_bytes_def)
  then have w: "?enc \<noteq> []" "plain_char (last ?enc)" using assms(1) by (auto simp: text_env_ok_def plain_word_def)
  have "?l = ''Proxy-Authorization'' @ CHR '':'' # ('' Basic '' @ ?enc)" by (simp add: auth_line_def)
  then have "split_once (CHR '':'') ?l = Some (''Proxy-Authorization'', '' Basic '' @ ?enc)"
    using split_once_append [of "CHR '':''" "''Proxy-Authorization''" "'' Basic '' @ ?enc"] by simp
  moreover have "trim (CHR '' '' # (''Basic '' @ ?enc)) = ''Basic '' @ ?enc"
    using w by (intro trim_blank) (simp_all add: plain_char_def)
  moreover have "find (is_auth_header E) (request_headers E cl t) = Some ?l"
    using False not_auth_header [OF assms(1)] auth_header [OF assms(1)] by (simp add: request_headers_def)
  ultimately show ?thesis using False parse_basic_auth_line [OF assms] by (simp add: authed_def)
qed

section \<open>The inbound handler on well-formed requests\<close>

lemma show_port_plain: "plain_word (show_port p)" "CHR '':'' \<notin> set (show_port p)"
proof -
  show "CHR '':'' \<notin> set (show_port p)" by (auto simp: show_port_def dest: show_nat_chars)
  show "plain_word (show_port p)"
    using show_nat_nonempty by (auto simp: plain_word_def plain_char_def show_port_def dest!: show_nat_chars)
qed

lemma http_inbound_request:
  assumes "piecewise c" and "pwr_err c = None" and "pbytes c = as_bytes ((''CONNECT '' @ t @ '' '' @ v) @ crlf_str @ header_lines ls @ crlf_str) @ rest"
    and "plain_word t" and "http_line v" and "\<forall>l \<in> set ls. http_line l"
  shows "\<exists>lost c'. lost @ pbytes c' = rest \<and> piecewise c' \<and> same_out c c' \<and>
    http_inbound E cfg session c =
      (if accounts cfg \<noteq> [] \<and> \<not> authed E cfg ls then (Err ''auth required'', c'\<lparr>pout := pout c @ as_bytes reply_407\<rparr>)
       else http_connect E session ''CONNECT'' t c')"
proof -
  let ?l = "''CONNECT '' @ t @ '' '' @ v"
  have "http_line ''CONNECT ''" "http_line '' ''" by (simp_all add: http_line_def ascii_line_def)
  then have l: "http_line ?l" by (intro http_line_append http_line_plain [OF assms(4)] assms(5))
  have b: "rbytes ([], c) = as_bytes (?l @ crlf_str) @ as_bytes (header_lines ls @ crlf_str) @ rest"
    using assms(3) by (simp add: rbytes_def as_bytes_def)
  have pw: "piecewise (snd ([] :: u8 list, c))" using assms(1) by simp
  obtain r where r: "read_line ''http read request line: '' ([], c) = (Ok (?l @ crlf_str), r)"
    "rbytes r = as_bytes (header_lines ls @ crlf_str) @ rest" "piecewise (snd r)" "same_out c (snd r)"
    by (rule read_line_crlf [OF pw b disjI2 [OF l], of "''http read request line: ''"]) (rule that, simp_all only: snd_conv)
  from read_headers_lines [OF r(3,2) assms(6)] obtain r' where r': "read_headers r = (Ok ls, r')" "rbytes r' = rest"
    "piecewise (snd r')" "same_out (snd r) (snd r')" by blast
  have "plain_word ''CONNECT''" by (simp add: plain_word_def plain_char_def)
  then have "split_whitespace (''CONNECT'' @ CHR '' '' # t @ CHR '' '' # v @ crlf_str) = ''CONNECT'' # t # split_whitespace (v @ crlf_str)"
    using split_whitespace_word [OF \<open>plain_word ''CONNECT''\<close>] split_whitespace_word [OF assms(4)] by simp
  then have w: "split_whitespace (?l @ crlf_str) = ''CONNECT'' # t # split_whitespace (v @ crlf_str)" by simp
  have out: "same_out c (snd r')" using same_out_trans [OF r(4) r'(4)] .
  have "http_inbound E cfg session c =
      (if accounts cfg \<noteq> [] \<and> \<not> authed E cfg ls then (Err ''auth required'', (snd r')\<lparr>pout := pout c @ as_bytes reply_407\<rparr>)
       else http_connect E session ''CONNECT'' t (snd r'))"
    using out assms(2) unfolding http_inbound_def r(1)
    by (simp add: w r'(1) refuse_def pwrite_def same_out_def del: append_Cons append.simps append_assoc)
  then show ?thesis using r'(2,3) out by (intro exI [of _ "fst r'"] exI [of _ "snd r'"]) (simp add: rbytes_def)
qed

text \<open>Targets whose text a CONNECT line can carry: no IPv6 address, no blank, no colon in the name.\<close>

definition connectable :: "Address \<Rightarrow> bool" where
  "connectable a \<longleftrightarrow> plain_host a \<and> plain_word (show_address a) \<and> CHR '':'' \<notin> set (show_address a)"

lemma connectable_ipv4:
  assumes "length b = 4"
  shows "connectable (Ipv4 b)"
proof -
  have "plain_char c \<and> c \<noteq> CHR '':''" if "c \<in> set (show_ipv4 b)" for c
    using show_ipv4_chars [OF assms that] by (auto simp: plain_char_def)
  then show ?thesis using assms show_ipv4_no_bracket [OF assms] by (auto simp: connectable_def plain_word_def)
qed

lemma http_connect_target:
  assumes "text_env_ok E" and "connectable (address d)" and "network d = Tcp" and "pwr_err c = None"
  shows "http_connect E session ''CONNECT'' (show_address (address d) @ '':'' @ show_port (port d)) c =
    (Ok (with_target d session, d), c\<lparr>pout := pout c @ as_bytes reply_200\<rparr>)"
proof -
  let ?a = "show_address (address d)" and ?p = "show_port (port d)"
  have "split_char (CHR '':'') (?a @ CHR '':'' # ?p) = [?a, ?p]"
    using assms(2) show_port_plain(2) by (simp add: split_char_first split_char_none connectable_def)
  moreover have "parse_u16 ?p = Some (unat (port_value (port d)))"
    using unat_bound [of "port_value (port d)"] by (simp add: show_port_def parse_show_nat)
  moreover have "ParseAddress ?a = address d" using assms(2) by (simp add: connectable_def ParseAddress_show)
  moreover have "d = \<lparr>address = address d, port = Port (port_value (port d)), network = Tcp\<rparr>" using assms(3) by simp
  ultimately show ?thesis using assms(1,4)
    by (simp add: http_connect_def text_env_ok_def pwrite_def Let_def)
qed

lemma status_reply:
  assumes "piecewise c" and "pbytes c = h @ data" and "find_sub blank_line h = Some (length h - 4)" and "4 \<le> length h" and "length h \<le> 4096"
    and "takeWhile (\<lambda>b. b \<noteq> 13) (take (length h - 4) h) = as_bytes s" and "valid_utf8 (as_bytes s)"
  shows "\<exists>x c'. read_connect_reply c = ((if contains_str ''200'' s then Ok x else Err ''proxy rejected CONNECT request''), c') \<and>
    x @ pbytes c' = data \<and> piecewise c' \<and> same_out c c'"
proof -
  have early: "reply_decide b = None" if "strict_prefix b h" for b
    using assms(3,4) find_sub_strict_prefix [of blank_line h b] that by (simp add: reply_decide_def eval_nat_numeral)
  have hit: "reply_decide (h @ x) = Some (if contains_str ''200'' s then Ok x else Err ''proxy rejected CONNECT request'')" for x
    using find_sub_prefix [OF assms(3), of x] assms(4,6,7) by (simp add: reply_decide_def Let_def)
  have len: "length [] < length h" "[] @ pbytes c = h @ data" using assms(2,4) by auto
  show ?thesis
    unfolding read_connect_reply_def
    by (rule accumulate_complete [OF assms(1) len(2,1)]) (use assms(5) in \<open>simp_all add: early hit\<close>)
qed

lemma reply_200_facts:
  "find_sub blank_line (as_bytes reply_200) = Some (length (as_bytes reply_200) - 4)" "4 \<le> length (as_bytes reply_200)"
  "length (as_bytes reply_200) \<le> 4096"
  "takeWhile (\<lambda>b. b \<noteq> 13) (take (length (as_bytes reply_200) - 4) (as_bytes reply_200)) = as_bytes ''HTTP/1.1 200 Connection Established''"
  "valid_utf8 (as_bytes ''HTTP/1.1 200 Connection Established'')" "contains_str ''200'' ''HTTP/1.1 200 Connection Established''"
  by code_simp+

lemma reply_407_facts:
  "find_sub blank_line (as_bytes reply_407) = Some (length (as_bytes reply_407) - 4)" "4 \<le> length (as_bytes reply_407)"
  "length (as_bytes reply_407) \<le> 4096"
  "takeWhile (\<lambda>b. b \<noteq> 13) (take (length (as_bytes reply_407) - 4) (as_bytes reply_407)) = as_bytes ''HTTP/1.1 407 Proxy Authentication Required''"
  "valid_utf8 (as_bytes ''HTTP/1.1 407 Proxy Authentication Required'')" "\<not> contains_str ''200'' ''HTTP/1.1 407 Proxy Authentication Required''"
  by code_simp+

definition granted :: "HttpConfig \<Rightarrow> HttpOutboundConfig \<Rightarrow> bool" where
  "granted cfg cl \<longleftrightarrow> accounts cfg = [] \<or> (ho_username cl \<noteq> [] \<and> has_account (ho_username cl) (ho_password cl) cfg)"

definition connect_reply :: "HttpConfig \<Rightarrow> HttpOutboundConfig \<Rightarrow> u8 list" where
  "connect_reply cfg cl = as_bytes (if granted cfg cl then reply_200 else reply_407)"


fun toy_encode :: "u8 list \<Rightarrow> string" where
  "toy_encode [] = []"
| "toy_encode (b # bs) = char_of (65 + unat b div 16) # char_of (65 + unat b mod 16) # toy_encode bs"

fun toy_decode :: "string \<Rightarrow> u8 list option" where
  "toy_decode [] = Some []"
| "toy_decode [c] = None"
| "toy_decode (c # c' # cs) = map_option ((#) (word_of_nat ((of_char c - 65) * 16 + (of_char c' - 65)))) (toy_decode cs)"

definition toy_text :: text_env where
  "toy_text = \<lparr>b64_encode = toy_encode, b64_decode = toy_decode, to_lower = to_ascii_lowercase, to_upper = id\<rparr>"

lemma toy_text_ok: "text_env_ok toy_text"
proof -
  have b: "unat (b :: u8) div 16 \<le> 15" "unat b mod 16 \<le> 15" for b using unat_bound [of b] by auto
  have d: "toy_decode (toy_encode ds) = Some ds" for ds
  proof (induction ds)
    case (Cons a ds)
    then show ?case using b [of a] by (simp add: of_char_of take_bit_eq_mod)
  qed simp
  have p: "\<forall>c \<in> set (toy_encode ds). plain_char c" for ds
  proof (induction ds)
    case (Cons a ds)
    then show ?case using b [of a] by (simp add: plain_char_def of_char_of take_bit_eq_mod)
  qed simp
  have "toy_encode ds \<noteq> []" if "ds \<noteq> []" for ds using that by (cases ds) auto
  then show ?thesis using d p by (simp add: text_env_ok_def toy_text_def plain_word_def)
qed

definition http_toy_client :: HttpOutboundConfig where
  "http_toy_client = \<lparr>ho_server_address = Ipv4 [127, 0, 0, 1], ho_server_port = Port 8080, ho_username = ''u'', ho_password = ''p''\<rparr>"


text \<open>A CONNECT to an IPv6 address is refused: its text has more than one colon.\<close>

lemma http_ipv6_refused:
  assumes "to_upper E ''CONNECT'' = ''CONNECT''" and "2 \<le> length (filter (\<lambda>x. x = CHR '':'') uri)" and "pwr_err c = None"
  shows "http_connect E session ''CONNECT'' uri c = (Err (''invalid CONNECT URI: '' @ uri), c\<lparr>pout := pout c @ as_bytes reply_400\<rparr>)"
proof -
  have "length (split_char x s) = Suc (length (filter (\<lambda>y. y = x) s))" for x s
    by (induction s) (auto split: list.split)
  then show ?thesis using assms by (simp add: http_connect_def refuse_def pwrite_def Let_def)
qed

end
