(* ===== verification/Http_Upgrade.thy ===== *)
theory Http_Upgrade
  imports Http_Proxy
begin

text \<open>
  \<^verbatim>\<open>transport-httpupgrade\<close>: the upgrade handshake of dialer and listener. Connecting and accepting are not modelled; Unicode
  lower case is an argument.
\<close>

section \<open>Configuration (config.rs)\<close>

record UpgradeConfig =
  hu_host :: string
  hu_path :: string
  hu_headers :: "(string \<times> string) list"
  hu_accept_proxy_protocol :: bool

definition normalized_path :: "UpgradeConfig \<Rightarrow> string" where
  "normalized_path cfg =
     (let p = hu_path cfg in if p = [] then ''/'' else if \<not> starts_with ''/'' p then ''/'' @ p else p)"

section \<open>Dialer (dialer.rs)\<close>

definition upgrade_host :: "UpgradeConfig \<Rightarrow> string \<Rightarrow> string" where
  "upgrade_host cfg addr = (if hu_host cfg = [] then addr else hu_host cfg)"

definition upgrade_request :: "UpgradeConfig \<Rightarrow> string \<Rightarrow> string" where
  "upgrade_request cfg addr =
     (''GET '' @ normalized_path cfg @ '' HTTP/1.1'') @ crlf_str @
     header_lines
       ([''Host: '' @ upgrade_host cfg addr, ''Connection: Upgrade'', ''Upgrade: websocket'', ''Sec-Fetch-Mode: websocket'',
         ''Sec-Fetch-Dest: empty'', ''Sec-Fetch-Site: same-origin'', ''Pragma: no-cache'', ''Cache-Control: no-cache'', ''Accept: */*''] @
        map (\<lambda>(k, v). k @ '': '' @ v) (hu_headers cfg)) @
     crlf_str"

lemma trim_Nil [simp]: "trim [] = []"
proof -
  have "trim_prefixes ws [] = []" for ws by (subst trim_prefixes.simps) (auto split: option.split)
  then show ?thesis by (simp add: trim_def trim_start_def trim_end_def)
qed

text \<open>The rest of a header: lines up to one that is blank after trimming.\<close>

function skip_headers :: "string \<Rightarrow> buf_reader \<Rightarrow> (string, string list) res \<times> buf_reader" where
  "skip_headers msg r =
     (case read_line msg r of
        (Ok l, r') \<Rightarrow>
          if trim l = [] then (Ok [], r')
          else (case skip_headers msg r' of
                  (Ok hs, r'') \<Rightarrow> (Ok (trim l # hs), r'')
                | (Err e, r'') \<Rightarrow> (Err e, r'')
                | (Panic, r'') \<Rightarrow> (Panic, r''))
      | (Err e, r') \<Rightarrow> (Err e, r')
      | (Panic, r') \<Rightarrow> (Panic, r'))"
  by pat_completeness auto
termination
  by (relation "measure (\<lambda>(_, r). length (rbytes r))") (auto intro: read_line_less)

declare skip_headers.simps [simp del]

definition upgrade_dial :: "UpgradeConfig \<Rightarrow> string \<Rightarrow> pconn \<Rightarrow> (string, unit) res \<times> pconn" where
  "upgrade_dial cfg addr c =
     (case pwrite ''httpupgrade dial: write request: '' (as_bytes (upgrade_request cfg addr)) c of
        (Ok _, c1) \<Rightarrow>
          (case read_line ''httpupgrade dial: read status: '' ([], c1) of
             (Ok status_line, r) \<Rightarrow>
               if \<not> contains_str ''101'' status_line
               then (Err (''httpupgrade dial: unexpected status: '' @ trim status_line), snd r)
               else
                 (case skip_headers ''httpupgrade dial: read header: '' r of
                    (Ok _, r') \<Rightarrow> (Ok (), snd r')
                  | (Err e, r') \<Rightarrow> (Err e, snd r')
                  | (Panic, r') \<Rightarrow> (Panic, snd r'))
           | (Err e, r) \<Rightarrow> (Err e, snd r)
           | (Panic, r) \<Rightarrow> (Panic, snd r))
      | (Err e, c1) \<Rightarrow> (Err e, c1)
      | (Panic, c1) \<Rightarrow> (Panic, c1))"

section \<open>Listener (listener.rs)\<close>

text \<open>The values of the last header of each of the three names.\<close>

definition note_header :: "(string \<Rightarrow> string) \<Rightarrow> string \<Rightarrow> string \<times> string \<times> string \<Rightarrow> string \<times> string \<times> string" where
  "note_header lc line = (\<lambda>(host, connection, upgrade).
     case strip_prefix ''Host:'' line of
       Some v \<Rightarrow> (lc (trim v), connection, upgrade)
     | None \<Rightarrow>
         (case strip_prefix ''Connection:'' line of
            Some v \<Rightarrow> (host, lc (trim v), upgrade)
          | None \<Rightarrow>
              (case strip_prefix ''Upgrade:'' line of
                 Some v \<Rightarrow> (host, connection, lc (trim v))
               | None \<Rightarrow> (host, connection, upgrade))))"

definition upgrade_response :: string where
  "upgrade_response =
     ''HTTP/1.1 101 Switching Protocols'' @ crlf_str @ ''Connection: Upgrade'' @ crlf_str @ ''Upgrade: websocket'' @ crlf_str @ crlf_str"

definition upgrade_accept :: "(string \<Rightarrow> string) \<Rightarrow> UpgradeConfig \<Rightarrow> pconn \<Rightarrow> (string, unit) res \<times> pconn" where
  "upgrade_accept lc cfg c =
     (case read_line ''read request line: '' ([], c) of
        (Ok request_line, r) \<Rightarrow>
          let parts = split_whitespace request_line in
          if length parts < 2 \<or> parts ! 0 \<noteq> ''GET'' then (Err ''invalid request line'', snd r)
          else if parts ! 1 \<noteq> normalized_path cfg then (Err (''bad path: '' @ parts ! 1), snd r)
          else
            (case skip_headers ''read header: '' r of
               (Ok ls, r') \<Rightarrow>
                 (case fold (note_header lc) ls ([], [], []) of (host, connection, upgrade) \<Rightarrow>
                    if hu_host cfg \<noteq> [] \<and> host \<noteq> lc (hu_host cfg) then (Err (''bad host: '' @ host), snd r')
                    else if connection \<noteq> ''upgrade'' \<or> upgrade \<noteq> ''websocket'' then (Err ''not an upgrade request'', snd r')
                    else
                      (case pwrite ''write response: '' (as_bytes upgrade_response) (snd r') of
                         (Ok _, c') \<Rightarrow> (Ok (), c') | (Err e, c') \<Rightarrow> (Err e, c') | (Panic, c') \<Rightarrow> (Panic, c')))
             | (Err e, r') \<Rightarrow> (Err e, snd r')
             | (Panic, r') \<Rightarrow> (Panic, snd r'))
      | (Err e, r) \<Rightarrow> (Err e, snd r)
      | (Panic, r) \<Rightarrow> (Panic, snd r))"

section \<open>Both sides agree\<close>

text \<open>Lines that begin and end with a printable character keep their text when the line end is trimmed.\<close>

definition trimmed_line :: "string \<Rightarrow> bool" where
  "trimmed_line l \<longleftrightarrow> http_line l \<and> plain_char (hd l) \<and> plain_char (last l)"

lemma trim_line_end:
  assumes "trimmed_line l"
  shows "trim (l @ crlf_str) = l"
proof -
  have l: "l \<noteq> []" "plain_char (hd l)" "plain_char (last l)" using assms by (auto simp: trimmed_line_def http_line_def ascii_line_def)
  have c: "CHR 0x0A = char_of n \<longleftrightarrow> n mod 256 = 10" "CHR 0x0D = char_of n \<longleftrightarrow> n mod 256 = 13" for n :: nat
    by (subst eq_commute, simp add: char_of_eq_iff take_bit_eq_mod)+
  have w: "find (\<lambda>w. w \<noteq> [] \<and> starts_with w (CHR 0x0A # s)) (map rev whitespace) = Some [CHR 0x0A]"
    "find (\<lambda>w. w \<noteq> [] \<and> starts_with w (CHR 0x0D # s)) (map rev whitespace) = Some [CHR 0x0D]" for s
    by (simp_all add: whitespace_def starts_with_def c) (simp_all add: char_of_eq_iff take_bit_eq_mod)
  have "trim_start (l @ crlf_str) = l @ crlf_str" using l by (intro trim_start_plain) auto
  moreover have "trim_prefixes (map rev whitespace) (CHR 0x0A # CHR 0x0D # rev l) = trim_prefixes (map rev whitespace) (rev l)"
    by (subst trim_prefixes.simps, simp add: w) (subst trim_prefixes.simps, simp add: w)
  ultimately show ?thesis using trim_end_plain [OF l(1,3)] by (simp add: trim_def trim_end_def)
qed

lemma trim_empty_line: "trim crlf_str = []"
  by code_simp

lemma skip_headers_lines:
  assumes "piecewise (snd r)" and "rbytes r = as_bytes (header_lines ls @ crlf_str) @ t" and "\<forall>l \<in> set ls. trimmed_line l"
  shows "\<exists>r'. skip_headers msg r = (Ok ls, r') \<and> rbytes r' = t \<and> piecewise (snd r') \<and> same_out (snd r) (snd r')"
  using assms
proof (induction ls arbitrary: r)
  case Nil
  then obtain r' where "read_line msg r = (Ok ([] @ crlf_str), r')" "rbytes r' = t" "piecewise (snd r')" "same_out (snd r) (snd r')"
    using read_line_crlf [of r "[]" t] by (auto simp: header_lines_def)
  then show ?case by (subst skip_headers.simps) (simp add: trim_empty_line)
next
  case (Cons l ls)
  have "rbytes r = as_bytes (l @ crlf_str) @ as_bytes (header_lines ls @ crlf_str) @ t"
    using Cons.prems(2) by (simp add: header_lines_def as_bytes_def)
  moreover have l: "http_line l" "l \<noteq> []" "trim (l @ crlf_str) = l"
    using Cons.prems(3) trim_line_end [of l] by (auto simp: trimmed_line_def http_line_def ascii_line_def)
  ultimately obtain r1 where r1: "read_line msg r = (Ok (l @ crlf_str), r1)" "rbytes r1 = as_bytes (header_lines ls @ crlf_str) @ t"
    "piecewise (snd r1)" "same_out (snd r) (snd r1)" using read_line_crlf [OF Cons.prems(1)] by metis
  from Cons.IH [OF r1(3,2)] Cons.prems(3) obtain r' where
    "skip_headers msg r1 = (Ok ls, r')" "rbytes r' = t" "piecewise (snd r')" "same_out (snd r1) (snd r')" by auto
  then show ?case using r1 l(2,3) same_out_trans [OF r1(4)] by (subst skip_headers.simps) auto
qed

lemma read_until_nl_pieces: "read_until_nl acc buf c = (r, buf', c') \<Longrightarrow> pieces c = [] \<Longrightarrow> pieces c' = []"
proof (induction acc buf c rule: read_until_nl.induct)
  case (1 acc buf c)
  have e: "pread BUF_CAPACITY c = (case pend c of None \<Rightarrow> (Ok [], c) | Some e \<Rightarrow> (Err e, c))"
    using "1.prems"(2) by (simp add: pread_def BUF_CAPACITY_def)
  show ?case
  proof (cases "buf = []")
    case True
    then show ?thesis using "1.prems" by (subst (asm) read_until_nl.simps) (auto simp: e split: option.splits)
  next
    case False
    then show ?thesis using "1.IH"(2) [OF False] "1.prems" by (subst (asm) read_until_nl.simps) (auto split: if_splits)
  qed
qed

lemma read_line_pieces: "read_line msg r = (x, r') \<Longrightarrow> pieces (snd r) = [] \<Longrightarrow> pieces (snd r') = []"
  by (cases r') (auto simp: read_line_def split: prod.splits res.splits dest: read_until_nl_pieces)

lemma skip_headers_pieces: "skip_headers msg r = (x, r') \<Longrightarrow> pieces (snd r) = [] \<Longrightarrow> pieces (snd r') = []"
proof (induction msg r arbitrary: x r' rule: skip_headers.induct)
  case (1 msg r)
  show ?case
    using "1.prems" "1.IH" by (subst (asm) skip_headers.simps)
      (auto split: prod.splits res.splits if_splits dest: read_line_pieces)
qed

text \<open>Everything that arrives in the first read is in the buffer.\<close>

lemma read_line_one_piece:
  assumes "pieces c = [p]" "length p \<le> BUF_CAPACITY" "p \<noteq> []" "read_line msg ([], c) = (x, r)"
  shows "pieces (snd r) = []"
proof -
  have "read_until_nl [] [] c = read_until_nl [] p (c\<lparr>pieces := []\<rparr>)"
    using assms(1-3) by (subst read_until_nl.simps) (simp add: pread_def BUF_CAPACITY_def)
  then have "read_line msg ([], c) = read_line msg (p, c\<lparr>pieces := []\<rparr>)" by (simp add: read_line_def)
  then have "read_line msg (p, c\<lparr>pieces := []\<rparr>) = (x, r)" using assms(4) by simp
  from read_line_pieces [OF this] show ?thesis by simp
qed

definition upgrade_ok :: "UpgradeConfig \<Rightarrow> string \<Rightarrow> bool" where
  "upgrade_ok cfg addr \<longleftrightarrow> plain_word (normalized_path cfg) \<and> trimmed_line (upgrade_host cfg addr) \<and>
     (\<forall>(k, v) \<in> set (hu_headers cfg). trimmed_line (k @ '': '' @ v) \<and>
        (\<forall>p \<in> {''Host:'', ''Connection:'', ''Upgrade:''}. strip_prefix p (k @ '': '' @ v) = None))"

definition case_ok :: "(string \<Rightarrow> string) \<Rightarrow> bool" where
  "case_ok lc \<longleftrightarrow> lc ''Upgrade'' = ''upgrade'' \<and> lc ''websocket'' = ''websocket''"

definition std_headers :: "string list" where
  "std_headers = [''Sec-Fetch-Mode: websocket'', ''Sec-Fetch-Dest: empty'', ''Sec-Fetch-Site: same-origin'', ''Pragma: no-cache'',
     ''Cache-Control: no-cache'', ''Accept: */*'']"

lemma note_other:
  "\<forall>l \<in> set ls. \<forall>p \<in> {''Host:'', ''Connection:'', ''Upgrade:''}. strip_prefix p l = None \<Longrightarrow> fold (note_header lc) ls v = v"
  by (induction ls) (auto simp: note_header_def)

lemma noted_request:
  assumes "upgrade_ok cfg addr" and "case_ok lc"
  shows "fold (note_header lc)
    ([''Host: '' @ upgrade_host cfg addr, ''Connection: Upgrade'', ''Upgrade: websocket''] @ std_headers @ map (\<lambda>(k, v). k @ '': '' @ v) (hu_headers cfg))
    ([], [], []) = (lc (upgrade_host cfg addr), ''upgrade'', ''websocket'')"
proof -
  have h: "trim (CHR '' '' # upgrade_host cfg addr) = upgrade_host cfg addr"
    using assms(1) by (intro trim_blank) (auto simp: upgrade_ok_def trimmed_line_def http_line_def ascii_line_def)
  have u: "trim '' Upgrade'' = ''Upgrade''" "trim '' websocket'' = ''websocket''"
    by (rule trim_blank; simp add: plain_char_def)+
  have "\<forall>l \<in> set (std_headers @ map (\<lambda>(k, v). k @ '': '' @ v) (hu_headers cfg)).
      \<forall>p \<in> {''Host:'', ''Connection:'', ''Upgrade:''}. strip_prefix p l = None"
    using assms(1) by (auto simp: std_headers_def upgrade_ok_def)
  from note_other [OF this, of lc] show ?thesis
    using h u assms(2) by (simp add: note_header_def case_ok_def)
qed

lemma upgrade_lines_trimmed:
  assumes "upgrade_ok cfg addr"
  shows "\<forall>l \<in> set ([''Host: '' @ upgrade_host cfg addr, ''Connection: Upgrade'', ''Upgrade: websocket''] @ std_headers @
    map (\<lambda>(k, v). k @ '': '' @ v) (hu_headers cfg)). trimmed_line l"
proof -
  have "http_line ''Host: ''" by (simp add: http_line_def ascii_line_def)
  then have "trimmed_line (''Host: '' @ upgrade_host cfg addr)"
    using assms http_line_append [of "''Host: ''" "upgrade_host cfg addr"]
    by (auto simp: upgrade_ok_def trimmed_line_def plain_char_def http_line_def ascii_line_def)
  moreover have "\<forall>l \<in> set ([''Connection: Upgrade'', ''Upgrade: websocket''] @ std_headers). trimmed_line l"
    by (simp add: std_headers_def trimmed_line_def http_line_def ascii_line_def plain_char_def)
  moreover have "\<forall>l \<in> set (map (\<lambda>(k, v). k @ '': '' @ v) (hu_headers cfg)). trimmed_line l"
    using assms by (auto simp: upgrade_ok_def)
  ultimately show ?thesis by auto
qed

lemma upgrade_accepted:
  assumes "upgrade_ok cfg addr" and "case_ok lc" and "piecewise c" and "pwr_err c = None"
    and "pbytes c = as_bytes (upgrade_request cfg addr) @ rest"
  shows "\<exists>lost c'. upgrade_accept lc cfg c = (Ok (), c') \<and> pout c' = pout c @ as_bytes upgrade_response \<and> lost @ pbytes c' = rest"
proof -
  let ?ls = "[''Host: '' @ upgrade_host cfg addr, ''Connection: Upgrade'', ''Upgrade: websocket''] @ std_headers @ map (\<lambda>(k, v). k @ '': '' @ v) (hu_headers cfg)"
  let ?l = "''GET '' @ normalized_path cfg @ '' HTTP/1.1''"
  have p: "plain_word (normalized_path cfg)" using assms(1) by (simp add: upgrade_ok_def)
  have "http_line ''GET ''" "http_line '' HTTP/1.1''" by (simp_all add: http_line_def ascii_line_def)
  then have l: "http_line ?l" by (intro http_line_append http_line_plain [OF p])
  have b: "rbytes ([], c) = as_bytes (?l @ crlf_str) @ as_bytes (header_lines ?ls @ crlf_str) @ rest"
    using assms(5) by (simp add: rbytes_def as_bytes_def upgrade_request_def std_headers_def)
  have pw: "piecewise (snd ([] :: u8 list, c))" using assms(3) by simp
  obtain r where r: "read_line ''read request line: '' ([], c) = (Ok (?l @ crlf_str), r)"
    "rbytes r = as_bytes (header_lines ?ls @ crlf_str) @ rest" "piecewise (snd r)" "same_out c (snd r)"
    by (rule read_line_crlf [OF pw b disjI2 [OF l], of "''read request line: ''"]) (rule that, simp_all only: snd_conv)
  from skip_headers_lines [OF r(3,2) upgrade_lines_trimmed [OF assms(1)], of "''read header: ''"] obtain r' where
    r': "skip_headers ''read header: '' r = (Ok ?ls, r')" "rbytes r' = rest" "piecewise (snd r')" "same_out (snd r) (snd r')" by blast
  have g: "plain_word ''GET''" by (simp add: plain_word_def plain_char_def)
  have "split_whitespace (''GET'' @ CHR '' '' # normalized_path cfg @ CHR '' '' # ''HTTP/1.1'' @ crlf_str) =
    ''GET'' # normalized_path cfg # split_whitespace (''HTTP/1.1'' @ crlf_str)"
    unfolding split_whitespace_word [OF g] split_whitespace_word [OF p] ..
  then have w: "split_whitespace (?l @ crlf_str) = ''GET'' # normalized_path cfg # split_whitespace (''HTTP/1.1'' @ crlf_str)" by simp
  have out: "same_out c (snd r')" using same_out_trans [OF r(4) r'(4)] .
  have "upgrade_accept lc cfg c = (Ok (), (snd r')\<lparr>pout := pout c @ as_bytes upgrade_response\<rparr>)"
    unfolding upgrade_accept_def r(1) using out assms(4) noted_request [OF assms(1,2)]
    by (simp add: w r'(1) pwrite_def same_out_def upgrade_host_def del: append_Cons append.simps append_assoc split: if_splits)
  then show ?thesis using r'(2) out by (intro exI [of _ "fst r'"] exI) (auto simp: rbytes_def pbytes_def)
qed

lemma upgrade_response_lines:
  "as_bytes upgrade_response =
     as_bytes (''HTTP/1.1 101 Switching Protocols'' @ crlf_str) @ as_bytes (header_lines [''Connection: Upgrade'', ''Upgrade: websocket''] @ crlf_str)"
  by (simp add: upgrade_response_def header_lines_def as_bytes_def)

lemma upgrade_dialled:
  assumes "piecewise c" and "pwr_err c = None" and "pbytes c = as_bytes upgrade_response @ data"
  shows "\<exists>lost c'. upgrade_dial cfg addr c = (Ok (), c') \<and> pout c' = pout c @ as_bytes (upgrade_request cfg addr) \<and> lost @ pbytes c' = data"
proof -
  let ?c = "c\<lparr>pout := pout c @ as_bytes (upgrade_request cfg addr)\<rparr>" and ?l = "''HTTP/1.1 101 Switching Protocols''"
  let ?ls = "[''Connection: Upgrade'', ''Upgrade: websocket'']"
  have l: "http_line ?l" by (simp add: http_line_def ascii_line_def)
  have b: "rbytes ([], ?c) = as_bytes (?l @ crlf_str) @ as_bytes (header_lines ?ls @ crlf_str) @ data"
    using assms(3) by (simp add: rbytes_def pbytes_def upgrade_response_lines)
  have pw: "piecewise (snd ([] :: u8 list, ?c))" using assms(1) by (simp add: piecewise_def)
  obtain r where r: "read_line ''httpupgrade dial: read status: '' ([], ?c) = (Ok (?l @ crlf_str), r)"
    "rbytes r = as_bytes (header_lines ?ls @ crlf_str) @ data" "piecewise (snd r)" "same_out ?c (snd r)"
    by (rule read_line_crlf [OF pw b disjI2 [OF l], of "''httpupgrade dial: read status: ''"]) (rule that, simp_all only: snd_conv)
  have "\<forall>l \<in> set ?ls. trimmed_line l" by (simp add: trimmed_line_def http_line_def ascii_line_def plain_char_def)
  from skip_headers_lines [OF r(3,2) this, of "''httpupgrade dial: read header: ''"] obtain r' where
    r': "skip_headers ''httpupgrade dial: read header: '' r = (Ok ?ls, r')" "rbytes r' = data" "piecewise (snd r')" "same_out (snd r) (snd r')" by blast
  have "contains_str ''101'' (?l @ crlf_str)" by (simp add: starts_with_def)
  then have "upgrade_dial cfg addr c = (Ok (), snd r')" using assms(2) r(1) r'(1) by (simp add: upgrade_dial_def pwrite_def)
  then show ?thesis using r'(2) same_out_trans [OF r(4) r'(4)] by (intro exI [of _ "fst r'"] exI [of _ "snd r'"]) (auto simp: rbytes_def same_out_def)
qed

lemma upgrade_dial_one_piece:
  assumes "pieces c = [p]" "length p \<le> BUF_CAPACITY" "p \<noteq> []" "upgrade_dial cfg addr c = (Ok (), c')"
  shows "pbytes c' = []"
proof -
  obtain x r where r: "read_line ''httpupgrade dial: read status: '' ([], c\<lparr>pout := pout c @ as_bytes (upgrade_request cfg addr)\<rparr>) = (x, r)"
    by (cases "read_line ''httpupgrade dial: read status: '' ([], c\<lparr>pout := pout c @ as_bytes (upgrade_request cfg addr)\<rparr>)") blast
  then have "pieces (snd r) = []" using assms(1-3) by (intro read_line_one_piece [OF _ _ _ r]) simp_all
  then have "pieces (snd r') = []" if "skip_headers msg r = (y, r')" for msg y r' using skip_headers_pieces [OF that] by simp
  then show ?thesis using assms(4) r
    by (auto simp: upgrade_dial_def pwrite_def pbytes_def split: option.splits res.splits if_splits prod.splits)
qed

text \<open>C32. Dialer and listener of the upgrade transport agree: the listener accepts every request its configuration's dialer sends and answers 101,
  the dialer accepts the answer, however the network cuts both, and each side then uses a suffix of the bytes behind the
  handshake: what its buffered reader had already taken is gone, all of it when answer and data come in one read.\<close>
theorem upgrade_agreement:
  assumes "upgrade_ok cfg addr" and "case_ok lc" and "piecewise c" and "pwr_err c = None" and "pbytes c = as_bytes (upgrade_request cfg addr) @ rest"
    and "piecewise d" and "pwr_err d = None" and "pbytes d = as_bytes upgrade_response @ data"
  shows "(\<exists>lost c'. upgrade_accept lc cfg c = (Ok (), c') \<and> pout c' = pout c @ as_bytes upgrade_response \<and> lost @ pbytes c' = rest) \<and>
    (\<exists>lost d'. upgrade_dial cfg addr d = (Ok (), d') \<and> pout d' = pout d @ as_bytes (upgrade_request cfg addr) \<and> lost @ pbytes d' = data \<and>
      (length (pieces d) = 1 \<and> length (pbytes d) \<le> BUF_CAPACITY \<longrightarrow> pbytes d' = []))"
proof
  show "\<exists>lost c'. upgrade_accept lc cfg c = (Ok (), c') \<and> pout c' = pout c @ as_bytes upgrade_response \<and> lost @ pbytes c' = rest"
    by (rule upgrade_accepted [OF assms(1-5)])
  from upgrade_dialled [OF assms(6-8), of cfg addr] obtain lost d' where
    d: "upgrade_dial cfg addr d = (Ok (), d')" "pout d' = pout d @ as_bytes (upgrade_request cfg addr)" "lost @ pbytes d' = data" by blast
  have "pbytes d' = []" if "length (pieces d) = 1" "length (pbytes d) \<le> BUF_CAPACITY"
  proof -
    obtain p where "pieces d = [p]" using \<open>length (pieces d) = 1\<close> by (auto simp: length_Suc_conv)
    then show ?thesis using that(2) assms(6) upgrade_dial_one_piece [OF _ _ _ d(1), of p] by (simp add: pbytes_def piecewise_def)
  qed
  then show "\<exists>lost d'. upgrade_dial cfg addr d = (Ok (), d') \<and> pout d' = pout d @ as_bytes (upgrade_request cfg addr) \<and> lost @ pbytes d' = data \<and>
      (length (pieces d) = 1 \<and> length (pbytes d) \<le> BUF_CAPACITY \<longrightarrow> pbytes d' = [])" using d by blast
qed

definition sample_upgrade :: UpgradeConfig where
  "sample_upgrade = \<lparr>hu_host = ''x.org'', hu_path = ''a'', hu_headers = [(''Origin'', ''y'')], hu_accept_proxy_protocol = False\<rparr>"

theorem upgrade_agreement_witness:
  "\<exists>d'. upgrade_dial sample_upgrade ''1.2.3.4:80'' (sample_pconn [as_bytes upgrade_response @ [1, 2, 3]]) = (Ok (), d') \<and> pbytes d' = []"
proof -
  let ?c = "sample_pconn [as_bytes (upgrade_request sample_upgrade ''1.2.3.4:80'')]"
  let ?d = "sample_pconn [as_bytes upgrade_response @ [1, 2, 3]]"
  have ok: "upgrade_ok sample_upgrade ''1.2.3.4:80''"
    by (simp add: upgrade_ok_def sample_upgrade_def normalized_path_def upgrade_host_def starts_with_def plain_word_def plain_char_def
        trimmed_line_def http_line_def ascii_line_def)
  have lc: "case_ok to_ascii_lowercase" unfolding case_ok_def by code_simp
  have c: "piecewise ?c" "pwr_err ?c = None" "pbytes ?c = as_bytes (upgrade_request sample_upgrade ''1.2.3.4:80'') @ []"
    by (simp_all add: sample_pconn_def piecewise_def pbytes_def upgrade_request_def as_bytes_def)
  have d: "piecewise ?d" "pwr_err ?d = None" "pbytes ?d = as_bytes upgrade_response @ [1, 2, 3]"
    by (simp_all add: sample_pconn_def piecewise_def pbytes_def)
  have "length (pieces ?d) = 1 \<and> length (pbytes ?d) \<le> BUF_CAPACITY"
    by (simp add: sample_pconn_def pbytes_def BUF_CAPACITY_def upgrade_response_def)
  with upgrade_agreement [OF ok lc c d] show ?thesis by blast
qed

end
