(* ===== verification/Split_Http.thy ===== *)
theory Split_Http
  imports Split_Queue Http_Upgrade
begin

text \<open>
  \<^verbatim>\<open>transport-splithttp\<close>: configuration, padding, the connection over channels, the requests of the dialer and their handling by the
  listener, the chunked download. The table of sessions and the queues are in \<^verbatim>\<open>Split_Queue\<close>. Sockets and tasks are not modelled;
  Unicode lower case is an argument.
\<close>

section \<open>Configuration (config.rs)\<close>

datatype SplitMode = PacketUp | StreamUp | StreamOne

fun show_mode :: "SplitMode \<Rightarrow> string" where
  "show_mode PacketUp = ''PacketUp''"
| "show_mode StreamUp = ''StreamUp''"
| "show_mode StreamOne = ''StreamOne''"

record SplitConfig =
  sc_host :: string
  sc_path :: string
  sc_mode :: SplitMode
  sc_headers :: "(string \<times> string) list"
  max_upload_size :: usize
  min_upload_interval :: u64

text \<open>The values of the stream configuration; a header whose value is no string counts as empty.\<close>

definition from_stream_config :: "string \<Rightarrow> string \<Rightarrow> string \<Rightarrow> (string \<times> string option) list \<Rightarrow> 64 word \<Rightarrow> 32 word \<Rightarrow> SplitConfig" where
  "from_stream_config host path mode headers upsize interval =
     \<lparr>sc_host = host, sc_path = (if path = [] then ''/'' else path),
      sc_mode = (if mode = ''stream-up'' then StreamUp else if mode = ''stream-one'' then StreamOne else PacketUp),
      sc_headers = map (\<lambda>(k, v). (k, case v of Some s \<Rightarrow> s | None \<Rightarrow> [])) headers,
      max_upload_size = (if 0 <s upsize then unat upsize else 1000000),
      min_upload_interval = (if 0 <s interval then ucast interval else 30)\<rparr>"

section \<open>Padding (xpadding.rs)\<close>

datatype PaddingMethod = RepeatX | Tokenish

definition CHARSET_BASE62 :: string where
  "CHARSET_BASE62 = ''0123456789ABCDEFGHIJKLMNOPQRSTUVWXYZabcdefghijklmnopqrstuvwxyz''"

definition VALIDATION_TOLERANCE :: int where "VALIDATION_TOLERANCE = 2"

definition approx_hpack_len :: "string \<Rightarrow> nat" where
  "approx_hpack_len s = (length s * 7 + 7) div 8"

text \<open>
  The loop that brings the padding near the wanted length, at most 151 times; \<open>k\<close> counts the rounds that are left.
\<close>

fun adjust_padding :: "nat \<Rightarrow> nat \<Rightarrow> string \<Rightarrow> string" where
  "adjust_padding 0 target s = s"
| "adjust_padding (Suc k) target s =
     (let diff = int (approx_hpack_len s) - int target in
      if \<bar>diff\<bar> \<le> VALIDATION_TOLERANCE then s
      else if diff < 0 then adjust_padding k target (s @ ''X'')
      else if butlast s = [] then ''X''
      else adjust_padding k target (butlast s))"

text \<open>\<open>pick i\<close> is the random number below 62 for the character at \<open>i\<close>. The length is \<open>target / 0.8\<close>, rounded up.\<close>

definition generate_tokenish_padding :: "(nat \<Rightarrow> nat) \<Rightarrow> nat \<Rightarrow> string" where
  "generate_tokenish_padding pick target =
     (let n = (target * 5 + 3) div 4 in
      if n < 1 then ''X'' else adjust_padding 151 target (map (\<lambda>i. CHARSET_BASE62 ! pick i) [0 ..< n]))"

definition generate_padding :: "(nat \<Rightarrow> nat) \<Rightarrow> PaddingMethod \<Rightarrow> nat \<Rightarrow> string" where
  "generate_padding pick verb n =
     (if n = 0 then []
      else case verb of RepeatX \<Rightarrow> replicate n (CHR ''X'') | Tokenish \<Rightarrow> generate_tokenish_padding pick n)"

definition is_padding_valid :: "string \<Rightarrow> nat \<Rightarrow> nat \<Rightarrow> PaddingMethod \<Rightarrow> bool" where
  "is_padding_valid padding from to verb \<longleftrightarrow>
     padding \<noteq> [] \<and>
     (let n = (case verb of RepeatX \<Rightarrow> length padding | Tokenish \<Rightarrow> approx_hpack_len padding) in from \<le> n \<and> n \<le> to)"

text \<open>\<open>order\<close> is the order in which the hash map lists its entries.\<close>

definition query_pair :: "string \<Rightarrow> string \<times> string" where
  "query_pair s = (case split_once (CHR ''='') s of Some (k, v) \<Rightarrow> (k, v) | None \<Rightarrow> (s, []))"

definition apply_padding_to_query ::
  "((string \<times> string) list \<Rightarrow> (string \<times> string) list) \<Rightarrow> string \<Rightarrow> string \<Rightarrow> string \<Rightarrow> string" where
  "apply_padding_to_query order url key val =
     (case find_char (CHR ''?'') url of
        Some i \<Rightarrow>
          let params = fold (\<lambda>s. case_prod AList.update (query_pair s)) (filter (\<lambda>s. s \<noteq> []) (split_char (CHR ''&'') (drop (Suc i) url))) [];
              params = order (AList.update key val params)
          in take i url @ ''?'' @ join ''&'' (map (\<lambda>(k, v). k @ ''='' @ v) params)
      | None \<Rightarrow> url @ ''?'' @ key @ ''='' @ val)"

section \<open>The connection (connection.rs)\<close>

text \<open>
  The channel towards the reader is the list of waiting messages and whether the sender is gone; the other one has room
  for 1024 messages.
\<close>

record SplitConn =
  read_rx :: "u8 list list"
  rx_closed :: bool
  write_tx :: "u8 list list"
  tx_closed :: bool
  read_buf :: "u8 list"
  read_pos :: usize

datatype 'a sc_poll = Sc_ready 'a | Sc_pending

definition SplitConn_read :: "nat \<Rightarrow> SplitConn \<Rightarrow> u8 list sc_poll \<times> SplitConn" where
  "SplitConn_read remaining c =
     (if read_pos c < length (read_buf c) then
        let n = min remaining (length (read_buf c) - read_pos c);
            out = take n (drop (read_pos c) (read_buf c));
            c = c\<lparr>read_pos := read_pos c + n\<rparr>
        in (Sc_ready out, if read_pos c \<ge> length (read_buf c) then c\<lparr>read_buf := [], read_pos := 0\<rparr> else c)
      else case read_rx c of
        data # rest \<Rightarrow>
          let n = min remaining (length data); c = c\<lparr>read_rx := rest\<rparr>
          in (Sc_ready (take n data), if n < length data then c\<lparr>read_buf := data, read_pos := n\<rparr> else c)
      | [] \<Rightarrow> (if rx_closed c then Sc_ready [] else Sc_pending, c))"

definition SplitConn_write :: "u8 list \<Rightarrow> SplitConn \<Rightarrow> (string, nat) res sc_poll \<times> SplitConn" where
  "SplitConn_write buf c =
     (if tx_closed c then (Sc_ready (Err ''write channel closed''), c)
      else if length (write_tx c) < 1024 then (Sc_ready (Ok (length buf)), c\<lparr>write_tx := write_tx c @ [buf]\<rparr>)
      else (Sc_pending, c))"

section \<open>Requests (dialer.rs)\<close>

definition download_request :: "string \<Rightarrow> string \<Rightarrow> string \<Rightarrow> string" where
  "download_request path sid host =
     (''GET '' @ path @ ''?session_id='' @ sid @ '' HTTP/1.1'') @ crlf_str @
     header_lines [''Host: '' @ host, ''Accept: */*'', ''Connection: keep-alive''] @ crlf_str"

definition post_request :: "string \<Rightarrow> string \<Rightarrow> string \<Rightarrow> u64 \<Rightarrow> u8 list \<Rightarrow> string" where
  "post_request path sid host seq data =
     (''POST '' @ path @ ''?session_id='' @ sid @ ''&seq='' @ show_nat (unat seq) @ '' HTTP/1.1'') @ crlf_str @
     header_lines [''Host: '' @ host, ''Content-Type: application/octet-stream'', ''Content-Length: '' @ show_nat (length data),
       ''Connection: close''] @ crlf_str"

definition send_post :: "string \<Rightarrow> string \<Rightarrow> string \<Rightarrow> u64 \<Rightarrow> u8 list \<Rightarrow> pconn \<Rightarrow> (string, unit) res \<times> pconn" where
  "send_post path sid host seq data c =
     (case pwrite ''write req: '' (as_bytes (post_request path sid host seq data)) c of
        (Ok _, c1) \<Rightarrow>
          (case pwrite ''write body: '' data c1 of
             (Ok _, c2) \<Rightarrow> (Ok (), snd (pread 4096 c2))
           | (Err e, c2) \<Rightarrow> (Err e, c2)
           | (Panic, c2) \<Rightarrow> (Panic, c2))
      | (Err e, c1) \<Rightarrow> (Err e, c1)
      | (Panic, c1) \<Rightarrow> (Panic, c1))"

definition read_http_response_line :: "buf_reader \<Rightarrow> (string, string \<times> nat) res \<times> buf_reader" where
  "read_http_response_line r =
     (case read_line ''read response line: '' r of
        (Ok line, r') \<Rightarrow>
          let parts = split_whitespace line in
          if length parts < 2 then (Err (''invalid HTTP response: '' @ trim line), r')
          else (case parse_u16 (parts ! 1) of
                  Some code \<Rightarrow> (Ok (trim line, code), r')
                | None \<Rightarrow> (Err (''parse status code '' @ parts ! 1), r'))
      | (Err e, r') \<Rightarrow> (Err e, r')
      | (Panic, r') \<Rightarrow> (Panic, r'))"

text \<open>The dialer up to the point where it hands out the connection: mode, request, answer, headers. The text that \<^verbatim>\<open>std\<close> adds to a number that does not
  parse is left out.\<close>

definition split_dial :: "SplitConfig \<Rightarrow> string \<Rightarrow> string \<Rightarrow> pconn \<Rightarrow> (string, unit) res \<times> buf_reader" where
  "split_dial cfg addr sid c =
     (if sc_mode cfg \<noteq> PacketUp then (Err (''splithttp mode '' @ show_mode (sc_mode cfg) @ '' not yet implemented in dialer''), ([], c))
      else
        let host = (if sc_host cfg = [] then addr else sc_host cfg) in
        case pwrite ''splithttp send GET: '' (as_bytes (download_request (sc_path cfg) sid host)) c of
          (Ok _, c1) \<Rightarrow>
            (case read_http_response_line ([], c1) of
               (Ok (status, code), r) \<Rightarrow>
                 if code \<noteq> 200 then (Err (''splithttp GET failed: '' @ status), r)
                 else (case skip_headers ''read header: '' r of
                         (Ok _, r') \<Rightarrow> (Ok (), r') | (Err e, r') \<Rightarrow> (Err e, r') | (Panic, r') \<Rightarrow> (Panic, r'))
             | (Err e, r) \<Rightarrow> (Err e, r)
             | (Panic, r) \<Rightarrow> (Panic, r))
        | (Err e, c1) \<Rightarrow> (Err e, ([], c1))
        | (Panic, c1) \<Rightarrow> (Panic, ([], c1)))"

section \<open>The chunked download (listener.rs, dialer.rs)\<close>

text \<open>Numbers to base sixteen: \<^verbatim>\<open>{:X}\<close> and \<^verbatim>\<open>from_str_radix\<close>.\<close>

definition upper_digit :: "nat \<Rightarrow> char" where
  "upper_digit d = (if d < 10 then char_of (48 + d) else char_of (55 + d))"

definition show_upper_hex :: "nat \<Rightarrow> string" where
  "show_upper_hex n = map upper_digit (radix_digits 16 n)"

definition parse_hex :: "nat \<Rightarrow> string \<Rightarrow> nat option" where
  "parse_hex maxv s =
     (let t = (case s of c # cs \<Rightarrow> (if c = CHR ''+'' \<and> cs \<noteq> [] then cs else s) | [] \<Rightarrow> [])
      in case span_digits 16 t of (ds, rest) \<Rightarrow>
        if ds = [] \<or> rest \<noteq> [] \<or> maxv < digits_value 16 ds then None else Some (digits_value 16 ds))"

definition chunk :: "u8 list \<Rightarrow> u8 list" where
  "chunk data = as_bytes (show_upper_hex (length data) @ crlf_str) @ data @ as_bytes crlf_str"

text \<open>What the listener writes: a chunk for every message of the channel, the last chunk when the senders are gone.\<close>

definition stream_chunked :: "u8 list list \<Rightarrow> bool \<Rightarrow> u8 list" where
  "stream_chunked msgs closed = concat (map chunk msgs) @ (if closed then as_bytes (''0'' @ crlf_str @ crlf_str) else [])"

text \<open>\<^verbatim>\<open>read_exact\<close> on the buffered reader; reads as large as the buffer go past it.\<close>

function bread_exact :: "nat \<Rightarrow> u8 list \<Rightarrow> buf_reader \<Rightarrow> (string, u8 list) res \<times> buf_reader" where
  "bread_exact n acc r =
     (if n = 0 then (Ok acc, r)
      else if fst r \<noteq> [] then
        let k = min n (length (fst r)) in bread_exact (n - k) (acc @ take k (fst r)) (drop k (fst r), snd r)
      else case pread (max n BUF_CAPACITY) (snd r) of
        (Ok d, c') \<Rightarrow>
          if d = [] then (Err ''early eof'', ([], c'))
          else bread_exact n acc (d, c')
      | (Err e, c') \<Rightarrow> (Err e, ([], c'))
      | (Panic, c') \<Rightarrow> (Panic, ([], c')))"
  by pat_completeness auto
termination
  by (relation "measures [\<lambda>(_, _, r). weight (snd r), \<lambda>(n, _, _). n]") (auto simp: Let_def intro: pread_shrinks [OF sym])

declare bread_exact.simps [simp del]

text \<open>A vector of more than \<^verbatim>\<open>isize::MAX\<close> bytes cannot be made: asking for one panics.\<close>

definition ISIZE_MAX :: nat where "ISIZE_MAX = 9223372036854775807"

text \<open>
  The dialer's side. \<open>takes k\<close> tells whether the reader of the channel takes the chunk after the first \<open>k\<close>. At the end of the stream every line is
  empty, and the loop goes on reading it.
\<close>

partial_function (option) read_chunked_body ::
  "(nat \<Rightarrow> bool) \<Rightarrow> u8 list list \<Rightarrow> buf_reader \<Rightarrow> ((string, unit) res \<times> u8 list list \<times> buf_reader) option" where
  "read_chunked_body takes out r =
     (case read_line ''read chunk size: '' r of
        (Err e, r1) \<Rightarrow> Some (Err e, out, r1)
      | (Panic, r1) \<Rightarrow> Some (Panic, out, r1)
      | (Ok line, r1) \<Rightarrow>
          if trim line = [] then read_chunked_body takes out r1
          else
            (case parse_hex 18446744073709551615 (trim line) of
               None \<Rightarrow> Some (Err (''parse chunk size '' @ trim line), out, r1)
             | Some n \<Rightarrow>
                 if n = 0 then Some (Ok (), out, snd (read_line [] r1))
                 else if ISIZE_MAX < n then Some (Panic, out, r1)
                 else
                   (case bread_exact n [] r1 of
                      (Ok data, r2) \<Rightarrow>
                        (let r3 = snd (read_line [] r2) in
                         if takes (length out) then read_chunked_body takes (out @ [data]) r3 else Some (Ok (), out, r3))
                    | (Err e, r2) \<Rightarrow> Some (Err (''read chunk data: '' @ e), out, r2)
                    | (Panic, r2) \<Rightarrow> Some (Panic, out, r2))))"

lemma to_digit_upper [simp]: "d < 16 \<Longrightarrow> to_digit 16 (upper_digit d) = Some d"
  by (auto simp: to_digit_def upper_digit_def Let_def)

lemma upper_digit_chars: "d < 16 \<Longrightarrow> plain_char (upper_digit d) \<and> upper_digit d \<noteq> CHR ''+''"
  by (auto simp: upper_digit_def plain_char_def char_of_eq_iff take_bit_eq_mod)

lemma show_upper_hex_chars: "c \<in> set (show_upper_hex n) \<Longrightarrow> plain_char c \<and> c \<noteq> CHR ''+''"
  using radix_digits_bound [of 16 _ n] by (auto simp: show_upper_hex_def upper_digit_chars)

lemma show_upper_hex_word: "plain_word (show_upper_hex n)"
  using show_upper_hex_chars by (auto simp: plain_word_def show_upper_hex_def)

lemma parse_show_upper_hex:
  assumes "n \<le> maxv"
  shows "parse_hex maxv (show_upper_hex n) = Some n"
proof -
  have "\<forall>d \<in> set ds. d < 16 \<Longrightarrow> span_digits 16 (map upper_digit ds) = (ds, [])" for ds
    by (induction ds) auto
  then have "span_digits 16 (show_upper_hex n) = (radix_digits 16 n, [])"
    using radix_digits_bound [of 16 _ n] by (auto simp: show_upper_hex_def)
  moreover obtain c cs where c: "show_upper_hex n = c # cs" using show_upper_hex_word [of n] by (cases "show_upper_hex n") (auto simp: plain_word_def)
  moreover have "c \<noteq> CHR ''+''" using show_upper_hex_chars [of c n] c by auto
  ultimately show ?thesis using assms by (simp add: parse_hex_def)
qed

lemma bread_exact_ok:
  assumes "piecewise (snd r)" and "rbytes r = d @ t" and "length d = n"
  shows "\<exists>r'. bread_exact n acc r = (Ok (acc @ d), r') \<and> rbytes r' = t \<and> piecewise (snd r') \<and> same_out (snd r) (snd r')"
  using assms
proof (induction n acc r arbitrary: d rule: bread_exact.induct)
  case (1 n acc r)
  consider "n = 0" | "n \<noteq> 0" "fst r \<noteq> []" | "n \<noteq> 0" "fst r = []" by blast
  then show ?case
  proof cases
    case 1
    then show ?thesis using "1.prems" by (subst bread_exact.simps) simp
  next
    case 2
    let ?k = "min n (length (fst r))"
    have k: "take ?k (fst r) = take ?k d" "rbytes (drop ?k (fst r), snd r) = drop ?k d @ t"
    proof -
      have cut: "take k a = take k d \<and> drop k a @ b = drop k d @ t" if "a @ b = d @ t" "k \<le> length a" "k \<le> length d" for k and a b :: "u8 list"
        using that(2,3) arg_cong [OF that(1), of "take k"] arg_cong [OF that(1), of "drop k"] by simp
      have "?k \<le> length d" using "1.prems"(3) by simp
      then show "take ?k (fst r) = take ?k d" "rbytes (drop ?k (fst r), snd r) = drop ?k d @ t"
        using cut [of "fst r" "pbytes (snd r)" ?k] "1.prems"(2) by (simp_all add: rbytes_def)
    qed
    have "length (drop ?k d) = n - ?k" using "1.prems"(3) by simp
    from "1.IH"(1) [OF 2 refl _ k(2) this] "1.prems"(1) obtain r' where
      r': "bread_exact (n - ?k) (acc @ take ?k (fst r)) (drop ?k (fst r), snd r) = (Ok ((acc @ take ?k (fst r)) @ drop ?k d), r')"
        "rbytes r' = t" "piecewise (snd r')" "same_out (snd r) (snd r')" by auto
    moreover have "bread_exact n acc r = bread_exact (n - ?k) (acc @ take ?k (fst r)) (drop ?k (fst r), snd r)"
      using 2 by (subst bread_exact.simps) (simp add: Let_def)
    ultimately show ?thesis unfolding k(1) by (intro exI [of _ r']) simp
  next
    case 3
    have "pbytes (snd r) \<noteq> []" using 3 "1.prems" by (auto simp: rbytes_def)
    moreover have "0 < max n BUF_CAPACITY" by (simp add: BUF_CAPACITY_def)
    ultimately obtain x c' where x: "pread (max n BUF_CAPACITY) (snd r) = (Ok x, c')" "x \<noteq> []"
      "pbytes (snd r) = x @ pbytes c'" "piecewise c'" "same_out (snd r) c'" using pread_Ok [OF "1.prems"(1)] by metis
    have "rbytes (x, c') = d @ t" using x(3) 3 "1.prems"(2) by (simp add: rbytes_def)
    from "1.IH"(2) [OF 3(1) _ x(1) [symmetric] refl x(2) _ this "1.prems"(3)] 3 x(4) obtain r' where
      "bread_exact n acc (x, c') = (Ok (acc @ d), r')" "rbytes r' = t" "piecewise (snd r')" "same_out c' (snd r')" by auto
    then show ?thesis using 3 x same_out_trans [OF x(5)] by (subst bread_exact.simps) auto
  qed
qed

lemma trim_word_line: "plain_word l \<Longrightarrow> trim (l @ crlf_str) = l"
  by (rule trim_line_end) (auto simp: trimmed_line_def plain_word_def http_line_plain)

lemma read_last_chunk:
  assumes "piecewise (snd r)" and eq: "rbytes r = as_bytes (''0'' @ crlf_str) @ as_bytes ([] @ crlf_str) @ t"
  shows "\<exists>r'. read_chunked_body takes out r = Some (Ok (), out, r') \<and> rbytes r' = t"
proof -
  have l: "''0'' = [] \<or> http_line ''0''" "[] = [] \<or> http_line []" by (simp_all add: http_line_def ascii_line_def)
  obtain r1 where r1: "read_line ''read chunk size: '' r = (Ok (''0'' @ crlf_str), r1)" "rbytes r1 = as_bytes ([] @ crlf_str) @ t"
    "piecewise (snd r1)" "same_out (snd r) (snd r1)" by (rule read_line_crlf [OF assms(1) eq l(1)])
  obtain r2 where r2: "read_line [] r1 = (Ok ([] @ crlf_str), r2)" "rbytes r2 = t" "piecewise (snd r2)" "same_out (snd r1) (snd r2)"
    by (rule read_line_crlf [OF r1(3,2) l(2)])
  have "trim (''0'' @ crlf_str) = ''0''" by (rule trim_word_line) (simp add: plain_word_def plain_char_def)
  moreover have "parse_hex 18446744073709551615 ''0'' = Some 0" by (simp add: parse_hex_def to_digit_def digits_value_def)
  ultimately show ?thesis using r1(1) r2 by (subst read_chunked_body.simps) simp
qed

lemma read_chunks:
  assumes "piecewise (snd r)" and "rbytes r = stream_chunked msgs True @ t" and "[] \<notin> set msgs" and "\<forall>d \<in> set msgs. length d \<le> ISIZE_MAX"
  shows "\<exists>r'. read_chunked_body (\<lambda>_. True) out r = Some (Ok (), out @ msgs, r') \<and> rbytes r' = t"
  using assms
proof (induction msgs arbitrary: r out)
  case Nil
  have "rbytes r = as_bytes (''0'' @ crlf_str) @ as_bytes ([] @ crlf_str) @ t" using Nil.prems(2) by (simp add: stream_chunked_def as_bytes_def)
  from read_last_chunk [OF Nil.prems(1) this] show ?case by simp
next
  case (Cons d msgs)
  let ?h = "show_upper_hex (length d)"
  have eq: "rbytes r = as_bytes (?h @ crlf_str) @ d @ as_bytes ([] @ crlf_str) @ stream_chunked msgs True @ t"
    using Cons.prems(2) by (simp add: stream_chunked_def chunk_def)
  have l: "?h = [] \<or> http_line ?h" "[] = [] \<or> http_line []" using http_line_plain [OF show_upper_hex_word] by simp_all
  obtain r1 where r1: "read_line ''read chunk size: '' r = (Ok (?h @ crlf_str), r1)"
    "rbytes r1 = d @ as_bytes ([] @ crlf_str) @ stream_chunked msgs True @ t" "piecewise (snd r1)" "same_out (snd r) (snd r1)"
    by (rule read_line_crlf [OF Cons.prems(1) eq l(1)])
  obtain r2 where r2: "bread_exact (length d) [] r1 = (Ok ([] @ d), r2)" "rbytes r2 = as_bytes ([] @ crlf_str) @ stream_chunked msgs True @ t"
    "piecewise (snd r2)" using bread_exact_ok [OF r1(3,2) refl] by blast
  obtain r3 where r3: "read_line [] r2 = (Ok ([] @ crlf_str), r3)" "rbytes r3 = stream_chunked msgs True @ t" "piecewise (snd r3)" "same_out (snd r2) (snd r3)"
    by (rule read_line_crlf [OF r2(3,2) l(2)])
  have d: "length d \<le> 18446744073709551615" "length d \<le> ISIZE_MAX" "d \<noteq> []" using Cons.prems(3,4) by (auto simp: ISIZE_MAX_def)
  then have p: "parse_hex 18446744073709551615 ?h = Some (length d)" by (intro parse_show_upper_hex)
  have "?h \<noteq> []" using show_upper_hex_word by (auto simp: plain_word_def)
  then have "read_chunked_body (\<lambda>_. True) out r = read_chunked_body (\<lambda>_. True) (out @ [d]) r3"
    using r1(1) r2(1) r3(1) p d(2,3) by (subst read_chunked_body.simps) (simp add: trim_word_line [OF show_upper_hex_word])
  then show ?case using Cons.IH [OF r3(3,2), of "out @ [d]"] Cons.prems(3,4) by simp
qed

text \<open>A stream that ends without the last chunk is read forever; an empty write of the server ends the client's reading.\<close>

lemma read_line_end: "rbytes r = [] \<Longrightarrow> piecewise (snd r) \<Longrightarrow> pend (snd r) = None \<Longrightarrow> read_line msg r = (Ok [], r)"
proof -
  assume "rbytes r = []" "piecewise (snd r)" "pend (snd r) = None"
  then have "fst r = []" "pieces (snd r) = []" by (cases "pieces (snd r)"; auto simp: rbytes_def pbytes_def piecewise_def)+
  then show ?thesis using \<open>pend (snd r) = None\<close>
    by (cases r) (simp add: read_line_def read_until_nl.simps pread_def BUF_CAPACITY_def of_bytes_def valid_utf8.simps)
qed

lemma chunked_end_hangs:
  assumes "rbytes r = []" and "piecewise (snd r)" and "pend (snd r) = None"
  shows "read_chunked_body takes out r = None"
proof (rule ccontr)
  assume "read_chunked_body takes out r \<noteq> None"
  then obtain res where "read_chunked_body takes out r = Some res" by auto
  then have "\<not> (rbytes r = [] \<and> piecewise (snd r) \<and> pend (snd r) = None)"
  proof (rule read_chunked_body.raw_induct [where P = "\<lambda>takes out r res. \<not> (rbytes r = [] \<and> piecewise (snd r) \<and> pend (snd r) = None)", rotated], goal_cases)
    case (1 f takes out r res)
    show ?case
    proof
      assume e: "rbytes r = [] \<and> piecewise (snd r) \<and> pend (snd r) = None"
      then have "f takes out r = Some res" using 1(2) by (simp add: read_line_end)
      from 1(1) [OF this] e show False by simp
    qed
  qed
  then show False using assms by simp
qed

lemma empty_write_ends_download:
  assumes "piecewise (snd r)" and "rbytes r = chunk [] @ t"
  shows "\<exists>r'. read_chunked_body takes out r = Some (Ok (), out, r') \<and> rbytes r' = t"
proof -
  have "char_of (48 :: nat) = CHR ''0''" by (simp add: char_of_eq_iff take_bit_eq_mod)
  then have "show_upper_hex 0 = ''0''" by (simp add: show_upper_hex_def radix_digits.simps upper_digit_def)
  then have "rbytes r = as_bytes (''0'' @ crlf_str) @ as_bytes ([] @ crlf_str) @ t" using assms(2) by (simp add: chunk_def)
  from read_last_chunk [OF assms(1) this] show ?thesis .
qed

section \<open>The listener (listener.rs)\<close>

text \<open>The first \<open>n\<close> characters of a string, and the rest.\<close>

fun take_chars :: "nat \<Rightarrow> string \<Rightarrow> string \<times> string" where
  "take_chars 0 s = ([], s)"
| "take_chars (Suc n) s =
     (if s = [] then ([], [])
      else let k = fst (utf8_step (as_bytes s)); (a, b) = take_chars n (drop k s) in (take k s @ a, b))"

lemma take_chars_length: "length (snd (take_chars n s)) \<le> length s"
proof (induction n arbitrary: s)
  case (Suc n)
  then show ?case using Suc [of "drop (fst (utf8_step (as_bytes s))) s"] by (auto simp: Let_def split: prod.splits)
qed simp

text \<open>\<^verbatim>\<open>byte as char\<close>, in UTF-8.\<close>

definition latin1_char :: "nat \<Rightarrow> string" where
  "latin1_char n = (if n < 128 then [char_of n] else [char_of (192 + n div 64), char_of (128 + n mod 64)])"

function url_decode :: "string \<Rightarrow> string" where
  "url_decode s =
     (case s of
        [] \<Rightarrow> []
      | c # cs \<Rightarrow>
          if c = CHR ''%'' then
            (case parse_hex 255 (fst (take_chars 2 cs)) of Some n \<Rightarrow> latin1_char n | None \<Rightarrow> []) @ url_decode (snd (take_chars 2 cs))
          else if c = CHR ''+'' then CHR '' '' # url_decode cs
          else c # url_decode cs)"
  by pat_completeness auto
termination
  by (relation "measure length") (auto intro: le_imp_less_Suc take_chars_length)

declare url_decode.simps [simp del]

definition parse_query :: "string \<Rightarrow> (string \<rightharpoonup> string)" where
  "parse_query path =
     (case find_char (CHR ''?'') path of
        None \<Rightarrow> Map.empty
      | Some i \<Rightarrow>
          fold (\<lambda>pair m. case query_pair pair of (k, v) \<Rightarrow> m(url_decode k \<mapsto> url_decode v)) (split_char (CHR ''&'') (drop (Suc i) path)) Map.empty)"

text \<open>Header lines with their names in lower case; the last of a name counts. \<open>lc\<close> is \<^verbatim>\<open>to_lowercase\<close>.\<close>

definition header_map :: "(string \<Rightarrow> string) \<Rightarrow> string list \<Rightarrow> (string \<rightharpoonup> string)" where
  "header_map lc ls =
     fold (\<lambda>l m. case split_once (CHR '':'') l of Some (k, v) \<Rightarrow> m(lc (trim k) \<mapsto> trim v) | None \<Rightarrow> m) ls Map.empty"

definition bread_to_end :: "buf_reader \<Rightarrow> (string, u8 list) res \<times> buf_reader" where
  "bread_to_end r =
     (case pend (snd r) of
        None \<Rightarrow> (Ok (rbytes r), ([], (snd r)\<lparr>pieces := []\<rparr>))
      | Some e \<Rightarrow> (Err (''read body: '' @ e), ([], (snd r)\<lparr>pieces := []\<rparr>)))"

definition read_body :: "(string \<rightharpoonup> string) \<Rightarrow> buf_reader \<Rightarrow> (string, u8 list) res \<times> buf_reader" where
  "read_body headers r =
     (case headers ''content-length'' of
        Some len_str \<Rightarrow>
          (case parse_unsigned 18446744073709551615 len_str of
             None \<Rightarrow> (Err (''parse content-length '' @ len_str), r)
           | Some len \<Rightarrow>
               if ISIZE_MAX < len then (Panic, r)
               else
               (case bread_exact len [] r of
                  (Err e, r') \<Rightarrow> (Err (''read body ('' @ show_nat len @ '' bytes): '' @ e), r')
                | res \<Rightarrow> res))
      | None \<Rightarrow> if headers ''transfer-encoding'' \<noteq> None then bread_to_end r else (Ok [], r))"

definition http_response :: "nat \<Rightarrow> string \<Rightarrow> string \<Rightarrow> string" where
  "http_response code reason body =
     (''HTTP/1.1 '' @ show_nat code @ '' '' @ reason) @ crlf_str @
     header_lines [''Content-Length: '' @ show_nat (length body), ''Content-Type: text/plain'', ''Connection: close''] @ crlf_str @ body"

definition options_response :: string where
  "options_response =
     ''HTTP/1.1 200 OK'' @ crlf_str @
     header_lines [''Access-Control-Allow-Origin: *'', ''Access-Control-Allow-Methods: GET, POST, PUT, OPTIONS'', ''Access-Control-Allow-Headers: *'',
       ''Content-Length: 0''] @ crlf_str"

definition download_response :: string where
  "download_response =
     ''HTTP/1.1 200 OK'' @ crlf_str @
     header_lines [''Content-Type: application/octet-stream'', ''Access-Control-Allow-Origin: *'', ''Transfer-Encoding: chunked''] @ crlf_str"

text \<open>The number of a post: one that is missing or no number counts as zero.\<close>

definition seq_of :: "(string \<rightharpoonup> string) \<Rightarrow> u64" where
  "seq_of params =
     (case parse_unsigned 18446744073709551615 (case params ''seq'' of Some s \<Rightarrow> s | None \<Rightarrow> []) of Some n \<Rightarrow> word_of_nat n | None \<Rightarrow> 0)"

text \<open>The outcome: whether a new connection of the session is handed to the server.\<close>

definition handle_download :: "string \<Rightarrow> pconn \<Rightarrow> SessionManager \<Rightarrow> (string, bool) res \<times> pconn \<times> SessionManager" where
  "handle_download sid c m =
     (case get_or_create sid m of
        (True, m') \<Rightarrow>
          (case pwrite ''write download response: '' (as_bytes download_response) c of
             (Ok _, c') \<Rightarrow> (Ok True, c', m') | (Err e, c') \<Rightarrow> (Err e, c', m') | (Panic, c') \<Rightarrow> (Panic, c', m'))
      | (False, m') \<Rightarrow>
          (case pwrite ''write response: '' (as_bytes (http_response 409 ''Conflict'' ''Session already exists'')) c of
             (Ok _, c') \<Rightarrow> (Err ''session already exists'', c', m') | (Err e, c') \<Rightarrow> (Err e, c', m') | (Panic, c') \<Rightarrow> (Panic, c', m')))"

definition handle_upload_get :: "string \<Rightarrow> (string \<rightharpoonup> string) \<Rightarrow> buf_reader \<Rightarrow> SessionManager \<Rightarrow> (string, bool) res \<times> pconn \<times> SessionManager" where
  "handle_upload_get sid params r m =
     (case bread_to_end r of
        (Ok body, r') \<Rightarrow> (Ok False, snd r', push_to sid (seq_of params) body m)
      | (Err e, r') \<Rightarrow> (Err e, snd r', snd (get_or_create sid m))
      | (Panic, r') \<Rightarrow> (Panic, snd r', snd (get_or_create sid m)))"

definition handle_upload_post :: "string \<Rightarrow> (string \<rightharpoonup> string) \<Rightarrow> u8 list \<Rightarrow> SessionManager \<Rightarrow> SessionManager" where
  "handle_upload_post sid params body m = push_to sid (seq_of params) body m"

definition reply :: "string \<Rightarrow> string \<Rightarrow> (string, bool) res \<Rightarrow> pconn \<Rightarrow> SessionManager \<Rightarrow> (string, bool) res \<times> pconn \<times> SessionManager" where
  "reply msg text after c m =
     (case pwrite msg (as_bytes text) c of
        (Ok _, c') \<Rightarrow> (after, c', m) | (Err e, c') \<Rightarrow> (Err e, c', m) | (Panic, c') \<Rightarrow> (Panic, c', m))"

definition handle_request ::
  "(string \<Rightarrow> string) \<Rightarrow> string \<Rightarrow> string \<Rightarrow> string list \<Rightarrow> buf_reader \<Rightarrow> SessionManager \<Rightarrow> (string, bool) res \<times> pconn \<times> SessionManager" where
  "handle_request lc verb raw_path ls r m =
     (let params = parse_query raw_path in
      case params ''session_id'' of
        None \<Rightarrow> reply ''write response: '' (http_response 400 ''Bad Request'' []) (Err ''missing session_id'') (snd r) m
      | Some sid \<Rightarrow>
          if verb = ''GET'' then
            if params ''seq'' \<noteq> None then handle_upload_get sid params r m else handle_download sid (snd r) m
          else if verb = ''POST'' \<or> verb = ''PUT'' then
            (case read_body (header_map lc ls) r of
               (Ok body, r') \<Rightarrow> reply ''write response: '' (http_response 200 ''OK'' []) (Ok False) (snd r') (handle_upload_post sid params body m)
             | (Err e, r') \<Rightarrow> (Err e, snd r', m)
             | (Panic, r') \<Rightarrow> (Panic, snd r', m))
          else if verb = ''OPTIONS'' then reply ''write options: '' options_response (Ok False) (snd r) m
          else reply ''write response: '' (http_response 405 ''Method Not Allowed'' []) (Ok False) (snd r) m)"

definition handle_conn ::
  "(string \<Rightarrow> string) \<Rightarrow> pconn \<Rightarrow> SessionManager \<Rightarrow> (string, bool) res \<times> pconn \<times> SessionManager" where
  "handle_conn lc c m =
     (case read_line ''read request line: '' ([], c) of
        (Ok line, r) \<Rightarrow>
          let request_line = trim line; parts = split_whitespace request_line in
          if length parts < 2 then (Err (''invalid request line: '' @ request_line), snd r, m)
          else
            (case skip_headers ''read header: '' r of
               (Ok ls, r') \<Rightarrow> handle_request lc (parts ! 0) (parts ! 1) ls r' m
             | (Err e, r') \<Rightarrow> (Err e, snd r', m)
             | (Panic, r') \<Rightarrow> (Panic, snd r', m))
      | (Err e, r) \<Rightarrow> (Err e, snd r, m)
      | (Panic, r) \<Rightarrow> (Panic, snd r, m))"

section \<open>The listener understands the dialer\<close>

definition query_safe :: "string \<Rightarrow> bool" where
  "query_safe s \<longleftrightarrow> (\<forall>c \<in> set s. plain_char c \<and> c \<notin> set ''%+&=?'')"

definition ascii_case :: "(string \<Rightarrow> string) \<Rightarrow> bool" where
  "ascii_case lc \<longleftrightarrow> (\<forall>s. (\<forall>c \<in> set s. (of_char c :: nat) < 128) \<longrightarrow> lc s = to_ascii_lowercase s)"

lemma url_decode_safe: "query_safe s \<Longrightarrow> url_decode s = s"
proof (induction s)
  case (Cons c s)
  then show ?case by (subst url_decode.simps) (auto simp: query_safe_def)
qed (simp add: url_decode.simps)

lemma show_nat_plain: "c \<in> set (show_nat n) \<Longrightarrow> plain_char c \<and> c \<notin> set ''%+&=?''"
proof -
  assume "c \<in> set (show_nat n)"
  then have c: "48 \<le> (of_char c :: nat)" "(of_char c :: nat) \<le> 57" using show_nat_chars by blast+
  moreover have "c \<notin> set ''%+&=?''" using c by auto
  ultimately show ?thesis by (simp only: plain_char_def) simp
qed

lemma show_nat_safe: "query_safe (show_nat n)" and show_nat_word: "plain_word (show_nat n)"
  using show_nat_plain by (simp_all only: query_safe_def plain_word_def show_nat_nonempty) blast+

lemma query_pair_safe: "query_safe k \<Longrightarrow> query_pair (k @ ''='' @ v) = (k, v)"
proof -
  assume "query_safe k"
  then have "CHR ''='' \<notin> set k" by (auto simp only: query_safe_def list.set insert_iff)
  from split_once_append [OF this, of v] show ?thesis by (simp add: query_pair_def)
qed

lemma parse_query_one:
  assumes "CHR ''?'' \<notin> set path" and "query_safe sid"
  shows "parse_query (path @ ''?session_id='' @ sid) = [''session_id'' \<mapsto> sid]"
proof -
  have "find_char (CHR ''?'') (path @ ''?session_id='' @ sid) = Some (length path)" using find_char_append [OF assms(1)] by simp
  moreover have "split_char (CHR ''&'') (''session_id='' @ sid) = [''session_id='' @ sid]"
    using assms(2) by (intro split_char_none) (auto simp: query_safe_def)
  moreover have "query_safe ''session_id''" by (simp add: query_safe_def plain_char_def)
  ultimately show ?thesis
    using query_pair_safe [of "''session_id''" sid] url_decode_safe [of "''session_id''"] url_decode_safe [OF assms(2)] by (simp add: parse_query_def)
qed

lemma parse_query_two:
  assumes "CHR ''?'' \<notin> set path" and "query_safe sid" and "query_safe n"
  shows "parse_query (path @ ''?session_id='' @ sid @ ''&seq='' @ n) = [''session_id'' \<mapsto> sid, ''seq'' \<mapsto> n]"
proof -
  have "find_char (CHR ''?'') (path @ ''?session_id='' @ sid @ ''&seq='' @ n) = Some (length path)" using find_char_append [OF assms(1)] by simp
  moreover have "split_char (CHR ''&'') ((''session_id='' @ sid) @ CHR ''&'' # ''seq='' @ n) = [''session_id='' @ sid, ''seq='' @ n]"
  proof (subst split_char_first)
    show "CHR ''&'' \<notin> set (''session_id='' @ sid)" using assms(2) by (auto simp: query_safe_def)
    have "split_char (CHR ''&'') (''seq='' @ n) = [''seq='' @ n]" using assms(3) by (intro split_char_none) (auto simp: query_safe_def)
    then show "(''session_id='' @ sid) # split_char (CHR ''&'') (''seq='' @ n) = [''session_id='' @ sid, ''seq='' @ n]" by (rule arg_cong)
  qed
  moreover have "query_safe ''session_id''" "query_safe ''seq''" by (simp_all add: query_safe_def plain_char_def)
  ultimately show ?thesis
    using query_pair_safe [of "''session_id''" sid] query_pair_safe [of "''seq''" n] url_decode_safe [of "''session_id''"] url_decode_safe [of "''seq''"]
      url_decode_safe [OF assms(2)] url_decode_safe [OF assms(3)] by (simp add: parse_query_def)
qed

lemma handle_conn_request:
  assumes "piecewise c" and "pbytes c = as_bytes ((verb @ '' '' @ url @ '' HTTP/1.1'') @ crlf_str) @ as_bytes (header_lines ls @ crlf_str) @ rest"
    and "plain_word verb" and "plain_word url" and "\<forall>l \<in> set ls. trimmed_line l"
  shows "\<exists>r. handle_conn lc c m = handle_request lc verb url ls r m \<and> rbytes r = rest \<and> piecewise (snd r) \<and> same_out c (snd r)"
proof -
  let ?l = "verb @ '' '' @ url @ '' HTTP/1.1''"
  have "http_line '' ''" "http_line '' HTTP/1.1''" by (simp_all add: http_line_def ascii_line_def)
  then have l: "http_line ?l" by (intro http_line_append http_line_plain [OF assms(3)] http_line_plain [OF assms(4)])
  then have t: "trimmed_line ?l" using assms(3) by (cases verb) (auto simp: trimmed_line_def plain_word_def plain_char_def)
  have pw: "piecewise (snd ([] :: u8 list, c))" using assms(1) by simp
  have b: "rbytes ([], c) = as_bytes (?l @ crlf_str) @ as_bytes (header_lines ls @ crlf_str) @ rest" using assms(2) by (simp add: rbytes_def)
  obtain r where r: "read_line ''read request line: '' ([], c) = (Ok (?l @ crlf_str), r)"
    "rbytes r = as_bytes (header_lines ls @ crlf_str) @ rest" "piecewise (snd r)" "same_out c (snd r)"
    by (rule read_line_crlf [OF pw b disjI2 [OF l], of "''read request line: ''"]) (rule that, simp_all only: snd_conv)
  from skip_headers_lines [OF r(3,2) assms(5), of "''read header: ''"] obtain r' where
    r': "skip_headers ''read header: '' r = (Ok ls, r')" "rbytes r' = rest" "piecewise (snd r')" "same_out (snd r) (snd r')" by blast
  have "split_whitespace (verb @ CHR '' '' # url @ CHR '' '' # ''HTTP/1.1'') = verb # url # split_whitespace ''HTTP/1.1''"
    unfolding split_whitespace_word [OF assms(3)] split_whitespace_word [OF assms(4)] ..
  then have w: "split_whitespace ?l = verb # url # split_whitespace ''HTTP/1.1''" by simp
  have "handle_conn lc c m = handle_request lc verb url ls r' m"
    unfolding handle_conn_def r(1) by (simp add: trim_line_end [OF t] w r'(1) del: append_Cons append.simps append_assoc)
  then show ?thesis using r'(2,3) same_out_trans [OF r(4) r'(4)] by blast
qed

definition post_headers :: "string \<Rightarrow> u8 list \<Rightarrow> string list" where
  "post_headers host data = [''Host: '' @ host, ''Content-Type: application/octet-stream'', ''Content-Length: '' @ show_nat (length data), ''Connection: close'']"

lemma trimmed_header: "trimmed_line v \<Longrightarrow> http_line k \<Longrightarrow> plain_char (hd k) \<Longrightarrow> trimmed_line (k @ v)"
  using http_line_append [of k v] by (simp add: trimmed_line_def) (simp add: http_line_def ascii_line_def)

lemma trimmed_word: "plain_word w \<Longrightarrow> trimmed_line w"
  by (auto simp: trimmed_line_def http_line_plain plain_word_def)

lemma post_headers_trimmed: "trimmed_line host \<Longrightarrow> \<forall>l \<in> set (post_headers host data). trimmed_line l"
proof -
  assume h: "trimmed_line host"
  have "trimmed_line (''Host: '' @ host)" "trimmed_line (''Content-Length: '' @ show_nat (length data))"
    by (rule trimmed_header [OF h] trimmed_header [OF trimmed_word [OF show_nat_word]]; simp add: http_line_def ascii_line_def plain_char_def)+
  moreover have "trimmed_line ''Content-Type: application/octet-stream''" "trimmed_line ''Connection: close''"
    by (simp_all add: trimmed_line_def http_line_def ascii_line_def plain_char_def)
  ultimately show ?thesis by (simp add: post_headers_def)
qed

lemma header_map_length:
  assumes "ascii_case lc"
  shows "header_map lc (post_headers host data) ''content-length'' = Some (show_nat (length data))"
proof -
  have u: "lc s = to_ascii_lowercase s" if "\<forall>c \<in> set s. (of_char c :: nat) < 128" for s using assms that by (simp only: ascii_case_def)
  have f: "split_once (CHR '':'') (k @ '':'' @ '' '' @ v) = Some (k, CHR '' '' # v)" if "CHR '':'' \<notin> set k" for k v using split_once_append [OF that] by simp
  have t: "trim (CHR '' '' # v) = v" if "plain_word v" for v
    using that by (intro trim_blank) (auto simp: plain_word_def)
  have k: "trim k = k" if "plain_word k" for k
    using that trim_start_plain [of k] trim_end_plain [of k] by (auto simp: plain_word_def trim_def)
  have h: "lc (trim ''Host'') = ''host''" "lc (trim ''Content-Type'') = ''content-type''"
    "lc (trim ''Content-Length'') = ''content-length''" "lc (trim ''Connection'') = ''connection''"
    by ((subst k, simp add: plain_word_def plain_char_def), (subst u, simp, simp add: to_ascii_lowercase_def ascii_lower_char_def char_of_eq_iff take_bit_eq_mod))+
  have l: "split_once (CHR '':'') (''Host: '' @ host) = Some (''Host'', CHR '' '' # host)"
    "split_once (CHR '':'') ''Content-Type: application/octet-stream'' = Some (''Content-Type'', CHR '' '' # ''application/octet-stream'')"
    "split_once (CHR '':'') (''Content-Length: '' @ show_nat (length data)) = Some (''Content-Length'', CHR '' '' # show_nat (length data))"
    "split_once (CHR '':'') ''Connection: close'' = Some (''Connection'', CHR '' '' # ''close'')"
    using f [of "''Host''" host] f [of "''Content-Type''" "''application/octet-stream''"] f [of "''Content-Length''" "show_nat (length data)"] f [of "''Connection''" "''close''"]
    by simp_all
  show ?thesis by (simp add: header_map_def post_headers_def l h t [OF show_nat_word] del: append_Cons append.simps)
qed

lemma plain_url:
  assumes "plain_word path" and "query_safe q"
  shows "plain_word (path @ ''?session_id='' @ q)"
proof -
  have "plain_word ''?session_id=''" by (simp add: plain_word_def plain_char_def)
  then show ?thesis using assms by (auto simp only: plain_word_def query_safe_def set_append append_is_Nil_conv)
qed

lemma post_handled:
  assumes "piecewise c" and "pwr_err c = None" and "plain_word path" and "CHR ''?'' \<notin> set path" and "query_safe sid" and "trimmed_line host"
    and "ascii_case lc" and "length data \<le> ISIZE_MAX" and "pbytes c = as_bytes (post_request path sid host seq data) @ data @ rest"
  shows "\<exists>c'. handle_conn lc c m = (Ok False, c', push_to sid seq data m) \<and> pout c' = pout c @ as_bytes (http_response 200 ''OK'' [])"
proof -
  let ?url = "path @ ''?session_id='' @ sid @ ''&seq='' @ show_nat (unat seq)"
  have url: "plain_word ?url"
  proof -
    have "plain_word (path @ ''?session_id='' @ sid)" by (rule plain_url [OF assms(3,5)])
    moreover have "plain_word ''&seq=''" by (simp add: plain_word_def plain_char_def)
    ultimately show ?thesis using show_nat_word [of "unat seq"] by (auto simp only: plain_word_def set_append append_is_Nil_conv)
  qed
  have "pbytes c = as_bytes ((''POST'' @ '' '' @ ?url @ '' HTTP/1.1'') @ crlf_str) @ as_bytes (header_lines (post_headers host data) @ crlf_str) @ data @ rest"
    using assms(9) by (simp add: post_request_def post_headers_def as_bytes_def)
  moreover have "plain_word ''POST''" by (simp add: plain_word_def plain_char_def)
  ultimately obtain r where r: "handle_conn lc c m = handle_request lc ''POST'' ?url (post_headers host data) r m" "rbytes r = data @ rest"
    "piecewise (snd r)" "same_out c (snd r)" using handle_conn_request [OF assms(1) _ _ url post_headers_trimmed [OF assms(6)]] by blast
  from bread_exact_ok [OF r(3,2) refl, of "[]"] obtain r' where r': "bread_exact (length data) [] r = (Ok data, r')" "same_out (snd r) (snd r')" by auto
  have len: "length data \<le> 18446744073709551615" using assms(8) by (simp add: ISIZE_MAX_def)
  have body: "read_body (header_map lc (post_headers host data)) r = (Ok data, r')"
    using r'(1) len assms(8) by (simp add: read_body_def header_map_length [OF assms(7)])
  have q: "parse_query ?url = [''session_id'' \<mapsto> sid, ''seq'' \<mapsto> show_nat (unat seq)]" by (rule parse_query_two [OF assms(4,5) show_nat_safe])
  have "unat seq \<le> 18446744073709551615" using unat_bound [of seq] by simp
  then have s: "seq_of [''session_id'' \<mapsto> sid, ''seq'' \<mapsto> show_nat (unat seq)] = seq" by (simp add: seq_of_def)
  have "handle_conn lc c m = reply ''write response: '' (http_response 200 ''OK'' []) (Ok False) (snd r') (push_to sid seq data m)"
    unfolding r(1) handle_request_def q by (simp add: body s handle_upload_post_def)
  moreover have "same_out c (snd r')" by (rule same_out_trans [OF r(4) r'(2)])
  ultimately show ?thesis using assms(2) by (simp add: reply_def pwrite_def same_out_def)
qed

lemma download_handled:
  assumes "piecewise c" and "pwr_err c = None" and "plain_word path" and "CHR ''?'' \<notin> set path" and "query_safe sid" and "trimmed_line host"
    and "pbytes c = as_bytes (download_request path sid host) @ rest"
  shows "\<exists>c'. handle_conn lc c m = (if m sid = None then (Ok True, c', m(sid \<mapsto> UploadQueue_new)) else (Err ''session already exists'', c', m)) \<and>
    pout c' = pout c @ as_bytes (if m sid = None then download_response else http_response 409 ''Conflict'' ''Session already exists'')"
proof -
  let ?url = "path @ ''?session_id='' @ sid" and ?ls = "[''Host: '' @ host, ''Accept: */*'', ''Connection: keep-alive'']"
  have url: "plain_word ?url" by (rule plain_url [OF assms(3,5)])
  have ls: "\<forall>l \<in> set ?ls. trimmed_line l"
  proof -
    have "trimmed_line (''Host: '' @ host)" by (rule trimmed_header [OF assms(6)]) (simp_all add: http_line_def ascii_line_def plain_char_def)
    then show ?thesis by (simp add: trimmed_line_def http_line_def ascii_line_def plain_char_def)
  qed
  have "pbytes c = as_bytes ((''GET'' @ '' '' @ ?url @ '' HTTP/1.1'') @ crlf_str) @ as_bytes (header_lines ?ls @ crlf_str) @ rest"
    using assms(7) by (simp add: download_request_def as_bytes_def)
  moreover have "plain_word ''GET''" by (simp add: plain_word_def plain_char_def)
  ultimately obtain r where r: "handle_conn lc c m = handle_request lc ''GET'' ?url ?ls r m" "same_out c (snd r)"
    using handle_conn_request [OF assms(1) _ _ url ls] by blast
  have "handle_conn lc c m = handle_download sid (snd r) m"
    unfolding r(1) handle_request_def parse_query_one [OF assms(4,5)] by simp
  then show ?thesis using r(2) assms(2)
    by (cases "m sid") (auto simp: handle_download_def get_or_create_def pwrite_def same_out_def)
qed

lemma download_read:
  assumes "piecewise c" and "pwr_err c = None" and "sc_mode cfg = PacketUp" and "[] \<notin> set msgs" and "\<forall>d \<in> set msgs. length d \<le> ISIZE_MAX"
    and "pbytes c = as_bytes download_response @ stream_chunked msgs True @ rest"
  shows "\<exists>r r'. split_dial cfg addr sid c = (Ok (), r) \<and> read_chunked_body (\<lambda>_. True) [] r = Some (Ok (), msgs, r') \<and> rbytes r' = rest"
proof -
  let ?c = "c\<lparr>pout := pout c @ as_bytes (download_request (sc_path cfg) sid (if sc_host cfg = [] then addr else sc_host cfg))\<rparr>"
  let ?l = "''HTTP/1.1 200 OK''" and ?ls = "[''Content-Type: application/octet-stream'', ''Access-Control-Allow-Origin: *'', ''Transfer-Encoding: chunked'']"
  have l: "trimmed_line ?l" "\<forall>l \<in> set ?ls. trimmed_line l" by (simp_all add: trimmed_line_def http_line_def ascii_line_def plain_char_def)
  have pw: "piecewise (snd ([] :: u8 list, ?c))" using assms(1) by (simp add: piecewise_def)
  have b: "rbytes ([], ?c) = as_bytes (?l @ crlf_str) @ as_bytes (header_lines ?ls @ crlf_str) @ stream_chunked msgs True @ rest"
    using assms(6) by (simp add: rbytes_def pbytes_def download_response_def as_bytes_def)
  have "http_line ?l" using l(1) by (simp only: trimmed_line_def)
  then obtain r where r: "read_line ''read response line: '' ([], ?c) = (Ok (?l @ crlf_str), r)"
    "rbytes r = as_bytes (header_lines ?ls @ crlf_str) @ stream_chunked msgs True @ rest" "piecewise (snd r)" "same_out (snd ([] :: u8 list, ?c)) (snd r)"
    by (rule read_line_crlf [OF pw b disjI2])
  from skip_headers_lines [OF r(3,2) l(2), of "''read header: ''"] obtain r1 where
    r1: "skip_headers ''read header: '' r = (Ok ?ls, r1)" "rbytes r1 = stream_chunked msgs True @ rest" "piecewise (snd r1)" by blast
  have w: "split_whitespace (''HTTP/1.1'' @ CHR '' '' # ''200'' @ CHR '' '' # ''OK'' @ crlf_str) = ''HTTP/1.1'' # ''200'' # split_whitespace (''OK'' @ crlf_str)"
    by (subst split_whitespace_word, simp add: plain_word_def plain_char_def)+ simp
  have "parse_u16 ''200'' = Some 200" by (simp add: parse_unsigned_def to_digit_def digits_value_def)
  then have "read_http_response_line ([], ?c) = (Ok (?l, 200), r)"
    unfolding read_http_response_line_def r(1) using w by (simp add: trim_line_end [OF l(1), simplified])
  then have "split_dial cfg addr sid c = (Ok (), r1)" using assms(2,3) r1(1) by (simp add: split_dial_def pwrite_def Let_def)
  moreover obtain r' where "read_chunked_body (\<lambda>_. True) [] r1 = Some (Ok (), [] @ msgs, r')" "rbytes r' = rest"
    using read_chunks [OF r1(3,2) assms(4,5)] by blast
  ultimately show ?thesis unfolding append_Nil by blast
qed

text \<open>A post that overtakes the download request creates the session, and the download request is then refused.\<close>

lemma early_post_conflicts:
  assumes "pwr_err c = None"
  shows "fst (handle_download sid c (push_to sid seq data m)) = Err ''session already exists''"
proof -
  obtain q where "push_to sid seq data m sid = Some q" by (cases "m sid") (simp_all add: push_to_def get_or_create_def)
  then show ?thesis using assms by (simp add: handle_download_def get_or_create_def pwrite_def)
qed

text \<open>C35. Dialer and listener of the split transport agree, however the network cuts their messages: a post is taken as one push of exactly its number and body into
  the queue of its session and answered 200; a download request opens a session and hands a connection to the server, or is refused when the
  session exists; and the dialer reads every message of the server out of the chunks of the answer.\<close>
theorem split_requests_agree:
  assumes "piecewise c" and "pwr_err c = None" and "plain_word path" and "CHR ''?'' \<notin> set path" and "query_safe sid" and "trimmed_line host"
    and "ascii_case lc" and "sc_mode cfg = PacketUp"
  shows "(\<forall>seq data. length data \<le> ISIZE_MAX \<longrightarrow> pbytes c = as_bytes (post_request path sid host seq data) @ data \<longrightarrow>
      (\<exists>c'. handle_conn lc c m = (Ok False, c', push_to sid seq data m) \<and> pout c' = pout c @ as_bytes (http_response 200 ''OK'' []))) \<and>
    (pbytes c = as_bytes (download_request path sid host) \<longrightarrow>
      (\<exists>c'. handle_conn lc c m = (if m sid = None then (Ok True, c', m(sid \<mapsto> UploadQueue_new)) else (Err ''session already exists'', c', m)) \<and>
        pout c' = pout c @ as_bytes (if m sid = None then download_response else http_response 409 ''Conflict'' ''Session already exists''))) \<and>
    (\<forall>msgs. [] \<notin> set msgs \<longrightarrow> (\<forall>d \<in> set msgs. length d \<le> ISIZE_MAX) \<longrightarrow> pbytes c = as_bytes download_response @ stream_chunked msgs True \<longrightarrow>
      (\<exists>r r'. split_dial cfg addr sid c = (Ok (), r) \<and> read_chunked_body (\<lambda>_. True) [] r = Some (Ok (), msgs, r') \<and> rbytes r' = []))"
proof (intro conjI allI impI)
  fix seq data assume "length data \<le> ISIZE_MAX" "pbytes c = as_bytes (post_request path sid host seq data) @ data"
  then show "\<exists>c'. handle_conn lc c m = (Ok False, c', push_to sid seq data m) \<and> pout c' = pout c @ as_bytes (http_response 200 ''OK'' [])"
    using post_handled [OF assms(1-7), of data seq "[]"] by simp
next
  assume "pbytes c = as_bytes (download_request path sid host)"
  then show "\<exists>c'. handle_conn lc c m = (if m sid = None then (Ok True, c', m(sid \<mapsto> UploadQueue_new)) else (Err ''session already exists'', c', m)) \<and>
      pout c' = pout c @ as_bytes (if m sid = None then download_response else http_response 409 ''Conflict'' ''Session already exists'')"
    using download_handled [OF assms(1-6), of "[]"] by simp
next
  fix msgs :: "u8 list list"
  assume "[] \<notin> set msgs" "\<forall>d \<in> set msgs. length d \<le> ISIZE_MAX" "pbytes c = as_bytes download_response @ stream_chunked msgs True"
  then show "\<exists>r r'. split_dial cfg addr sid c = (Ok (), r) \<and> read_chunked_body (\<lambda>_. True) [] r = Some (Ok (), msgs, r') \<and> rbytes r' = []"
    using download_read [OF assms(1,2,8), of msgs "[]"] by simp
qed

definition split_sample :: SplitConfig where
  "split_sample = from_stream_config ''x.org'' ''/p'' [] [] 0 0"

theorem split_requests_agree_witness:
  "\<exists>c'. handle_conn to_ascii_lowercase (sample_pconn [as_bytes (post_request ''/p'' ''ab-1'' ''x.org'' 0 [1, 2]), [1, 2]]) Map.empty =
    (Ok False, c', push_to ''ab-1'' 0 [1, 2] Map.empty)"
proof -
  let ?c = "sample_pconn [as_bytes (post_request ''/p'' ''ab-1'' ''x.org'' 0 [1, 2]), [1, 2]]"
  have c: "piecewise ?c" "pwr_err ?c = None" by (simp_all add: sample_pconn_def piecewise_def post_request_def as_bytes_def)
  have p: "plain_word ''/p''" "CHR ''?'' \<notin> set ''/p''" "query_safe ''ab-1''" "trimmed_line ''x.org''"
    by (simp_all add: plain_word_def plain_char_def query_safe_def trimmed_line_def http_line_def ascii_line_def)
  have lc: "ascii_case to_ascii_lowercase" by (simp add: ascii_case_def)
  have m: "sc_mode split_sample = PacketUp" by (simp add: split_sample_def from_stream_config_def)
  have "pbytes ?c = as_bytes (post_request ''/p'' ''ab-1'' ''x.org'' 0 [1, 2]) @ [1, 2]" "length [1, 2 :: u8] \<le> ISIZE_MAX"
    by (simp_all add: sample_pconn_def pbytes_def ISIZE_MAX_def)
  with split_requests_agree [OF c p lc m, of "Map.empty"] show ?thesis by blast
qed

text \<open>The connection hands out what its channel carries, in order. A message without bytes reads as the end of the stream.\<close>

definition sc_pending :: "SplitConn \<Rightarrow> u8 list" where
  "sc_pending c = drop (read_pos c) (read_buf c) @ concat (read_rx c)"

lemma SplitConn_read_stream:
  assumes "SplitConn_read n c = (Sc_ready out, c')" and "read_pos c \<le> length (read_buf c)"
  shows "out @ sc_pending c' = sc_pending c \<and> read_pos c' \<le> length (read_buf c') \<and> length out \<le> n"
proof (cases "read_pos c < length (read_buf c)")
  case True
  let ?d = "drop (read_pos c) (read_buf c)" and ?n = "min n (length (read_buf c) - read_pos c)"
  have "take ?n ?d @ drop ?n ?d = ?d" by (rule append_take_drop_id)
  then have "take ?n ?d @ drop (read_pos c + ?n) (read_buf c) = ?d" by (metis drop_drop add.commute)
  then show ?thesis using True assms by (auto simp: SplitConn_read_def sc_pending_def Let_def split: if_splits)
next
  case False
  then show ?thesis using assms by (auto simp: SplitConn_read_def sc_pending_def Let_def split: list.splits if_splits)
qed

lemma padding_accepted: "0 < n \<Longrightarrow> is_padding_valid (generate_padding pick RepeatX n) lo hi RepeatX \<longleftrightarrow> lo \<le> n \<and> n \<le> hi"
  by (simp add: is_padding_valid_def generate_padding_def)

end
