(* ===== verification/Socks.thy ===== *)
theory Socks
  imports Proxy_Io
begin

text \<open>
  \<^verbatim>\<open>astra-core-proxy-socks\<close>: the SOCKS4 and SOCKS5 servers up to the session they dispatch, the
  datagram relay of an association, and the client's handshakes. The relay of bytes after a
  dispatch, and the sockets, are I/O.
\<close>

section \<open>Protocol (protocol.rs)\<close>

definition SOCKS4_VERSION :: u8 where "SOCKS4_VERSION = 4"
definition SOCKS5_VERSION :: u8 where "SOCKS5_VERSION = 5"
definition CMD_CONNECT :: u8 where "CMD_CONNECT = 1"
definition CMD_BIND :: u8 where "CMD_BIND = 2"
definition CMD_UDP_ASSOCIATE :: u8 where "CMD_UDP_ASSOCIATE = 3"
definition SOCKS4_GRANTED :: u8 where "SOCKS4_GRANTED = 90"
definition SOCKS4_REJECTED :: u8 where "SOCKS4_REJECTED = 91"
definition AUTH_NOT_REQUIRED :: u8 where "AUTH_NOT_REQUIRED = 0"
definition AUTH_PASSWORD :: u8 where "AUTH_PASSWORD = 2"
definition AUTH_NO_MATCH :: u8 where "AUTH_NO_MATCH = 255"
definition STATUS_SUCCESS :: u8 where "STATUS_SUCCESS = 0"
definition STATUS_CMD_NOT_SUPPORTED :: u8 where "STATUS_CMD_NOT_SUPPORTED = 7"

lemmas socks_consts = SOCKS4_VERSION_def SOCKS5_VERSION_def CMD_CONNECT_def CMD_BIND_def CMD_UDP_ASSOCIATE_def
  SOCKS4_GRANTED_def SOCKS4_REJECTED_def AUTH_NOT_REQUIRED_def AUTH_PASSWORD_def AUTH_NO_MATCH_def
  STATUS_SUCCESS_def STATUS_CMD_NOT_SUPPORTED_def

datatype AuthType = NoAuth | Password

record SocksConfig =
  auth_type :: AuthType
  accounts :: "(string \<times> string) list"
  udp_enabled :: bool
  sc_address :: "Address option"
  user_level :: u32
  cone :: bool

definition SocksConfig_default :: SocksConfig where
  "SocksConfig_default =
     \<lparr>auth_type = NoAuth, accounts = [], udp_enabled = False, sc_address = None, user_level = 0, cone = False\<rparr>"

abbreviation read_exact :: "nat \<Rightarrow> u8 list cio" where "read_exact \<equiv> cread ''read error: ''"
abbreviation read_u8 :: "u8 cio" where "read_u8 \<equiv> cread_u8 ''read u8: ''"
abbreviation read_u16 :: "u16 cio" where "read_u16 \<equiv> cread_u16 ''read u16: ''"
abbreviation write_all :: "u8 list \<Rightarrow> unit cio" where "write_all \<equiv> cwrite ''write error: ''"

text \<open>The loop of \<open>read_until_null\<close> over the bytes that are still to arrive.\<close>

fun split_null :: "u8 list \<Rightarrow> (u8 list \<times> u8 list) option" where
  "split_null [] = None"
| "split_null (b # bs) = (if b = 0 then Some ([], bs) else map_option (\<lambda>(x, r). (b # x, r)) (split_null bs))"

definition read_until_null :: "string cio" where
  "read_until_null c =
     (case split_null (inp c) of
        None \<Rightarrow> (Err (''read u8: '' @ in_err c), c\<lparr>inp := []\<rparr>)
      | Some (bs, rest) \<Rightarrow>
          (if valid_utf8 bs then (Ok (of_bytes bs), c\<lparr>inp := rest\<rparr>) else (Err ''invalid utf-8'', c\<lparr>inp := rest\<rparr>)))"

definition utf8_or :: "string \<Rightarrow> u8 list \<Rightarrow> string cio" where
  "utf8_or msg bs = (if valid_utf8 bs then cret (of_bytes bs) else cerr msg)"

definition read_password :: "SocksConfig \<Rightarrow> string option cio" where
  "read_password cfg =
     cbind read_u8 (\<lambda>ver.
       if ver \<noteq> 1 then cbind (write_all [1, 255]) (\<lambda>_. cerr ''invalid auth version'')
       else
         cbind read_u8 (\<lambda>ulen. cbind (read_exact (unat ulen)) (\<lambda>uname. cbind (utf8_or ''invalid username'' uname) (\<lambda>username.
         cbind read_u8 (\<lambda>plen. cbind (read_exact (unat plen)) (\<lambda>passwd. cbind (utf8_or ''invalid password'' passwd) (\<lambda>password.
           if map_of (accounts cfg) username \<noteq> Some password
           then cbind (write_all [1, 255]) (\<lambda>_. cerr ''invalid credentials'')
           else cbind (write_all [1, 0]) (\<lambda>_. cret (Some username)))))))))"

definition expected_auth :: "SocksConfig \<Rightarrow> u8" where
  "expected_auth cfg = (if auth_type cfg = Password then AUTH_PASSWORD else AUTH_NOT_REQUIRED)"

definition socks5_auth :: "SocksConfig \<Rightarrow> string option cio" where
  "socks5_auth cfg =
     cbind read_u8 (\<lambda>nmethods. cbind (read_exact (unat nmethods)) (\<lambda>methods.
       if expected_auth cfg \<notin> set methods
       then cbind (write_all [SOCKS5_VERSION, AUTH_NO_MATCH]) (\<lambda>_. cerr ''no matching auth method'')
       else cbind (write_all [SOCKS5_VERSION, expected_auth cfg]) (\<lambda>_.
         if expected_auth cfg = AUTH_PASSWORD then read_password cfg else cret None)))"

fun encode_addr_port :: "Address \<Rightarrow> Port \<Rightarrow> u8 list" where
  "encode_addr_port (Ipv4 ip) p = 1 # ip @ to_be16 (port_value p)"
| "encode_addr_port (Ipv6 ip) p = 4 # ip @ to_be16 (port_value p)"
| "encode_addr_port (Domain_a d) p = 3 # word_of_nat (length d) # as_bytes d @ to_be16 (port_value p)"

definition socks5_response :: "Address \<Rightarrow> Port \<Rightarrow> u8 list" where
  "socks5_response addr p = [SOCKS5_VERSION, STATUS_SUCCESS, 0] @ encode_addr_port addr p"

definition socks5_error :: "u8 \<Rightarrow> u8 list" where
  "socks5_error code = [SOCKS5_VERSION, code, 0, 1, 0, 0, 0, 0, 0, 0]"

definition socks4_response :: "u8 \<Rightarrow> Address \<Rightarrow> Port \<Rightarrow> u8 list" where
  "socks4_response status addr p =
     [0, status] @ to_be16 (port_value p) @ (case addr of Ipv4 ip \<Rightarrow> ip | _ \<Rightarrow> [0, 0, 0, 0])"

definition socks_fmt :: addr_fmt where
  "socks_fmt =
     \<lparr>tag_v4 = 1, tag_v6 = 4, tag_domain = 3, short_v4 = ''short ipv4'', short_v6 = ''short ipv6'',
      short_dlen = ''short domain'', short_domain = ''short domain name'', bad_text = ''invalid domain'',
      unknown_tag = (\<lambda>t. ''unknown address type: '' @ show_nat (unat t)), text_of = strict_text\<rparr>"

definition decode_addr_port :: "u8 list \<Rightarrow> (string, Address \<times> Port) res" where
  "decode_addr_port data =
     (if data = [] then Err ''empty address data''
      else rbind (take_addr socks_fmt (hd data) data 1) (\<lambda>(addr, consumed).
        if length data < consumed + 2 then Err ''short port'' else Ok (addr, Port (be16_at consumed data))))"

fun address_wire_size :: "Address \<Rightarrow> nat" where
  "address_wire_size (Ipv4 _) = 1 + 4"
| "address_wire_size (Ipv6 _) = 1 + 16"
| "address_wire_size (Domain_a d) = 1 + 1 + length d"

definition encode_udp_packet :: "Address \<Rightarrow> Port \<Rightarrow> u8 list \<Rightarrow> u8 list" where
  "encode_udp_packet addr p payload = [0, 0, 0] @ encode_addr_port addr p @ payload"

definition decode_udp_packet :: "u8 list \<Rightarrow> (string, Address \<times> Port \<times> u8 list) res" where
  "decode_udp_packet data =
     (if length data < 3 then Err ''packet too short''
      else if data ! 2 \<noteq> 0 then Err ''fragmented packets not supported''
      else rbind (decode_addr_port (drop 3 data)) (\<lambda>(addr, p).
        let header_size = 3 + address_wire_size addr
        in if length data < header_size then Err ''packet too short for header''
           else Ok (addr, p, drop header_size data)))"

section \<open>The server (lib.rs)\<close>

text \<open>What a handler does once the handshake is over: the session it dispatches.\<close>

datatype socks_outcome = SocksTcp Session Destination | SocksUdp Session

abbreviation any_addr :: Address where "any_addr \<equiv> Ipv4 [0, 0, 0, 0]"

definition handle_socks4 :: "SocksConfig \<Rightarrow> Session \<Rightarrow> socks_outcome cio" where
  "handle_socks4 cfg session =
     (if auth_type cfg = Password
      then cbind (write_all (socks4_response SOCKS4_REJECTED any_addr (Port 0))) (\<lambda>_. cerr ''socks4 not allowed with auth'')
      else
        cbind read_u8 (\<lambda>cmd. cbind read_u16 (\<lambda>port_num. cbind (read_exact 4) (\<lambda>ip. cbind read_until_null (\<lambda>_.
        cbind (if ip ! 0 = 0 \<and> ip ! 1 = 0 \<and> ip ! 2 = 0 \<and> ip ! 3 \<noteq> 0
               then cbind read_until_null (\<lambda>d. cret (Domain_a d)) else cret (Ipv4 ip)) (\<lambda>addr.
          if cmd \<noteq> CMD_CONNECT
          then cbind (write_all (socks4_response SOCKS4_REJECTED any_addr (Port 0))) (\<lambda>_.
                 cerr (''socks4 unsupported cmd: '' @ show_nat (unat cmd)))
          else let dest = TcpDestination addr (Port port_num) in
            cbind (write_all (socks4_response SOCKS4_GRANTED addr (Port port_num))) (\<lambda>_.
              cret (SocksTcp (with_target dest session) dest))))))))"

definition socks_stream_fmt :: addr_fmt where
  "socks_stream_fmt = socks_fmt\<lparr>unknown_tag := (\<lambda>t. ''unsupported addr type: '' @ show_nat (unat t))\<rparr>"

definition read_socks5_addr_port :: "(Address \<times> Port) cio" where
  "read_socks5_addr_port =
     cbind read_u8 (\<lambda>atyp.
     cbind (read_addr socks_stream_fmt ''read error: '' ''read error: '' ''read u8: '' ''read error: '' atyp) (\<lambda>addr.
     cbind read_u16 (\<lambda>p. cret (addr, Port p))))"

definition tcp_connect :: "Session \<Rightarrow> Address \<Rightarrow> Port \<Rightarrow> socks_outcome cio" where
  "tcp_connect session addr p =
     (let dest = TcpDestination addr p in
      cbind (write_all (socks5_response addr p)) (\<lambda>_. cret (SocksTcp (with_target dest session) dest)))"

text \<open>\<open>dispatched\<close> is the answer of the dispatcher, \<open>bind_port\<close> the port of the relay socket.\<close>

definition udp_associate ::
  "(string, unit) res \<Rightarrow> (string, u16) res \<Rightarrow> SocksConfig \<Rightarrow> Session \<Rightarrow> Address \<Rightarrow> Port \<Rightarrow> socks_outcome cio" where
  "udp_associate dispatched bind_port cfg session addr p =
     (if \<not> udp_enabled cfg
      then cbind (write_all (socks5_error STATUS_CMD_NOT_SUPPORTED)) (\<lambda>_. cerr ''UDP not enabled'')
      else cbind (clift dispatched) (\<lambda>_. cbind (clift bind_port) (\<lambda>bp.
        cbind (write_all (socks5_response any_addr (Port bp))) (\<lambda>_.
          cret (SocksUdp (with_target (UdpDestination addr p) session))))))"

definition handle_socks5 ::
  "(string, unit) res \<Rightarrow> (string, u16) res \<Rightarrow> SocksConfig \<Rightarrow> Session \<Rightarrow> socks_outcome cio" where
  "handle_socks5 dispatched bind_port cfg session =
     cbind (socks5_auth cfg) (\<lambda>_. cbind (read_exact 3) (\<lambda>req. cbind read_socks5_addr_port (\<lambda>(addr, p).
       let cmd = req ! 1 in
       if cmd = CMD_CONNECT then tcp_connect session addr p
       else if cmd = CMD_UDP_ASSOCIATE then udp_associate dispatched bind_port cfg session addr p
       else if cmd = CMD_BIND
       then cbind (write_all (socks5_error STATUS_CMD_NOT_SUPPORTED)) (\<lambda>_. cerr ''TCP BIND not supported'')
       else cbind (write_all (socks5_error STATUS_CMD_NOT_SUPPORTED)) (\<lambda>_. cerr (''unknown cmd: '' @ show_nat (unat cmd))))))"

text \<open>A plain \<open>read\<close> returns 0 at the end of the input.\<close>

definition eof_text :: string where "eof_text = ''early eof''"

definition socks_process ::
  "(string, unit) res \<Rightarrow> (string, u16) res \<Rightarrow> SocksConfig \<Rightarrow> Session \<Rightarrow> socks_outcome cio" where
  "socks_process dispatched bind_port cfg session c =
     (case inp c of
        [] \<Rightarrow> (Err (if in_err c = eof_text then ''connection closed'' else ''socks read: '' @ in_err c), c)
      | v # rest \<Rightarrow>
          (let c = c\<lparr>inp := rest\<rparr> in
           if v = SOCKS4_VERSION then handle_socks4 cfg session c
           else if v = SOCKS5_VERSION then handle_socks5 dispatched bind_port cfg session c
           else (Err (''not a SOCKS request: byte=0x'' @ hex2 v @ '' (HTTP fallback not available)''), c)))"

text \<open>One datagram of an association's client, sent on; the first destination is kept when \<open>cone\<close> is set.\<close>

record UdpPacket =
  pkt_source :: Destination
  pkt_target :: Destination
  pkt_data :: "u8 list"

definition udp_upstream ::
  "bool \<Rightarrow> Destination \<Rightarrow> u8 list \<Rightarrow> Destination option \<Rightarrow> UdpPacket option \<times> Destination option" where
  "udp_upstream is_cone source data cone_dest =
     (case decode_udp_packet data of
        Ok (addr, p, payload) \<Rightarrow>
          (let target = UdpDestination addr p;
               (target, cone_dest) =
                 (if is_cone then case cone_dest of Some t \<Rightarrow> (t, cone_dest) | None \<Rightarrow> (target, Some target)
                  else (target, cone_dest))
           in (Some \<lparr>pkt_source = source, pkt_target = target, pkt_data = payload\<rparr>, cone_dest))
      | _ \<Rightarrow> (None, cone_dest))"

definition udp_downstream :: "UdpPacket \<Rightarrow> u8 list" where
  "udp_downstream pkt = encode_udp_packet (address (pkt_source pkt)) (port (pkt_source pkt)) (pkt_data pkt)"

section \<open>The client (outbound.rs)\<close>

definition auth_request :: "string \<Rightarrow> string \<Rightarrow> u8 list" where
  "auth_request username password =
     [1, word_of_nat (length username)] @ as_bytes username @ [word_of_nat (length password)] @ as_bytes password"

definition client_auth :: "string \<Rightarrow> string \<Rightarrow> unit cio" where
  "client_auth username password =
     (let auth_byte = (if username \<noteq> [] then AUTH_PASSWORD else AUTH_NOT_REQUIRED) in
      cbind (write_all [SOCKS5_VERSION, 1, auth_byte]) (\<lambda>_. cbind (read_exact 2) (\<lambda>resp.
        if resp ! 0 \<noteq> SOCKS5_VERSION then cerr (''unexpected socks version: '' @ show_nat (unat (resp ! 0)))
        else if resp ! 1 \<noteq> auth_byte then cerr (''auth method rejected: '' @ show_nat (unat (resp ! 1)))
        else if username \<noteq> []
        then cbind (write_all (auth_request username password)) (\<lambda>_. cbind (read_exact 2) (\<lambda>auth_resp.
               if auth_resp ! 1 \<noteq> 0 then cerr ''auth rejected'' else cret ()))
        else cret ())))"

definition bind_fmt :: addr_fmt where
  "bind_fmt = socks_fmt\<lparr>unknown_tag := (\<lambda>t. ''unknown bind addr type: '' @ show_nat (unat t))\<rparr>"

text \<open>The handshake skips the bound address without looking at a domain's text.\<close>

definition socks5_client_handshake :: "string \<Rightarrow> string \<Rightarrow> Address \<Rightarrow> Port \<Rightarrow> unit cio" where
  "socks5_client_handshake username password addr p =
     cbind (client_auth username password) (\<lambda>_.
     cbind (write_all ([SOCKS5_VERSION, CMD_CONNECT, 0] @ encode_addr_port addr p)) (\<lambda>_.
     cbind (read_exact 4) (\<lambda>hdr.
       if hdr ! 1 \<noteq> STATUS_SUCCESS then cerr (''server rejected: '' @ show_nat (unat (hdr ! 1)))
       else cbind (read_addr (bind_fmt\<lparr>text_of := lossy_text\<rparr>) ''read error: '' ''read error: '' ''read u8: '' ''read error: '' (hdr ! 3)) (\<lambda>_.
            cbind read_u16 (\<lambda>_. cret ())))))"

definition socks5_udp_associate :: "string \<Rightarrow> string \<Rightarrow> (Address \<times> Port) cio" where
  "socks5_udp_associate username password =
     cbind (client_auth username password) (\<lambda>_.
     cbind (write_all ([SOCKS5_VERSION, CMD_UDP_ASSOCIATE, 0] @ encode_addr_port any_addr (Port 0))) (\<lambda>_.
     cbind (read_exact 4) (\<lambda>hdr.
       if hdr ! 1 \<noteq> STATUS_SUCCESS then cerr (''server rejected UDP ASSOCIATE: '' @ show_nat (unat (hdr ! 1)))
       else cbind (read_addr bind_fmt ''read error: '' ''read error: '' ''read u8: '' ''read error: '' (hdr ! 3)) (\<lambda>addr.
            cbind read_u16 (\<lambda>p. cret (addr, Port p))))))"

section \<open>Addresses and datagrams round trip\<close>

lemma socks_fmt_ok [simp]: "fmt_ok socks_fmt" "fmt_ok socks_stream_fmt" "fmt_ok bind_fmt" "fmt_ok (bind_fmt\<lparr>text_of := lossy_text\<rparr>)"
  by (simp_all add: fmt_ok_def socks_fmt_def socks_stream_fmt_def bind_fmt_def strict_text_valid lossy_text_valid)

lemma encode_addr_port_eq: "encode_addr_port a p = addr_tag socks_fmt a # addr_body a @ to_be16 (port_value p)"
  by (cases a) (simp_all add: socks_fmt_def)

lemma addr_tag_fmts [simp]:
  "addr_tag socks_stream_fmt a = addr_tag socks_fmt a" "addr_tag bind_fmt a = addr_tag socks_fmt a"
  "addr_tag (bind_fmt\<lparr>text_of := lossy_text\<rparr>) a = addr_tag socks_fmt a"
  by (cases a; simp add: socks_stream_fmt_def bind_fmt_def)+

lemma decode_encode_addr_port:
  assumes "addr_fits a"
  shows "decode_addr_port (encode_addr_port a p @ rest) = Ok (a, p)"
proof -
  let ?data = "[addr_tag socks_fmt a] @ addr_body a @ (to_be16 (port_value p) @ rest)"
  have "take_addr socks_fmt (addr_tag socks_fmt a) ?data (length [addr_tag socks_fmt a]) =
      Ok (a, length [addr_tag socks_fmt a] + length (addr_body a))"
    by (rule take_addr_body) (simp_all add: assms)
  moreover have "be16_at (Suc (length (addr_body a))) ?data = port_value p" by (simp add: be16_at_def)
  ultimately show ?thesis by (simp add: decode_addr_port_def encode_addr_port_eq)
qed

lemma address_wire_size_eq: "addr_fits a \<Longrightarrow> address_wire_size a = 1 + length (addr_body a)"
  by (cases a) simp_all

text \<open>The datagram decoder hands the port to the application: for every address a header can carry, decoding
  an encoded datagram gives back its address and port, but a payload with the two bytes of the port in
  front of it, since the header size leaves them out. So every datagram relayed in either direction is
  corrupted.\<close>
theorem socks_udp_payload_corrupted:
  assumes "addr_fits a"
  shows "decode_udp_packet (encode_udp_packet a p payload) = Ok (a, p, to_be16 (port_value p) @ payload)"
proof -
  have d: "decode_addr_port (drop 3 (encode_udp_packet a p payload)) = Ok (a, p)"
    by (simp add: encode_udp_packet_def decode_encode_addr_port assms)
  have "drop (3 + address_wire_size a) (encode_udp_packet a p payload) = to_be16 (port_value p) @ payload"
    using assms by (simp add: encode_udp_packet_def encode_addr_port_eq address_wire_size_eq eval_nat_numeral)
  moreover have "3 + address_wire_size a \<le> length (encode_udp_packet a p payload)"
    using assms by (simp add: encode_udp_packet_def encode_addr_port_eq address_wire_size_eq)
  moreover have "encode_udp_packet a p payload ! 2 = 0" by (simp add: encode_udp_packet_def)
  ultimately show ?thesis using d by (simp add: decode_udp_packet_def Let_def)
qed

theorem socks_udp_payload_corrupted_witness:
  "decode_udp_packet (encode_udp_packet (Ipv4 [8, 8, 8, 8]) (Port 53) [7]) = Ok (Ipv4 [8, 8, 8, 8], Port 53, to_be16 53 @ [7])"
  using socks_udp_payload_corrupted [of "Ipv4 [8, 8, 8, 8]" "Port 53" "[7]"] by simp

section \<open>Client and server agree\<close>

text \<open>The bytes of a successful CONNECT, in each direction.\<close>

definition credentials_ok :: "SocksConfig \<Rightarrow> string \<Rightarrow> string \<Rightarrow> bool" where
  "credentials_ok cfg u p \<longleftrightarrow>
     (if auth_type cfg = Password
      then u \<noteq> [] \<and> length u \<le> 255 \<and> length p \<le> 255 \<and> valid_utf8 (as_bytes u) \<and> valid_utf8 (as_bytes p) \<and>
           map_of (accounts cfg) u = Some p
      else u = [])"

definition client_bytes :: "SocksConfig \<Rightarrow> string \<Rightarrow> string \<Rightarrow> Address \<Rightarrow> Port \<Rightarrow> u8 list" where
  "client_bytes cfg u pw a p =
     [SOCKS5_VERSION, 1, expected_auth cfg] @ (if auth_type cfg = Password then auth_request u pw else []) @
     [SOCKS5_VERSION, CMD_CONNECT, 0] @ encode_addr_port a p"

definition server_bytes :: "SocksConfig \<Rightarrow> Address \<Rightarrow> Port \<Rightarrow> u8 list" where
  "server_bytes cfg a p =
     [SOCKS5_VERSION, expected_auth cfg] @ (if auth_type cfg = Password then [1, 0] else []) @ socks5_response a p"

lemma read_exact_app: "read_exact (length bs) (open_conn (bs @ r) e w) = (Ok bs, open_conn r e w)"
  by (rule cread_app) simp

lemma read_exact_list:
  "read_exact 2 (open_conn (a # b # r) e w) = (Ok [a, b], open_conn r e w)"
  "read_exact 3 (open_conn (a # b # d # r) e w) = (Ok [a, b, d], open_conn r e w)"
  "read_exact 4 (open_conn (a # b # d # f # r) e w) = (Ok [a, b, d, f], open_conn r e w)"
  "read_exact (Suc 0) (open_conn (a # r) e w) = (Ok [a], open_conn r e w)"
  by (simp_all add: cread_def open_conn_def)

lemma utf8_or_ok [cio]: "valid_utf8 (as_bytes u) \<Longrightarrow> utf8_or m (as_bytes u) c = (Ok u, c)"
  by (simp add: utf8_or_def cio)

lemma read_password_ok:
  assumes "auth_type cfg = Password" and "credentials_ok cfg u pw"
  shows "read_password cfg (open_conn (auth_request u pw @ r) e w) = (Ok (Some u), open_conn r e (w @ [1, 0]))"
proof -
  have n: "unat (word_of_nat (length u) :: u8) = length u" "unat (word_of_nat (length pw) :: u8) = length pw"
    and v: "valid_utf8 (as_bytes u)" "valid_utf8 (as_bytes pw)" and m: "map_of (accounts cfg) u = Some pw"
    using assms by (simp_all add: credentials_ok_def unat_of_nat)
  have ru: "read_exact (length u) (open_conn (as_bytes u @ x) e w) = (Ok (as_bytes u), open_conn x e w)"
    and rp: "read_exact (length pw) (open_conn (as_bytes pw @ x) e w) = (Ok (as_bytes pw), open_conn x e w)" for x
    using read_exact_app [of "as_bytes u"] read_exact_app [of "as_bytes pw"] by simp_all
  show ?thesis
    using n v m ru rp by (simp add: read_password_def auth_request_def cbind_def cio)
qed

lemma expected_auth_Password [simp]: "(expected_auth cfg = AUTH_PASSWORD) = (auth_type cfg = Password)"
  by (simp add: expected_auth_def socks_consts)

lemma socks5_auth_ok:
  assumes "credentials_ok cfg u pw"
  shows "\<exists>name. socks5_auth cfg (open_conn ([1, expected_auth cfg] @ (if auth_type cfg = Password then auth_request u pw else []) @ r) e w) =
    (Ok name, open_conn r e (w @ [SOCKS5_VERSION, expected_auth cfg] @ (if auth_type cfg = Password then [1, 0] else [])))"
proof (cases "auth_type cfg = Password")
  case True
  then show ?thesis using read_password_ok [OF True assms] by (simp add: socks5_auth_def cbind_def cio read_exact_list)
next
  case False
  then show ?thesis by (simp add: socks5_auth_def cbind_def cio read_exact_list)
qed

lemma read_socks5_addr_port_ok:
  "addr_fits a \<Longrightarrow> read_socks5_addr_port (open_conn (encode_addr_port a p @ r) e w) = (Ok (a, p), open_conn r e w)"
  using read_addr_body [of socks_stream_fmt a "''read error: ''" "''read error: ''" "''read u8: ''" "''read error: ''" "to_be16 (port_value p) @ r" e w]
  by (simp add: read_socks5_addr_port_def encode_addr_port_eq cbind_def cio)

lemma server_accepts:
  assumes "credentials_ok cfg u pw" and "addr_fits a"
  shows "socks_process dispatched bp cfg session (open_conn (client_bytes cfg u pw a p @ r) e []) =
    (Ok (SocksTcp (with_target (TcpDestination a p) session) (TcpDestination a p)), open_conn r e (server_bytes cfg a p))"
proof -
  obtain name where auth: "socks5_auth cfg (open_conn ([1, expected_auth cfg] @
      (if auth_type cfg = Password then auth_request u pw else []) @ (5 # 1 # 0 # encode_addr_port a p @ r)) e []) =
    (Ok name, open_conn (5 # 1 # 0 # encode_addr_port a p @ r) e ([] @ [SOCKS5_VERSION, expected_auth cfg] @ (if auth_type cfg = Password then [1, 0] else [])))"
    using socks5_auth_ok [OF assms(1)] by blast
  have o: "(open_conn (x # y) e [])\<lparr>inp := y\<rparr> = open_conn y e []" "inp (open_conn (x # y) e []) = x # y" for x y
    by (simp_all add: open_conn_def)
  show ?thesis
    using auth read_socks5_addr_port_ok [OF assms(2)]
    by (simp add: socks_process_def client_bytes_def server_bytes_def o handle_socks5_def cbind_def read_exact_list
        tcp_connect_def cio socks_consts Let_def socks5_response_def)
qed

lemma client_auth_ok:
  assumes "credentials_ok cfg u pw"
  shows "client_auth u pw (open_conn ([SOCKS5_VERSION, expected_auth cfg] @ (if auth_type cfg = Password then [1, 0] else []) @ r) e w) =
    (Ok (), open_conn r e (w @ [SOCKS5_VERSION, 1, expected_auth cfg] @ (if auth_type cfg = Password then auth_request u pw else [])))"
proof (cases "auth_type cfg = Password")
  case True
  then show ?thesis using assms
    by (simp add: client_auth_def credentials_ok_def expected_auth_def cbind_def cio read_exact_list)
next
  case False
  then show ?thesis using assms
    by (simp add: client_auth_def credentials_ok_def expected_auth_def cbind_def cio read_exact_list)
qed

lemma client_connects:
  assumes "credentials_ok cfg u pw" and "addr_fits a"
  shows "socks5_client_handshake u pw a p (open_conn (server_bytes cfg a p @ r) e []) =
    (Ok (), open_conn r e (client_bytes cfg u pw a p))"
  using client_auth_ok [OF assms(1), of "5 # 0 # 0 # addr_tag socks_fmt a # addr_body a @ to_be16 (port_value p) @ r" e "[]"]
    read_addr_body [of "bind_fmt\<lparr>text_of := lossy_text\<rparr>" a "''read error: ''" "''read error: ''" "''read u8: ''" "''read error: ''"
      "to_be16 (port_value p) @ r" e "client_bytes cfg u pw a p"] assms(2)
  by (simp add: socks5_client_handshake_def server_bytes_def client_bytes_def socks5_response_def encode_addr_port_eq
      cbind_def cio read_exact_list socks_consts)

text \<open>C6. The SOCKS5 client and server agree: with credentials the server accepts (none, or an account's name and
  password) and a target a header can carry, the client's bytes make the server dispatch a session for
  exactly that target, and the server's bytes make the client's handshake succeed; both leave the
  bytes that follow untouched.\<close>
theorem socks5_handshake_agreement:
  assumes "credentials_ok cfg u pw" and "addr_fits a"
  shows "socks_process dispatched bp cfg session (open_conn (client_bytes cfg u pw a p @ r) e []) =
      (Ok (SocksTcp (with_target (TcpDestination a p) session) (TcpDestination a p)), open_conn r e (server_bytes cfg a p)) \<and>
    socks5_client_handshake u pw a p (open_conn (server_bytes cfg a p @ r) e []) =
      (Ok (), open_conn r e (client_bytes cfg u pw a p))"
  using server_accepts [OF assms] client_connects [OF assms] by blast

theorem socks5_handshake_agreement_witness:
  "let cfg = SocksConfig_default\<lparr>auth_type := Password, accounts := [(''bob'', ''pw'')]\<rparr>; a = Domain_a ''x.org'' in
   fst (socks5_client_handshake ''bob'' ''pw'' a (Port 80) (open_conn (server_bytes cfg a (Port 80) @ [9]) [] [])) = Ok ()"
proof -
  let ?cfg = "SocksConfig_default\<lparr>auth_type := Password, accounts := [(''bob'', ''pw'')]\<rparr>"
  have v: "valid_utf8 (as_bytes ''bob'')" "valid_utf8 (as_bytes ''pw'')" "valid_utf8 (as_bytes ''x.org'')" by code_simp+
  have "credentials_ok ?cfg ''bob'' ''pw''" using v by (simp add: credentials_ok_def)
  moreover have "addr_fits (Domain_a ''x.org'')" using v by simp
  ultimately show ?thesis using socks5_handshake_agreement by (simp add: Let_def)
qed

section \<open>Authentication\<close>

lemma cread_Ok: "cread m n c = (Ok bs, c') \<longleftrightarrow> inp c = bs @ inp c' \<and> length bs = n \<and> c' = c\<lparr>inp := inp c'\<rparr>"
  by (auto simp: cread_def)

lemma cread_u8_Ok: "cread_u8 m c = (Ok b, c') \<longleftrightarrow> inp c = b # inp c' \<and> c' = c\<lparr>inp := inp c'\<rparr>"
  by (cases "inp c") (auto simp: cread_u8_def cbind_def cret_def cread_def)

lemma cwrite_inp: "cwrite m bs c = (r, c') \<Longrightarrow> inp c' = inp c"
  by (auto simp: cwrite_def split: option.splits)

lemma utf8_or_Ok: "utf8_or m bs c = (Ok s, c') \<Longrightarrow> s = of_bytes bs \<and> c' = c"
  by (auto simp: utf8_or_def cret_def cerr_def split: if_splits)

lemma read_password_Ok:
  assumes "read_password cfg c = (Ok name, c')"
  shows "\<exists>u pw. inp c = [1, word_of_nat (length u)] @ as_bytes u @ [word_of_nat (length pw)] @ as_bytes pw @ inp c' \<and>
    map_of (accounts cfg) u = Some pw"
proof -
  obtain ver c1 where 1: "read_u8 c = (Ok ver, c1)" "ver = 1"
    and a: "cbind read_u8 (\<lambda>ulen. cbind (read_exact (unat ulen)) (\<lambda>uname. cbind (utf8_or ''invalid username'' uname) (\<lambda>username.
         cbind read_u8 (\<lambda>plen. cbind (read_exact (unat plen)) (\<lambda>passwd. cbind (utf8_or ''invalid password'' passwd) (\<lambda>password.
           if map_of (accounts cfg) username \<noteq> Some password
           then cbind (write_all [1, 255]) (\<lambda>_. cerr ''invalid credentials'')
           else cbind (write_all [1, 0]) (\<lambda>_. cret (Some username)))))))) c1 = (Ok name, c')"
    using assms by (auto simp: read_password_def cbind_eq_Ok cerr_def split: if_splits)
  obtain ul c2 ub c3 u c4 pl c5 pb c6 pw c7 where
    r: "read_u8 c1 = (Ok ul, c2)" "read_exact (unat ul) c2 = (Ok ub, c3)" "utf8_or ''invalid username'' ub c3 = (Ok u, c4)"
      "read_u8 c4 = (Ok pl, c5)" "read_exact (unat pl) c5 = (Ok pb, c6)" "utf8_or ''invalid password'' pb c6 = (Ok pw, c7)"
    and f: "(if map_of (accounts cfg) u \<noteq> Some pw then cbind (write_all [1, 255]) (\<lambda>_. cerr ''invalid credentials'')
             else cbind (write_all [1, 0]) (\<lambda>_. cret (Some u))) c7 = (Ok name, c')"
    using a by (auto simp: cbind_eq_Ok)
  have m: "map_of (accounts cfg) u = Some pw" using f by (auto simp: cbind_eq_Ok cerr_def split: if_splits)
  with f have "inp c' = inp c7" by (auto simp: cbind_eq_Ok cret_def dest: cwrite_inp)
  moreover have "u = of_bytes ub" "c4 = c3" "pw = of_bytes pb" "c7 = c6" using utf8_or_Ok [OF r(3)] utf8_or_Ok [OF r(6)] by auto
  moreover have "ul = word_of_nat (length ub)" "pl = word_of_nat (length pb)" using r(2,5) by (auto simp: cread_Ok)
  ultimately show ?thesis using 1 r(1,2,4,5) m
    by (intro exI [of _ u] exI [of _ pw]) (auto simp: cread_Ok cread_u8_Ok)
qed

text \<open>C7. Password authentication cannot be bypassed: when the server demands passwords, it dispatches a session only
  if the client's bytes contain, behind the method list, the name and the password of a configured account;
  SOCKS4 requests, which carry none, are refused.\<close>
theorem socks_password_required:
  assumes "auth_type cfg = Password"
    and "socks_process dispatched bp cfg session c = (Ok outcome, c')"
  shows "\<exists>n methods u pw rest. inp c = [SOCKS5_VERSION, n] @ methods @
      [1, word_of_nat (length u)] @ as_bytes u @ [word_of_nat (length pw)] @ as_bytes pw @ rest \<and>
    map_of (accounts cfg) u = Some pw"
proof -
  obtain v rest where i: "inp c = v # rest" using assms(2) by (cases "inp c") (auto simp: socks_process_def)
  have "handle_socks4 cfg session d \<noteq> (Ok outcome, c')" for d
    using assms(1) by (auto simp: handle_socks4_def cbind_def cerr_def split: prod.splits res.splits)
  then have v: "v = SOCKS5_VERSION" and h: "handle_socks5 dispatched bp cfg session (c\<lparr>inp := rest\<rparr>) = (Ok outcome, c')"
    using assms(2) i by (auto simp: socks_process_def Let_def split: if_splits)
  obtain name c1 where au: "socks5_auth cfg (c\<lparr>inp := rest\<rparr>) = (Ok name, c1)"
    using h by (auto simp: handle_socks5_def cbind_eq_Ok)
  obtain n c2 methods c3 c4 where r: "read_u8 (c\<lparr>inp := rest\<rparr>) = (Ok n, c2)" "read_exact (unat n) c2 = (Ok methods, c3)"
    and w: "inp c4 = inp c3" and p: "read_password cfg c4 = (Ok name, c1)"
    using au assms(1) by (auto simp: socks5_auth_def cbind_eq_Ok cerr_def dest: cwrite_inp split: if_splits)
  from read_password_Ok [OF p] obtain u pw where "inp c4 = [1, word_of_nat (length u)] @ as_bytes u @ [word_of_nat (length pw)] @ as_bytes pw @ inp c1"
    "map_of (accounts cfg) u = Some pw" by blast
  then show ?thesis using i v r w
    by (intro exI [of _ n] exI [of _ methods] exI [of _ u] exI [of _ pw] exI [of _ "inp c1"]) (simp add: cread_Ok cread_u8_Ok)
qed

theorem socks_password_required_witness:
  "let cfg = SocksConfig_default\<lparr>auth_type := Password, accounts := [(''bob'', ''pw'')]\<rparr>;
       c = open_conn (client_bytes cfg ''bob'' ''pw'' (Ipv4 [1, 2, 3, 4]) (Port 80)) [] []
   in \<exists>n methods u pw rest. inp c = [SOCKS5_VERSION, n] @ methods @
        [1, word_of_nat (length u)] @ as_bytes u @ [word_of_nat (length pw)] @ as_bytes pw @ rest \<and> map_of (accounts cfg) u = Some pw"
proof -
  let ?cfg = "SocksConfig_default\<lparr>auth_type := Password, accounts := [(''bob'', ''pw'')]\<rparr>"
  have v: "valid_utf8 (as_bytes ''bob'')" "valid_utf8 (as_bytes ''pw'')" by code_simp+
  then have "credentials_ok ?cfg ''bob'' ''pw''" by (simp add: credentials_ok_def)
  from server_accepts [OF this, of "Ipv4 [1, 2, 3, 4]" _ _ _ "Port 80" "[]" "[]"]
  have "\<exists>o' c'. socks_process (Ok ()) (Ok 0) ?cfg undefined (open_conn (client_bytes ?cfg ''bob'' ''pw'' (Ipv4 [1, 2, 3, 4]) (Port 80)) [] []) = (Ok o', c')"
    by simp
  then show ?thesis unfolding Let_def
    using socks_password_required [of ?cfg] by (elim exE) simp
qed

end
