(* ===== verification/Hysteria.thy ===== *)
theory Hysteria
  imports Split_Http Socks
begin

text \<open>
  \<^verbatim>\<open>astra-core-proxy-hysteria\<close>: the requests on a stream, by which the server learns the target and the mode, the frames of datagrams, the authentication on the first
  stream, and the congestion controller. QUIC and JSON are libraries: a stream is its pieces, and the texts of the authentication are arguments.
\<close>

section \<open>Authentication\<close>

text \<open>The request and the answer with the texts a JSON library gives them.\<close>

record hy_json =
  hy_write_auth :: "string \<Rightarrow> u8 list"
  hy_read_auth :: "u8 list \<Rightarrow> (string, string) res"
  hy_write_resp :: "bool \<Rightarrow> string \<Rightarrow> u8 list"
  hy_read_resp :: "u8 list \<Rightarrow> (string, bool \<times> string) res"

definition hy_auth_request :: "hy_json \<Rightarrow> string \<Rightarrow> u8 list" where
  "hy_auth_request J password = hy_write_auth J password @ [10]"

text \<open>The server on what it read of the first stream, and the client on what it read of the answer.\<close>

definition hysteria_auth_first_stream :: "hy_json \<Rightarrow> string \<Rightarrow> (string, u8 list) res \<Rightarrow> (string, unit) res \<times> u8 list" where
  "hysteria_auth_first_stream J expected got =
     (case rbind (map_err (\<lambda>e. ''hysteria: read auth: '' @ e) got) (\<lambda>buf. map_err (\<lambda>e. ''hysteria: parse auth: '' @ e) (hy_read_auth J buf)) of
        Ok a \<Rightarrow>
          if a \<noteq> expected then (Err ''hysteria: auth rejected'', hy_write_resp J False ''invalid password'')
          else (Ok (), hy_write_resp J True [])
      | Err e \<Rightarrow> (Err e, []) | Panic \<Rightarrow> (Panic, []))"

definition hy_auth_answer :: "hy_json \<Rightarrow> (string, u8 list) res \<Rightarrow> (string, unit) res" where
  "hy_auth_answer J got =
     rbind (map_err (\<lambda>e. ''read auth: '' @ e) got) (\<lambda>buf.
     rbind (map_err (\<lambda>e. ''parse auth: '' @ e) (hy_read_resp J buf)) (\<lambda>(ok, e). if \<not> ok then Err (''auth rejected: '' @ e) else Ok ()))"

section \<open>Congestion control\<close>

record BrutalController =
  target_bps :: u64
  min_cwnd :: u64
  max_cwnd :: u64
  cwnd :: u64

definition BrutalController_new :: "u64 \<Rightarrow> BrutalController" where
  "BrutalController_new bps =
     (let w = max (bps div 8) 2048 in \<lparr>target_bps = bps, min_cwnd = 2048, max_cwnd = w * 10, cwnd = w\<rparr>)"

definition on_ack :: "BrutalController \<Rightarrow> BrutalController" where
  "on_ack b =
     (if cwnd b < max_cwnd b then
        let target = max (target_bps b div 8) (min_cwnd b) in
        if cwnd b < target then b\<lparr>cwnd := cwnd b + max ((target - cwnd b) div 16) 1\<rparr> else b
      else b)"

text \<open>Doubles: an integer rounded to 53 significant bits, ties to even; \<open>0.7\<close> is 6305039478318694 / 2^53.\<close>

fun bit_length :: "nat \<Rightarrow> nat" where
  "bit_length n = (if n = 0 then 0 else Suc (bit_length (n div 2)))"

declare bit_length.simps [simp del]

definition f64_round :: "nat \<Rightarrow> nat" where
  "f64_round n =
     (let s = bit_length n - 53; q = n div 2 ^ s; r = n mod 2 ^ s in
      if s = 0 then n
      else (if 2 ^ s < 2 * r \<or> (2 ^ s = 2 * r \<and> odd q) then q + 1 else q) * 2 ^ s)"

definition times_0_7 :: "u64 \<Rightarrow> u64" where
  "times_0_7 c = word_of_nat (min (f64_round (f64_round (unat c) * 6305039478318694) div 2 ^ 53) (2 ^ 64 - 1))"

definition on_congestion_event :: "bool \<Rightarrow> u64 \<Rightarrow> BrutalController \<Rightarrow> BrutalController" where
  "on_congestion_event is_persistent lost_bytes b =
     (if is_persistent \<or> 0 < lost_bytes then b\<lparr>cwnd := max (times_0_7 (cwnd b)) (min_cwnd b)\<rparr> else b)"

section \<open>Requests and frames\<close>

definition hy_address_line :: "Destination \<Rightarrow> string" where
  "hy_address_line dest = show_address (address dest) @ '':'' @ show_nat (unat (port_value (port dest)))"

definition hy_tcp_request :: "Destination \<Rightarrow> u8 list" where
  "hy_tcp_request dest = as_bytes (hy_address_line dest) @ [10]"

definition hy_udp_request :: "Destination \<Rightarrow> u8 list" where
  "hy_udp_request dest = as_bytes (hy_address_line dest) @ [10] @ [117, 10]"

definition hy_frame :: "u8 list \<Rightarrow> u8 list" where
  "hy_frame d = to_be16 (word_of_nat (length d)) @ d"

definition hy_placeholder :: Destination where
  "hy_placeholder = UdpDestination (Ipv4 [0, 0, 0, 0]) (Port 0)"

text \<open>The packets read from the bytes of a stream until it ends; a cut frame ends it too.\<close>

function hy_packets :: "u8 list \<Rightarrow> UdpPacket list" where
  "hy_packets bs =
     (let len = unat (from_be16 (take 2 bs)) in
      if length bs < 2 \<or> length bs < 2 + len then []
      else \<lparr>pkt_source = hy_placeholder, pkt_target = hy_placeholder, pkt_data = take len (drop 2 bs)\<rparr> # hy_packets (drop (2 + len) bs))"
  by pat_completeness auto
termination
  by (relation "measure length") auto

declare hy_packets.simps [simp del]

section \<open>A stream at the server\<close>

datatype hy_outcome = Hy_Tcp Session Destination "u8 list" | Hy_Udp Session "UdpPacket list"

definition hy_session :: "string \<Rightarrow> Destination \<Rightarrow> Session" where
  "hy_session itag src =
     \<lparr>inbound = Some \<lparr>ib_source = src, ib_local = None, ib_gateway = None, ib_tag = itag\<rparr>, outbound = None, content = None\<rparr>"

definition hy_parse_addr :: "string \<Rightarrow> (string, Address \<times> u16) res" where
  "hy_parse_addr addr_str =
     rbind (ok_or (''hysteria: invalid addr: '' @ addr_str) (split_once (CHR '':'') addr_str)) (\<lambda>(host, port_str).
     rbind (ok_or (''hysteria: invalid port: '' @ port_str) (parse_unsigned 65535 port_str)) (\<lambda>p.
       Ok (case parse_ipv4 host of Some a \<Rightarrow> Ipv4 a
           | None \<Rightarrow> (case parse_ipv6 host of Some a \<Rightarrow> Ipv6 a | None \<Rightarrow> Domain_a host), word_of_nat p)))"

text \<open>\<^verbatim>\<open>fill_buf\<close>: the bytes buffered, or those of the next read when there are none.\<close>

definition hy_fill_buf :: "buf_reader \<Rightarrow> (string, u8 list) res \<times> buf_reader" where
  "hy_fill_buf r =
     (if fst r \<noteq> [] then (Ok (fst r), r)
      else case pread BUF_CAPACITY (snd r) of (Ok d, c) \<Rightarrow> (Ok d, (d, c)) | (Err e, c) \<Rightarrow> (Err e, ([], c)) | (Panic, c) \<Rightarrow> (Panic, ([], c)))"

text \<open>Both modes take the connection out of the reader, without what is buffered in it; what then comes from it is the rest of the pieces.\<close>

definition handle_hysteria_stream :: "string \<Rightarrow> Destination \<Rightarrow> (string, unit) res \<Rightarrow> pconn \<Rightarrow> (string, hy_outcome) res" where
  "handle_hysteria_stream itag src dispatched c =
     (case read_line ''hysteria: read addr: '' ([], c) of
        (Ok addr_line, r) \<Rightarrow>
          rbind (hy_parse_addr (trim addr_line)) (\<lambda>(a, p).
            case hy_fill_buf r of
              (b, r) \<Rightarrow>
                rbind dispatched (\<lambda>_.
                  if (case b of Ok buf \<Rightarrow> 2 \<le> length buf \<and> buf ! 0 = 117 \<and> buf ! 1 = 10 | _ \<Rightarrow> False)
                  then Ok (Hy_Udp (hy_session itag src) (hy_packets (pbytes (snd r))))
                  else Ok (Hy_Tcp (hy_session itag src) (TcpDestination a (Port p)) (pbytes (snd r)))))
      | (Err e, _) \<Rightarrow> Err e | (Panic, _) \<Rightarrow> Panic)"

section \<open>The window\<close>

lemma bit_length_bounds: "0 < n \<Longrightarrow> 2 ^ (bit_length n - 1) \<le> n \<and> 0 < bit_length n"
proof (induction n rule: bit_length.induct)
  case (1 n)
  show ?case
  proof (cases "n div 2 = 0")
    case False
    then have ih: "2 ^ (bit_length (n div 2) - 1) \<le> n div 2" "0 < bit_length (n div 2)" using 1 by auto
    have "bit_length n = Suc (bit_length (n div 2))" using "1.prems" by (subst bit_length.simps) simp
    moreover have "2 ^ bit_length (n div 2) \<le> n" using ih power_Suc [of "2 :: nat" "bit_length (n div 2) - 1"] by simp
    ultimately show ?thesis by simp
  next
    case True
    then show ?thesis using "1.prems" by (subst (1 2) bit_length.simps) (subst (1 2) bit_length.simps, simp)
  qed
qed

lemma f64_round_bound: "f64_round n \<le> n + n div 8"
proof (cases "bit_length n - 53 = 0")
  case False
  define s where "s = bit_length n - 53"
  have "bit_length 0 = 0" by (subst bit_length.simps) simp
  then have "0 < n" using False by (cases n) auto
  then have "2 ^ (bit_length n - 1) \<le> n" using bit_length_bounds by simp
  moreover have "bit_length n - 1 = s + 52" using False by (simp add: s_def)
  ultimately have "2 ^ s * 2 ^ 52 \<le> n" by (simp add: power_add)
  then have small: "2 ^ s \<le> n div 8" by simp
  have "f64_round n \<le> (n div 2 ^ s + 1) * 2 ^ s" using False by (auto simp: f64_round_def Let_def s_def)
  also have "\<dots> = n div 2 ^ s * 2 ^ s + 2 ^ s" by simp
  also have "\<dots> \<le> n + n div 8" using small by (intro add_mono) simp_all
  finally show ?thesis .
qed (simp add: f64_round_def)

lemma times_0_7_le: "times_0_7 c \<le> c"
proof -
  define n where "n = unat c"
  define m where "m = f64_round n * 6305039478318694"
  have "f64_round n \<le> n + n div 8" "f64_round m \<le> m + m div 8" by (rule f64_round_bound)+
  then have "8 * f64_round n \<le> 9 * n" "8 * f64_round m \<le> 9 * m" by linarith+
  moreover from this(1) have "8 * m \<le> 9 * n * 6305039478318694" by (simp add: m_def)
  ultimately have "f64_round m \<le> n * 2 ^ 53" by simp
  then have "f64_round m div 2 ^ 53 \<le> n" by (metis div_le_mono nonzero_mult_div_cancel_right power_eq_0_iff zero_neq_numeral)
  then have "unat (times_0_7 c) \<le> n" using unat_bound [of c] by (simp add: times_0_7_def n_def [symmetric] m_def [symmetric] unat_of_nat)
  then show ?thesis by (simp add: word_le_nat_alt n_def)
qed

definition brutal_target :: "BrutalController \<Rightarrow> u64" where
  "brutal_target b = max (target_bps b div 8) (min_cwnd b)"

text \<open>The window stays between its least size and the target.\<close>

definition brutal_ok :: "BrutalController \<Rightarrow> bool" where
  "brutal_ok b \<longleftrightarrow> min_cwnd b \<le> cwnd b \<and> cwnd b \<le> brutal_target b"

lemma brutal_new_ok: "brutal_ok (BrutalController_new bps)"
  by (simp add: brutal_ok_def BrutalController_new_def brutal_target_def Let_def)

lemma ack_step:
  assumes "cwnd b < brutal_target b" and "cwnd b < max_cwnd b"
  shows "unat (cwnd (on_ack b)) = unat (cwnd b) + max ((unat (brutal_target b) - unat (cwnd b)) div 16) 1"
    and "on_ack b = b\<lparr>cwnd := cwnd (on_ack b)\<rparr>"
proof -
  let ?g = "max ((brutal_target b - cwnd b) div 16) 1"
  have g: "unat ?g = max ((unat (brutal_target b) - unat (cwnd b)) div 16) 1"
    using assms(1) by (simp add: max_def word_le_nat_alt unat_div unat_sub_if' word_less_nat_alt)
  have e: "on_ack b = b\<lparr>cwnd := cwnd b + ?g\<rparr>" using assms by (simp add: on_ack_def brutal_target_def Let_def)
  have lt: "unat (cwnd b) < unat (brutal_target b)" using assms(1) by (simp add: word_less_nat_alt)
  then have "unat (cwnd b) + unat ?g \<le> unat (brutal_target b)" unfolding g by (simp add: max_def) linarith
  then have "unat (cwnd b + ?g) = unat (cwnd b) + unat ?g"
    using unat_bound [of "brutal_target b"] by (intro unat_add_lem [THEN iffD1]) simp
  then show "unat (cwnd (on_ack b)) = unat (cwnd b) + max ((unat (brutal_target b) - unat (cwnd b)) div 16) 1" using e g by simp
  show "on_ack b = b\<lparr>cwnd := cwnd (on_ack b)\<rparr>" by (subst e) (simp add: e)
qed

lemma brutal_target_cwnd [simp]: "brutal_target (b\<lparr>cwnd := w\<rparr>) = brutal_target b"
  by (simp add: brutal_target_def)

lemma on_ack_idle: "\<not> (cwnd b < brutal_target b \<and> cwnd b < max_cwnd b) \<Longrightarrow> on_ack b = b"
  by (auto simp: on_ack_def brutal_target_def Let_def)

lemma on_ack_ok: "brutal_ok b \<Longrightarrow> brutal_ok (on_ack b)"
proof (cases "cwnd b < brutal_target b \<and> cwnd b < max_cwnd b")
  case True
  assume b: "brutal_ok b"
  have n: "unat (cwnd (on_ack b)) = unat (cwnd b) + max ((unat (brutal_target b) - unat (cwnd b)) div 16) 1"
    and e: "on_ack b = b\<lparr>cwnd := cwnd (on_ack b)\<rparr>" using ack_step [of b] True by auto
  have "unat (cwnd b) < unat (brutal_target b)" using True by (simp add: word_less_nat_alt)
  then have "unat (cwnd (on_ack b)) \<le> unat (brutal_target b)" "unat (cwnd b) \<le> unat (cwnd (on_ack b))" unfolding n by (simp_all add: max_def) linarith
  then show ?thesis using b by (subst e) (auto simp: brutal_ok_def word_le_nat_alt)
qed (simp add: on_ack_idle)

lemma congestion_ok: "brutal_ok b \<Longrightarrow> brutal_ok (on_congestion_event ip lost b)"
  using times_0_7_le [of "cwnd b"] by (auto simp: brutal_ok_def on_congestion_event_def brutal_target_def)

lemma congestion_shrinks: "brutal_ok b \<Longrightarrow> cwnd (on_congestion_event ip lost b) \<le> cwnd b"
  using times_0_7_le [of "cwnd b"] by (simp add: brutal_ok_def on_congestion_event_def)

text \<open>After a loss, acknowledgements bring the window back to the target.\<close>

lemma acks_restore:
  assumes "brutal_ok b" and "brutal_target b \<le> max_cwnd b"
  shows "\<exists>k. cwnd ((on_ack ^^ k) b) = brutal_target b"
  using assms
proof (induction "unat (brutal_target b) - unat (cwnd b)" arbitrary: b rule: less_induct)
  case less
  show ?case
  proof (cases "cwnd b < brutal_target b")
    case False
    then have "cwnd b = brutal_target b" using less.prems(1) by (simp add: brutal_ok_def)
    then show ?thesis by (intro exI [of _ 0]) simp
  next
    case True
    have "cwnd b < max_cwnd b" using True less.prems(2) by simp
    then have n: "unat (cwnd (on_ack b)) = unat (cwnd b) + max ((unat (brutal_target b) - unat (cwnd b)) div 16) 1"
      and e: "on_ack b = b\<lparr>cwnd := cwnd (on_ack b)\<rparr>" using ack_step [OF True] by auto
    have t: "brutal_target (on_ack b) = brutal_target b" "max_cwnd (on_ack b) = max_cwnd b" by (subst e, simp)+
    have "unat (cwnd b) < unat (brutal_target b)" using True by (simp add: word_less_nat_alt)
    moreover have "1 \<le> max ((unat (brutal_target b) - unat (cwnd b)) div 16) 1" by simp
    ultimately have "unat (brutal_target (on_ack b)) - unat (cwnd (on_ack b)) < unat (brutal_target b) - unat (cwnd b)" unfolding t n by linarith
    from less.hyps [OF this on_ack_ok [OF less.prems(1)]] less.prems(2) obtain k where "cwnd ((on_ack ^^ k) (on_ack b)) = brutal_target b" by (auto simp: t)
    then show ?thesis by (intro exI [of _ "Suc k"]) (simp add: funpow_swap1)
  qed
qed

section \<open>Authentication\<close>

definition hy_json_ok :: "hy_json \<Rightarrow> bool" where
  "hy_json_ok J \<longleftrightarrow> (\<forall>p. hy_read_auth J (hy_write_auth J p @ [10]) = Ok p) \<and> (\<forall>ok e. hy_read_resp J (hy_write_resp J ok e) = Ok (ok, e))"

text \<open>The server accepts exactly its password, and the client learns which.\<close>

lemma hy_auth_agreement:
  assumes "hy_json_ok J" and "hysteria_auth_first_stream J expected (Ok (hy_auth_request J password)) = (r, answer)"
  shows "(r = Ok () \<longleftrightarrow> password = expected) \<and> (hy_auth_answer J (Ok answer) = Ok () \<longleftrightarrow> password = expected)"
  using assms by (auto simp: hy_json_ok_def hysteria_auth_first_stream_def hy_auth_request_def hy_auth_answer_def split: if_splits)

section \<open>Datagrams\<close>

text \<open>The frames of packets are read back, in order; the address of a packet is not in its frame.\<close>

lemma hy_packets_frames:
  assumes "\<forall>d \<in> set ds. length d \<le> 65535"
  shows "hy_packets (concat (map hy_frame ds)) = map (\<lambda>d. \<lparr>pkt_source = hy_placeholder, pkt_target = hy_placeholder, pkt_data = d\<rparr>) ds"
  using assms
proof (induction ds)
  case Nil
  show ?case by (subst hy_packets.simps) simp
next
  case (Cons d ds)
  have n: "unat (word_of_nat (length d) :: u16) = length d" using Cons.prems by (intro unat_u16) simp
  have f: "take 2 (concat (map hy_frame (d # ds))) = to_be16 (word_of_nat (length d))" by (simp add: hy_frame_def)
  show ?case using Cons n by (subst hy_packets.simps) (simp add: f Let_def, simp add: hy_frame_def)
qed

section \<open>Streams\<close>

lemma trim_newline:
  assumes "plain_word l"
  shows "trim (l @ [CHR 0x0A]) = l"
proof -
  have l: "l \<noteq> []" "plain_char (hd l)" "plain_char (last l)" using assms by (auto simp: plain_word_def)
  have c: "CHR 0x0A = char_of n \<longleftrightarrow> n mod 256 = 10" for n :: nat
    by (subst eq_commute, simp add: char_of_eq_iff take_bit_eq_mod)
  have w: "find (\<lambda>w. w \<noteq> [] \<and> starts_with w (CHR 0x0A # s)) (map rev whitespace) = Some [CHR 0x0A]" for s
    by (simp add: whitespace_def starts_with_def c) (simp add: char_of_eq_iff take_bit_eq_mod)
  have "trim_start (l @ [CHR 0x0A]) = l @ [CHR 0x0A]" using l by (intro trim_start_plain) auto
  moreover have "trim_prefixes (map rev whitespace) (CHR 0x0A # rev l) = trim_prefixes (map rev whitespace) (rev l)"
    by (subst trim_prefixes.simps, simp add: w)
  ultimately show ?thesis using trim_end_plain [OF l(1,3)] by (simp add: trim_def trim_end_def)
qed

text \<open>The targets a request can carry: printable text without a colon that is read as the same address.\<close>

definition hy_target_ok :: "Destination \<Rightarrow> bool" where
  "hy_target_ok dest \<longleftrightarrow> network dest = Tcp \<and> plain_word (show_address (address dest)) \<and> CHR '':'' \<notin> set (show_address (address dest)) \<and>
     (case parse_ipv4 (show_address (address dest)) of Some a \<Rightarrow> Ipv4 a
      | None \<Rightarrow> (case parse_ipv6 (show_address (address dest)) of Some a \<Rightarrow> Ipv6 a | None \<Rightarrow> Domain_a (show_address (address dest)))) = address dest"

lemma digit_plain: "c \<in> set (show_nat n) \<Longrightarrow> plain_char c"
proof -
  assume "c \<in> set (show_nat n)"
  then have "48 \<le> (of_char c :: nat)" "(of_char c :: nat) \<le> 57" using show_nat_chars by blast+
  then show ?thesis by (auto simp: plain_char_def)
qed

lemma hy_target_ipv4:
  assumes "length b = 4"
  shows "hy_target_ok (TcpDestination (Ipv4 b) p)"
proof -
  have c: "plain_char c \<and> c \<noteq> CHR '':''" if "c \<in> set (show_ipv4 b)" for c
    using show_ipv4_chars [OF assms that] by (auto simp: plain_char_def)
  then show ?thesis using show_ipv4_no_bracket [OF assms] assms by (auto simp: hy_target_ok_def TcpDestination_def plain_word_def)
qed

lemma address_line_plain:
  assumes "hy_target_ok dest"
  shows "plain_word (hy_address_line dest)"
proof -
  have "plain_char (CHR '':'')" by (simp add: plain_char_def)
  then show ?thesis using assms digit_plain by (auto simp: hy_target_ok_def hy_address_line_def plain_word_def)
qed

lemma hy_parse_address_line:
  assumes "hy_target_ok dest"
  shows "hy_parse_addr (hy_address_line dest) = Ok (address dest, port_value (port dest))"
proof -
  have "split_once (CHR '':'') (hy_address_line dest) = Some (show_address (address dest), show_nat (unat (port_value (port dest))))"
    using assms unfolding hy_address_line_def hy_target_ok_def by (simp add: split_once_append)
  moreover have "parse_unsigned 65535 (show_nat (unat (port_value (port dest)))) = Some (unat (port_value (port dest)))"
    using unat_bound [of "port_value (port dest)"] by (intro parse_show_nat) simp
  ultimately show ?thesis using assms by (simp add: hy_parse_addr_def hy_target_ok_def)
qed

lemma hy_reads_line:
  assumes "piecewise c" and "pbytes c = hy_tcp_request dest @ t" and "hy_target_ok dest"
  obtains r where "read_line ''hysteria: read addr: '' ([], c) = (Ok (hy_address_line dest @ [CHR 0x0A]), r)" "rbytes r = t" "piecewise (snd r)"
proof -
  have pw: "plain_word (hy_address_line dest)" using assms(3) by (rule address_line_plain)
  have no: "CHR 0x0A \<notin> set (hy_address_line dest)" using pw by (auto simp: plain_word_def plain_char_def)
  have v: "valid_utf8 (as_bytes (hy_address_line dest) @ [10])"
  proof -
    have "valid_utf8 (as_bytes (hy_address_line dest @ [CHR 0x0A]))" using pw by (intro ascii_valid) (auto simp: plain_word_def plain_char_def)
    then show ?thesis by (simp add: as_bytes_def)
  qed
  have "rbytes ([], c) = as_bytes (hy_address_line dest) @ 10 # t" using assms(2) by (simp add: rbytes_def hy_tcp_request_def)
  from read_line_ok [of "([], c)", OF _ this no v] assms(1) show thesis using that by auto
qed

lemma hy_fill_buf_Ok:
  assumes "piecewise (snd r)" and "rbytes r \<noteq> []"
  obtains b c where "hy_fill_buf r = (Ok b, (b, c))" "b \<noteq> []" "rbytes r = b @ pbytes c"
proof (cases "fst r = []")
  case True
  then have "pbytes (snd r) \<noteq> []" using assms(2) by (simp add: rbytes_def)
  moreover have "0 < BUF_CAPACITY" by (simp add: BUF_CAPACITY_def)
  ultimately obtain d c1 where "pread BUF_CAPACITY (snd r) = (Ok d, c1)" "d \<noteq> []" "pbytes (snd r) = d @ pbytes c1"
    using pread_Ok [OF assms(1)] by metis
  then show thesis using True by (intro that [of d c1]) (auto simp: hy_fill_buf_def rbytes_def)
next
  case False
  then show thesis by (intro that [of "fst r" "snd r"]) (auto simp: hy_fill_buf_def rbytes_def)
qed

text \<open>A stream of the client in TCP mode, cut by the network in any way: the server dispatches the client's target, but of the data that follows, a first part that is never empty is
  lost, since it is read ahead to look for the mode and then dropped with the reader.\<close>
theorem hysteria_loses_first_bytes:
  assumes "piecewise c" and "pbytes c = hy_tcp_request dest @ data" and "hy_target_ok dest" and "data \<noteq> []" and "hd data \<noteq> 117"
  shows "\<exists>lost rest. data = lost @ rest \<and> lost \<noteq> [] \<and>
    handle_hysteria_stream itag src (Ok ()) c = Ok (Hy_Tcp (hy_session itag src) (TcpDestination (address dest) (port dest)) rest)"
proof -
  obtain r where r: "read_line ''hysteria: read addr: '' ([], c) = (Ok (hy_address_line dest @ [CHR 0x0A]), r)" "rbytes r = data" "piecewise (snd r)"
    by (rule hy_reads_line [OF assms(1-3)])
  obtain b c' where b: "hy_fill_buf r = (Ok b, (b, c'))" "b \<noteq> []" "rbytes r = b @ pbytes c'" using hy_fill_buf_Ok [of r] r assms(4) by auto
  have "b ! 0 \<noteq> 117" using b(2,3) r(2) assms(5) by (cases b) auto
  then have "handle_hysteria_stream itag src (Ok ()) c =
    Ok (Hy_Tcp (hy_session itag src) (TcpDestination (address dest) (port dest)) (pbytes c'))"
    using r(1) b(1) hy_parse_address_line [OF assms(3)] trim_newline [OF address_line_plain [OF assms(3)]]
    by (simp add: handle_hysteria_stream_def)
  then show ?thesis using b(2,3) r(2) by (intro exI [of _ b] exI [of _ "pbytes c'"]) simp
qed

theorem hysteria_loses_first_bytes_witness:
  "\<forall>src. \<exists>lost rest. [1, 2, 3] = lost @ rest \<and> lost \<noteq> [] \<and>
    handle_hysteria_stream ''in'' src (Ok ()) \<lparr>pieces = [hy_tcp_request (TcpDestination (Ipv4 [1, 2, 3, 4]) (Port 80)), [1, 2, 3]], pend = None, pout = [], pwr_err = None\<rparr> =
      Ok (Hy_Tcp (hy_session ''in'' src) (TcpDestination (Ipv4 [1, 2, 3, 4]) (Port 80)) rest)"
proof
  fix src
  let ?d = "TcpDestination (Ipv4 [1, 2, 3, 4]) (Port 80)"
  let ?c = "\<lparr>pieces = [hy_tcp_request ?d, [1, 2, 3]], pend = None, pout = [], pwr_err = None\<rparr>"
  have "piecewise ?c" "pbytes ?c = hy_tcp_request ?d @ [1, 2, 3]" by (simp_all add: piecewise_def pbytes_def hy_tcp_request_def)
  moreover have "hy_target_ok ?d" by (rule hy_target_ipv4) simp
  ultimately show "\<exists>lost rest. [1, 2, 3] = lost @ rest \<and> lost \<noteq> [] \<and>
    handle_hysteria_stream ''in'' src (Ok ()) ?c = Ok (Hy_Tcp (hy_session ''in'' src) ?d rest)"
    using hysteria_loses_first_bytes [of ?c ?d "[1, 2, 3]" "''in''" src] by (simp add: TcpDestination_def)
qed

text \<open>An IPv6 target is refused: the text is split at the first colon of the address.\<close>

lemma span_digits_rest: "span_digits r s = (ds, rest) \<Longrightarrow> c \<in> set s \<Longrightarrow> to_digit r c = None \<Longrightarrow> rest \<noteq> []"
  by (induction r s arbitrary: ds rest rule: span_digits.induct) (auto split: option.splits prod.splits)

lemma parse_unsigned_bracket: "CHR '']'' \<in> set s \<Longrightarrow> parse_unsigned m s = None"
proof -
  assume a: "CHR '']'' \<in> set s"
  have d: "to_digit 10 (CHR '']'') = None" by (simp add: to_digit_def)
  let ?t = "case s of c # cs \<Rightarrow> (if c = CHR ''+'' \<and> cs \<noteq> [] then cs else s) | [] \<Rightarrow> []"
  have "CHR '']'' \<in> set ?t" using a by (cases s) auto
  then show ?thesis using span_digits_rest [OF _ _ d] by (auto simp: parse_unsigned_def Let_def split: prod.split)
qed

lemma hy_ipv6_refused:
  assumes "address dest = Ipv6 b" and "CHR '':'' \<in> set (show_ipv6 b)"
  shows "\<exists>m. hy_parse_addr (hy_address_line dest) = Err m"
proof -
  obtain x y where xy: "show_ipv6 b = x @ CHR '':'' # y" "CHR '':'' \<notin> set x" using split_list_first [OF assms(2)] by auto
  have e: "hy_address_line dest = (CHR ''['' # x) @ CHR '':'' # (y @ '']:'' @ show_nat (unat (port_value (port dest))))"
    using assms(1) xy(1) by (simp add: hy_address_line_def)
  have n: "CHR '':'' \<notin> set (CHR ''['' # x)" using xy(2) by simp
  have "split_once (CHR '':'') (hy_address_line dest) = Some (CHR ''['' # x, y @ '']:'' @ show_nat (unat (port_value (port dest))))"
    unfolding e by (rule split_once_append [OF n])
  then show ?thesis using parse_unsigned_bracket [of "y @ '']:'' @ show_nat (unat (port_value (port dest)))" 65535] by (simp add: hy_parse_addr_def)
qed

text \<open>A stream in UDP mode whose marker comes in a read of its own: every packet is passed on, but neither the session nor a packet has the client's target.\<close>

lemma hy_udp_stream:
  assumes "pieces c = hy_tcp_request dest # [117, 10] # ps" and "hy_target_ok dest" and "concat ps = concat (map hy_frame ds)" and "[] \<notin> set ps"
    and "\<forall>d \<in> set ds. length d \<le> 65535" and "length (hy_tcp_request dest) \<le> BUF_CAPACITY"
  shows "handle_hysteria_stream itag src (Ok ()) c =
    Ok (Hy_Udp (hy_session itag src) (map (\<lambda>d. \<lparr>pkt_source = hy_placeholder, pkt_target = hy_placeholder, pkt_data = d\<rparr>) ds))"
proof -
  let ?l = "as_bytes (hy_address_line dest)" and ?c1 = "c\<lparr>pieces := [117, 10] # ps\<rparr>"
  have ne: "hy_tcp_request dest \<noteq> []" by (simp add: hy_tcp_request_def)
  have pw: "piecewise c" using assms(1,4) ne by (simp add: piecewise_def)
  have eq: "pbytes c = hy_tcp_request dest @ [117, 10] @ concat ps" using assms(1) by (simp add: pbytes_def)
  have r0: "pread BUF_CAPACITY c = (Ok (hy_tcp_request dest), ?c1)" using assms(1,6) by (simp add: pread_def BUF_CAPACITY_def)
  obtain r where r: "read_line ''hysteria: read addr: '' ([], c) = (Ok (hy_address_line dest @ [CHR 0x0A]), r)" "rbytes r = [117, 10] @ concat ps"
    by (rule hy_reads_line [OF pw eq assms(2)])
  have "read_until_nl [] [] c = read_until_nl [] (hy_tcp_request dest) ?c1" using r0 ne by (subst read_until_nl.simps) simp
  moreover have "10 \<in> set (hy_tcp_request dest)" by (simp add: hy_tcp_request_def)
  ultimately have u: "snd (snd (read_until_nl [] [] c)) = ?c1" using ne by (subst (asm) (2) read_until_nl.simps) simp
  then have "snd r = ?c1" using r(1) by (auto simp: read_line_def split: prod.splits res.splits)
  then have "fst r = []" using r(2) by (auto simp: rbytes_def pbytes_def)
  then have rr: "r = ([], ?c1)" using \<open>snd r = ?c1\<close> by (cases r) simp
  have f: "hy_fill_buf ([], ?c1) = (Ok [117, 10], ([117, 10], c\<lparr>pieces := ps\<rparr>))" by (simp add: hy_fill_buf_def pread_def BUF_CAPACITY_def)
  show ?thesis using r(1) f hy_parse_address_line [OF assms(2)] trim_newline [OF address_line_plain [OF assms(2)]] hy_packets_frames [OF assms(5)] assms(3)
    by (simp add: handle_hysteria_stream_def rr pbytes_def)
qed

end
