(* ===== verification/Crypto.thy ===== *)
theory Crypto
  imports Std_Text
begin

text \<open>
  \<^verbatim>\<open>astra-core-crypto\<close>: nonce generators, the AES-CFB stream, the AES-GCM wrapper, the AEAD authenticator and
  the parsers of chunk sizes. The block cipher and the AEAD primitives are parameters.
\<close>

section \<open>Generators (generator.rs)\<close>

datatype BytesGenerator = EmptyBytesGenerator | StaticBytesGenerator "u8 list" | IncreasingNonceGenerator "u8 list"

text \<open>The loop that counts a nonce up from its first byte.\<close>

fun inc_bytes :: "u8 list \<Rightarrow> u8 list" where
  "inc_bytes [] = []"
| "inc_bytes (b # bs) = (if b + 1 \<noteq> 0 then (b + 1) # bs else 0 # inc_bytes bs)"

fun generate :: "BytesGenerator \<Rightarrow> u8 list \<times> BytesGenerator" where
  "generate EmptyBytesGenerator = ([], EmptyBytesGenerator)"
| "generate (StaticBytesGenerator c) = (c, StaticBytesGenerator c)"
| "generate (IncreasingNonceGenerator n) = (inc_bytes n, IncreasingNonceGenerator (inc_bytes n))"

definition aead_nonce_generator :: "nat \<Rightarrow> BytesGenerator" where
  "aead_nonce_generator k = IncreasingNonceGenerator (replicate k 0xFF)"

section \<open>AES-CFB (aes.rs)\<close>

datatype CfbMode = CfbEncrypt | CfbDecrypt

text \<open>
  \<open>xor_key_stream\<close> over the rest of the source; \<open>E\<close> is the block cipher under the stream's key. The offset
  into the shift register never passes 16.
\<close>

function cfb_loop :: "(u8 list \<Rightarrow> u8 list) \<Rightarrow> CfbMode \<Rightarrow> u8 list \<Rightarrow> nat \<Rightarrow> u8 list \<Rightarrow> u8 list \<times> u8 list \<times> nat" where
  "cfb_loop E m reg off src =
     (if src = [] \<or> 16 < off then ([], reg, off)
      else let off = (if off = 16 then 0 else off);
               reg = (if off = 0 then E reg else reg);
               n = min (16 - off) (length src);
               out = map2 (XOR) (take n src) (take n (drop off reg));
               reg = overwrite off (if m = CfbEncrypt then out else take n src) reg;
               (rest, reg', off') = cfb_loop E m reg (off + n) (drop n src)
           in (out @ rest, reg', off'))"
  by pat_completeness auto
termination by (relation "measure (\<lambda>(_, _, _, _, src). length src)") auto

declare cfb_loop.simps [simp del]

record AesCfbStream =
  cfb_cipher :: "u8 list \<Rightarrow> u8 list"
  cfb_shift :: "u8 list"
  cfb_mode :: CfbMode
  cfb_offset :: nat

definition cfb_new_encrypt :: "(u8 list \<Rightarrow> u8 list) \<Rightarrow> u8 list \<Rightarrow> AesCfbStream" where
  "cfb_new_encrypt E iv = \<lparr>cfb_cipher = E, cfb_shift = iv, cfb_mode = CfbEncrypt, cfb_offset = 0\<rparr>"

definition cfb_new_decrypt :: "(u8 list \<Rightarrow> u8 list) \<Rightarrow> u8 list \<Rightarrow> AesCfbStream" where
  "cfb_new_decrypt E iv = \<lparr>cfb_cipher = E, cfb_shift = iv, cfb_mode = CfbDecrypt, cfb_offset = 0\<rparr>"

definition xor_key_stream :: "u8 list \<Rightarrow> AesCfbStream \<Rightarrow> u8 list \<times> AesCfbStream" where
  "xor_key_stream src s =
     (case cfb_loop (cfb_cipher s) (cfb_mode s) (cfb_shift s) (cfb_offset s) src of
        (out, reg, off) \<Rightarrow> (out, s\<lparr>cfb_shift := reg, cfb_offset := off\<rparr>))"

section \<open>AEAD (cipher.rs, aes.rs, auth.rs)\<close>

text \<open>An AEAD primitive: sealing and opening under nonce and additional data.\<close>

record aead =
  ad_nonce_size :: nat
  ad_overhead :: nat
  ad_seal :: "u8 list \<Rightarrow> u8 list \<Rightarrow> u8 list \<Rightarrow> (string, u8 list) res"
  ad_open :: "u8 list \<Rightarrow> u8 list \<Rightarrow> u8 list \<Rightarrow> (string, u8 list) res"

definition NoopAeadCipher :: aead where
  "NoopAeadCipher = \<lparr>ad_nonce_size = 0, ad_overhead = 0, ad_seal = (\<lambda>_ _ p. Ok p), ad_open = (\<lambda>_ _ c. Ok c)\<rparr>"

text \<open>\<open>gs\<close> and \<open>go\<close> are \<^verbatim>\<open>encrypt_in_place\<close> and \<^verbatim>\<open>decrypt_in_place\<close> under the cipher's key.\<close>

definition AesGcmCipher ::
  "(u8 list \<Rightarrow> u8 list \<Rightarrow> u8 list \<Rightarrow> (string, u8 list) res) \<Rightarrow>
   (u8 list \<Rightarrow> u8 list \<Rightarrow> u8 list \<Rightarrow> (string, u8 list) res) \<Rightarrow> aead" where
  "AesGcmCipher gs go =
     \<lparr>ad_nonce_size = 12, ad_overhead = 16,
      ad_seal = (\<lambda>nonce ad p.
        if length nonce \<noteq> 12 then Err ''GCM nonce must be 12 bytes'' else map_err (\<lambda>e. ''GCM encrypt: '' @ e) (gs nonce ad p)),
      ad_open = (\<lambda>nonce ad c.
        if length nonce \<noteq> 12 then Err ''GCM nonce must be 12 bytes'' else map_err (\<lambda>e. ''GCM decrypt: '' @ e) (go nonce ad c))\<rparr>"

record AeadAuthenticator =
  au_cipher :: aead
  nonce_gen :: BytesGenerator
  additional_data_gen :: "BytesGenerator option"

text \<open>\<open>open\<close> and \<open>seal\<close> differ in the operation of the cipher only; the nonce is drawn first, also for an error.\<close>

definition au_run ::
  "(u8 list \<Rightarrow> u8 list \<Rightarrow> u8 list \<Rightarrow> (string, u8 list) res) \<Rightarrow> (nat \<Rightarrow> string) \<Rightarrow> u8 list \<Rightarrow> AeadAuthenticator \<Rightarrow>
   (string, u8 list) res \<times> AeadAuthenticator" where
  "au_run f bad bs a =
     (let (iv, g) = generate (nonce_gen a); a = a\<lparr>nonce_gen := g\<rparr> in
      if length iv \<noteq> ad_nonce_size (au_cipher a) then (Err (bad (length iv)), a)
      else case additional_data_gen a of
        None \<Rightarrow> (f iv [] bs, a)
      | Some g \<Rightarrow> (let (ad, g') = generate g in (f iv ad bs, a\<lparr>additional_data_gen := Some g'\<rparr>)))"

definition bad_nonce :: "AeadAuthenticator \<Rightarrow> nat \<Rightarrow> string" where
  "bad_nonce a n = ''invalid AEAD nonce size: '' @ show_nat n @ '' (expected '' @ show_nat (ad_nonce_size (au_cipher a)) @ '')''"

definition au_open :: "u8 list \<Rightarrow> AeadAuthenticator \<Rightarrow> (string, u8 list) res \<times> AeadAuthenticator" where
  "au_open c a = au_run (ad_open (au_cipher a)) (bad_nonce a) c a"

definition au_seal :: "u8 list \<Rightarrow> AeadAuthenticator \<Rightarrow> (string, u8 list) res \<times> AeadAuthenticator" where
  "au_seal p a = au_run (ad_seal (au_cipher a)) (bad_nonce a) p a"

section \<open>Chunk sizes (chunk.rs)\<close>

definition plain_size_decode :: "u8 list \<Rightarrow> (string, u16) res" where
  "plain_size_decode b = (if length b < 2 then Panic else Ok (be16_at 0 b))"

definition plain_size_encode :: "u16 \<Rightarrow> u8 list" where
  "plain_size_encode w = to_be16 w"

definition aead_size_bytes :: "AeadAuthenticator \<Rightarrow> nat" where
  "aead_size_bytes a = 2 + ad_overhead (au_cipher a)"

definition aead_size_decode :: "u8 list \<Rightarrow> AeadAuthenticator \<Rightarrow> (string, u16) res \<times> AeadAuthenticator" where
  "aead_size_decode b a =
     (case au_open b a of
        (Ok d, a') \<Rightarrow> (if length d < 2 then Panic else Ok (be16_at 0 d + word_of_nat (ad_overhead (au_cipher a))), a')
      | (Err e, a') \<Rightarrow> (Err e, a')
      | (Panic, a') \<Rightarrow> (Panic, a'))"

text \<open>The encoder panics when sealing fails; the sealed size is cut to the buffer it is given.\<close>

definition aead_size_encode :: "u16 \<Rightarrow> AeadAuthenticator \<Rightarrow> (string, u8 list) res \<times> AeadAuthenticator" where
  "aead_size_encode sz a =
     (case au_seal (to_be16 (sz - word_of_nat (ad_overhead (au_cipher a)))) a of
        (Ok s, a') \<Rightarrow> (Ok (take (aead_size_bytes a) s), a')
      | (_, a') \<Rightarrow> (Panic, a'))"

section \<open>Nonces count\<close>

fun le_value :: "u8 list \<Rightarrow> nat" where
  "le_value [] = 0"
| "le_value (b # bs) = unat b + 256 * le_value bs"

lemma be_value_rev: "be_value (rev bs) = le_value bs"
  by (induction bs) (simp_all add: be_value_def)

lemma length_inc_bytes [simp]: "length (inc_bytes bs) = length bs"
  by (induction bs) auto

lemma le_value_bound: "le_value bs < 256 ^ length bs"
  using be_value_bound [of "rev bs"] by (simp add: be_value_rev)

lemma inc_bytes_value: "le_value (inc_bytes bs) = (le_value bs + 1) mod 256 ^ length bs"
proof (induction bs)
  case (Cons b bs)
  have l: "le_value bs < 256 ^ length bs" by (rule le_value_bound)
  have u: "unat (b + 1) = (unat b + 1) mod 256" by (simp add: unat_word_ariths)
  show ?case
  proof (cases "unat b = 255")
    case True
    then have "b + 1 = 0" using u by (simp add: unat_eq_zero [symmetric])
    then show ?thesis using True Cons by (simp add: mult_mod_right)
  next
    case False
    then have v: "unat (b + 1) = unat b + 1" "unat b < 255" using u unat_bound [of b] by simp_all
    then have "b + 1 \<noteq> 0" by (metis Suc_eq_plus1 nat.distinct(1) unat_0)
    moreover have "unat b + 256 * le_value bs + 1 < 256 ^ length (b # bs)" using v(2) l by simp
    ultimately show ?thesis using v(1) by simp
  qed
qed simp

lemma mod_shift_inj: "(a + i) mod m = (a + j) mod m \<Longrightarrow> i < m \<Longrightarrow> j < m \<Longrightarrow> i = (j :: nat)"
proof (induction i j rule: linorder_wlog)
  case (le i j)
  then have "m dvd (a + j) - (a + i)" using mod_eq_dvd_iff_nat [of "a + i" "a + j" m] by simp
  then have "m dvd j - i" by simp
  moreover have "j - i < m" using le by simp
  ultimately have "j - i = 0" using nat_dvd_not_less by (cases "j - i = 0") auto
  then show ?case using le by simp
qed simp

section \<open>The CFB stream\<close>

text \<open>The reference: one byte at a time.\<close>

fun cfb_ref :: "(u8 list \<Rightarrow> u8 list) \<Rightarrow> CfbMode \<Rightarrow> u8 list \<Rightarrow> nat \<Rightarrow> u8 list \<Rightarrow> u8 list \<times> u8 list \<times> nat" where
  "cfb_ref E m reg off [] = ([], reg, off)"
| "cfb_ref E m reg off (x # xs) =
     (let off = (if off = 16 then 0 else off);
          reg = (if off = 0 then E reg else reg);
          y = x XOR reg ! off;
          (ys, reg', off') = cfb_ref E m (reg[off := if m = CfbEncrypt then y else x]) (off + 1) xs
      in (y # ys, reg', off'))"

lemma cfb_ref_append:
  "cfb_ref E m reg off (xs @ ys) =
     (case cfb_ref E m reg off xs of (a, reg', off') \<Rightarrow>
        case cfb_ref E m reg' off' ys of (b, reg'', off'') \<Rightarrow> (a @ b, reg'', off''))"
  by (induction xs arbitrary: reg off) (auto simp: Let_def split: prod.split)

text \<open>Inside a block the reference does what one group of the loop does.\<close>

lemma overwrite_Cons: "off < length reg \<Longrightarrow> off + Suc (length ys) \<le> length reg \<Longrightarrow>
  overwrite (Suc off) ys (reg[off := y]) = overwrite off (y # ys) reg"
  by (simp add: overwrite_def take_Suc_conv_app_nth take_update_cancel drop_update_cancel)

lemma cfb_ref_group:
  assumes "length reg = 16" and "0 < off" and "off + length xs \<le> 16"
  shows "cfb_ref E m reg off xs =
    (let out = map2 (XOR) xs (take (length xs) (drop off reg))
     in (out, overwrite off (if m = CfbEncrypt then out else xs) reg, off + length xs))"
  using assms
proof (induction xs arbitrary: reg off)
  case (Cons x xs)
  let ?z = "if m = CfbEncrypt then x XOR reg ! off else x"
  have d: "drop off reg = reg ! off # drop (Suc off) reg" using Cons.prems by (simp add: Cons_nth_drop_Suc)
  have "cfb_ref E m (reg[off := ?z]) (off + 1) xs =
      (let out = map2 (XOR) xs (take (length xs) (drop (off + 1) (reg[off := ?z])))
       in (out, overwrite (off + 1) (if m = CfbEncrypt then out else xs) (reg[off := ?z]), off + 1 + length xs))"
    using Cons.prems by (intro Cons.IH) simp_all
  then show ?case using Cons.prems d by (auto simp: Let_def overwrite_Cons)
qed (simp add: overwrite_def)

lemma cfb_loop_group:
  assumes "length reg = 16" and "\<And>r. length r = 16 \<Longrightarrow> length (E r) = 16" and "off \<le> 16" and "xs \<noteq> []"
  defines "o1 \<equiv> if off = 16 then 0 else off"
  defines "r1 \<equiv> if o1 = 0 then E reg else reg"
  assumes "o1 + length xs \<le> 16"
  shows "cfb_ref E m reg off xs =
    (let out = map2 (XOR) xs (take (length xs) (drop o1 r1))
     in (out, overwrite o1 (if m = CfbEncrypt then out else xs) r1, o1 + length xs))"
proof -
  obtain x ys where xs: "xs = x # ys" using assms(4) by (cases xs) auto
  have l: "length r1 = 16" and o: "o1 < 16" using assms(1-4) by (auto simp: r1_def o1_def)
  let ?z = "if m = CfbEncrypt then x XOR r1 ! o1 else x"
  have g: "cfb_ref E m (r1[o1 := ?z]) (o1 + 1) ys =
      (let out = map2 (XOR) ys (take (length ys) (drop (o1 + 1) (r1[o1 := ?z])))
       in (out, overwrite (o1 + 1) (if m = CfbEncrypt then out else ys) (r1[o1 := ?z]), o1 + 1 + length ys))"
    using l assms(7) xs by (intro cfb_ref_group) simp_all
  have "cfb_ref E m reg off xs = (let (out, reg', off') = cfb_ref E m (r1[o1 := ?z]) (o1 + 1) ys in ((x XOR r1 ! o1) # out, reg', off'))"
    by (simp add: xs Let_def o1_def r1_def)
  moreover have "drop o1 r1 = r1 ! o1 # drop (Suc o1) r1" using l o by (simp add: Cons_nth_drop_Suc)
  ultimately show ?thesis using g l o assms(7) xs by (auto simp: Let_def overwrite_Cons)
qed

lemma cfb_loop_ref:
  assumes "length reg = 16" and "\<And>r. length r = 16 \<Longrightarrow> length (E r) = 16" and "off \<le> 16"
  shows "cfb_loop E m reg off src = cfb_ref E m reg off src"
  using assms(1,3)
proof (induction "length src" arbitrary: reg off src rule: less_induct)
  case less
  show ?case
  proof (cases "src = []")
    case False
    define o1 where "o1 = (if off = 16 then 0 else off)"
    define r1 where "r1 = (if o1 = 0 then E reg else reg)"
    define n where "n = min (16 - o1) (length src)"
    define out where "out = map2 (XOR) (take n src) (take n (drop o1 r1))"
    define r2 where "r2 = overwrite o1 (if m = CfbEncrypt then out else take n src) r1"
    have o: "o1 < 16" and l: "length r1 = 16" using less.prems assms(2) by (auto simp: o1_def r1_def)
    have n: "0 < n" "n \<le> length src" "o1 + n \<le> 16" using o False by (auto simp: n_def)
    have lo: "length out = n" using n l by (simp add: out_def)
    have l2: "length r2 = 16" using lo n l by (simp add: r2_def)
    have "cfb_ref E m reg off (take n src) = (out, r2, o1 + n)"
      using cfb_loop_group [of reg E off "take n src" m] less.prems assms(2) n False
      by (simp add: Let_def o1_def [symmetric] r1_def [symmetric] out_def r2_def)
    then have "cfb_ref E m reg off (take n src @ drop n src) =
        (let (rest, reg', off') = cfb_ref E m r2 (o1 + n) (drop n src) in (out @ rest, reg', off'))"
      by (subst cfb_ref_append) (simp add: Let_def)
    moreover have "cfb_loop E m r2 (o1 + n) (drop n src) = cfb_ref E m r2 (o1 + n) (drop n src)"
      using n l2 by (intro less.hyps) simp_all
    moreover have "cfb_loop E m reg off src = (let (rest, reg', off') = cfb_loop E m r2 (o1 + n) (drop n src) in (out @ rest, reg', off'))"
      using False less.prems(2)
      by (subst cfb_loop.simps) (simp add: Let_def o1_def [symmetric] r1_def [symmetric] n_def [symmetric] out_def [symmetric] r2_def)
    ultimately show ?thesis by simp
  qed (simp add: cfb_loop.simps)
qed

lemma cfb_ref_roundtrip:
  assumes "length reg = 16" and "\<And>r. length r = 16 \<Longrightarrow> length (E r) = 16" and "off \<le> 16"
  shows "cfb_ref E CfbEncrypt reg off p = (c, reg', off') \<Longrightarrow> cfb_ref E CfbDecrypt reg off c = (p, reg', off')"
  using assms(1,3)
proof (induction p arbitrary: reg off c)
  case (Cons x p)
  define o1 where "o1 = (if off = 16 then 0 else off)"
  define r1 where "r1 = (if o1 = 0 then E reg else reg)"
  define r2 where "r2 = r1[o1 := x XOR r1 ! o1]"
  have l: "length r2 = 16" "o1 + 1 \<le> 16" using Cons.prems assms(2) by (auto simp: o1_def r1_def r2_def)
  obtain c' where c: "c = (x XOR r1 ! o1) # c'" and r: "cfb_ref E CfbEncrypt r2 (o1 + 1) p = (c', reg', off')"
    using Cons.prems(1) by (auto simp: Let_def o1_def [symmetric] r1_def [symmetric] r2_def [symmetric] split: prod.splits)
  from Cons.IH [OF r l] show ?case
    by (simp add: c Let_def o1_def [symmetric] r1_def [symmetric] r2_def [symmetric] xor.assoc)
qed simp

text \<open>A message enciphered or deciphered in pieces.\<close>

fun cfb_pieces :: "u8 list list \<Rightarrow> AesCfbStream \<Rightarrow> u8 list \<times> AesCfbStream" where
  "cfb_pieces [] s = ([], s)"
| "cfb_pieces (p # ps) s =
     (let (out, s') = xor_key_stream p s; (rest, s'') = cfb_pieces ps s' in (out @ rest, s''))"

lemma length_cfb_ref:
  assumes "\<And>r. length r = 16 \<Longrightarrow> length (E r) = 16" and "length reg = 16" and "off \<le> 16" and "cfb_ref E m reg off src = (out, reg', off')"
  shows "length reg' = 16 \<and> off' \<le> 16"
  using assms(2-)
proof (induction src arbitrary: reg off out)
  case (Cons x src)
  define o1 where "o1 = (if off = 16 then 0 else off)"
  define r1 where "r1 = (if o1 = 0 then E reg else reg)"
  have "length (r1[o1 := z]) = 16" "o1 + 1 \<le> 16" for z using Cons.prems assms(1) by (auto simp: o1_def r1_def)
  moreover obtain z out' where "cfb_ref E m (r1[o1 := z]) (o1 + 1) src = (out', reg', off')"
    using Cons.prems(3) by (auto simp: Let_def o1_def [symmetric] r1_def [symmetric] split: prod.splits)
  ultimately show ?case using Cons.IH by blast
qed auto

lemma cfb_pieces_ref:
  assumes "\<And>r. length r = 16 \<Longrightarrow> length (cfb_cipher s r) = 16" and "length (cfb_shift s) = 16" and "cfb_offset s \<le> 16"
  shows "fst (cfb_pieces ps s) = fst (cfb_ref (cfb_cipher s) (cfb_mode s) (cfb_shift s) (cfb_offset s) (concat ps))"
  using assms
proof (induction ps arbitrary: s)
  case (Cons p ps)
  obtain out reg off where r: "cfb_ref (cfb_cipher s) (cfb_mode s) (cfb_shift s) (cfb_offset s) p = (out, reg, off)" by (metis prod_cases3)
  have l: "length reg = 16" "off \<le> 16" using length_cfb_ref [OF Cons.prems(1-3) r] by auto
  have x: "xor_key_stream p s = (out, s\<lparr>cfb_shift := reg, cfb_offset := off\<rparr>)"
    using cfb_loop_ref [OF Cons.prems(2,1,3)] r by (simp add: xor_key_stream_def)
  have "fst (cfb_pieces ps (s\<lparr>cfb_shift := reg, cfb_offset := off\<rparr>)) = fst (cfb_ref (cfb_cipher s) (cfb_mode s) reg off (concat ps))"
    using Cons.IH [of "s\<lparr>cfb_shift := reg, cfb_offset := off\<rparr>"] Cons.prems(1) l by simp
  then show ?case using x r by (auto simp: cfb_ref_append Let_def split: prod.split)
qed simp

text \<open>C21. The CFB stream is what it should be, however the data is cut: for every block cipher, enciphering the pieces of a
  message one after the other gives the bytes of the reference that works byte by byte on the whole
  message, and deciphering those bytes in any other pieces gives the message back.\<close>
theorem cfb_stream_roundtrip:
  assumes "\<And>r. length r = 16 \<Longrightarrow> length (E r) = 16" and "length iv = 16"
    and "concat qs = fst (cfb_pieces ps (cfb_new_encrypt E iv))"
  shows "fst (cfb_pieces ps (cfb_new_encrypt E iv)) = fst (cfb_ref E CfbEncrypt iv 0 (concat ps)) \<and>
    fst (cfb_pieces qs (cfb_new_decrypt E iv)) = concat ps"
proof -
  obtain c reg off where r: "cfb_ref E CfbEncrypt iv 0 (concat ps) = (c, reg, off)" by (metis prod_cases3)
  have e: "fst (cfb_pieces ps (cfb_new_encrypt E iv)) = c"
    using cfb_pieces_ref [of "cfb_new_encrypt E iv" ps] assms(1,2) r by (simp add: cfb_new_encrypt_def)
  have d: "fst (cfb_pieces qs (cfb_new_decrypt E iv)) = fst (cfb_ref E CfbDecrypt iv 0 (concat qs))"
    using cfb_pieces_ref [of "cfb_new_decrypt E iv" qs] assms(1,2) by (simp add: cfb_new_decrypt_def)
  have "cfb_ref E CfbDecrypt iv 0 c = (concat ps, reg, off)" using cfb_ref_roundtrip [OF assms(2,1) _ r] by simp
  then show ?thesis using e d assms(3) r by simp
qed

theorem cfb_stream_roundtrip_witness:
  "fst (cfb_pieces (map (\<lambda>c. [c]) (fst (cfb_pieces [[1, 2], [3]] (cfb_new_encrypt rev (replicate 16 5))))) (cfb_new_decrypt rev (replicate 16 5))) = [1, 2, 3]"
proof -
  have "concat (map (\<lambda>c. [c]) x) = x" for x :: "u8 list" by (induction x) simp_all
  then have "concat (map (\<lambda>c. [c]) (fst (cfb_pieces [[1, 2], [3]] (cfb_new_encrypt rev (replicate 16 5))))) =
    fst (cfb_pieces [[1, 2], [3]] (cfb_new_encrypt rev (replicate 16 5)))" .
  note * = cfb_stream_roundtrip [OF _ _ this, THEN conjunct2]
  have "concat [[1, 2], [3]] = [1, 2, 3 :: u8]" by simp
  then show ?thesis by (subst *) simp_all
qed

end
