(* ===== verification/Shadowsocks.thy ===== *)
theory Shadowsocks
  imports Proxy_Io Crypto
begin

text \<open>
  \<^verbatim>\<open>astra-core-proxy-shadowsocks\<close>: the AEAD chunk stream, its reader as the state machine that
  \<^verbatim>\<open>poll_read\<close> drives, address headers, datagrams, and both handlers up to and including their relay
  loops. MD5, HKDF and the ciphers are parameters; what the theorems need of them is \<open>crypto_ok\<close>.
\<close>

section \<open>Ciphers (protocol.rs)\<close>

definition MAX_CHUNK_SIZE :: nat where "MAX_CHUNK_SIZE = 0x3FFF"

datatype CipherType = CtAes128Gcm | CtAes256Gcm | CtChacha20Poly1305 | CtXChacha20Poly1305 | CtNone

fun key_size :: "CipherType \<Rightarrow> nat" where
  "key_size CtAes128Gcm = 16"
| "key_size CtAes256Gcm = 32"
| "key_size CtChacha20Poly1305 = 32"
| "key_size CtXChacha20Poly1305 = 32"
| "key_size CtNone = 0"

definition iv_size :: "CipherType \<Rightarrow> nat" where "iv_size t = key_size t"

fun nonce_size :: "CipherType \<Rightarrow> nat" where
  "nonce_size CtAes128Gcm = 12"
| "nonce_size CtAes256Gcm = 12"
| "nonce_size CtChacha20Poly1305 = 12"
| "nonce_size CtXChacha20Poly1305 = 24"
| "nonce_size CtNone = 0"

definition tag_size :: nat where "tag_size = 16"

definition is_aead :: "CipherType \<Rightarrow> bool" where "is_aead t \<longleftrightarrow> t \<noteq> CtNone"

definition CipherType_from :: "u8 \<Rightarrow> CipherType" where
  "CipherType_from v =
     (if v = 0 then CtAes128Gcm else if v = 1 then CtAes256Gcm else if v = 2 then CtChacha20Poly1305
      else if v = 3 then CtXChacha20Poly1305 else CtNone)"

fun CipherType_code :: "CipherType \<Rightarrow> u8" where
  "CipherType_code CtAes128Gcm = 0"
| "CipherType_code CtAes256Gcm = 1"
| "CipherType_code CtChacha20Poly1305 = 2"
| "CipherType_code CtXChacha20Poly1305 = 3"
| "CipherType_code CtNone = 4"

text \<open>
  The library calls: the digest, the key derivation, the check of a key by the cipher's constructor,
  and encryption and decryption under a cipher, key, nonce and additional data.
\<close>

record ss_crypto =
  md5_sum :: "u8 list \<Rightarrow> u8 list"
  hkdf :: "u8 list \<Rightarrow> u8 list \<Rightarrow> nat \<Rightarrow> u8 list"
  new_aead :: "CipherType \<Rightarrow> u8 list \<Rightarrow> (string, unit) res"
  aead_seal :: "CipherType \<Rightarrow> u8 list \<Rightarrow> u8 list \<Rightarrow> u8 list \<Rightarrow> u8 list \<Rightarrow> (string, u8 list) res"
  aead_open :: "CipherType \<Rightarrow> u8 list \<Rightarrow> u8 list \<Rightarrow> u8 list \<Rightarrow> u8 list \<Rightarrow> (string, u8 list) res"

text \<open>The loop of \<open>password_to_key\<close>: it ends when the digest is not empty.\<close>

partial_function (option) extend_key :: "ss_crypto \<Rightarrow> u8 list \<Rightarrow> nat \<Rightarrow> u8 list \<Rightarrow> u8 list \<Rightarrow> u8 list option" where
  "extend_key cr password n s key =
     (if length key < n
      then let s' = md5_sum cr (s @ password) in extend_key cr password n s' (key @ s')
      else Some (take n key))"

definition password_to_key :: "ss_crypto \<Rightarrow> u8 list \<Rightarrow> nat \<Rightarrow> u8 list option" where
  "password_to_key cr password n = (let s = md5_sum cr password in extend_key cr password n s s)"

text \<open>A cipher is its type and key. A nonce of the wrong size panics (\<^verbatim>\<open>GenericArray::from_slice\<close>).\<close>

type_synonym AeadCipher = "CipherType \<times> u8 list"

definition encrypt :: "ss_crypto \<Rightarrow> AeadCipher \<Rightarrow> u8 list \<Rightarrow> u8 list \<Rightarrow> u8 list \<Rightarrow> (string, u8 list) res" where
  "encrypt cr c nonce plaintext aad =
     (if length nonce \<noteq> nonce_size (fst c) then Panic else aead_seal cr (fst c) (snd c) nonce aad plaintext)"

definition decrypt :: "ss_crypto \<Rightarrow> AeadCipher \<Rightarrow> u8 list \<Rightarrow> u8 list \<Rightarrow> u8 list \<Rightarrow> (string, u8 list) res" where
  "decrypt cr c nonce ciphertext aad =
     (if length nonce \<noteq> nonce_size (fst c) then Panic else aead_open cr (fst c) (snd c) nonce aad ciphertext)"

definition create_aead :: "ss_crypto \<Rightarrow> CipherType \<Rightarrow> u8 list \<Rightarrow> (string, AeadCipher) res" where
  "create_aead cr t key =
     (if t = CtNone then Err ''no aead for none cipher'' else rbind (new_aead cr t key) (\<lambda>_. Ok (t, key)))"

fun expect :: "('e, 'a) res \<Rightarrow> ('f, 'a) res" where
  "expect (Ok x) = Ok x"
| "expect _ = Panic"

definition create_authenticator ::
  "ss_crypto \<Rightarrow> CipherType \<Rightarrow> u8 list \<Rightarrow> u8 list \<Rightarrow> (string, AeadCipher \<times> u8 list) res" where
  "create_authenticator cr t key iv =
     rbind (expect (create_aead cr t (hkdf cr key iv (key_size t)))) (\<lambda>c. Ok (c, replicate (nonce_size t) 0))"

text \<open>Nonces count up from their last byte.\<close>

definition next_nonce :: "u8 list \<Rightarrow> u8 list" where
  "next_nonce n = rev (inc_bytes (rev n))"

text \<open>The one-shot interface of \<^verbatim>\<open>trait Cipher\<close>.\<close>

definition oneshot_encrypt :: "ss_crypto \<Rightarrow> CipherType \<Rightarrow> u8 list \<Rightarrow> u8 list \<Rightarrow> u8 list \<Rightarrow> (string, u8 list) res" where
  "oneshot_encrypt cr t key iv plaintext =
     rbind (create_authenticator cr t key iv) (\<lambda>(c, nonce). expect (encrypt cr c nonce plaintext []))"

definition oneshot_decrypt :: "ss_crypto \<Rightarrow> CipherType \<Rightarrow> u8 list \<Rightarrow> u8 list \<Rightarrow> u8 list \<Rightarrow> (string, u8 list) res" where
  "oneshot_decrypt cr t key iv ciphertext =
     rbind (create_aead cr t (hkdf cr key iv (key_size t))) (\<lambda>c. decrypt cr c (replicate (nonce_size t) 0) ciphertext [])"

section \<open>Addresses and datagrams (protocol.rs)\<close>

fun ss_write_address :: "Address \<Rightarrow> (string, u8 list) res" where
  "ss_write_address (Ipv4 ip) = Ok (1 # ip)"
| "ss_write_address (Ipv6 ip) = Ok (4 # ip)"
| "ss_write_address (Domain_a d) =
     (if length d \<le> 255 then Ok (3 # word_of_nat (length d) # as_bytes d) else Panic)"

definition ss_fmt :: addr_fmt where
  "ss_fmt =
     \<lparr>tag_v4 = 1, tag_v6 = 4, tag_domain = 3, short_v4 = ''short ipv4 address'', short_v6 = ''short ipv6 address'',
      short_dlen = ''short domain length'', short_domain = ''short domain data'', bad_text = ''invalid domain'',
      unknown_tag = (\<lambda>t. ''unknown address type: '' @ show_nat (unat t)), text_of = strict_text\<rparr>"

definition ss_read_address :: "u8 list \<Rightarrow> (string, Destination \<times> nat) res" where
  "ss_read_address data =
     (if data = [] then Err ''empty address data''
      else rbind (take_addr ss_fmt (hd data) data 1) (\<lambda>(a, off).
        if length data < off + 2 then Err ''short port''
        else Ok (TcpDestination a (Port (be16_at off data)), off + 2)))"

fun ss_encode_udp_packet :: "Address \<Rightarrow> u16 \<Rightarrow> u8 list \<Rightarrow> u8 list" where
  "ss_encode_udp_packet (Ipv4 ip) p payload = 1 # ip @ to_be16 p @ payload"
| "ss_encode_udp_packet (Ipv6 ip) p payload = 4 # ip @ to_be16 p @ payload"
| "ss_encode_udp_packet (Domain_a d) p payload = 3 # word_of_nat (length d) # as_bytes d @ to_be16 p @ payload"

definition ss_udp_fmt :: addr_fmt where
  "ss_udp_fmt =
     ss_fmt\<lparr>short_v4 := ''short ipv4 udp packet'', short_v6 := ''short ipv6 udp packet'',
            short_dlen := ''short domain udp packet'', short_domain := ''short domain udp packet'', text_of := lossy_text\<rparr>"

text \<open>The bounds checks of the source include the port; a packet that ends before it has the same error.\<close>

definition ss_decode_udp_packet :: "u8 list \<Rightarrow> (string, Address \<times> u16 \<times> u8 list) res" where
  "ss_decode_udp_packet data =
     (if data = [] then Err ''empty udp packet''
      else rbind (take_addr ss_udp_fmt (hd data) data 1) (\<lambda>(a, off).
        if length data < off + 2
        then Err (if hd data = 1 then ''short ipv4 udp packet'' else if hd data = 4 then ''short ipv6 udp packet''
                  else ''short domain udp packet'')
        else Ok (a, be16_at off data, drop (off + 2) data)))"

section \<open>Sessions (protocol.rs)\<close>

record SessionCipher =
  sc_cipher :: AeadCipher
  sc_nonce :: "u8 list"

definition SessionCipher_new :: "ss_crypto \<Rightarrow> CipherType \<Rightarrow> u8 list \<Rightarrow> u8 list \<Rightarrow> (string, SessionCipher) res" where
  "SessionCipher_new cr t key iv =
     rbind (create_authenticator cr t key iv) (\<lambda>(c, nonce). Ok \<lparr>sc_cipher = c, sc_nonce = nonce\<rparr>)"

definition encrypt_chunk :: "ss_crypto \<Rightarrow> u8 list \<Rightarrow> SessionCipher \<Rightarrow> (string, u8 list \<times> SessionCipher) res" where
  "encrypt_chunk cr plaintext s =
     (let size_bytes = to_be16 (word_of_nat (length (sc_nonce s) + length plaintext + 16)) in
      rbind (encrypt cr (sc_cipher s) (sc_nonce s) plaintext size_bytes) (\<lambda>ct.
        Ok (size_bytes @ sc_nonce s @ ct, s\<lparr>sc_nonce := next_nonce (sc_nonce s)\<rparr>)))"

definition decrypt_chunk ::
  "ss_crypto \<Rightarrow> u8 list \<Rightarrow> u8 list \<Rightarrow> SessionCipher \<Rightarrow> (string, u8 list \<times> SessionCipher) res" where
  "decrypt_chunk cr ciphertext size_bytes s =
     rbind (decrypt cr (sc_cipher s) (sc_nonce s) ciphertext size_bytes) (\<lambda>pt.
       Ok (pt, s\<lparr>sc_nonce := next_nonce (sc_nonce s)\<rparr>))"

definition encrypt_first_chunk ::
  "ss_crypto \<Rightarrow> Address \<Rightarrow> u16 \<Rightarrow> SessionCipher \<Rightarrow> (string, u8 list \<times> SessionCipher) res" where
  "encrypt_first_chunk cr a p s = rbind (ss_write_address a) (\<lambda>bs. encrypt_chunk cr (bs @ to_be16 p) s)"

definition decrypt_first_chunk ::
  "ss_crypto \<Rightarrow> u8 list \<Rightarrow> u8 list \<Rightarrow> SessionCipher \<Rightarrow> (string, Destination \<times> SessionCipher) res" where
  "decrypt_first_chunk cr data size_bytes s =
     rbind (decrypt_chunk cr data size_bytes s) (\<lambda>(pt, s'). rbind (ss_read_address pt) (\<lambda>(dest, _). Ok (dest, s')))"

text \<open>
  The reader. Its inner stream is what successive polls find: some bytes, nothing yet, an error; after the
  last of them the stream has ended, and a poll reads no bytes.
\<close>

datatype inner_event = Bytes "u8 list" | NotYet | Broken string

datatype ReadStage = Size | Payload nat nat

record DecryptingReader =
  dr_inner :: "inner_event list"
  dr_type :: CipherType
  dr_cipher :: AeadCipher
  dr_nonce :: "u8 list"
  dr_output :: "u8 list"
  dr_stage :: ReadStage
  size_buf :: "u8 list"
  size_pos :: nat
  payload_buf :: "u8 list"

datatype ss_poll = Pending | ReadyBytes "u8 list" | ReadyErr string | PollPanic

fun poll_inner :: "nat \<Rightarrow> inner_event list \<Rightarrow> (string, u8 list) res option \<times> inner_event list" where
  "poll_inner room [] = (Some (Ok []), [])"
| "poll_inner room (NotYet # es) = (None, es)"
| "poll_inner room (Broken e # es) = (Some (Err e), es)"
| "poll_inner room (Bytes bs # es) =
     (Some (Ok (take room bs)), if length bs \<le> room then es else Bytes (drop room bs) # es)"

text \<open>One round of the loop: \<open>Inl\<close> goes round again, \<open>Inr\<close> returns.\<close>

definition size_round :: "DecryptingReader \<Rightarrow> DecryptingReader + (ss_poll \<times> DecryptingReader)" where
  "size_round r =
     (case poll_inner (2 - size_pos r) (dr_inner r) of
        (None, es) \<Rightarrow> Inr (Pending, r\<lparr>dr_inner := es\<rparr>)
      | (Some (Err e), es) \<Rightarrow> Inr (ReadyErr e, r\<lparr>dr_inner := es\<rparr>)
      | (Some Panic, es) \<Rightarrow> Inr (PollPanic, r\<lparr>dr_inner := es\<rparr>)
      | (Some (Ok bs), es) \<Rightarrow>
          (let r = r\<lparr>dr_inner := es, size_buf := overwrite (size_pos r) bs (size_buf r), size_pos := size_pos r + length bs\<rparr> in
           if size_pos r < 2 then Inl r
           else let r = r\<lparr>size_pos := 0\<rparr>; total_len = unat (from_be16 (size_buf r)) in
             if total_len = 0 then Inr (ReadyBytes [], r)
             else Inl (r\<lparr>payload_buf := replicate total_len 0, dr_stage := Payload total_len 0\<rparr>)))"

definition open_payload :: "ss_crypto \<Rightarrow> DecryptingReader \<Rightarrow> DecryptingReader + (ss_poll \<times> DecryptingReader)" where
  "open_payload cr r =
     (let n = nonce_size (dr_type r) in
      if length (payload_buf r) < n then Inr (PollPanic, r)
      else case decrypt cr (dr_cipher r) (take n (payload_buf r)) (drop n (payload_buf r)) (size_buf r) of
        Ok pt \<Rightarrow> Inl (r\<lparr>dr_output := dr_output r @ pt, dr_nonce := next_nonce (dr_nonce r), dr_stage := Size\<rparr>)
      | Err e \<Rightarrow> Inr (ReadyErr e, r)
      | Panic \<Rightarrow> Inr (PollPanic, r))"

definition payload_round ::
  "ss_crypto \<Rightarrow> nat \<Rightarrow> nat \<Rightarrow> DecryptingReader \<Rightarrow> DecryptingReader + (ss_poll \<times> DecryptingReader)" where
  "payload_round cr total_len read r =
     (case poll_inner (length (payload_buf r) - read) (dr_inner r) of
        (None, es) \<Rightarrow> Inr (Pending, r\<lparr>dr_inner := es\<rparr>)
      | (Some (Err e), es) \<Rightarrow> Inr (ReadyErr e, r\<lparr>dr_inner := es\<rparr>)
      | (Some Panic, es) \<Rightarrow> Inr (PollPanic, r\<lparr>dr_inner := es\<rparr>)
      | (Some (Ok bs), es) \<Rightarrow>
          (let r = r\<lparr>dr_inner := es, payload_buf := overwrite read bs (payload_buf r)\<rparr>; new_read = read + length bs in
           if new_read < total_len then Inl (r\<lparr>dr_stage := Payload total_len new_read\<rparr>)
           else open_payload cr r))"

definition poll_round ::
  "ss_crypto \<Rightarrow> nat \<Rightarrow> DecryptingReader \<Rightarrow> DecryptingReader + (ss_poll \<times> DecryptingReader)" where
  "poll_round cr room r =
     (if dr_output r \<noteq> []
      then let n = min room (length (dr_output r)) in
        Inr (ReadyBytes (take n (dr_output r)), r\<lparr>dr_output := drop n (dr_output r)\<rparr>)
      else case dr_stage r of Size \<Rightarrow> size_round r | Payload t k \<Rightarrow> payload_round cr t k r)"

partial_function (option) ss_poll_read ::
  "ss_crypto \<Rightarrow> nat \<Rightarrow> DecryptingReader \<Rightarrow> (ss_poll \<times> DecryptingReader) option" where
  "ss_poll_read cr room r = (case poll_round cr room r of Inl r' \<Rightarrow> ss_poll_read cr room r' | Inr x \<Rightarrow> Some x)"

definition reader_on :: "AeadCipher \<Rightarrow> u8 list \<Rightarrow> inner_event list \<Rightarrow> DecryptingReader" where
  "reader_on c nonce es =
     \<lparr>dr_inner = es, dr_type = fst c, dr_cipher = c, dr_nonce = nonce, dr_output = [], dr_stage = Size,
      size_buf = [0, 0], size_pos = 0, payload_buf = []\<rparr>"

text \<open>\<open>read_tcp_session\<close>: the destination, and the cipher and nonce of the reader it returns.\<close>

definition read_tcp_session ::
  "ss_crypto \<Rightarrow> CipherType \<Rightarrow> u8 list \<Rightarrow> u8 list \<Rightarrow> (Destination \<times> AeadCipher \<times> u8 list) cio" where
  "read_tcp_session cr t key iv =
     cbind (clift (create_authenticator cr t key iv)) (\<lambda>(c, nonce).
     cbind (cread ''read chunk size: '' 2) (\<lambda>sb.
     cbind (cread ''read chunk: '' (unat (from_be16 sb))) (\<lambda>chunk.
     cbind (clift (if length chunk < nonce_size t then Panic
                   else map_err (\<lambda>e. ''decrypt first chunk: '' @ e)
                          (decrypt cr c (take (nonce_size t) chunk) (drop (nonce_size t) chunk) sb))) (\<lambda>pt.
     cbind (clift (ss_read_address pt)) (\<lambda>(dest, _). cret (dest, c, next_nonce nonce))))))"

section \<open>Handlers (config.rs, inbound.rs, outbound.rs)\<close>

record SsAccount =
  ss_cipher_type :: CipherType
  ss_password :: string
  ss_key :: "u8 list"

record SsServerConfig =
  ss_users :: "SsAccount list"
  ss_network :: "string list"

record SsClientConfig =
  sc_server :: string
  sc_port :: u16
  sc_account :: SsAccount

definition ss_session :: "Destination \<Rightarrow> Session" where
  "ss_session target =
     \<lparr>inbound = Some \<lparr>ib_source = target, ib_local = None, ib_gateway = None, ib_tag = []\<rparr>,
      outbound = Some \<lparr>ob_target = target, original_target = target, route_target = None, ob_tag = []\<rparr>,
      content = Some \<lparr>ct_protocol = Some ''shadowsocks'', sniffing_request = None, ct_attributes = [], skip_dns_resolve = False\<rparr>\<rparr>"

definition cmap_err :: "(string \<Rightarrow> string) \<Rightarrow> 'a cio \<Rightarrow> 'a cio" where
  "cmap_err f m c = (map_err f (fst (m c)), snd (m c))"

text \<open>
  The inbound handler up to its relay: the session it dispatches, the reader's cipher and nonce, and the
  cipher of the way back; \<open>resp_iv\<close> is the random salt and \<open>dispatched\<close> the dispatcher's answer.
\<close>

definition ss_inbound ::
  "ss_crypto \<Rightarrow> u8 list \<Rightarrow> (string, unit) res \<Rightarrow> SsServerConfig \<Rightarrow>
   (Session \<times> Destination \<times> (AeadCipher \<times> u8 list) \<times> SessionCipher) cio" where
  "ss_inbound cr resp_iv dispatched cfg =
     (case ss_users cfg of
        [] \<Rightarrow> clift Panic
      | u # _ \<Rightarrow>
          cbind (cread ''ss inbound: read iv: '' (iv_size (ss_cipher_type u))) (\<lambda>iv.
          cbind (cmap_err (\<lambda>e. ''ss inbound: read session: '' @ e) (read_tcp_session cr (ss_cipher_type u) (ss_key u) iv))
            (\<lambda>(dest, c, nonce).
          cbind (clift dispatched) (\<lambda>_.
          cbind (cwrite ''ss inbound: write resp iv: '' resp_iv) (\<lambda>_.
          cbind (clift (SessionCipher_new cr (ss_cipher_type u) (ss_key u) resp_iv)) (\<lambda>enc.
            cret (ss_session dest, dest, (c, nonce), enc)))))))"

text \<open>The sending loop of both handlers over the blocks it reads (each at most \<open>MAX_CHUNK_SIZE\<close>).\<close>

fun send_chunks :: "ss_crypto \<Rightarrow> SessionCipher \<Rightarrow> u8 list list \<Rightarrow> (string, u8 list \<times> SessionCipher) res" where
  "send_chunks cr s [] = Ok ([], s)"
| "send_chunks cr s (b # bs) =
     rbind (encrypt_chunk cr b s) (\<lambda>(out, s'). rbind (send_chunks cr s' bs) (\<lambda>(outs, s''). Ok (out @ outs, s'')))"

text \<open>The client's receiving loop over the bytes that arrive: what it writes to the link, and how it ends.\<close>

function recv_chunks :: "ss_crypto \<Rightarrow> SessionCipher \<Rightarrow> string \<Rightarrow> u8 list \<Rightarrow> u8 list \<times> (string, unit) res" where
  "recv_chunks cr s e bs =
     (if length bs < 2 then ([], Err (''ss outbound: read chunk size: '' @ e))
      else let sb = take 2 bs; total_len = unat (from_be16 sb); chunk = take total_len (drop 2 bs) in
        if total_len = 0 then ([], Ok ())
        else if length bs < 2 + total_len then ([], Err (''ss outbound: read chunk: '' @ e))
        else if total_len < nonce_size (fst (sc_cipher s)) then ([], Panic)
        else case decrypt_chunk cr (drop (nonce_size (fst (sc_cipher s))) chunk) sb s of
          Ok (pt, s') \<Rightarrow> (let (out, r) = recv_chunks cr s' e (drop (2 + total_len) bs) in (pt @ out, r))
        | Err m \<Rightarrow> ([], Err (''ss outbound: decrypt: '' @ m))
        | Panic \<Rightarrow> ([], Panic))"
  by pat_completeness auto
termination by (relation "measure (\<lambda>(_, _, _, bs). length bs)") auto

declare recv_chunks.simps [simp del]

text \<open>The client's handshake with the random salt \<open>iv\<close>: the ciphers of both ways.\<close>

definition ss_outbound ::
  "ss_crypto \<Rightarrow> u8 list \<Rightarrow> SsClientConfig \<Rightarrow> Session \<Rightarrow> (SessionCipher \<times> SessionCipher) cio" where
  "ss_outbound cr iv cfg session =
     (case outbound session of
        None \<Rightarrow> cerr ''ss outbound: no target''
      | Some ob \<Rightarrow>
          (let t = ss_cipher_type (sc_account cfg); key = ss_key (sc_account cfg) in
           cbind (cwrite ''ss outbound: write iv: '' iv) (\<lambda>_.
           cbind (clift (SessionCipher_new cr t key iv)) (\<lambda>enc.
           cbind (clift (map_err (\<lambda>e. ''ss outbound: encrypt address: '' @ e)
                    (encrypt_first_chunk cr (address (ob_target ob)) (port_value (port (ob_target ob))) enc))) (\<lambda>(first, enc').
           cbind (cwrite ''ss outbound: write address: '' first) (\<lambda>_.
           cbind (cread ''ss outbound: read resp iv: '' (iv_size t)) (\<lambda>resp_iv.
           cbind (clift (SessionCipher_new cr t key resp_iv)) (\<lambda>dec. cret (enc', dec)))))))))"

text \<open>An instance of the parameters that satisfies what the theorems ask of them.\<close>

definition plain_crypto :: ss_crypto where
  "plain_crypto =
     \<lparr>md5_sum = (\<lambda>_. replicate 16 0), hkdf = (\<lambda>_ _ n. replicate n 0), new_aead = (\<lambda>_ _. Ok ()),
      aead_seal = (\<lambda>_ _ _ _ p. Ok (p @ replicate 16 0)), aead_open = (\<lambda>_ _ _ _ c. Ok (take (length c - 16) c))\<rparr>"

section \<open>The reader delivers the stream\<close>

fun feed :: "inner_event list \<Rightarrow> u8 list" where
  "feed [] = []"
| "feed (Bytes bs # es) = bs @ feed es"
| "feed (_ # es) = feed es"

fun only_bytes :: "inner_event list \<Rightarrow> bool" where
  "only_bytes [] = True"
| "only_bytes (Bytes bs # es) = (bs \<noteq> [] \<and> only_bytes es)"
| "only_bytes (_ # es) = False"

text \<open>\<open>b\<close> is the plaintext \<open>p\<close> sealed under the nonce \<open>n\<close>; a stream is sealed chunks under any nonces.\<close>

definition sealed :: "ss_crypto \<Rightarrow> AeadCipher \<Rightarrow> u8 list \<Rightarrow> u8 list \<Rightarrow> u8 list \<Rightarrow> bool" where
  "sealed cr c n p b \<longleftrightarrow>
     (\<exists>ct. b = to_be16 (word_of_nat (length n + length p + 16)) @ n @ ct \<and> length ct = length p + 16 \<and>
           length n = nonce_size (fst c) \<and> length n + length p + 16 \<le> 65535 \<and>
           decrypt cr c n ct (to_be16 (word_of_nat (length n + length p + 16))) = Ok p)"

fun sealed_stream :: "ss_crypto \<Rightarrow> AeadCipher \<Rightarrow> (u8 list \<times> u8 list) list \<Rightarrow> u8 list \<Rightarrow> bool" where
  "sealed_stream cr c [] w = (w = [])"
| "sealed_stream cr c ((n, p) # ps) w = (\<exists>b w'. sealed cr c n p b \<and> w = b @ w' \<and> sealed_stream cr c ps w')"

definition held :: "DecryptingReader \<Rightarrow> u8 list" where
  "held r = (case dr_stage r of Size \<Rightarrow> take (size_pos r) (size_buf r) | Payload t k \<Rightarrow> size_buf r @ take k (payload_buf r))"

definition reader_wf :: "DecryptingReader \<Rightarrow> bool" where
  "reader_wf r \<longleftrightarrow> length (size_buf r) = 2 \<and> size_pos r < 2 \<and> dr_type r = fst (dr_cipher r) \<and> only_bytes (dr_inner r) \<and>
     (case dr_stage r of Size \<Rightarrow> True
      | Payload t k \<Rightarrow> t = unat (from_be16 (size_buf r)) \<and> k < t \<and> length (payload_buf r) = t \<and> size_pos r = 0)"

definition promise :: "ss_crypto \<Rightarrow> DecryptingReader \<Rightarrow> u8 list \<Rightarrow> bool" where
  "promise cr r rest \<longleftrightarrow> (\<exists>ps. sealed_stream cr (dr_cipher r) ps (held r @ feed (dr_inner r)) \<and>
     rest = dr_output r @ concat (map snd ps))"

lemma held_output [simp]: "held (r\<lparr>dr_output := x\<rparr>) = held r"
  by (simp add: held_def split: ReadStage.split)

lemma reader_wf_output [simp]: "reader_wf (r\<lparr>dr_output := x\<rparr>) = reader_wf r"
  by (auto simp: reader_wf_def split: ReadStage.splits)

lemma poll_inner_bytes:
  assumes "only_bytes es" and "0 < room"
  obtains (eof) "es = []" "poll_inner room es = (Some (Ok []), [])"
  | (got) bs es' where "poll_inner room es = (Some (Ok bs), es')" "bs \<noteq> []" "length bs \<le> room" "feed es = bs @ feed es'" "only_bytes es'"
proof (cases es rule: only_bytes.cases)
  case (2 bs es')
  then show thesis using that(2) [of "take room bs" "if length bs \<le> room then es' else Bytes (drop room bs) # es'"] assms
    by (auto simp: append_assoc [symmetric])
qed (use assms that in auto)

lemma sealed_stream_size:
  assumes "sealed_stream cr c ps (sb @ w)" and "length sb = 2"
  obtains n p ps' ct w' where "ps = (n, p) # ps'" "w = n @ ct @ w'" "length ct = length p + 16" "length n = nonce_size (fst c)"
    "unat (from_be16 sb) = length n + length ct" "decrypt cr c n ct sb = Ok p" "sealed_stream cr c ps' w'"
proof (cases ps)
  case (Cons q ps')
  obtain n p where q: "q = (n, p)" by fastforce
  let ?l = "length n + length p + 16"
  obtain ct w' where e: "sb @ w = (to_be16 (word_of_nat ?l) @ n @ ct) @ w'" and l: "length ct = length p + 16" "?l \<le> 65535"
    "length n = nonce_size (fst c)" and d: "decrypt cr c n ct (to_be16 (word_of_nat ?l)) = Ok p" "sealed_stream cr c ps' w'"
    using assms(1) by (auto simp: Cons q sealed_def)
  have s: "sb = to_be16 (word_of_nat ?l)" "w = n @ ct @ w'" using e assms(2) by (auto simp: append_eq_append_conv)
  have "unat (from_be16 sb) = ?l" using unat_u16 [OF l(2)] by (simp only: s(1) from_to_be16)
  then show thesis using that [of n p ps' ct w'] Cons q s l d by auto
qed (use assms in auto)

lemma size_round_ok:
  assumes "reader_wf r" and "promise cr r rest" and "dr_stage r = Size"
  shows "\<exists>r'. size_round r = Inl r' \<and> reader_wf r' \<and> promise cr r' rest \<and> dr_output r' = dr_output r \<and>
    (dr_inner r \<noteq> [] \<longrightarrow> length (feed (dr_inner r')) < length (feed (dr_inner r)))"
proof -
  have w: "length (size_buf r) = 2" "size_pos r < 2" "only_bytes (dr_inner r)" "dr_type r = fst (dr_cipher r)"
    using assms(1) by (auto simp: reader_wf_def)
  obtain ps where ps: "sealed_stream cr (dr_cipher r) ps (take (size_pos r) (size_buf r) @ feed (dr_inner r))"
    "rest = dr_output r @ concat (map snd ps)" using assms(2,3) by (auto simp: promise_def held_def)
  have pos: "0 < 2 - size_pos r" using w(2) by simp
  from w(3) pos show ?thesis
  proof (cases rule: poll_inner_bytes)
    case eof
    have "size_round r = Inl r" using w(1,2) eof by (simp add: size_round_def Let_def overwrite_def)
    then show ?thesis using assms eof by simp
  next
    case (got bs es')
    let ?sb = "overwrite (size_pos r) bs (size_buf r)"
    have l: "length ?sb = 2" using got(3) w(1,2) by simp
    have t: "take (size_pos r + length bs) ?sb = take (size_pos r) (size_buf r) @ bs" using w(1,2) by (simp add: overwrite_def)
    have f: "length (feed es') < length (feed (dr_inner r))" using got(2,4) by simp
    show ?thesis
    proof (cases "size_pos r + length bs < 2")
      case True
      then show ?thesis using got f l t w assms(3) ps
        by (auto simp: size_round_def Let_def reader_wf_def promise_def held_def)
    next
      case False
      then have "take (size_pos r + length bs) ?sb = ?sb" using l by simp
      then have sb: "?sb = take (size_pos r) (size_buf r) @ bs" using t by simp
      have st: "sealed_stream cr (dr_cipher r) ps (?sb @ feed es')" using ps(1) got(4) by (simp add: sb)
      have "0 < unat (from_be16 ?sb)" by (rule sealed_stream_size [OF st l]) simp
      then show ?thesis using False got f l w st ps(2)
        by (auto simp: size_round_def Let_def reader_wf_def promise_def held_def)
    qed
  qed
qed

lemma payload_round_ok:
  assumes "reader_wf r" and "promise cr r rest" and "dr_stage r = Payload t k" and "dr_output r = []"
  shows "\<exists>r'. payload_round cr t k r = Inl r' \<and> reader_wf r' \<and> promise cr r' rest \<and>
    (dr_inner r \<noteq> [] \<longrightarrow> length (feed (dr_inner r')) < length (feed (dr_inner r)))"
proof -
  have w: "length (size_buf r) = 2" "size_pos r = 0" "only_bytes (dr_inner r)" "dr_type r = fst (dr_cipher r)"
    "t = unat (from_be16 (size_buf r))" "k < t" "length (payload_buf r) = t"
    using assms(1,3) by (auto simp: reader_wf_def)
  obtain ps where ps: "sealed_stream cr (dr_cipher r) ps (size_buf r @ take k (payload_buf r) @ feed (dr_inner r))"
    "rest = concat (map snd ps)" using assms(2-4) by (auto simp: promise_def held_def)
  have pos: "0 < length (payload_buf r) - k" using w by simp
  from w(3) pos show ?thesis
  proof (cases rule: poll_inner_bytes)
    case eof
    have "payload_round cr t k r = Inl r" using w eof assms(3) by (simp add: payload_round_def Let_def overwrite_def)
    then show ?thesis using assms eof by simp
  next
    case (got bs es')
    let ?pb = "overwrite k bs (payload_buf r)"
    have l: "length ?pb = t" using got(3) w(6,7) by simp
    have tk: "take (k + length bs) ?pb = take k (payload_buf r) @ bs" using w(6,7) by (simp add: overwrite_def)
    have f: "length (feed es') < length (feed (dr_inner r))" using got(2,4) by simp
    show ?thesis
    proof (cases "k + length bs < t")
      case True
      then show ?thesis using got f l tk w assms(3,4) ps
        by (auto simp: payload_round_def Let_def reader_wf_def promise_def held_def)
    next
      case False
      then have pb: "?pb = take k (payload_buf r) @ bs" using l tk by simp
      have st: "sealed_stream cr (dr_cipher r) ps (size_buf r @ (?pb @ feed es'))" using ps(1) got(4) by (simp add: pb)
      obtain n p ps' ct w' where s: "ps = (n, p) # ps'" "?pb @ feed es' = n @ ct @ w'" "length n = nonce_size (fst (dr_cipher r))"
        "unat (from_be16 (size_buf r)) = length n + length ct" "decrypt cr (dr_cipher r) n ct (size_buf r) = Ok p"
        "sealed_stream cr (dr_cipher r) ps' w'" by (rule sealed_stream_size [OF st w(1)]) blast
      have "?pb @ feed es' = (n @ ct) @ w'" and "length ?pb = length (n @ ct)" using s(2,4) l w(5) by simp_all
      then have "?pb = n @ ct \<and> feed es' = w'" using append_eq_append_conv by blast
      then have e: "?pb = n @ ct" "feed es' = w'" by simp_all
      show ?thesis using False got f l w s e ps(2) assms(4)
        by (auto simp: payload_round_def open_payload_def Let_def reader_wf_def promise_def held_def)
    qed
  qed
qed

lemma poll_round_ok:
  assumes "reader_wf r" and "promise cr r rest" and "dr_output r = []"
  shows "\<exists>r'. poll_round cr room r = Inl r' \<and> reader_wf r' \<and> promise cr r' rest \<and>
    (dr_inner r \<noteq> [] \<longrightarrow> length (feed (dr_inner r')) < length (feed (dr_inner r)))"
proof (cases "dr_stage r")
  case Size
  then show ?thesis using size_round_ok [OF assms(1,2)] assms(3) by (auto simp: poll_round_def)
next
  case (Payload t k)
  then show ?thesis using payload_round_ok [OF assms(1,2) Payload assms(3)] assms(3) by (simp add: poll_round_def)
qed


text \<open>Reading until \<open>n\<close> reads have returned.\<close>

fun read_n :: "ss_crypto \<Rightarrow> nat \<Rightarrow> nat \<Rightarrow> DecryptingReader \<Rightarrow> (u8 list \<times> DecryptingReader) option" where
  "read_n cr room 0 r = Some ([], r)"
| "read_n cr room (Suc n) r =
     (case ss_poll_read cr room r of
        Some (ReadyBytes bs, r') \<Rightarrow> map_option (\<lambda>(out, r''). (bs @ out, r'')) (read_n cr room n r')
      | _ \<Rightarrow> None)"

lemma promise_needs_bytes:
  assumes "reader_wf r" and "promise cr r rest" and "dr_output r = []" and "rest \<noteq> []"
  shows "dr_inner r \<noteq> []"
proof
  assume e: "dr_inner r = []"
  obtain ps where ps: "sealed_stream cr (dr_cipher r) ps (held r)" "rest = concat (map snd ps)"
    using assms(2,3) e by (auto simp: promise_def)
  show False
  proof (cases "dr_stage r")
    case Size
    then have "length (held r) < 2" using assms(1) by (simp add: held_def reader_wf_def)
    moreover obtain q ps' where "ps = q # ps'" using ps(2) assms(4) by (cases ps) auto
    ultimately show False using ps(1) by (cases q) (auto simp: sealed_def)
  next
    case (Payload t k)
    then have w: "length (size_buf r) = 2" "unat (from_be16 (size_buf r)) = t" "k < t" and h: "held r = size_buf r @ take k (payload_buf r)"
      using assms(1) by (auto simp: reader_wf_def held_def)
    have "sealed_stream cr (dr_cipher r) ps (size_buf r @ take k (payload_buf r))" using ps(1) h by simp
    then show False
    proof (rule sealed_stream_size [OF _ w(1)])
      fix n p ps' ct w'
      assume a: "take k (payload_buf r) = n @ ct @ w'" and u: "unat (from_be16 (size_buf r)) = length n + length ct"
      have "length (take k (payload_buf r)) = length n + length ct + length w'" by (simp add: a)
      then show False using w u by simp
    qed
  qed
qed

lemma poll_read_ready:
  assumes "reader_wf r" and "promise cr r rest" and "rest \<noteq> []" and "0 < room"
  shows "\<exists>bs r' rest'. ss_poll_read cr room r = Some (ReadyBytes bs, r') \<and> bs \<noteq> [] \<and> rest = bs @ rest' \<and>
    reader_wf r' \<and> promise cr r' rest'"
  using assms(1,2)
proof (induction "length (feed (dr_inner r))" arbitrary: r rule: less_induct)
  case less
  show ?case
  proof (cases "dr_output r = []")
    case True
    obtain r' where r': "poll_round cr room r = Inl r'" "reader_wf r'" "promise cr r' rest"
      "length (feed (dr_inner r')) < length (feed (dr_inner r))"
      using poll_round_ok [OF less.prems True] promise_needs_bytes [OF less.prems True assms(3)] by blast
    have "ss_poll_read cr room r = ss_poll_read cr room r'" using r'(1) by (subst ss_poll_read.simps) simp
    then show ?thesis using less.hyps [OF r'(4,2,3)] by simp
  next
    case False
    let ?n = "min room (length (dr_output r))" and ?r = "r\<lparr>dr_output := drop (min room (length (dr_output r))) (dr_output r)\<rparr>"
    obtain ps where ps: "sealed_stream cr (dr_cipher r) ps (held r @ feed (dr_inner r))" "rest = dr_output r @ concat (map snd ps)"
      using less.prems(2) by (auto simp: promise_def)
    have "ss_poll_read cr room r = Some (ReadyBytes (take ?n (dr_output r)), ?r)"
      using False by (subst ss_poll_read.simps) (simp add: poll_round_def Let_def)
    moreover have "take ?n (dr_output r) \<noteq> []" using False assms(4) by simp
    moreover have "rest = take ?n (dr_output r) @ (drop ?n (dr_output r) @ concat (map snd ps))"
      by (simp only: append_assoc [symmetric] append_take_drop_id ps(2))
    moreover have "reader_wf ?r" using less.prems(1) by simp
    moreover have "promise cr ?r (drop ?n (dr_output r) @ concat (map snd ps))"
      using ps(1) by (auto simp: promise_def)
    ultimately show ?thesis by blast
  qed
qed

lemma poll_read_spins:
  assumes "ss_poll_read cr room r = Some y"
  shows "reader_wf r \<Longrightarrow> promise cr r [] \<Longrightarrow> False"
  using assms
proof (induction rule: ss_poll_read.raw_induct [rotated 1, consumes 1])
  case (1 f cr room r y)
  have "dr_output r = []" using 1(4) by (auto simp: promise_def)
  from poll_round_ok [OF 1(3,4) this, of room] obtain r' where "poll_round cr room r = Inl r'" "reader_wf r'" "promise cr r' []" by blast
  then show ?case using 1 by (cases y) auto
qed


lemma read_n_all:
  assumes "reader_wf r" and "promise cr r rest" and "0 < room"
  shows "\<exists>n r'. read_n cr room n r = Some (rest, r') \<and> reader_wf r' \<and> promise cr r' []"
  using assms(1,2)
proof (induction "length rest" arbitrary: r rest rule: less_induct)
  case less
  show ?case
  proof (cases "rest = []")
    case True
    then show ?thesis using less.prems by (intro exI [of _ 0] exI [of _ r]) simp
  next
    case False
    obtain bs r' rest' where p: "ss_poll_read cr room r = Some (ReadyBytes bs, r')" "bs \<noteq> []" "rest = bs @ rest'"
      "reader_wf r'" "promise cr r' rest'" using poll_read_ready [OF less.prems False assms(3)] by blast
    obtain n r'' where "read_n cr room n r' = Some (rest', r'')" "reader_wf r''" "promise cr r'' []"
      using less.hyps [of rest' r'] p by auto
    then show ?thesis using p by (intro exI [of _ "Suc n"] exI [of _ r'']) simp
  qed
qed

text \<open>The server's reader delivers the stream, and then hangs: however the bytes of a sequence of sealed chunks are
  cut into reads, and whatever the size of the reader's buffer, a number of reads returns exactly the
  plaintexts in order; and the next read, at the end of the stream, never returns. The chunks may be
  sealed under any nonces, in any order and more than once: the reader takes each chunk's nonce from
  the chunk, so replayed or reordered chunks are accepted.\<close>
theorem ss_reader_delivers:
  assumes "sealed_stream cr c ps (feed es)" and "only_bytes es" and "0 < room"
  shows "\<exists>n r'. read_n cr room n (reader_on c nonce es) = Some (concat (map snd ps), r') \<and> ss_poll_read cr room r' = None"
proof -
  have "reader_wf (reader_on c nonce es)" "promise cr (reader_on c nonce es) (concat (map snd ps))"
    using assms by (auto simp: reader_wf_def reader_on_def promise_def held_def)
  from read_n_all [OF this assms(3)] obtain n r' where "read_n cr room n (reader_on c nonce es) = Some (concat (map snd ps), r')"
    and r: "reader_wf r'" "promise cr r' []" by blast
  moreover have "ss_poll_read cr room r' = None" using poll_read_spins [OF _ r] by (cases "ss_poll_read cr room r'") auto
  ultimately show ?thesis by blast
qed

theorem ss_reader_delivers_witness:
  "\<exists>es n r'. read_n plain_crypto 1 n (reader_on (CtAes128Gcm, []) [] es) = Some ([1, 2, 1, 2], r') \<and> ss_poll_read plain_crypto 1 r' = None"
proof -
  let ?n = "replicate 12 0 :: u8 list" and ?c = "(CtAes128Gcm, []) :: AeadCipher"
  define b where "b = to_be16 30 @ ?n @ [1, 2] @ replicate 16 0"
  have "sealed plain_crypto ?c ?n [1, 2] b" by (simp add: b_def sealed_def decrypt_def plain_crypto_def)
  then have "sealed_stream plain_crypto ?c [(?n, [1, 2]), (?n, [1, 2])] (feed [Bytes b, Bytes b])" by simp blast
  moreover have "b \<noteq> []" by (simp add: b_def)
  ultimately show ?thesis using ss_reader_delivers [of plain_crypto ?c "[(?n, [1, 2]), (?n, [1, 2])]" "[Bytes b, Bytes b]" 1 "[]"] by auto
qed

section \<open>Nonces\<close>

lemma next_nonce_value: "be_value (next_nonce n) = (be_value n + 1) mod 256 ^ length n"
  using inc_bytes_value [of "rev n"] be_value_rev [of "inc_bytes (rev n)"] be_value_rev [of "rev n"] by (simp add: next_nonce_def)

lemma length_next_nonce [simp]: "length (next_nonce n) = length n"
  by (simp add: next_nonce_def)

lemma length_nonces [simp]: "length ((next_nonce ^^ i) n) = length n"
  by (induction i) simp_all

lemma nonces_value: "be_value ((next_nonce ^^ i) n) = (be_value n + i) mod 256 ^ length n"
proof (induction i)
  case 0
  show ?case using be_value_bound [of n] by simp
next
  case (Suc i)
  then show ?case by (simp add: next_nonce_value mod_Suc_eq)
qed

definition nonces :: "u8 list \<Rightarrow> nat \<Rightarrow> u8 list list" where
  "nonces n k = map (\<lambda>i. (next_nonce ^^ i) n) [0..<k]"

lemma nonces_Suc: "nonces n (Suc k) = n # nonces (next_nonce n) k"
  by (simp add: nonces_def upt_conv_Cons map_Suc_upt [symmetric] del: upt_Suc funpow.simps) (simp add: funpow_Suc_right del: funpow.simps)

lemma distinct_nonces:
  assumes "k \<le> 256 ^ length n"
  shows "distinct (nonces n k)"
proof -
  have "i = j" if "i < k" "j < k" "(next_nonce ^^ i) n = (next_nonce ^^ j) n" for i j
  proof -
    have "(be_value n + i) mod 256 ^ length n = (be_value n + j) mod 256 ^ length n"
      using nonces_value [of i n] nonces_value [of j n] that(3) by simp
    then show ?thesis using that assms by (intro mod_shift_inj [of "be_value n" i "256 ^ length n" j]) simp_all
  qed
  then show ?thesis unfolding nonces_def by (simp add: distinct_map inj_on_def)
qed

section \<open>Sending\<close>

text \<open>What the code relies on in the libraries, for the cipher \<open>t\<close>.\<close>

definition crypto_ok :: "ss_crypto \<Rightarrow> CipherType \<Rightarrow> bool" where
  "crypto_ok cr t \<longleftrightarrow> t \<noteq> CtNone \<and> (\<forall>k s n. length (hkdf cr k s n) = n) \<and>
     (\<forall>k. length k = key_size t \<longrightarrow> new_aead cr t k = Ok ()) \<and>
     (\<forall>k n aad p. length k = key_size t \<longrightarrow> length n = nonce_size t \<longrightarrow>
        (\<exists>ct. aead_seal cr t k n aad p = Ok ct \<and> length ct = length p + 16 \<and> aead_open cr t k n aad ct = Ok p))"

lemma plain_crypto_ok: "t \<noteq> CtNone \<Longrightarrow> crypto_ok plain_crypto t"
  by (simp add: crypto_ok_def plain_crypto_def)

definition session_ok :: "ss_crypto \<Rightarrow> SessionCipher \<Rightarrow> bool" where
  "session_ok cr s \<longleftrightarrow> crypto_ok cr (fst (sc_cipher s)) \<and> length (snd (sc_cipher s)) = key_size (fst (sc_cipher s)) \<and>
     length (sc_nonce s) = nonce_size (fst (sc_cipher s))"

lemma nonce_size_le: "nonce_size t \<le> 24" by (cases t) simp_all

lemma encrypt_chunk_ok:
  assumes "session_ok cr s" and "length p \<le> MAX_CHUNK_SIZE"
  shows "\<exists>b. encrypt_chunk cr p s = Ok (b, s\<lparr>sc_nonce := next_nonce (sc_nonce s)\<rparr>) \<and> sealed cr (sc_cipher s) (sc_nonce s) p b"
proof -
  let ?sb = "to_be16 (word_of_nat (length (sc_nonce s) + length p + 16))"
  obtain t k where c: "sc_cipher s = (t, k)" by fastforce
  obtain ct where "aead_seal cr t k (sc_nonce s) ?sb p = Ok ct" "length ct = length p + 16" "aead_open cr t k (sc_nonce s) ?sb ct = Ok p"
    using assms(1) unfolding session_ok_def crypto_ok_def c by (metis fst_conv snd_conv)
  then show ?thesis using assms nonce_size_le [of t]
    by (auto simp: encrypt_chunk_def Let_def sealed_def encrypt_def decrypt_def c session_ok_def MAX_CHUNK_SIZE_def)
qed

lemma send_chunks_sealed:
  assumes "session_ok cr s" and "\<forall>b \<in> set bs. length b \<le> MAX_CHUNK_SIZE"
  shows "\<exists>out s'. send_chunks cr s bs = Ok (out, s') \<and> sealed_stream cr (sc_cipher s) (zip (nonces (sc_nonce s) (length bs)) bs) out"
  using assms
proof (induction bs arbitrary: s)
  case (Cons b bs)
  let ?s = "s\<lparr>sc_nonce := next_nonce (sc_nonce s)\<rparr>"
  have "session_ok cr ?s" using Cons.prems(1) by (simp add: session_ok_def)
  with Cons obtain out s' where "send_chunks cr ?s bs = Ok (out, s')"
    "sealed_stream cr (sc_cipher s) (zip (nonces (next_nonce (sc_nonce s)) (length bs)) bs) out" by fastforce
  moreover obtain x where "encrypt_chunk cr b s = Ok (x, ?s)" "sealed cr (sc_cipher s) (sc_nonce s) b x"
    using encrypt_chunk_ok [of cr s b] Cons.prems by auto
  ultimately show ?case by (auto simp: nonces_Suc)
qed simp

text \<open>Sending: every list of blocks is sealed without an error, each block under its own nonce, the nonces counting up from
  the session's; up to as many chunks as there are nonces (2^96 or 2^192) no nonce is used twice.\<close>
theorem ss_send_chunks:
  assumes "session_ok cr s" and "\<forall>b \<in> set bs. length b \<le> MAX_CHUNK_SIZE" and "length bs \<le> 256 ^ nonce_size (fst (sc_cipher s))"
  shows "\<exists>out s'. send_chunks cr s bs = Ok (out, s') \<and>
    sealed_stream cr (sc_cipher s) (zip (nonces (sc_nonce s) (length bs)) bs) out \<and> distinct (nonces (sc_nonce s) (length bs))"
proof -
  have "distinct (nonces (sc_nonce s) (length bs))"
    using assms(1,3) by (intro distinct_nonces) (simp add: session_ok_def)
  then show ?thesis using send_chunks_sealed [OF assms(1,2)] by blast
qed

theorem ss_send_chunks_witness:
  "\<exists>out s'. send_chunks plain_crypto \<lparr>sc_cipher = (CtAes128Gcm, replicate 16 0), sc_nonce = replicate 12 255\<rparr> [[1], [2]] = Ok (out, s') \<and>
     distinct (nonces (replicate 12 255) 2)"
proof -
  let ?s = "\<lparr>sc_cipher = (CtAes128Gcm, replicate 16 0), sc_nonce = replicate 12 255\<rparr>"
  have "session_ok plain_crypto ?s" by (simp add: session_ok_def plain_crypto_ok)
  from ss_send_chunks [OF this, of "[[1], [2]]"] show ?thesis by (auto simp: MAX_CHUNK_SIZE_def numeral_2_eq_2)
qed

lemma recv_sealed:
  assumes "sealed_stream cr (sc_cipher s) (zip (nonces (sc_nonce s) (length bs)) bs) out" and "length (sc_nonce s) = nonce_size (fst (sc_cipher s))"
  shows "recv_chunks cr s e out = (concat bs, Err (''ss outbound: read chunk size: '' @ e))"
  using assms
proof (induction bs arbitrary: s out)
  case Nil
  then show ?case by (subst recv_chunks.simps) simp
next
  case (Cons b bs)
  let ?l = "length (sc_nonce s) + length b + 16"
  obtain ct w' where o': "out = to_be16 (word_of_nat ?l) @ sc_nonce s @ ct @ w'" and l: "length ct = length b + 16" "?l \<le> 65535"
    and d: "decrypt cr (sc_cipher s) (sc_nonce s) ct (to_be16 (word_of_nat ?l)) = Ok b"
    and w: "sealed_stream cr (sc_cipher s) (zip (nonces (next_nonce (sc_nonce s)) (length bs)) bs) w'"
    using Cons.prems(1) by (auto simp: nonces_Suc sealed_def)
  have IH: "recv_chunks cr (s\<lparr>sc_nonce := next_nonce (sc_nonce s)\<rparr>) e w' = (concat bs, Err (''ss outbound: read chunk size: '' @ e))"
    using Cons.IH [of "s\<lparr>sc_nonce := next_nonce (sc_nonce s)\<rparr>" w'] w Cons.prems(2) by simp
  have t: "take 2 out = to_be16 (word_of_nat ?l)" and dr: "drop 2 out = sc_nonce s @ ct @ w'" by (simp_all add: o')
  have u: "unat (from_be16 (take 2 out)) = ?l" using unat_u16 [OF l(2)] by (simp only: t from_to_be16)
  have c: "take ?l (drop 2 out) = sc_nonce s @ ct" "drop (2 + ?l) out = w'" using l(1) by (simp_all add: dr o')
  have "recv_chunks cr s e out =
      (let (x, r) = recv_chunks cr (s\<lparr>sc_nonce := next_nonce (sc_nonce s)\<rparr>) e w' in (b @ x, r))"
    using d u c Cons.prems(2) l(1) by (subst recv_chunks.simps) (simp add: Let_def decrypt_chunk_def t o')
  then show ?case using IH by simp
qed

section \<open>Client and server together\<close>

definition session_cipher :: "ss_crypto \<Rightarrow> CipherType \<Rightarrow> u8 list \<Rightarrow> u8 list \<Rightarrow> SessionCipher" where
  "session_cipher cr t key iv = \<lparr>sc_cipher = (t, hkdf cr key iv (key_size t)), sc_nonce = replicate (nonce_size t) 0\<rparr>"

lemma create_authenticator_ok:
  "crypto_ok cr t \<Longrightarrow> create_authenticator cr t key iv = Ok ((t, hkdf cr key iv (key_size t)), replicate (nonce_size t) 0)"
  by (simp add: create_authenticator_def create_aead_def crypto_ok_def)

lemma SessionCipher_new_ok: "crypto_ok cr t \<Longrightarrow> SessionCipher_new cr t key iv = Ok (session_cipher cr t key iv)"
  by (simp add: SessionCipher_new_def create_authenticator_ok session_cipher_def)

lemma session_cipher_ok: "crypto_ok cr t \<Longrightarrow> session_ok cr (session_cipher cr t key iv)"
  by (simp add: session_ok_def session_cipher_def crypto_ok_def)

lemma ss_fmt_ok [simp]: "fmt_ok ss_fmt" "fmt_ok ss_udp_fmt"
  by (simp_all add: fmt_ok_def ss_fmt_def ss_udp_fmt_def strict_text_valid lossy_text_valid)

lemma ss_write_address_fits: "addr_fits a \<Longrightarrow> ss_write_address a = Ok (addr_tag ss_fmt a # addr_body a)"
  by (cases a) (simp_all add: ss_fmt_def)

lemma ss_read_write_address:
  assumes "addr_fits a"
  shows "ss_read_address ((addr_tag ss_fmt a # addr_body a) @ to_be16 p) = Ok (TcpDestination a (Port p), 3 + length (addr_body a))"
proof -
  have "be16_at (1 + length (addr_body a)) ((addr_tag ss_fmt a # addr_body a) @ to_be16 p @ []) = p" by (rule be16_at_append) simp
  then show ?thesis using take_addr_body [of ss_fmt a "[addr_tag ss_fmt a]" "to_be16 p"] assms
    by (simp add: ss_read_address_def)
qed

lemma read_sealed_session:
  assumes "crypto_ok cr t" and "addr_fits a" and "length n = nonce_size t"
    and "sealed cr (t, hkdf cr key iv (key_size t)) n ((addr_tag ss_fmt a # addr_body a) @ to_be16 p) b"
  shows "read_tcp_session cr t key iv (open_conn (b @ r) e w) =
    (Ok (TcpDestination a (Port p), (t, hkdf cr key iv (key_size t)), next_nonce (replicate (nonce_size t) 0)), open_conn r e w)"
proof -
  define pt where "pt = (addr_tag ss_fmt a # addr_body a) @ to_be16 p"
  define sb where "sb = to_be16 (word_of_nat (length n + length pt + 16))"
  let ?c = "(t, hkdf cr key iv (key_size t))"
  obtain ct where b: "b = sb @ (n @ ct)" and l: "length ct = length pt + 16" "length n + length pt + 16 \<le> 65535"
    and d: "decrypt cr ?c n ct sb = Ok pt" using assms(4) unfolding pt_def [symmetric] by (auto simp: sealed_def sb_def)
  have u: "unat (from_be16 sb) = length (n @ ct)" using unat_u16 [OF l(2)] l(1) unfolding sb_def by (simp only: from_to_be16) simp
  have r1: "cread m 2 (open_conn (b @ r) e w) = (Ok sb, open_conn ((n @ ct) @ r) e w)" for m
    using cread_app [of sb 2 m "(n @ ct) @ r" e w] by (simp add: b sb_def)
  have r2: "cread m (length (n @ ct)) (open_conn ((n @ ct) @ r) e w) = (Ok (n @ ct), open_conn r e w)" for m
    by (rule cread_app) simp
  have "ss_read_address pt = Ok (TcpDestination a (Port p), 3 + length (addr_body a))"
    using ss_read_write_address [OF assms(2), of p] by (simp add: pt_def)
  moreover have "\<not> length (n @ ct) < nonce_size t" using assms(3) by simp
  ultimately show ?thesis
    using d assms(3) unfolding read_tcp_session_def
    by (simp add: create_authenticator_ok [OF assms(1)] cbind_def clift_def r1 u r2 cret_def del: append_assoc length_append)
qed

lemma read_sealed_blocks:
  assumes "sealed_stream cr c (zip (nonces m (length bs)) bs) out" and "feed es = out" and "only_bytes es" and "0 < room"
  shows "\<exists>k r'. read_n cr room k (reader_on c n es) = Some (concat bs, r')"
proof -
  have m: "map snd (zip (nonces m (length bs)) bs) = bs" by (simp add: nonces_def)
  have "promise cr (reader_on c n es) (concat bs)"
    unfolding promise_def using assms(1,2) m
    by (intro exI [of _ "zip (nonces m (length bs)) bs"]) (simp add: reader_on_def held_def)
  moreover have "reader_wf (reader_on c n es)" using assms(3) by (simp add: reader_wf_def reader_on_def)
  ultimately show ?thesis using read_n_all [OF _ _ assms(4)] by blast
qed

text \<open>C3. Client and server together: for every cipher, salt and account, every target over TCP that a header can carry and
  all blocks of data, the client's handshake and its chunks make the server (whose first user has
  that account) dispatch a session for exactly that target and then read exactly the data, however
  the network cuts the bytes; and each side ends with the cipher of the way back.\<close>
theorem ss_end_to_end:
  assumes "crypto_ok cr t" and "length iv = iv_size t" and "length resp_iv = iv_size t"
    and "outbound session = Some ob" and "addr_fits (address (ob_target ob))" and "network (ob_target ob) = Tcp"
    and "\<forall>b \<in> set bs. length b \<le> MAX_CHUNK_SIZE"
    and "ss_cipher_type acc = t" and "ss_key acc = key"
  shows "\<exists>first enc out s' c n.
    ss_outbound cr iv \<lparr>sc_server = srv, sc_port = sp, sc_account = acc\<rparr> session (open_conn (resp_iv @ back) e []) =
      (Ok (enc, session_cipher cr t key resp_iv), open_conn back e (iv @ first)) \<and>
    send_chunks cr enc bs = Ok (out, s') \<and>
    ss_inbound cr resp_iv (Ok ()) \<lparr>ss_users = acc # us, ss_network = nets\<rparr> (open_conn (iv @ first @ out) e []) =
      (Ok (ss_session (ob_target ob), ob_target ob, (c, n), session_cipher cr t key resp_iv), open_conn out e resp_iv) \<and>
    (\<forall>es room. feed es = out \<and> only_bytes es \<and> 0 < room \<longrightarrow>
      (\<exists>k r'. read_n cr room k (reader_on c n es) = Some (concat bs, r')))"
proof -
  define a where "a = address (ob_target ob)"
  define p where "p = port_value (port (ob_target ob))"
  define s where "s = session_cipher cr t key iv"
  define enc where "enc = s\<lparr>sc_nonce := next_nonce (sc_nonce s)\<rparr>"
  let ?pt = "(addr_tag ss_fmt a # addr_body a) @ to_be16 p"
  have so: "session_ok cr s" unfolding s_def by (rule session_cipher_ok [OF assms(1)])
  have sc: "sc_cipher s = (t, hkdf cr key iv (key_size t))" "sc_nonce s = replicate (nonce_size t) 0" by (simp_all add: s_def session_cipher_def)
  have "length ?pt \<le> MAX_CHUNK_SIZE" using assms(5) by (cases a) (auto simp: MAX_CHUNK_SIZE_def a_def)
  from encrypt_chunk_ok [OF so this] obtain first where f: "encrypt_chunk cr ?pt s = Ok (first, enc)" "sealed cr (sc_cipher s) (sc_nonce s) ?pt first"
    unfolding enc_def by blast
  have ef: "encrypt_first_chunk cr a p s = Ok (first, enc)"
    using f(1) ss_write_address_fits [of a] assms(5) by (simp add: encrypt_first_chunk_def a_def)
  have d: "TcpDestination a (Port p) = ob_target ob"
    using assms(6) by (cases "ob_target ob"; cases "port (ob_target ob)") (simp add: a_def p_def TcpDestination_def)
  have eo: "session_ok cr enc" using so by (simp add: session_ok_def enc_def)
  obtain out s' where o': "send_chunks cr enc bs = Ok (out, s')" "sealed_stream cr (sc_cipher enc) (zip (nonces (sc_nonce enc) (length bs)) bs) out"
    using send_chunks_sealed [OF eo assms(7)] by blast
  have c1: "ss_outbound cr iv \<lparr>sc_server = srv, sc_port = sp, sc_account = acc\<rparr> session (open_conn (resp_iv @ back) e []) =
      (Ok (enc, session_cipher cr t key resp_iv), open_conn back e (iv @ first))"
    using ef assms(3,4) by (simp add: ss_outbound_def assms(8,9) Let_def SessionCipher_new_ok [OF assms(1)] cbind_def cio a_def p_def s_def)
  have rs: "read_tcp_session cr t key iv (open_conn (first @ out) e []) =
      (Ok (ob_target ob, sc_cipher s, next_nonce (replicate (nonce_size t) 0)), open_conn out e [])"
    using read_sealed_session [OF assms(1), of a "sc_nonce s" key iv p first out e "[]"] f(2) assms(5) d sc by (simp add: a_def)
  have c2: "ss_inbound cr resp_iv (Ok ()) \<lparr>ss_users = acc # us, ss_network = nets\<rparr> (open_conn (iv @ first @ out) e []) =
      (Ok (ss_session (ob_target ob), ob_target ob, (sc_cipher s, next_nonce (replicate (nonce_size t) 0)), session_cipher cr t key resp_iv),
       open_conn out e resp_iv)"
    using rs assms(2) by (simp add: ss_inbound_def assms(8,9) cbind_def cio cmap_err_def SessionCipher_new_ok [OF assms(1)])
  have ec: "sc_cipher enc = sc_cipher s" by (simp add: enc_def)
  have c3: "\<exists>k r'. read_n cr room k (reader_on (sc_cipher s) n es) = Some (concat bs, r')"
    if "feed es = out" "only_bytes es" "0 < room" for es room n
    using read_sealed_blocks [OF o'(2) that] unfolding ec .
  show ?thesis
    by (rule exI [of _ first], rule exI [of _ enc], rule exI [of _ out], rule exI [of _ s'], rule exI [of _ "sc_cipher s"],
        rule exI [of _ "next_nonce (replicate (nonce_size t) 0)"]) (use c1 c2 c3 o'(1) in blast)
qed

theorem ss_end_to_end_witness:
  "\<exists>session c n out. fst (ss_inbound plain_crypto (replicate 16 0) (Ok ())
      \<lparr>ss_users = [\<lparr>ss_cipher_type = CtAes128Gcm, ss_password = [], ss_key = []\<rparr>], ss_network = []\<rparr> (open_conn (replicate 16 7 @ out) [] [])) =
      Ok (session, TcpDestination (Ipv4 [1, 2, 3, 4]) (Port 80), (c, n), session_cipher plain_crypto CtAes128Gcm [] (replicate 16 0))"
proof -
  let ?d = "TcpDestination (Ipv4 [1, 2, 3, 4]) (Port 80)"
  let ?ob = "\<lparr>ob_target = ?d, original_target = ?d, route_target = None, ob_tag = []\<rparr>"
  let ?acc = "\<lparr>ss_cipher_type = CtAes128Gcm, ss_password = [], ss_key = []\<rparr>"
  have p: "crypto_ok plain_crypto CtAes128Gcm" "length (replicate 16 7) = iv_size CtAes128Gcm" "length (replicate 16 0) = iv_size CtAes128Gcm"
    "outbound \<lparr>inbound = None, outbound = Some ?ob, content = None\<rparr> = Some ?ob" "addr_fits (address (ob_target ?ob))"
    "network (ob_target ?ob) = Tcp" "\<forall>b \<in> set [[5]]. length b \<le> MAX_CHUNK_SIZE" "ss_cipher_type ?acc = CtAes128Gcm" "ss_key ?acc = []"
    by (simp_all add: plain_crypto_ok iv_size_def TcpDestination_def MAX_CHUNK_SIZE_def)
  from ss_end_to_end [OF p, of "[]" 0 "[]" "[]" "[]" "[]"] show ?thesis
    by (elim exE conjE) (rule exI, rule exI, rule exI, rule exI, erule arg_cong [where f = fst, THEN trans], simp)
qed

text \<open>A chunk shorter than a nonce panics: anybody who sends a salt, a length below the nonce size and that many bytes
  crashes the task of the connection, without knowing the key.\<close>
theorem ss_short_chunk_panics:
  assumes "crypto_ok cr (ss_cipher_type u)" and "length iv = iv_size (ss_cipher_type u)"
    and "length junk < nonce_size (ss_cipher_type u)"
  shows "fst (ss_inbound cr resp_iv dispatched \<lparr>ss_users = u # us, ss_network = nets\<rparr>
    (open_conn (iv @ to_be16 (word_of_nat (length junk)) @ junk @ r) e [])) = Panic"
proof -
  let ?sb = "to_be16 (word_of_nat (length junk))"
  have "length junk \<le> 65535" using assms(3) nonce_size_le [of "ss_cipher_type u"] by simp
  then have n: "unat (from_be16 ?sb) = length junk" by (simp add: unat_u16)
  have r1: "cread m 2 (open_conn (?sb @ junk @ r) e w) = (Ok ?sb, open_conn (junk @ r) e w)" for m w by (rule cread_app) simp
  have r2: "cread m (length junk) (open_conn (junk @ r) e w) = (Ok junk, open_conn r e w)" for m w by (rule cread_app) simp
  have "fst (read_tcp_session cr (ss_cipher_type u) (ss_key u) iv (open_conn (?sb @ junk @ r) e [])) = Panic"
    using assms(3) n by (simp add: read_tcp_session_def create_authenticator_ok [OF assms(1)] cbind_def clift_def r1 r2)
  then show ?thesis using assms(2)
    by (simp add: ss_inbound_def cbind_def cio cmap_err_def split: prod.split)
qed

theorem ss_short_chunk_panics_witness:
  "fst (ss_inbound plain_crypto [] (Ok ()) \<lparr>ss_users = [\<lparr>ss_cipher_type = CtAes128Gcm, ss_password = [], ss_key = []\<rparr>], ss_network = []\<rparr>
     (open_conn (replicate 16 0 @ to_be16 1 @ [9]) [] [])) = Panic"
  using ss_short_chunk_panics [of plain_crypto "\<lparr>ss_cipher_type = CtAes128Gcm, ss_password = [], ss_key = []\<rparr>" "replicate 16 0" "[9]" "[]" "Ok ()" "[]" "[]" "[]" "[]"]
  by (simp add: plain_crypto_ok iv_size_def)

section \<open>Keys and datagrams\<close>

lemma password_to_key_total:
  assumes "\<And>x. length (md5_sum cr x) = 16"
  shows "\<exists>k. password_to_key cr password n = Some k \<and> length k = n"
proof -
  have "\<exists>k. extend_key cr password n s key = Some k \<and> length k = n" for s key
  proof (induction "n - length key" arbitrary: s key rule: less_induct)
    case less
    show ?case
    proof (cases "length key < n")
      case True
      let ?s = "md5_sum cr (s @ password)"
      have "n - length (key @ ?s) < n - length key" using True assms by simp
      from less [OF this, of ?s] show ?thesis using True by (subst extend_key.simps) (simp add: Let_def)
    qed (subst extend_key.simps, simp)
  qed
  then show ?thesis by (simp add: password_to_key_def Let_def)
qed

lemma ss_udp_roundtrip:
  assumes "addr_fits a"
  shows "ss_decode_udp_packet (ss_encode_udp_packet a p payload) = Ok (a, p, payload)"
proof -
  have t: "addr_tag ss_udp_fmt a = addr_tag ss_fmt a" by (cases a) (simp_all add: ss_udp_fmt_def)
  have e: "ss_encode_udp_packet a p payload = [addr_tag ss_fmt a] @ addr_body a @ (to_be16 p @ payload)"
    by (cases a) (simp_all add: ss_fmt_def)
  have "be16_at (1 + length (addr_body a)) (([addr_tag ss_fmt a] @ addr_body a) @ to_be16 p @ payload) = p" by (rule be16_at_append) simp
  then show ?thesis using take_addr_body [of ss_udp_fmt a "[addr_tag ss_fmt a]" "to_be16 p @ payload"] assms
    by (simp add: ss_decode_udp_packet_def e t)
qed

end
