(* ===== verification/Ss_2022.thy ===== *)
theory Ss_2022
  imports Shadowsocks
begin

text \<open>
  \<^verbatim>\<open>astra-core-proxy-shadowsocks-2022\<close>: the chunk stream, datagrams, the codes of targets, and the handlers up to the loops behind their handshake. The digests, the
  ciphers and the block cipher of the datagram header are arguments; what the theorems need of them is \<open>s22_ok\<close>. Random bytes are arguments of the operations that draw them.
\<close>

section \<open>Ciphers and keys (protocol.rs)\<close>

datatype S22Cipher = S22Aes128Gcm | S22Aes256Gcm | S22XChaCha20Poly1305

definition s22_from_str :: "string \<Rightarrow> S22Cipher option" where
  "s22_from_str s =
     (if s = ''2022-blake3-aes-128-gcm'' then Some S22Aes128Gcm
      else if s = ''2022-blake3-aes-256-gcm'' then Some S22Aes256Gcm
      else if s = ''2022-blake3-chacha20-poly1305'' then Some S22XChaCha20Poly1305 else None)"

fun s22_key_size :: "S22Cipher \<Rightarrow> nat" where
  "s22_key_size S22Aes128Gcm = 16"
| "s22_key_size _ = 32"

fun s22_nonce_size :: "S22Cipher \<Rightarrow> nat" where
  "s22_nonce_size S22XChaCha20Poly1305 = 24"
| "s22_nonce_size _ = 12"

fun s22_salt_size :: "S22Cipher \<Rightarrow> nat" where
  "s22_salt_size S22Aes128Gcm = 16"
| "s22_salt_size _ = 32"

definition TAG :: nat where "TAG = 16"
definition MAX_PKT :: nat where "MAX_PKT = 16383"

text \<open>The library calls; the constructors of the ciphers refuse keys of the wrong length.\<close>

record s22_crypto =
  s22_sha256 :: "u8 list \<Rightarrow> u8 list"
  s22_blake3 :: "string \<Rightarrow> u8 list \<Rightarrow> u8 list"
  s22_bad_key :: string
  s22_seal :: "S22Cipher \<Rightarrow> u8 list \<Rightarrow> u8 list \<Rightarrow> u8 list \<Rightarrow> (string, u8 list) res"
  s22_open :: "S22Cipher \<Rightarrow> u8 list \<Rightarrow> u8 list \<Rightarrow> u8 list \<Rightarrow> (string, u8 list) res"
  s22_block_enc :: "u8 list \<Rightarrow> u8 list \<Rightarrow> u8 list"
  s22_block_dec :: "u8 list \<Rightarrow> u8 list \<Rightarrow> u8 list"

definition slice_to :: "nat \<Rightarrow> u8 list \<Rightarrow> (string, u8 list) res" where
  "slice_to n bs = (if length bs < n then Panic else Ok (take n bs))"

definition derive_master_key :: "s22_crypto \<Rightarrow> u8 list \<Rightarrow> nat \<Rightarrow> (string, u8 list) res" where
  "derive_master_key cr psk n = slice_to n (s22_sha256 cr psk)"

definition derive_session_key :: "s22_crypto \<Rightarrow> u8 list \<Rightarrow> u8 list \<Rightarrow> nat \<Rightarrow> (string, u8 list) res" where
  "derive_session_key cr psk salt n = slice_to n (s22_blake3 cr ''shadowsocks 2022 session subkey'' (psk @ salt))"

fun cipher_word :: "S22Cipher \<Rightarrow> string" where
  "cipher_word S22XChaCha20Poly1305 = ''xchacha''"
| "cipher_word _ = ''aes''"

definition s22_aead_encrypt :: "s22_crypto \<Rightarrow> S22Cipher \<Rightarrow> u8 list \<Rightarrow> u8 list \<Rightarrow> u8 list \<Rightarrow> (string, u8 list) res" where
  "s22_aead_encrypt cr c key nonce data =
     (if length key \<noteq> s22_key_size c then Err (''key: '' @ s22_bad_key cr)
      else if length nonce \<noteq> s22_nonce_size c then Panic
      else map_err (\<lambda>e. cipher_word c @ '' encrypt: '' @ e) (s22_seal cr c key nonce data))"

definition s22_aead_decrypt :: "s22_crypto \<Rightarrow> S22Cipher \<Rightarrow> u8 list \<Rightarrow> u8 list \<Rightarrow> u8 list \<Rightarrow> (string, u8 list) res" where
  "s22_aead_decrypt cr c key nonce data =
     (if length key \<noteq> s22_key_size c then Err (''key: '' @ s22_bad_key cr)
      else if length nonce \<noteq> s22_nonce_size c then Panic
      else map_err (\<lambda>e. cipher_word c @ '' decrypt: '' @ e) (s22_open cr c key nonce data))"

definition s22_inc_nonce :: "u8 list \<Rightarrow> u8 list" where
  "s22_inc_nonce n = next_nonce n"

section \<open>Chunks (protocol.rs)\<close>

definition s22_write_chunk :: "s22_crypto \<Rightarrow> S22Cipher \<Rightarrow> u8 list \<Rightarrow> u8 list \<Rightarrow> u8 list \<Rightarrow> u8 list cio" where
  "s22_write_chunk cr c key nonce data =
     cbind (clift (s22_aead_encrypt cr c key nonce (to_be16 (word_of_nat (length data))))) (\<lambda>len_ct.
     cbind (clift (s22_aead_encrypt cr c key (s22_inc_nonce nonce) data)) (\<lambda>payload_ct.
     cbind (cwrite [] len_ct) (\<lambda>_.
     cbind (cwrite [] payload_ct) (\<lambda>_. cret (s22_inc_nonce (s22_inc_nonce nonce))))))"

text \<open>A chunk and the nonce behind it; \<^term>\<open>None\<close> when the stream ends before the length is complete.\<close>

definition s22_read_chunk :: "s22_crypto \<Rightarrow> S22Cipher \<Rightarrow> u8 list \<Rightarrow> u8 list \<Rightarrow> (u8 list \<times> u8 list) option cio" where
  "s22_read_chunk cr c key nonce conn =
     (case cread [] (2 + TAG) conn of
        (Ok len_enc, conn) \<Rightarrow>
          cbind (clift (s22_aead_decrypt cr c key nonce len_enc)) (\<lambda>len_pt.
            if length len_pt < 2 then clift Panic
            else let payload_len = unat (from_be16 (take 2 len_pt)) in
              if payload_len = 0 \<or> MAX_PKT < payload_len then cerr ''bad len''
              else
                cbind (cread [] (payload_len + TAG)) (\<lambda>payload_enc.
                cbind (clift (s22_aead_decrypt cr c key (s22_inc_nonce nonce) payload_enc)) (\<lambda>payload.
                  cret (Some (payload, s22_inc_nonce (s22_inc_nonce nonce)))))) conn
      | (_, conn) \<Rightarrow> (Ok None, conn))"

section \<open>Datagrams (protocol.rs)\<close>

definition aes_ecb_encrypt :: "s22_crypto \<Rightarrow> u8 list \<Rightarrow> u8 list \<Rightarrow> u8 list" where
  "aes_ecb_encrypt cr key block = (if length key = 16 then s22_block_enc cr key block else block)"

definition aes_ecb_decrypt :: "s22_crypto \<Rightarrow> u8 list \<Rightarrow> u8 list \<Rightarrow> u8 list" where
  "aes_ecb_decrypt cr key block = (if length key = 16 then s22_block_dec cr key block else block)"

definition encrypt_udp :: "s22_crypto \<Rightarrow> u8 list \<Rightarrow> S22Cipher \<Rightarrow> u8 list \<Rightarrow> u8 list \<Rightarrow> u8 list \<Rightarrow> u8 list \<Rightarrow> (string, u8 list) res" where
  "encrypt_udp cr random c key session_id pkt_id data =
     (if c = S22XChaCha20Poly1305 then rbind (s22_aead_encrypt cr c key random data) (\<lambda>ct. Ok (random @ ct))
      else if length session_id < 8 \<or> length pkt_id < 8 then Panic
      else
        let header = take 8 session_id @ take 8 pkt_id in
        rbind (derive_session_key cr key (take 8 header) (s22_key_size c)) (\<lambda>sk.
        rbind (s22_aead_encrypt cr c sk (replicate 12 0) data) (\<lambda>ct. Ok (aes_ecb_encrypt cr (take 16 key) header @ ct))))"

definition decrypt_udp :: "s22_crypto \<Rightarrow> S22Cipher \<Rightarrow> u8 list \<Rightarrow> u8 list \<Rightarrow> (string, u8 list \<times> u8 list) res" where
  "decrypt_udp cr c key data =
     (if c = S22XChaCha20Poly1305 then
        if length data < 24 + TAG then Err ''short''
        else rbind (s22_aead_decrypt cr c key (take 24 data) (drop 24 data)) (\<lambda>pt. Ok ([], pt))
      else if length data < 16 + TAG then Err ''short''
      else
        let header = aes_ecb_decrypt cr (take 16 key) (take 16 data) in
        rbind (derive_session_key cr key (take 8 header) (s22_key_size c)) (\<lambda>sk.
        rbind (s22_aead_decrypt cr c sk (replicate 12 0) (drop 16 data)) (\<lambda>pt. Ok (take 8 (drop 8 header), pt))))"

section \<open>Targets (protocol.rs, inbound.rs)\<close>

fun s22_encode_target :: "Address \<Rightarrow> u16 \<Rightarrow> u8 list" where
  "s22_encode_target (Ipv4 ip) p = 1 # ip @ to_be16 p"
| "s22_encode_target (Domain_a d) p = 2 # word_of_nat (length d) # as_bytes d @ to_be16 p"
| "s22_encode_target (Ipv6 ip) p = 3 # ip @ to_be16 p"

definition s22_decode_target :: "u8 list \<Rightarrow> (string, Address \<times> u16) res" where
  "s22_decode_target data =
     (if data = [] then Err ''empty''
      else if data ! 0 = 1 then
        if length data < 7 then Err ''short ipv4'' else Ok (Ipv4 (take 4 (drop 1 data)), be16_at 5 data)
      else if data ! 0 = 2 then
        if length data < 2 then Err ''short domain''
        else let dlen = unat (data ! 1) in
          if length data < 2 + dlen + 2 then Err ''short domain''
          else if \<not> valid_utf8 (take dlen (drop 2 data)) then Err ''bad domain''
          else Ok (Domain_a (of_bytes (take dlen (drop 2 data))), be16_at (2 + dlen) data)
      else if data ! 0 = 3 then
        if length data < 18 then Err ''short ipv6''
        else if length data < 19 then Panic
        else Ok (Ipv6 (take 16 (drop 1 data)), be16_at 17 data)
      else Err (''bad atyp: '' @ show_nat (unat (data ! 0))))"

definition s22_take_address :: "u8 list \<Rightarrow> (string, Address \<times> nat) res" where
  "s22_take_address data =
     (if data ! 0 = 1 then
        if length data < 5 then Err ''short ipv4 target'' else Ok (Ipv4 (take 4 (drop 1 data)), 5)
      else if data ! 0 = 3 then
        if length data < 2 then Err ''short domain target''
        else let dlen = unat (data ! 1) in
          if length data < 2 + dlen + 2 then Err ''short domain target''
          else if \<not> valid_utf8 (take dlen (drop 2 data)) then Err ''invalid domain utf8''
          else Ok (Domain_a (of_bytes (take dlen (drop 2 data))), 2 + dlen + 2)
      else if data ! 0 = 4 then
        if length data < 17 then Err ''short ipv6 target'' else Ok (Ipv6 (take 16 (drop 1 data)), 17)
      else Err (''unknown address type: '' @ show_nat (unat (data ! 0))))"

definition parse_target_from_bytes :: "u8 list \<Rightarrow> (string, Destination) res" where
  "parse_target_from_bytes data =
     (if data = [] then Err ''empty target''
      else rbind (s22_take_address data) (\<lambda>(a, consumed).
        if length data < consumed then Err ''missing port'' else Ok (TcpDestination a (Port (be16_at (consumed - 2) data)))))"

definition socks5_addr_len :: "u8 list \<Rightarrow> nat" where
  "socks5_addr_len data =
     (if data = [] then 0
      else if data ! 0 = 1 then 7
      else if data ! 0 = 3 then if length data < 2 then 1 else 1 + 1 + unat (data ! 1) + 2
      else if data ! 0 = 4 then 19 else length data)"

section \<open>The handlers (inbound.rs, outbound.rs)\<close>

text \<open>The loop towards the target: every chunk that opens is written, until the stream ends or one does not open. The bytes written come out, and whether the loop panicked.\<close>

lemma read_chunk_shrinks:
  assumes "s22_read_chunk cr c key nonce conn = (Ok (Some r), conn')"
  shows "length (inp conn') < length (inp conn)"
  using assms by (auto simp: s22_read_chunk_def cread_def cbind_def clift_def cret_def cerr_def Let_def TAG_def split: if_splits res.splits prod.splits)

function s22_to_remote :: "s22_crypto \<Rightarrow> S22Cipher \<Rightarrow> u8 list \<Rightarrow> u8 list \<Rightarrow> conn \<Rightarrow> u8 list \<times> bool" where
  "s22_to_remote cr c key nonce conn =
     (case s22_read_chunk cr c key nonce conn of
        (Ok (Some (d, nonce)), conn) \<Rightarrow> (case s22_to_remote cr c key nonce conn of (rest, p) \<Rightarrow> (d @ rest, p))
      | (Panic, _) \<Rightarrow> ([], True) | _ \<Rightarrow> ([], False))"
  by pat_completeness auto
termination
  by (relation "measure (\<lambda>(_, _, _, _, conn). length (inp conn))") (auto dest: read_chunk_shrinks [OF sym])

declare s22_to_remote.simps [simp del]

text \<open>A handler with the text of its errors: the target and session it dispatches, and the bytes that reach the link from the client.\<close>

definition s22_serve ::
  "s22_crypto \<Rightarrow> string \<Rightarrow> string \<Rightarrow> string \<Rightarrow> S22Cipher \<Rightarrow> u8 list \<Rightarrow> Session \<Rightarrow> (string, unit) res \<Rightarrow> (Session \<times> Destination \<times> u8 list \<times> bool) cio" where
  "s22_serve cr m_read m_closed m_empty c key session dispatched =
     cbind (\<lambda>conn. case s22_read_chunk cr c key (replicate (s22_nonce_size c) 0) conn of (r, conn) \<Rightarrow> (map_err (\<lambda>e. m_read @ e) r, conn)) (\<lambda>r.
     cbind (clift (ok_or m_closed r)) (\<lambda>(first_chunk, nonce).
       if first_chunk = [] then cerr m_empty
       else
         cbind (clift (parse_target_from_bytes first_chunk)) (\<lambda>target.
         cbind (clift dispatched) (\<lambda>_ conn.
           case s22_to_remote cr c key nonce conn of (rest, p) \<Rightarrow>
             (Ok (with_target target session, target, drop (socks5_addr_len first_chunk) first_chunk @ rest, p), conn)))))"

definition s22_inbound where
  "s22_inbound cr = s22_serve cr ''ss2022 read first chunk: '' ''ss2022: connection closed'' ''ss2022: empty first chunk''"

record RelayDestination =
  rd_key :: "u8 list"
  rd_address :: string
  rd_port :: u16
  rd_email :: string

definition relay_inbound where
  "relay_inbound cr c (dests :: RelayDestination list) =
     s22_serve cr ''ss2022 relay: read chunk: '' ''ss2022 relay: connection closed'' ''ss2022 relay: empty first chunk'' c
       (case dests of [] \<Rightarrow> [] | d # _ \<Rightarrow> rd_key d)"

fun try_each_key :: "RelayDestination list \<Rightarrow> u8 list \<Rightarrow> (RelayDestination \<times> u8 list) option" where
  "try_each_key [] data = None"
| "try_each_key (d # ds) data =
     (case parse_target_from_bytes data of
        Ok t \<Rightarrow> if 0 < port_value (port t) then Some (d, data) else try_each_key ds data
      | _ \<Rightarrow> try_each_key ds data)"

text \<open>The client's loops copy the blocks they read as they are, in both directions; datagrams are refused.\<close>

fun s22_outbound_copy :: "(string, u8 list) res list \<Rightarrow> u8 list" where
  "s22_outbound_copy [] = []"
| "s22_outbound_copy (Ok b # bs) = (if b = [] then [] else b @ s22_outbound_copy bs)"
| "s22_outbound_copy (_ # bs) = []"

definition s22_outbound_udp :: "(string, unit) res" where
  "s22_outbound_udp = Err ''ss2022 udp not implemented''"

text \<open>A client that sends blocks as chunks, and an instance of the arguments.\<close>

fun s22_write_chunks :: "s22_crypto \<Rightarrow> S22Cipher \<Rightarrow> u8 list \<Rightarrow> u8 list \<Rightarrow> u8 list list \<Rightarrow> u8 list cio" where
  "s22_write_chunks cr c key nonce [] = cret nonce"
| "s22_write_chunks cr c key nonce (b # bs) = cbind (s22_write_chunk cr c key nonce b) (\<lambda>nonce. s22_write_chunks cr c key nonce bs)"

definition s22_plain :: s22_crypto where
  "s22_plain =
     \<lparr>s22_sha256 = (\<lambda>_. replicate 32 0), s22_blake3 = (\<lambda>_ _. replicate 32 0), s22_bad_key = ''Invalid Length'',
      s22_seal = (\<lambda>_ _ _ p. Ok (p @ replicate 16 0)), s22_open = (\<lambda>_ _ _ ct. Ok (take (length ct - 16) ct)),
      s22_block_enc = (\<lambda>_ b. b), s22_block_dec = (\<lambda>_ b. b)\<rparr>"

text \<open>What the ciphers promise: what is sealed opens under the same key and nonce, and has a tag of 16 bytes; the digest has 32 bytes; the block cipher is inverted.\<close>

definition s22_ok :: "s22_crypto \<Rightarrow> bool" where
  "s22_ok cr \<longleftrightarrow>
     (\<forall>c key nonce p. length key = s22_key_size c \<and> length nonce = s22_nonce_size c \<longrightarrow>
       (\<exists>ct. s22_seal cr c key nonce p = Ok ct \<and> length ct = length p + 16 \<and> s22_open cr c key nonce ct = Ok p)) \<and>
     (\<forall>ctx x. length (s22_blake3 cr ctx x) = 32) \<and>
     (\<forall>k b. length k = 16 \<and> length b = 16 \<longrightarrow> length (s22_block_enc cr k b) = 16 \<and> s22_block_dec cr k (s22_block_enc cr k b) = b)"

lemma s22_plain_ok: "s22_ok s22_plain"
  by (simp add: s22_ok_def s22_plain_def)

section \<open>The chunk stream\<close>

lemma s22_sealed:
  assumes "s22_ok cr" and "length key = s22_key_size c" and "length nonce = s22_nonce_size c"
  obtains ct where "s22_aead_encrypt cr c key nonce p = Ok ct" "length ct = length p + 16" "s22_aead_decrypt cr c key nonce ct = Ok p"
proof -
  obtain ct where "s22_seal cr c key nonce p = Ok ct" "length ct = length p + 16" "s22_open cr c key nonce ct = Ok p"
    using assms unfolding s22_ok_def by blast
  then show thesis using assms(2,3) by (intro that [of ct]) (simp_all add: s22_aead_encrypt_def s22_aead_decrypt_def)
qed

lemma s22_inc_nonce_length [simp]: "length (s22_inc_nonce n) = length n"
  by (simp add: s22_inc_nonce_def)

lemma s22_chunk_roundtrip:
  assumes "s22_ok cr" and "length key = s22_key_size c" and "length nonce = s22_nonce_size c" and "b \<noteq> []" and "length b \<le> MAX_PKT"
  obtains wire where "\<And>i e w. s22_write_chunk cr c key nonce b (open_conn i e w) = (Ok (s22_inc_nonce (s22_inc_nonce nonce)), open_conn i e (w @ wire))"
    "\<And>rest e w. s22_read_chunk cr c key nonce (open_conn (wire @ rest) e w) = (Ok (Some (b, s22_inc_nonce (s22_inc_nonce nonce))), open_conn rest e w)"
proof -
  let ?l = "to_be16 (word_of_nat (length b)) :: u8 list"
  obtain lc where lc: "s22_aead_encrypt cr c key nonce ?l = Ok lc" "length lc = length ?l + 16" "s22_aead_decrypt cr c key nonce lc = Ok ?l"
    using s22_sealed [OF assms(1-3)] by blast
  have n: "length (s22_inc_nonce nonce) = s22_nonce_size c" using assms(3) by simp
  obtain pc where pc: "s22_aead_encrypt cr c key (s22_inc_nonce nonce) b = Ok pc" "length pc = length b + 16" "s22_aead_decrypt cr c key (s22_inc_nonce nonce) pc = Ok b"
    using s22_sealed [OF assms(1,2) n] by blast
  have u: "unat (word_of_nat (length b) :: u16) = length b" using assms(5) by (intro unat_u16) (simp add: MAX_PKT_def)
  have r1: "cread [] (2 + TAG) (open_conn (lc @ pc @ rest) e w) = (Ok lc, open_conn (pc @ rest) e w)" for rest e w
    using lc(2) by (intro cread_app) (simp add: TAG_def)
  have r2: "cread [] (length b + TAG) (open_conn (pc @ rest) e w) = (Ok pc, open_conn rest e w)" for rest e w
    using pc(2) by (intro cread_app) (simp add: TAG_def)
  have "s22_read_chunk cr c key nonce (open_conn ((lc @ pc) @ rest) e w) = (Ok (Some (b, s22_inc_nonce (s22_inc_nonce nonce))), open_conn rest e w)" for rest e w
    using assms(4,5) u r1 [of rest e w] by (simp add: s22_read_chunk_def lc(3) cbind_def clift_def r2 pc(3) cret_def)
  moreover have "s22_write_chunk cr c key nonce b (open_conn i e w) = (Ok (s22_inc_nonce (s22_inc_nonce nonce)), open_conn i e (w @ (lc @ pc)))" for i e w
    by (simp add: s22_write_chunk_def lc(1) pc(1) cbind_def clift_def cret_def cwrite_run)
  ultimately show thesis by (rule that [of "lc @ pc", rotated])
qed

lemma s22_stream:
  assumes "s22_ok cr" and "length key = s22_key_size c" and "length nonce = s22_nonce_size c" and "\<forall>b \<in> set bs. b \<noteq> [] \<and> length b \<le> MAX_PKT"
  shows "\<exists>wire n. (\<forall>i e w. s22_write_chunks cr c key nonce bs (open_conn i e w) = (Ok n, open_conn i e (w @ wire))) \<and>
    (\<forall>e w. s22_to_remote cr c key nonce (open_conn wire e w) = (concat bs, False))"
  using assms(3,4)
proof (induction bs arbitrary: nonce)
  case Nil
  have "s22_to_remote cr c key nonce (open_conn [] e w) = ([], False)" for e w
    by (subst s22_to_remote.simps) (simp add: s22_read_chunk_def cread_def open_conn_def TAG_def)
  then show ?case by (intro exI [of _ "[]"] exI [of _ nonce]) (simp add: cret_run)
next
  case (Cons b bs)
  let ?n = "s22_inc_nonce (s22_inc_nonce nonce)"
  have b: "b \<noteq> []" "length b \<le> MAX_PKT" using Cons.prems(2) by auto
  obtain w1 where w1: "\<And>i e w. s22_write_chunk cr c key nonce b (open_conn i e w) = (Ok ?n, open_conn i e (w @ w1))"
    "\<And>rest e w. s22_read_chunk cr c key nonce (open_conn (w1 @ rest) e w) = (Ok (Some (b, ?n)), open_conn rest e w)"
    using s22_chunk_roundtrip [OF assms(1,2) Cons.prems(1) b] by blast
  obtain w2 n where w2: "\<forall>i e w. s22_write_chunks cr c key ?n bs (open_conn i e w) = (Ok n, open_conn i e (w @ w2))"
    "\<forall>e w. s22_to_remote cr c key ?n (open_conn w2 e w) = (concat bs, False)" using Cons.IH [of ?n] Cons.prems by auto
  have "s22_to_remote cr c key nonce (open_conn (w1 @ w2) e w) = (concat (b # bs), False)" for e w
    by (subst s22_to_remote.simps) (simp add: w1(2) w2(2))
  moreover have "s22_write_chunks cr c key nonce (b # bs) (open_conn i e w) = (Ok n, open_conn i e (w @ (w1 @ w2)))" for i e w
    by (simp add: cbind_def w1(1) w2(1))
  ultimately show ?case by blast
qed

section \<open>Targets\<close>

text \<open>The header a client puts in front of its data, with the type bytes the inbound reads, and the port the inbound takes from it: for an IP address the last two of
  the address's own bytes.\<close>

definition s22_header :: "Address \<Rightarrow> u16 \<Rightarrow> u8 list" where
  "s22_header a p = addr_tag ss_fmt a # addr_body a @ to_be16 p"

fun s22_seen_port :: "Address \<Rightarrow> u16 \<Rightarrow> u16" where
  "s22_seen_port (Domain_a d) p = p"
| "s22_seen_port (Ipv4 ip) p = from_be16 (drop 2 ip)"
| "s22_seen_port (Ipv6 ip) p = from_be16 (drop 14 ip)"

lemma s22_parse_header:
  assumes "addr_fits a"
  shows "parse_target_from_bytes (s22_header a p @ rest) = Ok (TcpDestination a (Port (s22_seen_port a p)))"
    and "drop (socks5_addr_len (s22_header a p @ rest)) (s22_header a p @ rest) = rest"
proof -
  have "parse_target_from_bytes (s22_header a p @ rest) = Ok (TcpDestination a (Port (s22_seen_port a p))) \<and>
    drop (socks5_addr_len (s22_header a p @ rest)) (s22_header a p @ rest) = rest"
  proof (cases a)
    case (Domain_a d)
    have n: "unat (word_of_nat (length d) :: u8) = length d" using assms Domain_a by (simp add: unat_of_nat)
    have b: "be16_at (2 + length d) (3 # word_of_nat (length d) # as_bytes d @ to_be16 p @ rest) = p"
      using be16_at_append [of "3 # word_of_nat (length d) # as_bytes d" "2 + length d" p rest] by simp
    show ?thesis using assms Domain_a n b
      by (simp add: parse_target_from_bytes_def s22_take_address_def socks5_addr_len_def s22_header_def ss_fmt_def Let_def)
  next
    case (Ipv4 ip)
    then have l: "length ip = 4" using assms by simp
    have "be16_at 3 (1 # ip @ to_be16 p @ rest) = from_be16 (drop 2 ip)" using l by (simp add: be16_at_def take_Cons drop_Cons split: nat.split)
    then show ?thesis using Ipv4 l by (simp add: parse_target_from_bytes_def s22_take_address_def socks5_addr_len_def s22_header_def ss_fmt_def)
  next
    case (Ipv6 ip)
    then have l: "length ip = 16" using assms by simp
    have "be16_at 15 (4 # ip @ to_be16 p @ rest) = from_be16 (drop 14 ip)" using l by (simp add: be16_at_def take_Cons drop_Cons split: nat.split)
    then show ?thesis using Ipv6 l by (simp add: parse_target_from_bytes_def s22_take_address_def socks5_addr_len_def s22_header_def ss_fmt_def)
  qed
  then show "parse_target_from_bytes (s22_header a p @ rest) = Ok (TcpDestination a (Port (s22_seen_port a p)))"
    "drop (socks5_addr_len (s22_header a p @ rest)) (s22_header a p @ rest) = rest" by auto
qed

lemma s22_serve_ok:
  assumes "s22_read_chunk cr c key (replicate (s22_nonce_size c) 0) conn = (Ok (Some (b, n)), conn1)" and "b \<noteq> []" and "parse_target_from_bytes b = Ok t"
    and "s22_to_remote cr c key n conn1 = (rest, x)"
  shows "fst (s22_serve cr m1 m2 m3 c key session (Ok ()) conn) = Ok (with_target t session, t, drop (socks5_addr_len b) b @ rest, x)"
  using assms by (simp add: s22_serve_def cbind_def clift_def)



text \<open>The code of \<^verbatim>\<open>protocol.rs\<close> for targets is a different one: a domain it encodes is refused by the inbound, and an IPv6 address is read as a domain. Its decoder inverts its encoder, and
  panics on an IPv6 target that lacks the last byte.\<close>

lemma decode_encode_target:
  assumes "addr_fits a"
  shows "s22_decode_target (s22_encode_target a p @ rest) = Ok (a, p)"
proof (cases a)
  case (Domain_a d)
  have n: "unat (word_of_nat (length d) :: u8) = length d" using assms Domain_a by (simp add: unat_of_nat)
  have "be16_at (2 + length d) (2 # word_of_nat (length d) # as_bytes d @ to_be16 p @ rest) = p"
    using be16_at_append [of "2 # word_of_nat (length d) # as_bytes d" "2 + length d" p rest] by simp
  then show ?thesis using assms Domain_a n by (simp add: s22_decode_target_def Let_def)
next
  case (Ipv4 ip)
  then have "be16_at 5 (1 # ip @ to_be16 p @ rest) = p" using be16_at_append [of "1 # ip" 5 p rest] assms by simp
  then show ?thesis using Ipv4 assms by (simp add: s22_decode_target_def)
next
  case (Ipv6 ip)
  then have "be16_at 17 (3 # ip @ to_be16 p @ rest) = p" using be16_at_append [of "3 # ip" 17 p rest] assms by simp
  then show ?thesis using Ipv6 assms by (simp add: s22_decode_target_def)
qed

lemma domain_code_refused: "parse_target_from_bytes (s22_encode_target (Domain_a d) p) = Err (''unknown address type: '' @ show_nat 2)"
  by (simp add: parse_target_from_bytes_def s22_take_address_def)

lemma decode_target_panics: "length ip = 16 \<Longrightarrow> s22_decode_target (3 # ip @ [x]) = Panic"
  by (simp add: s22_decode_target_def)

section \<open>Datagrams\<close>

lemma s22_udp_roundtrip:
  assumes "s22_ok cr" and "length key = s22_key_size c" and "length sid = 8" and "length pid = 8" and "length random = 24"
  shows "\<exists>w. encrypt_udp cr random c key sid pid data = Ok w \<and> decrypt_udp cr c key w = Ok (if c = S22XChaCha20Poly1305 then [] else pid, data)"
proof (cases "c = S22XChaCha20Poly1305")
  case True
  then have r: "length random = s22_nonce_size c" using assms(5) by simp
  obtain ct where "s22_aead_encrypt cr c key random data = Ok ct" "length ct = length data + 16" "s22_aead_decrypt cr c key random ct = Ok data"
    using s22_sealed [OF assms(1,2) r] by blast
  then show ?thesis using True assms(5) by (simp add: encrypt_udp_def decrypt_udp_def TAG_def)
next
  case False
  let ?sk = "take (s22_key_size c) (s22_blake3 cr ''shadowsocks 2022 session subkey'' (key @ sid))" and ?h = "aes_ecb_encrypt cr (take 16 key) (sid @ pid)"
  have k: "derive_session_key cr key sid (s22_key_size c) = Ok ?sk" "length ?sk = s22_key_size c"
    using assms(1) by (cases c; simp add: derive_session_key_def slice_to_def s22_ok_def)+
  have n: "length (replicate 12 0 :: u8 list) = s22_nonce_size c" using False by (cases c) simp_all
  obtain ct where ct: "s22_aead_encrypt cr c ?sk (replicate 12 0) data = Ok ct" "length ct = length data + 16" "s22_aead_decrypt cr c ?sk (replicate 12 0) ct = Ok data"
    using s22_sealed [OF assms(1) k(2) n] by blast
  have "length (take 16 key) = 16" using assms(2) by (cases c) simp_all
  then have h: "length ?h = 16" "aes_ecb_decrypt cr (take 16 key) ?h = sid @ pid"
    using assms(1,3,4) by (simp_all add: s22_ok_def aes_ecb_encrypt_def aes_ecb_decrypt_def)
  show ?thesis using False assms(3,4) k(1) ct h by (simp add: encrypt_udp_def decrypt_udp_def TAG_def Let_def)
qed

text \<open>All datagrams of a session are sealed under one key and one nonce.\<close>

lemma s22_udp_nonce_reused:
  assumes "c \<noteq> S22XChaCha20Poly1305" and "encrypt_udp cr r1 c key sid p1 d1 = Ok w1" and "encrypt_udp cr r2 c key sid p2 d2 = Ok w2"
  shows "\<exists>sk h1 h2 c1 c2. w1 = h1 @ c1 \<and> w2 = h2 @ c2 \<and> s22_aead_encrypt cr c sk (replicate 12 0) d1 = Ok c1 \<and> s22_aead_encrypt cr c sk (replicate 12 0) d2 = Ok c2"
proof -
  obtain s1 c1 where 1: "derive_session_key cr key (take 8 (take 8 sid @ take 8 p1)) (s22_key_size c) = Ok s1" "s22_aead_encrypt cr c s1 (replicate 12 0) d1 = Ok c1"
    "w1 = aes_ecb_encrypt cr (take 16 key) (take 8 sid @ take 8 p1) @ c1" and l: "8 \<le> length sid"
    using assms(1,2) by (auto simp: encrypt_udp_def Let_def rbind_eq_Ok split: if_splits)
  obtain s2 c2 where 2: "derive_session_key cr key (take 8 (take 8 sid @ take 8 p2)) (s22_key_size c) = Ok s2" "s22_aead_encrypt cr c s2 (replicate 12 0) d2 = Ok c2"
    "w2 = aes_ecb_encrypt cr (take 16 key) (take 8 sid @ take 8 p2) @ c2"
    using assms(1,3) by (auto simp: encrypt_udp_def Let_def rbind_eq_Ok split: if_splits)
  have "s1 = s2" using 1(1) 2(1) l by simp
  then show ?thesis using 1(2,3) 2(2,3) by blast
qed

text \<open>The relay's check of keys looks at none of them, and the client sends its data as it is.\<close>

lemma try_each_key_unchecked: "try_each_key ds data = Some (d, x) \<Longrightarrow> ds \<noteq> [] \<and> d = hd ds \<and> x = data"
proof (induction ds)
  case (Cons e ds)
  have same: "try_each_key ds data \<noteq> None \<Longrightarrow> \<exists>t. parse_target_from_bytes data = Ok t \<and> 0 < port_value (port t)" for ds
    by (induction ds) (auto split: res.splits if_splits)
  then show ?case using Cons.prems same [of ds] by (auto split: res.splits if_splits)
qed simp

lemma s22_outbound_plain: "[] \<notin> set bs \<Longrightarrow> s22_outbound_copy (map Ok bs) = concat bs"
  by (induction bs) auto

end
