(* ===== verification/Plain_Proxies.thy ===== *)
theory Plain_Proxies
  imports Dispatcher Socks Piece_Io
begin

text \<open>
  The handlers without a protocol of their own: the fixed-target inbound (\<^verbatim>\<open>proxy-dokodemo\<close>), the outbound that hands a session back to the dispatcher
  (\<^verbatim>\<open>proxy-loopback\<close>), the one that discards everything (\<^verbatim>\<open>proxy-blackhole\<close>), and the relays of datagrams of the DNS outbound (\<^verbatim>\<open>proxy-dns\<close>) and of the
  direct outbound (\<^verbatim>\<open>Handler::process_udp\<close> of \<^verbatim>\<open>proxy-freedom\<close>). The relay has two tasks over one socket; it is a function on the events the runtime may
  interleave in any order.
\<close>

section \<open>The fixed-target inbound\<close>

record dokodemo_config =
  dk_address :: "Address option"
  dk_port :: u16
  dk_follow_redirect :: bool
  dk_user_level :: u32
  dk_port_map :: "(string \<times> string) list"

definition dk_split_host_port :: "string \<Rightarrow> string \<times> string" where
  "dk_split_host_port s =
     (case rfind_char (CHR '':'') s of Some idx \<Rightarrow> (take idx s, drop (Suc idx) s) | None \<Rightarrow> (s, []))"

definition dk_host_address :: "string \<Rightarrow> Address" where
  "dk_host_address host =
     (case parse_ipv4 host of Some a \<Rightarrow> Ipv4 a
      | None \<Rightarrow> (case parse_ipv6 host of Some a \<Rightarrow> Ipv6 a | None \<Rightarrow> Domain_a host))"

definition dk_dest_addr :: "dokodemo_config \<Rightarrow> string \<Rightarrow> (string, Address) res" where
  "dk_dest_addr cfg local_addr =
     (case dk_address cfg of
        Some a \<Rightarrow> Ok a
      | None \<Rightarrow>
          let host = fst (dk_split_host_port local_addr) in
          if CHR '':'' \<in> set host then Ok (Ipv6 [0, 0, 0, 0, 0, 0, 0, 0, 0, 0, 0, 0, 0, 0, 0, 1])
          else if host \<noteq> [] \<and> host \<noteq> ''0.0.0.0'' \<and> host \<noteq> ''::'' then Ok (dk_host_address host)
          else Err ''dokodemo: no address configured'')"

definition dk_dest_port :: "dokodemo_config \<Rightarrow> string \<Rightarrow> u16" where
  "dk_dest_port cfg local_addr =
     (if 0 < dk_port cfg then dk_port cfg
      else case parse_unsigned 65535 (snd (dk_split_host_port local_addr)) of Some p \<Rightarrow> word_of_nat p | None \<Rightarrow> 0)"

definition dk_apply_map :: "(string \<times> string) list \<Rightarrow> Destination \<Rightarrow> Destination" where
  "dk_apply_map pm dest =
     (case map_of pm (show_nat (unat (port_value (port dest)))) of
        None \<Rightarrow> dest
      | Some mapped \<Rightarrow>
          let (host, port_str) = dk_split_host_port mapped;
              dest = (if host \<noteq> [] then dest\<lparr>address := dk_host_address host\<rparr> else dest)
          in (case parse_unsigned 65535 port_str of Some p \<Rightarrow> dest\<lparr>port := Port (word_of_nat p)\<rparr> | None \<Rightarrow> dest))"

definition resolve_dest :: "dokodemo_config \<Rightarrow> string \<Rightarrow> Session \<Rightarrow> (string, Destination) res" where
  "resolve_dest cfg local_addr session =
     (case (if dk_follow_redirect cfg then Option.bind (outbound session) (\<lambda>ob. if is_valid (ob_target ob) then Some (ob_target ob) else None) else None) of
        Some t \<Rightarrow> Ok t
      | None \<Rightarrow>
          rbind (dk_dest_addr cfg local_addr) (\<lambda>a.
            Ok (dk_apply_map (dk_port_map cfg) (TcpDestination a (Port (dk_dest_port cfg local_addr))))))"

definition dk_local_addr :: "Session \<Rightarrow> string" where
  "dk_local_addr session =
     (case Option.bind (inbound session) ib_local of
        Some d \<Rightarrow> show_address (address d) @ '':'' @ show_nat (unat (port_value (port d)))
      | None \<Rightarrow> ''0.0.0.0:0'' @ '':'' @ ''0'')"

definition dokodemo_process :: "dokodemo_config \<Rightarrow> Session \<Rightarrow> (Session \<Rightarrow> Destination \<Rightarrow> (string, 'r) res) \<Rightarrow> (string, 'r) res" where
  "dokodemo_process cfg session dispatch = rbind (resolve_dest cfg (dk_local_addr session) session) (dispatch session)"

section \<open>The loopback outbound\<close>

text \<open>The cell of the dispatcher: poisoned, empty or filled.\<close>

datatype 'd dispatcher_cell = Poisoned | Unset | Dispatcher_set 'd

definition loopback_session :: "string \<Rightarrow> Destination \<Rightarrow> Session \<Rightarrow> Session" where
  "loopback_session itag target session =
     (let ib = (case inbound session of
                  Some ib \<Rightarrow> ib
                | None \<Rightarrow> \<lparr>ib_source = \<lparr>address = address target, port = port target, network = Tcp\<rparr>, ib_local = None, ib_gateway = None, ib_tag = []\<rparr>)
      in session\<lparr>inbound := Some (ib\<lparr>ib_tag := itag\<rparr>),
           outbound := Some \<lparr>ob_target = target, original_target = target, route_target = None, ob_tag = []\<rparr>\<rparr>)"

definition loopback_process ::
  "string \<Rightarrow> (Session \<Rightarrow> Destination \<Rightarrow> (string, 'r) res) dispatcher_cell \<Rightarrow> Session \<Rightarrow> (string, 'r) res" where
  "loopback_process itag cell session =
     (case cell of
        Poisoned \<Rightarrow> Err ''loopback: mutex poisoned''
      | Unset \<Rightarrow> Err ''loopback: dispatcher not set''
      | Dispatcher_set dispatch \<Rightarrow>
          rbind (ok_or ''loopback: no target specified'' (map_option ob_target (outbound session))) (\<lambda>target.
            dispatch (loopback_session itag target session) target))"

section \<open>The blackhole outbound\<close>

function blackhole_process :: "pconn \<Rightarrow> pconn" where
  "blackhole_process link = (case pread 16384 link of (Ok d, l) \<Rightarrow> if d = [] then l else blackhole_process l | (_, l) \<Rightarrow> l)"
  by pat_completeness auto
termination
  by (relation "measure weight") (auto intro: pread_shrinks [OF sym])

declare blackhole_process.simps [simp del]

section \<open>Relays of datagrams\<close>

type_synonym saddr = "IpAddr \<times> u16"

text \<open>Where a packet of the link goes (\<^term>\<open>None\<close>: nowhere), the address put on an answer, the buffer an answer is received into, and whether a failed send ends the loop.\<close>

record relay_config =
  rl_target :: "UdpPacket \<Rightarrow> saddr option"
  rl_reply :: "saddr \<Rightarrow> Destination"
  rl_cap :: nat
  rl_stop :: bool

record relay =
  rl_queue :: "UdpPacket list"
  rl_closed :: bool
  rl_out :: "(saddr \<times> u8 list) list"
  rl_back :: "UdpPacket list"
  rl_peer_gone :: bool
  rl_loop_done :: bool
  rl_recv_done :: bool

definition relay_new :: relay where
  "relay_new = \<lparr>rl_queue = [], rl_closed = False, rl_out = [], rl_back = [], rl_peer_gone = False, rl_loop_done = False, rl_recv_done = False\<rparr>"

text \<open>What the runtime may do next: the peer puts a packet in the link, closes it or drops its receiver; the loop takes a packet (and the system sends it or fails) or sees the end;
  a datagram arrives at the receiving task; the socket fails.\<close>

datatype relay_event = Link_packet UdpPacket | Link_close | Link_receiver_gone | Loop_turn bool | Datagram saddr "u8 list" | Socket_fails

definition loop_turn :: "relay_config \<Rightarrow> bool \<Rightarrow> relay \<Rightarrow> relay" where
  "loop_turn cfg sent s =
     (if rl_loop_done s then s
      else case rl_queue s of
        [] \<Rightarrow> if rl_closed s then s\<lparr>rl_loop_done := True\<rparr> else s
      | p # ps \<Rightarrow>
          (let s = s\<lparr>rl_queue := ps\<rparr> in
           case rl_target cfg p of
             None \<Rightarrow> s
           | Some a \<Rightarrow>
               if sent then s\<lparr>rl_out := rl_out s @ [(a, pkt_data p)]\<rparr>
               else if rl_stop cfg then s\<lparr>rl_loop_done := True\<rparr> else s))"

definition relay_datagram :: "relay_config \<Rightarrow> saddr \<Rightarrow> u8 list \<Rightarrow> relay \<Rightarrow> relay" where
  "relay_datagram cfg src d s =
     (if rl_recv_done s then s
      else if rl_peer_gone s then s\<lparr>rl_recv_done := True\<rparr>
      else s\<lparr>rl_back := rl_back s @ [\<lparr>pkt_source = rl_reply cfg src, pkt_target = rl_reply cfg src, pkt_data = take (rl_cap cfg) d\<rparr>]\<rparr>)"

fun relay_step :: "relay_config \<Rightarrow> relay \<Rightarrow> relay_event \<Rightarrow> relay" where
  "relay_step cfg s (Link_packet p) = (if rl_closed s then s else s\<lparr>rl_queue := rl_queue s @ [p]\<rparr>)"
| "relay_step cfg s Link_close = s\<lparr>rl_closed := True\<rparr>"
| "relay_step cfg s Link_receiver_gone = s\<lparr>rl_peer_gone := True\<rparr>"
| "relay_step cfg s (Loop_turn sent) = loop_turn cfg sent s"
| "relay_step cfg s (Datagram src d) = relay_datagram cfg src d s"
| "relay_step cfg s Socket_fails = s\<lparr>rl_recv_done := True\<rparr>"

definition relay_run :: "relay_config \<Rightarrow> relay_event list \<Rightarrow> relay" where
  "relay_run cfg evs = foldl (relay_step cfg) relay_new evs"

definition relay_returned :: "relay \<Rightarrow> bool" where
  "relay_returned s \<longleftrightarrow> rl_loop_done s \<and> rl_recv_done s"

fun ip_address :: "IpAddr \<Rightarrow> Address" where
  "ip_address (V4 o4) = Ipv4 o4"
| "ip_address (V6 o6) = Ipv6 o6"

definition dns_handler_new :: "Address \<Rightarrow> u16 \<Rightarrow> (string, saddr) res" where
  "dns_handler_new a p =
     rbind (ok_or (''dns server must be an IP address, got: '' @ show_address a) (as_ip a)) (\<lambda>ip. Ok (ip, p))"

definition dns_process :: "(string, unit) res" where
  "dns_process = Err ''DNS outbound only supports UDP''"

definition dns_relay :: "saddr \<Rightarrow> relay_config" where
  "dns_relay server =
     \<lparr>rl_target = \<lambda>p. Some server, rl_reply = \<lambda>src. UdpDestination (ip_address (fst server)) (Port (snd server)), rl_cap = 512, rl_stop = True\<rparr>"

text \<open>The direct outbound resolves the target of each packet with the system's resolver, an argument.\<close>

definition freedom_relay :: "(string \<Rightarrow> saddr list option) \<Rightarrow> relay_config" where
  "freedom_relay lookup_host =
     \<lparr>rl_target = \<lambda>p. Option.bind (lookup_host (show_address (address (pkt_target p)) @ '':'' @ show_nat (unat (port_value (port (pkt_target p))))))
         (\<lambda>as. case as of [] \<Rightarrow> None | a # _ \<Rightarrow> Some a),
      rl_reply = \<lambda>src. UdpDestination (ip_address (fst src)) (Port (snd src)), rl_cap = 65535, rl_stop = False\<rparr>"

section \<open>Targets of the fixed-target inbound\<close>

lemma dk_split: "CHR '':'' \<notin> set p \<Longrightarrow> dk_split_host_port (h @ CHR '':'' # p) = (h, p)"
  by (simp add: dk_split_host_port_def)

lemma digits_no_colon: "CHR '':'' \<notin> set (show_nat n)"
proof
  assume "CHR '':'' \<in> set (show_nat n)"
  from show_nat_chars [OF this] show False by simp
qed

lemma ipv4_no_colon: "length b = 4 \<Longrightarrow> CHR '':'' \<notin> set (show_ipv4 b)"
proof
  assume "length b = 4" "CHR '':'' \<in> set (show_ipv4 b)"
  from show_ipv4_chars [OF this] show False by simp
qed

lemma dk_redirect:
  assumes "dk_follow_redirect cfg" and "outbound session = Some ob" and "is_valid (ob_target ob)"
  shows "dokodemo_process cfg session dispatch = dispatch session (ob_target ob)"
  using assms by (simp add: dokodemo_process_def resolve_dest_def)

lemma dk_configured:
  assumes "\<not> dk_follow_redirect cfg" and "dk_address cfg = Some a" and "dk_port cfg \<noteq> 0" and "map_of (dk_port_map cfg) (show_nat (unat (dk_port cfg))) = None"
  shows "dokodemo_process cfg session dispatch = dispatch session (TcpDestination a (Port (dk_port cfg)))"
proof -
  have "0 < dk_port cfg" using assms(3) by (simp add: word_gt_0)
  then show ?thesis using assms
    by (simp add: dokodemo_process_def resolve_dest_def dk_dest_addr_def dk_dest_port_def dk_apply_map_def TcpDestination_def)
qed

lemma dk_mapped:
  assumes "\<not> dk_follow_redirect cfg" and "dk_address cfg = Some a" and "dk_port cfg \<noteq> 0" and "length b = 4"
    and "map_of (dk_port_map cfg) (show_nat (unat (dk_port cfg))) = Some (show_ipv4 b @ '':'' @ show_nat (unat (p :: u16)))"
  shows "dokodemo_process cfg session dispatch = dispatch session (TcpDestination (Ipv4 b) (Port p))"
proof -
  have "0 < dk_port cfg" using assms(3) by (simp add: word_gt_0)
  moreover have "show_ipv4 b \<noteq> []" using show_ipv4_no_bracket [OF assms(4)] by simp
  moreover have "parse_unsigned 65535 (show_nat (unat p)) = Some (unat p)" using unat_bound [of p] by (intro parse_show_nat) simp
  ultimately show ?thesis using assms dk_split [OF digits_no_colon, of "show_ipv4 b" "unat p"]
    by (simp add: dokodemo_process_def resolve_dest_def dk_dest_addr_def dk_dest_port_def dk_apply_map_def TcpDestination_def dk_host_address_def)
qed

text \<open>Without a configured target the connection goes to the address it arrived at, if that is an IPv4 address. With an IPv6 address, or when the address is unknown, it goes to
  the loopback address \<^verbatim>\<open>::1\<close>, since the text of the host has a colon.\<close>

lemma dk_local_v4:
  assumes "\<not> dk_follow_redirect cfg" and "dk_address cfg = None" and "dk_port cfg = 0" and "dk_port_map cfg = []"
    and "inbound session = Some ib" and "ib_local ib = Some d" and "address d = Ipv4 b" and "length b = 4" and "show_ipv4 b \<noteq> ''0.0.0.0''"
  shows "dokodemo_process cfg session dispatch = dispatch session (TcpDestination (Ipv4 b) (port d))"
proof -
  have sp: "dk_split_host_port (show_ipv4 b @ CHR '':'' # show_nat (unat (port_value (port d)))) = (show_ipv4 b, show_nat (unat (port_value (port d))))"
    by (rule dk_split [OF digits_no_colon])
  have pn: "parse_unsigned 65535 (show_nat (unat (port_value (port d)))) = Some (unat (port_value (port d)))"
    using unat_bound [of "port_value (port d)"] by (intro parse_show_nat) simp
  have ne: "show_ipv4 b \<noteq> []" "show_ipv4 b \<noteq> ''::''" using show_ipv4_no_bracket [OF assms(8)] ipv4_no_colon [OF assms(8)] by auto
  have "dk_dest_addr cfg (dk_local_addr session) = Ok (Ipv4 b)" using assms(2,5-9) ne ipv4_no_colon [OF assms(8)]
    by (simp add: dk_dest_addr_def dk_local_addr_def sp dk_host_address_def)
  moreover have "dk_dest_port cfg (dk_local_addr session) = port_value (port d)" using assms(3,5,6,7)
    by (simp add: dk_dest_port_def dk_local_addr_def sp pn)
  ultimately show ?thesis using assms(1,4) by (simp add: dokodemo_process_def resolve_dest_def dk_apply_map_def)
qed

lemma dk_elsewhere_loopback:
  assumes "dk_address cfg = None" and "Option.bind (inbound session) ib_local = None \<or>
    (\<exists>d b. Option.bind (inbound session) ib_local = Some d \<and> address d = Ipv6 b \<and> CHR '':'' \<in> set (show_ipv6 b))"
  shows "dk_dest_addr cfg (dk_local_addr session) = Ok (Ipv6 (replicate 15 0 @ [1]))"
  using assms(2)
proof
  assume n: "Option.bind (inbound session) ib_local = None"
  have "dk_split_host_port (''0.0.0.0:0'' @ CHR '':'' # ''0'') = (''0.0.0.0:0'', ''0'')" by (rule dk_split) simp
  then show ?thesis using assms(1) n by (simp add: dk_dest_addr_def dk_local_addr_def numeral_eq_Suc)
next
  assume "\<exists>d b. Option.bind (inbound session) ib_local = Some d \<and> address d = Ipv6 b \<and> CHR '':'' \<in> set (show_ipv6 b)"
  then obtain d b where d: "Option.bind (inbound session) ib_local = Some d" "address d = Ipv6 b" "CHR '':'' \<in> set (show_ipv6 b)" by blast
  have "fst (dk_split_host_port (dk_local_addr session)) = ''['' @ show_ipv6 b @ '']''"
    using dk_split [OF digits_no_colon, of "''['' @ show_ipv6 b @ '']''" "unat (port_value (port d))"] d by (simp add: dk_local_addr_def)
  then show ?thesis using assms(1) d(3) by (simp add: dk_dest_addr_def numeral_eq_Suc)
qed

section \<open>Loopback\<close>

text \<open>The dispatcher sees the session again as one that came in under the configured tag, with the same target, source and content.\<close>

lemma loopback_context:
  assumes "inbound session = Some ib" and "outbound session = Some ob"
  shows "build_routing_context (loopback_session itag (ob_target ob) session) = (build_routing_context session)\<lparr>inbound_tag := itag\<rparr>"
  using assms by (simp add: build_routing_context_def loopback_session_def Let_def split: option.split)

lemma loopback_dispatches:
  assumes "outbound session = Some ob"
  shows "loopback_process itag (Dispatcher_set dispatch) session = dispatch (loopback_session itag (ob_target ob) session) (ob_target ob)"
  using assms by (simp add: loopback_process_def)

section \<open>Blackhole\<close>

lemma blackhole_reads_all:
  assumes "piecewise c"
  shows "pbytes (blackhole_process c) = [] \<and> pout (blackhole_process c) = pout c"
  using assms
proof (induction c rule: blackhole_process.induct)
  case (1 c)
  show ?case
  proof (cases "pbytes c = []")
    case True
    then have "pieces c = []" using "1.prems" by (cases "pieces c") (auto simp: pbytes_def piecewise_def)
    then show ?thesis using True by (subst (1 2) blackhole_process.simps) (auto simp: pread_def split: option.split)
  next
    case False
    then obtain d c' where r: "pread 16384 c = (Ok d, c')" "d \<noteq> []" "piecewise c'" "same_out c c'" using pread_Ok [OF "1.prems", of 16384] by (metis zero_less_numeral)
    then have "pbytes (blackhole_process c') = [] \<and> pout (blackhole_process c') = pout c'" by (intro "1.IH") auto
    moreover have "blackhole_process c = blackhole_process c'" using r(1,2) by (subst blackhole_process.simps) simp
    ultimately show ?thesis using r(4) by (simp add: same_out_def)
  qed
qed

section \<open>What a relay delivers\<close>

definition link_packets :: "relay_event list \<Rightarrow> UdpPacket list" where
  "link_packets evs = concat (map (\<lambda>e. case e of Link_packet p \<Rightarrow> [p] | _ \<Rightarrow> []) evs)"

definition relay_answers :: "relay_config \<Rightarrow> relay_event list \<Rightarrow> UdpPacket list" where
  "relay_answers cfg evs = concat (map (\<lambda>e. case e of
      Datagram src d \<Rightarrow> [\<lparr>pkt_source = rl_reply cfg src, pkt_target = rl_reply cfg src, pkt_data = take (rl_cap cfg) d\<rparr>] | _ \<Rightarrow> []) evs)"

definition sends :: "relay_config \<Rightarrow> UdpPacket list \<Rightarrow> (saddr \<times> u8 list) list" where
  "sends cfg ps = List.map_filter (\<lambda>p. map_option (\<lambda>a. (a, pkt_data p)) (rl_target cfg p)) ps"

lemma sends_simps [simp]: "sends cfg [] = []" "sends cfg (ps @ qs) = sends cfg ps @ sends cfg qs"
  "sends cfg (p # ps) = (case rl_target cfg p of None \<Rightarrow> sends cfg ps | Some a \<Rightarrow> (a, pkt_data p) # sends cfg ps)"
  by (simp_all add: sends_def map_filter_def split: option.split)

text \<open>What is in the queue and what was sent come from the packets in their order.\<close>

definition relay_inv :: "relay_config \<Rightarrow> relay_event list \<Rightarrow> relay \<Rightarrow> bool" where
  "relay_inv cfg evs s \<longleftrightarrow>
     subseq (rl_out s @ sends cfg (rl_queue s)) (sends cfg (link_packets evs)) \<and>
     prefix (rl_back s) (relay_answers cfg evs) \<and> (\<not> rl_recv_done s \<longrightarrow> rl_back s = relay_answers cfg evs) \<and>
     (rl_peer_gone s \<longrightarrow> Link_receiver_gone \<in> set evs) \<and>
     (rl_recv_done s \<longrightarrow> Socket_fails \<in> set evs \<or> Link_receiver_gone \<in> set evs)"

lemma subseq_part: "subseq (a @ b) c \<Longrightarrow> subseq a c"
  by (rule subseq_order.trans [OF prefix_imp_subseq]) auto

lemma subseq_subset: "subseq a b \<Longrightarrow> set a \<subseteq> set b"
  by (auto dest: list_emb_set)

lemma event_lists [simp]:
  "link_packets (evs @ [e]) = link_packets evs @ (case e of Link_packet p \<Rightarrow> [p] | _ \<Rightarrow> [])"
  "relay_answers cfg (evs @ [e]) = relay_answers cfg evs @
    (case e of Datagram src d \<Rightarrow> [\<lparr>pkt_source = rl_reply cfg src, pkt_target = rl_reply cfg src, pkt_data = take (rl_cap cfg) d\<rparr>] | _ \<Rightarrow> [])"
  by (simp_all add: link_packets_def relay_answers_def)

lemma loop_turn_sends: "subseq (rl_out (loop_turn cfg b s) @ sends cfg (rl_queue (loop_turn cfg b s))) (rl_out s @ sends cfg (rl_queue s))"
  by (auto simp: loop_turn_def Let_def split: list.split option.split intro: list_emb_append_mono)

lemma loop_turn_other: "rl_back (loop_turn cfg b s) = rl_back s" "rl_recv_done (loop_turn cfg b s) = rl_recv_done s" "rl_peer_gone (loop_turn cfg b s) = rl_peer_gone s"
  by (simp_all add: loop_turn_def Let_def split: list.split option.split)

lemma relay_step_inv: "relay_inv cfg evs s \<Longrightarrow> relay_inv cfg (evs @ [e]) (relay_step cfg s e)"
proof (cases e)
  case (Link_packet p)
  assume i: "relay_inv cfg evs s"
  then have "subseq (rl_out s @ sends cfg (rl_queue s)) (sends cfg (link_packets evs))" by (simp add: relay_inv_def)
  then have "subseq (rl_out s @ sends cfg (rl_queue s) @ sends cfg [p]) (sends cfg (link_packets evs) @ sends cfg [p])"
    "subseq (rl_out s @ sends cfg (rl_queue s)) (sends cfg (link_packets evs) @ sends cfg [p])"
    using subseq_append [of "rl_out s @ sends cfg (rl_queue s)" "sends cfg [p]"] subseq_rev_drop_many by simp_all
  then show ?thesis using i Link_packet by (simp add: relay_inv_def del: sends_simps(3))
next
  case (Loop_turn b)
  assume "relay_inv cfg evs s"
  then show ?thesis using Loop_turn loop_turn_sends [of cfg b s] by (auto simp: relay_inv_def loop_turn_other intro: subseq_order.trans)
qed (auto simp: relay_inv_def relay_datagram_def intro: prefix_prefix)

lemma relay_run_inv: "relay_inv cfg evs (relay_run cfg evs)"
proof (induction evs rule: rev_induct)
  case (snoc e evs)
  then show ?case using relay_step_inv [of cfg evs "relay_run cfg evs" e] by (simp add: relay_run_def)
qed (simp add: relay_inv_def relay_run_def relay_new_def link_packets_def relay_answers_def)

text \<open>A relay under every interleaving: what goes out of the socket are packets of the link, each to the target the configuration gives it and in the order of the link, what goes
  back are the datagrams that arrived, in their order, cut to the buffer; none is lost on the way back while the receiving task runs, and the handler returns only after the
  socket has failed or the peer's receiver is gone: closing the link does not end it.\<close>
theorem relay_delivers:
  "subseq (rl_out (relay_run cfg evs)) (sends cfg (link_packets evs)) \<and>
   prefix (rl_back (relay_run cfg evs)) (relay_answers cfg evs) \<and>
   (rl_recv_done (relay_run cfg evs) \<or> rl_back (relay_run cfg evs) = relay_answers cfg evs) \<and>
   (if relay_returned (relay_run cfg evs) then Socket_fails \<in> set evs \<or> Link_receiver_gone \<in> set evs else True)"
proof -
  have i: "relay_inv cfg evs (relay_run cfg evs)" by (rule relay_run_inv)
  then have "subseq (rl_out (relay_run cfg evs)) (sends cfg (link_packets evs))"
    by (auto simp: relay_inv_def intro: subseq_part)
  then show ?thesis using i by (auto simp: relay_inv_def relay_returned_def)
qed

text \<open>With a link that stays open, a socket that sends and a turn of the loop for every packet, every packet with a target goes out.\<close>

lemma relay_drains: "rl_loop_done s = False \<Longrightarrow>
  foldl (relay_step cfg) s (replicate (length (rl_queue s)) (Loop_turn True)) = s\<lparr>rl_queue := [], rl_out := rl_out s @ sends cfg (rl_queue s)\<rparr>"
proof (induction "rl_queue s" arbitrary: s)
  case (Cons p ps)
  let ?s = "loop_turn cfg True s"
  have q: "rl_queue ?s = ps" "rl_loop_done ?s = False" using Cons.hyps(2) [symmetric] Cons.prems by (simp_all add: loop_turn_def Let_def split: option.split)
  have "foldl (relay_step cfg) ?s (replicate (length ps) (Loop_turn True)) = ?s\<lparr>rl_queue := [], rl_out := rl_out ?s @ sends cfg ps\<rparr>"
    using Cons.hyps(1) [of ?s] q by simp
  moreover have "?s\<lparr>rl_queue := [], rl_out := rl_out ?s @ sends cfg ps\<rparr> = s\<lparr>rl_queue := [], rl_out := rl_out s @ sends cfg (p # ps)\<rparr>"
    using Cons.hyps(2) [symmetric] Cons.prems by (simp add: loop_turn_def Let_def split: option.split)
  ultimately show ?case using Cons.hyps(2) [symmetric] by simp
qed simp

text \<open>The DNS outbound sends every query to its server, whatever the target of the packet, and marks every answer as the server's, whoever sent it, cut to 512 bytes.\<close>

lemma dns_relay_fixed:
  assumes "p \<in> set (rl_back (relay_run (dns_relay server) evs))"
  shows "pkt_source p = UdpDestination (ip_address (fst server)) (Port (snd server)) \<and> length (pkt_data p) \<le> 512"
proof -
  have "p \<in> set (relay_answers (dns_relay server) evs)"
    using assms relay_run_inv [of "dns_relay server" evs] set_mono_prefix by (auto simp: relay_inv_def)
  then show ?thesis by (auto simp: relay_answers_def dns_relay_def split: relay_event.splits)
qed

lemma dns_relay_target:
  assumes "(a, d) \<in> set (rl_out (relay_run (dns_relay server) evs))"
  shows "a = server \<and> (\<exists>p \<in> set (link_packets evs). pkt_data p = d)"
proof -
  have "set (rl_out (relay_run (dns_relay server) evs)) \<subseteq> set (sends (dns_relay server) (link_packets evs))"
    using relay_run_inv [of "dns_relay server" evs] by (intro subseq_subset) (auto simp: relay_inv_def intro: subseq_part)
  then show ?thesis using assms by (auto simp: sends_def dns_relay_def map_filter_def)
qed

end
