(* ===== verification/Transport_Conn.thy ===== *)
theory Transport_Conn
  imports Socks
begin

text \<open>
  The wrappers of connections: the idle timeout (\<^verbatim>\<open>proxy/timeout.rs\<close>), the byte counters and the links (\<^verbatim>\<open>transport/lib.rs\<close>), the UDP hub and the UDP connection
  (\<^verbatim>\<open>transport/udp.rs\<close>). A wrapped connection is what its next poll answers; time is in milliseconds.
\<close>

section \<open>Polls\<close>

datatype 'a poll_result = Pending | Ready "(string, 'a) res"

fun is_ready :: "'a poll_result \<Rightarrow> bool" where
  "is_ready Pending = False"
| "is_ready (Ready _) = True"

section \<open>The idle timeout\<close>

record TimeoutConn =
  read_deadline :: nat
  write_deadline :: nat
  tc_idle :: nat

definition TimeoutConn_new :: "nat \<Rightarrow> nat \<Rightarrow> TimeoutConn" where
  "TimeoutConn_new now idle = \<lparr>read_deadline = now + idle, write_deadline = now + idle, tc_idle = idle\<rparr>"

definition bump_read :: "nat \<Rightarrow> TimeoutConn \<Rightarrow> TimeoutConn" where
  "bump_read now c = c\<lparr>read_deadline := now + tc_idle c\<rparr>"

definition bump_write :: "nat \<Rightarrow> TimeoutConn \<Rightarrow> TimeoutConn" where
  "bump_write now c = c\<lparr>write_deadline := now + tc_idle c\<rparr>"

text \<open>A poll at the time \<open>now\<close>: the answer, whether the wrapped connection was asked at all, and the state.\<close>

definition timeout_poll_read :: "nat \<Rightarrow> u8 list poll_result \<Rightarrow> TimeoutConn \<Rightarrow> u8 list poll_result \<times> bool \<times> TimeoutConn" where
  "timeout_poll_read now inner c =
     (if read_deadline c \<le> now then (Ready (Err ''read idle timeout''), False, bump_read now c)
      else (inner, True, if is_ready inner then bump_read now c else c))"

definition timeout_poll_write :: "nat \<Rightarrow> nat poll_result \<Rightarrow> TimeoutConn \<Rightarrow> nat poll_result \<times> bool \<times> TimeoutConn" where
  "timeout_poll_write now inner c =
     (if write_deadline c \<le> now then (Ready (Err ''write idle timeout''), False, bump_write now c)
      else (inner, True, if is_ready inner then bump_write now c else c))"

text \<open>A reader polled at given times, with what the wrapped connection would answer.\<close>

fun timeout_reads :: "(nat \<times> u8 list poll_result) list \<Rightarrow> TimeoutConn \<Rightarrow> u8 list poll_result list" where
  "timeout_reads [] c = []"
| "timeout_reads ((now, inner) # ps) c = (case timeout_poll_read now inner c of (r, _, c) \<Rightarrow> r # timeout_reads ps c)"

section \<open>Byte counters\<close>

record CounterConnection =
  read_counter :: "64 word"
  write_counter :: "64 word"

definition CounterConnection_new :: CounterConnection where
  "CounterConnection_new = \<lparr>read_counter = 0, write_counter = 0\<rparr>"

text \<open>A read counts what it added to the buffer, which is nothing while it is pending or when it fails.\<close>

definition counter_poll_read :: "u8 list poll_result \<Rightarrow> CounterConnection \<Rightarrow> u8 list poll_result \<times> CounterConnection" where
  "counter_poll_read inner c =
     (let added = (case inner of Ready (Ok d) \<Rightarrow> length d | _ \<Rightarrow> 0) in
      (inner, c\<lparr>read_counter := read_counter c + word_of_nat added\<rparr>))"

definition counter_poll_write :: "nat poll_result \<Rightarrow> CounterConnection \<Rightarrow> nat poll_result \<times> CounterConnection" where
  "counter_poll_write inner c =
     (inner, case inner of Ready (Ok n) \<Rightarrow> c\<lparr>write_counter := write_counter c + word_of_nat n\<rparr> | _ \<Rightarrow> c)"

section \<open>Links\<close>

text \<open>A link names the channel it reads from and the one it writes to.\<close>

datatype link_chan = Up | Down

record Link =
  link_reader :: link_chan
  link_writer :: link_chan

definition new_link_pair :: "Link \<times> Link" where
  "new_link_pair = (\<lparr>link_reader = Down, link_writer = Up\<rparr>, \<lparr>link_reader = Up, link_writer = Down\<rparr>)"

definition new_udp_link_pair :: "Link \<times> Link" where
  "new_udp_link_pair = (\<lparr>link_reader = Up, link_writer = Down\<rparr>, \<lparr>link_reader = Down, link_writer = Up\<rparr>)"

section \<open>UDP\<close>

text \<open>The packet the hub makes of a datagram, and the hub's task on the datagrams and errors of its socket; the flag says whether the receiver is still there.\<close>

definition hub_packet :: "IpAddr \<times> u16 \<Rightarrow> u8 list \<Rightarrow> UdpPacket" where
  "hub_packet src d =
     \<lparr>pkt_source = UdpDestination (case fst src of V4 o4 \<Rightarrow> Ipv4 o4 | V6 o6 \<Rightarrow> Ipv6 o6) (Port (snd src)),
      pkt_target = UdpDestination (Ipv4 [0, 0, 0, 0]) (Port 0), pkt_data = take 65535 d\<rparr>"

fun hub_task :: "(string, (IpAddr \<times> u16) \<times> u8 list) res list \<Rightarrow> bool \<Rightarrow> UdpPacket list" where
  "hub_task [] rx = []"
| "hub_task (Ok (src, d) # ds) rx = (if rx then hub_packet src d # hub_task ds rx else [])"
| "hub_task (_ # ds) rx = []"

record UdpConn =
  recv_buf :: "u8 list"
  recv_pos :: nat

definition UdpConn_new :: UdpConn where
  "UdpConn_new = \<lparr>recv_buf = [], recv_pos = 0\<rparr>"

text \<open>A read with nothing buffered spawns a task that receives one datagram into a buffer of its own and wakes the reader; the datagram is dropped with the buffer. The second
  component counts the tasks spawned.\<close>

definition udp_poll_read :: "nat \<Rightarrow> UdpConn \<Rightarrow> u8 list poll_result \<times> nat \<times> UdpConn" where
  "udp_poll_read remaining c =
     (if recv_pos c < length (recv_buf c) then
        (let n = min remaining (length (recv_buf c) - recv_pos c);
             d = take n (drop (recv_pos c) (recv_buf c));
             c = c\<lparr>recv_pos := recv_pos c + n\<rparr>
         in (Ready (Ok d), 0, if length (recv_buf c) \<le> recv_pos c then c\<lparr>recv_buf := [], recv_pos := 0\<rparr> else c))
      else (Pending, 1, c))"

text \<open>A write answers with the length of its data; the second component is what is sent.\<close>

definition udp_poll_write :: "u8 list \<Rightarrow> nat poll_result \<times> u8 list list" where
  "udp_poll_write buf = (Ready (Ok (length buf)), [])"

section \<open>What the wrappers keep\<close>

text \<open>As long as each read is polled and completes within the idle time after the one before, the wrapper changes nothing; a reader that waits longer is told so, the wrapped connection
  is not asked, and the next poll asks it again.\<close>

fun timely :: "nat \<Rightarrow> nat \<Rightarrow> (nat \<times> u8 list poll_result) list \<Rightarrow> bool" where
  "timely idle t [] = True"
| "timely idle t ((now, inner) # ps) = (now < t + idle \<and> timely idle (if is_ready inner then now else t) ps)"

lemma timeout_transparent:
  assumes "read_deadline c = t + tc_idle c" and "timely (tc_idle c) t ps"
  shows "timeout_reads ps c = map snd ps"
  using assms
proof (induction ps arbitrary: c t)
  case (Cons p ps)
  obtain now inner where p: "p = (now, inner)" by (cases p)
  have r: "timeout_poll_read now inner c = (inner, True, if is_ready inner then bump_read now c else c)" using Cons.prems p by (simp add: timeout_poll_read_def)
  have "timeout_reads ps (if is_ready inner then bump_read now c else c) = map snd ps"
    using Cons.prems p by (intro Cons.IH [of _ "if is_ready inner then now else t"]) (auto simp: bump_read_def)
  then show ?case by (simp add: p r)
qed simp

lemma timeout_reported:
  assumes "read_deadline c \<le> now"
  shows "timeout_reads ((now, inner) # ps) c = Ready (Err ''read idle timeout'') # timeout_reads ps (bump_read now c)"
  using assms by (simp add: timeout_poll_read_def)

text \<open>Reads and writes have deadlines of their own: writing does not keep a silent reader alive.\<close>

lemma write_keeps_read_deadline: "read_deadline (snd (snd (timeout_poll_write now inner c))) = read_deadline c"
  by (simp add: timeout_poll_write_def bump_write_def)

text \<open>The counters are the sums of the bytes, modulo the width of the counter.\<close>

definition read_size :: "u8 list poll_result \<Rightarrow> nat" where
  "read_size r = (case r of Ready (Ok d) \<Rightarrow> length d | _ \<Rightarrow> 0)"

lemma counter_reads: "read_counter (fold (\<lambda>r c. snd (counter_poll_read r c)) rs c) = read_counter c + word_of_nat (sum_list (map read_size rs))"
  by (induction rs arbitrary: c) (simp_all add: counter_poll_read_def Let_def read_size_def add.assoc)

lemma link_pair_crossed:
  "link_reader (fst new_link_pair) = link_writer (snd new_link_pair) \<and> link_writer (fst new_link_pair) = link_reader (snd new_link_pair) \<and>
   link_reader (fst new_udp_link_pair) = link_writer (snd new_udp_link_pair) \<and> link_writer (fst new_udp_link_pair) = link_reader (snd new_udp_link_pair)"
  by (simp add: new_link_pair_def new_udp_link_pair_def)

text \<open>The hub passes every datagram on until its socket fails.\<close>

lemma hub_passes_on: "hub_task (map Ok ds @ Err e # rs) True = map (\<lambda>(src, d). hub_packet src d) ds"
  by (induction ds) auto

text \<open>A UDP connection never delivers anything, however often it is polled, and each poll spawns one more task that takes a datagram away; what is written is not sent.\<close>

fun udp_polls :: "nat list \<Rightarrow> UdpConn \<Rightarrow> u8 list poll_result list \<times> nat" where
  "udp_polls [] c = ([], 0)"
| "udp_polls (n # ns) c = (case udp_poll_read n c of (r, k, c) \<Rightarrow> case udp_polls ns c of (rs, k') \<Rightarrow> (r # rs, k + k'))"

lemma udp_conn_silent: "udp_polls ns UdpConn_new = (replicate (length ns) Pending, length ns)"
  by (induction ns) (simp_all add: udp_poll_read_def UdpConn_new_def)

end
