(* ===== verification/Finalmask.thy ===== *)
theory Finalmask
  imports Piece_Io
begin

text \<open>
  \<^verbatim>\<open>finalmask\<close>: the Salamander mask over datagrams and streams (\<^verbatim>\<open>mask.rs\<close>) and the chains of masks (\<^verbatim>\<open>manager.rs\<close>). BLAKE2b is an
  argument; the random salts are the draws of a generator, counted from 0. A boxed connection is the chain of masks
  around the connection of the operating system.
\<close>

unbundle bit_operations_syntax

section \<open>The mask\<close>

definition xor_key :: "u8 list \<Rightarrow> u8 list \<Rightarrow> u8 list" where
  "xor_key key data = map (\<lambda>(i, b). b XOR key ! (i mod length key)) (enumerate 0 data)"

definition obfuscate :: "(u8 list \<Rightarrow> u8 list) \<Rightarrow> u8 list \<Rightarrow> u8 list \<Rightarrow> u8 list \<Rightarrow> u8 list" where
  "obfuscate blake psk salt data = salt @ xor_key (blake (psk @ salt)) data"

definition deobfuscate :: "(u8 list \<Rightarrow> u8 list) \<Rightarrow> u8 list \<Rightarrow> u8 list \<Rightarrow> (string, u8 list) res" where
  "deobfuscate blake psk data =
     (if length data < 16 then Err ''salamander: data too short''
      else Ok (xor_key (blake (psk @ take 16 data)) (drop 16 data)))"

lemma xor_key_length [simp]: "length (xor_key k d) = length d"
  by (simp add: xor_key_def)

lemma xor_key_nth [simp]: "i < length d \<Longrightarrow> xor_key k d ! i = d ! i XOR k ! (i mod length k)"
  by (simp add: xor_key_def nth_enumerate_eq)

lemma xor_key_involution [simp]: "xor_key k (xor_key k d) = d"
  by (rule nth_equalityI) (simp_all add: xor.assoc)

lemma xor_key_take: "take n (xor_key k d) = xor_key k (take n d)"
  by (rule nth_equalityI) simp_all

lemma obfuscate_length [simp]: "length salt = 16 \<Longrightarrow> length (obfuscate blake psk salt d) = length d + 16"
  by (simp add: obfuscate_def)

lemma deobfuscate_cut:
  assumes "length salt = 16"
  shows "deobfuscate blake psk (take n (obfuscate blake psk salt d)) =
    (if n < 16 then Err ''salamander: data too short'' else Ok (take (n - 16) d))"
  using assms by (simp add: deobfuscate_def obfuscate_def xor_key_take [symmetric])

section \<open>Datagrams\<close>

datatype udp_conn = Udp_Socket | SalamanderUdpConn "u8 list" udp_conn

text \<open>Sending draws one salt per mask; the value is the datagram on the wire, and the number of bytes returned is that of the innermost connection.\<close>

fun mask_send_to :: "(u8 list \<Rightarrow> u8 list) \<Rightarrow> (nat \<Rightarrow> u8 list) \<Rightarrow> nat \<Rightarrow> udp_conn \<Rightarrow> u8 list \<Rightarrow> nat \<times> u8 list" where
  "mask_send_to blake rng i Udp_Socket data = (length data, data)"
| "mask_send_to blake rng i (SalamanderUdpConn psk c) data = mask_send_to blake rng (Suc i) c (obfuscate blake psk (rng i) data)"

text \<open>Receiving into a buffer of \<open>cap\<close> bytes: the operating system cuts a longer datagram off, and each mask passes a buffer of the same size on.\<close>

fun mask_recv_from :: "(u8 list \<Rightarrow> u8 list) \<Rightarrow> nat \<Rightarrow> udp_conn \<Rightarrow> u8 list \<Rightarrow> (string, u8 list) res" where
  "mask_recv_from blake cap Udp_Socket dg = Ok (take cap dg)"
| "mask_recv_from blake cap (SalamanderUdpConn psk c) dg =
     rbind (mask_recv_from blake cap c dg) (\<lambda>tmp. rbind (deobfuscate blake psk tmp) (\<lambda>d. Ok (take cap d)))"

definition wrap_packet_conn :: "u8 list \<Rightarrow> udp_conn \<Rightarrow> (string, udp_conn) res" where
  "wrap_packet_conn psk c = Ok (SalamanderUdpConn psk c)"

fun wrap_all :: "('m \<Rightarrow> 'c \<Rightarrow> (string, 'c) res) \<Rightarrow> 'm list \<Rightarrow> 'c \<Rightarrow> (string, 'c) res" where
  "wrap_all wrap [] c = Ok c"
| "wrap_all wrap (k # ks) c = rbind (wrap k c) (wrap_all wrap ks)"

definition UdpmaskManager_wrap :: "u8 list list \<Rightarrow> udp_conn \<Rightarrow> (string, udp_conn) res" where
  "UdpmaskManager_wrap psks c = wrap_all wrap_packet_conn (rev psks) c"

section \<open>Streams\<close>

datatype tcp_conn = Tcp_Stream pconn | SalamanderConn "u8 list" tcp_conn

text \<open>One write: the operating system takes the first \<open>accept\<close> bytes, and their number is returned; one read into a buffer with room for \<open>n\<close> bytes.\<close>

fun mask_poll_write :: "(u8 list \<Rightarrow> u8 list) \<Rightarrow> (nat \<Rightarrow> u8 list) \<Rightarrow> nat \<Rightarrow> nat \<Rightarrow> tcp_conn \<Rightarrow> u8 list \<Rightarrow> (string, nat) res \<times> tcp_conn" where
  "mask_poll_write blake rng i accept (Tcp_Stream s) buf =
     (case pwrite [] (take accept buf) s of
        (Ok _, s) \<Rightarrow> (Ok (min accept (length buf)), Tcp_Stream s) | (Err e, s) \<Rightarrow> (Err e, Tcp_Stream s) | (Panic, s) \<Rightarrow> (Panic, Tcp_Stream s))"
| "mask_poll_write blake rng i accept (SalamanderConn psk c) buf =
     (case mask_poll_write blake rng (Suc i) accept c (obfuscate blake psk (rng i) buf) of (r, c) \<Rightarrow> (r, SalamanderConn psk c))"

fun mask_poll_read :: "(u8 list \<Rightarrow> u8 list) \<Rightarrow> nat \<Rightarrow> tcp_conn \<Rightarrow> (string, u8 list) res \<times> tcp_conn" where
  "mask_poll_read blake n (Tcp_Stream s) = (case pread n s of (r, s) \<Rightarrow> (r, Tcp_Stream s))"
| "mask_poll_read blake n (SalamanderConn psk c) =
     (case mask_poll_read blake n c of
        (Ok tmp, c) \<Rightarrow>
          (Ok (if tmp = [] then [] else case deobfuscate blake psk tmp of Ok d \<Rightarrow> take n d | _ \<Rightarrow> []), SalamanderConn psk c)
      | (r, c) \<Rightarrow> (r, SalamanderConn psk c))"

definition wrap_stream :: "u8 list \<Rightarrow> tcp_conn \<Rightarrow> (string, tcp_conn) res" where
  "wrap_stream psk c = Ok (SalamanderConn psk c)"

definition TcpmaskManager_wrap :: "u8 list list \<Rightarrow> tcp_conn \<Rightarrow> (string, tcp_conn) res" where
  "TcpmaskManager_wrap psks c = wrap_all wrap_stream (rev psks) c"

text \<open>\<^verbatim>\<open>tokio::io::AsyncWriteExt::write_all\<close> on a masked connection: after each write the written part is split off, which panics when more bytes were reported than given.
  A write of nothing is an error. The list holds what the operating system takes in each write.\<close>

fun mask_write_all :: "(u8 list \<Rightarrow> u8 list) \<Rightarrow> (nat \<Rightarrow> u8 list) \<Rightarrow> nat \<Rightarrow> nat list \<Rightarrow> tcp_conn \<Rightarrow> u8 list \<Rightarrow> (string, unit) res \<times> tcp_conn" where
  "mask_write_all blake rng i accs c [] = (Ok (), c)"
| "mask_write_all blake rng i [] c (b # buf) = (Err ''write zero byte into writer'', c)"
| "mask_write_all blake rng i (a # accs) c (b # buf) =
     (case mask_poll_write blake rng i a c (b # buf) of
        (Ok n, c) \<Rightarrow>
          if n = 0 then (Err ''write zero byte into writer'', c)
          else if Suc (length buf) < n then (Panic, c)
          else mask_write_all blake rng (Suc i) accs c (drop n (b # buf))
      | (Err e, c) \<Rightarrow> (Err e, c) | (Panic, c) \<Rightarrow> (Panic, c))"

section \<open>Chains of masks over datagrams\<close>

fun udp_masks :: "udp_conn \<Rightarrow> nat" where
  "udp_masks Udp_Socket = 0"
| "udp_masks (SalamanderUdpConn psk c) = Suc (udp_masks c)"

lemma send_recv:
  assumes "\<forall>i. length (rng i) = 16"
  shows "mask_recv_from blake cap c (snd (mask_send_to blake rng i c d)) =
    (if cap < 16 * udp_masks c then Err ''salamander: data too short'' else Ok (take (cap - 16 * udp_masks c) d))"
proof (induction c arbitrary: i d)
  case (SalamanderUdpConn psk c)
  let ?n = "cap - 16 * udp_masks c"
  have "mask_recv_from blake cap c (snd (mask_send_to blake rng (Suc i) c (obfuscate blake psk (rng i) d))) =
    (if cap < 16 * udp_masks c then Err ''salamander: data too short'' else Ok (take ?n (obfuscate blake psk (rng i) d)))"
    by (rule SalamanderUdpConn.IH)
  moreover have "deobfuscate blake psk (take ?n (obfuscate blake psk (rng i) d)) =
    (if ?n < 16 then Err ''salamander: data too short'' else Ok (take (?n - 16) d))" using assms by (intro deobfuscate_cut) simp
  moreover have "take cap (take (?n - 16) d) = take (cap - 16 * Suc (udp_masks c)) d"
  proof -
    have "min cap (?n - 16) = cap - 16 * Suc (udp_masks c)" by simp
    then show ?thesis by (simp only: take_take)
  qed
  ultimately show ?case by (auto simp del: take_take)
qed simp

lemma wrap_all_udp: "\<exists>c'. wrap_all wrap_packet_conn ks c = Ok c' \<and> udp_masks c' = length ks + udp_masks c"
proof (induction ks arbitrary: c)
  case (Cons k ks)
  show ?case using Cons [of "SalamanderUdpConn k c"] by (auto simp: wrap_packet_conn_def)
qed simp

lemma send_to_size: "(\<forall>i. length (rng i) = 16) \<Longrightarrow> fst (mask_send_to blake rng i c d) = length d + 16 * udp_masks c"
  by (induction c arbitrary: i d) simp_all

text \<open>Masked datagrams: both ends with the same list of passwords, a datagram goes through the chain of masks and comes out of the other end's chain cut to the size of
  the buffer less 16 bytes per mask; whole exactly when the buffer has room for the salts as well, and as an error when it has not even room for them.\<close>
theorem mask_udp_transparent:
  assumes "\<forall>i. length (rng i) = 16"
  shows "\<exists>c. UdpmaskManager_wrap psks Udp_Socket = Ok c \<and>
    (\<forall>i d cap. mask_recv_from blake cap c (snd (mask_send_to blake rng i c d)) =
      (if cap < 16 * length psks then Err ''salamander: data too short'' else Ok (take (cap - 16 * length psks) d)))"
proof -
  obtain c where "UdpmaskManager_wrap psks Udp_Socket = Ok c" "udp_masks c = length psks"
    using wrap_all_udp [of "rev psks" Udp_Socket] by (auto simp: UdpmaskManager_wrap_def)
  then show ?thesis using send_recv [OF assms, of blake _ c] by auto
qed

theorem mask_udp_transparent_witness:
  "\<exists>c. UdpmaskManager_wrap [[1], [2]] Udp_Socket = Ok c \<and>
    mask_recv_from id 40 c (snd (mask_send_to id (\<lambda>i. replicate 16 7) 0 c [1, 2, 3])) = Ok [1, 2, 3]"
proof -
  have "\<forall>i :: nat. length ((\<lambda>i. replicate 16 7) i :: u8 list) = 16" by simp
  from mask_udp_transparent [OF this, of "[[1], [2]]" id] obtain c where c: "UdpmaskManager_wrap [[1], [2]] Udp_Socket = Ok c"
    and r: "mask_recv_from id 40 c (snd (mask_send_to id (\<lambda>i. replicate 16 7) 0 c [1, 2, 3])) = Ok (take 8 [1, 2, 3])"
    by fastforce
  show ?thesis using c r by auto
qed

text \<open>A program that sends a datagram is told it sent more bytes than it gave.\<close>

lemma send_reports_more: "(\<forall>i. length (rng i) = 16) \<Longrightarrow> fst (mask_send_to blake rng i (SalamanderUdpConn psk c) d) > length d"
  by (subst send_to_size) simp_all

section \<open>Masks over streams\<close>

text \<open>A whole write that is read in one piece comes back, if the buffer has room for the salt too. With a shorter piece than a salt, or a buffer of at most 16 bytes,
  the read returns nothing, which is the end of the stream for the reader.\<close>

lemma mask_read_whole:
  assumes "length salt = 16" and "pieces s = obfuscate blake psk salt d # ps" and "length d + 16 \<le> n"
  shows "mask_poll_read blake n (SalamanderConn psk (Tcp_Stream s)) = (Ok d, SalamanderConn psk (Tcp_Stream (s\<lparr>pieces := ps\<rparr>)))"
proof -
  have "deobfuscate blake psk (obfuscate blake psk salt d) = Ok d" using deobfuscate_cut [OF assms(1), of blake psk "length d + 16" d] assms(1) by simp
  then show ?thesis using assms by (auto simp: pread_def obfuscate_def)
qed

lemma mask_read_short:
  assumes "pieces s = p # ps" and "length p < 16 \<or> n \<le> 16"
  shows "fst (mask_poll_read blake n (SalamanderConn psk (Tcp_Stream s))) = Ok []"
  using assms by (auto simp: pread_def deobfuscate_def xor_key_def)

text \<open>The first write of \<^verbatim>\<open>write_all\<close> through a mask panics when the operating system takes the whole of it: more bytes are reported written than were given.\<close>

lemma mask_write_all_panics:
  assumes "\<forall>i. length (rng i) = 16" and "data \<noteq> []" and "pwr_err s = None" and "length data + 16 \<le> a"
  shows "fst (mask_write_all blake rng i (a # accs) (SalamanderConn psk (Tcp_Stream s)) data) = Panic"
  using assms by (cases data) (auto simp: pwrite_def)

end
