(* ===== verification/Tun.thy ===== *)
theory Tun
  imports Prelude "HOL-Library.AList"
begin

text \<open>
  \<^verbatim>\<open>tun\<close>: echo replies and checksums (\<^verbatim>\<open>icmp.rs\<close>), what the packet loop does with a packet (\<^verbatim>\<open>stack.rs\<close>), and the table of the full-cone NAT
  (\<^verbatim>\<open>fullcone.rs\<close>). The device is not modelled: a packet goes in, the packets sent come out.
\<close>

unbundle bit_operations_syntax

section \<open>The checksum (icmp.rs)\<close>

text \<open>The loop over pairs of bytes; the sum is a 32-bit word and wraps.\<close>

fun sum_words :: "u8 list \<Rightarrow> u32 \<Rightarrow> u32" where
  "sum_words [] s = s"
| "sum_words [a] s = s + push_bit 8 (ucast a)"
| "sum_words (a # b # bs) s = sum_words bs (s + ucast (from_be16 [a, b]))"

lemma low_half: "unat (s AND 0xFFFF) = unat (s :: u32) mod 65536" and low_octet: "unat (c AND 0xFF) = unat (c :: u16) mod 256"
proof -
  have m: "(0xFFFF :: u32) = mask 16" "(0xFF :: u16) = mask 8" by (simp_all add: mask_eq_exp_minus_1)
  show "unat (s AND 0xFFFF) = unat s mod 65536"
    by (simp only: m(1) take_bit_eq_mask [symmetric] unsigned_take_bit_eq) (simp add: take_bit_eq_mod)
  show "unat (c AND 0xFF) = unat c mod 256"
    by (simp only: m(2) take_bit_eq_mask [symmetric] unsigned_take_bit_eq) (simp add: take_bit_eq_mod)
qed

lemma high_half: "unat (drop_bit 16 (s :: u32)) = unat s div 65536" and high_byte: "unat (drop_bit 8 (c :: u16)) = unat c div 256"
  by (subst unat_drop_bit_eq, simp add: drop_bit_eq_div)+

lemma fold_carry_decreases: "drop_bit 16 s \<noteq> (0 :: u32) \<Longrightarrow> unat ((s AND 0xFFFF) + drop_bit 16 s) < unat s"
proof -
  assume "drop_bit 16 s \<noteq> 0"
  then have d: "0 < unat s div 65536" using high_half [of s] by (metis unat_eq_zero gr0I)
  moreover have "unat s mod 65536 + unat s div 65536 < unat s" using d div_mult_mod_eq [of "unat s" 65536] by linarith
  ultimately show ?thesis using unat_bound [of s] by (subst unat_add_lem [THEN iffD1]) (auto simp: low_half high_half)
qed

function fold_carry :: "u32 \<Rightarrow> u32" where
  "fold_carry s = (if drop_bit 16 s \<noteq> 0 then fold_carry ((s AND 0xFFFF) + drop_bit 16 s) else s)"
  by pat_completeness auto
termination
  by (relation "measure unat") (auto intro: fold_carry_decreases)

declare fold_carry.simps [simp del]

text \<open>Reading beyond the data panics.\<close>

definition compute_checksum :: "u8 list \<Rightarrow> nat \<Rightarrow> u16 option" where
  "compute_checksum data len =
     (if length data < len then None else Some (ucast (NOT (fold_carry (sum_words (take len data) 0)))))"

section \<open>Echo requests and replies (icmp.rs)\<close>

definition ip_header_len :: "bool \<Rightarrow> nat" where
  "ip_header_len v6 = (if v6 then 40 else 20)"

definition parse_echo_request :: "u8 list \<Rightarrow> bool \<Rightarrow> (u16 \<times> u16) option" where
  "parse_echo_request data v6 =
     (let h = ip_header_len v6 in
      if length data < h + 8 then None
      else if \<not> (if v6 then data ! h = 128 \<and> data ! (h + 1) = 0 else data ! h = 8 \<and> data ! (h + 1) = 0) then None
      else Some (from_be16 [data ! (h + 4), data ! (h + 5)], from_be16 [data ! (h + 6), data ! (h + 7)]))"

definition swap_addresses :: "u8 list \<Rightarrow> bool \<Rightarrow> u8 list" where
  "swap_addresses data v6 =
     (if v6 then take 8 data @ take 16 (drop 24 data) @ take 16 (drop 8 data)
      else take 10 data @ [0, 0] @ take 4 (drop 16 data) @ take 4 (drop 12 data))"

definition echo_header :: "bool \<Rightarrow> u8 list" where
  "echo_header v6 = [if v6 then 129 else 0, 0, 0, 0]"

definition put16 :: "nat \<Rightarrow> u16 \<Rightarrow> u8 list \<Rightarrow> u8 list" where
  "put16 i c l = l[i := ucast (drop_bit 8 c), i + 1 := ucast (c AND 0xFF)]"

text \<open>None: no reply. The checksums are over the bytes at hand, so they do not panic.\<close>

definition build_echo_reply :: "u8 list \<Rightarrow> bool \<Rightarrow> u8 list option" where
  "build_echo_reply data v6 =
     (let h = ip_header_len v6 in
      if length data < h + 8 then None
      else
        let reply = swap_addresses data v6 @ echo_header v6 @ drop (h + 4) data in
        case compute_checksum (drop h reply) (length reply - h) of
          None \<Rightarrow> None
        | Some c \<Rightarrow>
            let reply = put16 (h + 2) c reply in
            if v6 then Some reply
            else (case compute_checksum (take 20 reply) 20 of None \<Rightarrow> None | Some c4 \<Rightarrow> Some (put16 10 c4 reply)))"

section \<open>The packet loop (stack.rs)\<close>

definition handle_ipv4 :: "u8 list \<Rightarrow> u8 list list" where
  "handle_ipv4 data =
     (if length data < 20 then []
      else if data ! 9 = 1 then (case build_echo_reply data False of Some r \<Rightarrow> [r] | None \<Rightarrow> [])
      else [])"

definition handle_ipv6 :: "u8 list \<Rightarrow> u8 list list" where
  "handle_ipv6 data =
     (if length data < 40 then []
      else if data ! 6 = 58 then (case build_echo_reply data True of Some r \<Rightarrow> [r] | None \<Rightarrow> [])
      else [])"

definition handle_packet :: "u8 list \<Rightarrow> u8 list list" where
  "handle_packet data =
     (if data = [] then []
      else let v = drop_bit 4 (data ! 0) in
        if v = 4 then handle_ipv4 data else if v = 6 then handle_ipv6 data else [])"

section \<open>Sums\<close>

fun words_sum :: "u8 list \<Rightarrow> nat" where
  "words_sum [] = 0"
| "words_sum [a] = unat a * 256"
| "words_sum (a # b # bs) = unat a * 256 + unat b + words_sum bs"

lemma words_sum_append: "even (length xs) \<Longrightarrow> words_sum (xs @ ys) = words_sum xs + words_sum ys"
  by (induction xs rule: words_sum.induct) auto

lemma unat_u8_le: "unat (a :: u8) \<le> 255"
  using unat_bound [of a] by simp

lemma unat_widen: "unat (ucast (a :: u8) :: u32) = unat a" "unat (ucast (c :: u16) :: u32) = unat c"
  using unat_bound [of a] unat_bound [of c] by (simp_all add: unsigned_ucast_eq take_bit_nat_eq_self_iff)

lemma words_sum_le: "words_sum l \<le> 65535 * ((length l + 1) div 2)"
proof (induction l rule: words_sum.induct)
  case (2 a)
  show ?case using unat_u8_le [of a] by simp
next
  case (3 a b bs)
  have "(length (a # b # bs) + 1) div 2 = Suc ((length bs + 1) div 2)" by simp
  then show ?case using 3 unat_u8_le [of a] unat_u8_le [of b] by simp
qed simp

lemma sum_words_unat: "unat s + words_sum l < 2 ^ 32 \<Longrightarrow> unat (sum_words l s) = unat s + words_sum l"
proof (induction l s rule: sum_words.induct)
  case (2 a s)
  have "unat (push_bit 8 (ucast a) :: u32) = unat a * 256"
  proof -
    have "unat (ucast a :: u32) * unat (256 :: u32) < 2 ^ 32" using unat_u8_le [of a] by (simp add: unat_widen)
    then have "unat (ucast a * 256 :: u32) = unat a * 256" by (subst unat_mult_lem [THEN iffD1]) (simp_all add: unat_widen)
    then show ?thesis by (simp add: push_bit_eq_mult)
  qed
  then show ?case using 2 by (subst sum_words.simps, subst unat_add_lem [THEN iffD1]) auto
next
  case (3 a b bs s)
  have w: "unat (from_be16 [a, b]) = unat a * 256 + unat b"
  proof -
    have "be_value [a, b] = unat a * 256 + unat b" by (simp add: be_value_def)
    moreover have "unat a * 256 + unat b \<le> 65535" using unat_u8_le [of a] unat_u8_le [of b] by simp
    ultimately show ?thesis unfolding from_be16_def by (simp only: unat_u16)
  qed
  then have u: "unat (ucast (from_be16 [a, b]) :: u32) = unat a * 256 + unat b" by (simp add: unat_widen)
  have "unat (s + ucast (from_be16 [a, b])) = unat s + (unat a * 256 + unat b)"
    using 3(2) u by (subst unat_add_lem [THEN iffD1]) auto
  then show ?case using 3 by simp
qed simp

lemma fold_carry_value:
  "unat (fold_carry s) < 65536 \<and> unat (fold_carry s) mod 65535 = unat s mod 65535 \<and> (unat (fold_carry s) = 0 \<longleftrightarrow> unat s = 0)"
proof (induction s rule: fold_carry.induct)
  case (1 s)
  note q = high_half [of s]
  show ?case
  proof (cases "drop_bit 16 s \<noteq> 0")
    case True
    let ?t = "(s AND 0xFFFF) + drop_bit 16 s"
    have t: "unat ?t = unat s mod 65536 + unat s div 65536"
      using low_half [of s] q unat_bound [of s] by (subst unat_add_lem [THEN iffD1]) auto
    have "unat s = 65535 * (unat s div 65536) + unat ?t" unfolding t using div_mult_mod_eq [of "unat s" 65536] by linarith
    then have "unat s mod 65535 = unat ?t mod 65535" by (metis mod_mult_self4)
    moreover have "unat ?t = 0 \<longleftrightarrow> unat s = 0" unfolding t using div_mult_mod_eq [of "unat s" 65536] by auto
    moreover have "fold_carry s = fold_carry ?t" using True by (subst fold_carry.simps) simp
    ultimately show ?thesis using 1 [OF True] by simp
  next
    case False
    then have "unat s div 65536 = 0" using q by simp
    then show ?thesis using False by (subst (1 2 3) fold_carry.simps) (simp add: div_eq_0_iff)
  qed
qed

lemma complement_half: "unat (w :: u32) < 65536 \<Longrightarrow> unat (ucast (NOT w) :: u16) = 65535 - unat w"
proof -
  assume w: "unat w < 65536"
  have "NOT w = - 1 - w" by (simp add: not_eq_complement)
  then have "unat (NOT w) = unat (- 1 :: u32) - unat w" by (simp add: unat_sub)
  also have "unat (- 1 :: u32) = 4294967295" by (simp add: unsigned_minus_1_eq_mask mask_eq_exp_minus_1)
  finally have "unat (ucast (NOT w) :: u16) = (4294967295 - unat w) mod 65536" by (simp add: unsigned_ucast_eq take_bit_eq_mod)
  also have "4294967295 - unat w = 65535 - unat w + 65535 * 65536" using w by simp
  also have "(65535 - unat w + 65535 * 65536) mod 65536 = 65535 - unat w" by (subst mod_mult_self1) simp
  finally show ?thesis .
qed

text \<open>A field that is zero when the sum is taken makes the sum come out right when it is filled with the checksum.\<close>

lemma checksum_verifies:
  assumes "even (length a)" and "length a + 2 + length b \<le> 131072"
    and "compute_checksum (a @ [0, 0] @ b) (length a + 2 + length b) = Some c"
  shows "compute_checksum (a @ [ucast (drop_bit 8 c), ucast (c AND 0xFF)] @ b) (length a + 2 + length b) = Some 0"
proof -
  define n where "n = words_sum a + words_sum b"
  let ?hi = "ucast (drop_bit 8 c) :: u8" and ?lo = "ucast (c AND 0xFF) :: u8"
  let ?f = "fold_carry (sum_words (a @ [0, 0] @ b) 0)" and ?g = "fold_carry (sum_words (a @ [?hi, ?lo] @ b) 0)"
  have app: "words_sum (a @ [x, y] @ b) = n + (unat x * 256 + unat y)" for x y
    using words_sum_append [OF assms(1), of "x # y # b"] by (simp add: n_def)
  have "words_sum a + words_sum b \<le> 65535 * ((length a + 1) div 2 + (length b + 1) div 2)"
    using words_sum_le [of a] words_sum_le [of b] by (simp add: distrib_left)
  also have "(length a + 1) div 2 + (length b + 1) div 2 \<le> 65535" using assms(1,2) by presburger
  finally have n: "n \<le> 65535 * 65535" by (simp add: n_def)
  have "unat (sum_words (a @ [0, 0] @ b) 0) = n" using sum_words_unat [of 0 "a @ [0, 0] @ b"] app [of 0 0] n by simp
  with fold_carry_value [of "sum_words (a @ [0, 0] @ b) 0"]
  have f: "unat ?f < 65536" "unat ?f mod 65535 = n mod 65535" "unat ?f = 0 \<longleftrightarrow> n = 0" by simp_all
  have "c = ucast (NOT ?f)" using assms(3) by (simp add: compute_checksum_def)
  then have c: "unat c = 65535 - unat ?f" using complement_half [OF f(1)] by simp
  have "unat ?hi = unat c div 256" "unat ?lo = unat c mod 256"
    using c by (simp_all add: unsigned_ucast_eq take_bit_eq_mod high_byte low_octet)
  then have "unat ?hi * 256 + unat ?lo = unat c" by simp
  then have "words_sum (a @ [?hi, ?lo] @ b) = n + (65535 - unat ?f)" using app [of ?hi ?lo] c by simp
  then have "unat (sum_words (a @ [?hi, ?lo] @ b) 0) = n + (65535 - unat ?f)" using sum_words_unat [of 0 "a @ [?hi, ?lo] @ b"] n by simp
  with fold_carry_value [of "sum_words (a @ [?hi, ?lo] @ b) 0"]
  have g: "unat ?g < 65536" "unat ?g mod 65535 = (n + (65535 - unat ?f)) mod 65535" "unat ?g = 0 \<longleftrightarrow> n + (65535 - unat ?f) = 0" by simp_all
  have "(n + (65535 - unat ?f)) mod 65535 = (unat ?f + (65535 - unat ?f)) mod 65535" using f(2) by (metis mod_add_left_eq)
  also have "\<dots> = 0" using f(1) by simp
  finally have "unat ?g mod 65535 = 0" using g(2) by simp
  then obtain k where k: "unat ?g = 65535 * k" by (auto simp: mod_eq_0_iff_dvd)
  have "n + (65535 - unat ?f) \<noteq> 0" using f(3) by auto
  then have "k \<noteq> 0" "k < 2" using g(1,3) k by auto
  then have "unat ?g = 65535" using k by (simp add: less_2_cases_iff)
  then have "unat (ucast (NOT ?g) :: u16) = 0" using complement_half [OF g(1)] by simp
  then have "ucast (NOT ?g) = (0 :: u16)" by (simp only: unat_eq_zero)
  then show ?thesis by (simp add: compute_checksum_def)
qed

section \<open>Echo replies\<close>

lemma put16_at: "length a = i \<Longrightarrow> put16 i c (a @ x # y # b) = a @ ucast (drop_bit 8 c) # ucast (c AND 0xFF) # b"
  by (simp add: put16_def list_update_append)

lemma swap_length: "ip_header_len v6 \<le> length data \<Longrightarrow> length (swap_addresses data v6) = ip_header_len v6"
  by (cases v6) (auto simp: swap_addresses_def ip_header_len_def)

lemma echo_reply_facts:
  assumes "ip_header_len v6 + 8 \<le> length data" and "length data \<le> 131072"
  shows "\<exists>r. build_echo_reply data v6 = Some r \<and> length r = length data \<and>
    compute_checksum (drop (ip_header_len v6) r) (length r - ip_header_len v6) = Some 0 \<and>
    (\<not> v6 \<longrightarrow> compute_checksum (take 20 r) 20 = Some 0) \<and>
    (if v6 then take 16 (drop 8 r) = take 16 (drop 24 data) \<and> take 16 (drop 24 r) = take 16 (drop 8 data)
     else take 4 (drop 12 r) = take 4 (drop 16 data) \<and> take 4 (drop 16 r) = take 4 (drop 12 data)) \<and>
    take 2 (drop (ip_header_len v6) r) = [if v6 then 129 else 0, 0] \<and> drop (ip_header_len v6 + 4) r = drop (ip_header_len v6 + 4) data \<and> (\<not> v6 \<longrightarrow> take 10 r = take 10 data)"
proof -
  let ?h = "ip_header_len v6" and ?rest = "drop (ip_header_len v6 + 4) data" and ?t = "if v6 then 129 else 0 :: u8"
  let ?w = "swap_addresses data v6"
  have w: "length ?w = ?h" using assms(1) by (intro swap_length) simp
  have l: "length [?t, 0] + 2 + length ?rest = length (?w @ echo_header v6 @ ?rest) - ?h" by (simp add: w echo_header_def)
  obtain c where c: "compute_checksum ([?t, 0] @ [0, 0] @ ?rest) (length [?t, 0] + 2 + length ?rest) = Some c"
    by (simp add: compute_checksum_def)
  let ?icmp = "[?t, 0] @ [ucast (drop_bit 8 c), ucast (c AND 0xFF)] @ ?rest"
  have ok: "compute_checksum ?icmp (length [?t, 0] + 2 + length ?rest) = Some 0" by (rule checksum_verifies [OF _ _ c]) (use assms(2) in simp_all)
  have "put16 (?h + 2) c (?w @ echo_header v6 @ ?rest) = ?w @ ?icmp"
    using put16_at [of "?w @ [?t, 0]" "?h + 2" c 0 0 ?rest] w by (simp add: echo_header_def)
  moreover have "compute_checksum (drop ?h (?w @ echo_header v6 @ ?rest)) (length (?w @ echo_header v6 @ ?rest) - ?h) = Some c"
  proof -
    have "drop ?h (?w @ echo_header v6 @ ?rest) = [?t, 0] @ [0, 0] @ ?rest" by (simp add: w echo_header_def)
    then show ?thesis using c unfolding l by simp
  qed
  ultimately have b: "build_echo_reply data v6 = (if v6 then Some (?w @ ?icmp)
     else (case compute_checksum (take 20 (?w @ ?icmp)) 20 of None \<Rightarrow> None | Some c4 \<Rightarrow> Some (put16 10 c4 (?w @ ?icmp))))"
    using assms(1) unfolding build_echo_reply_def Let_def by (simp only: option.case not_less [symmetric] if_False)
  have n: "length [?t, 0] + 2 + length ?rest = length data - ?h" "length (?w @ ?icmp) = length data" using assms(1) w by simp_all
  note ok = ok [unfolded n(1)]
  show ?thesis
  proof (cases v6)
    case True
    then show ?thesis using b ok assms(1) w n(2) by (intro exI [of _ "?w @ ?icmp"]) (simp add: swap_addresses_def ip_header_len_def)
  next
    case False
    let ?a = "take 10 data" and ?b = "take 4 (drop 16 data) @ take 4 (drop 12 data)"
    have sw: "?w = ?a @ [0, 0] @ ?b" "length ?a = 10" "length ?b = 8" using False assms(1) by (auto simp: swap_addresses_def ip_header_len_def)
    obtain c4 where c4: "compute_checksum (?a @ [0, 0] @ ?b) (length ?a + 2 + length ?b) = Some c4" by (simp add: compute_checksum_def)
    let ?hd = "?a @ [ucast (drop_bit 8 c4), ucast (c4 AND 0xFF)] @ ?b"
    have ok4: "compute_checksum ?hd (length ?a + 2 + length ?b) = Some 0"
      by (rule checksum_verifies [OF _ _ c4]) (use sw(2,3) in simp_all)
    have "take 20 (?w @ ?icmp) = ?a @ [0, 0] @ ?b" using sw by simp
    moreover have "put16 10 c4 (?w @ ?icmp) = ?hd @ ?icmp" using put16_at [of ?a 10 c4 0 0 "?b @ ?icmp"] sw by simp
    ultimately have "build_echo_reply data v6 = Some (?hd @ ?icmp)" using b False c4 sw(2,3) by simp
    then show ?thesis using ok ok4 sw(2,3) False assms(1)
      by (intro exI [of _ "?hd @ ?icmp"]) (simp add: ip_header_len_def)
  qed
qed



text \<open>The loop answers every ICMP message, not only requests: the answer to a reply is a reply again, without end.\<close>

lemma replies_are_answered:
  assumes "handle_packet data = [r]" and "length data \<le> 131072" and "drop_bit 4 (data ! 0) = 4"
  shows "\<exists>r'. handle_packet r = [r'] \<and> length r' = length data \<and> drop_bit 4 (r ! 0) = 4"
proof -
  have d: "20 \<le> length data" "data ! 9 = 1" "build_echo_reply data False = Some r"
    using assms(1,3) by (auto simp: handle_packet_def handle_ipv4_def Let_def split: if_splits option.splits)
  then have len: "ip_header_len False + 8 \<le> length data" by (auto simp: build_echo_reply_def Let_def split: if_splits)
  from echo_reply_facts [OF this assms(2)] d(3) have r: "length r = length data" "take 10 r = take 10 data" by auto
  have "r ! 0 = data ! 0" "r ! 9 = data ! 9"
    using arg_cong [OF r(2), of "\<lambda>l. l ! 0"] arg_cong [OF r(2), of "\<lambda>l. l ! 9"] by simp_all
  note at = this
  obtain r' where r': "build_echo_reply r False = Some r'" "length r' = length r"
    using echo_reply_facts [of False r] len r(1) assms(2) by auto
  have "handle_ipv4 r = [r']" using at(2) d(1,2) r(1) r'(1) unfolding handle_ipv4_def by simp
  moreover have "drop_bit 4 (r ! 0) = 4" using at(1) assms(3) by simp
  moreover have "r \<noteq> []" using r(1) d(1) by auto
  ultimately show ?thesis using r(1) r'(2) unfolding handle_packet_def by simp
qed

section \<open>The full-cone table (fullcone.rs)\<close>

text \<open>A session holds the original destination and the sender of an unbounded channel. The channels are a store of their own, since the receiver of one is with the caller: a channel
  is the packets waiting in it and whether its receiver is still there; sending into a channel without a receiver fails and leaves it as it is.\<close>

record 'a fc_session =
  fc_dst :: 'a
  fc_tx :: nat

record 'a full_cone =
  fc_sessions :: "('a \<times> 'a fc_session) list"
  fc_chans :: "(u8 list list \<times> bool) list"

definition full_cone_new :: "'a full_cone" where
  "full_cone_new = \<lparr>fc_sessions = [], fc_chans = []\<rparr>"

definition fc_channel :: "bool \<Rightarrow> 'a full_cone \<Rightarrow> nat \<times> 'a full_cone" where
  "fc_channel rx fc = (length (fc_chans fc), fc\<lparr>fc_chans := fc_chans fc @ [([], rx)]\<rparr>)"

definition create_session :: "'a \<Rightarrow> 'a \<Rightarrow> 'a full_cone \<Rightarrow> nat \<times> 'a full_cone" where
  "create_session src dst fc =
     (let (c, fc) = fc_channel True fc in
      (c, fc\<lparr>fc_sessions := AList.update src \<lparr>fc_dst = dst, fc_tx = c\<rparr> (fc_sessions fc)\<rparr>))"

definition chan_send :: "nat \<Rightarrow> u8 list \<Rightarrow> (u8 list list \<times> bool) list \<Rightarrow> (u8 list list \<times> bool) list" where
  "chan_send c d cs = (case cs ! c of (q, rx) \<Rightarrow> if rx then cs[c := (q @ [d], rx)] else cs)"

definition forward_inbound :: "'a \<Rightarrow> u8 list \<Rightarrow> 'a full_cone \<Rightarrow> 'a option \<times> 'a full_cone" where
  "forward_inbound src d fc =
     (case map_of (fc_sessions fc) src of
        None \<Rightarrow> (None, fc)
      | Some s \<Rightarrow> (Some (fc_dst s), fc\<lparr>fc_chans := chan_send (fc_tx s) d (fc_chans fc)\<rparr>))"

definition fc_get_or_create :: "'a \<Rightarrow> 'a \<Rightarrow> 'a full_cone \<Rightarrow> 'a full_cone" where
  "fc_get_or_create src dst fc =
     (case map_of (fc_sessions fc) src of
        Some s \<Rightarrow> fc
      | None \<Rightarrow>
          let (c, fc) = fc_channel False fc in
          fc\<lparr>fc_sessions := AList.update src \<lparr>fc_dst = dst, fc_tx = c\<rparr> (fc_sessions fc)\<rparr>)"

definition has_session :: "'a \<Rightarrow> 'a full_cone \<Rightarrow> bool" where
  "has_session src fc \<longleftrightarrow> map_of (fc_sessions fc) src \<noteq> None"

definition fc_remove :: "'a \<Rightarrow> 'a full_cone \<Rightarrow> 'a full_cone" where
  "fc_remove src fc = fc\<lparr>fc_sessions := AList.delete src (fc_sessions fc)\<rparr>"

definition fc_len :: "'a full_cone \<Rightarrow> nat" where
  "fc_len fc = length (fc_sessions fc)"

definition fc_is_empty :: "'a full_cone \<Rightarrow> bool" where
  "fc_is_empty fc \<longleftrightarrow> fc_len fc = 0"

text \<open>The table has one session per source, every session's channel exists, and no two sources share one.\<close>

definition full_cone_ok :: "'a full_cone \<Rightarrow> bool" where
  "full_cone_ok fc \<longleftrightarrow> distinct (map fst (fc_sessions fc)) \<and> (\<forall>(a, s) \<in> set (fc_sessions fc). fc_tx s < length (fc_chans fc)) \<and>
     distinct (map (fc_tx \<circ> snd) (fc_sessions fc))"

lemma chan_send_length [simp]: "length (chan_send c d cs) = length cs"
  by (simp add: chan_send_def split: prod.split)

lemma update_elements: "set (AList.update k v al) \<subseteq> insert (k, v) (set al)"
  by (induction al) auto

lemma update_channels:
  assumes "distinct (map (fc_tx \<circ> snd) al)" and "\<forall>(a, s) \<in> set al. fc_tx s < n" and "fc_tx v = n"
  shows "distinct (map (fc_tx \<circ> snd) (AList.update k v al))"
  using assms(1,2)
proof (induction al)
  case (Cons p al)
  have "fc_tx (snd p) \<notin> (fc_tx \<circ> snd) ` set (AList.update k v al)"
  proof
    assume "fc_tx (snd p) \<in> (fc_tx \<circ> snd) ` set (AList.update k v al)"
    then obtain q where "q \<in> insert (k, v) (set al)" "fc_tx (snd q) = fc_tx (snd p)" using update_elements [of k v al] by fastforce
    then show False using Cons.prems assms(3) by (cases p) (auto intro: rev_image_eqI)
  qed
  moreover have "n \<notin> (fc_tx \<circ> snd) ` set al" using Cons.prems(2) by fastforce
  ultimately show ?case using Cons assms(3) by (cases p) auto
qed simp

lemma update_ok:
  assumes "full_cone_ok fc" and "fc_channel rx fc = (c, fc1)"
  shows "full_cone_ok (fc1\<lparr>fc_sessions := AList.update k \<lparr>fc_dst = d, fc_tx = c\<rparr> (fc_sessions fc1)\<rparr>)"
proof -
  let ?v = "\<lparr>fc_dst = d, fc_tx = c\<rparr>"
  have fc1: "fc_sessions fc1 = fc_sessions fc" "length (fc_chans fc1) = Suc c" "c = length (fc_chans fc)" using assms(2) by (auto simp: fc_channel_def)
  have old: "\<forall>(a, s) \<in> set (fc_sessions fc). fc_tx s < c" using assms(1) fc1(3) by (simp add: full_cone_ok_def)
  then have "\<forall>(a, s) \<in> set (AList.update k ?v (fc_sessions fc)). fc_tx s < Suc c" using update_elements [of k ?v "fc_sessions fc"] by fastforce
  moreover have "distinct (map (fc_tx \<circ> snd) (AList.update k ?v (fc_sessions fc)))"
    by (rule update_channels [OF _ old]) (use assms(1) in \<open>simp_all add: full_cone_ok_def\<close>)
  ultimately show ?thesis using assms(1) fc1(1,2) by (simp add: full_cone_ok_def distinct_update)
qed

lemma create_session_ok: "full_cone_ok fc \<Longrightarrow> full_cone_ok (snd (create_session src dst fc))"
  by (auto simp: create_session_def split: prod.split intro: update_ok)

lemma get_or_create_ok: "full_cone_ok fc \<Longrightarrow> full_cone_ok (fc_get_or_create src dst fc)"
  by (auto simp: fc_get_or_create_def split: prod.split option.split intro: update_ok)

lemma forward_inbound_ok: "full_cone_ok fc \<Longrightarrow> full_cone_ok (snd (forward_inbound src d fc))"
  by (simp add: forward_inbound_def full_cone_ok_def split: option.split)

lemma fc_remove_ok: "full_cone_ok fc \<Longrightarrow> full_cone_ok (fc_remove src fc)"
  by (auto simp: fc_remove_def full_cone_ok_def AList.delete_eq distinct_map_filter)

lemma full_cone_len: "full_cone_ok fc \<Longrightarrow> fc_len fc = card {src. has_session src fc}"
  using distinct_card [of "map fst (fc_sessions fc)"] by (simp add: fc_len_def has_session_def full_cone_ok_def map_of_eq_None_iff)

text \<open>A packet forwarded to a session made by \<^term>\<open>create_session\<close> reaches its receiver, behind the packets that were there, and reaches no other one; a session made by
  \<^term>\<open>fc_get_or_create\<close> answers with its destination all the same, but the packet is lost.\<close>

lemma create_then_forward:
  assumes "create_session src dst fc = (c, fc1)"
  shows "\<exists>fc2. forward_inbound src d fc1 = (Some dst, fc2) \<and> fc_chans fc2 = fc_chans fc @ [([d], True)]"
  using assms by (auto simp: create_session_def fc_channel_def forward_inbound_def chan_send_def map_of_eq_None_iff AList.update_conv)

lemma get_or_create_then_forward:
  assumes "\<not> has_session src fc" and "fc1 = fc_get_or_create src dst fc"
  shows "forward_inbound src d fc1 = (Some dst, fc1)"
  using assms by (auto simp: has_session_def fc_get_or_create_def fc_channel_def forward_inbound_def chan_send_def AList.update_conv Let_def)

lemma forward_elsewhere:
  assumes "full_cone_ok fc" and "map_of (fc_sessions fc) src = Some s" and "map_of (fc_sessions fc) src' = Some s'" and "src \<noteq> src'"
  shows "fc_chans (snd (forward_inbound src d fc)) ! fc_tx s' = fc_chans fc ! fc_tx s'"
proof -
  have "fc_tx s \<noteq> fc_tx s'" using assms by (fastforce simp: full_cone_ok_def distinct_map inj_on_def dest!: map_of_SomeD)
  then show ?thesis using assms(2) by (simp add: forward_inbound_def chan_send_def split: prod.split)
qed

end
