(* ===== verification/Json_Reader.thy ===== *)
theory Json_Reader
  imports Prelude
begin

text \<open>
  \<^verbatim>\<open>config/json_reader.rs\<close>: the reader that takes comments out of a configuration file, byte by byte, into buffers of the
  caller's size.
\<close>

section \<open>The automaton\<close>

datatype json_state =
  Content | Escape | DoubleQuote | DoubleQuoteEscape | SingleQuote | SingleQuoteEscape | Comment | Slash | MultilineComment | MultilineCommentStar

text \<open>What one byte adds to the output, and the next state: \<open>"\<close> is 34, \<open>#\<close> 35, \<open>'\<close> 39, \<open>*\<close> 42, \<open>/\<close> 47, backslash 92, line feed 10.\<close>

fun json_step :: "json_state \<Rightarrow> u8 \<Rightarrow> u8 list \<times> json_state" where
  "json_step Content x =
     (if x = 34 then ([x], DoubleQuote)
      else if x = 39 then ([x], SingleQuote)
      else if x = 92 then ([], Escape)
      else if x = 35 then ([], Comment)
      else if x = 47 then ([], Slash)
      else ([x], Content))"
| "json_step Escape x = ([92, x], Content)"
| "json_step DoubleQuote x = ([x], if x = 34 then Content else if x = 92 then DoubleQuoteEscape else DoubleQuote)"
| "json_step DoubleQuoteEscape x = ([92, x], DoubleQuote)"
| "json_step SingleQuote x = ([x], if x = 39 then Content else if x = 92 then SingleQuoteEscape else SingleQuote)"
| "json_step SingleQuoteEscape x = ([92, x], SingleQuote)"
| "json_step Comment x = (if x = 10 then ([10], Content) else ([], Comment))"
| "json_step Slash x =
     (if x = 47 then ([], Comment) else if x = 42 then ([], MultilineComment) else ([47, x], Slash))"
| "json_step MultilineComment x =
     (if x = 42 then ([], MultilineCommentStar) else if x = 10 then ([10], MultilineComment) else ([], MultilineComment))"
| "json_step MultilineCommentStar x =
     (if x = 47 then ([], Content) else if x = 42 then ([], MultilineCommentStar)
      else if x = 10 then ([10], MultilineCommentStar) else ([], MultilineComment))"

section \<open>Reading\<close>

text \<open>
  One call of \<^verbatim>\<open>read\<close> with \<open>space\<close> bytes left in the buffer; of two bytes the second is dropped when there is room for one. The input
  is what is left of the file and the error behind it, if any.
\<close>

record json_reader =
  jr_input :: "u8 list"
  jr_error :: "string option"
  jr_state :: json_state

fun json_loop :: "nat \<Rightarrow> u8 list \<Rightarrow> string option \<Rightarrow> json_state \<Rightarrow> (string, u8 list) res \<times> u8 list \<times> json_state" where
  "json_loop space [] err st =
     (if space = 0 then Ok [] else case err of None \<Rightarrow> Ok [] | Some e \<Rightarrow> Err e, [], st)"
| "json_loop space (x # xs) err st =
     (if space = 0 then (Ok [], x # xs, st)
      else case json_step st x of (out, st') \<Rightarrow>
        (case json_loop (space - length (take space out)) xs err st' of
           (r, rest) \<Rightarrow> (rbind r (\<lambda>more. Ok (take space out @ more)), rest)))"

definition json_read :: "nat \<Rightarrow> json_reader \<Rightarrow> (string, u8 list) res \<times> json_reader" where
  "json_read cap r =
     (case json_loop cap (jr_input r) (jr_error r) (jr_state r) of
        (res, inp, st) \<Rightarrow> (res, r\<lparr>jr_input := inp, jr_state := st\<rparr>))"

definition JsonCommentReader :: "u8 list \<Rightarrow> json_reader" where
  "JsonCommentReader bytes = \<lparr>jr_input = bytes, jr_error = None, jr_state = Content\<rparr>"

text \<open>\<^verbatim>\<open>read_to_end\<close>: reads into buffers of the sizes \<open>caps k\<close> until one returns nothing.\<close>

lemma json_loop_consumes: "json_loop space inp err st = (r, inp', st') \<Longrightarrow> length inp' \<le> length inp \<and> (0 < space \<and> inp \<noteq> [] \<longrightarrow> length inp' < length inp)"
proof (induction space inp err st arbitrary: r inp' st' rule: json_loop.induct)
  case (2 space x xs err st)
  obtain out st1 where o1: "json_step st x = (out, st1)" by force
  obtain r1 i1 s1 where l: "json_loop (space - length (take space out)) xs err st1 = (r1, i1, s1)" by (cases "json_loop (space - length (take space out)) xs err st1") auto
  show ?case
  proof (cases "space = 0")
    case False
    from "2.IH" [OF this o1 [symmetric] l] have "length i1 \<le> length xs" by simp
    then show ?thesis using "2.prems" False o1 l by auto
  qed (use "2.prems" in auto)
qed (auto split: if_splits)

lemma json_loop_output: "json_loop space inp err st = (Ok out, inp', st') \<Longrightarrow> out \<noteq> [] \<Longrightarrow> length inp' < length inp"
proof -
  assume l: "json_loop space inp err st = (Ok out, inp', st')" "out \<noteq> []"
  then have "0 < space" "inp \<noteq> []" by (cases inp; auto split: if_splits option.splits)+
  then show ?thesis using json_loop_consumes [OF l(1)] by simp
qed

function json_read_all :: "(nat \<Rightarrow> nat) \<Rightarrow> nat \<Rightarrow> json_reader \<Rightarrow> (string, u8 list) res" where
  "json_read_all caps k r =
     (case json_read (caps k) r of
        (Ok out, r') \<Rightarrow> if out = [] then Ok [] else rbind (json_read_all caps (Suc k) r') (\<lambda>more. Ok (out @ more))
      | (Err e, _) \<Rightarrow> Err e
      | (Panic, _) \<Rightarrow> Panic)"
  by pat_completeness auto
termination
  by (relation "measure (\<lambda>(_, _, r). length (jr_input r))") (auto simp: json_read_def dest: json_loop_output split: prod.splits)

declare json_read_all.simps [simp del]

section \<open>What is read\<close>

text \<open>The output without a buffer, and inputs on which no step writes two bytes.\<close>

fun json_run :: "json_state \<Rightarrow> u8 list \<Rightarrow> u8 list \<times> json_state" where
  "json_run st [] = ([], st)"
| "json_run st (x # xs) = (case json_step st x of (out, st1) \<Rightarrow> map_prod ((@) out) id (json_run st1 xs))"

fun tame :: "json_state \<Rightarrow> u8 list \<Rightarrow> bool" where
  "tame st [] \<longleftrightarrow> True"
| "tame st (x # xs) \<longleftrightarrow> length (fst (json_step st x)) \<le> 1 \<and> tame (snd (json_step st x)) xs"

lemma json_run_append: "json_run st (xs @ ys) = (case json_run st xs of (out, st1) \<Rightarrow> map_prod ((@) out) id (json_run st1 ys))"
  by (induction st xs rule: json_run.induct) (auto simp: map_prod_def split: prod.splits)

lemma tame_append: "tame st (xs @ ys) \<longleftrightarrow> tame st xs \<and> tame (snd (json_run st xs)) ys"
  by (induction st xs rule: tame.induct) (auto split: prod.splits)

lemma json_loop_tame:
  assumes "tame st inp"
  shows "\<exists>out rest st'. json_loop space inp None st = (Ok out, rest, st') \<and> fst (json_run st inp) = out @ fst (json_run st' rest) \<and>
    tame st' rest \<and> (length out = space \<or> rest = [])"
  using assms
proof (induction inp arbitrary: space st)
  case (Cons x inp)
  obtain o1 st1 where o1: "json_step st x = (o1, st1)" by force
  have t: "length o1 \<le> 1" "tame st1 inp" using Cons.prems o1 by simp_all
  show ?case
  proof (cases "space = 0")
    case True
    then show ?thesis using Cons.prems by simp
  next
    case False
    then have "take space o1 = o1" using t(1) by simp
    from Cons.IH [OF t(2), of "space - length o1"] obtain out rest st' where
      "json_loop (space - length o1) inp None st1 = (Ok out, rest, st')" "fst (json_run st1 inp) = out @ fst (json_run st' rest)"
      "tame st' rest" "length out = space - length o1 \<or> rest = []" by blast
    then show ?thesis using False o1 t(1) \<open>take space o1 = o1\<close> by (intro exI [of _ "o1 @ out"] exI [of _ rest] exI [of _ st']) auto
  qed
qed simp

lemma json_read_all_tame:
  assumes "tame (jr_state r) (jr_input r)" and "jr_error r = None" and "\<And>k. 0 < caps k"
  shows "json_read_all caps k r = Ok (fst (json_run (jr_state r) (jr_input r)))"
  using assms(1,2)
proof (induction "length (jr_input r)" arbitrary: r k rule: less_induct)
  case less
  from json_loop_tame [OF less.prems(1), of "caps k"] obtain out rest st' where
    l: "json_loop (caps k) (jr_input r) None (jr_state r) = (Ok out, rest, st')"
      "fst (json_run (jr_state r) (jr_input r)) = out @ fst (json_run st' rest)" "tame st' rest" "length out = caps k \<or> rest = []" by blast
  let ?r = "r\<lparr>jr_input := rest, jr_state := st'\<rparr>"
  have r: "json_read (caps k) r = (Ok out, ?r)" using l(1) less.prems(2) by (simp add: json_read_def)
  show ?case
  proof (cases "out = []")
    case True
    then have "rest = []" using l(4) assms(3) [of k] by auto
    then show ?thesis using True r l(2) by (subst json_read_all.simps) simp
  next
    case False
    then have "length rest < length (jr_input r)" using json_loop_output [OF l(1)] by blast
    then have "json_read_all caps (Suc k) ?r = Ok (fst (json_run st' rest))" using less.hyps [of ?r "Suc k"] l(3) less.prems(2) by simp
    then show ?thesis using False r l(2) by (subst json_read_all.simps) simp
  qed
qed

section \<open>Texts and their comments\<close>

datatype json_token =
  Plain_byte u8 | Double_quoted "u8 list" | Single_quoted "u8 list" | Line_comment "u8 list" | Hash_comment "u8 list" | Block_comment "u8 list"

fun render_token :: "json_token \<Rightarrow> u8 list" where
  "render_token (Plain_byte x) = [x]"
| "render_token (Double_quoted s) = [34] @ s @ [34]"
| "render_token (Single_quoted s) = [39] @ s @ [39]"
| "render_token (Line_comment s) = [47, 47] @ s @ [10]"
| "render_token (Hash_comment s) = [35] @ s @ [10]"
| "render_token (Block_comment s) = [47, 42] @ s @ [42, 47]"

fun strip_token :: "json_token \<Rightarrow> u8 list" where
  "strip_token (Plain_byte x) = [x]"
| "strip_token (Double_quoted s) = [34] @ s @ [34]"
| "strip_token (Single_quoted s) = [39] @ s @ [39]"
| "strip_token (Line_comment s) = [10]"
| "strip_token (Hash_comment s) = [10]"
| "strip_token (Block_comment s) = filter (\<lambda>x. x = 10) s"

text \<open>Strings without escapes; a block comment must not look closed before its end: no star followed, possibly after line feeds, by a slash.\<close>

definition stays_open :: "u8 list \<Rightarrow> bool" where
  "stays_open s \<longleftrightarrow> \<not> (\<exists>a n b. s = a @ 42 # replicate n 10 @ 47 # b)"

fun token_ok :: "json_token \<Rightarrow> bool" where
  "token_ok (Plain_byte x) \<longleftrightarrow> x \<notin> {34, 35, 39, 47, 92}"
| "token_ok (Double_quoted s) \<longleftrightarrow> set s \<inter> {34, 92} = {}"
| "token_ok (Single_quoted s) \<longleftrightarrow> set s \<inter> {39, 92} = {}"
| "token_ok (Line_comment s) \<longleftrightarrow> 10 \<notin> set s"
| "token_ok (Hash_comment s) \<longleftrightarrow> 10 \<notin> set s"
| "token_ok (Block_comment s) \<longleftrightarrow> stays_open s"

lemma run_string: "set s \<inter> {34, 92} = {} \<Longrightarrow> json_run DoubleQuote s = (s, DoubleQuote) \<and> tame DoubleQuote s"
  "set s \<inter> {39, 92} = {} \<Longrightarrow> json_run SingleQuote s = (s, SingleQuote) \<and> tame SingleQuote s"
  by (induction s) auto

lemma run_comment: "10 \<notin> set s \<Longrightarrow> json_run Comment s = ([], Comment) \<and> tame Comment s"
  by (induction s) auto

lemma stays_open_Cons: "stays_open (x # s) \<Longrightarrow> stays_open s \<and> (x = 42 \<longrightarrow> \<not> (\<exists>n b. s = replicate n 10 @ 47 # b))"
  unfolding stays_open_def by (metis append_Cons append_Nil)

lemma run_block:
  "stays_open s \<Longrightarrow> fst (json_run MultilineComment s) = filter (\<lambda>x. x = 10) s \<and>
     snd (json_run MultilineComment s) \<in> {MultilineComment, MultilineCommentStar} \<and> tame MultilineComment s"
  "stays_open s \<Longrightarrow> \<not> (\<exists>n b. s = replicate n 10 @ 47 # b) \<Longrightarrow> fst (json_run MultilineCommentStar s) = filter (\<lambda>x. x = 10) s \<and>
     snd (json_run MultilineCommentStar s) \<in> {MultilineComment, MultilineCommentStar} \<and> tame MultilineCommentStar s"
proof (induction s)
  case (Cons x s)
  {
    case 1
    show ?case using stays_open_Cons [OF 1] Cons by auto
  next
    case 2
    have "x \<noteq> 47" using 2(2) by (metis append_Nil replicate_0)
    moreover have "\<not> (\<exists>n b. s = replicate n 10 @ 47 # b)" if "x = 10" using 2(2) that by (metis append_Cons replicate_Suc)
    ultimately show ?case using stays_open_Cons [OF 2(1)] Cons by auto
  }
qed auto

lemma run_token:
  assumes "token_ok t"
  shows "json_run Content (render_token t) = (strip_token t, Content) \<and> tame Content (render_token t)"
proof (cases t)
  case (Block_comment s)
  then have "stays_open s" using assms by simp
  note b = run_block(1) [OF this]
  obtain st where "json_run MultilineComment s = (filter (\<lambda>x. x = 10) s, st)" "st \<in> {MultilineComment, MultilineCommentStar}"
    using b by (cases "json_run MultilineComment s") auto
  then show ?thesis using b Block_comment by (auto simp: json_run_append tame_append)
qed (use assms run_string run_comment in \<open>auto simp: json_run_append tame_append\<close>)

lemma run_tokens:
  "list_all token_ok ts \<Longrightarrow> json_run Content (concat (map render_token ts)) = (concat (map strip_token ts), Content) \<and>
     tame Content (concat (map render_token ts))"
proof (induction ts)
  case (Cons t ts)
  then show ?case using run_token [of t] by (auto simp: json_run_append tame_append)
qed simp

text \<open>C36. Comments and nothing else are taken out of a configuration: a text of plain bytes, strings without escapes and comments of the three kinds is read as the same
  text without its comments, their line feeds kept, whatever sizes of buffers the caller reads into.\<close>
theorem json_comments_stripped:
  assumes "list_all token_ok ts" and "\<And>k. 0 < caps k"
  shows "json_read_all caps 0 (JsonCommentReader (concat (map render_token ts))) = Ok (concat (map strip_token ts))"
  using json_read_all_tame [of "JsonCommentReader (concat (map render_token ts))" caps 0] run_tokens [OF assms(1)] assms(2)
  by (simp add: JsonCommentReader_def)

theorem json_comments_stripped_witness:
  "json_read_all (\<lambda>_. 1) 0 (JsonCommentReader (concat (map render_token [Plain_byte 123, Double_quoted [47, 47], Block_comment [42, 10], Plain_byte 125]))) =
    Ok [123, 34, 47, 47, 34, 10, 125]"
proof -
  have "stays_open s" if "47 \<notin> set s" for s using that by (auto simp: stays_open_def)
  then have "stays_open [42, 10]" by simp
  then have "list_all token_ok [Plain_byte 123, Double_quoted [47, 47], Block_comment [42, 10], Plain_byte 125]" by simp
  from json_comments_stripped [OF this, of "\<lambda>_. 1"] show ?thesis by simp
qed

section \<open>Where it goes wrong\<close>

text \<open>
  The backslash of an escape in a string is written twice, which turns an escaped quote into the end of the string; when the buffer has room for one
  more byte the escaped byte is lost. After a slash that starts no comment every further byte is preceded by a slash.
\<close>

lemma json_escape_doubled:
  assumes "set s \<inter> {34, 92} = {}"
  shows "fst (json_run Content ([34] @ s @ [92, x] @ [34])) = [34] @ s @ [92, 92, x] @ [34]"
  using run_string(1) [OF assms] by (auto simp: json_run_append)

lemma json_escape_lost: "json_read 1 \<lparr>jr_input = x # rest, jr_error = None, jr_state = DoubleQuoteEscape\<rparr> =
    (Ok [92], \<lparr>jr_input = rest, jr_error = None, jr_state = DoubleQuote\<rparr>)"
  by (cases rest) (simp_all add: json_read_def)

lemma json_slash_repeated: "set s \<inter> {42, 47} = {} \<Longrightarrow> fst (json_run Content (47 # s)) = concat (map (\<lambda>x. [47, x]) s)"
proof -
  have "set s \<inter> {42, 47} = {} \<Longrightarrow> fst (json_run Slash s) = concat (map (\<lambda>x. [47, x]) s)" by (induction s) auto
  then show "set s \<inter> {42, 47} = {} \<Longrightarrow> ?thesis" by simp
qed

end
