(* ===== verification/Config.thy ===== *)
theory Config
  imports Json_Reader Http_Proxy
begin

text \<open>
  \<^verbatim>\<open>config\<close>: lists of ports and ranges as text (\<^verbatim>\<open>types.rs\<close>), loading and merging of configurations (\<^verbatim>\<open>lib.rs\<close>). The parsers of JSON, YAML
  and TOML are libraries, hence arguments; what the sections of a configuration contain is only copied, hence a type variable.
\<close>

section \<open>Texts of lists and ranges (types.rs)\<close>

record CfgPortRange =
  cp_from :: u16
  cp_to :: u16

definition CfgPortRange_contains :: "CfgPortRange \<Rightarrow> u16 \<Rightarrow> bool" where
  "CfgPortRange_contains r p \<longleftrightarrow> p \<ge> cp_from r \<and> p \<le> cp_to r"

definition PortList_contains :: "CfgPortRange list \<Rightarrow> u16 \<Rightarrow> bool" where
  "PortList_contains l p \<longleftrightarrow> list_ex (\<lambda>r. CfgPortRange_contains r p) l"

text \<open>Values of a configuration file as the visitors see them; the text of a number that does not parse is left out.\<close>

datatype scalar = Num_u64 u64 | Num_i64 "64 word" | Text string

definition single_port :: "u16 \<Rightarrow> CfgPortRange" where
  "single_port p = \<lparr>cp_from = p, cp_to = p\<rparr>"

definition parse_port :: "string \<Rightarrow> (string, u16) res" where
  "parse_port s = (case parse_u16 s of Some n \<Rightarrow> Ok (word_of_nat n) | None \<Rightarrow> Err ''invalid port'')"

definition parse_range :: "string \<Rightarrow> (string, CfgPortRange) res" where
  "parse_range s =
     (case split_once (CHR ''-'') s of
        Some (a, b) \<Rightarrow> rbind (parse_port (trim a)) (\<lambda>lo. rbind (parse_port (trim b)) (\<lambda>hi. Ok \<lparr>cp_from = lo, cp_to = hi\<rparr>))
      | None \<Rightarrow> rbind (parse_port s) (\<lambda>p. Ok (single_port p)))"

fun parse_ranges :: "string list \<Rightarrow> (string, CfgPortRange list) res" where
  "parse_ranges [] = Ok []"
| "parse_ranges (s # ss) = rbind (parse_range (trim s)) (\<lambda>r. rbind (parse_ranges ss) (\<lambda>rs. Ok (r # rs)))"

definition PortList_visit_str :: "string \<Rightarrow> (string, CfgPortRange list) res" where
  "PortList_visit_str v = (if v = [] then Ok [] else parse_ranges (split_char (CHR '','') v))"

definition PortList_visit_u64 :: "u64 \<Rightarrow> CfgPortRange list" where
  "PortList_visit_u64 v = [single_port (ucast v)]"

fun PortListElement_visit :: "scalar \<Rightarrow> (string, CfgPortRange) res" where
  "PortListElement_visit (Num_u64 v) = Ok (single_port (ucast v))"
| "PortListElement_visit (Text s) = parse_range s"
| "PortListElement_visit (Num_i64 v) = Err ''a port number or range string''"

fun PortList_visit_seq :: "scalar list \<Rightarrow> (string, CfgPortRange list) res" where
  "PortList_visit_seq [] = Ok []"
| "PortList_visit_seq (x # xs) = rbind (PortListElement_visit x) (\<lambda>r. rbind (PortList_visit_seq xs) (\<lambda>rs. Ok (r # rs)))"

definition show_range :: "CfgPortRange \<Rightarrow> string" where
  "show_range r =
     (if cp_from r = cp_to r then show_nat (unat (cp_from r)) else show_nat (unat (cp_from r)) @ ''-'' @ show_nat (unat (cp_to r)))"

definition PortList_serialize :: "CfgPortRange list \<Rightarrow> string" where
  "PortList_serialize l = join '','' (map show_range l)"

definition StringList_visit_str :: "string \<Rightarrow> string list" where
  "StringList_visit_str v = (if v = [] then [] else map trim (split_char (CHR '','') v))"

definition NetworkList_visit_str :: "string \<Rightarrow> string list" where
  "NetworkList_visit_str v = (if v = [] then [] else map trim (split_char (CHR '','') v))"

record Int32Range =
  ir_from :: "32 word"
  ir_to :: "32 word"

text \<open>\<^verbatim>\<open>parse::<i32>\<close>: a sign, digits, and a value in range.\<close>

definition parse_i32 :: "string \<Rightarrow> (string, 32 word) res" where
  "parse_i32 s =
     (case s of
        c # cs \<Rightarrow>
          if c = CHR ''-'' then
            (if cs \<noteq> [] \<and> hd cs = CHR ''+'' then Err ''invalid number''
             else case parse_unsigned 2147483648 cs of Some n \<Rightarrow> Ok (- word_of_nat n) | None \<Rightarrow> Err ''invalid number'')
          else (case parse_unsigned 2147483647 s of Some n \<Rightarrow> Ok (word_of_nat n) | None \<Rightarrow> Err ''invalid number'')
      | [] \<Rightarrow> Err ''invalid number'')"

definition show_i32 :: "32 word \<Rightarrow> string" where
  "show_i32 w = (if sint w < 0 then ''-'' @ show_nat (nat (- sint w)) else show_nat (nat (sint w)))"

fun Int32Range_visit :: "scalar \<Rightarrow> (string, Int32Range) res" where
  "Int32Range_visit (Num_i64 v) = Ok \<lparr>ir_from = ucast v, ir_to = ucast v\<rparr>"
| "Int32Range_visit (Num_u64 v) = Ok \<lparr>ir_from = ucast v, ir_to = ucast v\<rparr>"
| "Int32Range_visit (Text s) =
     (case split_once (CHR ''-'') s of
        Some (a, b) \<Rightarrow> rbind (parse_i32 (trim a)) (\<lambda>lo. rbind (parse_i32 (trim b)) (\<lambda>hi. Ok \<lparr>ir_from = lo, ir_to = hi\<rparr>))
      | None \<Rightarrow> rbind (parse_i32 s) (\<lambda>n. Ok \<lparr>ir_from = n, ir_to = n\<rparr>))"

definition Int32Range_serialize :: "Int32Range \<Rightarrow> scalar" where
  "Int32Range_serialize r =
     (if ir_from r = ir_to r then Num_i64 (scast (ir_from r)) else Text (show_i32 (ir_from r) @ ''-'' @ show_i32 (ir_to r)))"

text \<open>Names of transports.\<close>

definition is_tcp :: "string \<Rightarrow> bool" where "is_tcp s \<longleftrightarrow> s = ''tcp''"
definition is_kcp :: "string \<Rightarrow> bool" where "is_kcp s \<longleftrightarrow> s = ''kcp''"
definition is_ws :: "string \<Rightarrow> bool" where "is_ws s \<longleftrightarrow> s = ''ws'' \<or> s = ''websocket''"
definition is_grpc :: "string \<Rightarrow> bool" where "is_grpc s \<longleftrightarrow> s = ''grpc''"
definition is_quic :: "string \<Rightarrow> bool" where "is_quic s \<longleftrightarrow> s = ''quic''"
definition is_http :: "string \<Rightarrow> bool" where "is_http s \<longleftrightarrow> s = ''http''"
definition is_h2 :: "string \<Rightarrow> bool" where "is_h2 s \<longleftrightarrow> s = ''h2'' \<or> s = ''http/2''"
definition is_splithttp :: "string \<Rightarrow> bool" where "is_splithttp s \<longleftrightarrow> s = ''splithttp'' \<or> s = ''xhttp''"
definition is_httpupgrade :: "string \<Rightarrow> bool" where "is_httpupgrade s \<longleftrightarrow> s = ''httpupgrade''"

section \<open>Loading (lib.rs)\<close>

definition detect_format :: "(string \<Rightarrow> string) \<Rightarrow> string \<Rightarrow> string" where
  "detect_format lc path =
     (let l = lc path in
      if ends_with ''.yaml'' l \<or> ends_with ''.yml'' l then ''yaml''
      else if ends_with ''.toml'' l then ''toml''
      else if ends_with ''.pb'' l \<or> ends_with ''.protobuf'' l then ''protobuf''
      else ''json'')"

text \<open>\<^verbatim>\<open>read_to_string\<close> through the comment reader; \<open>caps\<close> are the sizes of its buffers.\<close>

definition read_stripped :: "string \<Rightarrow> (nat \<Rightarrow> nat) \<Rightarrow> json_reader \<Rightarrow> (string, string) res" where
  "read_stripped msg caps r =
     (case json_read_all caps 0 r of
        Ok bs \<Rightarrow> if valid_utf8 bs then Ok (of_bytes bs) else Err (msg @ ''stream did not contain valid UTF-8'')
      | Err e \<Rightarrow> Err (msg @ e)
      | Panic \<Rightarrow> Panic)"

record 'c config_parsers =
  json_parser :: "string \<Rightarrow> (string, 'c) res"
  yaml_parser :: "string \<Rightarrow> (string, 'c) res"
  toml_parser :: "string \<Rightarrow> (string, 'c) res"

definition from_json :: "'c config_parsers \<Rightarrow> bool \<Rightarrow> (nat \<Rightarrow> nat) \<Rightarrow> string \<Rightarrow> (string, 'c) res" where
  "from_json P strict caps json =
     (if strict then map_err ((@) ''config parse error: '') (json_parser P json)
      else rbind (read_stripped ''read config: '' caps (JsonCommentReader (as_bytes json)))
             (\<lambda>s. map_err ((@) ''config parse error: '') (json_parser P s)))"

definition from_json_reader :: "'c config_parsers \<Rightarrow> (nat \<Rightarrow> nat) \<Rightarrow> json_reader \<Rightarrow> (string, 'c) res" where
  "from_json_reader P caps r =
     rbind (read_stripped ''read config: '' caps r) (\<lambda>s. map_err ((@) ''config parse error: '') (json_parser P s))"

definition from_yaml_reader :: "'c config_parsers \<Rightarrow> (nat \<Rightarrow> nat) \<Rightarrow> json_reader \<Rightarrow> (string, 'c) res" where
  "from_yaml_reader P caps r = rbind (read_stripped ''read yaml: '' caps r) (yaml_parser P)"

definition from_toml_reader :: "'c config_parsers \<Rightarrow> json_reader \<Rightarrow> (string, 'c) res" where
  "from_toml_reader P r =
     (case jr_error r of
        Some e \<Rightarrow> Err (''read toml: '' @ e)
      | None \<Rightarrow> if valid_utf8 (jr_input r) then toml_parser P (of_bytes (jr_input r)) else Err ''read toml: stream did not contain valid UTF-8'')"

definition load_config :: "'c config_parsers \<Rightarrow> (nat \<Rightarrow> nat) \<Rightarrow> json_reader \<Rightarrow> string \<Rightarrow> (string, 'c) res" where
  "load_config P caps r format =
     (if format = ''yaml'' then from_yaml_reader P caps r
      else if format = ''toml'' then from_toml_reader P r
      else from_json_reader P caps r)"

section \<open>Merging (lib.rs)\<close>

record 'a detour =
  dt_tag :: string
  dt_rest :: 'a

record 'a RootConfig =
  c_log :: "'a option"
  c_routing :: "'a option"
  c_dns :: "'a option"
  c_inbounds :: "'a detour list"
  c_outbounds :: "'a detour list"
  c_policy :: "'a option"
  c_api :: "'a option"
  c_stats :: "'a option"
  c_reverse :: "'a option"
  c_observatory :: "'a option"
  c_fake_dns :: "'a option"

definition RootConfig_default :: "'a RootConfig" where
  "RootConfig_default = \<lparr>c_log = None, c_routing = None, c_dns = None, c_inbounds = [], c_outbounds = [], c_policy = None, c_api = None,
     c_stats = None, c_reverse = None, c_observatory = None, c_fake_dns = None\<rparr>"

fun position :: "('b \<Rightarrow> bool) \<Rightarrow> 'b list \<Rightarrow> nat option" where
  "position P [] = None"
| "position P (x # xs) = (if P x then Some 0 else map_option Suc (position P xs))"

definition put_inbound :: "'a detour \<Rightarrow> 'a detour list \<Rightarrow> 'a detour list" where
  "put_inbound d l =
     (case position (\<lambda>x. dt_tag x = dt_tag d \<and> dt_tag d \<noteq> []) l of Some i \<Rightarrow> l[i := d] | None \<Rightarrow> l @ [d])"

definition put_outbound :: "bool \<Rightarrow> 'a detour \<Rightarrow> 'a detour list \<Rightarrow> 'a detour list" where
  "put_outbound tail d l =
     (case position (\<lambda>x. dt_tag x = dt_tag d \<and> dt_tag d \<noteq> []) l of
        Some i \<Rightarrow> l[i := d]
      | None \<Rightarrow> if tail then l @ [d] else d # l)"

definition or_else :: "'a option \<Rightarrow> 'a option \<Rightarrow> 'a option" where
  "or_else a b = (case a of Some _ \<Rightarrow> a | None \<Rightarrow> b)"

definition override_with :: "(string \<Rightarrow> string) \<Rightarrow> 'a RootConfig \<Rightarrow> string \<Rightarrow> 'a RootConfig \<Rightarrow> 'a RootConfig" where
  "override_with lc other filename cfg =
     \<lparr>c_log = or_else (c_log other) (c_log cfg), c_routing = or_else (c_routing other) (c_routing cfg), c_dns = or_else (c_dns other) (c_dns cfg),
      c_inbounds = fold put_inbound (c_inbounds other) (c_inbounds cfg),
      c_outbounds = fold (put_outbound (contains_str ''tail'' (lc filename))) (c_outbounds other) (c_outbounds cfg),
      c_policy = or_else (c_policy other) (c_policy cfg), c_api = or_else (c_api other) (c_api cfg), c_stats = or_else (c_stats other) (c_stats cfg),
      c_reverse = or_else (c_reverse other) (c_reverse cfg), c_observatory = or_else (c_observatory other) (c_observatory cfg),
      c_fake_dns = or_else (c_fake_dns other) (c_fake_dns cfg)\<rparr>"

definition merge_configs :: "(string \<Rightarrow> string) \<Rightarrow> ('a RootConfig \<times> string) list \<Rightarrow> 'a RootConfig" where
  "merge_configs lc cs =
     (case cs of [] \<Rightarrow> RootConfig_default | (base_cfg, _) # rest \<Rightarrow> fold (\<lambda>(other, filename). override_with lc other filename) rest base_cfg)"

section \<open>Port lists are read back\<close>

lemma show_nat_no: "c \<in> set (show_nat n) \<Longrightarrow> c \<noteq> CHR ''-'' \<and> c \<noteq> CHR '','' \<and> plain_char c"
proof -
  assume "c \<in> set (show_nat n)"
  then have c: "48 \<le> (of_char c :: nat)" "(of_char c :: nat) \<le> 57" using show_nat_chars by blast+
  then have "c \<noteq> CHR ''-''" "c \<noteq> CHR '',''" by auto
  then show ?thesis using c by (simp add: plain_char_def)
qed

lemma trim_plain_word: "plain_word s \<Longrightarrow> trim s = s"
  using trim_start_plain [of s] trim_end_plain [of s] by (auto simp: plain_word_def trim_def)

lemma show_range_chars: "plain_word (show_range r)" "CHR '','' \<notin> set (show_range r)"
proof -
  have "plain_char (CHR ''-'')" by (simp add: plain_char_def)
  then show "plain_word (show_range r)" "CHR '','' \<notin> set (show_range r)"
    using show_nat_no by (auto simp: show_range_def plain_word_def)
qed

lemma parse_show_port: "parse_port (show_nat (unat (p :: u16))) = Ok p"
  using unat_bound [of p] by (simp add: parse_port_def)

lemma split_once_none: "c \<notin> set s \<Longrightarrow> split_once c s = None"
proof -
  have "c \<notin> set s \<Longrightarrow> find_char c s = None" by (induction s) auto
  then show "c \<notin> set s \<Longrightarrow> ?thesis" by (simp add: split_once_def)
qed

lemma parse_show_range: "parse_range (show_range r) = Ok r"
proof (cases "cp_from r = cp_to r")
  case True
  have "split_once (CHR ''-'') (show_nat (unat (cp_from r))) = None" using show_nat_no by (intro split_once_none) blast
  then show ?thesis using True by (simp add: parse_range_def show_range_def parse_show_port single_port_def)
next
  case False
  have "CHR ''-'' \<notin> set (show_nat (unat (cp_from r)))" using show_nat_no by blast
  from split_once_append [OF this] have "split_once (CHR ''-'') (show_range r) = Some (show_nat (unat (cp_from r)), show_nat (unat (cp_to r)))"
    using False by (simp add: show_range_def)
  moreover have "trim (show_nat n) = show_nat n" for n using show_nat_no by (intro trim_plain_word) (auto simp: plain_word_def)
  ultimately show ?thesis by (simp add: parse_range_def parse_show_port)
qed

lemma split_join_ranges: "l \<noteq> [] \<Longrightarrow> split_char (CHR '','') (join '','' (map show_range l)) = map show_range l"
proof (induction l)
  case (Cons r l)
  then show ?case using split_char_none [OF show_range_chars(2)] split_char_first [OF show_range_chars(2)] by (cases l) simp_all
qed simp

text \<open>The text a list of ports is written as is read back as the same list.\<close>
theorem port_list_roundtrip: "PortList_visit_str (PortList_serialize l) = Ok l"
proof (cases "l = []")
  case False
  have "parse_ranges (map show_range l) = Ok l" by (induction l) (simp_all add: trim_plain_word show_range_chars(1) parse_show_range)
  moreover have "join '','' (map show_range l) \<noteq> []" using False show_range_chars(1) by (cases l; cases "tl l") (auto simp: plain_word_def)
  ultimately show ?thesis using split_join_ranges [OF False] by (simp add: PortList_visit_str_def PortList_serialize_def)
qed (simp add: PortList_visit_str_def PortList_serialize_def)

text \<open>Numbers are cut to sixteen bits instead of being refused; a range that starts below zero is written but not read.\<close>

lemma port_number_cut: "unat (cp_from (hd (PortList_visit_u64 v))) = unat v mod 65536"
  by (simp add: PortList_visit_u64_def single_port_def unsigned_ucast_eq take_bit_eq_mod)

lemma negative_range_unreadable:
  assumes "sint (ir_from r) < 0" and "ir_from r \<noteq> ir_to r"
  shows "Int32Range_visit (Int32Range_serialize r) = Err ''invalid number''"
proof -
  have t: "trim [] = []"
  proof -
    have "trim_prefixes ws [] = []" for ws by (subst trim_prefixes.simps) (auto split: option.split)
    then show ?thesis by (simp add: trim_def trim_start_def trim_end_def)
  qed
  have "split_once (CHR ''-'') (show_i32 (ir_from r) @ ''-'' @ show_i32 (ir_to r)) = Some ([], show_nat (nat (- sint (ir_from r))) @ ''-'' @ show_i32 (ir_to r))"
    using assms(1) by (simp add: show_i32_def split_once_def)
  then show ?thesis using assms(2) by (simp add: Int32Range_serialize_def parse_i32_def t)
qed

section \<open>The last file wins\<close>

definition find_tag :: "string \<Rightarrow> 'a detour list \<Rightarrow> 'a detour option" where
  "find_tag t l = find (\<lambda>d. dt_tag d = t) l"

lemma find_tag_update:
  assumes "t \<noteq> []" and "position (\<lambda>x. dt_tag x = dt_tag d \<and> dt_tag d \<noteq> []) l = Some i"
  shows "find_tag t (l[i := d]) = (if dt_tag d = t then Some d else find_tag t l)"
  using assms by (induction l arbitrary: i) (auto simp: find_tag_def split: if_splits)

lemma find_tag_absent:
  assumes "position (\<lambda>x. dt_tag x = dt_tag d \<and> dt_tag d \<noteq> []) l = None" and "dt_tag d \<noteq> []"
  shows "find_tag (dt_tag d) l = None"
  using assms by (induction l) (auto simp: find_tag_def split: if_splits)

lemma find_tag_put:
  assumes "t \<noteq> []"
  shows "find_tag t (put_inbound d l) = (if dt_tag d = t then Some d else find_tag t l)"
    "find_tag t (put_outbound tail d l) = (if dt_tag d = t then Some d else find_tag t l)"
proof -
  have app: "find_tag t (l @ [d]) = (case find_tag t l of Some x \<Rightarrow> Some x | None \<Rightarrow> if dt_tag d = t then Some d else None)"
    by (induction l) (simp_all add: find_tag_def)
  have cons: "find_tag t (d # l) = (if dt_tag d = t then Some d else find_tag t l)" by (simp add: find_tag_def)
  have *: "find_tag t (case position (\<lambda>x. dt_tag x = dt_tag d \<and> dt_tag d \<noteq> []) l of Some i \<Rightarrow> l[i := d] | None \<Rightarrow> l @ [d]) =
      (if dt_tag d = t then Some d else find_tag t l)"
  proof (cases "position (\<lambda>x. dt_tag x = dt_tag d \<and> dt_tag d \<noteq> []) l")
    case None
    then have "find_tag t l = None" if "dt_tag d = t" using find_tag_absent [OF None] assms that by simp
    then show ?thesis unfolding None option.case app by (cases "find_tag t l") auto
  next
    case (Some i)
    then show ?thesis using find_tag_update [OF assms Some] by simp
  qed
  show "find_tag t (put_inbound d l) = (if dt_tag d = t then Some d else find_tag t l)" using * by (simp add: put_inbound_def)
  show "find_tag t (put_outbound tail d l) = (if dt_tag d = t then Some d else find_tag t l)"
    using * cons by (cases tail; cases "position (\<lambda>x. dt_tag x = dt_tag d \<and> dt_tag d \<noteq> []) l") (simp_all add: put_outbound_def)
qed

lemma find_tag_fold:
  assumes "t \<noteq> []" and "\<And>d l. find_tag t (put d l) = (if dt_tag d = t then Some d else find_tag t l)"
  shows "find_tag t (fold put ds l) = or_else (find_tag t (rev ds)) (find_tag t l)"
proof (induction ds rule: rev_induct)
  case (snoc d ds)
  then show ?case using assms(2) by (simp add: find_tag_def or_else_def)
qed (simp add: find_tag_def or_else_def)

text \<open>Tags name at most one entry of a file.\<close>

definition tags_distinct :: "'a detour list \<Rightarrow> bool" where
  "tags_distinct l \<longleftrightarrow> distinct (map dt_tag (filter (\<lambda>d. dt_tag d \<noteq> []) l))"

lemma find_tag_rev: "tags_distinct l \<Longrightarrow> t \<noteq> [] \<Longrightarrow> find_tag t (rev l) = find_tag t l"
proof (induction l)
  case (Cons d l)
  have app: "find_tag t (xs @ [d]) = (case find_tag t xs of Some x \<Rightarrow> Some x | None \<Rightarrow> if dt_tag d = t then Some d else None)" for xs
    by (induction xs) (simp_all add: find_tag_def)
  have "find_tag t l = None" if "dt_tag d = t" using Cons.prems that by (auto simp: tags_distinct_def find_tag_def find_None_iff image_iff)
  moreover have "tags_distinct l" using Cons.prems(1) by (simp add: tags_distinct_def split: if_splits)
  ultimately show ?case using Cons.IH Cons.prems(2) app [of "rev l"] by (auto simp: find_tag_def split: option.splits)
qed simp


definition sample_config :: "string \<Rightarrow> nat \<Rightarrow> nat RootConfig" where
  "sample_config t n = RootConfig_default\<lparr>c_outbounds := [\<lparr>dt_tag = t, dt_rest = n\<rparr>], c_routing := Some n\<rparr>"


text \<open>New outbounds are put in front one by one, so a file's first outbound, its default, ends up behind its others.\<close>

lemma position_None: "\<forall>x \<in> set xs. \<not> P x \<Longrightarrow> position P xs = None"
  by (induction xs) auto

lemma new_outbounds_reversed:
  assumes "\<forall>d \<in> set ds. dt_tag d \<noteq> [] \<longrightarrow> dt_tag d \<notin> dt_tag ` set l" and "tags_distinct ds"
  shows "fold (put_outbound False) ds l = rev ds @ l"
  using assms
proof (induction ds arbitrary: l)
  case (Cons d ds)
  have "\<forall>x \<in> set l. \<not> (dt_tag x = dt_tag d \<and> dt_tag d \<noteq> [])" using Cons.prems(1) by (metis image_eqI list.set_intros(1))
  then have "position (\<lambda>x. dt_tag x = dt_tag d \<and> dt_tag d \<noteq> []) l = None" by (rule position_None)
  then have "put_outbound False d l = d # l" by (simp only: put_outbound_def option.case if_False)
  moreover have "\<forall>e \<in> set ds. dt_tag e \<noteq> [] \<longrightarrow> dt_tag e \<notin> dt_tag ` set (d # l)" "tags_distinct ds"
    using Cons.prems by (auto simp: tags_distinct_def image_iff split: if_splits)
  ultimately show ?case using Cons.IH [of "d # l"] by simp
qed simp

end
