(* ===== verification/Freedom.thy ===== *)
theory Freedom
  imports Http_Text Proxy_Io
begin

text \<open>
  \<^verbatim>\<open>proxy-freedom\<close>: the direct outbound with fragmentation, final rules, noise and the PROXY header, and \<^verbatim>\<open>proxyman/proxy_protocol.rs\<close>, which
  reads such headers. Name resolution, the clock (the source of random numbers) and sockets are arguments. A writer is
  the list of the writes so far and the error of a broken connection.
\<close>

section \<open>Configuration\<close>

record FragmentConfig =
  packets_from :: u64
  packets_to :: u64
  fr_length_min :: u64
  fr_length_max :: u64
  interval_min :: u64
  interval_max :: u64
  max_split_min :: u64
  max_split_max :: u64

definition parse_u64 :: "string \<Rightarrow> u64 option" where
  "parse_u64 s = map_option word_of_nat (parse_unsigned 18446744073709551615 s)"

definition parse_packets :: "string \<Rightarrow> u64 \<times> u64" where
  "parse_packets s =
     (let parts = split_char (CHR ''-'') s;
          a = (case parse_u64 (parts ! 0) of Some n \<Rightarrow> n | None \<Rightarrow> 0);
          b = (case (if length parts > 1 then parse_u64 (parts ! 1) else None) of Some n \<Rightarrow> n | None \<Rightarrow> a)
      in (a, b))"

section \<open>Fragmentation\<close>

text \<open>\<open>ns\<close> is the reading of the clock. The range wraps to zero for the widest bounds: the free function divides by it and panics, the method of
  \<open>FragmentWriter\<close> tests it first (\<open>g\<close>).\<close>

definition rand_between :: "bool \<Rightarrow> u64 \<Rightarrow> u64 \<Rightarrow> u64 \<Rightarrow> (string, u64) res" where
  "rand_between g ns mn mx =
     (if mn \<ge> mx then Ok mn else if mx - mn + 1 = 0 then (if g then Ok mn else Panic) else Ok (mn + ns mod (mx - mn + 1)))"

definition fwrite :: "string option \<Rightarrow> u8 list \<Rightarrow> u8 list list \<Rightarrow> (string, u8 list list) res" where
  "fwrite werr bs ws = (case werr of Some e \<Rightarrow> Err e | None \<Rightarrow> Ok (ws @ [bs]))"

text \<open>The end of the next chunk; a chunk that would end before its start panics.\<close>

definition chunk_end :: "bool \<Rightarrow> FragmentConfig \<Rightarrow> u64 \<Rightarrow> nat \<Rightarrow> nat \<Rightarrow> (string, nat) res" where
  "chunk_end g cfg ns from n =
     rbind (rand_between g ns (fr_length_min cfg) (fr_length_max cfg)) (\<lambda>r. Ok (min (usize_add from (unat r)) n))"

definition pause :: "bool \<Rightarrow> FragmentConfig \<Rightarrow> u64 \<Rightarrow> (string, unit) res" where
  "pause g cfg ns =
     (if interval_max cfg > 0 then rbind (rand_between g ns (interval_min cfg) (interval_max cfg)) (\<lambda>_. Ok ()) else Ok ())"

text \<open>
  The loop over the data, starting at \<open>from\<close>; \<open>clk k\<close> is the \<open>k\<close>-th reading of the clock. It need not end: a chunk may be empty.
\<close>

partial_function (option) frag_loop ::
  "bool \<Rightarrow> FragmentConfig \<Rightarrow> (nat \<Rightarrow> u64) \<Rightarrow> string option \<Rightarrow> u64 \<Rightarrow> u8 list \<Rightarrow> nat \<Rightarrow> u64 \<Rightarrow> nat \<Rightarrow> u8 list list \<Rightarrow> (string, u8 list list) res option" where
  "frag_loop g cfg clk werr max_split data k split_num from ws =
     (if from < length data then
        (case chunk_end g cfg (clk k) from (length data) of
           Ok to \<Rightarrow>
             if max_split > 0 \<and> split_num + 1 \<ge> max_split then Some (fwrite werr (drop from data) ws)
             else if to < from then Some Panic
             else
               (case rbind (fwrite werr (take (to - from) (drop from data)) ws) (\<lambda>ws'. rbind (pause g cfg (clk (k + 1))) (\<lambda>_. Ok ws')) of
                  Ok ws' \<Rightarrow> frag_loop g cfg clk werr max_split data (k + 2) (split_num + 1) to ws'
                | Err e \<Rightarrow> Some (Err e)
                | Panic \<Rightarrow> Some Panic)
         | Err e \<Rightarrow> Some (Err e)
         | Panic \<Rightarrow> Some Panic)
      else Some (Ok ws))"

text \<open>The record around a piece of the handshake: the first three bytes of the original, its length, the piece.\<close>

definition tls_record :: "u8 list \<Rightarrow> u8 list \<Rightarrow> u8 list" where
  "tls_record data chunk = take 3 data @ to_be16 (word_of_nat (length chunk)) @ chunk"

definition emit :: "bool \<Rightarrow> FragmentConfig \<Rightarrow> string option \<Rightarrow> u64 \<Rightarrow> u8 list \<Rightarrow> u8 list \<times> u8 list list \<Rightarrow> (string, u8 list \<times> u8 list list) res" where
  "emit g cfg werr ns buf = (\<lambda>(hello, ws).
     if interval_max cfg = 0 then Ok (hello @ buf, ws)
     else rbind (fwrite werr buf ws) (\<lambda>ws'.
       rbind (rand_between g ns (interval_min cfg) (interval_max cfg)) (\<lambda>_. Ok (hello, ws'))))"

partial_function (option) hello_loop ::
  "bool \<Rightarrow> FragmentConfig \<Rightarrow> (nat \<Rightarrow> u64) \<Rightarrow> string option \<Rightarrow> u64 \<Rightarrow> u8 list \<Rightarrow> u8 list \<Rightarrow> nat \<Rightarrow> u64 \<Rightarrow> nat \<Rightarrow> u8 list \<times> u8 list list \<Rightarrow>
   (string, u8 list \<times> u8 list list) res option" where
  "hello_loop g cfg clk werr max_split data tls k split_num from st =
     (if from < length tls then
        (case chunk_end g cfg (clk k) from (length tls) of
           Ok to \<Rightarrow>
             if max_split > 0 \<and> split_num + 1 \<ge> max_split then Some (emit g cfg werr (clk (k + 1)) (tls_record data (drop from tls)) st)
             else if to < from then Some Panic
             else
               (case emit g cfg werr (clk (k + 1)) (tls_record data (take (to - from) (drop from tls))) st of
                  Ok st' \<Rightarrow> hello_loop g cfg clk werr max_split data tls (k + 2) (split_num + 1) to st'
                | Err e \<Rightarrow> Some (Err e)
                | Panic \<Rightarrow> Some Panic)
         | Err e \<Rightarrow> Some (Err e)
         | Panic \<Rightarrow> Some Panic)
      else Some (Ok st))"

definition record_length :: "u8 list \<Rightarrow> nat" where
  "record_length data = 5 + (unat (data ! 3) * 256 + unat (data ! 4))"

definition write_hello :: "bool \<Rightarrow> FragmentConfig \<Rightarrow> (nat \<Rightarrow> u64) \<Rightarrow> string option \<Rightarrow> u8 list \<Rightarrow> (string, u8 list list) res option" where
  "write_hello g cfg clk werr data =
     (let rl = record_length data; tls = drop 5 (take rl data) in
      case rand_between g (clk 0) (max_split_min cfg) (max_split_max cfg) of
        Ok max_split \<Rightarrow>
          (case hello_loop g cfg clk werr max_split data tls 1 0 0 ([], []) of
             Some (Ok (hello, ws)) \<Rightarrow>
               Some (rbind (if hello \<noteq> [] then fwrite werr hello ws else Ok ws) (\<lambda>ws.
                 if length data > rl then fwrite werr (drop rl data) ws else Ok ws))
           | Some (Err e) \<Rightarrow> Some (Err e)
           | Some Panic \<Rightarrow> Some Panic
           | None \<Rightarrow> None)
      | Err e \<Rightarrow> Some (Err e)
      | Panic \<Rightarrow> Some Panic)"

definition write_fragmented :: "bool \<Rightarrow> FragmentConfig \<Rightarrow> (nat \<Rightarrow> u64) \<Rightarrow> string option \<Rightarrow> u64 \<Rightarrow> u8 list \<Rightarrow> (string, u8 list list) res option" where
  "write_fragmented g cfg clk werr count data =
     (if packets_from cfg = 0 \<and> packets_to cfg = 1 then
        if count \<noteq> 1 \<or> length data \<le> 5 \<or> data ! 0 \<noteq> 22 then Some (fwrite werr data [])
        else if length data < record_length data then Some (fwrite werr data [])
        else write_hello g cfg clk werr data
      else if packets_from cfg \<noteq> 0 \<and> (count < packets_from cfg \<or> count > packets_to cfg) then Some (fwrite werr data [])
      else
        (case rand_between g (clk 0) (max_split_min cfg) (max_split_max cfg) of
           Ok max_split \<Rightarrow> frag_loop g cfg clk werr max_split data 1 0 0 []
         | Err e \<Rightarrow> Some (Err e)
         | Panic \<Rightarrow> Some Panic))"

text \<open>The writer that counts its writes.\<close>

record FragmentWriter =
  fw_config :: FragmentConfig
  fw_count :: u64

definition FragmentWriter_write_all :: "(nat \<Rightarrow> u64) \<Rightarrow> string option \<Rightarrow> u8 list \<Rightarrow> FragmentWriter \<Rightarrow> (string, u8 list list) res option \<times> FragmentWriter" where
  "FragmentWriter_write_all clk werr data w =
     (let w = w\<lparr>fw_count := fw_count w + 1\<rparr> in (write_fragmented True (fw_config w) clk werr (fw_count w) data, w))"

section \<open>Final rules and noise\<close>

datatype RuleAction = Allow | Block

record FinalRule =
  fr_action :: RuleAction
  fr_networks :: "string list"
  fr_ports :: "(u16 \<times> u16) list"
  fr_ips :: "string list"
  block_delay_min :: u64
  block_delay_max :: u64

text \<open>A target that parses as an address never matches, nor does a CIDR block, whether it parses or not.\<close>

definition ip_matches :: "string \<Rightarrow> string \<Rightarrow> bool" where
  "ip_matches target_str cidr =
     (if parse_ipv4 target_str \<noteq> None \<or> parse_ipv6 target_str \<noteq> None then False
      else if CHR ''/'' \<in> set cidr then False
      else target_str = cidr)"

definition final_rule_matches :: "FinalRule \<Rightarrow> Destination \<Rightarrow> bool" where
  "final_rule_matches r target \<longleftrightarrow>
     (fr_networks r = [] \<or>
      (case network target of
         Tcp \<Rightarrow> ''tcp'' \<in> set (fr_networks r) | Udp \<Rightarrow> ''udp'' \<in> set (fr_networks r) | _ \<Rightarrow> False)) \<and>
     (fr_ports r = [] \<or>
      list_ex (\<lambda>(a, b). port_value (port target) \<ge> a \<and> port_value (port target) \<le> b) (fr_ports r)) \<and>
     (fr_ips r = [] \<or> list_ex (ip_matches (show_address (address target))) (fr_ips r))"

text \<open>\<open>r\<close> is a random 64-bit number; the widest range wraps to zero and the remainder panics.\<close>

definition random_in :: "u64 \<Rightarrow> u64 \<Rightarrow> u64 \<Rightarrow> (string, u64) res" where
  "random_in r mn mx =
     (if mn \<ge> mx then Ok mn else if mx - mn + 1 = 0 then Panic else Ok (mn + r mod (mx - mn + 1)))"

definition block_delay :: "u64 \<Rightarrow> FinalRule \<Rightarrow> (string, u64 option) res" where
  "block_delay r rule =
     (if fr_action rule = Block then
        rbind (random_in r (block_delay_min rule) (block_delay_max rule)) (\<lambda>d. Ok (if d > 0 then Some d else None))
      else Ok None)"

definition block_rule :: "string list \<Rightarrow> FinalRule" where
  "block_rule ips =
     \<lparr>fr_action = Block, fr_networks = [], fr_ports = [], fr_ips = ips, block_delay_min = 0, block_delay_max = 0\<rparr>"

definition default_blocking_rules :: "FinalRule list" where
  "default_blocking_rules =
     [block_rule [''10.0.0.0/8'', ''172.16.0.0/12'', ''192.168.0.0/16'', ''100.64.0.0/10'', ''127.0.0.0/8'', ''169.254.0.0/16'',
        ''224.0.0.0/4'', ''240.0.0.0/4'', ''255.255.255.255/32''],
      block_rule [''::1/128'', ''fe80::/10'', ''fc00::/7'', ''ff00::/8'', ''2001:db8::/32'']]"

record NoiseConfig =
  no_length_min :: u64
  no_length_max :: u64
  no_delay_min :: u64
  no_delay_max :: u64
  apply_to :: string

record NoiseWriter =
  nw_config :: NoiseConfig
  nw_target_v4 :: bool
  has_sent_noise :: bool

definition should_apply :: "NoiseWriter \<Rightarrow> bool" where
  "should_apply w \<longleftrightarrow>
     apply_to (nw_config w) = [] \<or>
     (if nw_target_v4 w then apply_to (nw_config w) = ''ipv4'' \<or> apply_to (nw_config w) = ''ip''
      else apply_to (nw_config w) = ''ipv6'' \<or> apply_to (nw_config w) = ''ip'')"

text \<open>The packet sent, if any, and the delay before it.\<close>

definition send_noise :: "u64 \<Rightarrow> u64 \<Rightarrow> NoiseWriter \<Rightarrow> (string, (u64 \<times> u8 list) option) res \<times> NoiseWriter" where
  "send_noise r1 r2 w =
     (if has_sent_noise w \<or> \<not> should_apply w then (Ok None, w)
      else
        (rbind (random_in r1 (no_length_min (nw_config w)) (no_length_max (nw_config w))) (\<lambda>len.
           rbind (random_in r2 (no_delay_min (nw_config w)) (no_delay_max (nw_config w))) (\<lambda>delay.
             Ok (Some (delay, replicate (unat len) 0)))), w\<lparr>has_sent_noise := True\<rparr>))"

section \<open>Resolving the target, the PROXY header\<close>

text \<open>\<open>lookup\<close> is the resolver of the system: addresses in its order, or nothing when it fails.\<close>

definition resolve_strategy :: "(string \<Rightarrow> Address list option) \<Rightarrow> string \<Rightarrow> Destination \<Rightarrow> Destination" where
  "resolve_strategy lookup strat target =
     (if strat = [] \<or> strat = ''AsIs'' then target
      else case address target of
        Domain_a d \<Rightarrow>
          (case lookup (d @ '':'' @ show_port (port target)) of
             None \<Rightarrow> target
           | Some addrs \<Rightarrow>
               let chosen = (if strat = ''UseIPv4'' then find (\<lambda>a. \<exists>b. a = Ipv4 b) addrs
                             else if strat = ''UseIPv6'' then find (\<lambda>a. \<exists>b. a = Ipv6 b) addrs
                             else (case addrs of a # _ \<Rightarrow> Some a | [] \<Rightarrow> None))
               in (case chosen of Some a \<Rightarrow> target\<lparr>address := a\<rparr> | None \<Rightarrow> target))
      | _ \<Rightarrow> target)"

definition freedom_target :: "(string \<Rightarrow> Address list option) \<Rightarrow> string \<Rightarrow> Destination option \<Rightarrow> Session \<Rightarrow> (string, Destination) res" where
  "freedom_target lookup strat redirect session =
     (case outbound session of
        None \<Rightarrow> Err ''no target destination''
      | Some ob \<Rightarrow> Ok (resolve_strategy lookup strat (case redirect of Some d \<Rightarrow> d | None \<Rightarrow> ob_target ob)))"

definition proxy_header :: "u8 \<Rightarrow> Session \<Rightarrow> Destination \<Rightarrow> string" where
  "proxy_header version session target =
     (let src_ip = (case inbound session of Some i \<Rightarrow> show_address (address (ib_source i)) | None \<Rightarrow> ''0.0.0.0'');
          src_port = (case inbound session of Some i \<Rightarrow> port_value (port (ib_source i)) | None \<Rightarrow> 0)
      in ''PROXY TCP'' @ (if version = 1 then ''1'' else ''2'') @ '' '' @ src_ip @ '' '' @ show_address (address target) @ '' '' @
         show_nat (unat src_port) @ '' '' @ show_nat (unat (port_value (port target))) @ crlf_str)"

text \<open>
  The relay towards the remote side: the reads of the link one after the other, each counted, then written with or without
  fragments. The result is the list of all writes; \<open>None\<close> when a write never ends.
\<close>

fun relay_fragmented :: "FragmentConfig \<Rightarrow> (nat \<Rightarrow> nat \<Rightarrow> u64) \<Rightarrow> string option \<Rightarrow> u64 \<Rightarrow> u8 list list \<Rightarrow> (string, u8 list list) res option" where
  "relay_fragmented cfg clk werr count [] = Some (Ok [])"
| "relay_fragmented cfg clk werr count (d # ds) =
     (if d = [] then Some (Ok [])
      else case write_fragmented False cfg (clk (length ds)) werr (count + 1) d of
        Some (Ok ws) \<Rightarrow> map_option (\<lambda>r. rbind r (\<lambda>ws'. Ok (ws @ ws'))) (relay_fragmented cfg clk werr (count + 1) ds)
      | Some (Err e) \<Rightarrow> Some (Err (''fragment: '' @ e))
      | Some Panic \<Rightarrow> Some Panic
      | None \<Rightarrow> None)"

section \<open>Reading a PROXY header (proxy\_protocol.rs)\<close>

text \<open>\<open>peeked\<close> is what \<^verbatim>\<open>peek\<close> saw of the stream, at most 108 bytes; the answer and how many bytes are consumed.\<close>

definition accept_proxy_protocol :: "u8 list \<Rightarrow> (string, string option \<times> nat) res" where
  "accept_proxy_protocol peeked =
     (if length peeked < 8 \<or> take 5 peeked \<noteq> as_bytes ''PROXY'' then Ok (None, 0)
      else case find_sub [13, 10] peeked of
        None \<Rightarrow> Err ''proxy protocol: no CRLF found''
      | Some i \<Rightarrow>
          let header = take (i + 2) peeked in
          if \<not> valid_utf8 header then Err ''proxy protocol: invalid utf8''
          else
            let parts = split_whitespace (of_bytes header) in
            if length parts \<ge> 5 \<and> parts ! 1 \<in> {''TCP4'', ''TCP6'', ''TCP''}
            then Ok (Some (parts ! 2 @ '':'' @ parts ! 4), i + 2)
            else Ok (Some ''UNKNOWN'', i + 2))"

section \<open>Fragmentation preserves the stream\<close>

lemma rand_between_range:
  fixes mn mx :: u64
  assumes "mn \<le> mx" "mn = 0 \<longrightarrow> mx \<noteq> - 1"
  obtains r where "rand_between g ns mn mx = Ok r" "mn \<le> r" "r \<le> mx"
proof (cases "mn \<ge> mx")
  case True
  then show thesis using assms(1) that [of mn] by (simp add: rand_between_def)
next
  case False
  have le: "unat mn \<le> unat mx" using assms(1) by (simp add: word_le_nat_alt)
  have d: "unat (mx - mn) = unat mx - unat mn" using le by (simp add: unat_sub assms(1))
  have ne: "mx - mn + 1 \<noteq> 0"
  proof
    assume "mx - mn + 1 = 0"
    then have "mx - mn = - 1" by (simp add: eq_neg_iff_add_eq_0)
    then have "unat (mx - mn) = unat (- 1 :: u64)" by simp
    also have "\<dots> = 2 ^ 64 - 1" by (simp add: unsigned_minus_1_eq_mask mask_eq_exp_minus_1)
    finally have "unat mx - unat mn = 2 ^ 64 - 1" using d by simp
    moreover have "unat mx < 2 ^ 64" using unat_bound [of mx] by simp
    ultimately have "unat mn = 0 \<and> unat mx = 2 ^ 64 - 1" by simp presburger
    then have "mn = 0" "mx = - 1" by (simp_all add: word_unat_eq_iff unsigned_minus_1_eq_mask mask_eq_exp_minus_1)
    then show False using assms(2) by simp
  qed
  have n: "unat (mx - mn + 1) = unat mx - unat mn + 1"
    using ne d unatSuc [of "mx - mn"] by (simp add: add.commute)
  let ?x = "ns mod (mx - mn + 1)"
  have "unat ?x < unat (mx - mn + 1)" using ne by (simp add: unat_mod_distrib unat_gt_0)
  then have x: "unat ?x \<le> unat mx - unat mn" using n by simp
  then have s: "unat (mn + ?x) = unat mn + unat ?x" using unat_bound [of mx] le by (subst unat_add_lem [THEN iffD1]) simp_all
  then show thesis using False ne x le that [of "mn + ?x"] by (simp add: rand_between_def word_le_nat_alt)
qed

lemma chunk_split: "frm \<le> to \<Longrightarrow> take (to - frm) (drop frm data) @ drop to data = drop frm data"
  by (metis add_diff_inverse_nat append_take_drop_id drop_drop not_less add.commute)

lemma chunk_end_le: "chunk_end g cfg ns frm n = Ok to \<Longrightarrow> to \<le> n"
  by (auto simp: chunk_end_def rbind_eq_Ok)

lemma frag_loop_stream:
  "frag_loop g cfg clk werr ms data k sn frm ws = Some res \<Longrightarrow>
   \<forall>ws'. res = Ok ws' \<longrightarrow> frm \<le> length data \<longrightarrow> concat ws' = concat ws @ drop frm data"
proof (rule frag_loop.raw_induct [where P = "\<lambda>g cfg clk werr ms data k sn frm ws res.
    \<forall>ws'. res = Ok ws' \<longrightarrow> frm \<le> length data \<longrightarrow> concat ws' = concat ws @ drop frm data"], goal_cases)
  case (1 f g cfg clk werr ms data k sn frm ws res)
  show ?case
  proof (intro allI impI)
    fix ws' assume r: "res = Ok ws'" "frm \<le> length data"
    show "concat ws' = concat ws @ drop frm data"
    proof (cases "frm < length data")
      case True
      with 1(3) r obtain to where to: "chunk_end g cfg (clk k) frm (length data) = Ok to" by (auto split: res.splits)
      show ?thesis
      proof (cases "0 < ms \<and> ms \<le> sn + 1")
        case True
        then show ?thesis using 1(3) r \<open>frm < length data\<close> to by (auto simp: fwrite_def split: option.splits)
      next
        case False
        let ?w = "rbind (fwrite werr (take (to - frm) (drop frm data)) ws) (\<lambda>ws'. rbind (pause g cfg (clk (k + 1))) (\<lambda>_. Ok ws'))"
        have ft: "frm \<le> to" and fr: "(case ?w of Ok ws' \<Rightarrow> f g cfg clk werr ms data (k + 2) (sn + 1) to ws' | Err e \<Rightarrow> Some (Err e) | Panic \<Rightarrow> Some Panic) = Some (Ok ws')"
          using 1(3) r \<open>frm < length data\<close> to False by (auto split: if_splits)
        obtain w where w: "?w = Ok w" "f g cfg clk werr ms data (k + 2) (sn + 1) to w = Some (Ok ws')"
          using fr by (cases ?w) auto
        have "w = ws @ [take (to - frm) (drop frm data)]" using w(1) by (auto simp: rbind_eq_Ok fwrite_def split: option.splits)
        moreover have "concat ws' = concat w @ drop to data" using 1(2) [OF w(2)] chunk_end_le [OF to] by simp
        ultimately show ?thesis using chunk_split [OF ft, of data] by simp
      qed
    next
      case False
      then show ?thesis using 1(3) r by simp
    qed
  qed
qed assumption

definition bounds_ok :: "FragmentConfig \<Rightarrow> bool" where
  "bounds_ok cfg \<longleftrightarrow> fr_length_min cfg \<le> fr_length_max cfg \<and> 0 < fr_length_min cfg \<and> unat (fr_length_max cfg) < 2 ^ 63 \<and>
     unat (interval_max cfg) < 2 ^ 63 \<and> unat (max_split_max cfg) < 2 ^ 63"

lemma rand_between_Ok: "unat mx < 2 ^ 63 \<Longrightarrow> \<exists>r. rand_between g ns mn mx = Ok r"
proof -
  assume m: "unat mx < 2 ^ 63"
  have "mx \<noteq> (- 1 :: u64)"
  proof
    assume "mx = (- 1 :: u64)"
    then have "unat mx = 2 ^ 64 - 1" by (simp add: unsigned_minus_1_eq_mask mask_eq_exp_minus_1)
    then show False using m by simp
  qed
  show ?thesis
  proof (cases "mn \<le> mx")
    case True
    then show ?thesis using rand_between_range [of mn mx g ns] \<open>mx \<noteq> - 1\<close> by blast
  next
    case False
    then have "mx \<le> mn" by simp
    then show ?thesis by (simp add: rand_between_def)
  qed
qed

lemma chunk_end_progress:
  assumes "bounds_ok cfg" "frm < n" "n < 2 ^ 63"
  obtains to where "chunk_end g cfg ns frm n = Ok to" "frm < to" "to \<le> n"
proof -
  have c: "fr_length_min cfg \<le> fr_length_max cfg" "fr_length_min cfg \<noteq> 0" using assms(1) by (auto simp: bounds_ok_def)
  then obtain r where r: "rand_between g ns (fr_length_min cfg) (fr_length_max cfg) = Ok r" "fr_length_min cfg \<le> r" "r \<le> fr_length_max cfg"
    using rand_between_range [of "fr_length_min cfg" "fr_length_max cfg" g ns] by blast
  then have "0 < unat r" using c(2) by (metis word_le_nat_alt unat_gt_0 le_zero_eq gr0I unat_eq_zero)
  moreover have "unat r < 2 ^ 63" using r(3) assms(1) by (simp add: bounds_ok_def word_le_nat_alt)
  ultimately show thesis using r(1) assms(2,3) by (intro that [of "min (frm + unat r) n"]) (auto simp: chunk_end_def usize_add_def)
qed

lemma frag_loop_total:
  assumes "bounds_ok cfg" and "length data < 2 ^ 63"
  shows "\<exists>ws'. frag_loop g cfg clk None ms data k sn frm ws = Some (Ok ws')"
proof (induction "length data - frm" arbitrary: k sn frm ws rule: less_induct)
  case less
  show ?case
  proof (cases "frm < length data")
    case True
    then obtain to where to: "chunk_end g cfg (clk k) frm (length data) = Ok to" "frm < to" "to \<le> length data"
      using chunk_end_progress [OF assms(1) True assms(2)] by blast
    have p: "pause g cfg ns = Ok ()" for ns
      using rand_between_Ok [of "interval_max cfg" g ns "interval_min cfg"] assms(1) by (auto simp: pause_def bounds_ok_def)
    show ?thesis
      using True to p less [of to "k + 2" "sn + 1" "ws @ [take (to - frm) (drop frm data)]"]
      by (subst frag_loop.simps) (auto simp: fwrite_def)
  qed (subst frag_loop.simps, simp)
qed

text \<open>With empty chunks and no limit on their number the loop never ends.\<close>

lemma frag_loop_diverges:
  assumes "fr_length_min cfg = 0" "fr_length_max cfg = 0" "interval_max cfg = 0" "frm < length data" "length data < 2 ^ 64"
  shows "frag_loop g cfg clk None 0 data k sn frm ws = None"
proof (rule ccontr)
  define stuck where "stuck = (\<lambda>(cfg :: FragmentConfig) (werr :: string option) (ms :: u64) (data :: u8 list) frm. fr_length_min cfg = 0 \<and> fr_length_max cfg = 0 \<and>
    interval_max cfg = 0 \<and> werr = None \<and> ms = 0 \<and> frm < length data \<and> length data < 2 ^ 64)"
  assume "frag_loop g cfg clk None 0 data k sn frm ws \<noteq> None"
  then obtain res where "frag_loop g cfg clk None 0 data k sn frm ws = Some res" by auto
  then have "\<not> stuck cfg None 0 data frm"
  proof (rule frag_loop.raw_induct [where P = "\<lambda>g cfg clk werr ms data k sn frm ws res. \<not> stuck cfg werr ms data frm", rotated])
    fix f g cfg clk werr ms data k sn frm ws res
    assume ih: "\<And>g cfg clk werr ms data k sn frm ws res. f g cfg clk werr ms data k sn frm ws = Some res \<Longrightarrow> \<not> stuck cfg werr ms data frm"
      and b: "(if frm < length data
      then case chunk_end g cfg (clk k) frm (length data) of
           Ok to \<Rightarrow>
             if 0 < ms \<and> ms \<le> sn + 1 then Some (fwrite werr (drop frm data) ws)
             else if to < frm then Some Panic
                  else case rbind (fwrite werr (take (to - frm) (drop frm data)) ws) (\<lambda>ws'. rbind (pause g cfg (clk (k + 1))) (\<lambda>_. Ok ws')) of
                       Ok ws' \<Rightarrow> f g cfg clk werr ms data (k + 2) (sn + 1) to ws' | Err e \<Rightarrow> Some (Err e) | Panic \<Rightarrow> Some Panic
           | Err e \<Rightarrow> Some (Err e) | Panic \<Rightarrow> Some Panic
      else Some (Ok ws)) = Some res"
    show "\<not> stuck cfg werr ms data frm"
    proof
      assume s: "stuck cfg werr ms data frm"
      then have "chunk_end g cfg (clk k) frm (length data) = Ok frm"
        by (simp add: stuck_def chunk_end_def rand_between_def usize_add_def)
      then have "f g cfg clk werr ms data (k + 2) (sn + 1) frm (ws @ [[]]) = Some res"
        using b s by (simp add: stuck_def fwrite_def pause_def)
      from ih [OF this] s show False by simp
    qed
  qed
  then show False using assms by (simp add: stuck_def)
qed

section \<open>The records of a handshake\<close>

definition emitted :: "FragmentConfig \<Rightarrow> u8 list \<Rightarrow> u8 list list \<Rightarrow> u8 list \<times> u8 list list \<Rightarrow> u8 list \<times> u8 list list \<Rightarrow> bool" where
  "emitted cfg data chunks st st' \<longleftrightarrow>
     (if interval_max cfg = 0 then fst st' = fst st @ concat (map (tls_record data) chunks) \<and> snd st' = snd st
      else fst st' = fst st \<and> concat (snd st') = concat (snd st) @ concat (map (tls_record data) chunks))"

lemma emit_Ok: "emit g cfg werr ns (tls_record data c) st = Ok st' \<Longrightarrow> emitted cfg data [c] st st'"
  by (cases st) (auto simp: emit_def emitted_def rbind_eq_Ok fwrite_def split: if_splits option.splits)

lemma emitted_trans: "emitted cfg data cs st st1 \<Longrightarrow> emitted cfg data cs' st1 st2 \<Longrightarrow> emitted cfg data (cs @ cs') st st2"
  by (auto simp: emitted_def split: if_splits)

lemma hello_loop_stream:
  assumes "hello_loop g cfg clk werr ms data tls k sn frm st = Some res"
  shows "\<forall>st'. res = Ok st' \<longrightarrow> frm \<le> length tls \<longrightarrow> (\<exists>chunks. concat chunks = drop frm tls \<and> emitted cfg data chunks st st')"
  using assms
proof (rule hello_loop.raw_induct [where P = "\<lambda>g cfg clk werr ms data tls k sn frm st res.
    \<forall>st'. res = Ok st' \<longrightarrow> frm \<le> length tls \<longrightarrow> (\<exists>chunks. concat chunks = drop frm tls \<and> emitted cfg data chunks st st')", rotated], goal_cases)
  case (1 f g cfg clk werr ms data tls k sn frm st res)
  show ?case
  proof (intro allI impI)
    fix st' assume r: "res = Ok st'" "frm \<le> length tls"
    show "\<exists>chunks. concat chunks = drop frm tls \<and> emitted cfg data chunks st st'"
    proof (cases "frm < length tls")
      case True
      with 1(2) r obtain to where to: "chunk_end g cfg (clk k) frm (length tls) = Ok to" by (auto split: res.splits)
      show ?thesis
      proof (cases "0 < ms \<and> ms \<le> sn + 1")
        case True
        then have "emit g cfg werr (clk (k + 1)) (tls_record data (drop frm tls)) st = Ok st'" using 1(2) r \<open>frm < length tls\<close> to by simp
        from emit_Ok [OF this] show ?thesis by (intro exI [of _ "[drop frm tls]"]) simp
      next
        case False
        let ?c = "take (to - frm) (drop frm tls)"
        let ?e = "emit g cfg werr (clk (k + 1)) (tls_record data ?c) st"
        have ft: "frm \<le> to" and fr: "(case ?e of Ok st' \<Rightarrow> f g cfg clk werr ms data tls (k + 2) (sn + 1) to st' | Err e \<Rightarrow> Some (Err e) | Panic \<Rightarrow> Some Panic) = Some (Ok st')"
          using 1(2) r \<open>frm < length tls\<close> to False by (auto split: if_splits)
        obtain st1 where w: "?e = Ok st1" "f g cfg clk werr ms data tls (k + 2) (sn + 1) to st1 = Some (Ok st')" using fr by (cases ?e) auto
        obtain chunks where "concat chunks = drop to tls" "emitted cfg data chunks st1 st'" using 1(1) [OF w(2)] chunk_end_le [OF to] by auto
        then show ?thesis using emitted_trans [OF emit_Ok [OF w(1)]] chunk_split [OF ft, of tls]
          by (intro exI [of _ "[?c] @ chunks"]) simp
      qed
    next
      case False
      then show ?thesis using 1(2) r by (intro exI [of _ "[]"]) (simp add: emitted_def)
    qed
  qed
qed

lemma hello_loop_total:
  assumes "bounds_ok cfg" and "length tls < 2 ^ 63"
  shows "\<exists>st'. hello_loop g cfg clk None ms data tls k sn frm st = Some (Ok st')"
proof (induction "length tls - frm" arbitrary: k sn frm st rule: less_induct)
  case less
  show ?case
  proof (cases "frm < length tls")
    case True
    then obtain to where to: "chunk_end g cfg (clk k) frm (length tls) = Ok to" "frm < to" "to \<le> length tls"
      using chunk_end_progress [OF assms(1) True assms(2)] by blast
    have p: "\<exists>st'. emit g cfg None ns b st = Ok st'" for ns b st
      using rand_between_Ok [of "interval_max cfg" g ns "interval_min cfg"] assms(1)
      by (cases st) (auto simp: emit_def bounds_ok_def fwrite_def)
    obtain st1 where "emit g cfg None (clk (k + 1)) (tls_record data (take (to - frm) (drop frm tls))) st = Ok st1" using p by blast
    then show ?thesis
      using True to p less [of to "k + 2" "sn + 1" st1] by (subst hello_loop.simps) auto
  qed (subst hello_loop.simps, simp)
qed

text \<open>C33. Fragmenting does not change what the other side receives: with positive chunk lengths every write ends, whatever the clock says,
  and the writes concatenate to the data, or, for the first packet of a TLS handshake, to records with the same header whose contents concatenate to the
  content of the original record (each length fits its field), followed by the rest of the data.\<close>
theorem fragment_preserves_stream:
  assumes "bounds_ok cfg" and "length data < 2 ^ 63"
  shows "\<exists>ws. write_fragmented g cfg clk None count data = Some (Ok ws) \<and>
    (concat ws = data \<or>
     (count = 1 \<and> data ! 0 = 22 \<and> packets_from cfg = 0 \<and> packets_to cfg = 1 \<and>
      (\<exists>chunks. concat chunks = drop 5 (take (record_length data) data) \<and> (\<forall>c \<in> set chunks. length c < 65536) \<and>
        concat ws = concat (map (tls_record data) chunks) @ drop (record_length data) data)))"
proof (cases "packets_from cfg = 0 \<and> packets_to cfg = 1 \<and> \<not> (count \<noteq> 1 \<or> length data \<le> 5 \<or> data ! 0 \<noteq> 22) \<and> \<not> length data < record_length data")
  case True
  let ?rl = "record_length data"
  let ?tls = "drop 5 (take ?rl data)"
  obtain ms where ms: "rand_between g (clk 0) (max_split_min cfg) (max_split_max cfg) = Ok ms"
    using rand_between_Ok [of "max_split_max cfg" g "clk 0" "max_split_min cfg"] assms(1) by (auto simp: bounds_ok_def)
  have "length ?tls < 2 ^ 63" using assms(2) by simp
  then obtain hello ws where h: "hello_loop g cfg clk None ms data ?tls 1 0 0 ([], []) = Some (Ok (hello, ws))"
    using hello_loop_total [OF assms(1)] by (metis surj_pair)
  from hello_loop_stream [OF h] obtain chunks where c: "concat chunks = ?tls" "emitted cfg data chunks ([], []) (hello, ws)" by auto
  have e: "concat ws @ hello = concat (map (tls_record data) chunks)" using c(2) by (auto simp: emitted_def split: if_splits)
  have "length ?tls < 65536"
  proof -
    have "unat (data ! 3) < 2 ^ 8" "unat (data ! 4) < 2 ^ 8" using unat_bound [of "data ! 3"] unat_bound [of "data ! 4"] by simp_all
    then show ?thesis by (simp add: record_length_def)
  qed
  moreover have "length x \<le> length (concat chunks)" if "x \<in> set chunks" for x
    using that by (induction chunks) auto
  ultimately have fit: "\<forall>x \<in> set chunks. length x < 65536" using c(1) by (metis le_less_trans)
  have "\<exists>ws'. write_hello g cfg clk None data = Some (Ok ws') \<and> concat ws' = concat ws @ hello @ drop ?rl data"
    using ms h by (cases "hello = []"; cases "?rl < length data") (simp_all add: write_hello_def Let_def fwrite_def)
  then obtain ws' where w: "write_hello g cfg clk None data = Some (Ok ws')" "concat ws' = concat ws @ hello @ drop ?rl data" by blast
  have "concat ws' = concat (map (tls_record data) chunks) @ drop ?rl data"
    using w(2) unfolding e [symmetric] by simp
  then show ?thesis using True w(1) c(1) fit by (auto simp: write_fragmented_def)
next
  case False
  obtain ms where ms: "rand_between g (clk 0) (max_split_min cfg) (max_split_max cfg) = Ok ms"
    using rand_between_Ok [of "max_split_max cfg" g "clk 0" "max_split_min cfg"] assms(1) by (auto simp: bounds_ok_def)
  obtain ws where f: "frag_loop g cfg clk None ms data 1 0 0 [] = Some (Ok ws)" using frag_loop_total [OF assms] by blast
  then have "concat ws = data" using frag_loop_stream [OF f] by simp
  then show ?thesis using False ms f by (auto simp: write_fragmented_def fwrite_def)
qed

definition sample_fragment :: FragmentConfig where
  "sample_fragment = \<lparr>packets_from = 0, packets_to = 1, fr_length_min = 1, fr_length_max = 3, interval_min = 0, interval_max = 0,
     max_split_min = 0, max_split_max = 0\<rparr>"

theorem fragment_preserves_stream_witness:
  "\<exists>ws. write_fragmented False sample_fragment (\<lambda>k. word_of_nat k) None 1 [22, 3, 1, 0, 4, 1, 2, 3, 4, 9] = Some (Ok ws)"
proof -
  have "bounds_ok sample_fragment" by (simp add: bounds_ok_def sample_fragment_def word_le_nat_alt)
  from fragment_preserves_stream [OF this, of "[22, 3, 1, 0, 4, 1, 2, 3, 4, 9]" False "\<lambda>k. word_of_nat k" 1] show ?thesis by auto
qed

section \<open>Rules that never match\<close>

text \<open>No rule with addresses matches an IP target, and no CIDR block matches anything: the default rules block nothing.\<close>

lemma ip_rules_dead:
  assumes "fr_ips r \<noteq> []" and "(\<exists>b. address d = Ipv4 b \<and> length b = 4) \<or> (\<forall>c \<in> set (fr_ips r). CHR ''/'' \<in> set c)"
  shows "\<not> final_rule_matches r d"
proof -
  have "\<not> ip_matches (show_address (address d)) c" if "c \<in> set (fr_ips r)" for c
    using assms(2) that by (auto simp: ip_matches_def parse_show_ipv4)
  then show ?thesis using assms(1) by (auto simp: final_rule_matches_def list_ex_iff)
qed

theorem default_rules_block_nothing: "\<not> list_ex (\<lambda>r. final_rule_matches r d) default_blocking_rules"
proof -
  have "\<not> final_rule_matches r d" if "r \<in> set default_blocking_rules" for r
    by (rule ip_rules_dead) (use that in \<open>auto simp: default_blocking_rules_def block_rule_def\<close>)
  then show ?thesis by (auto simp: list_ex_iff)
qed

lemma ascii_chars_bytes:
  assumes "\<forall>x \<in> set l. (of_char x :: nat) < 128 \<and> x \<noteq> CHR 0x0D"
  shows "13 \<notin> set (as_bytes l)" "valid_utf8 (as_bytes (l @ crlf_str))"
proof -
  have "word_of_nat (of_char c) \<noteq> (13 :: u8)" if "c \<in> set l" for c
  proof
    assume "word_of_nat (of_char c) = (13 :: u8)"
    then have "unat (word_of_nat (of_char c) :: u8) = 13" by simp
    then have "(of_char c :: nat) = of_char (CHR 0x0D)" by simp
    then have "c = CHR 0x0D" by (simp only: of_char_eq_iff)
    then show False using assms that by auto
  qed
  then show "13 \<notin> set (as_bytes l)" by (auto simp: as_bytes_def)
  show "valid_utf8 (as_bytes (l @ crlf_str))"
    using assms by (intro valid_utf8_ascii) (auto simp: as_bytes_def word_less_nat_alt)
qed

section \<open>The PROXY header is not understood\<close>

text \<open>
  The version number takes the place of the address family, so the reader of the same program does not
  recognise the header.
\<close>
lemma find_crlf: "13 \<notin> set l \<Longrightarrow> find_sub [13, 10] (l @ 13 # 10 # t) = Some (length l)"
  by (induction l) auto

lemma proxy_header_unknown:
  assumes "\<And>i. inbound session = Some i \<Longrightarrow> plain_word (show_address (address (ib_source i)))" and "plain_word (show_address (address target))"
  shows "\<exists>n. accept_proxy_protocol (as_bytes (proxy_header v session target)) = Ok (Some ''UNKNOWN'', n)"
proof -
  let ?fam = "''TCP'' @ (if v = 1 then ''1'' else ''2'')"
  define src where "src = (case inbound session of Some i \<Rightarrow> show_address (address (ib_source i)) | None \<Rightarrow> ''0.0.0.0'')"
  define sp where "sp = (case inbound session of Some i \<Rightarrow> port_value (port (ib_source i)) | None \<Rightarrow> 0)"
  define rest where "rest = src @ '' '' @ show_address (address target) @ '' '' @ show_nat (unat sp) @ '' '' @ show_nat (unat (port_value (port target)))"
  define line where "line = ''PROXY'' @ CHR '' '' # ?fam @ CHR '' '' # rest"
  have h: "proxy_header v session target = line @ crlf_str"
    by (simp add: proxy_header_def line_def rest_def src_def sp_def Let_def)
  have digits: "\<forall>x \<in> set (show_nat n). (of_char x :: nat) < 128 \<and> x \<noteq> CHR 0x0D" for n by (auto dest!: show_nat_chars)
  have plain: "\<forall>x \<in> set w. (of_char x :: nat) < 128 \<and> x \<noteq> CHR 0x0D" if "plain_word w" for w
    using that by (auto simp: plain_word_def plain_char_def)
  have "plain_word src" using assms(1) by (auto simp: src_def plain_word_def plain_char_def split: option.splits)
  then have "\<forall>x \<in> set rest. (of_char x :: nat) < 128 \<and> x \<noteq> CHR 0x0D"
    unfolding rest_def using plain [OF assms(2)] plain [of src] digits by (simp add: ball_Un)
  then have "\<forall>x \<in> set line. (of_char x :: nat) < 128 \<and> x \<noteq> CHR 0x0D" by (auto simp: line_def)
  then have al: "13 \<notin> set (as_bytes line)" "valid_utf8 (as_bytes (line @ crlf_str))"
    using ascii_chars_bytes by auto
  have b: "as_bytes (line @ crlf_str) = as_bytes line @ 13 # 10 # []" by (simp add: as_bytes_def)
  have w: "plain_word ''PROXY''" "plain_word ?fam" by (auto simp: plain_word_def plain_char_def)
  have "split_whitespace (line @ crlf_str) = ''PROXY'' # ?fam # split_whitespace (rest @ crlf_str)"
    using split_whitespace_word [OF w(1), of "?fam @ CHR '' '' # rest @ crlf_str"] split_whitespace_word [OF w(2), of "rest @ crlf_str"]
    by (simp add: line_def)
  moreover have "?fam \<notin> {''TCP4'', ''TCP6'', ''TCP''}" by simp
  moreover have "take 5 (as_bytes (line @ crlf_str)) = as_bytes ''PROXY''" "8 \<le> length (as_bytes (line @ crlf_str))"
    by (simp_all add: line_def as_bytes_def)
  ultimately show ?thesis
    using find_crlf [OF al(1), of "[]"] al(2) unfolding h accept_proxy_protocol_def b [symmetric] by (auto simp: Let_def)
qed

end
