(* ===== verification/Common.thy ===== *)
theory Common
  imports Net "HOL-Library.Multiset"
begin

text \<open>
  \<^verbatim>\<open>astra-core-common\<close>: the replay filter, the LRU cache, retry strategies, the peer table, the drainer, XUDP packets,
  bit masks, the order of addresses for racing connections, and the bounded parallel loop. Instants and
  durations are natural numbers (nanoseconds), read from the clock by the caller.
\<close>

section \<open>Replay filter (antireplay.rs)\<close>

record 'a ReplayFilter =
  pool_a :: "'a set"
  pool_b :: "'a set"
  rf_interval :: nat
  last_clean :: nat

definition ReplayFilter_new :: "u64 \<Rightarrow> nat \<Rightarrow> 'a ReplayFilter" where
  "ReplayFilter_new interval_secs now =
     \<lparr>pool_a = {}, pool_b = {}, rf_interval = unat interval_secs * 1000000000, last_clean = now\<rparr>"

definition rf_rotate :: "nat \<Rightarrow> 'a ReplayFilter \<Rightarrow> 'a ReplayFilter" where
  "rf_rotate now f =
     (if now - last_clean f \<ge> rf_interval f then f\<lparr>pool_b := pool_a f, pool_a := {}, last_clean := now\<rparr> else f)"

definition rf_check :: "nat \<Rightarrow> 'a \<Rightarrow> 'a ReplayFilter \<Rightarrow> bool \<times> 'a ReplayFilter" where
  "rf_check now v f =
     (let f = rf_rotate now f in
      if v \<in> pool_a f \<or> v \<in> pool_b f then (False, f) else (True, f\<lparr>pool_a := insert v (pool_a f)\<rparr>))"

section \<open>LRU cache (cache.rs)\<close>

text \<open>The hash map is an association list; the order of its entries, which the code's scans by value follow, is arbitrary.\<close>

record ('k, 'v) LruCache =
  lru_capacity :: nat
  lru_map :: "('k \<times> 'v) list"
  lru_order :: "'k list"

definition LruCache_new :: "nat \<Rightarrow> ('k, 'v) LruCache" where
  "LruCache_new cap = \<lparr>lru_capacity = cap, lru_map = [], lru_order = []\<rparr>"

definition lru_touch :: "'k \<Rightarrow> ('k, 'v) LruCache \<Rightarrow> ('k, 'v) LruCache" where
  "lru_touch k c = (if k \<in> set (lru_order c) then c\<lparr>lru_order := remove1 k (lru_order c) @ [k]\<rparr> else c)"

definition lru_get :: "'k \<Rightarrow> ('k, 'v) LruCache \<Rightarrow> 'v option \<times> ('k, 'v) LruCache" where
  "lru_get k c = (if map_of (lru_map c) k \<noteq> None then (map_of (lru_map c) k, lru_touch k c) else (None, c))"

definition lru_peek :: "'k \<Rightarrow> ('k, 'v) LruCache \<Rightarrow> 'v option" where
  "lru_peek k c = map_of (lru_map c) k"

definition lru_peek_key_from_value :: "'v \<Rightarrow> ('k, 'v) LruCache \<Rightarrow> 'k option" where
  "lru_peek_key_from_value v c = map_option fst (find (\<lambda>(_, v'). v' = v) (lru_map c))"

definition lru_get_key_from_value :: "'v \<Rightarrow> ('k, 'v) LruCache \<Rightarrow> 'k option \<times> ('k, 'v) LruCache" where
  "lru_get_key_from_value v c =
     (case lru_peek_key_from_value v c of Some k \<Rightarrow> (Some k, lru_touch k c) | None \<Rightarrow> (None, c))"

definition lru_evict :: "('k, 'v) LruCache \<Rightarrow> ('k, 'v) LruCache" where
  "lru_evict c =
     (case lru_order c of
        [] \<Rightarrow> c
      | k # ks \<Rightarrow> c\<lparr>lru_map := AList.delete k (lru_map c), lru_order := ks\<rparr>)"

definition lru_put :: "'k \<Rightarrow> 'v \<Rightarrow> ('k, 'v) LruCache \<Rightarrow> ('k, 'v) LruCache" where
  "lru_put k v c =
     (if map_of (lru_map c) k \<noteq> None then lru_touch k (c\<lparr>lru_map := AList.update k v (lru_map c)\<rparr>)
      else
        let c = (if length (lru_order c) \<ge> lru_capacity c then lru_evict c else c) in
        c\<lparr>lru_map := AList.update k v (lru_map c), lru_order := lru_order c @ [k]\<rparr>)"

section \<open>Retry (retry.rs)\<close>

text \<open>
  The method is a function of a state of its own. The result: the outcome (\<open>Err\<close> has the errors without
  repetitions in a row), the sleeps in milliseconds, and the state after.
\<close>

definition push_error :: "string \<Rightarrow> string list \<Rightarrow> string list" where
  "push_error e errors = (if errors \<noteq> [] \<and> last errors = e then errors else errors @ [e])"

fun fixed_loop ::
  "('s \<Rightarrow> (string, unit) res \<times> 's) \<Rightarrow> u64 \<Rightarrow> nat \<Rightarrow> string list \<Rightarrow> u64 list \<Rightarrow> 's \<Rightarrow> (string list, unit) res \<times> u64 list \<times> 's" where
  "fixed_loop m delay_ms 0 errors slept s = (Err errors, slept, s)"
| "fixed_loop m delay_ms (Suc n) errors slept s =
     (case m s of
        (Ok _, s') \<Rightarrow> (Ok (), slept, s')
      | (Err e, s') \<Rightarrow> fixed_loop m delay_ms n (push_error e errors) (slept @ [delay_ms]) s'
      | (Panic, s') \<Rightarrow> (Panic, slept, s'))"

definition FixedDelayRetry_on where
  "FixedDelayRetry_on total_attempts delay_ms m s = fixed_loop m delay_ms total_attempts [] [] s"

fun backoff_loop ::
  "('s \<Rightarrow> (string, unit) res \<times> 's) \<Rightarrow> u64 \<Rightarrow> nat \<Rightarrow> u64 \<Rightarrow> string list \<Rightarrow> u64 list \<Rightarrow> 's \<Rightarrow> (string list, unit) res \<times> u64 list \<times> 's" where
  "backoff_loop m base 0 delay errors slept s = (Err errors, slept, s)"
| "backoff_loop m base (Suc n) delay errors slept s =
     (let slept = (if delay > 0 then slept @ [delay] else slept) in
      case m s of
        (Ok _, s') \<Rightarrow> (Ok (), slept, s')
      | (Err e, s') \<Rightarrow> backoff_loop m base n (delay + base) (push_error e errors) slept s'
      | (Panic, s') \<Rightarrow> (Panic, slept, s'))"

definition ExponentialBackoffRetry_on where
  "ExponentialBackoffRetry_on total_attempts base m s = backoff_loop m base total_attempts 0 [] [] s"

section \<open>Peers (peer.rs)\<close>

record 'a PeerInfo =
  peer_addr :: 'a
  connected_at :: nat
  last_activity :: nat
  bytes_sent :: u64
  bytes_received :: u64

type_synonym 'a PeerTracker = "('a \<times> 'a PeerInfo) list"

definition PeerInfo_new :: "'a \<Rightarrow> nat \<Rightarrow> 'a PeerInfo" where
  "PeerInfo_new a now = \<lparr>peer_addr = a, connected_at = now, last_activity = now, bytes_sent = 0, bytes_received = 0\<rparr>"

definition activity_secs :: "nat \<Rightarrow> 'a PeerInfo \<Rightarrow> nat" where
  "activity_secs now p = (now - last_activity p) div 1000000000"

definition peer_add :: "nat \<Rightarrow> 'a \<Rightarrow> 'a PeerTracker \<Rightarrow> 'a PeerTracker" where
  "peer_add now a ps = (if map_of ps a = None then AList.update a (PeerInfo_new a now) ps else ps)"

definition peer_remove :: "'a \<Rightarrow> 'a PeerTracker \<Rightarrow> 'a PeerTracker" where
  "peer_remove a ps = AList.delete a ps"

definition peer_get :: "'a \<Rightarrow> 'a PeerTracker \<Rightarrow> 'a PeerInfo option" where
  "peer_get a ps = map_of ps a"

definition update_activity :: "nat \<Rightarrow> 'a \<Rightarrow> 'a PeerTracker \<Rightarrow> 'a PeerTracker" where
  "update_activity now a ps =
     (case map_of ps a of Some p \<Rightarrow> AList.update a (p\<lparr>last_activity := now\<rparr>) ps | None \<Rightarrow> ps)"

definition add_bytes :: "'a \<Rightarrow> u64 \<Rightarrow> u64 \<Rightarrow> 'a PeerTracker \<Rightarrow> 'a PeerTracker" where
  "add_bytes a sent received ps =
     (case map_of ps a of
        Some p \<Rightarrow> AList.update a (p\<lparr>bytes_sent := bytes_sent p + sent, bytes_received := bytes_received p + received\<rparr>) ps
      | None \<Rightarrow> ps)"

definition all_peers :: "'a PeerTracker \<Rightarrow> 'a PeerInfo list" where
  "all_peers ps = map snd ps"

definition peer_count :: "'a PeerTracker \<Rightarrow> nat" where
  "peer_count ps = length ps"

definition peer_cleanup :: "nat \<Rightarrow> nat \<Rightarrow> 'a PeerTracker \<Rightarrow> 'a PeerTracker" where
  "peer_cleanup now timeout_secs ps = filter (\<lambda>(_, p). activity_secs now p < timeout_secs) ps"

section \<open>Drainer (drain.rs)\<close>

text \<open>Rust's remainder truncates towards zero; the casts and sums are of 32 bits and wrap.\<close>

definition rust_rem :: "int \<Rightarrow> int \<Rightarrow> int" where
  "rust_rem a b = a - b * (sgn a * sgn b * (\<bar>a\<bar> div \<bar>b\<bar>))"

definition as_i32 :: "int \<Rightarrow> int" where
  "as_i32 v = signed_take_bit 31 v"

definition drain_size :: "int \<Rightarrow> int \<Rightarrow> int \<Rightarrow> int \<Rightarrow> int \<Rightarrow> int" where
  "drain_size nanos behavior_seed drain_foundation max_base_drain_size max_rand_drain =
     (let base_drain = (if max_base_drain_size > 0 then as_i32 (rust_rem behavior_seed max_base_drain_size) else 0);
          rand_drain_max = (if max_rand_drain > 0 then as_i32 (as_i32 (rust_rem behavior_seed max_rand_drain) + 1) else 1);
          rand_rolled = (if rand_drain_max > 0 then rust_rem \<bar>nanos\<bar> rand_drain_max else 0)
      in as_i32 (as_i32 (drain_foundation + base_drain) + rand_rolled))"

definition acknowledge_receive :: "nat \<Rightarrow> int \<Rightarrow> int" where
  "acknowledge_receive n d = as_i32 (d - as_i32 (int n))"

text \<open>\<open>rd n\<close> is how \<^verbatim>\<open>read_exact\<close> of \<open>n\<close> bytes ends.\<close>

definition drainer_drain :: "(nat \<Rightarrow> (string, unit) res) \<Rightarrow> int \<Rightarrow> (string, unit) res" where
  "drainer_drain rd d =
     (if d > 0 then
        (case rd (nat d) of
           Ok _ \<Rightarrow> Err ''drained connection''
         | Err e \<Rightarrow> Err (''unable to drain connection: '' @ e)
         | Panic \<Rightarrow> Panic)
      else Ok ())"

definition with_error :: "(string, unit) res \<Rightarrow> string \<Rightarrow> string" where
  "with_error drained err =
     (case drained of Err e \<Rightarrow> err @ '' (drain: '' @ e @ '')'' | _ \<Rightarrow> err)"

section \<open>XUDP packets (xudp.rs), bit masks (bitmask.rs)\<close>

record XudpPacket =
  xu_session_id :: u16
  packet_id :: u16
  fragment_id :: u8
  total_fragments :: u8
  xu_data :: "u8 list"

definition XudpPacket_new :: "u8 list \<Rightarrow> XudpPacket" where
  "XudpPacket_new d = \<lparr>xu_session_id = 0, packet_id = 0, fragment_id = 0, total_fragments = 1, xu_data = d\<rparr>"

definition xudp_encode :: "XudpPacket \<Rightarrow> u8 list" where
  "xudp_encode p = to_be16 (xu_session_id p) @ to_be16 (packet_id p) @ [fragment_id p, total_fragments p] @ xu_data p"

definition xudp_decode :: "u8 list \<Rightarrow> (string, XudpPacket) res" where
  "xudp_decode d =
     (if length d < 6 then Err ''xudp packet too short''
      else Ok \<lparr>xu_session_id = be16_at 0 d, packet_id = be16_at 2 d, fragment_id = d ! 4, total_fragments = d ! 5,
               xu_data = drop 6 d\<rparr>)"

text \<open>A shift by eight or more wraps the shift amount in a release build.\<close>

definition one_bit :: "u8 \<Rightarrow> u8" where "one_bit i = push_bit (unat i mod 8) 1"
definition has_bit :: "u8 \<Rightarrow> u8 \<Rightarrow> bool" where "has_bit b i \<longleftrightarrow> b AND one_bit i \<noteq> 0"
definition set_bit_u8 :: "u8 \<Rightarrow> u8 \<Rightarrow> u8" where "set_bit_u8 b i = b OR one_bit i"
definition clear_bit :: "u8 \<Rightarrow> u8 \<Rightarrow> u8" where "clear_bit b i = b AND NOT (one_bit i)"
definition toggle_bit :: "u8 \<Rightarrow> u8 \<Rightarrow> u8" where "toggle_bit b i = b XOR one_bit i"
definition byte_mask :: "u8 \<Rightarrow> u8" where "byte_mask n = (if n \<ge> 8 then 0xFF else one_bit n - 1)"
definition has_any :: "u8 \<Rightarrow> u8 \<Rightarrow> bool" where "has_any b m \<longleftrightarrow> b AND m \<noteq> 0"
definition has_all :: "u8 \<Rightarrow> u8 \<Rightarrow> bool" where "has_all b m \<longleftrightarrow> b AND m = m"

section \<open>Racing connections (happy_eyeballs.rs)\<close>

fun interleave :: "'a list \<Rightarrow> 'a list \<Rightarrow> 'a list" where
  "interleave (p # ps) (q # qs) = p # q # interleave ps qs"
| "interleave [] qs = qs"
| "interleave ps [] = ps"

definition sort_addresses :: "('a \<Rightarrow> bool) \<Rightarrow> 'a list \<Rightarrow> bool \<Rightarrow> 'a list" where
  "sort_addresses v6p addrs prefer_ipv6 =
     (let (v6, v4) = partition v6p addrs in if prefer_ipv6 then interleave v6 v4 else interleave v4 v6)"

text \<open>
  The attempts one after the other: \<open>connect a\<close> is a stream, an error, or a timeout (\<open>None\<close>). The second
  component counts the delays of 300 ms before an address of another family than the first.
\<close>

fun race_loop ::
  "('a \<Rightarrow> bool) \<Rightarrow> ('a \<Rightarrow> string) \<Rightarrow> ('a \<Rightarrow> (string, 'c) res option) \<Rightarrow> 'a \<Rightarrow> bool \<Rightarrow> string \<Rightarrow> 'a list \<Rightarrow> (string, 'c) res \<times> nat" where
  "race_loop v6 shw connect first later last_err [] = (Err last_err, 0)"
| "race_loop v6 shw connect first later last_err (a # as) =
     (let d = (if later \<and> v6 a \<noteq> v6 first then 1 else 0) in
      case connect a of
        Some (Ok s) \<Rightarrow> (Ok s, d)
      | Some (Err e) \<Rightarrow>
          (case race_loop v6 shw connect first True (''connect '' @ shw a @ '': '' @ e) as of (r, n) \<Rightarrow> (r, d + n))
      | Some Panic \<Rightarrow> (Panic, d)
      | None \<Rightarrow>
          (case race_loop v6 shw connect first True (''timeout connecting to '' @ shw a) as of (r, n) \<Rightarrow> (r, d + n)))"

definition dial_tcp_race ::
  "('a \<Rightarrow> bool) \<Rightarrow> ('a \<Rightarrow> string) \<Rightarrow> ('a \<Rightarrow> (string, 'c) res option) \<Rightarrow> string \<Rightarrow> (string, 'a list) res \<Rightarrow> bool \<Rightarrow> (string, 'c) res \<times> nat" where
  "dial_tcp_race v6 shw connect host resolved prefer_ipv6 =
     (case resolved of
        Ok addrs \<Rightarrow>
          (case sort_addresses v6 addrs prefer_ipv6 of
             [] \<Rightarrow> (Err (''no addresses for '' @ host), 0)
           | a # as \<Rightarrow> race_loop v6 shw connect a False [] (a # as))
      | Err e \<Rightarrow> (Err (''dns resolve '' @ host @ '': '' @ e), 0)
      | Panic \<Rightarrow> (Panic, 0))"

section \<open>The bounded parallel loop (task.rs)\<close>

text \<open>The ranges the workers get; a worker whose range is empty ends the list.\<close>

definition div_ceil :: "nat \<Rightarrow> nat \<Rightarrow> nat" where "div_ceil n k = (n + k - 1) div k"

fun worker_ranges :: "nat \<Rightarrow> nat \<Rightarrow> nat \<Rightarrow> nat \<Rightarrow> (nat \<times> nat) list" where
  "worker_ranges n chunk w 0 = []"
| "worker_ranges n chunk w (Suc k) =
     (let start = w * chunk; e = min (start + chunk) n in
      if start \<ge> e then [] else (start, e) # worker_ranges n chunk (w + 1) k)"

definition parallel_ranges :: "nat \<Rightarrow> nat \<Rightarrow> (string, (nat \<times> nat) list) res" where
  "parallel_ranges n max_workers =
     (if n = 0 then Ok []
      else if max_workers = 0 then Panic
      else let k = min max_workers n in Ok (worker_ranges n (div_ceil n k) 0 k))"

definition on_success :: "('s \<Rightarrow> (string, unit) res \<times> 's) \<Rightarrow> ('s \<Rightarrow> (string, unit) res \<times> 's) \<Rightarrow> 's \<Rightarrow> (string, unit) res \<times> 's" where
  "on_success f g s = (case f s of (Ok _, s') \<Rightarrow> g s' | (Err e, s') \<Rightarrow> (Err e, s') | (Panic, s') \<Rightarrow> (Panic, s'))"

section \<open>The replay filter's window\<close>

text \<open>Checks of other values in between.\<close>

fun rf_run :: "(nat \<times> 'a) list \<Rightarrow> 'a ReplayFilter \<Rightarrow> 'a ReplayFilter" where
  "rf_run [] f = f"
| "rf_run ((t, v) # xs) f = rf_run xs (snd (rf_check t v f))"

definition rf_holds :: "'a \<Rightarrow> nat \<Rightarrow> 'a ReplayFilter \<Rightarrow> bool" where
  "rf_holds v t0 f \<longleftrightarrow> v \<in> pool_a f \<or> v \<in> pool_b f \<and> t0 \<le> last_clean f"

lemma rf_check_holds:
  assumes "rf_holds v t0 f" and "t0 \<le> t" and "t < t0 + rf_interval f"
  shows "rf_holds v t0 (snd (rf_check t w f)) \<and> rf_interval (snd (rf_check t w f)) = rf_interval f \<and> \<not> fst (rf_check t v f)"
  using assms by (auto simp: rf_holds_def rf_check_def rf_rotate_def Let_def)

lemma rf_run_holds:
  assumes "rf_holds v t0 f" and "\<forall>(t, _) \<in> set xs. t0 \<le> t \<and> t < t0 + rf_interval f"
  shows "rf_holds v t0 (rf_run xs f) \<and> rf_interval (rf_run xs f) = rf_interval f"
  using assms
proof (induction xs arbitrary: f)
  case (Cons x xs)
  obtain t w where x: "x = (t, w)" by (cases x)
  with Cons rf_check_holds [OF Cons.prems(1), of t w] show ?case by simp
qed simp

text \<open>C26. The replay filter refuses a value for at least one interval after it accepted it, whatever else is checked in that
  time; and since the pools change only when something is checked, it also refuses the value when the
  next check comes at any later time.\<close>
theorem replay_filter_window:
  assumes "rf_check t0 v f = (True, f')" and "last_clean f \<le> t0" and "\<forall>(t, _) \<in> set xs. t0 \<le> t \<and> t < t0 + rf_interval f"
    and "t0 \<le> t" and "t < t0 + rf_interval f"
  shows "\<not> fst (rf_check t v (rf_run xs f')) \<and> \<not> fst (rf_check later v f')"
proof -
  have f': "rf_holds v t0 f'" "rf_interval f' = rf_interval f" "v \<in> pool_a f'"
    using assms(1) by (auto simp: rf_check_def rf_holds_def rf_rotate_def Let_def split: if_splits)
  then show ?thesis
    using rf_run_holds [OF f'(1)] rf_check_holds [of v t0 "rf_run xs f'" t v] assms(3-)
    by (auto simp: rf_check_def rf_rotate_def Let_def)
qed

theorem replay_filter_window_witness:
  "\<not> fst (rf_check 900000000 (1 :: nat) (rf_run [(5, 2), (7, 1)] (snd (rf_check 3 1 (ReplayFilter_new 1 0)))))"
proof -
  have "rf_check 3 (1 :: nat) (ReplayFilter_new 1 0) = (True, snd (rf_check 3 1 (ReplayFilter_new 1 0)))"
    by (simp add: rf_check_def rf_rotate_def ReplayFilter_new_def Let_def)
  from replay_filter_window [OF this, of "[(5, 2), (7, 1)]" 900000000] show ?thesis
    by (simp add: ReplayFilter_new_def)
qed

section \<open>The cache\<close>

definition lru_wf :: "('k, 'v) LruCache \<Rightarrow> bool" where
  "lru_wf c \<longleftrightarrow> distinct (lru_order c) \<and> set (lru_order c) = fst ` set (lru_map c) \<and> length (lru_order c) \<le> max 1 (lru_capacity c)"

datatype ('k, 'v) LruOp = OpPut 'k 'v | OpGet 'k

fun op_key :: "('k, 'v) LruOp \<Rightarrow> 'k" where
  "op_key (OpPut k v) = k"
| "op_key (OpGet k) = k"

fun lru_step :: "('k, 'v) LruOp \<Rightarrow> ('k, 'v) LruCache \<Rightarrow> ('k, 'v) LruCache" where
  "lru_step (OpPut k v) c = lru_put k v c"
| "lru_step (OpGet k) c = snd (lru_get k c)"

lemma lru_touch_wf: "lru_wf c \<Longrightarrow> lru_wf (lru_touch k c)"
  by (auto simp: lru_wf_def lru_touch_def set_remove1_eq length_remove1)

lemma lru_touch_simps [simp]: "lru_map (lru_touch k c) = lru_map c" "lru_capacity (lru_touch k c) = lru_capacity c"
  by (simp_all add: lru_touch_def)

lemma keys_AList_update: "fst ` set (AList.update k v al) = insert k (fst ` set al)"
  by (induction al) auto

lemma keys_AList_delete: "fst ` set (AList.delete k al) = fst ` set al - {k}"
  by (auto simp: set_AList_delete)

lemma key_in_keys: "map_of al k = Some v \<Longrightarrow> k \<in> fst ` set al"
  by (metis domI dom_map_of_conv_image_fst)

lemma lru_put_wf: "lru_wf c \<Longrightarrow> lru_wf (lru_put k v c) \<and> lru_capacity (lru_put k v c) = lru_capacity c"
proof (cases "map_of (lru_map c) k")
  case None
  assume wf: "lru_wf c"
  then have k: "k \<notin> set (lru_order c)" using None by (auto simp: lru_wf_def map_of_eq_None_iff)
  show ?thesis
  proof (cases "lru_order c")
    case Nil
    then show ?thesis using wf None by (auto simp: lru_put_def lru_wf_def lru_evict_def keys_AList_update)
  next
    case (Cons a as)
    then show ?thesis using wf None k by (auto simp: lru_put_def lru_wf_def lru_evict_def Let_def keys_AList_update keys_AList_delete)
  qed
next
  case (Some w)
  assume wf: "lru_wf c"
  then have "lru_wf (c\<lparr>lru_map := AList.update k v (lru_map c)\<rparr>)"
    using Some by (auto simp: lru_wf_def keys_AList_update key_in_keys)
  then show ?thesis using Some by (auto simp: lru_put_def lru_touch_wf)
qed

lemma lru_step_wf: "lru_wf c \<Longrightarrow> lru_wf (lru_step op c) \<and> lru_capacity (lru_step op c) = lru_capacity c"
  by (cases op) (auto simp: lru_put_wf lru_get_def lru_touch_wf)

text \<open>The key \<open>k\<close> is held with \<open>v\<close>, and only keys of \<open>T\<close> were used after it.\<close>

definition lru_recent :: "'k \<Rightarrow> 'v \<Rightarrow> 'k set \<Rightarrow> ('k, 'v) LruCache \<Rightarrow> bool" where
  "lru_recent k v T c \<longleftrightarrow> map_of (lru_map c) k = Some v \<and> (\<exists>A B. lru_order c = A @ k # B \<and> set B \<subseteq> T)"

lemma touch_recent:
  assumes "lru_wf c" and "lru_recent k v T c"
  shows "lru_recent k v (insert j T) (lru_touch j c)"
proof -
  obtain A B where o: "lru_order c = A @ k # B" "set B \<subseteq> T" and m: "map_of (lru_map c) k = Some v" using assms(2) by (auto simp: lru_recent_def)
  have d: "distinct (A @ k # B)" using assms(1) o by (simp add: lru_wf_def)
  consider "j \<notin> set (lru_order c)" | "j = k" | "j \<in> set A" | "j \<in> set B" using o by auto
  then have "\<exists>A B. lru_order (lru_touch j c) = A @ k # B \<and> set B \<subseteq> insert j T"
  proof cases
    case 1
    then show ?thesis using o by (auto simp: lru_touch_def)
  next
    case 2
    then have "lru_order (lru_touch j c) = remove1 k (A @ k # B) @ k # []" using o by (simp add: lru_touch_def)
    then show ?thesis by (metis empty_subsetI list.set(1))
  next
    case 3
    then have "lru_order (lru_touch j c) = remove1 j A @ k # (B @ [j])" using o d by (simp add: lru_touch_def remove1_append)
    then show ?thesis using o(2) by (metis insert_subset insertI1 le_sup_iff list.set(1) list.set(2) set_append subset_insertI2 empty_subsetI)
  next
    case 4
    then have "j \<notin> set A" "j \<noteq> k" using d by auto
    then have "lru_order (lru_touch j c) = A @ k # (remove1 j B @ [j])" using o 4 by (simp add: lru_touch_def remove1_append)
    moreover have "set (remove1 j B @ [j]) \<subseteq> insert j T" using o(2) set_remove1_subset [of j B] by auto
    ultimately show ?thesis by blast
  qed
  then show ?thesis using m by (simp add: lru_recent_def)
qed

lemma put_recent:
  assumes "lru_wf c" and "lru_recent k v T c" and "j \<noteq> k" and "finite T" and "card (insert j T) < max 1 (lru_capacity c)"
  shows "lru_recent k v (insert j T) (lru_put j w c)"
proof (cases "map_of (lru_map c) j")
  case (Some x)
  let ?c = "c\<lparr>lru_map := AList.update j w (lru_map c)\<rparr>"
  have "lru_wf ?c" using assms(1) Some by (auto simp: lru_wf_def keys_AList_update key_in_keys)
  moreover have "lru_recent k v T ?c" using assms(2,3) by (simp add: lru_recent_def update_conv)
  ultimately show ?thesis using touch_recent [of ?c k v T j] Some by (simp add: lru_put_def)
next
  case None
  obtain A B where o: "lru_order c = A @ k # B" "set B \<subseteq> T" and m: "map_of (lru_map c) k = Some v" using assms(2) by (auto simp: lru_recent_def)
  have d: "distinct (A @ k # B)" and j: "j \<notin> set B" using assms(1) o None by (auto simp: lru_wf_def map_of_eq_None_iff)
  have "card (set B) = length B" using d by (simp add: distinct_card)
  then have "length B + 1 = card (insert j (set B))" using j by simp
  also have "\<dots> \<le> card (insert j T)" using assms(4) o(2) by (intro card_mono) auto
  finally have b: "length B + 1 < lru_capacity c" using assms(5) by (simp add: max_def split: if_splits)
  have s: "set (B @ [j]) \<subseteq> insert j T" using o(2) by auto
  show ?thesis
  proof (cases "length (lru_order c) \<ge> lru_capacity c")
    case True
    then obtain a A' where A: "A = a # A'" using o b by (cases A) auto
    then have "k \<noteq> a" using d by auto
    then have "map_of (lru_map (lru_put j w c)) k = Some v" "lru_order (lru_put j w c) = A' @ k # (B @ [j])"
      using True None o m A assms(3) by (simp_all add: lru_put_def lru_evict_def update_conv delete_conv')
    then show ?thesis using o(2) unfolding lru_recent_def by (metis s)
  next
    case False
    then have "map_of (lru_map (lru_put j w c)) k = Some v" "lru_order (lru_put j w c) = A @ k # (B @ [j])"
      using None o m assms(3) by (simp_all add: lru_put_def update_conv)
    then show ?thesis using o(2) unfolding lru_recent_def by (metis s)
  qed
qed

lemma recent_mono: "lru_recent k v T c \<Longrightarrow> T \<subseteq> T' \<Longrightarrow> lru_recent k v T' c"
  by (auto simp: lru_recent_def)

lemma step_recent:
  assumes "lru_wf c" and "lru_recent k v T c" and "finite T" and "card (insert (op_key op) T - {k}) < max 1 (lru_capacity c)"
    and "\<And>w. op \<noteq> OpPut k w" and "k \<notin> T"
  shows "lru_recent k v (insert (op_key op) T - {k}) (lru_step op c)"
proof (cases op)
  case (OpPut j w)
  then have "j \<noteq> k" using assms(5) by auto
  then show ?thesis using put_recent [OF assms(1,2) _ assms(3), of j w] OpPut assms(4,6) by (simp add: insert_Diff_if)
next
  case (OpGet j)
  show ?thesis
  proof (cases "map_of (lru_map c) j = None")
    case True
    then show ?thesis using OpGet assms(2,6) by (auto simp: lru_get_def intro: recent_mono)
  next
    case False
    show ?thesis
    proof (cases "j = k")
      case True
      then have "lru_recent k v {} (lru_touch j c)" using assms(2) by (auto simp: lru_recent_def lru_touch_def)
      then show ?thesis using OpGet False by (auto simp: lru_get_def intro: recent_mono)
    next
      case jk: False
      then show ?thesis using touch_recent [OF assms(1,2), of j] OpGet False assms(6) by (simp add: lru_get_def insert_Diff_if)
    qed
  qed
qed

lemma run_recent:
  assumes "lru_wf c" and "lru_recent k v T c" and "finite T" and "k \<notin> T" and "card (T \<union> op_key ` set ops - {k}) < max 1 (lru_capacity c)"
    and "\<And>w. OpPut k w \<notin> set ops"
  shows "lru_peek k (fold lru_step ops c) = Some v"
  using assms
proof (induction ops arbitrary: T c)
  case Nil
  then show ?case by (simp add: lru_recent_def lru_peek_def)
next
  case (Cons op ops)
  let ?T = "insert (op_key op) T - {k}"
  have "card ?T \<le> card (T \<union> op_key ` set (op # ops) - {k})" using Cons.prems(3) by (intro card_mono) auto
  then have r: "lru_recent k v ?T (lru_step op c)" using Cons.prems by (intro step_recent) auto
  have "?T \<union> op_key ` set ops - {k} = T \<union> op_key ` set (op # ops) - {k}" by auto
  then show ?case using Cons.prems lru_step_wf [OF Cons.prems(1), of op] r by (simp add: Cons.IH [of "lru_step op c" ?T])
qed




section \<open>Retrying\<close>

text \<open>The outcomes of the first \<open>n\<close> calls.\<close>

fun outcomes :: "('s \<Rightarrow> (string, unit) res \<times> 's) \<Rightarrow> nat \<Rightarrow> 's \<Rightarrow> (string, unit) res list" where
  "outcomes m 0 s = []"
| "outcomes m (Suc n) s = fst (m s) # outcomes m n (snd (m s))"

text \<open>What retrying should answer: the first outcome that is no error, or all errors without repetitions in a row.\<close>

fun err_texts :: "(string, unit) res list \<Rightarrow> string list" where
  "err_texts [] = []"
| "err_texts (Err e # xs) = e # err_texts xs"
| "err_texts (_ # xs) = err_texts xs"

definition retry_spec :: "(string, unit) res list \<Rightarrow> (string list, unit) res" where
  "retry_spec xs =
     (case find (\<lambda>x. \<forall>e. x \<noteq> Err e) xs of
        Some (Ok _) \<Rightarrow> Ok ()
      | Some _ \<Rightarrow> Panic
      | None \<Rightarrow> Err (remdups_adj (err_texts xs)))"

lemma push_error_snoc: "push_error e (remdups_adj es) = remdups_adj (es @ [e])"
  by (cases es rule: rev_cases) (auto simp: push_error_def remdups_adj_append_two)

lemma fixed_loop_spec:
  "fst (fixed_loop m d n (remdups_adj es) slept s) = retry_spec (map Err es @ outcomes m n s) \<and>
   fst (snd (fixed_loop m d n (remdups_adj es) slept s)) = slept @ replicate (length (takeWhile (\<lambda>x. \<exists>e. x = Err e) (outcomes m n s))) d"
proof (induction n arbitrary: es slept s)
  case 0
  have "find (\<lambda>x. \<forall>e. x \<noteq> Err e) (map Err es :: (string, unit) res list) = None" by (induction es) auto
  moreover have "err_texts (map Err es) = es" by (induction es) auto
  ultimately show ?case by (simp add: retry_spec_def)
next
  case (Suc n)
  have skip: "find (\<lambda>x. \<forall>e. x \<noteq> Err e) (map Err es @ x # xs) = find (\<lambda>x. \<forall>e. x \<noteq> Err e) (x # xs)" for x :: "(string, unit) res" and xs
    by (induction es) auto
  obtain x s' where m: "m s = (x, s')" by (cases "m s")
  show ?case
  proof (cases x)
    case (Err e)
    then show ?thesis using Suc.IH [of "es @ [e]" "slept @ [d]" s'] m by (simp add: push_error_snoc)
  qed (use m skip in \<open>simp_all add: retry_spec_def\<close>)
qed


definition calls :: "(string, unit) res list \<Rightarrow> nat" where
  "calls xs = min (length xs) (length (takeWhile (\<lambda>x. \<exists>e. x = Err e) xs) + 1)"

lemma length_outcomes [simp]: "length (outcomes m n s) = n"
  by (induction n arbitrary: s) simp_all

lemma backoff_loop_spec:
  "fst (backoff_loop m b n (word_of_nat j * b) (remdups_adj es) slept s) = retry_spec (map Err es @ outcomes m n s) \<and>
   fst (snd (backoff_loop m b n (word_of_nat j * b) (remdups_adj es) slept s)) =
     slept @ filter (\<lambda>x. x > 0) (map (\<lambda>i. word_of_nat i * b) [j..<j + calls (outcomes m n s)])"
proof (induction n arbitrary: j es slept s)
  case 0
  have "find (\<lambda>x. \<forall>e. x \<noteq> Err e) (map Err es :: (string, unit) res list) = None" by (induction es) auto
  moreover have "err_texts (map Err es) = es" by (induction es) auto
  ultimately show ?case by (simp add: retry_spec_def calls_def)
next
  case (Suc n)
  have skip: "find (\<lambda>x. \<forall>e. x \<noteq> Err e) (map Err es @ x # xs) = find (\<lambda>x. \<forall>e. x \<noteq> Err e) (x # xs)" for x :: "(string, unit) res" and xs
    by (induction es) auto
  obtain x s' where m: "m s = (x, s')" by (cases "m s")
  have d: "word_of_nat j * b + b = word_of_nat (Suc j) * b" by (simp add: algebra_simps)
  show ?case
  proof (cases x)
    case (Err e)
    have c: "calls (Err e # outcomes m n s') = Suc (calls (outcomes m n s'))" by (simp add: calls_def)
    have r: "[j..<Suc (j + k)] = j # [Suc j..<Suc (j + k)]" for k by (rule upt_conv_Cons) simp
    show ?thesis
      using Suc.IH [of "Suc j" "es @ [e]" "if word_of_nat j * b > 0 then slept @ [word_of_nat j * b] else slept" s'] m Err
      by (simp add: push_error_snoc d c r del: upt_Suc of_nat_Suc)
  qed (use m skip in \<open>simp_all add: retry_spec_def calls_def\<close>)
qed

text \<open>Both retry strategies call the method until it succeeds or the attempts are used up, and answer with the first outcome that is no
  error or with all errors without repetitions in a row. The fixed strategy sleeps after every failed call, the last one
  included; the one called exponential sleeps \<open>0, b, 2b, ...\<close> before its calls, which is linear.\<close>
theorem retry_correct:
  "fst (FixedDelayRetry_on n d m s) = retry_spec (outcomes m n s) \<and>
   fst (snd (FixedDelayRetry_on n d m s)) = replicate (length (takeWhile (\<lambda>x. \<exists>e. x = Err e) (outcomes m n s))) d \<and>
   fst (ExponentialBackoffRetry_on n d m s) = retry_spec (outcomes m n s) \<and>
   fst (snd (ExponentialBackoffRetry_on n d m s)) = filter (\<lambda>x. x > 0) (map (\<lambda>i. word_of_nat i * d) [0..<calls (outcomes m n s)])"
  using fixed_loop_spec [of m d n "[]" "[]" s] backoff_loop_spec [of m d n 0 "[]" "[]" s]
  by (simp add: FixedDelayRetry_on_def ExponentialBackoffRetry_on_def)

section \<open>Addresses and ranges\<close>

lemma mset_interleave: "mset (interleave ps qs) = mset ps + mset qs"
  by (induction ps qs rule: interleave.induct) auto

text \<open>Racing tries every resolved address once, and starts with the preferred family when it has one.\<close>

lemma sort_addresses_mset: "mset (sort_addresses v6 addrs p) = mset addrs"
proof -
  have "mset (filter v6 addrs) + mset (filter (Not \<circ> v6) addrs) = mset addrs" by (induction addrs) simp_all
  then show ?thesis by (simp add: sort_addresses_def mset_interleave add.commute)
qed

lemma sort_addresses_first:
  assumes "\<exists>a \<in> set addrs. v6 a = p"
  shows "v6 (hd (sort_addresses v6 addrs p)) = p"
proof -
  have "hd (interleave ps qs) = hd ps" if "ps \<noteq> []" for ps qs :: "'a list" using that by (cases ps; cases qs) auto
  moreover have "filter v6 addrs \<noteq> []" if p using that assms by (auto simp: filter_empty_conv)
  moreover have "filter (Not \<circ> v6) addrs \<noteq> []" if "\<not> p" using that assms by (auto simp: filter_empty_conv)
  moreover have "v6 (hd (filter v6 addrs))" if "filter v6 addrs \<noteq> []" using hd_in_set [OF that] by simp
  moreover have "\<not> v6 (hd (filter (Not \<circ> v6) addrs))" if "filter (Not \<circ> v6) addrs \<noteq> []" using hd_in_set [OF that] by simp
  ultimately show ?thesis by (cases p) (simp_all add: sort_addresses_def)
qed

lemma upt_append: "i \<le> j \<Longrightarrow> j \<le> k \<Longrightarrow> [i..<j] @ [j..<k] = [i..<k]"
  using upt_add_eq_append [of i j "k - j"] by simp

lemma worker_ranges_cover:
  assumes "0 < chunk"
  shows "concat (map (\<lambda>(a, b). [a..<b]) (worker_ranges n chunk w k)) = [w * chunk..<min n ((w + k) * chunk)]"
proof (induction k arbitrary: w)
  case (Suc k)
  show ?case
  proof (cases "w * chunk \<ge> min (w * chunk + chunk) n")
    case True
    then have "n \<le> w * chunk" using assms by (simp add: min_def split: if_splits)
    then show ?thesis using True by simp
  next
    case False
    then have l: "w * chunk < n" by (simp add: min_def split: if_splits)
    have r: "[w * chunk..<min (w * chunk + chunk) n] @ [(w + 1) * chunk..<min n ((w + 1 + k) * chunk)] = [w * chunk..<min n ((w + Suc k) * chunk)]"
    proof (cases "w * chunk + chunk \<le> n")
      case True
      have le: "w * chunk \<le> (w + 1) * chunk" "(w + 1) * chunk \<le> min n ((w + 1 + k) * chunk)" using True by simp_all
      show ?thesis using upt_append [OF le] True by (simp add: min_def add.commute algebra_simps)
    next
      case f: False
      then have "n \<le> (w + 1) * chunk" by simp
      moreover have "(w + 1) * chunk \<le> (w + Suc k) * chunk" by (intro mult_le_mono1) simp
      ultimately have "n \<le> (w + Suc k) * chunk" by linarith
      then have "min n ((w + Suc k) * chunk) = n" "min n ((w + 1 + k) * chunk) = n" "min (w * chunk + chunk) n = n"
        using \<open>n \<le> (w + 1) * chunk\<close> by (simp_all add: min_absorb1 min_absorb2)
      then show ?thesis using \<open>n \<le> (w + 1) * chunk\<close> by simp
    qed
    show ?thesis using Suc.IH [of "w + 1"] False r by (simp add: Let_def)
  qed
qed simp

text \<open>The bounded parallel loop gives every index to exactly one worker, in order, however many workers there are; with no
  worker at all it panics.\<close>
theorem parallel_ranges_partition:
  assumes "0 < w"
  shows "\<exists>rs. parallel_ranges n w = Ok rs \<and> concat (map (\<lambda>(a, b). [a..<b]) rs) = [0..<n] \<and> length rs \<le> w"
proof (cases "n = 0")
  case False
  define k where "k = min w n"
  have k: "0 < k" "k \<le> n" using False assms by (auto simp: k_def)
  have "n + k - 1 = k * ((n + k - 1) div k) + (n + k - 1) mod k" by simp
  moreover have "(n + k - 1) mod k < k" using k by simp
  ultimately have c: "n \<le> k * div_ceil n k" using k unfolding div_ceil_def by linarith
  then have "0 < div_ceil n k" using k by (cases "div_ceil n k") auto
  note r = worker_ranges_cover [OF this, of n 0 k]
  have l: "length (worker_ranges n ch v k) \<le> k" for ch v by (induction k arbitrary: v) (simp_all add: Let_def)
  have "min n ((0 + k) * div_ceil n k) = n" using c by simp
  then have "concat (map (\<lambda>(a, b). [a..<b]) (worker_ranges n (div_ceil n k) 0 k)) = [0..<n]" using r by simp
  moreover have "parallel_ranges n w = Ok (worker_ranges n (div_ceil n k) 0 k)" using False assms by (simp add: parallel_ranges_def k_def Let_def)
  moreover have "k \<le> w" by (simp add: k_def)
  ultimately show ?thesis using l [of "div_ceil n k" 0] by auto
qed (simp add: parallel_ranges_def)

theorem parallel_ranges_partition_witness: "\<exists>rs. parallel_ranges 10 4 = Ok rs \<and> concat (map (\<lambda>(a, b). [a..<b]) rs) = [0..<10]"
  using parallel_ranges_partition [of 4 10] by auto

lemma xudp_roundtrip: "xudp_decode (xudp_encode p) = Ok p"
proof -
  have l: "length (to_be16 a) = Suc (Suc 0)" for a by simp
  have "be16_at 2 (to_be16 a @ to_be16 b @ r) = b" for a b r by (rule be16_at_append) simp
  moreover have "be16_at 0 (to_be16 a @ r) = a" for a r using be16_at_append [of "[]" 0 a r] by simp
  ultimately show ?thesis by (simp add: xudp_decode_def xudp_encode_def nth_append)
qed

end
