(* ===== verification/Policy.thy ===== *)
theory Policy
  imports Prelude
begin

text \<open>
  \<^verbatim>\<open>astra-core-policy\<close>: time limits, counters and buffer sizes per user level, and the manager built from the configuration.
  Durations are natural numbers in nanoseconds; \<^verbatim>\<open>i32\<close> is a 32-bit word.
\<close>

section \<open>Policies (lib.rs)\<close>

record TimeoutPolicy =
  handshake :: nat
  connection_idle :: nat
  uplink_only :: nat
  downlink_only :: nat

definition from_secs :: "nat \<Rightarrow> nat" where
  "from_secs n = n * 1000000000"

definition TimeoutPolicy_default :: TimeoutPolicy where
  "TimeoutPolicy_default =
     \<lparr>handshake = from_secs 60, connection_idle = from_secs 300, uplink_only = from_secs 1, downlink_only = from_secs 1\<rparr>"

record StatsPolicy =
  pol_user_uplink :: bool
  pol_user_downlink :: bool
  pol_user_online :: bool

definition StatsPolicy_default :: StatsPolicy where
  "StatsPolicy_default = \<lparr>pol_user_uplink = False, pol_user_downlink = False, pol_user_online = False\<rparr>"

record BufferPolicy =
  per_connection :: "32 word"

definition BufferPolicy_default :: BufferPolicy where
  "BufferPolicy_default = \<lparr>per_connection = 512 * 1024\<rparr>"

record SessionPolicy =
  timeouts :: TimeoutPolicy
  pol_stats :: StatsPolicy
  pol_buffer :: BufferPolicy

definition SessionPolicy_default :: SessionPolicy where
  "SessionPolicy_default =
     \<lparr>timeouts = TimeoutPolicy_default, pol_stats = StatsPolicy_default, pol_buffer = BufferPolicy_default\<rparr>"

record SystemStatsPolicy =
  sys_inbound_uplink :: bool
  sys_inbound_downlink :: bool
  sys_outbound_uplink :: bool
  sys_outbound_downlink :: bool

record SystemPolicy =
  sys_stats :: SystemStatsPolicy
  sys_buffer :: BufferPolicy

definition SystemPolicy_default :: SystemPolicy where
  "SystemPolicy_default =
     \<lparr>sys_stats = \<lparr>sys_inbound_uplink = False, sys_inbound_downlink = False, sys_outbound_uplink = False,
                   sys_outbound_downlink = False\<rparr>,
      sys_buffer = BufferPolicy_default\<rparr>"

definition override_timeout :: "nat \<Rightarrow> nat \<Rightarrow> nat" where
  "override_timeout base new = (if new \<noteq> 0 then new else base)"

definition override_session :: "SessionPolicy \<Rightarrow> SessionPolicy \<Rightarrow> SessionPolicy" where
  "override_session base ov =
     (let t = timeouts base; u = timeouts ov; st = pol_stats base; su = pol_stats ov in
      \<lparr>timeouts =
         \<lparr>handshake = override_timeout (handshake t) (handshake u),
          connection_idle = override_timeout (connection_idle t) (connection_idle u),
          uplink_only = override_timeout (uplink_only t) (uplink_only u),
          downlink_only = override_timeout (downlink_only t) (downlink_only u)\<rparr>,
       pol_stats =
         \<lparr>pol_user_uplink = (if pol_user_uplink su then True else pol_user_uplink st),
          pol_user_downlink = (if pol_user_downlink su then True else pol_user_downlink st),
          pol_user_online = pol_user_online st\<rparr>,
       pol_buffer =
         (if per_connection (pol_buffer ov) \<noteq> 0 then \<lparr>per_connection = per_connection (pol_buffer ov)\<rparr>
          else pol_buffer base)\<rparr>)"

section \<open>The manager\<close>

record PolicyManager =
  levels :: "u32 \<Rightarrow> SessionPolicy option"
  pm_system :: SystemPolicy

definition for_level :: "u32 \<Rightarrow> PolicyManager \<Rightarrow> SessionPolicy" where
  "for_level l m = (case levels m l of Some p \<Rightarrow> p | None \<Rightarrow> SessionPolicy_default)"

definition for_system :: "PolicyManager \<Rightarrow> SystemPolicy" where
  "for_system m = pm_system m"

text \<open>The configuration's records (\<^verbatim>\<open>config/policy.rs\<close>).\<close>

record PolicyCfg =
  cfg_handshake :: "u32 option"
  cfg_conn_idle :: "u32 option"
  cfg_uplink_only :: "u32 option"
  cfg_downlink_only :: "u32 option"
  cfg_stats_user_uplink :: bool
  cfg_stats_user_downlink :: bool
  cfg_stats_user_online :: bool
  cfg_buffer_size :: "32 word option"

record SystemPolicyCfg =
  cfg_stats_inbound_uplink :: bool
  cfg_stats_inbound_downlink :: bool
  cfg_stats_outbound_uplink :: bool
  cfg_stats_outbound_downlink :: bool

definition secs_or :: "nat \<Rightarrow> u32 option \<Rightarrow> nat" where
  "secs_or d v = (case v of Some n \<Rightarrow> from_secs (unat n) | None \<Rightarrow> d)"

definition level_policy :: "PolicyCfg \<Rightarrow> SessionPolicy" where
  "level_policy p =
     (let sp = SessionPolicy_default; t = timeouts sp in
      \<lparr>timeouts =
         \<lparr>handshake = secs_or (handshake t) (cfg_handshake p),
          connection_idle = secs_or (connection_idle t) (cfg_conn_idle p),
          uplink_only = secs_or (uplink_only t) (cfg_uplink_only p),
          downlink_only = secs_or (downlink_only t) (cfg_downlink_only p)\<rparr>,
       pol_stats =
         \<lparr>pol_user_uplink = cfg_stats_user_uplink p, pol_user_downlink = cfg_stats_user_downlink p,
          pol_user_online = cfg_stats_user_online p\<rparr>,
       pol_buffer = (case cfg_buffer_size p of Some v \<Rightarrow> \<lparr>per_connection = v\<rparr> | None \<Rightarrow> pol_buffer sp)\<rparr>)"

definition build_policy_manager :: "(u32 \<times> PolicyCfg) list \<Rightarrow> SystemPolicyCfg option \<Rightarrow> PolicyManager" where
  "build_policy_manager config_levels config_system =
     \<lparr>levels = fold (\<lambda>(lv, p) ls. ls(lv \<mapsto> level_policy p)) config_levels (\<lambda>_. None),
      pm_system =
        (case config_system of
           Some s \<Rightarrow>
             \<lparr>sys_stats =
                \<lparr>sys_inbound_uplink = cfg_stats_inbound_uplink s, sys_inbound_downlink = cfg_stats_inbound_downlink s,
                 sys_outbound_uplink = cfg_stats_outbound_uplink s,
                 sys_outbound_downlink = cfg_stats_outbound_downlink s\<rparr>,
              sys_buffer = BufferPolicy_default\<rparr>
         | None \<Rightarrow> SystemPolicy_default)\<rparr>"

section \<open>Properties\<close>

lemma build_levels: "fold (\<lambda>(lv, p) ls. ls(lv \<mapsto> f p)) xs m = m ++ (map_option f \<circ> map_of (rev xs))"
  by (induction xs arbitrary: m) (auto simp: fun_eq_iff map_add_def split: option.splits)

text \<open>
  The order in which the levels' table is read does not matter, and a level gets its entry of the
  configuration with the defaults for what the entry leaves out.
\<close>
lemma for_level_configured:
  assumes "distinct (map fst cs)"
  shows "for_level l (build_policy_manager cs s) =
    (case map_of cs l of Some p \<Rightarrow> level_policy p | None \<Rightarrow> SessionPolicy_default)"
proof -
  have "map_of (rev cs) = map_of cs" using assms by (simp add: map_of_inject_set rev_map [symmetric])
  then show ?thesis by (simp add: for_level_def build_policy_manager_def build_levels map_add_def split: option.split)
qed

text \<open>
  Overriding is idempotent and associative, and the default of a duration (zero) keeps the base value: a
  chain of overrides can be applied in any grouping. The flag for online tracking never changes.
\<close>
lemma override_session_laws:
  "override_session (override_session a b) b = override_session a b"
  "override_session (override_session a b) c = override_session a (override_session b c)"
  "pol_user_online (pol_stats (override_session a b)) = pol_user_online (pol_stats a)"
  by (simp_all add: override_session_def override_timeout_def Let_def)

end
