(* ===== verification/Observatory.thy ===== *)
theory Observatory
  imports Http_Text "HOL-Library.Multiset"
begin

text \<open>
  \<^verbatim>\<open>astra-core-observatory\<close>: the probe of the plain observatory, the verdicts it publishes to the balancers, and the burst observer's
  ring of measurements. Connections and TLS are arguments; a connection is the list of what its reads return.
  Instants and durations are natural numbers; the operations of \<^verbatim>\<open>f64\<close> are a record of functions.
\<close>

section \<open>Choosing the probe (lib.rs)\<close>

datatype ProbeMethod = ProbeTcp string nat | ProbeHttp string

definition is_http_url :: "string \<Rightarrow> bool" where
  "is_http_url url \<longleftrightarrow> starts_with ''http://'' url \<or> starts_with ''https://'' url"

definition probe_from_config :: "string \<Rightarrow> string option \<Rightarrow> ProbeMethod" where
  "probe_from_config probe_type probe_url =
     (let t = to_ascii_lowercase (trim probe_type);
          url = trim (case probe_url of Some u \<Rightarrow> u | None \<Rightarrow> [])
      in if t = ''http'' \<or> t = ''https'' \<or> is_http_url url then
           ProbeHttp
             (if url = [] then
                (if t = ''https'' then ''https://www.gstatic.com/generate_204'' else ''http://www.gstatic.com/generate_204'')
              else if \<not> is_http_url url then (if t = ''https'' then ''https'' else ''http'') @ ''://'' @ url
              else url)
         else if url = [] then ProbeTcp ''1.1.1.1'' 80
         else case rsplit_once (CHR '':'') url of
           Some (h, p) \<Rightarrow>
             ProbeTcp (trim_matches (\<lambda>c. c = CHR ''['' \<or> c = CHR '']'') h) (case parse_u16 p of Some n \<Rightarrow> n | None \<Rightarrow> 80)
         | None \<Rightarrow> ProbeTcp url 80)"

section \<open>Probing\<close>

text \<open>How a connection attempt ends, and how one read ends; \<^verbatim>\<open>None\<close> is the timeout.\<close>

type_synonym read_outcome = "(string, u8 list) res option"
type_synonym stream = "read_outcome list"
type_synonym connector = "string \<Rightarrow> (string, stream) res option"

definition probe_tcp :: "connector \<Rightarrow> string \<Rightarrow> nat \<Rightarrow> (string, unit) res" where
  "probe_tcp connect host port =
     (let addr = host @ '':'' @ show_nat port in
      case connect addr of
        Some (Ok _) \<Rightarrow> Ok ()
      | Some (Err e) \<Rightarrow> Err (''tcp connect '' @ addr @ '': '' @ e)
      | Some Panic \<Rightarrow> Panic
      | None \<Rightarrow> Err (''tcp connect '' @ addr @ '' timed out''))"

text \<open>The loop reads until the blank line, the end of the stream, or more than 64 KiB; \<open>pre\<close> is the prefix of its messages.\<close>

fun read_reply :: "string \<Rightarrow> u8 list \<Rightarrow> stream \<Rightarrow> (string, u8 list) res" where
  "read_reply pre buf [] = Ok buf"
| "read_reply pre buf (r # rs) =
     (case r of
        Some (Ok d) \<Rightarrow>
          if d = [] then Ok buf
          else
            let buf = buf @ d in
            if length buf > 64 * 1024 then Ok buf
            else if find_sub (as_bytes (crlf_str @ crlf_str)) buf \<noteq> None then Ok buf
            else read_reply pre buf rs
      | Some (Err e) \<Rightarrow> Err (pre @ ''read: '' @ e)
      | Some Panic \<Rightarrow> Panic
      | None \<Rightarrow> Err (pre @ ''read timed out''))"

text \<open>\<open>utf8_error\<close> prints where the bytes stop being UTF-8.\<close>

definition reply_text :: "(u8 list \<Rightarrow> string) \<Rightarrow> u8 list \<Rightarrow> (string, string) res" where
  "reply_text utf8_error buf = (if valid_utf8 buf then Ok (of_bytes buf) else Err (''utf8: '' @ utf8_error buf))"

definition parse_http_success :: "string \<Rightarrow> (string, unit) res" where
  "parse_http_success response =
     (let status_line = (case str_lines response of l # _ \<Rightarrow> l | [] \<Rightarrow> []) in
      case (case split_whitespace status_line of _ # c # _ \<Rightarrow> parse_u16 c | _ \<Rightarrow> None) of
        Some code \<Rightarrow> if 200 \<le> code \<and> code < 400 then Ok () else Err (''HTTP status '' @ show_nat code)
      | None \<Rightarrow> Err (''bad status line: '' @ status_line))"

definition http_target :: "string \<Rightarrow> (string, bool \<times> string \<times> nat \<times> string) res" where
  "http_target url =
     rbind
       (case strip_prefix ''https://'' url of
          Some r \<Rightarrow> Ok (True, r)
        | None \<Rightarrow>
            (case strip_prefix ''http://'' url of
               Some r \<Rightarrow> Ok (False, r) | None \<Rightarrow> Err (''unsupported URL scheme: '' @ url)))
       (\<lambda>(https, rest).
          let (host_port, path) = (case split_once (CHR ''/'') rest of Some (h, p) \<Rightarrow> (h, ''/'' @ p) | None \<Rightarrow> (rest, ''/''));
              dflt = (if https then 443 else 80);
              (host, port) =
                (case rsplit_once (CHR '':'') host_port of
                   Some (h, p) \<Rightarrow>
                     if CHR '':'' \<in> set h \<and> \<not> starts_with ''['' host_port then (host_port, dflt)
                     else (h, case parse_u16 p of Some n \<Rightarrow> n | None \<Rightarrow> dflt)
                 | None \<Rightarrow> (host_port, dflt))
          in Ok (https, host, port, path))"

definition probe_request :: "string \<Rightarrow> string \<Rightarrow> string" where
  "probe_request path host =
     ''GET '' @ path @ '' HTTP/1.1'' @ crlf_str @ ''Host: '' @ host @ crlf_str @ ''User-Agent: astra-observatory/1.0'' @ crlf_str @
     ''Connection: close'' @ crlf_str @ ''Accept: */*'' @ crlf_str @ crlf_str"

text \<open>
  \<open>send s req\<close> writes the request; \<open>tls host s\<close> is the handshake over the connection, with its own messages.
\<close>

definition write_outcome :: "string \<Rightarrow> (string, unit) res option \<Rightarrow> (string, unit) res" where
  "write_outcome pre w =
     (case w of
        Some (Ok _) \<Rightarrow> Ok () | Some (Err e) \<Rightarrow> Err (pre @ ''write: '' @ e) | Some Panic \<Rightarrow> Panic
      | None \<Rightarrow> Err (pre @ ''write timed out''))"

definition probe_http ::
  "connector \<Rightarrow> (string \<Rightarrow> stream \<Rightarrow> (string, stream) res) \<Rightarrow> (stream \<Rightarrow> string \<Rightarrow> (string, unit) res option) \<Rightarrow>
   (u8 list \<Rightarrow> string) \<Rightarrow> string \<Rightarrow> (string, unit) res" where
  "probe_http connect tls send utf8_error url =
     rbind (http_target url) (\<lambda>(https, host, port, path).
       let addr = host @ '':'' @ show_nat port in
       rbind
         (case connect addr of
            Some (Ok s) \<Rightarrow> Ok s
          | Some (Err e) \<Rightarrow> Err (''connect '' @ addr @ '': '' @ e)
          | Some Panic \<Rightarrow> Panic
          | None \<Rightarrow> Err (''connect '' @ addr @ '' timed out''))
         (\<lambda>s.
            let pre = (if https then ''tls '' else []) in
            rbind (if https then tls host s else Ok s) (\<lambda>s.
            rbind (write_outcome pre (send s (probe_request path host))) (\<lambda>_.
            rbind (read_reply pre [] s) (\<lambda>buf.
            rbind (reply_text utf8_error buf) parse_http_success)))))"

section \<open>Publishing the verdict\<close>

type_synonym probe_status = "bool \<times> u64 \<times> string option \<times> nat"

record Observatory =
  selector :: "string list"
  alive :: "string set"
  obs_status :: "string \<Rightarrow> probe_status option"
  obs_probe :: ProbeMethod
  interval_secs :: u64

definition with_probe :: "nat \<Rightarrow> string list \<Rightarrow> string set \<Rightarrow> ProbeMethod \<Rightarrow> u64 \<Rightarrow> Observatory" where
  "with_probe now sel alive0 probe interval =
     \<lparr>selector = sel, alive = foldl (\<lambda>a t. insert t a) alive0 sel,
      obs_status = foldl (\<lambda>st t. st(t \<mapsto> (True, 0, None, now))) (\<lambda>_. None) sel,
      obs_probe = probe, interval_secs = max interval 1\<rparr>"

definition probe_once ::
  "connector \<Rightarrow> (string \<Rightarrow> stream \<Rightarrow> (string, stream) res) \<Rightarrow> (stream \<Rightarrow> string \<Rightarrow> (string, unit) res option) \<Rightarrow>
   (u8 list \<Rightarrow> string) \<Rightarrow> Observatory \<Rightarrow> (string, unit) res" where
  "probe_once connect tls send utf8_error obs =
     (case obs_probe obs of
        ProbeTcp host port \<Rightarrow> probe_tcp connect host port
      | ProbeHttp url \<Rightarrow> probe_http connect tls send utf8_error url)"

text \<open>One turn of the loop, after the probe: \<open>None\<close> when the probe panicked and the task is gone.\<close>

definition publish :: "(string, unit) res \<Rightarrow> u64 \<Rightarrow> nat \<Rightarrow> Observatory \<Rightarrow> Observatory option" where
  "publish result delay_ms now obs =
     (case result of
        Ok _ \<Rightarrow>
          Some (obs\<lparr>alive := foldl (\<lambda>a t. insert t a) (alive obs) (selector obs),
                    obs_status := foldl (\<lambda>st t. st(t \<mapsto> (True, delay_ms, None, now))) (obs_status obs) (selector obs)\<rparr>)
      | Err e \<Rightarrow>
          Some (obs\<lparr>alive := foldl (\<lambda>a t. a - {t}) (alive obs) (selector obs),
                    obs_status := foldl (\<lambda>st t. st(t \<mapsto> (False, delay_ms, Some e, now))) (obs_status obs) (selector obs)\<rparr>)
      | Panic \<Rightarrow> None)"

record OutboundStatus =
  os_tag :: string
  os_alive :: bool
  os_delay_ms :: u64
  os_last_error :: "string option"
  os_last_seen :: nat

definition get_status :: "nat \<Rightarrow> Observatory \<Rightarrow> OutboundStatus list" where
  "get_status now obs =
     map (\<lambda>t. case (case obs_status obs t of Some s \<Rightarrow> s | None \<Rightarrow> (False, 0, None, now)) of (a, d, e, s) \<Rightarrow>
            \<lparr>os_tag = t, os_alive = a, os_delay_ms = d, os_last_error = e, os_last_seen = s\<rparr>) (selector obs)"

definition probe_label :: "Observatory \<Rightarrow> string" where
  "probe_label obs =
     (case obs_probe obs of
        ProbeTcp host port \<Rightarrow> ''tcp://'' @ host @ '':'' @ show_nat port
      | ProbeHttp url \<Rightarrow> url)"

section \<open>The ring of measurements (burst.rs)\<close>

record 'f f64_ops =
  f_zero :: 'f
  f_max :: 'f
  f_two :: 'f
  f_add :: "'f \<Rightarrow> 'f \<Rightarrow> 'f"
  f_sub :: "'f \<Rightarrow> 'f \<Rightarrow> 'f"
  f_div :: "'f \<Rightarrow> 'f \<Rightarrow> 'f"
  f_powi2 :: "'f \<Rightarrow> 'f"
  f_sqrt :: "'f \<Rightarrow> 'f"
  f_lt :: "'f \<Rightarrow> 'f \<Rightarrow> bool"
  f_sum :: "'f list \<Rightarrow> 'f"
  f_of_nat :: "nat \<Rightarrow> 'f"
  f_millis :: "nat \<Rightarrow> 'f"
  f_as_u64 :: "'f \<Rightarrow> u64"

record 'f HealthPingStats =
  hp_all :: nat
  hp_fail :: nat
  deviation_ms :: 'f
  average_ms :: 'f
  max_ms :: 'f
  min_ms :: 'f

datatype RttValue = Untested | Failed | Success nat

record PingRTT =
  rtt_time :: nat
  rtt_value :: RttValue

record 'f HealthPingRTTS =
  rt_idx :: nat
  rt_cap :: nat
  rt_validity :: nat
  rtts :: "PingRTT list"
  stats_cache :: "'f HealthPingStats option"
  last_update_at :: nat

definition HealthPingRTTS_new :: "nat \<Rightarrow> nat \<Rightarrow> nat \<Rightarrow> 'f HealthPingRTTS" where
  "HealthPingRTTS_new now cap validity =
     \<lparr>rt_idx = 0, rt_cap = cap, rt_validity = validity, rtts = replicate cap \<lparr>rtt_time = now, rtt_value = Untested\<rparr>,
      stats_cache = None, last_update_at = now\<rparr>"

text \<open>\<^verbatim>\<open>put\<close> and \<^verbatim>\<open>put_fail\<close> differ in the value only; a ring without slots panics.\<close>

definition rtts_push :: "nat \<Rightarrow> RttValue \<Rightarrow> 'f HealthPingRTTS \<Rightarrow> (unit, 'f HealthPingRTTS) res" where
  "rtts_push now v h =
     (if rt_cap h = 0 then Panic
      else
        let i = (rt_idx h + 1) mod rt_cap h in
        if i < length (rtts h) then
          Ok (h\<lparr>rt_idx := i, rtts := (rtts h)[i := \<lparr>rtt_time = now, rtt_value = v\<rparr>], stats_cache := None\<rparr>)
        else Panic)"

definition rtts_put :: "nat \<Rightarrow> nat \<Rightarrow> 'f HealthPingRTTS \<Rightarrow> (unit, 'f HealthPingRTTS) res" where
  "rtts_put now d h = rtts_push now (Success d) h"

definition rtts_put_fail :: "nat \<Rightarrow> 'f HealthPingRTTS \<Rightarrow> (unit, 'f HealthPingRTTS) res" where
  "rtts_put_fail now h = rtts_push now Failed h"

text \<open>The accumulators of the loop: failures, maximum, minimum, sum, count, and the values in order.\<close>

fun stats_loop ::
  "'f f64_ops \<Rightarrow> nat \<Rightarrow> nat \<Rightarrow> nat \<times> 'f \<times> 'f \<times> 'f \<times> nat \<times> 'f list \<Rightarrow> PingRTT list \<Rightarrow> nat \<times> 'f \<times> 'f \<times> 'f \<times> nat \<times> 'f list" where
  "stats_loop F now validity acc [] = acc"
| "stats_loop F now validity (fl, mx, mn, sm, cnt, vs) (r # rs) =
     stats_loop F now validity
       (if now - rtt_time r > validity then (fl, mx, mn, sm, cnt, vs)
        else case rtt_value r of
          Untested \<Rightarrow> (fl, mx, mn, sm, cnt, vs)
        | Failed \<Rightarrow> (fl + 1, mx, mn, sm, cnt, vs)
        | Success d \<Rightarrow>
            let ms = f_millis F d in
            (fl, if f_lt F mx ms then ms else mx, if f_lt F ms mn then ms else mn, f_add F sm ms, cnt + 1, vs @ [ms])) rs"

definition compute_stats :: "'f f64_ops \<Rightarrow> nat \<Rightarrow> 'f HealthPingRTTS \<Rightarrow> 'f HealthPingStats" where
  "compute_stats F now h =
     (case stats_loop F now (rt_validity h) (0, f_zero F, f_max F, f_zero F, 0, []) (rtts h) of (fl, mx, mn, sm, cnt, vs) \<Rightarrow>
        if cnt = 0 then
          \<lparr>hp_all = cnt + fl, hp_fail = fl, deviation_ms = f_zero F, average_ms = f_zero F, max_ms = f_zero F, min_ms = f_zero F\<rparr>
        else
          let avg = f_div F sm (f_of_nat F cnt);
              dev = (if cnt < 2 then f_div F avg (f_two F)
                     else f_sqrt F (f_div F (f_sum F (map (\<lambda>v. f_powi2 F (f_sub F v avg)) vs)) (f_of_nat F cnt)))
          in \<lparr>hp_all = cnt + fl, hp_fail = fl, deviation_ms = dev, average_ms = avg, max_ms = mx, min_ms = mn\<rparr>)"

definition get_stats :: "'f f64_ops \<Rightarrow> nat \<Rightarrow> 'f HealthPingRTTS \<Rightarrow> 'f HealthPingStats \<times> 'f HealthPingRTTS" where
  "get_stats F now h =
     (case stats_cache h of
        Some c \<Rightarrow>
          if \<exists>r \<in> set (rtts h). rtt_time r > last_update_at h
          then (let st = compute_stats F now h in (st, h\<lparr>stats_cache := Some st, last_update_at := now\<rparr>))
          else (c, h)
      | None \<Rightarrow> (let st = compute_stats F now h in (st, h\<lparr>stats_cache := Some st, last_update_at := now\<rparr>)))"

section \<open>The burst observer\<close>

record HealthPingSettings =
  ping_destination :: string
  ping_connectivity :: string
  ping_interval :: nat
  sampling_count :: nat
  ping_timeout :: nat
  ping_http_method :: string

definition HealthPing_settings :: "HealthPingSettings option \<Rightarrow> HealthPingSettings" where
  "HealthPing_settings s =
     (let s = (case s of
                 Some s \<Rightarrow> s
               | None \<Rightarrow>
                   \<lparr>ping_destination = ''https://connectivitycheck.gstatic.com/generate_204'', ping_connectivity = [],
                    ping_interval = 60 * 1000000000,
                    sampling_count = 10, ping_timeout = 5 * 1000000000,
                    ping_http_method = ''HEAD''\<rparr>)
      in s\<lparr>ping_interval := (if ping_interval s < 10 * 1000000000 then 10 * 1000000000 else ping_interval s)\<rparr>)"

text \<open>The address a ping of a URL connects to.\<close>

definition trim_start_str :: "string \<Rightarrow> string \<Rightarrow> string" where
  "trim_start_str p s = rev (trim_end_str (rev p) (rev s))"

definition ping_addr :: "ProbeMethod \<Rightarrow> string" where
  "ping_addr m =
     (case m of
        ProbeTcp host port \<Rightarrow> host @ '':'' @ show_nat port
      | ProbeHttp url \<Rightarrow>
          let stripped = trim_start_str ''http://'' (trim_start_str ''https://'' url);
              host_port = hd (split_char (CHR ''/'') stripped)
          in if CHR '':'' \<in> set host_port then host_port else host_port @ '':80'')"

definition measure_delay :: "(string \<Rightarrow> (string, nat) res option) \<Rightarrow> ProbeMethod \<Rightarrow> (string, nat) res" where
  "measure_delay connect m =
     (case connect (ping_addr m) of
        Some (Ok d) \<Rightarrow> Ok d
      | Some (Err e) \<Rightarrow>
          (case m of ProbeTcp _ _ \<Rightarrow> Err (''connect '' @ ping_addr m @ '': '' @ e)
                   | ProbeHttp url \<Rightarrow> Err (''http ping '' @ url @ '': '' @ e))
      | Some Panic \<Rightarrow> Panic
      | None \<Rightarrow>
          (case m of ProbeTcp _ _ \<Rightarrow> Err (''timeout connecting to '' @ ping_addr m)
                   | ProbeHttp url \<Rightarrow> Err (''timeout http ping '' @ url)))"

text \<open>
  A sampling task ends in an outcome of its measurement (\<open>None\<close>: it timed out) and, when that is a delay, stores it under
  the lock. \<open>blk\<close> says whether the thread may block; a spawned task's thread may not. The tasks' critical
  sections happen in some order: \<open>do_check\<close> takes the tasks in this order, and drops the outcome of a panic as the code does.
\<close>

definition ping_task ::
  "bool \<Rightarrow> HealthPingSettings \<Rightarrow> nat \<Rightarrow> string \<Rightarrow> (string, nat) res option \<Rightarrow> (string \<times> 'f HealthPingRTTS) list \<Rightarrow>
   (unit, (string \<times> 'f HealthPingRTTS) list) res" where
  "ping_task blk cfg now tag outcome results =
     (case outcome of
        Some (Ok delay) \<Rightarrow>
          rbind (blocking_lock blk) (\<lambda>_.
            let entry = (case map_of results tag of
                           Some h \<Rightarrow> h
                         | None \<Rightarrow> HealthPingRTTS_new now (sampling_count cfg) (ping_interval cfg * (sampling_count cfg mod 2 ^ 32) * 2))
            in rbind (rtts_put now delay entry) (\<lambda>h. Ok (AList.update tag h results)))
      | Some Panic \<Rightarrow> Panic
      | _ \<Rightarrow> Ok results)"

definition swallow :: "'a \<Rightarrow> (unit, 'a) res \<Rightarrow> 'a" where
  "swallow x r = (case r of Ok y \<Rightarrow> y | _ \<Rightarrow> x)"

definition do_check ::
  "bool \<Rightarrow> HealthPingSettings \<Rightarrow> (nat \<times> string \<times> (string, nat) res option) list \<Rightarrow>
   (string \<times> 'f HealthPingRTTS) list \<Rightarrow> (string \<times> 'f HealthPingRTTS) list" where
  "do_check blk cfg tasks results =
     fold (\<lambda>(now, tag, outcome) res. swallow res (ping_task blk cfg now tag outcome res)) tasks results"

definition scheduler_turn ::
  "bool \<Rightarrow> HealthPingSettings \<Rightarrow> string list \<Rightarrow> (nat \<times> string \<times> (string, nat) res option) list \<Rightarrow>
   (string \<times> 'f HealthPingRTTS) list \<Rightarrow> (string \<times> 'f HealthPingRTTS) list" where
  "scheduler_turn blk cfg tags tasks results =
     (if tags = [] then results
      else filter (\<lambda>(t, _). t \<in> set tags) (do_check blk cfg tasks results))"

definition get_results :: "'f f64_ops \<Rightarrow> nat \<Rightarrow> (string \<times> 'f HealthPingRTTS) list \<Rightarrow>
   (string \<times> 'f HealthPingStats) list \<times> (string \<times> 'f HealthPingRTTS) list" where
  "get_results F now results =
     (map (\<lambda>(t, h). (t, fst (get_stats F now h))) results, map (\<lambda>(t, h). (t, snd (get_stats F now h))) results)"

definition get_observation :: "'f f64_ops \<Rightarrow> nat \<Rightarrow> (string \<times> 'f HealthPingRTTS) list \<Rightarrow> OutboundStatus list" where
  "get_observation F now results =
     map (\<lambda>(t, st). \<lparr>os_tag = t, os_alive = (hp_all st \<noteq> hp_fail st), os_delay_ms = f_as_u64 F (average_ms st),
                      os_last_error = (if hp_fail st > 0 then Some ''ping failures'' else None), os_last_seen = now\<rparr>)
       (fst (get_results F now results))"

section \<open>One verdict for all outbounds\<close>

definition obs_init :: "string list \<Rightarrow> Observatory \<Rightarrow> bool" where
  "obs_init sel obs \<longleftrightarrow> (\<exists>now alive0 probe i. obs = with_probe now sel alive0 probe i)"

inductive obs_step :: "Observatory \<Rightarrow> Observatory \<Rightarrow> bool" where
  turn: "publish result delay_ms now obs = Some obs' \<Longrightarrow> obs_step obs obs'"

text \<open>\<open>v\<close> is the verdict; \<open>e\<close> the error text.\<close>

definition obs_verdict :: "string list \<Rightarrow> bool \<Rightarrow> Observatory \<Rightarrow> bool" where
  "obs_verdict sel v obs \<longleftrightarrow> selector obs = sel \<and>
     (\<exists>d e s. \<forall>t \<in> set sel. (t \<in> alive obs \<longleftrightarrow> v) \<and> obs_status obs t = Some (v, d, e, s))"

lemma fold_insert_tags: "foldl (\<lambda>a t. insert t a) A ts = A \<union> set ts"
  by (induction ts arbitrary: A) auto

lemma fold_remove_tags: "foldl (\<lambda>a t. a - {t}) A ts = A - set ts"
  by (induction ts arbitrary: A) auto

lemma fold_status_tags: "foldl (\<lambda>st t. st(t \<mapsto> x)) f ts = (\<lambda>t. if t \<in> set ts then Some x else f t)"
  by (induction ts arbitrary: f) auto

lemmas verdict_simps = fold_insert_tags fold_remove_tags fold_status_tags obs_verdict_def

lemma with_probe_verdict: "obs_verdict sel True (with_probe now sel alive0 probe i)"
  by (auto simp: verdict_simps with_probe_def)

lemma publish_verdict:
  assumes "publish result d now obs = Some obs'" "selector obs = sel"
  shows "obs_verdict sel (result = Ok ()) obs'"
  using assms by (auto simp: verdict_simps publish_def split: res.splits)

interpretation obs_sys: inv_system "obs_init sel" obs_step "\<lambda>obs. \<exists>v. obs_verdict sel v obs" for sel
proof
  show "\<exists>v. obs_verdict sel v obs" if "obs_init sel obs" for obs
    using that with_probe_verdict unfolding obs_init_def by blast
  show "\<exists>v. obs_verdict sel v t" if "\<exists>v. obs_verdict sel v s" "obs_step s t" for s t
    using that by (auto elim!: obs_step.cases dest!: publish_verdict [where sel = sel] simp: obs_verdict_def [of sel _ s])
qed

text \<open>
  Whatever the probes report, all outbounds of the selector are alive or none is, the set the balancers read
  and the published status agree, and the last probe alone decides: no outbound is probed by itself.
\<close>
theorem observatory_uniform:
  assumes "reach (obs_init sel) obs_step obs"
  shows "\<exists>v. (\<forall>t \<in> set sel. t \<in> alive obs \<longleftrightarrow> v) \<and> map os_tag (get_status now obs) = sel \<and>
    (\<forall>o' \<in> set (get_status now obs). os_alive o' \<longleftrightarrow> v) \<and>
    (\<forall>r d s obs'. publish r d s obs = Some obs' \<longrightarrow> (\<forall>t \<in> set sel. t \<in> alive obs' \<longleftrightarrow> r = Ok ()))"
proof -
  obtain v where v: "obs_verdict sel v obs" using obs_sys.inv_reach [OF assms] by blast
  then have "map os_tag (get_status now obs) = sel" "\<forall>o' \<in> set (get_status now obs). os_alive o' \<longleftrightarrow> v"
    by (auto simp: get_status_def obs_verdict_def comp_def split: prod.splits intro: map_idI)
  moreover have "t \<in> alive obs' \<longleftrightarrow> r = Ok ()" if "publish r d s obs = Some obs'" "t \<in> set sel" for r d s obs' t
    using publish_verdict [OF that(1)] v that(2) by (auto simp: obs_verdict_def)
  ultimately show ?thesis using v by (auto simp: obs_verdict_def)
qed

section \<open>The ring keeps the last measurements\<close>

definition ring_wf :: "'f HealthPingRTTS \<Rightarrow> bool" where
  "ring_wf h \<longleftrightarrow> 0 < rt_cap h \<and> length (rtts h) = rt_cap h \<and> rt_idx h < rt_cap h"

text \<open>The slots in the order of their writing, the oldest first.\<close>

definition ring_view :: "'f HealthPingRTTS \<Rightarrow> PingRTT list" where
  "ring_view h = rotate (rt_idx h + 1) (rtts h)"

lemma rotate_update:
  assumes "i < length xs"
  shows "rotate (i + 1) (xs[i := v]) = tl (rotate i xs) @ [v]"
proof -
  have "rotate i (xs[i := v]) = (drop i xs)[0 := v] @ take i xs"
    using assms by (simp add: rotate_drop_take drop_update_swap)
  also have "\<dots> = v # tl (rotate i xs)"
    using assms by (simp add: rotate_drop_take Cons_nth_drop_Suc [symmetric])
  finally show ?thesis by simp
qed

lemma rtts_push_view:
  assumes "ring_wf h"
  shows "\<exists>h'. rtts_push now v h = Ok h' \<and> ring_wf h' \<and> rt_cap h' = rt_cap h \<and> rt_validity h' = rt_validity h \<and>
    ring_view h' = tl (ring_view h) @ [\<lparr>rtt_time = now, rtt_value = v\<rparr>]"
proof -
  have i: "(rt_idx h + 1) mod rt_cap h < length (rtts h)" using assms by (simp add: ring_wf_def)
  have "rotate ((rt_idx h + 1) mod rt_cap h) (rtts h) = rotate (rt_idx h + 1) (rtts h)"
    using assms rotate_conv_mod [of "rt_idx h + 1" "rtts h"] by (simp add: ring_wf_def)
  then show ?thesis using i assms rotate_update [OF i]
    by (simp add: rtts_push_def Let_def ring_wf_def ring_view_def)
qed

fun push_all :: "(nat \<times> RttValue) list \<Rightarrow> 'f HealthPingRTTS \<Rightarrow> (unit, 'f HealthPingRTTS) res" where
  "push_all [] h = Ok h"
| "push_all ((now, v) # vs) h = rbind (rtts_push now v h) (push_all vs)"

abbreviation sample :: "nat \<times> RttValue \<Rightarrow> PingRTT" where
  "sample p \<equiv> \<lparr>rtt_time = fst p, rtt_value = snd p\<rparr>"

lemma push_all_view:
  "ring_wf h \<Longrightarrow> \<exists>h'. push_all vs h = Ok h' \<and> ring_wf h' \<and> rt_cap h' = rt_cap h \<and> rt_validity h' = rt_validity h \<and>
     ring_view h' = drop (length vs) (ring_view h @ map sample vs)"
proof (induction vs arbitrary: h)
  case (Cons p vs)
  obtain now v where p: "p = (now, v)" by force
  from rtts_push_view [OF Cons.prems, of now v] obtain h1 where h1: "rtts_push now v h = Ok h1" "ring_wf h1" "rt_cap h1 = rt_cap h"
    "rt_validity h1 = rt_validity h" "ring_view h1 = tl (ring_view h) @ [\<lparr>rtt_time = now, rtt_value = v\<rparr>]" by blast
  obtain a w where "ring_view h = a # w" using Cons.prems by (cases "ring_view h") (auto simp: ring_view_def ring_wf_def)
  then have "drop (length vs) (ring_view h1 @ map sample vs) = drop (length (p # vs)) (ring_view h @ map sample (p # vs))"
    using h1(5) by (simp add: p)
  with Cons.IH [OF h1(2)] h1 show ?case by (auto simp: p)
qed simp

lemma ring_view_new: "ring_view (HealthPingRTTS_new now cap validity) = replicate cap \<lparr>rtt_time = now, rtt_value = Untested\<rparr>"
  by (simp add: ring_view_def HealthPingRTTS_new_def)

lemma stats_loop_counts:
  "stats_loop F now validity (fl, mx, mn, sm, cnt, vs) rs = (fl', mx', mn', sm', cnt', vs') \<Longrightarrow>
   fl' = fl + length (filter (\<lambda>r. now - rtt_time r \<le> validity \<and> rtt_value r = Failed) rs) \<and>
   cnt' = cnt + length (filter (\<lambda>r. now - rtt_time r \<le> validity \<and> (\<exists>d. rtt_value r = Success d)) rs)"
proof (induction rs arbitrary: fl mx mn sm cnt vs)
  case (Cons r rs)
  then show ?case by (cases "rtt_value r"; cases "now - rtt_time r > validity") (fastforce simp: Let_def)+
qed simp

lemma compute_stats_counts:
  "hp_fail (compute_stats F now h) = length (filter (\<lambda>r. now - rtt_time r \<le> rt_validity h \<and> rtt_value r = Failed) (rtts h)) \<and>
   hp_all (compute_stats F now h) =
     length (filter (\<lambda>r. now - rtt_time r \<le> rt_validity h \<and> (\<exists>d. rtt_value r = Success d)) (rtts h)) + hp_fail (compute_stats F now h)"
proof -
  obtain fl mx mn sm cnt vs where l: "stats_loop F now (rt_validity h) (0, f_zero F, f_max F, f_zero F, 0, []) (rtts h) = (fl, mx, mn, sm, cnt, vs)"
    by (metis prod_cases6)
  from stats_loop_counts [OF l] show ?thesis by (simp add: compute_stats_def l Let_def)
qed

lemma length_filter_rotate: "length (filter P (rotate n xs)) = length (filter P xs)"
proof -
  have "mset (rotate1 ys) = mset ys" for ys :: "'a list" by (cases ys) simp_all
  then have "mset (rotate n xs) = mset xs" by (induction n) simp_all
  then show ?thesis by (metis mset_filter size_mset)
qed

text \<open>C29. The ring is a sliding window: after any measurements its statistics count exactly the failures and the samples among
  the last \<open>cap\<close> measurements that have not expired, wherever the write index has wrapped to, and no measurement panics.\<close>
theorem ring_counts_window:
  assumes "0 < cap"
  shows "\<exists>h. push_all vs (HealthPingRTTS_new t0 cap validity) = Ok h \<and>
    hp_fail (compute_stats F now h) = length (filter (\<lambda>(t, v). now - t \<le> validity \<and> v = Failed) (drop (length vs - cap) vs)) \<and>
    hp_all (compute_stats F now h) = length (filter (\<lambda>(t, v). now - t \<le> validity \<and> v \<noteq> Untested) (drop (length vs - cap) vs))"
proof -
  let ?h0 = "HealthPingRTTS_new t0 cap validity :: 'a HealthPingRTTS"
  let ?u = "\<lparr>rtt_time = t0, rtt_value = Untested\<rparr>"
  have "ring_wf ?h0" using assms by (simp add: ring_wf_def HealthPingRTTS_new_def)
  from push_all_view [OF this, of vs] obtain h where h: "push_all vs ?h0 = Ok h" "rt_validity h = validity"
    and v: "ring_view h = drop (length vs) (replicate cap ?u @ map sample vs)"
    by (auto simp: ring_view_new) (simp add: HealthPingRTTS_new_def)
  have f: "length (filter P (rtts h)) = length (filter (P \<circ> sample) (drop (length vs - cap) vs))" if "\<not> P ?u" for P
    using that length_filter_rotate [of P "rt_idx h + 1" "rtts h"] v
    by (simp add: ring_view_def filter_map drop_map length_filter_conv_card [symmetric] comp_def)
  have split: "length (filter (\<lambda>p. now - fst p \<le> validity \<and> snd p \<noteq> Untested) xs) =
    length (filter (\<lambda>p. now - fst p \<le> validity \<and> (\<exists>d. snd p = Success d)) xs) + length (filter (\<lambda>p. now - fst p \<le> validity \<and> snd p = Failed) xs)"
    for xs :: "(nat \<times> RttValue) list"
    by (induction xs) (auto, metis RttValue.exhaust)
  show ?thesis
    using h compute_stats_counts [of F now h] by (simp add: f split comp_def case_prod_unfold)
qed

theorem ring_counts_window_witness:
  "\<forall>F :: unit f64_ops. \<exists>h. push_all [(1, Success 5), (2, Failed), (3, Success 7), (9, Failed)] (HealthPingRTTS_new 0 2 100) = Ok h \<and>
    hp_fail (compute_stats F 10 h) = 1 \<and> hp_all (compute_stats F 10 h) = 2"
proof
  fix F :: "unit f64_ops"
  show "\<exists>h. push_all [(1, Success 5), (2, Failed), (3, Success 7), (9, Failed)] (HealthPingRTTS_new 0 2 100) = Ok h \<and>
    hp_fail (compute_stats F 10 h) = 1 \<and> hp_all (compute_stats F 10 h) = 2"
    using ring_counts_window [of 2 "[(1, Success 5), (2, Failed), (3, Success 7), (9, Failed)]" 0 100 F 10]
    by (simp add: numeral_2_eq_2)
qed

text \<open>
  The cache of the statistics is dropped by new measurements only, so a verdict outlives the validity of the
  measurements it rests on.
\<close>
lemma stats_never_expire:
  assumes "\<forall>r \<in> set (rtts h). rtt_time r \<le> now"
  shows "fst (get_stats F later (snd (get_stats F now (h\<lparr>stats_cache := None\<rparr>)))) = fst (get_stats F now (h\<lparr>stats_cache := None\<rparr>))"
  using assms by (auto simp: get_stats_def Let_def not_less)

text \<open>
  Every sampling task that measured a delay takes the lock with \<^verbatim>\<open>blocking_lock\<close> inside an asynchronous task and panics, the
  others store nothing: the burst observer never has anything to report, whatever was measured.
\<close>
theorem burst_observer_blind:
  "get_observation F now (fold (\<lambda>(tags, tasks). scheduler_turn False cfg tags tasks) turns (do_check False cfg first [])) = []"
proof -
  have t: "swallow res (ping_task False cfg now tag outcome res) = res" for now tag outcome and res :: "(string \<times> 'a HealthPingRTTS) list"
    by (auto simp: ping_task_def swallow_def blocking_lock_def split: option.split res.split)
  have "do_check False cfg tasks res = res" for tasks and res :: "(string \<times> 'a HealthPingRTTS) list"
    unfolding do_check_def by (induction tasks) (auto simp: t)
  then have "fold (\<lambda>(tags, tasks). scheduler_turn False cfg tags tasks) turns (do_check False cfg first []) = ([] :: (string \<times> 'a HealthPingRTTS) list)"
    by (induction turns) (auto simp: scheduler_turn_def)
  then show ?thesis by (simp add: get_observation_def get_results_def)
qed

end
