(* ===== verification/Buffer.thy ===== *)
theory Buffer
  imports Prelude
begin

text \<open>
  \<^verbatim>\<open>astra-core-buf\<close>: the block pool (\<^verbatim>\<open>pool.rs\<close>) and the fixed-size \<^verbatim>\<open>Buffer\<close> (\<^verbatim>\<open>buffer.rs\<close>), a block
  of \<open>SIZE\<close> bytes with a readable window \<open>[start, end)\<close>. The block a new buffer gets from the pool
  is recycled and keeps the bytes of its last user, so \<open>Buffer_new\<close> threads the pool. \<open>buffer_wf\<close>
  is the type invariant and \<open>content\<close> the abstraction: the buffer is a bounded queue of bytes, and
  every operation is the list operation on its content. \<open>set_end\<close> is the one operation that does
  not keep the invariant for every argument, as in the source.
  The locale \<open>byte_chunk\<close> is what a list of buffers relies on; \<open>Buffer\<close> provides it.
\<close>

section \<open>The pool (pool.rs)\<close>

definition SIZE :: usize where "SIZE = 8192"

type_synonym block = "u8 list"
type_synonym pool = "block list"

text \<open>\<open>Vec::pop\<close> and \<open>Vec::push\<close> work at the end of the vector.\<close>

definition pool_alloc :: "pool \<Rightarrow> block \<times> pool" where
  "pool_alloc p = (if p = [] then (replicate SIZE 0, []) else (last p, butlast p))"

definition pool_release :: "block \<Rightarrow> pool \<Rightarrow> pool" where
  "pool_release b p = (if length p < 1024 then p @ [b] else p)"

definition pool_wf :: "pool \<Rightarrow> bool" where
  "pool_wf p \<longleftrightarrow> list_all (\<lambda>b. length b = SIZE) p \<and> length p \<le> 1024"

section \<open>Buffers (buffer.rs)\<close>

record buffer =
  bdata :: block
  bstart :: usize
  bend :: usize

definition Buffer_new :: "pool \<Rightarrow> buffer \<times> pool" where
  "Buffer_new p = (case pool_alloc p of (d, p') \<Rightarrow> (\<lparr>bdata = d, bstart = 0, bend = 0\<rparr>, p'))"

definition Buffer_from_slice :: "u8 list \<Rightarrow> pool \<Rightarrow> buffer \<times> pool" where
  "Buffer_from_slice xs p =
     (case Buffer_new p of (b, p') \<Rightarrow>
        let len = min (length xs) SIZE in
        (b\<lparr>bdata := overwrite 0 (take len xs) (bdata b), bend := len\<rparr>, p'))"

text \<open>\<open>None\<close> is the panic of a window out of range.\<close>

definition Buffer_slice :: "buffer \<Rightarrow> u8 list option" where
  "Buffer_slice b = slice_of (bdata b) (bstart b) (bend b)"

definition Buffer_len :: "buffer \<Rightarrow> usize" where
  "Buffer_len b = usize_sub (bend b) (bstart b)"

definition Buffer_is_empty :: "buffer \<Rightarrow> bool" where
  "Buffer_is_empty b \<longleftrightarrow> Buffer_len b = 0"

definition capacity :: "buffer \<Rightarrow> usize" where
  "capacity b = SIZE"

definition available :: "buffer \<Rightarrow> usize" where
  "available b = usize_sub SIZE (bend b)"

definition Buffer_is_full :: "buffer \<Rightarrow> bool" where
  "Buffer_is_full b \<longleftrightarrow> bend b = SIZE"

text \<open>\<open>writable_mut\<close>: the free part of the block, with whatever bytes it holds.\<close>

definition writable :: "buffer \<Rightarrow> u8 list option" where
  "writable b = slice_of (bdata b) (bend b) (length (bdata b))"

definition set_end :: "usize \<Rightarrow> buffer \<Rightarrow> buffer" where
  "set_end n b = b\<lparr>bend := n\<rparr>"

definition Buffer_clear :: "buffer \<Rightarrow> buffer" where
  "Buffer_clear b = b\<lparr>bstart := 0, bend := 0\<rparr>"

definition advance :: "usize \<Rightarrow> buffer \<Rightarrow> buffer" where
  "advance n b =
     (let n = min n (Buffer_len b); b = b\<lparr>bstart := bstart b + n\<rparr>
      in if bstart b = bend b then Buffer_clear b else b)"

text \<open>
  \<open>extend(n)\<close> returns the new tail as a mutable slice; every caller fills it with
  \<^verbatim>\<open>copy_from_slice\<close>, which is \<open>extend_copy\<close>.
\<close>

definition extend :: "usize \<Rightarrow> buffer \<Rightarrow> (unit, buffer) res" where
  "extend n b = (let new_end = bend b + n in if new_end \<le> SIZE then Ok (b\<lparr>bend := new_end\<rparr>) else Panic)"

definition extend_copy :: "u8 list \<Rightarrow> buffer \<Rightarrow> (unit, buffer) res" where
  "extend_copy ys b =
     rbind (extend (length ys) b)
       (\<lambda>b'. Ok (b'\<lparr>bdata := overwrite (bend b' - length ys) ys (bdata b')\<rparr>))"

definition resize :: "usize \<Rightarrow> usize \<Rightarrow> buffer \<Rightarrow> (unit, buffer) res" where
  "resize from to b =
     (if from \<le> to \<and> from \<le> Buffer_len b \<and> to \<le> Buffer_len b
      then let s = bstart b + from in Ok (b\<lparr>bstart := s, bend := s + (to - from)\<rparr>)
      else Panic)"

definition Buffer_byte :: "buffer \<Rightarrow> usize \<Rightarrow> (unit, u8) res" where
  "Buffer_byte b i =
     (if bstart b + i < length (bdata b) then Ok (bdata b ! (bstart b + i)) else Panic)"

definition set_byte :: "usize \<Rightarrow> u8 \<Rightarrow> buffer \<Rightarrow> (unit, buffer) res" where
  "set_byte i v b =
     (if bstart b + i < length (bdata b) then Ok (b\<lparr>bdata := (bdata b)[bstart b + i := v]\<rparr>)
      else Panic)"

text \<open>
  Signed positions count from the end when negative. The cast to \<^verbatim>\<open>usize\<close> and the addition of
  \<open>start\<close> wrap.
\<close>

definition rel_index :: "buffer \<Rightarrow> int \<Rightarrow> usize" where
  "rel_index b i = usize_add (bstart b) (as_usize (if i < 0 then int (Buffer_len b) + i else i))"

definition bytes_range :: "buffer \<Rightarrow> int \<Rightarrow> int \<Rightarrow> u8 list option" where
  "bytes_range b from to = slice_of (bdata b) (rel_index b from) (rel_index b to)"

definition bytes_from :: "buffer \<Rightarrow> int \<Rightarrow> u8 list option" where
  "bytes_from b from = slice_of (bdata b) (rel_index b from) (bend b)"

definition bytes_to :: "buffer \<Rightarrow> int \<Rightarrow> u8 list option" where
  "bytes_to b to = slice_of (bdata b) (bstart b) (rel_index b to)"

definition Buffer_release :: "buffer \<Rightarrow> pool \<Rightarrow> buffer \<times> pool" where
  "Buffer_release b p =
     (\<lparr>bdata = replicate SIZE 0, bstart = 0, bend = 0\<rparr>, pool_release (bdata b) p)"

datatype io_error = WriteZero | UnexpectedEof | Other_io nat

definition Buffer_write :: "u8 list \<Rightarrow> buffer \<Rightarrow> (io_error, usize \<times> buffer) res" where
  "Buffer_write xs b =
     (let avail = available b in
      if avail = 0 then Err WriteZero
      else let n = min (length xs) avail in
        Ok (n, b\<lparr>bdata := overwrite (bend b) (take n xs) (bdata b), bend := bend b + n\<rparr>))"

text \<open>\<open>read\<close> into a slice of \<open>k\<close> bytes: the bytes copied and the buffer after.\<close>

definition Buffer_read :: "usize \<Rightarrow> buffer \<Rightarrow> u8 list \<times> buffer" where
  "Buffer_read k b =
     (if Buffer_is_empty b then ([], b)
      else let n = min k (Buffer_len b);
               out = take n (drop (bstart b) (bdata b));
               b = b\<lparr>bstart := bstart b + n\<rparr>
           in (out, if bstart b = bend b then Buffer_clear b else b))"

text \<open>\<open>Read for &Buffer\<close>: the same bytes, and the buffer keeps them.\<close>

definition Buffer_peek :: "usize \<Rightarrow> buffer \<Rightarrow> u8 list" where
  "Buffer_peek k b =
     (if Buffer_is_empty b then []
      else take (min k (Buffer_len b)) (drop (bstart b) (bdata b)))"

definition Buffer_clone :: "buffer \<Rightarrow> pool \<Rightarrow> (unit, buffer \<times> pool) res" where
  "Buffer_clone self p =
     (case Buffer_new p of (b, p') \<Rightarrow>
        rbind (or_panic (Buffer_slice self))
          (\<lambda>s. Ok (b\<lparr>bdata := overwrite 0 s (bdata b), bend := Buffer_len self\<rparr>, p')))"

section \<open>Invariant and abstraction\<close>

definition buffer_wf :: "buffer \<Rightarrow> bool" where
  "buffer_wf b \<longleftrightarrow> length (bdata b) = SIZE \<and> bstart b \<le> bend b \<and> bend b \<le> SIZE"

definition content :: "buffer \<Rightarrow> u8 list" where
  "content b = take (bend b - bstart b) (drop (bstart b) (bdata b))"

named_theorems buf_defs \<open>definitions of the buffer operations\<close>

declare Buffer_len_def [buf_defs] Buffer_is_empty_def [buf_defs] available_def [buf_defs]
  buffer_wf_def [buf_defs] content_def [buf_defs] Buffer_clear_def [buf_defs]
  advance_def [buf_defs] Buffer_read_def [buf_defs] Buffer_write_def [buf_defs]
  extend_def [buf_defs] extend_copy_def [buf_defs] set_end_def [buf_defs]

lemma pool_alloc_wf:
  assumes "pool_wf p" and "pool_alloc p = (d, p')"
  shows "length d = SIZE \<and> pool_wf p'"
proof (cases p rule: rev_cases)
  case Nil
  with assms show ?thesis by (auto simp: pool_alloc_def pool_wf_def)
next
  case (snoc q x)
  with assms show ?thesis by (auto simp: pool_alloc_def pool_wf_def)
qed

lemma pool_release_wf: "pool_wf p \<Longrightarrow> length d = SIZE \<Longrightarrow> pool_wf (pool_release d p)"
  by (simp add: pool_release_def pool_wf_def)

lemma Buffer_new_spec:
  "pool_wf p \<Longrightarrow> Buffer_new p = (b, p') \<Longrightarrow>
   buffer_wf b \<and> content b = [] \<and> bstart b = 0 \<and> bend b = 0 \<and> pool_wf p'"
  by (auto simp: Buffer_new_def buf_defs dest: pool_alloc_wf split: prod.splits)

lemma length_content: "buffer_wf b \<Longrightarrow> length (content b) = Buffer_len b"
  by (auto simp: buf_defs)

lemma Buffer_slice_content: "buffer_wf b \<Longrightarrow> Buffer_slice b = Some (content b)"
  by (simp add: Buffer_slice_def slice_of_def buf_defs)

lemma Buffer_is_empty_content: "buffer_wf b \<Longrightarrow> Buffer_is_empty b \<longleftrightarrow> content b = []"
  using length_content [of b] by (auto simp: Buffer_is_empty_def)

lemma advance_spec: "buffer_wf b \<Longrightarrow> buffer_wf (advance n b) \<and> content (advance n b) = drop n (content b)"
  by (auto simp: buf_defs Let_def min_def drop_take add.commute)

lemma Buffer_read_spec:
  "buffer_wf b \<Longrightarrow> Buffer_read k b = (out, b') \<Longrightarrow>
   out = take k (content b) \<and> content b' = drop k (content b) \<and> buffer_wf b'"
  by (auto simp: buf_defs Let_def min_def drop_take add.commute split: if_splits)

lemma Buffer_peek_spec: "buffer_wf b \<Longrightarrow> Buffer_peek k b = take k (content b)"
  by (auto simp: Buffer_peek_def buf_defs min_def)

lemma extend_copy_spec:
  assumes "buffer_wf b" and "length ys \<le> available b"
  shows "\<exists>b'. extend_copy ys b = Ok b' \<and> buffer_wf b' \<and> content b' = content b @ ys
           \<and> bstart b' = bstart b"
  using assms window_overwrite [of "bstart b" "bend b" ys "bdata b"]
  by (auto simp: buf_defs Let_def)

lemma Buffer_write_spec:
  assumes "buffer_wf b" and "0 < available b"
  shows "\<exists>b'. Buffer_write xs b = Ok (min (length xs) (available b), b') \<and> buffer_wf b'
           \<and> content b' = content b @ take (available b) xs"
proof -
  let ?n = "min (length xs) (available b)"
  have "take ?n xs = take (available b) xs" by (simp add: min_def)
  with assms window_overwrite [of "bstart b" "bend b" "take ?n xs" "bdata b"] show ?thesis
    by (auto simp: buf_defs Let_def)
qed

lemma Buffer_write_full: "buffer_wf b \<Longrightarrow> available b = 0 \<Longrightarrow> Buffer_write xs b = Err WriteZero"
  by (simp add: Buffer_write_def)

lemma Buffer_from_slice_spec:
  assumes "pool_wf p" and "Buffer_from_slice xs p = (b, p')"
  shows "buffer_wf b \<and> content b = take SIZE xs \<and> pool_wf p'"
proof -
  obtain c q where c: "Buffer_new p = (c, q)" by (cases "Buffer_new p")
  note n = Buffer_new_spec [OF assms(1) c]
  let ?ys = "take (min (length xs) SIZE) xs"
  have "?ys = take SIZE xs" by (simp add: min_def)
  with assms c n window_overwrite [of 0 0 ?ys "bdata c"] show ?thesis
    by (auto simp: Buffer_from_slice_def buf_defs Let_def)
qed

lemma resize_spec:
  assumes "buffer_wf b"
  shows "(from \<le> to \<and> to \<le> length (content b) \<longrightarrow>
           (\<exists>b'. resize from to b = Ok b' \<and> buffer_wf b' \<and> content b' = take (to - from) (drop from (content b))))
       \<and> (\<not> (from \<le> to \<and> to \<le> length (content b)) \<longrightarrow> resize from to b = Panic)"
  using assms length_content [OF assms]
  by (auto simp: resize_def buf_defs Let_def drop_take add.commute min_def)

lemma Buffer_clone_spec:
  assumes "buffer_wf b" and "pool_wf p"
  shows "\<exists>c p'. Buffer_clone b p = Ok (c, p') \<and> buffer_wf c \<and> content c = content b \<and> pool_wf p'"
proof -
  obtain c q where c: "Buffer_new p = (c, q)" by (cases "Buffer_new p")
  note n = Buffer_new_spec [OF assms(2) c]
  have l: "length (content b) \<le> SIZE" "Buffer_len b = length (content b)"
    using assms(1) by (auto simp: length_content) (auto simp: buf_defs)
  have w: "take (length (content b)) (overwrite 0 (content b) (bdata c)) = content b"
    using n l window_overwrite [of 0 0 "content b" "bdata c"] by (simp add: buffer_wf_def)
  from n l have "buffer_wf (c\<lparr>bdata := overwrite 0 (content b) (bdata c), bend := Buffer_len b\<rparr>)"
    by (simp add: buffer_wf_def)
  moreover have "content (c\<lparr>bdata := overwrite 0 (content b) (bdata c), bend := Buffer_len b\<rparr>) = content b"
    using n w l(2) by (simp add: content_def [of "_\<lparr>bend := _\<rparr>"])
  ultimately show ?thesis
    using c n assms(1) by (auto simp: Buffer_clone_def Buffer_slice_content)
qed

text \<open>
  A byte of the window, read and written by position. Positions past the window but inside the
  block are reachable, as in the source; past the block they panic.
\<close>

lemma Buffer_byte_content:
  "buffer_wf b \<Longrightarrow> i < length (content b) \<Longrightarrow> Buffer_byte b i = Ok (content b ! i)"
  by (auto simp: Buffer_byte_def buf_defs)

lemma set_byte_content:
  "buffer_wf b \<Longrightarrow> i < length (content b) \<Longrightarrow>
   \<exists>b'. set_byte i v b = Ok b' \<and> buffer_wf b' \<and> content b' = (content b)[i := v]"
  by (auto simp: set_byte_def buf_defs take_update_swap drop_update_swap)

lemma rel_index_pos: "buffer_wf b \<Longrightarrow> 0 \<le> i \<Longrightarrow> i \<le> int (length (content b)) \<Longrightarrow>
   rel_index b i = bstart b + nat i"
  by (auto simp: rel_index_def usize_add_def as_usize_def buf_defs SIZE_def)

lemma rel_index_neg: "buffer_wf b \<Longrightarrow> i < 0 \<Longrightarrow> - int (length (content b)) \<le> i \<Longrightarrow>
   rel_index b i = bstart b + (length (content b) - nat (- i))"
  by (auto simp: rel_index_def usize_add_def as_usize_def buf_defs SIZE_def)

text \<open>Signed positions select from the window as they do in a slice language: from \<open>lo\<close> up to
  \<open>hi\<close>, a negative position counting from the end of the window, for positions within the window.\<close>

lemma bytes_range_spec:
  assumes "buffer_wf b" and "- int (length (content b)) \<le> lo" and "lo \<le> int (length (content b))"
    and "- int (length (content b)) \<le> hi" and "hi \<le> int (length (content b))"
  shows "bytes_range b lo hi =
    (let f = (if lo < 0 then length (content b) - nat (- lo) else nat lo);
         t = (if hi < 0 then length (content b) - nat (- hi) else nat hi)
     in if f \<le> t then Some (take (t - f) (drop f (content b))) else None)"
proof -
  define f where "f = (if lo < 0 then length (content b) - nat (- lo) else nat lo)"
  define t where "t = (if hi < 0 then length (content b) - nat (- hi) else nat hi)"
  have r: "rel_index b lo = bstart b + f" "rel_index b hi = bstart b + t"
    using assms rel_index_pos [of b lo] rel_index_pos [of b hi] rel_index_neg [of b lo]
      rel_index_neg [of b hi] by (auto simp: f_def t_def)
  have "t \<le> length (content b)" using assms by (auto simp: t_def)
  then have "bstart b + t \<le> bend b" and "bend b \<le> SIZE"
    using assms(1) by (auto simp: buf_defs)
  with assms(1) have "bytes_range b lo hi = (if f \<le> t then Some (take (t - f) (drop f (content b))) else None)"
    by (auto simp: bytes_range_def r slice_of_def buf_defs drop_take add.commute min_def)
  then show ?thesis by (simp add: f_def t_def Let_def)
qed

section \<open>Interface: a chunk of bytes\<close>

text \<open>
  What a sequence of chunks needs of one chunk: its length, its bytes, dropping a prefix, and a
  fresh chunk filled with given bytes (at most \<open>cap\<close> of them).
\<close>

locale byte_chunk =
  fixes wf :: "'b \<Rightarrow> bool" and view :: "'b \<Rightarrow> u8 list" and len :: "'b \<Rightarrow> usize"
    and skip :: "usize \<Rightarrow> 'b \<Rightarrow> 'b" and cap :: usize
  assumes len_view: "wf b \<Longrightarrow> len b = length (view b)"
    and skip_view: "wf b \<Longrightarrow> view (skip n b) = drop n (view b)"
    and skip_wf: "wf b \<Longrightarrow> wf (skip n b)"
    and len_cap: "wf b \<Longrightarrow> len b \<le> cap"
begin

lemma sum_len_views: "list_all wf bs \<Longrightarrow> sum_list (map len bs) = length (concat (map view bs))"
  by (induction bs) (auto simp: len_view)

lemma take_views_whole:
  "wf b \<Longrightarrow> len b \<le> n \<Longrightarrow> take n (view b @ vs) = view b @ take (n - len b) vs"
  by (simp add: len_view)

lemma drop_views_whole: "wf b \<Longrightarrow> len b \<le> n \<Longrightarrow> drop n (view b @ vs) = drop (n - len b) vs"
  by (simp add: len_view)

lemma take_views_part: "wf b \<Longrightarrow> n \<le> len b \<Longrightarrow> take n (view b @ vs) = take n (view b)"
  by (simp add: len_view)

lemma drop_views_part: "wf b \<Longrightarrow> n \<le> len b \<Longrightarrow> drop n (view b @ vs) = view (skip n b) @ vs"
  by (simp add: len_view skip_view)

lemma views_empty_iff: "list_all wf bs \<Longrightarrow> sum_list (map len bs) = 0 \<longleftrightarrow> concat (map view bs) = []"
  by (auto simp: sum_len_views)

end

interpretation bufq: byte_chunk buffer_wf content Buffer_len advance SIZE
proof unfold_locales
  fix b assume wf: "buffer_wf b"
  then show "Buffer_len b = length (content b)" by (simp add: length_content)
  from wf show "Buffer_len b \<le> SIZE" by (auto simp: buf_defs)
qed (auto simp: advance_spec)

section \<open>Properties\<close>

text \<open>
  Operations on one buffer as a trace: what each one took in and what it gave out. A write that
  finds the buffer full takes nothing in; \<open>advance\<close> gives out the bytes it skips.
\<close>

datatype buf_op = Op_write "u8 list" | Op_read usize | Op_advance usize

fun buf_step :: "buf_op \<Rightarrow> buffer \<Rightarrow> u8 list \<times> u8 list \<times> buffer" where
  "buf_step (Op_write xs) b =
     (case Buffer_write xs b of Ok (n, b') \<Rightarrow> (take n xs, [], b') | _ \<Rightarrow> ([], [], b))"
| "buf_step (Op_read k) b = (case Buffer_read k b of (out, b') \<Rightarrow> ([], out, b'))"
| "buf_step (Op_advance n) b = ([], take n (content b), advance n b)"

fun buf_run :: "buf_op list \<Rightarrow> buffer \<Rightarrow> u8 list \<times> u8 list \<times> buffer" where
  "buf_run [] b = ([], [], b)"
| "buf_run (x # xs) b =
     (case buf_step x b of (i, out, b') \<Rightarrow>
        (case buf_run xs b' of (is, outs, b'') \<Rightarrow> (i @ is, out @ outs, b'')))"

lemma buf_step_fifo:
  assumes "buffer_wf b" and "buf_step x b = (i, out, b')"
  shows "content b @ i = out @ content b' \<and> buffer_wf b'"
proof (cases x)
  case (Op_write xs)
  show ?thesis
  proof (cases "available b = 0")
    case True
    with Op_write assms show ?thesis by (auto simp: Buffer_write_def)
  next
    case False
    with Buffer_write_spec [OF assms(1), of xs] Op_write assms show ?thesis by (auto simp: min_def)
  qed
next
  case (Op_read k)
  with assms Buffer_read_spec [OF assms(1), of k] show ?thesis by (auto split: prod.splits)
next
  case (Op_advance n)
  with assms advance_spec [OF assms(1), of n] show ?thesis by auto
qed

text \<open>C19. A buffer is a first-in first-out queue: over any sequence of writes, reads and skips, the bytes
  it held followed by the bytes it accepted are the bytes it delivered followed by the bytes it
  still holds, and the window stays inside the block.\<close>

theorem Buffer_fifo:
  "buffer_wf b \<Longrightarrow> buf_run xs b = (ins, outs, b') \<Longrightarrow>
   content b @ ins = outs @ content b' \<and> buffer_wf b'"
proof (induction xs arbitrary: b ins outs b')
  case (Cons x xs)
  obtain i out c where s: "buf_step x b = (i, out, c)" by (cases "buf_step x b") auto
  obtain is' os d where r: "buf_run xs c = (is', os, d)" by (cases "buf_run xs c") auto
  from buf_step_fifo [OF Cons.prems(1) s] have c: "content b @ i = out @ content c" "buffer_wf c"
    by auto
  from Cons.IH [OF c(2) r] have d: "content c @ is' = os @ content d" "buffer_wf d" by auto
  have "content b @ i @ is' = (content b @ i) @ is'" by simp
  also have "\<dots> = (out @ os) @ content d" using c(1) d(1) by simp
  finally show ?case using Cons.prems(2) s r d(2) by auto
qed simp

theorem Buffer_fifo_witness:
  "\<exists>b'. buf_run [Op_write [1, 2, 3], Op_read 2, Op_write [4], Op_advance 1]
      \<lparr>bdata = replicate SIZE 0, bstart = 0, bend = 0\<rparr> = ([1, 2, 3, 4], [1, 2, 3], b')
    \<and> content b' = [4]"
proof -
  let ?b = "\<lparr>bdata = replicate SIZE 0, bstart = 0, bend = 0\<rparr>"
  have wf: "buffer_wf ?b" by (simp add: buffer_wf_def)
  have "SIZE = Suc (Suc (Suc (Suc (SIZE - 4))))" by (simp add: SIZE_def)
  then have r: "replicate SIZE (0::u8) = 0 # 0 # 0 # 0 # replicate (SIZE - 4) 0"
    by (metis replicate_Suc)
  have "4 \<le> SIZE" by (simp add: SIZE_def)
  then obtain b' where run: "buf_run [Op_write [1, 2, 3], Op_read 2, Op_write [4], Op_advance 1] ?b
      = ([1, 2, 3, 4], [1, 2, 3], b')"
    by (simp add: buf_defs r overwrite_def Let_def)
  with Buffer_fifo [OF wf run] show ?thesis by (auto simp: content_def)
qed

end
