(* ===== verification/Multi_Buffer.thy ===== *)
theory Multi_Buffer
  imports Buffer
begin

text \<open>
  \<^verbatim>\<open>astra-core-buf/src/multi_buffer.rs\<close>: a queue of buffers with a cached total length. \<open>mb_wf\<close> says
  that every buffer is well formed and that the cached length is the sum of the lengths;
  \<open>mb_content\<close> is the byte stream. The proofs use the chunk interface \<open>bufq\<close> of \<open>Buffer\<close>.
  \<open>cut_front\<close>, \<open>split_off\<close> and \<open>copy_bytes\<close> are the list operations they should be; \<open>append\<close> leaves
  the drained source with its old cached length, and \<open>read_into\<close> panics when a buffer other than
  the first reaches past the end of the destination.
\<close>

record multi_buffer =
  bufs :: "buffer list"
  total_len :: usize

definition mb_new :: multi_buffer where
  "mb_new = \<lparr>bufs = [], total_len = 0\<rparr>"

definition with_buffer :: "buffer \<Rightarrow> multi_buffer" where
  "with_buffer b = \<lparr>bufs = [b], total_len = Buffer_len b\<rparr>"

definition mb_len :: "multi_buffer \<Rightarrow> usize" where "mb_len mb = total_len mb"
definition mb_is_empty :: "multi_buffer \<Rightarrow> bool" where "mb_is_empty mb \<longleftrightarrow> total_len mb = 0"
definition num_buffers :: "multi_buffer \<Rightarrow> usize" where "num_buffers mb = length (bufs mb)"

definition push_back :: "multi_buffer \<Rightarrow> buffer \<Rightarrow> multi_buffer" where
  "push_back mb b = \<lparr>bufs = bufs mb @ [b], total_len = total_len mb + Buffer_len b\<rparr>"

definition push_front :: "multi_buffer \<Rightarrow> buffer \<Rightarrow> multi_buffer" where
  "push_front mb b = \<lparr>bufs = b # bufs mb, total_len = total_len mb + Buffer_len b\<rparr>"

fun pop_front :: "multi_buffer \<Rightarrow> buffer option \<times> multi_buffer" where
  "pop_front mb =
     (case bufs mb of
        [] \<Rightarrow> (None, mb)
      | b # bs \<Rightarrow> (Some b, \<lparr>bufs = bs, total_len = usize_sub (total_len mb) (Buffer_len b)\<rparr>))"

fun mb_front :: "multi_buffer \<Rightarrow> buffer option" where
  "mb_front mb = (case bufs mb of [] \<Rightarrow> None | b # _ \<Rightarrow> Some b)"

text \<open>\<open>append\<close> drains \<open>other\<close> into \<open>self\<close>; the second component is \<open>other\<close> afterwards.\<close>

definition mb_append :: "multi_buffer \<Rightarrow> multi_buffer \<Rightarrow> multi_buffer \<times> multi_buffer" where
  "mb_append self other = (foldl push_back self (bufs other), other\<lparr>bufs := []\<rparr>)"

fun cut_loop ::
  "usize \<Rightarrow> buffer list \<Rightarrow> usize \<Rightarrow> multi_buffer \<Rightarrow> pool \<Rightarrow> (unit, multi_buffer \<times> multi_buffer \<times> pool) res"
where
  "cut_loop remaining [] tot result p = Ok (\<lparr>bufs = [], total_len = tot\<rparr>, result, p)"
| "cut_loop remaining (b # bs) tot result p =
     (if remaining = 0 then Ok (\<lparr>bufs = b # bs, total_len = tot\<rparr>, result, p)
      else if Buffer_len b \<le> remaining
      then cut_loop (remaining - Buffer_len b) bs (usize_sub tot (Buffer_len b)) (push_back result b) p
      else case Buffer_new p of (new_buf, p') \<Rightarrow>
        rbind (or_panic (Buffer_slice b)) (\<lambda>s.
          rbind (extend_copy (take remaining s) new_buf) (\<lambda>new_buf.
            Ok (\<lparr>bufs = advance remaining b # bs, total_len = usize_sub tot remaining\<rparr>,
                push_back result new_buf, p'))))"

definition cut_front :: "usize \<Rightarrow> multi_buffer \<Rightarrow> pool \<Rightarrow> (unit, multi_buffer \<times> multi_buffer \<times> pool) res" where
  "cut_front n mb p = cut_loop n (bufs mb) (total_len mb) mb_new p"

text \<open>The index of the first buffer that would carry the running count past \<open>at\<close>.\<close>

fun split_index :: "usize \<Rightarrow> usize \<Rightarrow> buffer list \<Rightarrow> nat" where
  "split_index at count [] = 0"
| "split_index at count (b # bs) =
     (if at < count + Buffer_len b then 0 else Suc (split_index at (count + Buffer_len b) bs))"

text \<open>The loop that pops from the back until \<open>idx\<close> buffers are left.\<close>

function split_pop :: "nat \<Rightarrow> multi_buffer \<Rightarrow> multi_buffer \<Rightarrow> multi_buffer \<times> multi_buffer" where
  "split_pop idx mb result =
     (if idx < length (bufs mb)
      then let b = last (bufs mb) in
           split_pop idx \<lparr>bufs = butlast (bufs mb), total_len = usize_sub (total_len mb) (Buffer_len b)\<rparr>
             (push_front result b)
      else (mb, result))"
  by pat_completeness auto
termination
  by (relation "measure (\<lambda>(idx, mb, r). length (bufs mb))") auto

declare split_pop.simps [simp del]

definition split_off :: "usize \<Rightarrow> multi_buffer \<Rightarrow> multi_buffer \<times> multi_buffer" where
  "split_off at mb = split_pop (split_index at 0 (bufs mb)) mb mb_new"

text \<open>
  \<open>read_into\<close> a destination of \<open>k\<close> bytes: \<open>out\<close> is what has been copied so far. The count taken
  from each buffer is the minimum of the \<^emph>\<open>whole\<close> destination and the buffer, as in the source.
\<close>

lemma advance_0_empty: "Buffer_len b = 0 \<Longrightarrow> Buffer_is_empty (advance 0 b)"
  by (auto simp: advance_def Buffer_is_empty_def Buffer_clear_def Let_def Buffer_len_def usize_sub_def
      split: if_splits)

lemma length_Buffer_slice: "Buffer_slice b = Some s \<Longrightarrow> length s = Buffer_len b"
  by (auto simp: Buffer_slice_def slice_of_def Buffer_len_def split: if_splits)

function read_into_loop ::
  "usize \<Rightarrow> u8 list \<Rightarrow> buffer list \<Rightarrow> usize \<Rightarrow> (unit, u8 list \<times> multi_buffer) res"
where
  "read_into_loop k out bs tot =
     (if \<not> length out < k then Ok (out, \<lparr>bufs = bs, total_len = tot\<rparr>)
      else case bs of
        [] \<Rightarrow> Ok (out, \<lparr>bufs = [], total_len = tot\<rparr>)
      | b # rest \<Rightarrow>
          (let n = min k (Buffer_len b) in
           case Buffer_slice b of
             None \<Rightarrow> Panic
           | Some s \<Rightarrow>
               (if k < length out + n then Panic
                else let b' = advance n b in
                  if Buffer_is_empty b'
                  then read_into_loop k (out @ take n s) rest (usize_sub tot n)
                  else read_into_loop k (out @ take n s) (b' # rest) (usize_sub tot n))))"
  by pat_completeness auto
termination
proof (relation "measures [\<lambda>(k, out, bs, tot). length bs, \<lambda>(k, out, bs, tot). k - length out]")
  fix k :: usize and out :: "u8 list" and bs tot b rest n s b'
  assume *: "\<not> \<not> length out < k" "bs = b # rest" "n = min k (Buffer_len b)" "Buffer_slice b = Some s"
    "\<not> k < length out + n" "b' = advance n b" "\<not> Buffer_is_empty b'"
  have "n \<noteq> 0"
    using * advance_0_empty [of b] by (cases "Buffer_len b = 0") (auto simp: min_def split: if_splits)
  with * length_Buffer_slice [of b s]
  show "((k, out @ take n s, b' # rest, usize_sub tot n), k, out, bs, tot)
      \<in> measures [\<lambda>(k, out, bs, tot). length bs, \<lambda>(k, out, bs, tot). k - length out]"
    by auto
qed auto

declare read_into_loop.simps [simp del]

definition read_into :: "usize \<Rightarrow> multi_buffer \<Rightarrow> (unit, u8 list \<times> multi_buffer) res" where
  "read_into k mb = read_into_loop k [] (bufs mb) (total_len mb)"

definition release_all :: "multi_buffer \<Rightarrow> multi_buffer" where
  "release_all mb = \<lparr>bufs = [], total_len = 0\<rparr>"

fun copy_bytes_loop :: "usize \<Rightarrow> u8 list \<Rightarrow> buffer list \<Rightarrow> (unit, u8 list) res" where
  "copy_bytes_loop k out [] = Ok out"
| "copy_bytes_loop k out (b # bs) =
     (if k \<le> length out then Ok out
      else let n = min (k - length out) (Buffer_len b) in
        rbind (or_panic (Buffer_slice b)) (\<lambda>s. copy_bytes_loop k (out @ take n s) bs))"

definition copy_bytes :: "usize \<Rightarrow> multi_buffer \<Rightarrow> (unit, u8 list) res" where
  "copy_bytes k mb = copy_bytes_loop k [] (bufs mb)"

section \<open>Invariant and abstraction\<close>

abbreviation lens :: "buffer list \<Rightarrow> usize" where "lens bs \<equiv> sum_list (map Buffer_len bs)"
abbreviation bytes_of :: "buffer list \<Rightarrow> u8 list" where "bytes_of bs \<equiv> concat (map content bs)"

definition mb_wf :: "multi_buffer \<Rightarrow> bool" where
  "mb_wf mb \<longleftrightarrow> list_all buffer_wf (bufs mb) \<and> total_len mb = lens (bufs mb)"

definition mb_content :: "multi_buffer \<Rightarrow> u8 list" where
  "mb_content mb = bytes_of (bufs mb)"

named_theorems mb_defs \<open>invariant and abstraction of buffer queues\<close>

declare mb_wf_def [mb_defs] mb_content_def [mb_defs]

lemma mb_len_content: "mb_wf mb \<Longrightarrow> mb_len mb = length (mb_content mb)"
  by (simp add: mb_defs mb_len_def bufq.sum_len_views)

lemma mb_is_empty_content: "mb_wf mb \<Longrightarrow> mb_is_empty mb \<longleftrightarrow> mb_content mb = []"
  using mb_len_content [of mb] by (auto simp: mb_is_empty_def mb_len_def)

lemma mb_new_spec [simp]: "mb_wf mb_new" "mb_content mb_new = []" "total_len mb_new = 0"
    "bufs mb_new = []"
  by (simp_all add: mb_defs mb_new_def)

lemma with_buffer_spec: "buffer_wf b \<Longrightarrow> mb_wf (with_buffer b) \<and> mb_content (with_buffer b) = content b"
  by (simp add: mb_defs with_buffer_def)

lemma push_back_spec:
  "mb_wf mb \<Longrightarrow> buffer_wf b \<Longrightarrow> mb_wf (push_back mb b) \<and> mb_content (push_back mb b) = mb_content mb @ content b"
  by (simp add: mb_defs push_back_def)

lemma push_front_spec:
  "mb_wf mb \<Longrightarrow> buffer_wf b \<Longrightarrow> mb_wf (push_front mb b) \<and> mb_content (push_front mb b) = content b @ mb_content mb"
  by (simp add: mb_defs push_front_def)

lemma pop_front_spec:
  "mb_wf mb \<Longrightarrow> pop_front mb = (Some b, mb') \<Longrightarrow>
   mb_wf mb' \<and> buffer_wf b \<and> mb_content mb = content b @ mb_content mb'"
  by (auto simp: mb_defs split: list.splits)

lemma foldl_push_back:
  "mb_wf mb \<Longrightarrow> list_all buffer_wf bs \<Longrightarrow>
   mb_wf (foldl push_back mb bs) \<and> mb_content (foldl push_back mb bs) = mb_content mb @ bytes_of bs"
  by (induction bs arbitrary: mb) (auto simp: push_back_spec)

lemma cut_loop_spec:
  assumes "list_all buffer_wf bs" and "mb_wf r" and "pool_wf p" and "tot = lens bs"
  shows "\<exists>mb' r' p'. cut_loop n bs tot r p = Ok (mb', r', p') \<and> mb_wf mb' \<and> mb_wf r' \<and> pool_wf p'
    \<and> mb_content mb' = drop n (bytes_of bs) \<and> mb_content r' = mb_content r @ take n (bytes_of bs)"
  using assms
proof (induction n bs tot r p rule: cut_loop.induct)
  case (1 n tot r p)
  then show ?case by (simp add: mb_defs)
next
  case (2 n b bs tot r p)
  then have b: "buffer_wf b" and bs: "list_all buffer_wf bs" by auto
  consider "n = 0" | "n \<noteq> 0" "Buffer_len b \<le> n" | "n \<noteq> 0" "n < Buffer_len b" by linarith
  then show ?case
  proof cases
    case 1
    with "2.prems" show ?thesis by (simp add: mb_defs)
  next
    case 2
    have "\<exists>mb' r' p'. cut_loop (n - Buffer_len b) bs (usize_sub tot (Buffer_len b)) (push_back r b) p
        = Ok (mb', r', p') \<and> mb_wf mb' \<and> mb_wf r' \<and> pool_wf p'
        \<and> mb_content mb' = drop (n - Buffer_len b) (bytes_of bs)
        \<and> mb_content r' = mb_content (push_back r b) @ take (n - Buffer_len b) (bytes_of bs)"
      using 2 "2.prems" b push_back_spec [of r b] by (intro "2.IH") auto
    with 2 b push_back_spec [OF "2.prems"(2) b] show ?thesis
      by (auto simp: bufq.take_views_whole bufq.drop_views_whole simp del: take_append drop_append)
  next
    case 3
    obtain nb p' where nb: "Buffer_new p = (nb, p')" by (cases "Buffer_new p")
    note new = Buffer_new_spec [OF "2.prems"(3) nb]
    have l: "length (take n (content b)) = n" using 3 b by (simp add: length_content)
    have "n \<le> available nb" using 3 new bufq.len_cap [OF b] by (simp add: available_def)
    with extend_copy_spec [of nb "take n (content b)"] new l obtain nb' where
      e: "extend_copy (take n (content b)) nb = Ok nb'" "buffer_wf nb'" "content nb' = take n (content b)"
      by auto
    have ok: "cut_loop n (b # bs) tot r p
        = Ok (\<lparr>bufs = advance n b # bs, total_len = usize_sub tot n\<rparr>, push_back r nb', p')"
      using 3 nb b e by (simp add: Buffer_slice_content)
    have "Buffer_len (advance n b) = Buffer_len b - n"
      using advance_spec [OF b, of n] length_content [of "advance n b"] length_content [OF b] by simp
    then have w: "mb_wf \<lparr>bufs = advance n b # bs, total_len = usize_sub tot n\<rparr>"
      using 3 "2.prems" b bs by (simp add: mb_wf_def advance_spec)
    with ok e push_back_spec [OF "2.prems"(2) e(2)] new 3 b show ?thesis
      by (simp add: mb_content_def bufq.take_views_part bufq.drop_views_part del: take_append drop_append)
  qed
qed

lemma split_pop_spec:
  "mb_wf mb \<Longrightarrow> mb_wf r \<Longrightarrow> split_pop idx mb r = (mb', r') \<Longrightarrow>
   mb_wf mb' \<and> mb_wf r' \<and> bufs mb' = take idx (bufs mb) \<and> bufs r' = drop idx (bufs mb) @ bufs r"
proof (induction idx mb r rule: split_pop.induct)
  case (1 idx mb r)
  show ?case
  proof (cases "idx < length (bufs mb)")
    case True
    then obtain bs b where bs: "bufs mb = bs @ [b]" by (cases "bufs mb" rule: rev_cases) auto
    let ?mb = "\<lparr>bufs = bs, total_len = usize_sub (total_len mb) (Buffer_len b)\<rparr>"
    have wf: "mb_wf ?mb" and b: "buffer_wf b" using "1.prems"(1) bs by (auto simp: mb_defs)
    have "split_pop idx ?mb (push_front r b) = (mb', r')"
      using "1.prems"(3) True bs by (simp add: split_pop.simps [of idx mb r])
    then have "mb_wf mb' \<and> mb_wf r' \<and> bufs mb' = take idx bs
        \<and> bufs r' = drop idx bs @ bufs (push_front r b)"
      using "1.IH" [OF True refl] wf b "1.prems"(2) bs by (simp add: push_front_spec)
    with True bs show ?thesis by (simp add: push_front_def)
  next
    case False
    with "1.prems" show ?thesis by (simp add: split_pop.simps [of idx mb r])
  qed
qed

lemma split_index_bound: "split_index at c bs \<le> length bs"
  by (induction at c bs rule: split_index.induct) auto

lemma split_index_lens:
  "c \<le> at \<Longrightarrow> c + lens (take (split_index at c bs) bs) \<le> at"
proof (induction at c bs rule: split_index.induct)
  case (2 at c b bs)
  then show ?case by (cases "at < c + Buffer_len b") (auto simp: add.assoc)
qed simp

lemma split_index_max:
  "split_index at c bs < length bs \<Longrightarrow>
   at < c + lens (take (Suc (split_index at c bs)) bs)"
proof (induction at c bs rule: split_index.induct)
  case (2 at c b bs)
  then show ?case by (cases "at < c + Buffer_len b") (auto simp: add.assoc)
qed simp

lemma copy_bytes_loop_spec:
  "list_all buffer_wf bs \<Longrightarrow> length out \<le> k \<Longrightarrow>
   copy_bytes_loop k out bs = Ok (out @ take (k - length out) (bytes_of bs))"
proof (induction k out bs rule: copy_bytes_loop.induct)
  case (2 k out b bs)
  show ?case
  proof (cases "k \<le> length out")
    case False
    let ?n = "min (k - length out) (Buffer_len b)"
    have b: "buffer_wf b" using "2.prems" by simp
    have l: "length (take ?n (content b)) = ?n" using b by (simp add: length_content)
    have "copy_bytes_loop k (out @ take ?n (content b)) bs
        = Ok ((out @ take ?n (content b)) @ take (k - length (out @ take ?n (content b))) (bytes_of bs))"
      using False "2.prems" by (intro "2.IH" [OF _ refl]) auto
    with False b l show ?thesis by (auto simp: Buffer_slice_content length_content min_def)
  qed (use "2.prems" in simp)
qed simp

lemma read_into_loop_whole:
  "list_all buffer_wf bs \<Longrightarrow> length out + lens bs \<le> k \<Longrightarrow> tot = lens bs \<Longrightarrow>
   \<exists>mb'. read_into_loop k out bs tot = Ok (out @ bytes_of bs, mb') \<and> mb_wf mb' \<and> mb_content mb' = []"
proof (induction bs arbitrary: out tot)
  case Nil
  then show ?case by (auto simp: read_into_loop.simps [of k out "[]"] mb_defs)
next
  case (Cons b bs)
  then have b: "buffer_wf b" and c: "length (content b) = Buffer_len b" by (auto simp: length_content)
  show ?case
  proof (cases "length out < k")
    case False
    with Cons.prems(2) have z: "lens (b # bs) = 0" by linarith
    then have "bytes_of (b # bs) = []"
      using bufq.views_empty_iff [of "b # bs"] Cons.prems(1) by simp
    with False Cons.prems z show ?thesis
      by (auto simp: read_into_loop.simps [of k out "b # bs"] mb_defs)
  next
    case True
    have "Buffer_is_empty (advance (Buffer_len b) b)"
      using b c by (simp add: advance_spec Buffer_is_empty_content)
    moreover have "min k (Buffer_len b) = Buffer_len b" using Cons.prems(2) by simp
    ultimately have step: "read_into_loop k out (b # bs) tot
        = read_into_loop k (out @ content b) bs (usize_sub tot (Buffer_len b))"
      using True b c Cons.prems(2)
      by (simp add: read_into_loop.simps [of k out "b # bs"] Buffer_slice_content Let_def)
    have "\<exists>mb'. read_into_loop k (out @ content b) bs (usize_sub tot (Buffer_len b))
        = Ok ((out @ content b) @ bytes_of bs, mb') \<and> mb_wf mb' \<and> mb_content mb' = []"
      using Cons.prems c by (intro Cons.IH) auto
    with step show ?thesis by simp
  qed
qed

lemma read_into_loop_straddle:
  "list_all buffer_wf (pre @ b # post) \<Longrightarrow> 0 < length out + lens pre \<Longrightarrow> length out + lens pre < k \<Longrightarrow>
   k < length out + lens pre + Buffer_len b \<Longrightarrow> read_into_loop k out (pre @ b # post) tot = Panic"
proof (induction pre arbitrary: out tot)
  case Nil
  then show ?case
    by (auto simp: read_into_loop.simps [of k out "b # post"] Buffer_slice_content Let_def min_def)
next
  case (Cons a pre)
  then have a: "buffer_wf a" and c: "length (content a) = Buffer_len a" by (auto simp: length_content)
  have "Buffer_is_empty (advance (Buffer_len a) a)"
    using a c by (simp add: advance_spec Buffer_is_empty_content)
  moreover have "min k (Buffer_len a) = Buffer_len a" "length out < k" using Cons.prems(3) by simp_all
  ultimately have "read_into_loop k out ((a # pre) @ b # post) tot
      = read_into_loop k (out @ content a) (pre @ b # post) (usize_sub tot (Buffer_len a))"
    using a c Cons.prems(3)
    by (simp add: read_into_loop.simps [of k out "a # pre @ b # post"] Buffer_slice_content Let_def)
  also have "\<dots> = Panic" using Cons.prems c by (intro Cons.IH) auto
  finally show ?case .
qed

lemma cut_front_spec:
  assumes "mb_wf mb" and "pool_wf p"
  shows "\<exists>mb' r p'. cut_front n mb p = Ok (mb', r, p') \<and> mb_wf mb' \<and> mb_wf r \<and> pool_wf p'
    \<and> mb_content r = take n (mb_content mb) \<and> mb_content mb' = drop n (mb_content mb)
    \<and> mb_len r = min n (mb_len mb)"
proof -
  have "list_all buffer_wf (bufs mb)" "total_len mb = lens (bufs mb)"
    using assms(1) by (auto simp: mb_wf_def)
  from cut_loop_spec [OF this(1) mb_new_spec(1) assms(2) this(2), of n] obtain mb' r p' where
    c: "cut_front n mb p = Ok (mb', r, p')" "mb_wf mb'" "mb_wf r" "pool_wf p'"
      "mb_content mb' = drop n (mb_content mb)" "mb_content r = take n (mb_content mb)"
    unfolding cut_front_def mb_content_def [of mb] mb_new_spec append_Nil by blast
  moreover have "mb_len r = min n (mb_len mb)"
    using c mb_len_content [OF assms(1)] mb_len_content [OF c(3)] by (simp add: min.commute)
  ultimately show ?thesis by blast
qed

text \<open>Splitting a queue at \<open>at\<close> moves whole buffers: the kept part and the returned part put together are
  the stream, the kept part has at most \<open>at\<close> bytes, and it is the longest such prefix of buffers.\<close>

lemma split_off_correct:
  assumes "mb_wf mb" and "split_off at mb = (mb', r)"
  shows "mb_wf mb' \<and> mb_wf r \<and> bufs mb' @ bufs r = bufs mb \<and> mb_content mb' @ mb_content r = mb_content mb
    \<and> mb_len mb' \<le> at \<and> (bufs r \<noteq> [] \<longrightarrow> at < mb_len mb' + Buffer_len (hd (bufs r)))"
proof -
  let ?i = "split_index at 0 (bufs mb)"
  have "split_pop ?i mb mb_new = (mb', r)" using assms(2) by (simp only: split_off_def)
  from split_pop_spec [OF assms(1) mb_new_spec(1) this]
  have s: "mb_wf mb'" "mb_wf r" "bufs mb' = take ?i (bufs mb)" "bufs r = drop ?i (bufs mb)"
    by simp_all
  have "at < mb_len mb' + Buffer_len (hd (bufs r))" if "bufs r \<noteq> []"
  proof -
    from that s have i: "?i < length (bufs mb)" by simp
    with split_index_max [OF i] s show ?thesis
      by (simp add: mb_len_def mb_wf_def take_Suc_conv_app_nth hd_drop_conv_nth)
  qed
  moreover have "mb_len mb' \<le> at"
    using s split_index_lens [of 0 at "bufs mb"] by (simp add: mb_len_def mb_wf_def)
  moreover have "mb_content mb' @ mb_content r = mb_content mb"
    using s by (simp add: mb_content_def flip: concat_append map_append)
  ultimately show ?thesis using s by simp
qed

text \<open>Copying out of a queue without consuming it gives exactly the first \<open>k\<close> bytes.\<close>

lemma copy_bytes_correct: "mb_wf mb \<Longrightarrow> copy_bytes k mb = Ok (take k (mb_content mb))"
  by (simp add: copy_bytes_def copy_bytes_loop_spec mb_defs)

text \<open>Reading into a destination that the whole queue fits in delivers the whole stream and empties
  the queue.\<close>

lemma read_into_fits:
  "mb_wf mb \<Longrightarrow> mb_len mb \<le> k \<Longrightarrow>
   \<exists>mb'. read_into k mb = Ok (mb_content mb, mb') \<and> mb_wf mb' \<and> mb_content mb' = []"
  using read_into_loop_whole [of "bufs mb" "[]" k "total_len mb"]
  by (simp add: read_into_def mb_len_def mb_defs)

text \<open>A buffer with given bytes, for examples.\<close>

definition sample_buffer :: "u8 list \<Rightarrow> buffer" where
  "sample_buffer xs = \<lparr>bdata = xs @ replicate (SIZE - length xs) 0, bstart = 0, bend = length xs\<rparr>"

lemma sample_buffer_spec: "length xs \<le> SIZE \<Longrightarrow> buffer_wf (sample_buffer xs) \<and> content (sample_buffer xs) = xs"
  by (simp add: sample_buffer_def buffer_wf_def content_def)

section \<open>Properties\<close>

text \<open>Cutting \<open>n\<close> bytes off the front of a queue of buffers splits the byte stream: the result holds
  the first \<open>n\<close> bytes (all of them when there are fewer), the queue keeps the rest, and both keep
  their cached length exact. It never panics.\<close>

theorem cut_front_correct:
  assumes "mb_wf mb" and "pool_wf p"
  shows "\<exists>mb' r p'. cut_front n mb p = Ok (mb', r, p') \<and> mb_wf mb' \<and> mb_wf r \<and> pool_wf p'
    \<and> mb_content r = take n (mb_content mb) \<and> mb_content mb' = drop n (mb_content mb)
    \<and> mb_len r = min n (mb_len mb)"
  by (rule cut_front_spec [OF assms])

theorem cut_front_correct_witness:
  "\<exists>mb' r p'. cut_front 3 \<lparr>bufs = [sample_buffer [1, 2], sample_buffer [3, 4]], total_len = 4\<rparr> [] = Ok (mb', r, p')
     \<and> mb_content r = [1, 2, 3] \<and> mb_content mb' = [4] \<and> mb_len r = 3"
proof -
  let ?mb = "\<lparr>bufs = [sample_buffer [1, 2], sample_buffer [3, 4]], total_len = 4\<rparr>"
  have s: "buffer_wf (sample_buffer [1, 2])" "content (sample_buffer [1, 2]) = [1, 2]"
      "buffer_wf (sample_buffer [3, 4])" "content (sample_buffer [3, 4]) = [3, 4]"
    using sample_buffer_spec [of "[1, 2]"] sample_buffer_spec [of "[3, 4]"] by (auto simp: SIZE_def)
  then have "mb_wf ?mb" "mb_content ?mb = [1, 2, 3, 4]"
    using length_content [OF s(1)] length_content [OF s(3)] by (simp_all add: mb_defs)
  with cut_front_correct [of ?mb "[]" 3] show ?thesis by (auto simp: pool_wf_def mb_len_def)
qed

text \<open>Reading into a destination that ends inside a buffer other than the first non-empty one panics:
  the count to copy is the minimum of that buffer and the whole destination, not of what is left.\<close>

theorem read_into_straddle_panics:
  assumes "mb_wf mb" and "bufs mb = pre @ b # post"
    and "0 < lens pre" and "lens pre < k" and "k < lens pre + Buffer_len b"
  shows "read_into k mb = Panic"
  using assms read_into_loop_straddle [of pre b post "[]" k "total_len mb"]
  by (simp add: read_into_def mb_wf_def)

theorem read_into_straddle_panics_witness:
  "read_into 3 \<lparr>bufs = [sample_buffer [1, 2], sample_buffer [3, 4]], total_len = 4\<rparr> = Panic"
proof -
  let ?mb = "\<lparr>bufs = [sample_buffer [1, 2], sample_buffer [3, 4]], total_len = 4\<rparr>"
  have s: "buffer_wf (sample_buffer [1, 2])" "Buffer_len (sample_buffer [1, 2]) = 2"
      "buffer_wf (sample_buffer [3, 4])" "Buffer_len (sample_buffer [3, 4]) = 2"
    by (simp_all add: sample_buffer_def buffer_wf_def Buffer_len_def SIZE_def)
  show ?thesis
    using read_into_straddle_panics [of ?mb "[sample_buffer [1, 2]]" "sample_buffer [3, 4]" "[]" 3] s
    by (simp add: mb_wf_def)
qed

end
