(* ===== verification/Buf_Io.thy ===== *)
theory Buf_Io
  imports Multi_Buffer
begin

text \<open>
  \<^verbatim>\<open>astra-core-buf\<close>: readers, writers and the copy loop (\<^verbatim>\<open>io.rs\<close>, \<^verbatim>\<open>reader.rs\<close>, \<^verbatim>\<open>writer.rs\<close>,
  \<^verbatim>\<open>copy.rs\<close>). A \<^verbatim>\<open>dyn Read\<close> is a parameter \<open>rd\<close>: given its state and the size of the destination
  it answers with a \<open>read_result\<close> and its next state (\<open>reader_ok\<close>: never more bytes than asked for,
  the contract of \<^verbatim>\<open>Read::read\<close>). A \<^verbatim>\<open>dyn Reader\<close> or \<^verbatim>\<open>dyn Writer\<close> of the crate is a parameter over
  \<open>multi_buffer\<close>. Every operation returns its outcome together with the state of the parameter and
  of the pool. The results: a single read delivers the bytes read; \<open>copy\<close> forwards a whole stream in
  order; and three places where bytes are lost or replaced.
\<close>

datatype read_result = ReadOk "u8 list" | ReadInterrupted | ReadErr io_error

type_synonym 'r reader = "'r \<Rightarrow> usize \<Rightarrow> read_result \<times> 'r"
type_synonym ('r) mb_reader = "'r \<Rightarrow> pool \<Rightarrow> (io_error, multi_buffer) res \<times> 'r \<times> pool"
type_synonym 'w mb_writer = "'w \<Rightarrow> multi_buffer \<Rightarrow> (io_error, unit) res \<times> 'w"

definition reader_ok :: "'r reader \<Rightarrow> bool" where
  "reader_ok rd \<longleftrightarrow> (\<forall>r k bs r'. rd r k = (ReadOk bs, r') \<longrightarrow> length bs \<le> k)"

section \<open>One read (io.rs)\<close>

text \<open>What the buffer is once the reader has put \<open>bs\<close> into its free part and \<open>set_end\<close> has run.\<close>

definition filled :: "buffer \<Rightarrow> u8 list \<Rightarrow> buffer" where
  "filled b bs = set_end (length bs) (b\<lparr>bdata := overwrite (bend b) bs (bdata b)\<rparr>)"

definition read_one_buffer ::
  "'r reader \<Rightarrow> 'r \<Rightarrow> pool \<Rightarrow> (io_error, buffer option) res \<times> 'r \<times> pool" where
  "read_one_buffer rd r p =
     (case Buffer_new p of (b, p1) \<Rightarrow>
        case writable b of
          None \<Rightarrow> (Panic, r, p1)
        | Some w \<Rightarrow>
            (case rd r (length w) of
               (ReadOk bs, r') \<Rightarrow> if bs = [] then (Ok None, r', p1) else (Ok (Some (filled b bs)), r', p1)
             | (ReadInterrupted, r') \<Rightarrow> (case Buffer_new p1 of (b2, p2) \<Rightarrow> (Ok (Some b2), r', p2))
             | (ReadErr e, r') \<Rightarrow> (Err e, r', p1)))"

definition SingleReader_read :: "'r reader \<Rightarrow> 'r mb_reader" where
  "SingleReader_read rd r p =
     (case read_one_buffer rd r p of
        (Ok None, r', p') \<Rightarrow> (Ok mb_new, r', p')
      | (Ok (Some b), r', p') \<Rightarrow> (Ok (with_buffer b), r', p')
      | (Err e, r', p') \<Rightarrow> (Err e, r', p')
      | (Panic, r', p') \<Rightarrow> (Panic, r', p'))"

section \<open>Scatter reads (reader.rs)\<close>

definition adjust :: "u32 \<Rightarrow> u32 \<Rightarrow> u32" where
  "adjust alloc_level n_bufs =
     (if alloc_level \<le> n_bufs then min (alloc_level * 2) 8 else max n_bufs 1)"

fun platform_readv ::
  "'r reader \<Rightarrow> 'r \<Rightarrow> usize \<Rightarrow> buffer list \<Rightarrow> (io_error, usize \<times> buffer list) res \<times> 'r" where
  "platform_readv rd r tot [] = (Ok (tot, []), r)"
| "platform_readv rd r tot (b # bs) =
     (case writable b of
        None \<Rightarrow> (Panic, r)
      | Some w \<Rightarrow>
          (case rd r (length w) of
             (ReadOk xs, r') \<Rightarrow>
               if xs = [] then (Ok (tot, b # bs), r')
               else let b' = filled b xs in
                 (case writable b' of
                    None \<Rightarrow> (Panic, r')
                  | Some w' \<Rightarrow>
                      if length xs < length w' then (Ok (tot + length xs, b' # bs), r')
                      else (case platform_readv rd r' (tot + length xs) bs of
                              (Ok (t, bs'), r'') \<Rightarrow> (Ok (t, b' # bs'), r'')
                            | (Err e, r'') \<Rightarrow> (Err e, r'')
                            | (Panic, r'') \<Rightarrow> (Panic, r'')))
           | (ReadInterrupted, r') \<Rightarrow>
               (case platform_readv rd r' tot bs of
                  (Ok (t, bs'), r'') \<Rightarrow> (Ok (t, b # bs'), r'')
                | (Err e, r'') \<Rightarrow> (Err e, r'')
                | (Panic, r'') \<Rightarrow> (Panic, r''))
           | (ReadErr e, r') \<Rightarrow> (Err e, r')))"

text \<open>The loop that sets the ends from the total alone, and counts the buffers it gave bytes to.\<close>

fun spread_ends :: "usize \<Rightarrow> buffer list \<Rightarrow> buffer list \<times> nat" where
  "spread_ends remaining [] = ([], 0)"
| "spread_ends remaining (b # bs) =
     (if remaining = 0
      then (case spread_ends 0 bs of (bs', c) \<Rightarrow> (set_end 0 b # bs', c))
      else let chunk = min remaining SIZE in
        (case spread_ends (remaining - chunk) bs of (bs', c) \<Rightarrow> (set_end chunk b # bs', Suc c)))"

definition read_multi_native ::
  "'r reader \<Rightarrow> 'r \<Rightarrow> u32 \<Rightarrow> buffer list \<Rightarrow> pool
     \<Rightarrow> (io_error, usize \<times> buffer list) res \<times> u32 \<times> 'r \<times> pool" where
  "read_multi_native rd r lvl bs p =
     (if lvl = 1 then
        (case read_one_buffer rd r p of
           (Ok (Some b), r', p') \<Rightarrow>
             (case bs of
                [] \<Rightarrow> (Panic, lvl, r', p')
              | _ # rest \<Rightarrow>
                  (Ok (Buffer_len b, b # rest),
                   if SIZE \<le> Buffer_len b then adjust lvl 1 else lvl, r', p'))
         | (Ok None, r', p') \<Rightarrow> (Ok (0, bs), lvl, r', p')
         | (Err e, r', p') \<Rightarrow> (Err e, lvl, r', p')
         | (Panic, r', p') \<Rightarrow> (Panic, lvl, r', p'))
      else
        (case platform_readv rd r 0 bs of
           (Ok (n, bs'), r') \<Rightarrow>
             if 0 < n
             then (case spread_ends n bs' of (bs'', count) \<Rightarrow>
                     (Ok (n, bs''), adjust lvl (word_of_nat count), r', p))
             else (Ok (n, bs'), lvl, r', p)
         | (Err e, r') \<Rightarrow> (Err e, lvl, r', p)
         | (Panic, r') \<Rightarrow> (Panic, lvl, r', p)))"

fun new_buffers :: "nat \<Rightarrow> pool \<Rightarrow> buffer list \<times> pool" where
  "new_buffers 0 p = ([], p)"
| "new_buffers (Suc k) p =
     (case Buffer_new p of (b, p') \<Rightarrow> (case new_buffers k p' of (bs, p'') \<Rightarrow> (b # bs, p'')))"

definition ReadVReader_read ::
  "'r reader \<Rightarrow> 'r \<times> u32 \<Rightarrow> pool \<Rightarrow> (io_error, multi_buffer) res \<times> ('r \<times> u32) \<times> pool" where
  "ReadVReader_read rd s p =
     (case s of (r, lvl) \<Rightarrow>
        case new_buffers (unat lvl) p of (bs, p1) \<Rightarrow>
          (case read_multi_native rd r lvl bs p1 of
             (Ok (n, bs'), lvl', r', p2) \<Rightarrow>
               (if n = 0 then Ok mb_new
                else Ok (foldl push_back mb_new (takeWhile (\<lambda>b. \<not> Buffer_is_empty b) bs')),
                (r', lvl'), p2)
           | (Err e, lvl', r', p2) \<Rightarrow> (Err e, (r', lvl'), p2)
           | (Panic, lvl', r', p2) \<Rightarrow> (Panic, (r', lvl'), p2)))"

section \<open>Packets and buffered reading (reader.rs)\<close>

text \<open>
  \<open>PacketReader\<close>: an interrupted read gives an empty buffer and is retried, 64 times at most; the
  end of the stream is an error. \<open>retries\<close> counts up to 65, so the loop is bounded.
\<close>

function PacketReader_loop :: "'r reader \<Rightarrow> nat \<Rightarrow> 'r mb_reader" where
  "PacketReader_loop rd retries r p =
     (case read_one_buffer rd r p of
        (Ok (Some b), r', p') \<Rightarrow>
          (let mb = with_buffer b in
           if mb_is_empty mb
           then (if 64 < retries + 1 then (Ok mb, r', p') else PacketReader_loop rd (retries + 1) r' p')
           else (Ok mb, r', p'))
      | (Ok None, r', p') \<Rightarrow> (Err UnexpectedEof, r', p')
      | (Err e, r', p') \<Rightarrow> (Err e, r', p')
      | (Panic, r', p') \<Rightarrow> (Panic, r', p'))"
  by pat_completeness auto
termination
  by (relation "measure (\<lambda>(rd, retries, r, p). 65 - retries)") auto

declare PacketReader_loop.simps [simp del]

definition PacketReader_read :: "'r reader \<Rightarrow> 'r mb_reader" where
  "PacketReader_read rd r p = PacketReader_loop rd 0 r p"

text \<open>\<open>BufferedReader\<close>: the state is the inner reader's state and the bytes buffered.\<close>

definition BufferedReader_read_at_most ::
  "'r mb_reader \<Rightarrow> usize \<Rightarrow> 'r \<Rightarrow> multi_buffer \<Rightarrow> pool
     \<Rightarrow> (io_error, multi_buffer) res \<times> 'r \<times> multi_buffer \<times> pool" where
  "BufferedReader_read_at_most rm sz r buf p =
     (if sz \<le> mb_len buf
      then (case cut_front sz buf p of
              Ok (buf', out, p') \<Rightarrow> (Ok out, r, buf', p')
            | Err _ \<Rightarrow> (Panic, r, buf, p)
            | Panic \<Rightarrow> (Panic, r, buf, p))
      else (case rm r p of
              (Ok extra, r', p1) \<Rightarrow>
                (let buf1 = (if mb_is_empty extra then buf else fst (mb_append buf extra)) in
                 case cut_front sz buf1 p1 of
                   Ok (_, out, p2) \<Rightarrow> (Ok out, r', mb_new, p2)
                 | Err _ \<Rightarrow> (Panic, r', mb_new, p1)
                 | Panic \<Rightarrow> (Panic, r', mb_new, p1))
            | (Err e, r', p1) \<Rightarrow> (Err e, r', buf, p1)
            | (Panic, r', p1) \<Rightarrow> (Panic, r', buf, p1)))"

definition BufferedReader_read_mb ::
  "'r mb_reader \<Rightarrow> 'r \<Rightarrow> multi_buffer \<Rightarrow> pool \<Rightarrow> (io_error, multi_buffer) res \<times> 'r \<times> multi_buffer \<times> pool" where
  "BufferedReader_read_mb rm r buf p =
     (if \<not> mb_is_empty buf then (Ok buf, r, mb_new, p)
      else case rm r p of (x, r', p') \<Rightarrow> (x, r', buf, p'))"

definition BufferedReader_read ::
  "'r mb_reader \<Rightarrow> usize \<Rightarrow> 'r \<Rightarrow> multi_buffer \<Rightarrow> pool \<Rightarrow> (io_error, u8 list) res \<times> 'r \<times> multi_buffer \<times> pool" where
  "BufferedReader_read rm k r buf p =
     (case read_into k buf of
        Ok (out, buf') \<Rightarrow>
          (if out \<noteq> [] then (Ok out, r, buf', p)
           else case rm r p of
             (Ok mb, r', p') \<Rightarrow>
               (if mb_is_empty mb then (Ok [], r', buf', p')
                else case read_into k mb of
                  Ok (out2, mb') \<Rightarrow> (Ok out2, r', mb', p')
                | _ \<Rightarrow> (Panic, r', mb, p'))
           | (Err e, r', p') \<Rightarrow> (Err e, r', buf', p')
           | (Panic, r', p') \<Rightarrow> (Panic, r', buf', p'))
      | _ \<Rightarrow> (Panic, r, buf, p))"

section \<open>Writers (writer.rs)\<close>

text \<open>\<open>wa\<close> is \<^verbatim>\<open>write_all\<close> of the underlying \<^verbatim>\<open>dyn Write\<close>.\<close>

fun SequentialWriter_loop ::
  "('w \<Rightarrow> u8 list \<Rightarrow> (io_error, unit) res \<times> 'w) \<Rightarrow> 'w \<Rightarrow> buffer list \<Rightarrow> (io_error, unit) res \<times> 'w" where
  "SequentialWriter_loop wa w [] = (Ok (), w)"
| "SequentialWriter_loop wa w (b # bs) =
     (case Buffer_slice b of
        None \<Rightarrow> (Panic, w)
      | Some s \<Rightarrow>
          if s \<noteq> []
          then (case wa w s of
                  (Ok _, w') \<Rightarrow> SequentialWriter_loop wa w' bs
                | (Err e, w') \<Rightarrow> (Err e, w')
                | (Panic, w') \<Rightarrow> (Panic, w'))
          else SequentialWriter_loop wa w bs)"

definition SequentialWriter_write :: "('w \<Rightarrow> u8 list \<Rightarrow> (io_error, unit) res \<times> 'w) \<Rightarrow> 'w mb_writer" where
  "SequentialWriter_write wa w mb = SequentialWriter_loop wa w (bufs mb)"

record 'w buffered_writer =
  bw_inner :: 'w
  bw_buffer :: buffer
  bw_buffered :: bool

definition BufferedWriter_flush ::
  "'w mb_writer \<Rightarrow> 'w buffered_writer \<Rightarrow> pool \<Rightarrow> (io_error, unit) res \<times> 'w buffered_writer \<times> pool" where
  "BufferedWriter_flush wm s p =
     (if Buffer_is_empty (bw_buffer s) then (Ok (), s, p)
      else case Buffer_new p of (fresh, p') \<Rightarrow>
        (case wm (bw_inner s) (with_buffer (bw_buffer s)) of
           (x, w') \<Rightarrow> (x, s\<lparr>bw_inner := w', bw_buffer := fresh\<rparr>, p')))"

fun BufferedWriter_loop ::
  "'w mb_writer \<Rightarrow> buffer list \<Rightarrow> 'w buffered_writer \<Rightarrow> pool
     \<Rightarrow> (io_error, unit) res \<times> 'w buffered_writer \<times> pool" where
  "BufferedWriter_loop wm [] s p = (Ok (), s, p)"
| "BufferedWriter_loop wm (b # bs) s p =
     (case Buffer_slice b of
        None \<Rightarrow> (Panic, s, p)
      | Some d \<Rightarrow>
          (let s1 = (case Buffer_write d (bw_buffer s) of
                       Ok (_, buf') \<Rightarrow> s\<lparr>bw_buffer := buf'\<rparr>
                     | _ \<Rightarrow> s)
           in if available (bw_buffer s1) < Buffer_len b
              then (case BufferedWriter_flush wm s1 p of
                      (Ok _, s2, p2) \<Rightarrow> BufferedWriter_loop wm bs s2 p2
                    | (x, s2, p2) \<Rightarrow> (x, s2, p2))
              else BufferedWriter_loop wm bs s1 p))"

definition BufferedWriter_write_mb ::
  "'w mb_writer \<Rightarrow> multi_buffer \<Rightarrow> 'w buffered_writer \<Rightarrow> pool
     \<Rightarrow> (io_error, unit) res \<times> 'w buffered_writer \<times> pool" where
  "BufferedWriter_write_mb wm mb s p =
     (if \<not> bw_buffered s
      then (case wm (bw_inner s) mb of (x, w') \<Rightarrow> (x, s\<lparr>bw_inner := w'\<rparr>, p))
      else BufferedWriter_loop wm (bufs mb) s p)"

definition DiscardWriter_write :: "'w mb_writer" where
  "DiscardWriter_write w mb = (Ok (), w)"

section \<open>Copying (copy.rs)\<close>

text \<open>
  The loop runs until the reader answers with an empty queue, an error or a panic; a reader may go
  on for ever, so the model has fuel and running out of it is \<open>None\<close>. The activity and size
  callbacks are recorded as the list \<open>log\<close> of chunk sizes they were called with.
\<close>

fun copy_loop ::
  "nat \<Rightarrow> 'r mb_reader \<Rightarrow> 'w mb_writer \<Rightarrow> 'r \<Rightarrow> 'w \<Rightarrow> pool \<Rightarrow> u64 \<Rightarrow> u64 list
     \<Rightarrow> ((io_error, u64) res \<times> 'r \<times> 'w \<times> u64 list) option" where
  "copy_loop 0 rm wm r w p tot cbs = None"
| "copy_loop (Suc fuel) rm wm r w p tot cbs =
     (case rm r p of
        (Ok mb, r', p') \<Rightarrow>
          (if mb_is_empty mb then Some (Ok tot, r', w, cbs)
           else let len = word_of_nat (mb_len mb); tot = tot + len in
             (case wm w mb of
                (Ok _, w') \<Rightarrow> copy_loop fuel rm wm r' w' p' tot (cbs @ [len])
              | (Err e, w') \<Rightarrow> Some (Err e, r', w', cbs)
              | (Panic, w') \<Rightarrow> Some (Panic, r', w', cbs)))
      | (Err e, r', p') \<Rightarrow> Some (Err e, r', w, cbs)
      | (Panic, r', p') \<Rightarrow> Some (Panic, r', w, cbs))"

definition copy_with_opts where
  "copy_with_opts fuel rm wm r w p = copy_loop fuel rm wm r w p 0 []"

definition copy_once ::
  "'r mb_reader \<Rightarrow> 'w mb_writer \<Rightarrow> 'r \<Rightarrow> 'w \<Rightarrow> pool \<Rightarrow> (io_error, u64) res \<times> 'r \<times> 'w \<times> pool" where
  "copy_once rm wm r w p =
     (case rm r p of
        (Ok mb, r', p') \<Rightarrow>
          (if mb_is_empty mb then (Ok 0, r', w, p')
           else case wm w mb of
             (Ok _, w') \<Rightarrow> (Ok (word_of_nat (mb_len mb)), r', w', p')
           | (Err e, w') \<Rightarrow> (Err e, r', w', p')
           | (Panic, w') \<Rightarrow> (Panic, r', w', p'))
      | (Err e, r', p') \<Rightarrow> (Err e, r', w, p')
      | (Panic, r', p') \<Rightarrow> (Panic, r', w, p'))"

section \<open>Lemmas\<close>

lemma filled_spec:
  assumes "buffer_wf b" and "bstart b = 0" and "bend b = 0" and "length bs \<le> SIZE"
  shows "buffer_wf (filled b bs) \<and> content (filled b bs) = bs \<and> bstart (filled b bs) = 0
    \<and> bend (filled b bs) = length bs \<and> bdata (filled b bs) = bs @ drop (length bs) (bdata b)"
  using assms by (simp add: filled_def set_end_def buffer_wf_def content_def overwrite_def)

lemma writable_length: "buffer_wf b \<Longrightarrow> \<exists>w. writable b = Some w \<and> length w = SIZE - bend b"
  by (auto simp: writable_def slice_of_def buffer_wf_def)

lemma read_one_buffer_spec:
  assumes "pool_wf p" and "reader_ok rd" and "rd r SIZE = (ReadOk bs, r')" and "bs \<noteq> []"
  shows "\<exists>b p'. read_one_buffer rd r p = (Ok (Some b), r', p') \<and> buffer_wf b \<and> content b = bs \<and> pool_wf p'"
proof -
  obtain b p1 where b: "Buffer_new p = (b, p1)" by (cases "Buffer_new p")
  note n = Buffer_new_spec [OF assms(1) b]
  obtain w where w: "writable b = Some w" "length w = SIZE" using writable_length [of b] n by auto
  have "length bs \<le> SIZE" using assms(2,3) by (auto simp: reader_ok_def)
  with filled_spec [of b bs] n b w assms show ?thesis by (simp add: read_one_buffer_def)
qed

lemma SingleReader_read_spec:
  assumes "pool_wf p" and "reader_ok rd" and "rd r SIZE = (ReadOk bs, r')" and "bs \<noteq> []"
  shows "\<exists>mb p'. SingleReader_read rd r p = (Ok mb, r', p') \<and> mb_wf mb \<and> mb_content mb = bs \<and> pool_wf p'"
proof -
  from read_one_buffer_spec [OF assms] obtain b p' where
    "read_one_buffer rd r p = (Ok (Some b), r', p')" "buffer_wf b" "content b = bs" "pool_wf p'"
    by blast
  with with_buffer_spec [of b] show ?thesis by (auto simp: SingleReader_read_def)
qed

text \<open>A byte vector as the sink: \<^verbatim>\<open>write_all\<close> on a \<^verbatim>\<open>Vec<u8>\<close> appends and never fails.\<close>

definition vec_write_all :: "u8 list \<Rightarrow> u8 list \<Rightarrow> (io_error, unit) res \<times> u8 list" where
  "vec_write_all w bs = (Ok (), w @ bs)"

lemma SequentialWriter_vec:
  "mb_wf mb \<Longrightarrow> SequentialWriter_write vec_write_all w mb = (Ok (), w @ mb_content mb)"
proof -
  have "list_all buffer_wf bs \<Longrightarrow> SequentialWriter_loop vec_write_all w bs = (Ok (), w @ bytes_of bs)" for bs
    by (induction bs arbitrary: w) (auto simp: Buffer_slice_content vec_write_all_def)
  then show "mb_wf mb \<Longrightarrow> ?thesis" by (simp add: SequentialWriter_write_def mb_defs)
qed

text \<open>\<open>rm\<close> started at \<open>r\<close> delivers the chunks \<open>cs\<close> and then an empty queue.\<close>

inductive delivers :: "'r mb_reader \<Rightarrow> 'r \<Rightarrow> pool \<Rightarrow> u8 list list \<Rightarrow> bool" for rm where
  stream_end: "rm r p = (Ok mb, r', p') \<Longrightarrow> mb_wf mb \<Longrightarrow> mb_content mb = [] \<Longrightarrow> delivers rm r p []"
| stream_more: "rm r p = (Ok mb, r', p') \<Longrightarrow> mb_wf mb \<Longrightarrow> mb_content mb \<noteq> [] \<Longrightarrow> delivers rm r' p' cs \<Longrightarrow>
    delivers rm r p (mb_content mb # cs)"

lemma copy_loop_delivers:
  "delivers rm r p cs \<Longrightarrow> length cs < fuel \<Longrightarrow>
   \<exists>r'. copy_loop fuel rm (SequentialWriter_write vec_write_all) r w p tot cbs
      = Some (Ok (tot + word_of_nat (length (concat cs))), r', w @ concat cs,
              cbs @ map (\<lambda>c. word_of_nat (length c)) cs)"
proof (induction arbitrary: fuel w tot cbs rule: delivers.induct)
  case (stream_end r p mb r' p')
  then obtain f where "fuel = Suc f" by (cases fuel) auto
  with stream_end show ?case by (simp add: mb_is_empty_content)
next
  case (stream_more r p mb r' p' cs)
  then obtain f where f: "fuel = Suc f" "length cs < f" by (cases fuel) auto
  let ?n = "word_of_nat (length (mb_content mb))"
  from stream_more.IH [OF f(2), of "w @ mb_content mb" "tot + ?n" "cbs @ [?n]"]
    stream_more.hyps f(1) show ?case
    by (simp add: mb_is_empty_content mb_len_content SequentialWriter_vec Let_def algebra_simps)
qed

section \<open>Properties\<close>

text \<open>C20. Copying from a reader that delivers a finite stream to a byte vector forwards every chunk in order,
  returns the number of bytes (in 64 bits) and reports each chunk's size to the counter; it needs
  one step more than there are chunks.\<close>

theorem copy_forwards_stream:
  assumes "delivers rm r p cs" and "length cs < fuel"
  shows "\<exists>r'. copy_with_opts fuel rm (SequentialWriter_write vec_write_all) r [] p
     = Some (Ok (word_of_nat (length (concat cs))), r', concat cs, map (\<lambda>c. word_of_nat (length c)) cs)"
  using copy_loop_delivers [OF assms, of "[]" 0 "[]"] by (simp add: copy_with_opts_def)

theorem copy_forwards_stream_witness:
  "\<exists>r'. copy_with_opts 3 (\<lambda>cs p. case cs of [] \<Rightarrow> (Ok mb_new, [], p)
        | c # cs' \<Rightarrow> (Ok (with_buffer (sample_buffer c)), cs', p))
      (SequentialWriter_write vec_write_all) [[1, 2], [3]] [] []
     = Some (Ok 3, r', [1, 2, 3], [2, 1])"
proof -
  let ?rm = "\<lambda>cs p. case cs of [] \<Rightarrow> (Ok mb_new, [], p)
        | c # cs' \<Rightarrow> (Ok (with_buffer (sample_buffer c)), cs', p)"
  have s: "mb_wf (with_buffer (sample_buffer c)) \<and> mb_content (with_buffer (sample_buffer c)) = c"
    if "length c \<le> SIZE" for c using that with_buffer_spec [of "sample_buffer c"] sample_buffer_spec [of c] by simp
  have l: "length [1, 2::u8] \<le> SIZE" "length [3::u8] \<le> SIZE" by (simp_all add: SIZE_def)
  have "delivers ?rm [] [] []" by (rule stream_end) auto
  then have "delivers ?rm [[3]] [] [[3]]"
    using s [OF l(2)] stream_more [of ?rm "[[3]]" "[]" "with_buffer (sample_buffer [3])" "[]" "[]" "[]"] by simp
  then have "delivers ?rm [[1, 2], [3]] [] [[1, 2], [3]]"
    using s [OF l(1)] stream_more [of ?rm "[[1, 2], [3]]" "[]" "with_buffer (sample_buffer [1, 2])" "[[3]]" "[]" "[[3]]"]
    by simp
  from copy_forwards_stream [OF this, of 3] show ?thesis by simp
qed

text \<open>Reading at most \<open>sz\<close> bytes when fewer are buffered returns the first \<open>sz\<close> bytes of what was buffered
  followed by what one more read gave, and leaves nothing buffered: bytes past \<open>sz\<close> are lost.\<close>

theorem read_at_most_drops_rest:
  assumes "mb_wf buf" and "mb_len buf < sz" and "rm r p = (Ok extra, r', p1)" and "mb_wf extra" and "pool_wf p1"
  shows "\<exists>out p2. BufferedReader_read_at_most rm sz r buf p = (Ok out, r', mb_new, p2)
     \<and> mb_wf out \<and> mb_content out = take sz (mb_content buf @ mb_content extra)"
proof -
  let ?buf1 = "if mb_is_empty extra then buf else fst (mb_append buf extra)"
  have wf: "mb_wf ?buf1 \<and> mb_content ?buf1 = mb_content buf @ mb_content extra"
    using assms(1,4) foldl_push_back [of buf "bufs extra"]
    by (auto simp: mb_append_def mb_is_empty_content) (auto simp: mb_defs)
  from cut_front_spec [of ?buf1 p1 sz] wf assms(5) obtain mb' out p2 where
    "cut_front sz ?buf1 p1 = Ok (mb', out, p2)" "mb_wf out"
    "mb_content out = take sz (mb_content buf @ mb_content extra)" by auto
  with assms show ?thesis by (simp add: BufferedReader_read_at_most_def Let_def)
qed

theorem read_at_most_drops_rest_witness:
  "\<exists>out p2. BufferedReader_read_at_most (\<lambda>(r::unit) p. (Ok (with_buffer (sample_buffer [1, 2, 3])), r, p)) 2 () mb_new []
      = (Ok out, (), mb_new, p2) \<and> mb_content out = [1, 2]"
proof -
  have l: "length [1, 2, 3::u8] \<le> SIZE" by (simp add: SIZE_def)
  have w: "mb_wf (with_buffer (sample_buffer [1, 2, 3]))"
      "mb_content (with_buffer (sample_buffer [1, 2, 3])) = [1, 2, 3]"
    using with_buffer_spec [of "sample_buffer [1, 2, 3]"] sample_buffer_spec [OF l] by simp_all
  show ?thesis
    using read_at_most_drops_rest [of mb_new 2 "\<lambda>(r::unit) p. (Ok (with_buffer (sample_buffer [1, 2, 3])), r, p)"
        "()" "[]" "with_buffer (sample_buffer [1, 2, 3])" "()" "[]"] w
    by (auto simp: mb_len_def pool_wf_def)
qed

text \<open>A scatter read into two buffers whose first read returns between half a block and a full block loses the
  second read: the first buffer is extended over the stale bytes of its recycled block, by as many
  bytes as the second read had, and the second buffer is dropped.\<close>

theorem readv_second_read_lost:
  assumes "pool_wf p" and "rd r SIZE = (ReadOk xs, r1)" and "rd r1 SIZE = (ReadOk ys, r2)"
    and "SIZE \<le> 2 * length xs" and "length xs + length ys \<le> SIZE" and "ys \<noteq> []" and "2 * length ys < SIZE"
  shows "\<exists>mb p'. ReadVReader_read rd (r, 2) p = (Ok mb, (r2, 1), p')
     \<and> mb_content mb = xs @ take (length ys) (drop (length xs) (fst (pool_alloc p)))"
proof -
  obtain b1 p1 where b1: "Buffer_new p = (b1, p1)" by (cases "Buffer_new p")
  note n1 = Buffer_new_spec [OF assms(1) b1]
  then have "pool_wf p1" by simp
  obtain b2 p2 where b2: "Buffer_new p1 = (b2, p2)" by (cases "Buffer_new p1")
  note n2 = Buffer_new_spec [OF \<open>pool_wf p1\<close> b2]
  have d1: "bdata b1 = fst (pool_alloc p)"
    using b1 by (auto simp: Buffer_new_def split: prod.splits)
  have nb: "new_buffers (unat (2 :: u32)) p = ([b1, b2], p2)"
  proof -
    have "unat (2 :: u32) = Suc (Suc 0)" by simp
    then show ?thesis by (simp only: new_buffers.simps b1 b2 prod.case)
  qed
  obtain w1 w2 where w: "writable b1 = Some w1" "length w1 = SIZE" "writable b2 = Some w2" "length w2 = SIZE"
    using writable_length [of b1] writable_length [of b2] n1 n2 by auto
  have f1: "buffer_wf (filled b1 xs)" "bend (filled b1 xs) = length xs" "bstart (filled b1 xs) = 0"
      "bdata (filled b1 xs) = xs @ drop (length xs) (bdata b1)"
    using filled_spec [of b1 xs] n1 assms(5) by auto
  have f2: "buffer_wf (filled b2 ys)" "bend (filled b2 ys) = length ys" "bstart (filled b2 ys) = 0"
    using filled_spec [of b2 ys] n2 assms(5) by auto
  obtain v1 v2 where v: "writable (filled b1 xs) = Some v1" "length v1 = SIZE - length xs"
      "writable (filled b2 ys) = Some v2" "length v2 = SIZE - length ys"
    using writable_length [OF f1(1)] writable_length [OF f2(1)] f1 f2 by auto
  have xs: "xs \<noteq> []" using assms(4) by (auto simp: SIZE_def)
  have rv: "platform_readv rd r 0 [b1, b2] = (Ok (length xs + length ys, [filled b1 xs, filled b2 ys]), r2)"
  proof -
    have "\<not> length xs < SIZE - length xs" "length ys < SIZE - length ys" using assms(4,7) by linarith+
    with w v assms xs show ?thesis by (simp add: Let_def)
  qed
  let ?c = "set_end (length xs + length ys) (filled b1 xs)"
  have sp: "spread_ends (length xs + length ys) [filled b1 xs, filled b2 ys] = ([?c, set_end 0 (filled b2 ys)], 1)"
    using assms(5) xs by (simp add: Let_def)
  have ne: "\<not> Buffer_is_empty ?c" "Buffer_is_empty (set_end 0 (filled b2 ys))"
    using xs f1 f2 by (simp_all add: Buffer_is_empty_def Buffer_len_def set_end_def)
  have "content ?c = xs @ take (length ys) (drop (length xs) (fst (pool_alloc p)))"
    by (simp add: content_def set_end_def f1 d1)
  moreover have "adjust 2 (word_of_nat 1) = 1" by (simp add: adjust_def word_le_nat_alt)
  ultimately show ?thesis
    using nb rv sp ne xs
    by (simp add: ReadVReader_read_def read_multi_native_def push_back_def mb_content_def
        del: platform_readv.simps spread_ends.simps)
qed

theorem readv_second_read_lost_witness:
  "\<exists>mb p'. ReadVReader_read (\<lambda>xs k. (ReadOk (hd xs), tl xs)) ([replicate 4096 7, [1, 2]], 2) []
      = (Ok mb, ([], 1), p') \<and> mb_content mb = replicate 4096 7 @ [0, 0]"
proof -
  have "take 2 (drop 4096 (replicate SIZE (0::u8))) = [0, 0]"
    by (simp add: SIZE_def numeral_2_eq_2)
  then show ?thesis
    using readv_second_read_lost [of "[]" "\<lambda>xs k. (ReadOk (hd xs), tl xs)" "[replicate 4096 7, [1, 2]]"
        "replicate 4096 7" "[[1, 2]]" "[1, 2]" "[]"]
    by (simp add: pool_wf_def pool_alloc_def SIZE_def)
qed

text \<open>A buffered write of a chunk larger than the free part of the buffer keeps only what fits: the buffer's
  bytes and the first part of the chunk reach the writer below, the rest of the chunk reaches nobody.\<close>

theorem BufferedWriter_truncates:
  assumes "buffer_wf (bw_buffer s)" and "bw_buffered s" and "buffer_wf b" and "pool_wf p"
    and "0 < available (bw_buffer s)" and "available (bw_buffer s) < Buffer_len b"
    and "bw_inner s = w"
  shows "\<exists>s' p'. BufferedWriter_write_mb (SequentialWriter_write vec_write_all) (with_buffer b) s p = (Ok (), s', p')
     \<and> bw_inner s' = w @ content (bw_buffer s) @ take (available (bw_buffer s)) (content b)
     \<and> content (bw_buffer s') = []"
proof -
  from Buffer_write_spec [OF assms(1,5), of "content b"] obtain b' where
    b': "Buffer_write (content b) (bw_buffer s) = Ok (min (length (content b)) (available (bw_buffer s)), b')"
      "buffer_wf b'" "content b' = content (bw_buffer s) @ take (available (bw_buffer s)) (content b)"
    by blast
  have "bend b' = SIZE"
    using b'(1) assms(1,3,5,6) length_content [OF assms(3)]
    by (auto simp: Buffer_write_def Let_def available_def buffer_wf_def min_def split: if_splits)
  then have av: "available b' = 0" by (simp add: available_def)
  have ne: "content b' \<noteq> []" using b'(3) assms(5,6) length_content [OF assms(3)] by auto
  obtain fr p1 where fr: "Buffer_new p = (fr, p1)" by (cases "Buffer_new p")
  note n = Buffer_new_spec [OF assms(4) fr]
  from with_buffer_spec [OF b'(2)] have sw:
    "SequentialWriter_write vec_write_all w (with_buffer b') = (Ok (), w @ content b')"
    by (simp add: SequentialWriter_vec)
  have "\<not> Buffer_is_empty b'" using ne b'(2) by (simp add: Buffer_is_empty_content)
  with b' av fr n sw assms show ?thesis
    by (simp add: BufferedWriter_write_mb_def with_buffer_def [of b] Buffer_slice_content Let_def
        BufferedWriter_flush_def)
qed

theorem BufferedWriter_truncates_witness:
  "\<exists>s' p'. BufferedWriter_write_mb (SequentialWriter_write vec_write_all)
        (with_buffer (sample_buffer [1, 2, 3]))
        \<lparr>bw_inner = [], bw_buffer = sample_buffer (replicate 8190 9), bw_buffered = True\<rparr> [] = (Ok (), s', p')
      \<and> bw_inner s' = replicate 8190 9 @ [1, 2] \<and> content (bw_buffer s') = []"
proof -
  let ?s = "\<lparr>bw_inner = [], bw_buffer = sample_buffer (replicate 8190 9), bw_buffered = True\<rparr>"
  have b: "buffer_wf (sample_buffer [1, 2, 3])" "content (sample_buffer [1, 2, 3]) = [1, 2, 3]"
    using sample_buffer_spec [of "[1, 2, 3]"] by (simp_all add: SIZE_def)
  have c: "buffer_wf (bw_buffer ?s)" "content (bw_buffer ?s) = replicate 8190 9" "available (bw_buffer ?s) = 2"
    using sample_buffer_spec [of "replicate 8190 9"]
    by (simp_all add: SIZE_def available_def sample_buffer_def)
  have l: "Buffer_len (sample_buffer [1, 2, 3]) = 3" using length_content [OF b(1)] b(2) by simp
  have "pool_wf []" by (simp add: pool_wf_def)
  from BufferedWriter_truncates [OF c(1) _ b(1) this] show ?thesis using b c l by simp
qed

end
