(* ===== verification/Mux_Frame.thy ===== *)
theory Mux_Frame
  imports Net
begin

text \<open>
  \<^verbatim>\<open>astra-core-mux\<close>: the frame format (\<^verbatim>\<open>frame.rs\<close>), the chunk readers (\<^verbatim>\<open>reader.rs\<close>) and the frame
  writer of one session (\<^verbatim>\<open>writer.rs\<close>). An \<^verbatim>\<open>AsyncRead\<close> is the list of bytes it has still to
  deliver before end of file, and \<^verbatim>\<open>read_exact\<close> fails when they run out. \<open>frame_ok\<close> says which frames
  the format carries faithfully; frames then form a self-delimiting code (the interface
  \<open>wire_codec\<close>, interpreted as \<open>mux\<close>), so that a stream of frames is read back as it was written.
\<close>

section \<open>Frame fields (frame.rs)\<close>

datatype SessionStatus = New | Keep | End_s | KeepAlive

fun SessionStatus_from_byte :: "u8 \<Rightarrow> SessionStatus option" where
  "SessionStatus_from_byte b =
     (if b = 1 then Some New else if b = 2 then Some Keep else if b = 3 then Some End_s
      else if b = 4 then Some KeepAlive else None)"

fun SessionStatus_as_byte :: "SessionStatus \<Rightarrow> u8" where
  "SessionStatus_as_byte New = 1"
| "SessionStatus_as_byte Keep = 2"
| "SessionStatus_as_byte End_s = 3"
| "SessionStatus_as_byte KeepAlive = 4"

type_synonym FrameOption = u8

definition OPT_DATA :: u8 where "OPT_DATA = 1"
definition OPT_ERROR :: u8 where "OPT_ERROR = 2"

definition FrameOption_set :: "u8 \<Rightarrow> FrameOption \<Rightarrow> FrameOption" where
  "FrameOption_set flag opt = opt OR flag"

definition FrameOption_has :: "u8 \<Rightarrow> FrameOption \<Rightarrow> bool" where
  "FrameOption_has flag opt \<longleftrightarrow> opt AND flag \<noteq> 0"

datatype TargetNetwork = TTcp | TUdp

fun TargetNetwork_from_byte :: "u8 \<Rightarrow> TargetNetwork option" where
  "TargetNetwork_from_byte b = (if b = 1 then Some TTcp else if b = 2 then Some TUdp else None)"

record MuxInbound =
  source :: "Destination option"
  local :: "Destination option"

record FrameMetadata =
  session_id :: u16
  status :: SessionStatus
  option :: FrameOption
  target :: "Destination option"
  inbound :: "MuxInbound option"
  global_id :: "u8 list"

definition FrameMetadata_new :: "u16 \<Rightarrow> SessionStatus \<Rightarrow> FrameMetadata" where
  "FrameMetadata_new sid st =
     \<lparr>session_id = sid, status = st, option = 0, target = None, inbound = None,
      global_id = replicate 8 0\<rparr>"

definition has_data :: "FrameMetadata \<Rightarrow> bool" where
  "has_data m = FrameOption_has OPT_DATA (option m)"

definition has_error :: "FrameMetadata \<Rightarrow> bool" where
  "has_error m = FrameOption_has OPT_ERROR (option m)"

section \<open>Encoding\<close>

fun encode_address :: "Address \<Rightarrow> u8 list" where
  "encode_address (Ipv4 os) = 1 # os"
| "encode_address (Domain_a d) =
     (let b = as_bytes d; n = min (length b) 255 in 2 # word_of_nat n # take n b)"
| "encode_address (Ipv6 os) = 3 # os"

definition encode_address_port :: "Destination \<Rightarrow> u8 list" where
  "encode_address_port d = to_be16 (port_value (port d)) @ encode_address (address d)"

definition target_is_udp :: "Destination option \<Rightarrow> bool" where
  "target_is_udp t = (case t of Some d \<Rightarrow> network d = Udp | None \<Rightarrow> False)"

definition encode_target :: "Destination \<Rightarrow> u8 list" where
  "encode_target d =
     (case network d of Tcp \<Rightarrow> 1 | Udp \<Rightarrow> 2 | _ \<Rightarrow> 1) # encode_address_port d"

definition encode_endpoint :: "Destination option \<Rightarrow> u8 list" where
  "encode_endpoint e =
     (case e of
        Some d \<Rightarrow> if network d = Tcp \<or> network d = Udp
                  then (if network d = Tcp then 0 else 1) # encode_address_port d else []
      | None \<Rightarrow> [])"

definition FrameMetadata_encode :: "FrameMetadata \<Rightarrow> u8 list" where
  "FrameMetadata_encode m =
     to_be16 (session_id m) @ [SessionStatus_as_byte (status m), option m] @
     (if status m = New
      then (case target m of Some t \<Rightarrow> encode_target t | None \<Rightarrow> []) @
           (case inbound m of
              Some i \<Rightarrow> encode_endpoint (source i) @ encode_endpoint (local i)
            | None \<Rightarrow> if target_is_udp (target m) \<and> global_id m \<noteq> replicate 8 0
                      then global_id m else [])
      else [])"

definition encode_frame :: "FrameMetadata \<Rightarrow> u8 list option \<Rightarrow> u8 list" where
  "encode_frame m data =
     (let meta_buf = FrameMetadata_encode m in
      to_be16 (word_of_nat (length meta_buf)) @ meta_buf @
      (case data of Some d \<Rightarrow> to_be16 (word_of_nat (length d)) @ d | None \<Rightarrow> []))"

section \<open>Decoding\<close>

datatype mux_error =
    InsufficientMeta
  | UnknownStatus u8
  | MissingTargetNetwork
  | UnknownTargetNetwork u8
  | TruncatedAddressPort
  | TruncatedIpv4
  | TruncatedDomainLength
  | TruncatedDomain
  | TruncatedIpv6
  | UnknownAddressType u8
  | ReadMetaLen
  | ReadMeta
  | ReadDataLen
  | ReadData
  | ReadPacketLen
  | ReadPacketData

text \<open>\<open>decode_address\<close> is the match on the address type: \<open>data\<close> starts right after the type byte.\<close>

definition decode_address :: "u8 \<Rightarrow> u8 list \<Rightarrow> (mux_error, Address \<times> nat) res" where
  "decode_address addr_type data =
     (if addr_type = 1 then
        (if length data < 4 then Err TruncatedIpv4 else Ok (Ipv4 (take 4 data), 4))
      else if addr_type = 2 then
        (if length data < 1 then Err TruncatedDomainLength
         else let domain_len = unat (data ! 0) in
           if length data < 1 + domain_len then Err TruncatedDomain
           else Ok (Domain_a (of_bytes (from_utf8_lossy (take domain_len (drop 1 data)))), 1 + domain_len))
      else if addr_type = 3 then
        (if length data < 16 then Err TruncatedIpv6 else Ok (Ipv6 (take 16 data), 16))
      else Err (UnknownAddressType addr_type))"

definition decode_address_port ::
  "u8 list \<Rightarrow> TargetNetwork \<Rightarrow> (mux_error, Destination \<times> nat) res" where
  "decode_address_port data net =
     (if length data < 3 then Err TruncatedAddressPort
      else let p = Port (from_be16 (take 2 data)) in
        rbind (decode_address (data ! 2) (drop 3 data)) (\<lambda>(a, n).
          Ok (case net of TTcp \<Rightarrow> TcpDestination a p | TUdp \<Rightarrow> UdpDestination a p, 3 + n)))"

text \<open>
  The source and local endpoints, read only when asked for: a zero byte ends them, so the
  branches for a TCP endpoint are never taken.
\<close>

definition decode_inbound ::
  "u8 list \<Rightarrow> nat \<Rightarrow> (mux_error, MuxInbound option \<times> nat) res" where
  "decode_inbound buf offset =
     (if buf ! offset \<noteq> 0
      then rbind (decode_address_port (drop (offset + 1) buf) (if buf ! offset = 0 then TTcp else TUdp))
        (\<lambda>(src, n).
           let offset = offset + 1 + n in
           if offset < length buf \<and> buf ! offset \<noteq> 0
           then rbind (decode_address_port (drop (offset + 1) buf) (if buf ! offset = 0 then TTcp else TUdp))
             (\<lambda>(loc, n'). Ok (Some \<lparr>source = Some src, local = Some loc\<rparr>, offset + 1 + n'))
           else Ok (Some \<lparr>source = Some src, local = None\<rparr>, offset))
      else Ok (None, offset))"

definition decode_global_id :: "u8 list \<Rightarrow> FrameMetadata \<Rightarrow> nat \<Rightarrow> FrameMetadata \<times> nat" where
  "decode_global_id buf m offset =
     (if target_is_udp (target m) \<and> FrameOption_has OPT_DATA (option m) \<and> offset + 8 \<le> length buf
      then (m\<lparr>global_id := take 8 (drop offset buf)\<rparr>, offset + 8)
      else (m, offset))"

definition decode_new ::
  "u8 list \<Rightarrow> bool \<Rightarrow> FrameMetadata \<Rightarrow> (mux_error, FrameMetadata \<times> nat) res" where
  "decode_new buf read_source_and_local m =
     (if length buf < 5 then Err MissingTargetNetwork
      else rbind (ok_or (UnknownTargetNetwork (buf ! 4)) (TargetNetwork_from_byte (buf ! 4))) (\<lambda>net.
        rbind (decode_address_port (drop 5 buf) net) (\<lambda>(dest, n).
          let offset = 5 + n; m = m\<lparr>target := Some dest\<rparr> in
          rbind (if read_source_and_local \<and> offset < length buf
                 then decode_inbound buf offset else Ok (None, offset)) (\<lambda>(inb, offset).
            Ok (decode_global_id buf (m\<lparr>inbound := inb\<rparr>) offset)))))"

definition FrameMetadata_decode ::
  "u8 list \<Rightarrow> bool \<Rightarrow> (mux_error, FrameMetadata \<times> nat) res" where
  "FrameMetadata_decode buf read_source_and_local =
     (if length buf < 4 then Err InsufficientMeta
      else rbind (ok_or (UnknownStatus (buf ! 2)) (SessionStatus_from_byte (buf ! 2))) (\<lambda>st.
        let m = \<lparr>session_id = from_be16 (take 2 buf), status = st, option = buf ! 3, target = None,
                 inbound = None, global_id = replicate 8 0\<rparr> in
        if st = New then decode_new buf read_source_and_local m
        else if st = Keep \<and> 4 < length buf \<and> TargetNetwork_from_byte (buf ! 4) = Some TUdp
        then rbind (decode_address_port (drop 5 buf) TUdp) (\<lambda>(dest, n).
               Ok (m\<lparr>target := Some dest\<rparr>, 5 + n))
        else Ok (m, 4)))"

text \<open>\<^verbatim>\<open>read_exact\<close> of \<open>n\<close> bytes off a stream.\<close>

definition read_exact :: "'e \<Rightarrow> nat \<Rightarrow> u8 list \<Rightarrow> ('e, u8 list \<times> u8 list) res" where
  "read_exact e n bs = (if length bs < n then Err e else Ok (take n bs, drop n bs))"

definition read_frame ::
  "u8 list \<Rightarrow> (mux_error, (FrameMetadata \<times> u8 list option) \<times> u8 list) res" where
  "read_frame bs =
     rbind (read_exact ReadMetaLen 2 bs) (\<lambda>(l, bs).
     rbind (read_exact ReadMeta (unat (from_be16 l)) bs) (\<lambda>(meta_buf, bs).
     rbind (FrameMetadata_decode meta_buf False) (\<lambda>(m, _).
       if has_data m
       then rbind (read_exact ReadDataLen 2 bs) (\<lambda>(dl, bs).
            rbind (read_exact ReadData (unat (from_be16 dl)) bs) (\<lambda>(d, bs). Ok ((m, Some d), bs)))
       else Ok ((m, None), bs))))"

section \<open>Chunk readers (reader.rs)\<close>

text \<open>\<open>PacketReader\<close>: one packet and then nothing; the flag is \<open>eof\<close>.\<close>

definition read_packet :: "bool \<times> u8 list \<Rightarrow> (mux_error, u8 list option \<times> bool \<times> u8 list) res" where
  "read_packet s =
     (case s of (eof, bs) \<Rightarrow>
        if eof then Ok (None, eof, bs)
        else rbind (read_exact ReadPacketLen 2 bs) (\<lambda>(l, bs).
             rbind (read_exact ReadPacketData (unat (from_be16 l)) bs) (\<lambda>(d, bs). Ok (Some d, True, bs))))"

text \<open>\<open>StreamReader\<close>: end of file in front of a length is the end of the stream.\<close>

definition read_chunk :: "u8 list \<Rightarrow> (mux_error, u8 list option \<times> u8 list) res" where
  "read_chunk bs =
     (if length bs < 2 then Ok (None, [])
      else rbind (read_exact ReadPacketData (unat (from_be16 (take 2 bs))) (drop 2 bs))
             (\<lambda>(d, bs). Ok (Some d, bs)))"

section \<open>The writer of one session (writer.rs)\<close>

record MuxWriter =
  w_session_id :: u16
  w_followup :: bool
  w_target :: "Destination option"

definition MuxWriter_new :: "u16 \<Rightarrow> Destination option \<Rightarrow> MuxWriter" where
  "MuxWriter_new sid t = \<lparr>w_session_id = sid, w_followup = False, w_target = t\<rparr>"

definition MuxWriter_new_response :: "u16 \<Rightarrow> MuxWriter" where
  "MuxWriter_new_response sid = \<lparr>w_session_id = sid, w_followup = True, w_target = None\<rparr>"

text \<open>The flag is set before it is tested, in this order, as in the source.\<close>

definition next_meta :: "bool \<Rightarrow> MuxWriter \<Rightarrow> FrameMetadata \<times> MuxWriter" where
  "next_meta is_data w =
     (let st = (if w_followup w then Keep else New);
          w = (if w_followup w then w else w\<lparr>w_followup := True\<rparr>);
          m = FrameMetadata_new (w_session_id w) st;
          m = (if is_data then m\<lparr>option := FrameOption_set OPT_DATA (option m)\<rparr> else m);
          m = (if \<not> w_followup w then m\<lparr>target := w_target w\<rparr> else m)
      in (m, w))"

definition write_meta_only :: "MuxWriter \<Rightarrow> u8 list \<times> MuxWriter" where
  "write_meta_only w = (case next_meta False w of (m, w') \<Rightarrow> (encode_frame m None, w'))"

definition write_data :: "u8 list \<Rightarrow> MuxWriter \<Rightarrow> u8 list \<times> MuxWriter" where
  "write_data d w = (case next_meta True w of (m, w') \<Rightarrow> (encode_frame m (Some d), w'))"

definition close_frame :: "bool \<Rightarrow> MuxWriter \<Rightarrow> u8 list" where
  "close_frame err w =
     (let m = FrameMetadata_new (w_session_id w) End_s;
          m = (if err then m\<lparr>option := FrameOption_set OPT_ERROR (option m)\<rparr> else m)
      in encode_frame m None)"

section \<open>The reserved destination (lib.rs)\<close>

definition mux_address :: Address where "mux_address = Domain_a ''v1.mux.cool''"
definition mux_port :: Port where "mux_port = Port 9527"
definition mux_destination :: Destination where
  "mux_destination = TcpDestination (Domain_a ''v1.mux.cool'') (Port 9527)"

definition write_frame :: "u8 list \<Rightarrow> FrameMetadata \<Rightarrow> u8 list option \<Rightarrow> u8 list" where
  "write_frame out m data = out @ encode_frame m data"

section \<open>Frames the format carries\<close>

fun address_ok :: "Address \<Rightarrow> bool" where
  "address_ok (Domain_a d) = (valid_utf8 (as_bytes d) \<and> length d \<le> 255)"
| "address_ok a = address_wf a"

definition target_ok :: "Destination \<Rightarrow> bool" where
  "target_ok d \<longleftrightarrow> (network d = Tcp \<or> network d = Udp) \<and> address_ok (address d)"

definition meta_ok :: "FrameMetadata \<Rightarrow> bool" where
  "meta_ok m \<longleftrightarrow>
     inbound m = None \<and> length (global_id m) = 8 \<and>
     (if status m = New
      then (case target m of Some d \<Rightarrow> target_ok d | None \<Rightarrow> False) \<and>
           (global_id m = replicate 8 0 \<or> target_is_udp (target m) \<and> has_data m)
      else target m = None \<and> global_id m = replicate 8 0)"

definition frame_ok :: "FrameMetadata \<times> u8 list option \<Rightarrow> bool" where
  "frame_ok f \<longleftrightarrow> meta_ok (fst f) \<and> (has_data (fst f) \<longleftrightarrow> snd f \<noteq> None) \<and>
     (case snd f of Some d \<Rightarrow> length d \<le> 65535 | None \<Rightarrow> True)"

lemma encode_address_nonempty [simp]: "encode_address a \<noteq> []"
  by (cases a) (simp_all add: Let_def)

lemma length_encode_address: "address_ok a \<Longrightarrow> length (encode_address a) \<le> 257"
  by (cases a) (simp_all add: Let_def)

lemma decode_encode_address [wire]:
  assumes "address_ok a"
  shows "decode_address (hd (encode_address a)) (tl (encode_address a) @ r)
         = Ok (a, length (encode_address a) - 1)"
proof (cases a)
  case (Domain_a d)
  with assms have "length d \<le> 255" and "valid_utf8 (as_bytes d)" by simp_all
  with Domain_a show ?thesis
    by (simp add: decode_address_def Let_def unat_of_nat from_utf8_lossy_valid)
qed (use assms in \<open>simp_all add: decode_address_def\<close>)

lemma decode_encode_address_port [wire]:
  assumes "address_ok (address d)"
  shows "decode_address_port (encode_address_port d @ r) net =
    Ok (d\<lparr>network := (case net of TTcp \<Rightarrow> Tcp | TUdp \<Rightarrow> Udp)\<rparr>, length (encode_address_port d))"
proof -
  obtain x xs where a: "encode_address (address d) = x # xs"
    by (cases "encode_address (address d)") simp_all
  have "decode_address x (xs @ r) = Ok (address d, length xs)"
    using decode_encode_address [OF assms, of r] by (simp add: a)
  then show ?thesis
    by (cases net)
      (simp_all add: decode_address_port_def encode_address_port_def a nth_append
        TcpDestination_def UdpDestination_def)
qed

lemma take4_cons: "length p = 2 \<Longrightarrow> (p @ a # b # c # r) ! 4 = c" "length p = 2 \<Longrightarrow> (p @ a # r) ! 2 = a"
  "length p = 2 \<Longrightarrow> (p @ a # b # r) ! 3 = b"
  by (simp_all add: nth_append)

lemma drop3_cons: "drop (3 + n) (a # b # c # xs) = drop n xs"
  by (simp add: eval_nat_numeral)

lemma SessionStatus_bytes [simp, wire]:
  "SessionStatus_from_byte (SessionStatus_as_byte st) = Some st" "SessionStatus_from_byte 1 = Some New"
  by (cases st) simp_all

declare SessionStatus_from_byte.simps [simp del] TargetNetwork_from_byte.simps [simp del]

lemma TargetNetwork_bytes [simp, wire]:
  "TargetNetwork_from_byte 1 = Some TTcp" "TargetNetwork_from_byte 2 = Some TUdp"
  by (simp_all add: TargetNetwork_from_byte.simps)

lemma decode_encode_meta [wire]:
  assumes "meta_ok m"
  shows "FrameMetadata_decode (FrameMetadata_encode m) False = Ok (m, length (FrameMetadata_encode m))"
proof (cases "status m = New")
  case True
  with assms obtain d where d: "target m = Some d" "target_ok d"
    and g: "global_id m = replicate 8 0 \<or> network d = Udp \<and> has_data m"
    and i: "inbound m = None" "length (global_id m) = 8"
    by (auto simp: meta_ok_def target_is_udp_def split: option.splits)
  show ?thesis
    using True d g i
    by (cases m; cases "network d"; cases "global_id m = replicate 8 0")
      (auto simp: FrameMetadata_decode_def FrameMetadata_encode_def decode_new_def decode_global_id_def encode_target_def
        take4_cons decode_encode_address_port target_ok_def target_is_udp_def Let_def has_data_def
        drop3_cons decode_encode_address_port [where r = "[]", simplified])
next
  case False
  with assms have "target m = None" "inbound m = None" "global_id m = replicate 8 0"
    by (auto simp: meta_ok_def)
  with False show ?thesis
    by (cases m) (auto simp: FrameMetadata_decode_def FrameMetadata_encode_def take4_cons Let_def)
qed

lemma length_encode_meta: "meta_ok m \<Longrightarrow> length (FrameMetadata_encode m) \<le> 272"
  using length_encode_address
  by (auto simp: meta_ok_def FrameMetadata_encode_def encode_target_def encode_address_port_def
      target_ok_def split: option.splits if_splits dest!: length_encode_address)

lemma read_frame_encode:
  assumes "frame_ok f"
  shows "read_frame (encode_frame (fst f) (snd f) @ rest) = Ok (f, rest)"
proof -
  obtain m d where f: "f = (m, d)" by (cases f)
  with assms have m: "meta_ok m" and hd: "has_data m = (d \<noteq> None)"
    and len: "\<And>x. d = Some x \<Longrightarrow> length x \<le> 65535"
    by (auto simp: frame_ok_def)
  have l: "unat (word_of_nat (length (FrameMetadata_encode m)) :: u16) = length (FrameMetadata_encode m)"
    using length_encode_meta [OF m] by (simp add: unat_of_nat)
  show ?thesis
  proof (cases d)
    case None
    with f hd show ?thesis
      by (simp add: read_frame_def encode_frame_def read_exact_def Let_def l decode_encode_meta [OF m])
  next
    case (Some x)
    then have "unat (word_of_nat (length x) :: u16) = length x" using len by (simp add: unat_of_nat)
    with Some f hd show ?thesis
      by (simp add: read_frame_def encode_frame_def read_exact_def Let_def l decode_encode_meta [OF m])
  qed
qed

lemma read_exact_Ok: "read_exact e n bs = Ok (xs, r) \<longleftrightarrow> n \<le> length bs \<and> xs = take n bs \<and> r = drop n bs"
  by (auto simp: read_exact_def)

lemma read_frame_shrinks: "read_frame bs = Ok (f, rest) \<Longrightarrow> length rest < length bs"
  by (auto simp: read_frame_def rbind_eq_Ok read_exact_Ok split: if_splits)

interpretation mux: wire_codec "\<lambda>f. encode_frame (fst f) (snd f)" read_frame frame_ok
  by unfold_locales (simp_all add: read_frame_encode read_frame_shrinks)

section \<open>What travels and what does not\<close>

text \<open>\<open>read_frames\<close> is the loop both ends run over their connection, here collecting the frames.\<close>

function read_frames :: "u8 list \<Rightarrow> (mux_error, (FrameMetadata \<times> u8 list option) list) res" where
  "read_frames bs =
     (if bs = [] then Ok []
      else case read_frame bs of
             Ok (f, r) \<Rightarrow> rbind (read_frames r) (\<lambda>fs. Ok (f # fs))
           | Err _ \<Rightarrow> Ok []
           | Panic \<Rightarrow> Panic)"
  by pat_completeness auto
termination
  by (relation "measure length") (auto dest: read_frame_shrinks)

declare read_frames.simps [simp del]

text \<open>C5. Any sequence of frames the format carries (\<open>frame_ok\<close>), written one after the other on the
  connection, is read back as exactly that sequence: metadata, targets, global ids and payloads.\<close>
theorem read_frames_roundtrip:
  assumes "\<forall>f \<in> set fs. frame_ok f"
  shows "read_frames (foldl (\<lambda>out f. write_frame out (fst f) (snd f)) [] fs) = Ok fs"
proof -
  have "foldl (\<lambda>out f. write_frame out (fst f) (snd f)) out fs
        = out @ concat (map (\<lambda>f. encode_frame (fst f) (snd f)) fs)" for out
    by (induction fs arbitrary: out) (simp_all add: write_frame_def)
  then show ?thesis
    using mux.loop_decodes [of read_frames fs, OF read_frames.simps assms] by simp
qed

definition sample_frames :: "(FrameMetadata \<times> u8 list option) list" where
  "sample_frames =
     [((FrameMetadata_new 1 New)\<lparr>option := 1, target := Some (UdpDestination (Domain_a ''a.b'') (Port 53)),
        global_id := [1, 2, 3, 4, 5, 6, 7, 8]\<rparr>, Some [9, 9]),
      ((FrameMetadata_new 1 Keep)\<lparr>option := 1\<rparr>, Some []),
      (FrameMetadata_new 1 End_s, None)]"

lemma sample_frames_ok: "\<forall>f \<in> set sample_frames. frame_ok f"
proof -
  have "valid_utf8 (as_bytes ''a.b'')"
    by (rule valid_utf8_ascii) (simp add: as_bytes_def)
  then show ?thesis
    by (simp add: sample_frames_def frame_ok_def meta_ok_def FrameMetadata_new_def has_data_def
        FrameOption_has_def OPT_DATA_def target_ok_def target_is_udp_def UdpDestination_def)
qed

theorem read_frames_roundtrip_witness:
  "read_frames (foldl (\<lambda>out f. write_frame out (fst f) (snd f)) [] sample_frames) = Ok sample_frames"
  by (rule read_frames_roundtrip [OF sample_frames_ok])

lemma decode_address_Ok:
  "decode_address t data = Ok (a, n) \<Longrightarrow> n \<le> length data \<and> address_wf a"
  by (auto simp: decode_address_def Let_def split: if_splits)

lemma decode_address_port_Ok:
  "decode_address_port data net = Ok (d, n) \<Longrightarrow>
   n \<le> length data \<and> 3 \<le> n \<and> address_wf (address d) \<and> (network d = Tcp \<or> network d = Udp)"
  by (cases net) (force simp: decode_address_port_def rbind_eq_Ok TcpDestination_def UdpDestination_def
      Let_def split: if_splits dest: decode_address_Ok)+

lemma decode_address_no_panic [panic_free]: "decode_address t data \<noteq> Panic"
  by (simp add: decode_address_def Let_def)

lemma decode_address_port_no_panic [panic_free]: "decode_address_port data net \<noteq> Panic"
  by (auto simp: decode_address_port_def Let_def rbind_eq_Panic decode_address_no_panic)

lemma decode_inbound_no_panic [panic_free]: "decode_inbound buf off \<noteq> Panic"
  by (auto simp: decode_inbound_def Let_def rbind_eq_Panic decode_address_port_no_panic)

lemma decode_inbound_Ok:
  "decode_inbound buf off = Ok (i, n) \<Longrightarrow> off < length buf \<Longrightarrow> off \<le> n \<and> n \<le> length buf"
  by (auto simp: decode_inbound_def Let_def rbind_eq_Ok split: if_splits dest!: decode_address_port_Ok)

lemma decode_new_no_panic [panic_free]: "decode_new buf rsl m \<noteq> Panic"
  by (simp add: decode_new_def Let_def rbind_eq_Panic split_beta decode_address_port_no_panic
      decode_inbound_no_panic)

lemma decode_new_Ok:
  assumes "decode_new buf rsl m = Ok (m', n)" and "length (global_id m) = 8"
  shows "5 \<le> n \<and> n \<le> length buf \<and> length (global_id m') = 8 \<and> status m' = status m \<and>
    (\<exists>d. target m' = Some d \<and> address_wf (address d) \<and> (network d = Tcp \<or> network d = Udp))"
proof -
  have b: "5 \<le> length buf" using assms(1) by (cases "length buf < 5") (simp_all add: decode_new_def)
  let ?inb = "\<lambda>k. if rsl \<and> 5 + k < length buf then decode_inbound buf (5 + k) else Ok (None, 5 + k)"
  from assms(1) b obtain net d k where d: "decode_address_port (drop 5 buf) net = Ok (d, k)"
    and rb: "rbind (?inb k) (\<lambda>(i, off). Ok (decode_global_id buf (m\<lparr>target := Some d, inbound := i\<rparr>) off)) = Ok (m', n)"
    by (auto simp: decode_new_def Let_def rbind_eq_Ok [of "ok_or _ _"] rbind_eq_Ok [of "decode_address_port _ _"])
  from rb obtain i off where i: "?inb k = Ok (i, off)"
    and r: "decode_global_id buf (m\<lparr>target := Some d, inbound := i\<rparr>) off = (m', n)"
    by (cases "?inb k") auto
  from decode_address_port_Ok [OF d] b have "5 + k \<le> length buf" by auto
  with i have "5 \<le> off \<and> off \<le> length buf"
    by (auto split: if_splits dest: decode_inbound_Ok)
  with r decode_address_port_Ok [OF d] assms(2) show ?thesis
    by (auto simp: decode_global_id_def split: if_splits)
qed

text \<open>Decoding never unwinds and stays inside its input: on any bytes \<open>FrameMetadata_decode\<close> returns
  an error or a frame whose consumed length is at least 4 and at most the buffer's, with an
  eight-byte global id, and a target of the network its byte names.\<close>
theorem FrameMetadata_decode_safe:
  "case FrameMetadata_decode buf rsl of
     Ok (m, n) \<Rightarrow> 4 \<le> n \<and> n \<le> length buf \<and> length (global_id m) = 8 \<and>
       (status m = New \<longrightarrow> (\<exists>d. target m = Some d \<and> address_wf (address d) \<and> (network d = Tcp \<or> network d = Udp)))
   | Err _ \<Rightarrow> True
   | Panic \<Rightarrow> False"
proof (cases "FrameMetadata_decode buf rsl")
  case Panic
  then show ?thesis
    by (auto simp: FrameMetadata_decode_def decode_new_no_panic Let_def rbind_eq_Panic
        decode_address_port_no_panic split: if_splits)
next
  case (Ok x)
  obtain m n where x: "x = (m, n)" by (cases x)
  from Ok obtain st where st: "4 \<le> length buf" "SessionStatus_from_byte (buf ! 2) = Some st"
    by (auto simp: FrameMetadata_decode_def rbind_eq_Ok split: if_splits)
  show ?thesis
  proof (cases "st = New")
    case True
    with Ok x st have "decode_new buf rsl
        \<lparr>session_id = from_be16 (take 2 buf), status = New, option = buf ! 3, target = None,
         inbound = None, global_id = replicate 8 0\<rparr> = Ok (m, n)"
      by (simp add: FrameMetadata_decode_def)
    with Ok x show ?thesis by (auto dest: decode_new_Ok)
  next
    case False
    with Ok x st show ?thesis
      by (auto simp: FrameMetadata_decode_def Let_def rbind_eq_Ok split: if_splits dest!: decode_address_port_Ok)
  qed
qed simp

theorem FrameMetadata_decode_safe_witness:
  "\<exists>d. target (fst (hd sample_frames)) = Some d \<and> address_wf (address d) \<and> (network d = Tcp \<or> network d = Udp)"
proof -
  have "frame_ok (hd sample_frames)" using sample_frames_ok by (simp add: sample_frames_def)
  then have "meta_ok (fst (hd sample_frames))" by (simp add: frame_ok_def)
  from decode_encode_meta [OF this]
    FrameMetadata_decode_safe [of "FrameMetadata_encode (fst (hd sample_frames))" False]
  show ?thesis by (simp add: sample_frames_def FrameMetadata_new_def)
qed

text \<open>A payload of any length: the length field is its length modulo 65536, so the reader takes that
  many bytes as the payload and leaves the others in the stream, where it will read them as the
  next frame. The frame comes back whole exactly when the payload is shorter than 65536 bytes.\<close>
theorem encode_frame_length_wraps:
  assumes "meta_ok m" and "has_data m"
  shows "read_frame (encode_frame m (Some d) @ rest) =
    Ok ((m, Some (take (length d mod 65536) d)), drop (length d mod 65536) d @ rest)"
proof -
  have "unat (word_of_nat (length (FrameMetadata_encode m)) :: u16) = length (FrameMetadata_encode m)"
    using length_encode_meta [OF assms(1)] by (simp add: unat_of_nat)
  moreover have "unat (word_of_nat (length d) :: u16) = length d mod 65536"
    by (simp add: unat_of_nat)
  moreover have "length d mod 65536 \<le> length d" by simp
  ultimately show ?thesis
    using assms by (simp add: read_frame_def encode_frame_def read_exact_def Let_def decode_encode_meta)
qed

definition keep_frame :: "u16 \<Rightarrow> u8 list \<Rightarrow> FrameMetadata \<times> u8 list option" where
  "keep_frame sid d = ((FrameMetadata_new sid Keep)\<lparr>option := OPT_DATA\<rparr>, Some d)"

definition end_frame :: "u16 \<Rightarrow> bool \<Rightarrow> FrameMetadata \<times> u8 list option" where
  "end_frame sid err = ((FrameMetadata_new sid End_s)\<lparr>option := (if err then OPT_ERROR else 0)\<rparr>, None)"

lemma keep_frame_ok: "length d \<le> 65535 \<Longrightarrow> frame_ok (keep_frame sid d)"
  by (simp add: keep_frame_def frame_ok_def meta_ok_def FrameMetadata_new_def has_data_def
      FrameOption_has_def OPT_DATA_def)

lemma end_frame_ok: "frame_ok (end_frame sid err)"
  by (simp add: end_frame_def frame_ok_def meta_ok_def FrameMetadata_new_def has_data_def
      FrameOption_has_def OPT_DATA_def OPT_ERROR_def)

theorem encode_frame_length_wraps_witness:
  "read_frame (encode_frame (fst (keep_frame 1 [])) (Some (replicate 65538 7)) @ []) =
     Ok ((fst (keep_frame 1 []), Some (take (length (replicate 65538 (7 :: u8)) mod 65536) (replicate 65538 7))),
         drop (length (replicate 65538 (7 :: u8)) mod 65536) (replicate 65538 7) @ [])"
  by (rule encode_frame_length_wraps)
    (simp_all add: keep_frame_def meta_ok_def FrameMetadata_new_def has_data_def
      FrameOption_has_def OPT_DATA_def)

text \<open>\<open>write_all\<close> is a run of \<open>write_data\<close> on one writer, then \<open>close\<close>.\<close>

primrec write_all :: "u8 list list \<Rightarrow> bool \<Rightarrow> MuxWriter \<Rightarrow> u8 list" where
  "write_all [] err w = close_frame err w"
| "write_all (d # ds) err w = (case write_data d w of (bs, w') \<Rightarrow> bs @ write_all ds err w')"

lemma write_all_followup:
  "w_followup w \<Longrightarrow> write_all ds err w =
     concat (map (\<lambda>f. encode_frame (fst f) (snd f))
       (map (keep_frame (w_session_id w)) ds @ [end_frame (w_session_id w) err]))"
  by (induction ds) (simp_all add: write_data_def next_meta_def close_frame_def keep_frame_def
      end_frame_def FrameMetadata_new_def FrameOption_set_def)

text \<open>The response writer of a session: whatever chunks are written and however the session is
  closed, the peer reads one \<open>Keep\<close> frame per chunk, in order and with its bytes, and then the
  \<open>End\<close> frame with the error flag.\<close>
theorem MuxWriter_response_stream:
  assumes "\<forall>d \<in> set ds. length d \<le> 65535"
  shows "read_frames (write_all ds err (MuxWriter_new_response sid)) =
    Ok (map (keep_frame sid) ds @ [end_frame sid err])"
proof -
  have "\<forall>f \<in> set (map (keep_frame sid) ds @ [end_frame sid err]). frame_ok f"
    using assms by (auto simp: keep_frame_ok end_frame_ok)
  from mux.loop_decodes [of read_frames, OF read_frames.simps this] show ?thesis
    by (simp add: write_all_followup MuxWriter_new_response_def)
qed

theorem MuxWriter_response_stream_witness:
  "read_frames (write_all [[1, 2], [], [3]] True (MuxWriter_new_response 9)) =
    Ok (map (keep_frame 9) [[1, 2], [], [3]] @ [end_frame 9 True])"
  by (rule MuxWriter_response_stream) simp

text \<open>The opening writer: its first frame has status \<open>New\<close> but never carries the target it was
  created with, because the follow-up flag is set before it is tested. So the peer rejects the
  first frame of every session, whatever the target and the payload.\<close>
theorem MuxWriter_first_frame_rejected:
  "read_frame (fst (write_data d (MuxWriter_new sid t)) @ rest) = Err MissingTargetNetwork \<and>
   read_frame (fst (write_meta_only (MuxWriter_new sid t)) @ rest) = Err MissingTargetNetwork"
  by (simp add: write_data_def write_meta_only_def next_meta_def MuxWriter_new_def encode_frame_def
      FrameMetadata_new_def FrameMetadata_encode_def read_frame_def read_exact_def Let_def
      FrameMetadata_decode_def decode_new_def take4_cons target_is_udp_def)

end
