(* ===== verification/Mux_Session.thy ===== *)
theory Mux_Session
  imports Mux_Frame
begin

text \<open>
  \<^verbatim>\<open>astra-core-mux\<close>: sessions and their manager (\<^verbatim>\<open>session.rs\<close>), the two ends of a mux connection
  (\<^verbatim>\<open>client.rs\<close>, \<^verbatim>\<open>server.rs\<close>) and the stream adapter of a session (\<^verbatim>\<open>io.rs\<close>).

  An \<^verbatim>\<open>Arc<Session>\<close> is an index into \<open>heap\<close>; it is alive while the session table or the list
  \<open>handles\<close> of the other owners names it, and its last owner's release drops its channels. A
  channel is an index into \<open>mpscs\<close> (the data queue) or \<open>oneshots\<close> (the close signal). The bodies
  of the operations are atomic; where the source tests a flag before it takes a lock, the test and
  the locked section are separate definitions, and \<open>client_step\<close> interleaves them.
\<close>

section \<open>Sessions and channels (session.rs)\<close>

record MuxClientStrategy =
  max_concurrency :: u32
  max_connection :: u32

definition MuxClientStrategy_default :: MuxClientStrategy where
  "MuxClientStrategy_default = \<lparr>max_concurrency = 8, max_connection = 0\<rparr>"

record SessionChannels =
  data_tx :: nat
  close_tx :: nat

record Session =
  s_id :: u16
  s_closed :: bool
  s_waiting :: nat
  s_channels :: "SessionChannels option"

record mpsc =
  queue :: "u8 list list"
  tx_alive :: bool
  rx_alive :: bool

record mux_state =
  heap :: "Session list"
  table :: "(u16 \<times> nat) list"
  next_id :: u16
  mgr_closed :: bool
  handles :: "nat list"
  mpscs :: "mpsc list"
  oneshots :: "bool list"
  announced :: "u16 list"
  done_flag :: bool
  written :: "u8 list"

definition Session_new :: "u16 \<Rightarrow> Session" where
  "Session_new i = \<lparr>s_id = i, s_closed = False, s_waiting = 0, s_channels = None\<rparr>"

definition upd_session :: "nat \<Rightarrow> (Session \<Rightarrow> Session) \<Rightarrow> mux_state \<Rightarrow> mux_state" where
  "upd_session r f w = w\<lparr>heap := (heap w)[r := f (heap w ! r)]\<rparr>"

definition upd_mpsc :: "nat \<Rightarrow> (mpsc \<Rightarrow> mpsc) \<Rightarrow> mux_state \<Rightarrow> mux_state" where
  "upd_mpsc c f w = w\<lparr>mpscs := (mpscs w)[c := f (mpscs w ! c)]\<rparr>"

text \<open>\<open>Notify\<close> keeps no permit for \<^verbatim>\<open>notify_waiters\<close>: only those waiting now are woken.\<close>

definition Session_close :: "nat \<Rightarrow> mux_state \<Rightarrow> mux_state" where
  "Session_close r w = upd_session r (\<lambda>s. s\<lparr>s_closed := True, s_waiting := 0\<rparr>) w"

definition wait_closed :: "nat \<Rightarrow> mux_state \<Rightarrow> mux_state" where
  "wait_closed r w = upd_session r (\<lambda>s. s\<lparr>s_waiting := s_waiting s + 1\<rparr>) w"

definition attach_channels :: "nat \<Rightarrow> SessionChannels \<Rightarrow> mux_state \<Rightarrow> bool \<times> mux_state" where
  "attach_channels r ch w =
     (if s_channels (heap w ! r) \<noteq> None then (False, w)
      else (True, upd_session r (\<lambda>s. s\<lparr>s_channels := Some ch\<rparr>) w))"

definition take_channels :: "nat \<Rightarrow> mux_state \<Rightarrow> SessionChannels option \<times> mux_state" where
  "take_channels r w = (s_channels (heap w ! r), upd_session r (\<lambda>s. s\<lparr>s_channels := None\<rparr>) w)"

text \<open>Dropping the channels drops the only sender of the queue.\<close>

definition drop_channels :: "SessionChannels \<Rightarrow> mux_state \<Rightarrow> mux_state" where
  "drop_channels ch w = upd_mpsc (data_tx ch) (\<lambda>c. c\<lparr>tx_alive := False\<rparr>) w"

definition close_send :: "SessionChannels \<Rightarrow> mux_state \<Rightarrow> mux_state" where
  "close_send ch w = w\<lparr>oneshots := (oneshots w)[close_tx ch := True]\<rparr>"

definition data_send :: "SessionChannels \<Rightarrow> u8 list \<Rightarrow> mux_state \<Rightarrow> mux_state" where
  "data_send ch d w =
     upd_mpsc (data_tx ch) (\<lambda>c. if rx_alive c then c\<lparr>queue := queue c @ [d]\<rparr> else c) w"

section \<open>Reference counting\<close>

definition release_ref :: "nat \<Rightarrow> mux_state \<Rightarrow> mux_state" where
  "release_ref r w =
     (if r \<in> snd ` set (table w) \<or> r \<in> set (handles w) then w
      else case take_channels r w of
             (None, _) \<Rightarrow> w
           | (Some ch, w') \<Rightarrow> drop_channels ch w')"

definition new_session :: "u16 \<Rightarrow> mux_state \<Rightarrow> nat \<times> mux_state" where
  "new_session i w =
     (length (heap w), w\<lparr>heap := heap w @ [Session_new i], handles := length (heap w) # handles w\<rparr>)"

definition drop_handle :: "nat \<Rightarrow> mux_state \<Rightarrow> mux_state" where
  "drop_handle r w = release_ref r (w\<lparr>handles := remove1 r (handles w)\<rparr>)"

definition table_insert :: "u16 \<Rightarrow> nat \<Rightarrow> mux_state \<Rightarrow> mux_state" where
  "table_insert i r w =
     (let w' = w\<lparr>table := AList.update i r (table w)\<rparr>
      in case map_of (table w) i of None \<Rightarrow> w' | Some old \<Rightarrow> release_ref old w')"

definition table_remove :: "u16 \<Rightarrow> mux_state \<Rightarrow> mux_state" where
  "table_remove i w =
     (let w' = w\<lparr>table := AList.delete i (table w)\<rparr>
      in case map_of (table w) i of None \<Rightarrow> w' | Some old \<Rightarrow> release_ref old w')"

section \<open>The session manager (session.rs)\<close>

definition SessionManager_new :: mux_state where
  "SessionManager_new =
     \<lparr>heap = [], table = [], next_id = 0, mgr_closed = False, handles = [], mpscs = [], oneshots = [],
      announced = [], done_flag = False, written = []\<rparr>"

definition mgr_size :: "mux_state \<Rightarrow> nat" where "mgr_size w = length (table w)"

definition total_allocated :: "mux_state \<Rightarrow> u16" where "total_allocated w = next_id w"

definition allocate_locked ::
  "MuxClientStrategy \<Rightarrow> mux_state \<Rightarrow> nat option \<times> mux_state" where
  "allocate_locked st w =
     (if (unat (max_concurrency st) > 0 \<and> mgr_size w \<ge> unat (max_concurrency st)) \<or>
         (max_connection st > 0 \<and> ucast (next_id w) \<ge> max_connection st)
      then (None, w)
      else let i = next_id w + 1;
               (r, w) = new_session i (w\<lparr>next_id := i\<rparr>)
           in (Some r, table_insert i r w))"

definition allocate :: "MuxClientStrategy \<Rightarrow> mux_state \<Rightarrow> nat option \<times> mux_state" where
  "allocate st w = (if mgr_closed w then (None, w) else allocate_locked st w)"

text \<open>\<open>add\<close> takes a session reference the caller owns; on refusal the clone is dropped.\<close>

definition SessionManager_add :: "nat \<Rightarrow> mux_state \<Rightarrow> bool \<times> mux_state" where
  "SessionManager_add r w =
     (if mgr_closed w then (False, w) else (True, table_insert (s_id (heap w ! r)) r w))"

definition SessionManager_remove :: "u16 \<Rightarrow> mux_state \<Rightarrow> mux_state" where
  "SessionManager_remove i w = table_remove i w"

definition SessionManager_get :: "u16 \<Rightarrow> mux_state \<Rightarrow> nat option" where
  "SessionManager_get i w = map_of (table w) i"

definition close_if_no_session_and_idle ::
  "nat \<Rightarrow> u16 \<Rightarrow> mux_state \<Rightarrow> bool \<times> mux_state" where
  "close_if_no_session_and_idle check_size check_count w =
     (if mgr_closed w then (True, w)
      else if table w \<noteq> [] then (False, w)
      else if check_size \<noteq> 0 \<or> check_count \<noteq> next_id w then (False, w)
      else (True, w\<lparr>mgr_closed := True\<rparr>))"

text \<open>\<open>close\<close>: the swap of the flag, then the locked walk over the table.\<close>

definition close_swap :: "mux_state \<Rightarrow> bool \<times> mux_state" where
  "close_swap w = (mgr_closed w, w\<lparr>mgr_closed := True\<rparr>)"

definition close_locked :: "mux_state \<Rightarrow> mux_state" where
  "close_locked w = foldl (\<lambda>w p. Session_close (snd p) w) w (table w)"

definition SessionManager_close :: "mux_state \<Rightarrow> mux_state" where
  "SessionManager_close w =
     (case close_swap w of (was, w') \<Rightarrow> if was then w' else close_locked w')"

section \<open>Frame handlers (client.rs, server.rs)\<close>

definition handle_keep :: "FrameMetadata \<times> u8 list option \<Rightarrow> mux_state \<Rightarrow> mux_state" where
  "handle_keep f w =
     (case SessionManager_get (session_id (fst f)) w of
        None \<Rightarrow> w
      | Some r \<Rightarrow>
          (case s_channels (heap w ! r) of
             None \<Rightarrow> w
           | Some ch \<Rightarrow> (case snd f of None \<Rightarrow> w | Some d \<Rightarrow> data_send ch d w)))"

definition handle_end :: "FrameMetadata \<times> u8 list option \<Rightarrow> mux_state \<Rightarrow> mux_state" where
  "handle_end f w =
     (let w = (case SessionManager_get (session_id (fst f)) w of
                 None \<Rightarrow> w
               | Some r \<Rightarrow>
                   (case take_channels r w of
                      (None, w') \<Rightarrow> Session_close r w'
                    | (Some ch, w') \<Rightarrow> Session_close r (drop_channels ch (close_send ch w'))))
      in SessionManager_remove (session_id (fst f)) w)"

definition server_handle :: "mux_state \<Rightarrow> FrameMetadata \<times> u8 list option \<Rightarrow> mux_state" where
  "server_handle w f =
     (case status (fst f) of
        New \<Rightarrow>
          (let (r, w) = new_session (session_id (fst f)) w;
               (_, w) = SessionManager_add r w;
               w = w\<lparr>announced := announced w @ [session_id (fst f)]\<rparr>
           in drop_handle r w)
      | Keep \<Rightarrow> handle_keep f w
      | End_s \<Rightarrow> handle_end f w
      | KeepAlive \<Rightarrow> w)"

definition client_handle :: "mux_state \<Rightarrow> FrameMetadata \<times> u8 list option \<Rightarrow> mux_state" where
  "client_handle w f =
     (case status (fst f) of
        New \<Rightarrow> SessionManager_remove (session_id (fst f)) w
      | Keep \<Rightarrow> handle_keep f w
      | End_s \<Rightarrow> handle_end f w
      | KeepAlive \<Rightarrow> w)"

text \<open>The read loops run until the connection ends or a frame cannot be read.\<close>

function server_read_loop :: "mux_state \<Rightarrow> u8 list \<Rightarrow> mux_state" where
  "server_read_loop w bs =
     (case read_frame bs of Ok (f, r) \<Rightarrow> server_read_loop (server_handle w f) r | _ \<Rightarrow> w)"
  by pat_completeness auto
termination
  by (relation "measure (length \<circ> snd)") (auto dest: read_frame_shrinks)

function client_read_loop :: "mux_state \<Rightarrow> u8 list \<Rightarrow> mux_state" where
  "client_read_loop w bs =
     (case read_frame bs of Ok (f, r) \<Rightarrow> client_read_loop (client_handle w f) r | _ \<Rightarrow> w)"
  by pat_completeness auto
termination
  by (relation "measure (length \<circ> snd)") (auto dest: read_frame_shrinks)

declare server_read_loop.simps [simp del] client_read_loop.simps [simp del]

text \<open>The spawned task: the loop, then the done flag.\<close>

definition client_task :: "mux_state \<Rightarrow> u8 list \<Rightarrow> mux_state" where
  "client_task w bs = (client_read_loop w bs)\<lparr>done_flag := True\<rparr>"

definition server_task :: "mux_state \<Rightarrow> u8 list \<Rightarrow> mux_state" where
  "server_task w bs = (server_read_loop w bs)\<lparr>done_flag := True\<rparr>"

text \<open>One tick of \<open>monitor_loop\<close>: \<open>False\<close> when the loop ends. Client and server differ in the period only.\<close>

definition monitor_tick :: "mux_state \<Rightarrow> bool \<times> mux_state" where
  "monitor_tick w =
     (if done_flag w then (False, w)
      else case close_if_no_session_and_idle (mgr_size w) (total_allocated w) w of
             (stop, w') \<Rightarrow> (\<not> stop, w'))"

definition open_session :: "MuxClientStrategy \<Rightarrow> mux_state \<Rightarrow> nat option \<times> mux_state" where
  "open_session st w = allocate st w"

definition is_full :: "MuxClientStrategy \<Rightarrow> mux_state \<Rightarrow> bool" where
  "is_full st w \<longleftrightarrow>
     done_flag w \<or>
     (max_concurrency st > 0 \<and> mgr_size w \<ge> unat (max_concurrency st)) \<or>
     (max_connection st > 0 \<and> ucast (total_allocated w) \<ge> max_connection st)"

definition mux_write_frame :: "FrameMetadata \<times> u8 list option \<Rightarrow> mux_state \<Rightarrow> mux_state" where
  "mux_write_frame f w = w\<lparr>written := write_frame (written w) (fst f) (snd f)\<rparr>"

section \<open>The stream adapter of a session (io.rs)\<close>

record SessionIo =
  io_session_id :: u16
  io_rx :: nat
  io_read_buf :: "u8 list"
  io_read_pos :: nat
  io_eof :: bool
  io_shutdown :: bool

definition SessionIo_new :: "u16 \<Rightarrow> nat \<Rightarrow> SessionIo" where
  "SessionIo_new sid rx =
     \<lparr>io_session_id = sid, io_rx = rx, io_read_buf = [], io_read_pos = 0, io_eof = False, io_shutdown = False\<rparr>"

text \<open>The frames \<open>write_fn\<close> and \<open>close_fn\<close> put on the connection; client and server use the same.\<close>

definition write_fn :: "u16 \<Rightarrow> u8 list \<Rightarrow> FrameMetadata \<times> u8 list option" where
  "write_fn sid d =
     (let m = FrameMetadata_new sid Keep in (m\<lparr>option := FrameOption_set OPT_DATA (option m)\<rparr>, Some d))"

definition close_fn :: "u16 \<Rightarrow> bool \<Rightarrow> FrameMetadata \<times> u8 list option" where
  "close_fn sid err =
     (let m = FrameMetadata_new sid End_s
      in (if err then m\<lparr>option := FrameOption_set OPT_ERROR (option m)\<rparr> else m, None))"

text \<open>\<open>open_mux_stream\<close>: allocate, attach fresh channels, drop the session handle.\<close>

definition attach_fresh :: "nat \<Rightarrow> mux_state \<Rightarrow> SessionIo \<times> mux_state" where
  "attach_fresh r w =
     (let ch = \<lparr>data_tx = length (mpscs w), close_tx = length (oneshots w)\<rparr>;
          sid = s_id (heap w ! r);
          w = w\<lparr>mpscs := mpscs w @ [\<lparr>queue = [], tx_alive = True, rx_alive = True\<rparr>],
                oneshots := oneshots w @ [False]\<rparr>;
          (attached, w) = attach_channels r ch w;
          w = (if attached then w else drop_channels ch w)
      in (SessionIo_new sid (data_tx ch), drop_handle r w))"

definition open_mux_stream ::
  "MuxClientStrategy \<Rightarrow> mux_state \<Rightarrow> SessionIo option \<times> mux_state" where
  "open_mux_stream st w =
     (case open_session st w of
        (None, w) \<Rightarrow> (None, w)
      | (Some r, w) \<Rightarrow> (case attach_fresh r w of (io, w) \<Rightarrow> (Some io, w)))"

datatype poll = Ready "u8 list" | Pending

text \<open>\<open>cap\<close> is the space left in the caller's buffer.\<close>

definition poll_read :: "nat \<Rightarrow> SessionIo \<Rightarrow> mux_state \<Rightarrow> poll \<times> SessionIo \<times> mux_state" where
  "poll_read cap io w =
     (if io_read_pos io < length (io_read_buf io)
      then let remaining = drop (io_read_pos io) (io_read_buf io);
               n = min (length remaining) cap;
               pos = io_read_pos io + n;
               io' = (if pos \<ge> length (io_read_buf io) then io\<lparr>io_read_buf := [], io_read_pos := 0\<rparr>
                      else io\<lparr>io_read_pos := pos\<rparr>)
           in (Ready (take n remaining), io', w)
      else if io_eof io then (Ready [], io, w)
      else case queue (mpscs w ! io_rx io) of
             d # q \<Rightarrow>
               let n = min (length d) cap;
                   io' = (if n < length d then io\<lparr>io_read_buf := d, io_read_pos := n\<rparr> else io)
               in (Ready (take n d), io', upd_mpsc (io_rx io) (\<lambda>c. c\<lparr>queue := q\<rparr>) w)
           | [] \<Rightarrow> if tx_alive (mpscs w ! io_rx io) then (Pending, io, w)
                   else (Ready [], io\<lparr>io_eof := True\<rparr>, w))"

text \<open>
  \<open>poll_write\<close> and \<open>poll_shutdown\<close> return at once and leave the frame to a spawned task; \<open>tasks\<close>
  is the list of those not yet run.
\<close>

type_synonym mux_task = "FrameMetadata \<times> u8 list option"

datatype io_error = BrokenPipe

definition poll_write ::
  "u8 list \<Rightarrow> SessionIo \<Rightarrow> mux_task list \<Rightarrow> (io_error, nat) res \<times> mux_task list" where
  "poll_write buf io tasks =
     (if io_shutdown io then (Err BrokenPipe, tasks)
      else (Ok (length buf), tasks @ [write_fn (io_session_id io) buf]))"

definition poll_shutdown :: "SessionIo \<Rightarrow> mux_task list \<Rightarrow> SessionIo \<times> mux_task list" where
  "poll_shutdown io tasks =
     (if io_shutdown io then (io, tasks)
      else (io\<lparr>io_shutdown := True\<rparr>, tasks @ [close_fn (io_session_id io) False]))"

text \<open>The runtime runs spawned tasks in any order; each takes the writer lock for its whole frame.\<close>

inductive run_tasks :: "mux_task list \<Rightarrow> mux_state \<Rightarrow> mux_state \<Rightarrow> bool" where
  run_none: "run_tasks [] w w"
| run_some: "i < length ts \<Longrightarrow> run_tasks (take i ts @ drop (Suc i) ts) (mux_write_frame (ts ! i) w) w' \<Longrightarrow>
    run_tasks ts w w'"

section \<open>Well-formed states\<close>

definition chan_of :: "mux_state \<Rightarrow> nat \<Rightarrow> nat option" where
  "chan_of w r = (if r < length (heap w) then map_option data_tx (s_channels (heap w ! r)) else None)"

definition mgr_wf :: "mux_state \<Rightarrow> bool" where
  "mgr_wf w \<longleftrightarrow>
     distinct (map fst (table w)) \<and>
     (\<forall>(i, r) \<in> set (table w). r < length (heap w) \<and> s_id (heap w ! r) = i) \<and>
     (\<forall>r c. chan_of w r = Some c \<longrightarrow> c < length (mpscs w)) \<and>
     (\<forall>r s c. chan_of w r = Some c \<longrightarrow> chan_of w s = Some c \<longrightarrow> r = s)"

text \<open>\<open>shrinks w w'\<close>: sessions keep their identity, the table and the attached channels only lose entries.\<close>

definition shrinks :: "mux_state \<Rightarrow> mux_state \<Rightarrow> bool" where
  "shrinks w w' \<longleftrightarrow>
     length (heap w') = length (heap w) \<and> length (mpscs w') = length (mpscs w) \<and>
     map s_id (heap w') = map s_id (heap w) \<and>
     (\<forall>r. chan_of w' r = chan_of w r \<or> chan_of w' r = None) \<and>
     (distinct (map fst (table w)) \<longrightarrow> distinct (map fst (table w'))) \<and> set (table w') \<subseteq> set (table w)"

lemma shrinks_wf:
  assumes s: "shrinks w w'" and wf: "mgr_wf w"
  shows "mgr_wf w'"
proof -
  have ids: "s_id (heap w' ! r) = s_id (heap w ! r)" if "r < length (heap w)" for r
  proof -
    have l: "length (heap w') = length (heap w)" and e: "map s_id (heap w') = map s_id (heap w)"
      using s by (simp_all add: shrinks_def)
    have "s_id (heap w' ! r) = map s_id (heap w') ! r" using that l by simp
    also have "\<dots> = s_id (heap w ! r)" unfolding e using that by simp
    finally show ?thesis .
  qed
  have ch: "chan_of w r = Some c" if "chan_of w' r = Some c" for r c
    using s that unfolding shrinks_def by (metis option.distinct(1))
  have "r < length (heap w') \<and> s_id (heap w' ! r) = i" if "(i, r) \<in> set (table w')" for i r
  proof -
    have "(i, r) \<in> set (table w)" using s that by (auto simp: shrinks_def)
    then have "r < length (heap w) \<and> s_id (heap w ! r) = i" using wf by (auto simp: mgr_wf_def)
    with ids s show ?thesis by (simp add: shrinks_def)
  qed
  with s wf ch show ?thesis
    unfolding mgr_wf_def by (auto simp: shrinks_def) blast+
qed

lemma shrinks_refl [simp]: "shrinks w w"
  by (simp add: shrinks_def)

lemma shrinks_trans:
  assumes "shrinks a b" and "shrinks b c"
  shows "shrinks a c"
proof -
  have "chan_of c r = chan_of a r \<or> chan_of c r = None" for r
    using assms unfolding shrinks_def by metis
  with assms show ?thesis by (auto simp: shrinks_def)
qed

lemma chan_of_upd_session:
  "chan_of (upd_session r f w) s =
     (if s = r \<and> r < length (heap w) then map_option data_tx (s_channels (f (heap w ! r))) else chan_of w s)"
  by (simp add: chan_of_def upd_session_def)

lemma chan_of_upd_mpsc [simp]: "chan_of (upd_mpsc c f w) s = chan_of w s"
  by (simp add: chan_of_def upd_mpsc_def)

lemma shrinks_upd_session:
  assumes "\<And>s. s_id (f s) = s_id s" and "\<And>s. s_channels (f s) = s_channels s \<or> s_channels (f s) = None"
  shows "shrinks w (upd_session r f w)"
proof -
  have "map s_id (heap (upd_session r f w)) = map s_id (heap w)"
    by (cases "r < length (heap w)") (simp_all add: upd_session_def map_update assms(1) list_update_beyond
        list_update_same_conv)
  moreover have "chan_of (upd_session r f w) s = chan_of w s \<or> chan_of (upd_session r f w) s = None" for s
    using assms(2) [of "heap w ! r"] by (auto simp: chan_of_upd_session) (simp add: chan_of_def)
  ultimately show ?thesis by (simp add: shrinks_def upd_session_def)
qed

lemma shrinks_upd_mpsc [simp]: "shrinks w (upd_mpsc c f w)"
  by (simp add: shrinks_def) (simp add: upd_mpsc_def)

lemma shrinks_same_core:
  "heap w' = heap w \<Longrightarrow> table w' = table w \<Longrightarrow> mpscs w' = mpscs w \<Longrightarrow> shrinks w w'"
  by (simp add: shrinks_def chan_of_def)

lemma shrinks_release_ref [simp]: "shrinks w (release_ref r w)"
  by (auto simp: release_ref_def take_channels_def drop_channels_def split: option.splits
      intro!: shrinks_trans [OF shrinks_upd_session shrinks_upd_mpsc])

lemma shrinks_table_remove [simp]: "shrinks w (table_remove i w)"
proof -
  have "shrinks w (w\<lparr>table := AList.delete i (table w)\<rparr>)"
    by (simp add: shrinks_def chan_of_def set_AList_delete distinct_delete subset_eq)
  then show ?thesis
    by (auto simp: table_remove_def Let_def split: option.splits intro: shrinks_trans)
qed

lemma shrinks_Session_close [simp]: "shrinks w (Session_close r w)"
  unfolding Session_close_def by (rule shrinks_upd_session) simp_all

lemma shrinks_close_send [simp]: "shrinks w (close_send ch w)"
  by (rule shrinks_same_core) (simp_all add: close_send_def)

lemma shrinks_take [simp]: "shrinks w (snd (take_channels r w))"
  unfolding take_channels_def snd_conv by (rule shrinks_upd_session) simp_all

lemma shrinks_drop [simp]: "shrinks w (drop_channels ch w)"
  by (simp add: drop_channels_def)

lemma shrinks_session_end:
  "shrinks w (case take_channels r w of (None, w') \<Rightarrow> Session_close r w'
     | (Some ch, w') \<Rightarrow> Session_close r (drop_channels ch (close_send ch w')))"
proof (cases "take_channels r w")
  case (Pair o' w')
  then have w': "shrinks w w'" using shrinks_take [of w r] by simp
  show ?thesis
  proof (cases o')
    case None
    with Pair w' show ?thesis by (simp add: shrinks_trans [OF w'])
  next
    case (Some ch)
    have "shrinks w (drop_channels ch (close_send ch w'))"
      by (rule shrinks_trans [OF shrinks_trans [OF w' shrinks_close_send] shrinks_drop])
    with Pair Some show ?thesis by (simp add: shrinks_trans [OF _ shrinks_Session_close])
  qed
qed

lemma shrinks_handle_end: "shrinks w (handle_end f w)"
  unfolding handle_end_def Let_def SessionManager_remove_def
  by (rule shrinks_trans [OF _ shrinks_table_remove])
    (auto simp: shrinks_session_end split: option.split)

lemma shrinks_client_handle: "shrinks w (client_handle w f)"
  by (auto simp: client_handle_def handle_keep_def data_send_def SessionManager_remove_def
      shrinks_handle_end split: SessionStatus.splits option.splits)

lemma shrinks_client_read_loop: "shrinks w (client_read_loop w bs)"
proof (induction w bs rule: client_read_loop.induct)
  case (1 w bs)
  show ?case
  proof (cases "read_frame bs")
    case (Ok x)
    obtain f r where x: "x = (f, r)" by (cases x)
    have "shrinks (client_handle w f) (client_read_loop (client_handle w f) r)" by (rule 1 [OF Ok x [symmetric]])
    then show ?thesis
      using Ok x by (simp add: client_read_loop.simps [of w bs] shrinks_trans [OF shrinks_client_handle])
  qed (simp_all add: client_read_loop.simps [of w bs])
qed

section \<open>Delivery\<close>

definition attached :: "mux_state \<Rightarrow> u16 \<Rightarrow> nat \<Rightarrow> SessionChannels \<Rightarrow> bool" where
  "attached w sid r ch \<longleftrightarrow>
     map_of (table w) sid = Some r \<and> r < length (heap w) \<and> s_channels (heap w ! r) = Some ch"

text \<open>What an operation on another session leaves alone.\<close>

definition keeps :: "nat \<Rightarrow> SessionChannels \<Rightarrow> mux_state \<Rightarrow> mux_state \<Rightarrow> bool" where
  "keeps r ch w w' \<longleftrightarrow> s_channels (heap w' ! r) = s_channels (heap w ! r) \<and>
     length (heap w') = length (heap w) \<and> mpscs w' ! data_tx ch = mpscs w ! data_tx ch"

lemma keeps_refl [simp]: "keeps r ch w w"
  by (simp add: keeps_def)

lemma keeps_trans: "keeps r ch a b \<Longrightarrow> keeps r ch b c \<Longrightarrow> keeps r ch a c"
  by (simp add: keeps_def)

lemma keeps_upd_session: "s \<noteq> r \<Longrightarrow> keeps r ch w (upd_session s f w)"
  by (simp add: keeps_def upd_session_def)

lemma keeps_upd_mpsc: "c \<noteq> data_tx ch \<Longrightarrow> keeps r ch w (upd_mpsc c f w)"
  by (simp add: keeps_def upd_mpsc_def)

lemma keeps_same: "heap w' = heap w \<Longrightarrow> mpscs w' = mpscs w \<Longrightarrow> keeps r ch w w'"
  by (simp add: keeps_def)

lemma mgr_wf_entry: "mgr_wf w \<Longrightarrow> map_of (table w) i = Some r \<Longrightarrow> r < length (heap w) \<and> s_id (heap w ! r) = i"
  by (auto simp: mgr_wf_def dest!: map_of_SomeD)

lemma other_session:
  "mgr_wf w \<Longrightarrow> attached w sid r ch \<Longrightarrow> map_of (table w) i = Some s \<Longrightarrow> i \<noteq> sid \<Longrightarrow>
   s < length (heap w) \<and> s \<noteq> r"
  using mgr_wf_entry [of w i s] mgr_wf_entry [of w sid r] by (auto simp: attached_def)

lemma other_channel:
  assumes "mgr_wf w" and "attached w sid r ch" and "s \<noteq> r" and "s < length (heap w)"
    and "s_channels (heap w ! s) = Some c"
  shows "data_tx c \<noteq> data_tx ch"
proof
  assume "data_tx c = data_tx ch"
  then have "chan_of w s = Some (data_tx ch)" "chan_of w r = Some (data_tx ch)"
    using assms by (simp_all add: chan_of_def attached_def)
  with assms(1,3) show False by (auto simp: mgr_wf_def)
qed

lemma keeps_session_end:
  assumes "mgr_wf w" and "attached w sid r ch" and "s \<noteq> r" and "s < length (heap w)"
  shows "keeps r ch w (case take_channels s w of (None, w') \<Rightarrow> Session_close s w'
     | (Some c, w') \<Rightarrow> Session_close s (drop_channels c (close_send c w')))"
proof (cases "s_channels (heap w ! s)")
  case None
  with assms(3) show ?thesis
    by (simp add: take_channels_def Session_close_def keeps_trans [OF keeps_upd_session keeps_upd_session])
next
  case (Some c)
  with assms have "data_tx c \<noteq> data_tx ch" by (intro other_channel)
  with Some assms(3) show ?thesis
    by (simp add: take_channels_def Session_close_def drop_channels_def close_send_def keeps_def
        upd_session_def upd_mpsc_def)
qed

lemma keeps_table_remove:
  assumes wf: "mgr_wf w" and att: "attached w sid r ch" and "i \<noteq> sid"
  shows "keeps r ch w (table_remove i w) \<and> map_of (table (table_remove i w)) sid = Some r"
proof (cases "map_of (table w) i")
  case None
  with assms show ?thesis
    by (simp add: table_remove_def keeps_same attached_def AList.delete_conv')
next
  case (Some s)
  let ?w = "w\<lparr>table := AList.delete i (table w)\<rparr>"
  from other_session [OF wf att Some \<open>i \<noteq> sid\<close>] have s: "s < length (heap w)" "s \<noteq> r" by auto
  have "keeps r ch ?w (release_ref s ?w) \<and> table (release_ref s ?w) = table ?w"
  proof (cases "s_channels (heap w ! s)")
    case None
    then show ?thesis by (simp add: release_ref_def take_channels_def)
  next
    case (Some c)
    with s wf att have "data_tx c \<noteq> data_tx ch" by (intro other_channel)
    with Some s show ?thesis
      by (auto simp: release_ref_def take_channels_def drop_channels_def keeps_def upd_session_def
          upd_mpsc_def)
  qed
  then show ?thesis
    using Some \<open>i \<noteq> sid\<close> att
    by (auto simp: table_remove_def Let_def keeps_def attached_def AList.delete_conv')
qed

lemma client_handle_other:
  assumes wf: "mgr_wf w" and att: "attached w sid r ch" and ne: "session_id (fst f) \<noteq> sid"
  shows "attached (client_handle w f) sid r ch \<and>
    mpscs (client_handle w f) ! data_tx ch = mpscs w ! data_tx ch"
proof -
  let ?i = "session_id (fst f)"
  have gets: "s < length (heap w) \<and> s \<noteq> r" if "map_of (table w) ?i = Some s" for s
    by (rule other_session [OF wf att that ne])
  have keep: "keeps r ch w (handle_keep f w) \<and> table (handle_keep f w) = table w"
    using gets other_channel [OF wf att]
    by (auto simp: handle_keep_def SessionManager_get_def data_send_def upd_mpsc_def keeps_def
        split: option.splits)
  have fin: "keeps r ch w (handle_end f w) \<and> map_of (table (handle_end f w)) sid = Some r"
  proof (cases "map_of (table w) ?i")
    case None
    then show ?thesis
      using keeps_table_remove [OF wf att ne]
      by (simp add: handle_end_def SessionManager_get_def SessionManager_remove_def)
  next
    case (Some s)
    let ?w = "case take_channels s w of (None, w') \<Rightarrow> Session_close s w'
      | (Some c, w') \<Rightarrow> Session_close s (drop_channels c (close_send c w'))"
    have k: "keeps r ch w ?w" using gets [OF Some] by (intro keeps_session_end [OF wf att]) auto
    have wf': "mgr_wf ?w" by (rule shrinks_wf [OF shrinks_session_end wf])
    have t: "table ?w = table w"
      by (auto simp: take_channels_def Session_close_def drop_channels_def close_send_def
          upd_session_def upd_mpsc_def split: option.splits)
    have "attached ?w sid r ch" using k t att by (auto simp: attached_def keeps_def)
    from keeps_table_remove [OF wf' this ne] k
    have "keeps r ch w (table_remove ?i ?w) \<and> map_of (table (table_remove ?i ?w)) sid = Some r"
      by (auto intro: keeps_trans)
    with Some show ?thesis
      by (simp add: handle_end_def SessionManager_get_def SessionManager_remove_def)
  qed
  show ?thesis
    using keep fin keeps_table_remove [OF wf att ne] att
    by (cases "status (fst f)")
      (auto simp: client_handle_def SessionManager_remove_def attached_def keeps_def)
qed

definition delivered :: "u16 \<Rightarrow> (FrameMetadata \<times> u8 list option) list \<Rightarrow> u8 list list" where
  "delivered sid fs =
     concat (map (\<lambda>f. if session_id (fst f) = sid \<and> status (fst f) = Keep
                      then (case snd f of Some d \<Rightarrow> [d] | None \<Rightarrow> []) else []) fs)"

text \<open>A frame that leaves session \<open>sid\<close> open.\<close>

definition keeps_open :: "u16 \<Rightarrow> FrameMetadata \<times> u8 list option \<Rightarrow> bool" where
  "keeps_open sid f \<longleftrightarrow> session_id (fst f) \<noteq> sid \<or> status (fst f) = Keep \<or> status (fst f) = KeepAlive"

lemma client_handle_delivers:
  assumes wf: "mgr_wf w" and att: "attached w sid r ch" and rx: "rx_alive (mpscs w ! data_tx ch)"
    and f: "keeps_open sid f"
  shows "attached (client_handle w f) sid r ch \<and>
    mpscs (client_handle w f) ! data_tx ch =
      (mpscs w ! data_tx ch)\<lparr>queue := queue (mpscs w ! data_tx ch) @ delivered sid [f]\<rparr>"
proof (cases "session_id (fst f) = sid")
  case False
  then show ?thesis using client_handle_other [OF wf att False] by (simp add: delivered_def)
next
  case True
  have "chan_of w r = Some (data_tx ch)" using att by (simp add: chan_of_def attached_def)
  then have "data_tx ch < length (mpscs w)" using wf by (auto simp: mgr_wf_def)
  with True f att rx show ?thesis
    by (auto simp: keeps_open_def client_handle_def handle_keep_def SessionManager_get_def attached_def
        data_send_def upd_mpsc_def delivered_def split: option.splits)
qed

lemma fold_client_delivers:
  assumes "mgr_wf w" and "attached w sid r ch" and "rx_alive (mpscs w ! data_tx ch)"
    and "\<forall>f \<in> set fs. keeps_open sid f"
  shows "let w' = foldl client_handle w fs in mgr_wf w' \<and> attached w' sid r ch \<and>
    mpscs w' ! data_tx ch =
      (mpscs w ! data_tx ch)\<lparr>queue := queue (mpscs w ! data_tx ch) @ delivered sid fs\<rparr>"
  using assms
proof (induction fs arbitrary: w)
  case Nil
  then show ?case by (simp add: delivered_def)
next
  case (Cons f fs)
  have d: "delivered sid (f # fs) = delivered sid [f] @ delivered sid fs" by (simp add: delivered_def)
  from client_handle_delivers [OF Cons.prems(1-3)] Cons.prems(4)
  have h: "attached (client_handle w f) sid r ch"
    "mpscs (client_handle w f) ! data_tx ch =
      (mpscs w ! data_tx ch)\<lparr>queue := queue (mpscs w ! data_tx ch) @ delivered sid [f]\<rparr>" by simp_all
  have "mgr_wf (client_handle w f)" by (rule shrinks_wf [OF shrinks_client_handle Cons.prems(1)])
  from Cons.IH [OF this h(1)] Cons.prems h(2) show ?case by (simp add: Let_def d)
qed

lemma client_read_loop_fold:
  "\<forall>f \<in> set fs. frame_ok f \<Longrightarrow>
   client_read_loop w (concat (map (\<lambda>f. encode_frame (fst f) (snd f)) fs)) = foldl client_handle w fs"
  by (rule mux.loop_folds [OF client_read_loop.simps])

lemma server_read_loop_fold:
  "\<forall>f \<in> set fs. frame_ok f \<Longrightarrow>
   server_read_loop w (concat (map (\<lambda>f. encode_frame (fst f) (snd f)) fs)) = foldl server_handle w fs"
  by (rule mux.loop_folds [OF server_read_loop.simps])

lemma client_handle_end_own:
  assumes wf: "mgr_wf w" and att: "attached w sid r ch"
    and f: "session_id (fst f) = sid" "status (fst f) = End_s"
  shows "let w' = client_handle w f in
    mpscs w' ! data_tx ch = (mpscs w ! data_tx ch)\<lparr>tx_alive := False\<rparr> \<and>
    map_of (table w') sid = None \<and> s_closed (heap w' ! r)"
proof -
  have "chan_of w r = Some (data_tx ch)" using att by (simp add: chan_of_def attached_def)
  then have "data_tx ch < length (mpscs w)" using wf by (auto simp: mgr_wf_def)
  with f att show ?thesis
    by (auto simp: client_handle_def handle_end_def SessionManager_get_def SessionManager_remove_def
        attached_def take_channels_def Session_close_def drop_channels_def close_send_def
        upd_session_def upd_mpsc_def table_remove_def release_ref_def AList.delete_conv' Let_def)
qed

lemma client_read_loop_delivers_spec:
  assumes wf: "mgr_wf w" and att: "attached w sid r ch" and rx: "rx_alive (mpscs w ! data_tx ch)"
    and fs: "\<forall>f \<in> set fs. frame_ok f \<and> keeps_open sid f"
  shows "let w' = client_read_loop w (concat (map (\<lambda>f. encode_frame (fst f) (snd f)) (fs @ [end_frame sid err]))) in
    mpscs w' ! data_tx ch = (mpscs w ! data_tx ch)
      \<lparr>queue := queue (mpscs w ! data_tx ch) @ delivered sid fs, tx_alive := False\<rparr> \<and>
    map_of (table w') sid = None \<and> s_closed (heap w' ! r)"
proof -
  let ?v = "foldl client_handle w fs"
  have "client_read_loop w (concat (map (\<lambda>f. encode_frame (fst f) (snd f)) (fs @ [end_frame sid err])))
    = client_handle ?v (end_frame sid err)"
    using fs by (subst client_read_loop_fold) (auto simp: end_frame_ok)
  moreover have "mgr_wf ?v \<and> attached ?v sid r ch \<and> mpscs ?v ! data_tx ch =
      (mpscs w ! data_tx ch)\<lparr>queue := queue (mpscs w ! data_tx ch) @ delivered sid fs\<rparr>"
    using fold_client_delivers [OF wf att rx, of fs] fs by (simp add: Let_def)
  ultimately show ?thesis
    using client_handle_end_own [of ?v sid r ch "end_frame sid err"]
    by (simp add: Let_def end_frame_def FrameMetadata_new_def)
qed

definition opened :: mux_state where
  "opened = snd (open_mux_stream MuxClientStrategy_default
     (snd (open_mux_stream MuxClientStrategy_default SessionManager_new)))"

lemma opened_simps:
  "heap opened = [(Session_new 1)\<lparr>s_channels := Some \<lparr>data_tx = 0, close_tx = 0\<rparr>\<rparr>,
                  (Session_new 2)\<lparr>s_channels := Some \<lparr>data_tx = 1, close_tx = 1\<rparr>\<rparr>]"
  "table opened = [(1, 0), (2, 1)]"
  "mpscs opened = [\<lparr>queue = [], tx_alive = True, rx_alive = True\<rparr>,
                   \<lparr>queue = [], tx_alive = True, rx_alive = True\<rparr>]"
  by (simp_all add: opened_def open_mux_stream_def open_session_def allocate_def allocate_locked_def
      SessionManager_new_def MuxClientStrategy_default_def mgr_size_def new_session_def table_insert_def
      attach_fresh_def attach_channels_def upd_session_def drop_handle_def release_ref_def
      Session_new_def SessionIo_new_def Let_def)

lemma opened_wf: "mgr_wf opened" and opened_attached:
  "attached opened 2 1 \<lparr>data_tx = 1, close_tx = 1\<rparr>"
  by (auto simp: mgr_wf_def attached_def chan_of_def opened_simps Session_new_def less_Suc_eq
      split: if_splits)

text \<open>C11. Demultiplexing: when the client reads a stream of frames for any sessions, the consumer of an
  open session receives exactly the payloads of that session's \<open>Keep\<close> frames, in order, and at
  its \<open>End\<close> frame the session is closed, leaves the table and its channel is disconnected.\<close>
theorem client_read_loop_delivers:
  assumes "mgr_wf w" and "attached w sid r ch" and "rx_alive (mpscs w ! data_tx ch)"
    and "\<forall>f \<in> set fs. frame_ok f \<and> keeps_open sid f"
  shows "let w' = client_read_loop w (concat (map (\<lambda>f. encode_frame (fst f) (snd f)) (fs @ [end_frame sid err]))) in
    queue (mpscs w' ! data_tx ch) = queue (mpscs w ! data_tx ch) @ delivered sid fs \<and>
    \<not> tx_alive (mpscs w' ! data_tx ch) \<and> map_of (table w') sid = None \<and> s_closed (heap w' ! r)"
  using client_read_loop_delivers_spec [OF assms] by (simp add: Let_def)

theorem client_read_loop_delivers_witness:
  "queue (mpscs (client_read_loop opened (concat (map (\<lambda>f. encode_frame (fst f) (snd f))
     ([keep_frame 1 [7], keep_frame 2 [8, 9], end_frame 1 True, keep_frame 2 [5]] @ [end_frame 2 False])))) ! 1)
   = [[8, 9], [5]]"
proof -
  let ?fs = "[keep_frame 1 [7], keep_frame 2 [8, 9], end_frame 1 True, keep_frame 2 [5]]"
  have "\<forall>f \<in> set ?fs. frame_ok f \<and> keeps_open 2 f"
    by (simp add: keep_frame_ok end_frame_ok) (simp add: keeps_open_def keep_frame_def end_frame_def
        FrameMetadata_new_def)
  from client_read_loop_delivers [OF opened_wf opened_attached _ this, of False]
  show ?thesis
    by (simp add: Let_def opened_simps delivered_def keep_frame_def end_frame_def FrameMetadata_new_def)
qed

section \<open>Reading through the adapter\<close>

definition io_content :: "SessionIo \<Rightarrow> mux_state \<Rightarrow> u8 list" where
  "io_content io w = drop (io_read_pos io) (io_read_buf io) @ concat (queue (mpscs w ! io_rx io))"

text \<open>A consumer that polls until a read returns nothing, as \<^verbatim>\<open>read_to_end\<close> does.\<close>

primrec drain :: "nat \<Rightarrow> nat \<Rightarrow> SessionIo \<Rightarrow> mux_state \<Rightarrow> u8 list option" where
  "drain 0 cap io w = None"
| "drain (Suc k) cap io w =
     (case poll_read cap io w of
        (Ready bs, io', w') \<Rightarrow> if bs = [] then Some [] else map_option (append bs) (drain k cap io' w')
      | (Pending, _) \<Rightarrow> None)"

lemma take_drop_rest: "take n (drop p b) @ drop (p + n) b = drop p b"
  using append_take_drop_id [of n "drop p b"] by (simp add: add.commute)

lemma poll_read_content:
  assumes "io_rx io < length (mpscs w)" and "poll_read cap io w = (Ready bs, io', w')"
  shows "bs @ io_content io' w' = io_content io w \<and> length bs \<le> cap \<and> io_rx io' = io_rx io \<and>
    length (mpscs w') = length (mpscs w) \<and>
    tx_alive (mpscs w' ! io_rx io) = tx_alive (mpscs w ! io_rx io) \<and>
    set (queue (mpscs w' ! io_rx io)) \<subseteq> set (queue (mpscs w ! io_rx io))"
proof (cases "io_read_pos io < length (io_read_buf io)")
  case True
  with assms show ?thesis
    by (auto simp: poll_read_def Let_def io_content_def min_def take_drop_rest split: if_splits)
next
  case False
  with assms show ?thesis
    by (auto simp: poll_read_def Let_def io_content_def upd_mpsc_def min_def split: if_splits list.splits)
qed

lemma poll_read_progress:
  assumes "0 < cap" and "io_content io w \<noteq> []" and "[] \<notin> set (queue (mpscs w ! io_rx io))" and "\<not> io_eof io"
  shows "\<exists>bs io' w'. poll_read cap io w = (Ready bs, io', w') \<and> bs \<noteq> [] \<and> \<not> io_eof io'"
proof (cases "io_read_pos io < length (io_read_buf io)")
  case True
  with assms show ?thesis by (auto simp: poll_read_def Let_def)
next
  case False
  with assms(2) obtain d q where "queue (mpscs w ! io_rx io) = d # q"
    by (cases "queue (mpscs w ! io_rx io)") (auto simp: io_content_def)
  with False assms show ?thesis by (auto simp: poll_read_def Let_def)
qed

lemma poll_read_end:
  assumes "io_content io w = []" and "\<not> tx_alive (mpscs w ! io_rx io)" and "[] \<notin> set (queue (mpscs w ! io_rx io))"
  shows "\<exists>io'. poll_read cap io w = (Ready [], io', w)"
  using assms by (cases "queue (mpscs w ! io_rx io)") (auto simp: poll_read_def io_content_def)

lemma drain_all:
  assumes "0 < cap" and "io_rx io < length (mpscs w)" and "\<not> io_eof io"
    and "\<not> tx_alive (mpscs w ! io_rx io)" and "[] \<notin> set (queue (mpscs w ! io_rx io))"
    and "length (io_content io w) < k"
  shows "drain k cap io w = Some (io_content io w)"
  using assms
proof (induction k arbitrary: io w)
  case (Suc k)
  show ?case
  proof (cases "io_content io w = []")
    case True
    with poll_read_end [OF True Suc.prems(4,5), of cap] show ?thesis by auto
  next
    case False
    from poll_read_progress [OF Suc.prems(1) False Suc.prems(5,3)]
    obtain bs io' w' where p: "poll_read cap io w = (Ready bs, io', w')" "bs \<noteq> []" "\<not> io_eof io'" by blast
    from poll_read_content [OF Suc.prems(2) p(1)]
    have c: "bs @ io_content io' w' = io_content io w" "io_rx io' = io_rx io"
      "length (mpscs w') = length (mpscs w)" "\<not> tx_alive (mpscs w' ! io_rx io)"
      "[] \<notin> set (queue (mpscs w' ! io_rx io))" using Suc.prems(4,5) by auto
    have "length bs + length (io_content io' w') < Suc k" using Suc.prems(6) c(1) by (metis length_append)
    with p(2) have "length (io_content io' w') < k" by (cases bs) auto
    with Suc.IH [of io' w'] Suc.prems p c show ?thesis by simp
  qed
qed simp



text \<open>An empty data frame looks like end of file: with an empty chunk in front of the queue a read
  returns no bytes although the session is open and more data is queued, so a consumer that reads
  to the end stops there and loses what follows.\<close>
theorem empty_chunk_reads_as_eof:
  assumes "queue (mpscs w ! io_rx io) = [] # q" and "io_read_buf io = []" and "\<not> io_eof io"
  shows "drain (Suc k) cap io w = Some [] \<and> io_content io w = concat q"
  using assms by (simp add: poll_read_def Let_def io_content_def)

theorem empty_chunk_reads_as_eof_witness:
  "drain (Suc 5) 10 (SessionIo_new 2 1) (handle_keep (keep_frame 2 [4]) (handle_keep (keep_frame 2 []) opened))
     = Some [] \<and>
   io_content (SessionIo_new 2 1) (handle_keep (keep_frame 2 [4]) (handle_keep (keep_frame 2 []) opened))
     = concat [[4]]"
  by (rule empty_chunk_reads_as_eof)
    (simp_all add: handle_keep_def keep_frame_def FrameMetadata_new_def SessionManager_get_def opened_simps
      Session_new_def data_send_def upd_mpsc_def SessionIo_new_def)

section \<open>The manager under interleaving\<close>

datatype mgr_pc = Idle | Alloc_checked | Attaching nat | Close_swapped

type_synonym client_conf = "mux_state \<times> (nat \<Rightarrow> mgr_pc)"

text \<open>
  Any number of tasks call \<open>open_mux_stream\<close> and \<open>close\<close> while the read loop handles frames and the
  monitor ticks. Each rule is one section between two points where another task can run.
\<close>

inductive client_step :: "MuxClientStrategy \<Rightarrow> client_conf \<Rightarrow> client_conf \<Rightarrow> bool" for st where
  alloc_check: "p t = Idle \<Longrightarrow> \<not> mgr_closed w \<Longrightarrow> client_step st (w, p) (w, p(t := Alloc_checked))"
| alloc_full: "p t = Alloc_checked \<Longrightarrow> allocate_locked st w = (None, w') \<Longrightarrow>
    client_step st (w, p) (w', p(t := Idle))"
| alloc_ok: "p t = Alloc_checked \<Longrightarrow> allocate_locked st w = (Some r, w') \<Longrightarrow>
    client_step st (w, p) (w', p(t := Attaching r))"
| attach: "p t = Attaching r \<Longrightarrow> attach_fresh r w = (io, w') \<Longrightarrow> client_step st (w, p) (w', p(t := Idle))"
| frame: "client_step st (w, p) (client_handle w f, p)"
| close_begin: "p t = Idle \<Longrightarrow> close_swap w = (was, w') \<Longrightarrow>
    client_step st (w, p) (w', p(t := (if was then Idle else Close_swapped)))"
| close_finish: "p t = Close_swapped \<Longrightarrow> client_step st (w, p) (close_locked w, p(t := Idle))"
| idle_close: "client_step st (w, p) (snd (close_if_no_session_and_idle n c w), p)"
| reader_done: "client_step st (w, p) (w\<lparr>done_flag := True\<rparr>, p)"

definition client_init :: "client_conf \<Rightarrow> bool" where
  "client_init c \<longleftrightarrow> c = (SessionManager_new, \<lambda>_. Idle)"

definition client_inv :: "MuxClientStrategy \<Rightarrow> client_conf \<Rightarrow> bool" where
  "client_inv st c \<longleftrightarrow>
     mgr_wf (fst c) \<and>
     (0 < max_concurrency st \<longrightarrow> length (table (fst c)) \<le> unat (max_concurrency st)) \<and>
     (\<forall>t r. snd c t = Attaching r \<longrightarrow> r < length (heap (fst c)))"

lemma shrinks_table_length: "shrinks w w' \<Longrightarrow> mgr_wf w \<Longrightarrow> length (table w') \<le> length (table w)"
proof -
  assume s: "shrinks w w'" and wf: "mgr_wf w"
  then have d: "distinct (table w')" "distinct (table w)"
    using shrinks_wf [OF s wf] by (auto simp: mgr_wf_def distinct_map)
  have "card (set (table w')) \<le> card (set (table w))"
    using s by (auto simp: shrinks_def intro: card_mono)
  with d show ?thesis by (simp add: distinct_card)
qed

lemma shrinks_inv:
  "shrinks w w' \<Longrightarrow> client_inv st (w, p) \<Longrightarrow> (\<And>t r. p' t = Attaching r \<Longrightarrow> p t = Attaching r) \<Longrightarrow>
   client_inv st (w', p')"
  using shrinks_table_length [of w w'] shrinks_wf [of w w']
  by (auto simp: client_inv_def) (auto simp: shrinks_def)

lemma wf_new_session: "mgr_wf w \<Longrightarrow> mgr_wf (snd (new_session i w))"
proof -
  assume wf: "mgr_wf w"
  have ch: "chan_of (snd (new_session i w)) r = chan_of w r" for r
    by (auto simp: new_session_def chan_of_def nth_append Session_new_def)
  show ?thesis
    using wf unfolding mgr_wf_def ch by (auto simp: new_session_def nth_append)
qed

lemma wf_table_insert:
  assumes wf: "mgr_wf w" and r: "r < length (heap w)" "s_id (heap w ! r) = i"
  shows "mgr_wf (table_insert i r w) \<and> length (heap (table_insert i r w)) = length (heap w) \<and>
    length (table (table_insert i r w)) \<le> Suc (length (table w))"
proof -
  let ?w = "w\<lparr>table := AList.update i r (table w)\<rparr>"
  have ch: "chan_of ?w s = chan_of w s" for s by (simp add: chan_of_def)
  have "distinct (map fst (table ?w))" using wf by (simp add: mgr_wf_def distinct_update)
  moreover have "\<forall>(i, r) \<in> set (table ?w). r < length (heap ?w) \<and> s_id (heap ?w ! r) = i"
    using wf r set_AList_update [of i r "table w"] by (auto simp: mgr_wf_def)
  ultimately have w: "mgr_wf ?w" using wf unfolding mgr_wf_def ch by simp
  have "length (map fst (AList.update i r (table w))) \<le> Suc (length (table w))"
    by (simp only: update_keys) simp
  then have l: "length (table ?w) \<le> Suc (length (table w))" by simp
  have "table_insert i r w = ?w \<or> (\<exists>o'. table_insert i r w = release_ref o' ?w)"
    by (auto simp: table_insert_def Let_def split: option.splits)
  then show ?thesis
  proof (elim disjE exE)
    fix o' assume e: "table_insert i r w = release_ref o' ?w"
    have s: "shrinks ?w (release_ref o' ?w)" by simp
    from shrinks_wf [OF s w] shrinks_table_length [OF s w] s l show ?thesis
      unfolding e by (auto simp: shrinks_def)
  qed (use w l in simp)
qed

lemma wf_allocate_locked:
  assumes "mgr_wf w" and "allocate_locked st w = (o', w')"
  shows "mgr_wf w' \<and> length (heap w) \<le> length (heap w') \<and>
    (\<forall>r. o' = Some r \<longrightarrow> r < length (heap w')) \<and>
    (0 < max_concurrency st \<longrightarrow> length (table w) \<le> unat (max_concurrency st) \<longrightarrow>
      length (table w') \<le> unat (max_concurrency st))"
proof (cases o')
  case None
  with assms show ?thesis by (auto simp: allocate_locked_def Let_def split_beta split: if_splits)
next
  case (Some r)
  let ?i = "next_id w + 1"
  let ?v = "snd (new_session ?i (w\<lparr>next_id := ?i\<rparr>))"
  have v: "mgr_wf ?v"
  proof (rule wf_new_session)
    have "chan_of (w\<lparr>next_id := ?i\<rparr>) r = chan_of w r" for r by (simp add: chan_of_def)
    then show "mgr_wf (w\<lparr>next_id := ?i\<rparr>)" using assms(1) by (simp add: mgr_wf_def)
  qed
  from assms(2) Some have w': "w' = table_insert ?i r ?v" and r: "r = length (heap w)"
    and g: "0 < max_concurrency st \<longrightarrow> length (table w) < unat (max_concurrency st)"
    by (auto simp: allocate_locked_def new_session_def Let_def mgr_size_def unat_gt_0 word_gt_0 split: if_splits)
  have "r < length (heap ?v)" "s_id (heap ?v ! r) = ?i" "length (table ?v) = length (table w)"
    "length (heap ?v) = Suc (length (heap w))"
    by (simp_all add: r new_session_def Session_new_def)
  with wf_table_insert [OF v, of r ?i] w' g Some show ?thesis by auto
qed

lemma drop_handle_shrinks: "shrinks w (drop_handle r w)"
  unfolding drop_handle_def
  by (rule shrinks_trans [OF shrinks_same_core shrinks_release_ref]) simp_all

lemma wf_attach_fresh:
  assumes wf: "mgr_wf w" and r: "r < length (heap w)" and e: "attach_fresh r w = (io, w')"
  shows "mgr_wf w' \<and> length (heap w') = length (heap w) \<and> length (table w') \<le> length (table w)"
proof -
  let ?c = "length (mpscs w)"
  let ?ch = "\<lparr>data_tx = ?c, close_tx = length (oneshots w)\<rparr>"
  let ?v = "w\<lparr>mpscs := mpscs w @ [\<lparr>queue = [], tx_alive = True, rx_alive = True\<rparr>],
    oneshots := oneshots w @ [False]\<rparr>"
  have chv: "chan_of ?v s = chan_of w s" for s by (simp add: chan_of_def)
  have v: "mgr_wf ?v" using wf unfolding mgr_wf_def chv by (auto simp: less_Suc_eq)
  obtain u where u: "mgr_wf u" "length (heap u) = length (heap w)" "table u = table w"
    and w': "w' = drop_handle r u"
  proof (cases "s_channels (heap w ! r)")
    case None
    let ?u = "upd_session r (\<lambda>s. s\<lparr>s_channels := Some ?ch\<rparr>) ?v"
    have ch: "chan_of ?u s = (if s = r then Some ?c else chan_of w s)" for s
      using r by (simp add: chan_of_upd_session chv)
    have less: "c < ?c" if "chan_of w s = Some c" for s c using wf that by (auto simp: mgr_wf_def)
    have ids: "s_id (heap ?u ! s) = s_id (heap w ! s)" if "s < length (heap w)" for s
      using r that by (auto simp: upd_session_def nth_list_update)
    have t: "table ?u = table w" "length (heap ?u) = length (heap w)" "length (mpscs ?u) = Suc ?c"
      by (simp_all add: upd_session_def)
    have "\<forall>(i, s) \<in> set (table ?u). s < length (heap ?u) \<and> s_id (heap ?u ! s) = i"
      using wf ids unfolding t by (fastforce simp: mgr_wf_def)
    moreover have "\<forall>s c. chan_of ?u s = Some c \<longrightarrow> c < length (mpscs ?u)"
      unfolding ch t by (auto dest: less split: if_splits)
    moreover have "\<forall>s s' c. chan_of ?u s = Some c \<longrightarrow> chan_of ?u s' = Some c \<longrightarrow> s = s'"
      using wf unfolding ch by (auto simp: mgr_wf_def dest: less split: if_splits)
    ultimately have "mgr_wf ?u" using wf by (simp add: mgr_wf_def t)
    moreover have "w' = drop_handle r ?u"
      using e None by (simp add: attach_fresh_def attach_channels_def Let_def split: prod.splits)
    ultimately show ?thesis by (intro that) (simp_all add: upd_session_def)
  next
    case (Some c)
    have "mgr_wf (drop_channels ?ch ?v)" by (rule shrinks_wf [OF shrinks_drop v])
    moreover have "w' = drop_handle r (drop_channels ?ch ?v)"
      using e Some by (simp add: attach_fresh_def attach_channels_def Let_def split: prod.splits)
    ultimately show ?thesis by (intro that) (simp_all add: drop_channels_def upd_mpsc_def)
  qed
  from shrinks_wf [OF drop_handle_shrinks u(1)] shrinks_table_length [OF drop_handle_shrinks u(1)]
    drop_handle_shrinks [of u r] u(2,3) show ?thesis
    unfolding w' by (auto simp: shrinks_def)
qed

lemma shrinks_close_locked: "shrinks w (close_locked w)"
proof -
  have "shrinks w (foldl (\<lambda>w p. Session_close (snd p) w) w ps)" for ps
    by (induction ps arbitrary: w) (auto intro: shrinks_trans [OF shrinks_Session_close])
  then show ?thesis by (simp add: close_locked_def)
qed

lemma client_inv_step:
  assumes inv: "client_inv st c" and step: "client_step st c c'"
  shows "client_inv st c'"
  using step
proof cases
  case (alloc_full p t w w')
  with inv wf_allocate_locked [of w st None w'] show ?thesis by (auto simp: client_inv_def dest: less_le_trans)
next
  case (alloc_ok p t w r w')
  with inv wf_allocate_locked [of w st "Some r" w'] show ?thesis
    by (auto simp: client_inv_def dest: less_le_trans)
next
  case (attach p t r w io w')
  with inv have "mgr_wf w" "r < length (heap w)" by (auto simp: client_inv_def)
  from wf_attach_fresh [OF this attach(4)] attach inv show ?thesis by (auto simp: client_inv_def)
next
  case (frame w p f)
  with inv show ?thesis by (auto intro: shrinks_inv [OF shrinks_client_handle])
next
  case (close_begin p t w was w')
  then have "shrinks w w'" by (auto simp: close_swap_def intro: shrinks_same_core)
  moreover have "client_inv st (w, p)" using inv close_begin by simp
  ultimately have "client_inv st (w', p(t := if was then Idle else Close_swapped))"
    by (rule shrinks_inv) (auto split: if_splits)
  with close_begin show ?thesis by simp
next
  case (close_finish p t w)
  then have "client_inv st (w, p)" using inv by simp
  then have "client_inv st (close_locked w, p(t := Idle))"
    by (rule shrinks_inv [OF shrinks_close_locked]) (auto split: if_splits)
  with close_finish show ?thesis by simp
next
  case (idle_close w p n c)
  have "shrinks w (snd (close_if_no_session_and_idle n c w))"
    by (auto simp: close_if_no_session_and_idle_def intro: shrinks_same_core)
  from shrinks_inv [OF this] inv idle_close show ?thesis by auto
next
  case (reader_done w p)
  have "shrinks w (w\<lparr>done_flag := True\<rparr>)" by (auto intro: shrinks_same_core)
  from shrinks_inv [OF this] inv reader_done show ?thesis by auto
qed (use inv in \<open>auto simp: client_inv_def\<close>)

interpretation client_sys: inv_system client_init "client_step st" "client_inv st" for st
proof
  show "client_init s \<Longrightarrow> client_inv st s" for s
    by (auto simp: client_init_def client_inv_def mgr_wf_def SessionManager_new_def chan_of_def)
qed (rule client_inv_step)

text \<open>C12. Whatever the interleaving of opening, closing, frames and monitor ticks, the session table has
  at most one entry per id, every entry is a session with that id, no two sessions share a data
  channel, and a non-zero concurrency limit is never exceeded.\<close>
theorem session_table_invariant:
  assumes "reach client_init (client_step st) (w, p)"
  shows "mgr_wf w \<and> (max_concurrency st = 0 \<or> length (table w) \<le> unat (max_concurrency st))"
  using client_sys.inv_reach [OF assms] by (auto simp: client_inv_def word_gt_0)

lemma opened_reached: "reach client_init (client_step MuxClientStrategy_default)
    (snd (open_mux_stream MuxClientStrategy_default SessionManager_new), \<lambda>_. Idle)"
proof -
  let ?st = MuxClientStrategy_default
  obtain w where a: "allocate_locked ?st SessionManager_new = (Some 0, w)"
    by (simp add: allocate_locked_def SessionManager_new_def MuxClientStrategy_default_def mgr_size_def
        new_session_def Let_def)
  have c: "\<not> mgr_closed SessionManager_new" by (simp add: SessionManager_new_def)
  have "reach client_init (client_step ?st) (SessionManager_new, \<lambda>_. Idle)"
    by (rule reach_init) (simp add: client_init_def)
  then have "reach client_init (client_step ?st) (SessionManager_new, (\<lambda>_. Idle)(0 := Alloc_checked))"
    by (rule reach_step) (rule alloc_check, simp_all add: c)
  then have "reach client_init (client_step ?st) (w, ((\<lambda>_. Idle)(0 := Alloc_checked))(0 := Attaching 0))"
    by (rule reach_step) (rule alloc_ok [OF _ a], simp)
  then have "reach client_init (client_step ?st) (snd (attach_fresh 0 w),
      (((\<lambda>_. Idle)(0 := Alloc_checked))(0 := Attaching 0))(0 := Idle))"
    by (rule reach_step) (rule attach, simp, rule prod.collapse [symmetric])
  moreover have "snd (open_mux_stream ?st SessionManager_new) = snd (attach_fresh 0 w)"
    using a c by (simp add: open_mux_stream_def open_session_def allocate_def split: prod.splits)
  moreover have "(((\<lambda>_. Idle)(0 := Alloc_checked))(0 := Attaching 0))(0 := Idle) = (\<lambda>_::nat. Idle)" by auto
  ultimately show ?thesis by simp
qed

theorem session_table_invariant_witness:
  "mgr_wf (snd (open_mux_stream MuxClientStrategy_default SessionManager_new)) \<and>
   (max_concurrency MuxClientStrategy_default = 0 \<or>
    length (table (snd (open_mux_stream MuxClientStrategy_default SessionManager_new)))
      \<le> unat (max_concurrency MuxClientStrategy_default))"
  by (rule session_table_invariant [OF opened_reached])

text \<open>Without a race, \<open>close\<close> seals the manager.\<close>

lemma close_locked_closes:
  assumes "mgr_wf w" and "(i, r) \<in> set (table w)"
  shows "s_closed (heap (close_locked w) ! r)"
proof -
  have keep: "s_closed (heap (foldl (\<lambda>w p. Session_close (snd p) w) v ps) ! r)"
    if "s_closed (heap v ! r)" for v ps
    using that
  proof (induction ps arbitrary: v)
    case (Cons p ps)
    have "s_closed (heap (Session_close (snd p) v) ! r)"
      using Cons.prems by (cases "snd p < length (heap v)")
        (auto simp: Session_close_def upd_session_def nth_list_update list_update_beyond)
    then show ?case using Cons.IH by simp
  qed simp
  have "s_closed (heap (foldl (\<lambda>w p. Session_close (snd p) w) v ps) ! r)"
    if "r < length (heap v)" "(i, r) \<in> set ps" for v ps
    using that
  proof (induction ps arbitrary: v)
    case (Cons p ps)
    show ?case
    proof (cases "p = (i, r)")
      case True
      have "s_closed (heap (Session_close r v) ! r)"
        using Cons.prems(1) by (simp add: Session_close_def upd_session_def)
      with True keep show ?thesis by simp
    next
      case False
      have "length (heap (Session_close (snd p) v)) = length (heap v)"
        by (simp add: Session_close_def upd_session_def)
      with False Cons show ?thesis by simp
    qed
  qed simp
  with assms show ?thesis by (auto simp: close_locked_def mgr_wf_def)
qed

lemma close_seals:
  assumes "mgr_wf w" and "\<not> mgr_closed w"
  shows "allocate st (SessionManager_close w) = (None, SessionManager_close w) \<and>
    (\<forall>(i, r) \<in> set (table (SessionManager_close w)). s_closed (heap (SessionManager_close w) ! r))"
proof -
  let ?v = "w\<lparr>mgr_closed := True\<rparr>"
  have e: "SessionManager_close w = close_locked ?v"
    using assms by (simp add: SessionManager_close_def close_swap_def)
  have v: "mgr_wf ?v" by (rule shrinks_wf [OF shrinks_same_core assms(1)]) simp_all
  have "mgr_closed (foldl (\<lambda>w p. Session_close (snd p) w) u ps) = mgr_closed u \<and>
      table (foldl (\<lambda>w p. Session_close (snd p) w) u ps) = table u" for u and ps :: "(u16 \<times> nat) list"
  proof (induction ps arbitrary: u)
    case (Cons p ps)
    have "mgr_closed (Session_close (snd p) u) = mgr_closed u" "table (Session_close (snd p) u) = table u"
      by (simp_all add: Session_close_def upd_session_def)
    then show ?case by (simp add: Cons.IH)
  qed simp
  then have t: "mgr_closed (close_locked ?v)" "table (close_locked ?v) = table ?v"
    by (simp_all add: close_locked_def)
  show ?thesis
    unfolding e using t close_locked_closes [OF v] by (auto simp: allocate_def)
qed

text \<open>With a race it does not: there is an interleaving after which \<open>close\<close> has returned, no call
  is in progress, the manager is closed, and yet the table holds an open session, because
  \<open>allocate\<close> tests the flag before it takes the lock.\<close>
theorem close_allocate_race:
  "\<exists>w. reach client_init (client_step MuxClientStrategy_default) (w, \<lambda>_. Idle) \<and> mgr_closed w \<and>
     (\<exists>r. map_of (table w) 1 = Some r \<and> \<not> s_closed (heap w ! r))"
proof -
  let ?st = MuxClientStrategy_default
  let ?R = "reach client_init (client_step ?st)"
  let ?c = "SessionManager_new\<lparr>mgr_closed := True\<rparr>"
  define w where "w = snd (allocate_locked ?st ?c)"
  define v where "v = snd (attach_fresh 0 w)"
  have w: "w = \<lparr>heap = [Session_new 1], table = [(1, 0)], next_id = 1, mgr_closed = True, handles = [0],
      mpscs = [], oneshots = [], announced = [], done_flag = False, written = []\<rparr>"
    by (simp add: w_def allocate_locked_def SessionManager_new_def MuxClientStrategy_default_def mgr_size_def
        new_session_def Let_def table_insert_def)
  have a: "allocate_locked ?st ?c = (Some 0, w)"
    by (simp add: w_def allocate_locked_def SessionManager_new_def MuxClientStrategy_default_def mgr_size_def
        new_session_def Let_def)
  have cl: "close_locked ?c = ?c" by (simp add: close_locked_def SessionManager_new_def)
  have "?R (SessionManager_new, \<lambda>_. Idle)" by (rule reach_init) (simp add: client_init_def)
  then have "?R (SessionManager_new, (\<lambda>_. Idle)(0 := Alloc_checked))"
    by (rule reach_step) (rule alloc_check, simp_all add: SessionManager_new_def)
  then have "?R (?c, (\<lambda>_. Idle)(0 := Alloc_checked, 1 := if False then Idle else Close_swapped))"
    by (rule reach_step) (rule close_begin, simp_all add: close_swap_def SessionManager_new_def)
  then have "?R (close_locked ?c, (\<lambda>_. Idle)(0 := Alloc_checked, 1 := if False then Idle else Close_swapped, 1 := Idle))"
    by (rule reach_step) (rule close_finish, simp)
  then have "?R (?c, (\<lambda>_. Idle)(0 := Alloc_checked, 1 := Idle))" by (simp add: cl)
  then have "?R (w, (\<lambda>_. Idle)(0 := Alloc_checked, 1 := Idle, 0 := Attaching 0))"
    by (rule reach_step) (rule alloc_ok [OF _ a], simp)
  then have "?R (v, (\<lambda>_. Idle)(0 := Alloc_checked, 1 := Idle, 0 := Attaching 0, 0 := Idle))"
    unfolding v_def by (rule reach_step) (rule attach, simp, rule prod.collapse [symmetric])
  moreover have "(\<lambda>_. Idle)(0 := Alloc_checked, 1 := Idle, 0 := Attaching 0, 0 := Idle) = (\<lambda>_::nat. Idle)" by auto
  moreover have "mgr_closed v \<and> map_of (table v) 1 = Some 0 \<and> \<not> s_closed (heap v ! 0)"
    by (simp add: v_def w attach_fresh_def attach_channels_def upd_session_def Session_new_def drop_handle_def
        release_ref_def Let_def)
  ultimately show ?thesis by auto
qed

text \<open>Session ids are 16 bits and wrap: when the next id is still in use, \<open>allocate\<close> replaces the live
  session in the table and disconnects its data channel, although the limit on concurrent
  sessions is respected.\<close>
theorem allocate_wrap_replaces_live_session:
  assumes "mgr_wf w" and "attached w (next_id w + 1) r ch" and "r \<notin> set (handles w)" and "\<not> mgr_closed w"
    and "max_connection st = 0" and "length (table w) < unat (max_concurrency st)"
  shows "let (o', w') = allocate st w in
    o' = Some (length (heap w)) \<and> map_of (table w') (next_id w + 1) = o' \<and> o' \<noteq> Some r \<and>
    \<not> tx_alive (mpscs w' ! data_tx ch)"
proof -
  have r: "map_of (table w) (next_id w + 1) = Some r" "r < length (heap w)" "s_channels (heap w ! r) = Some ch"
    using assms(2) by (auto simp: attached_def)
  have "chan_of w r = Some (data_tx ch)" using r by (simp add: chan_of_def)
  then have c: "data_tx ch < length (mpscs w)" using assms(1) by (auto simp: mgr_wf_def)
  have "r \<notin> snd ` set (AList.update (next_id w + 1) (length (heap w)) (table w))"
  proof
    assume "r \<in> snd ` set (AList.update (next_id w + 1) (length (heap w)) (table w))"
    then obtain j where j: "(j, r) \<in> set (AList.update (next_id w + 1) (length (heap w)) (table w))" by auto
    moreover have d: "distinct (map fst (AList.update (next_id w + 1) (length (heap w)) (table w)))"
      using assms(1) by (simp add: mgr_wf_def distinct_update)
    ultimately have m: "map_of (AList.update (next_id w + 1) (length (heap w)) (table w)) j = Some r" by simp
    then show False
      using r mgr_wf_entry [OF assms(1), of j r] mgr_wf_entry [OF assms(1) r(1)]
      by (auto simp: update_conv' split: if_splits)
  qed
  with r c assms show ?thesis
    by (auto simp: allocate_def allocate_locked_def mgr_size_def new_session_def table_insert_def Let_def
        release_ref_def take_channels_def drop_channels_def upd_session_def upd_mpsc_def nth_append
        update_conv')
qed

theorem allocate_wrap_replaces_live_session_witness:
  "let (o', w') = allocate MuxClientStrategy_default (opened\<lparr>next_id := 1\<rparr>) in
    o' = Some (length (heap (opened\<lparr>next_id := 1\<rparr>))) \<and> map_of (table w') (next_id (opened\<lparr>next_id := 1\<rparr>) + 1) = o' \<and>
    o' \<noteq> Some 1 \<and> \<not> tx_alive (mpscs w' ! data_tx \<lparr>data_tx = 1, close_tx = 1\<rparr>)"
proof (rule allocate_wrap_replaces_live_session)
  show "mgr_wf (opened\<lparr>next_id := 1\<rparr>)" by (rule shrinks_wf [OF shrinks_same_core opened_wf]) simp_all
  have h: "handles opened = []" "\<not> mgr_closed opened"
    by (simp_all add: opened_def open_mux_stream_def open_session_def allocate_def allocate_locked_def
      SessionManager_new_def MuxClientStrategy_default_def mgr_size_def new_session_def table_insert_def
      attach_fresh_def attach_channels_def upd_session_def drop_handle_def release_ref_def
      Session_new_def SessionIo_new_def Let_def)
  then show "1 \<notin> set (handles (opened\<lparr>next_id := 1\<rparr>))" "\<not> mgr_closed (opened\<lparr>next_id := 1\<rparr>)" by simp_all
qed (use opened_attached in \<open>simp_all add: attached_def opened_simps MuxClientStrategy_default_def\<close>)

section \<open>Sessions opened through \<open>open_mux_stream\<close>\<close>

lemma write_fn_keep: "write_fn sid d = keep_frame sid d"
  by (simp add: write_fn_def keep_frame_def FrameMetadata_new_def FrameOption_set_def)

lemma close_fn_end: "close_fn sid err = end_frame sid err"
  by (simp add: close_fn_def end_frame_def FrameMetadata_new_def FrameOption_set_def)

lemma server_unknown_session:
  assumes "map_of (table s) sid = None"
  shows "server_handle s (keep_frame sid d) = s \<and> server_handle s (end_frame sid err) = s"
proof -
  have "AList.delete sid (table s) = table s"
    using assms by (simp add: map_of_eq_None_iff AList.delete_id)
  with assms show ?thesis
    by (simp add: server_handle_def keep_frame_def end_frame_def FrameMetadata_new_def handle_keep_def
        handle_end_def SessionManager_get_def SessionManager_remove_def table_remove_def Let_def)
qed

text \<open>The server never learns of a session opened by \<open>open_mux_stream\<close>: opening writes nothing on the
  connection, and the adapter only ever sends \<open>Keep\<close> and \<open>End\<close> frames. A server whose table does
  not have the id ignores all of them and is left as it was.\<close>
theorem open_mux_stream_unannounced:
  assumes "map_of (table s) sid = None" and "\<forall>d \<in> set ds. length d \<le> 65535"
  shows "written (snd (open_mux_stream st w)) = written w \<and>
    server_read_loop s (concat (map (\<lambda>f. encode_frame (fst f) (snd f)) (map (write_fn sid) ds @ [close_fn sid err]))) = s"
proof -
  have r: "written (release_ref r u) = written u" for r u
    by (auto simp: release_ref_def take_channels_def drop_channels_def upd_session_def upd_mpsc_def
        split: option.splits)
  have "written (snd (open_mux_stream st w)) = written w"
    by (auto simp: open_mux_stream_def open_session_def allocate_def allocate_locked_def new_session_def
        table_insert_def attach_fresh_def attach_channels_def drop_handle_def drop_channels_def r
        upd_session_def upd_mpsc_def Let_def split: option.splits prod.splits if_splits)
  moreover have "foldl server_handle s (map (keep_frame sid) ds @ [end_frame sid err]) = s"
  proof -
    have "foldl server_handle s (map (keep_frame sid) ds) = s"
      using server_unknown_session [OF assms(1)] by (induction ds) simp_all
    then show ?thesis using server_unknown_session [OF assms(1)] by simp
  qed
  moreover have "\<forall>f \<in> set (map (keep_frame sid) ds @ [end_frame sid err]). frame_ok f"
    using assms(2) by (auto simp: keep_frame_ok end_frame_ok)
  ultimately show ?thesis
    using server_read_loop_fold [of "map (keep_frame sid) ds @ [end_frame sid err]" s]
    by (simp add: write_fn_keep [abs_def] close_fn_end)
qed

theorem open_mux_stream_unannounced_witness:
  "written (snd (open_mux_stream MuxClientStrategy_default SessionManager_new)) = written SessionManager_new \<and>
    server_read_loop SessionManager_new (concat (map (\<lambda>f. encode_frame (fst f) (snd f))
      (map (write_fn 1) [[1, 2], [3]] @ [close_fn 1 False]))) = SessionManager_new"
  by (rule open_mux_stream_unannounced) (simp_all add: SessionManager_new_def)

text \<open>Writing and then shutting down a session can lose the data: both leave their frame to a spawned
  task, and in one of the two schedules the \<open>End\<close> frame is written first. The peer then closes
  the session and drops the data; in the other schedule it is delivered.\<close>
theorem shutdown_may_overtake_write:
  assumes "mgr_wf w" and "attached w sid r ch"
    and "mpscs w ! data_tx ch = \<lparr>queue = [], tx_alive = True, rx_alive = True\<rparr>"
    and "length d \<le> 65535"
  shows "let io = SessionIo_new sid c; tasks = snd (poll_shutdown io (snd (poll_write d io []))) in
    (\<exists>v. run_tasks tasks SessionManager_new v \<and>
      queue (mpscs (client_read_loop w (written v)) ! data_tx ch) = [d]) \<and>
    (\<exists>v. run_tasks tasks SessionManager_new v \<and>
      queue (mpscs (client_read_loop w (written v)) ! data_tx ch) = [])"
proof -
  let ?e = "\<lambda>f. encode_frame (fst f) (snd f)"
  let ?k = "keep_frame sid d" and ?n = "end_frame sid False"
  let ?v1 = "mux_write_frame ?n (mux_write_frame ?k SessionManager_new)"
  let ?v2 = "mux_write_frame ?k (mux_write_frame ?n SessionManager_new)"
  have t: "snd (poll_shutdown (SessionIo_new sid c) (snd (poll_write d (SessionIo_new sid c) []))) = [?k, ?n]"
    by (simp add: poll_shutdown_def poll_write_def SessionIo_new_def write_fn_keep close_fn_end)
  have r1: "run_tasks [?k, ?n] SessionManager_new ?v1"
    by (rule run_some [of 0]; simp; rule run_some [of 0]; simp add: run_none)
  have r2: "run_tasks [?k, ?n] SessionManager_new ?v2"
    by (rule run_some [of 1]; simp; rule run_some [of 0]; simp add: run_none)
  have w1: "written ?v1 = concat (map ?e ([?k] @ [?n]))" and w2: "written ?v2 = concat (map ?e [?n, ?k])"
    by (simp_all add: mux_write_frame_def write_frame_def SessionManager_new_def)
  have ok: "frame_ok ?k \<and> keeps_open sid ?k"
    using assms(4) by (simp add: keep_frame_ok) (simp add: keeps_open_def keep_frame_def FrameMetadata_new_def)
  have "queue (mpscs (client_read_loop w (written ?v1)) ! data_tx ch) = [d]"
    using client_read_loop_delivers_spec [OF assms(1,2), of "[?k]" False] assms(3) ok
    unfolding w1 by (simp add: Let_def delivered_def keep_frame_def FrameMetadata_new_def)
  moreover have "queue (mpscs (client_read_loop w (written ?v2)) ! data_tx ch) = []"
  proof -
    have "client_read_loop w (written ?v2) = client_handle (client_handle w ?n) ?k"
      unfolding w2 using ok by (subst client_read_loop_fold) (auto simp: end_frame_ok)
    moreover have h: "mpscs (client_handle w ?n) ! data_tx ch = \<lparr>queue = [], tx_alive = False, rx_alive = True\<rparr>"
      "map_of (table (client_handle w ?n)) sid = None"
      using client_handle_end_own [OF assms(1,2), of ?n] assms(3)
      by (simp_all add: Let_def end_frame_def FrameMetadata_new_def)
    moreover have "client_handle (client_handle w ?n) ?k = client_handle w ?n"
      using h(2) by (simp add: client_handle_def [of "client_handle w ?n"] keep_frame_def FrameMetadata_new_def
          handle_keep_def SessionManager_get_def)
    ultimately show ?thesis by simp
  qed
  ultimately show ?thesis using r1 r2 unfolding Let_def t by blast
qed

theorem shutdown_may_overtake_write_witness:
  "let io = SessionIo_new 2 0; tasks = snd (poll_shutdown io (snd (poll_write [7, 8] io []))) in
    (\<exists>v. run_tasks tasks SessionManager_new v \<and>
      queue (mpscs (client_read_loop opened (written v)) ! data_tx \<lparr>data_tx = 1, close_tx = 1\<rparr>) = [[7, 8]]) \<and>
    (\<exists>v. run_tasks tasks SessionManager_new v \<and>
      queue (mpscs (client_read_loop opened (written v)) ! data_tx \<lparr>data_tx = 1, close_tx = 1\<rparr>) = [])"
  by (rule shutdown_may_overtake_write [OF opened_wf opened_attached]) (simp_all add: opened_simps)

end
