(* ===== verification/Kcp_Segment.thy ===== *)
theory Kcp_Segment
  imports Prelude
begin

text \<open>
  \<^verbatim>\<open>astra-core-transport-kcp\<close>: the segment formats (\<^verbatim>\<open>segment.rs\<close>) and the packet reader
  (\<^verbatim>\<open>io.rs\<close>). Rust's \<^verbatim>\<open>Option\<close> is \<open>Ok\<close>/\<open>Err ()\<close> here, because parsing can also panic: slices are
  taken with \<open>slice_of\<close>, whose \<open>None\<close> is a panic. Data and acknowledgement segments form a
  self-delimiting code (\<open>kcp\<close>); command segments do not survive their own parser.
\<close>

section \<open>Segments (segment.rs)\<close>

datatype Command = CAck | CData | CTerminate | CPing

fun Command_as_byte :: "Command \<Rightarrow> u8" where
  "Command_as_byte CAck = 0"
| "Command_as_byte CData = 1"
| "Command_as_byte CTerminate = 2"
| "Command_as_byte CPing = 3"

definition Command_from_byte :: "u8 \<Rightarrow> Command option" where
  "Command_from_byte b =
     (if b = 0 then Some CAck else if b = 1 then Some CData else if b = 2 then Some CTerminate
      else if b = 3 then Some CPing else None)"

type_synonym SegmentOption = u8

definition OPT_CLOSE :: SegmentOption where "OPT_CLOSE = 1"

definition contains_close :: "SegmentOption \<Rightarrow> bool" where
  "contains_close opt \<longleftrightarrow> opt AND 1 \<noteq> 0"

definition DATA_SEGMENT_OVERHEAD :: nat where "DATA_SEGMENT_OVERHEAD = 18"

record DataSegment =
  d_conv :: u16
  d_option :: SegmentOption
  d_timestamp :: u32
  d_number :: u32
  d_sending_next :: u32
  d_payload :: "u8 list"
  d_timeout :: u32
  d_transmit :: u32

record AckSegment =
  a_conv :: u16
  a_option :: SegmentOption
  a_receiving_window :: u32
  a_receiving_next :: u32
  a_timestamp :: u32
  a_number_list :: "u32 list"
  a_limit :: nat

record CmdOnlySegment =
  c_conv :: u16
  c_cmd :: Command
  c_option :: SegmentOption
  c_sending_next :: u32
  c_receiving_next :: u32
  c_peer_rto :: u32

datatype Segment = SData DataSegment | SAck AckSegment | SCmdOnly CmdOnlySegment

fun segment_conv :: "Segment \<Rightarrow> u16" where
  "segment_conv (SData s) = d_conv s"
| "segment_conv (SAck s) = a_conv s"
| "segment_conv (SCmdOnly s) = c_conv s"

definition DataSegment_byte_size :: "DataSegment \<Rightarrow> nat" where
  "DataSegment_byte_size s = 2 + 1 + 1 + 4 + 4 + 4 + 2 + length (d_payload s)"

definition DataSegment_serialize :: "DataSegment \<Rightarrow> u8 list" where
  "DataSegment_serialize s =
     to_be16 (d_conv s) @ [Command_as_byte CData, d_option s] @ to_be32 (d_timestamp s) @
     to_be32 (d_number s) @ to_be32 (d_sending_next s) @
     to_be16 (word_of_nat (length (d_payload s))) @ d_payload s"

text \<open>A big-endian word at the front of a slice: \<open>data[i..i + 4]\<close> with its bounds check.\<close>

definition word_at :: "nat \<Rightarrow> u8 list \<Rightarrow> (unit, u32) res" where
  "word_at i data = rbind (or_panic (slice_of data i (i + 4))) (\<lambda>b. Ok (from_be32 b))"

definition tail_from :: "nat \<Rightarrow> u8 list \<Rightarrow> (unit, u8 list) res" where
  "tail_from i data = or_panic (slice_of data i (length data))"

definition DataSegment_parse ::
  "u16 \<Rightarrow> SegmentOption \<Rightarrow> u8 list \<Rightarrow> (unit, DataSegment \<times> u8 list) res" where
  "DataSegment_parse conv opt data =
     (if length data < 15 then Err ()
      else rbind (word_at 0 data) (\<lambda>timestamp. rbind (tail_from 4 data) (\<lambda>data.
           rbind (word_at 0 data) (\<lambda>number. rbind (tail_from 4 data) (\<lambda>data.
           rbind (word_at 0 data) (\<lambda>sending_next. rbind (tail_from 4 data) (\<lambda>data.
           rbind (or_panic (slice_of data 0 2)) (\<lambda>l.
           let payload_len = unat (from_be16 l) in
           rbind (tail_from 2 data) (\<lambda>data.
           if length data < payload_len then Err ()
           else Ok (\<lparr>d_conv = conv, d_option = opt, d_timestamp = timestamp, d_number = number,
                     d_sending_next = sending_next, d_payload = take payload_len data,
                     d_timeout = 0, d_transmit = 0\<rparr>, drop payload_len data))))))))))"

definition ACK_NUMBER_LIMIT :: nat where "ACK_NUMBER_LIMIT = 128"

definition AckSegment_new :: "nat \<Rightarrow> AckSegment" where
  "AckSegment_new lim =
     \<lparr>a_conv = 0, a_option = 0, a_receiving_window = 0, a_receiving_next = 0, a_timestamp = 0,
      a_number_list = [], a_limit = min (max lim 1) ACK_NUMBER_LIMIT\<rparr>"

definition put_timestamp :: "u32 \<Rightarrow> AckSegment \<Rightarrow> AckSegment" where
  "put_timestamp ts s = (if ts - a_timestamp s < 0x7FFFFFFF then s\<lparr>a_timestamp := ts\<rparr> else s)"

definition put_number :: "u32 \<Rightarrow> AckSegment \<Rightarrow> AckSegment" where
  "put_number n s = s\<lparr>a_number_list := a_number_list s @ [n]\<rparr>"

definition AckSegment_is_full :: "AckSegment \<Rightarrow> bool" where
  "AckSegment_is_full s \<longleftrightarrow> length (a_number_list s) = a_limit s"

definition AckSegment_is_empty :: "AckSegment \<Rightarrow> bool" where
  "AckSegment_is_empty s \<longleftrightarrow> a_number_list s = []"

definition AckSegment_byte_size :: "AckSegment \<Rightarrow> nat" where
  "AckSegment_byte_size s = 2 + 1 + 1 + 4 + 4 + 4 + 1 + length (a_number_list s) * 4"

definition AckSegment_serialize :: "AckSegment \<Rightarrow> u8 list" where
  "AckSegment_serialize s =
     to_be16 (a_conv s) @ [Command_as_byte CAck, a_option s] @ to_be32 (a_receiving_window s) @
     to_be32 (a_receiving_next s) @ to_be32 (a_timestamp s) @
     [word_of_nat (length (a_number_list s))] @ concat (map to_be32 (a_number_list s))"

text \<open>The loop over \<open>data[i * 4..(i + 1) * 4]\<close>.\<close>

primrec ack_numbers :: "nat \<Rightarrow> u8 list \<Rightarrow> u32 list" where
  "ack_numbers 0 data = []"
| "ack_numbers (Suc k) data = from_be32 (take 4 data) # ack_numbers k (drop 4 data)"

definition AckSegment_parse ::
  "u16 \<Rightarrow> SegmentOption \<Rightarrow> u8 list \<Rightarrow> (unit, AckSegment \<times> u8 list) res" where
  "AckSegment_parse conv opt data =
     (if length data < 13 then Err ()
      else rbind (word_at 0 data) (\<lambda>receiving_window. rbind (tail_from 4 data) (\<lambda>data.
           rbind (word_at 0 data) (\<lambda>receiving_next. rbind (tail_from 4 data) (\<lambda>data.
           rbind (word_at 0 data) (\<lambda>timestamp. rbind (tail_from 4 data) (\<lambda>data.
           rbind (or_panic (slice_of data 0 1)) (\<lambda>c.
           let count = unat (c ! 0) in
           rbind (tail_from 1 data) (\<lambda>data.
           if length data < count * 4 then Err ()
           else let seg = (AckSegment_new 128)
                      \<lparr>a_conv := conv, a_option := opt, a_receiving_window := receiving_window,
                       a_receiving_next := receiving_next, a_timestamp := timestamp\<rparr>
                in Ok (fold put_number (ack_numbers count data) seg, drop (count * 4) data))))))))))"

definition CmdOnlySegment_new :: "Command \<Rightarrow> CmdOnlySegment" where
  "CmdOnlySegment_new cmd =
     \<lparr>c_conv = 0, c_cmd = cmd, c_option = 0, c_sending_next = 0, c_receiving_next = 0, c_peer_rto = 0\<rparr>"

definition CmdOnlySegment_byte_size :: "CmdOnlySegment \<Rightarrow> nat" where
  "CmdOnlySegment_byte_size s = 2 + 1 + 1 + 4 + 4 + 4"

definition CmdOnlySegment_serialize :: "CmdOnlySegment \<Rightarrow> u8 list" where
  "CmdOnlySegment_serialize s =
     to_be16 (c_conv s) @ [Command_as_byte (c_cmd s), c_option s] @ to_be32 (c_sending_next s) @
     to_be32 (c_receiving_next s) @ to_be32 (c_peer_rto s)"

text \<open>The second and third words are read at offset 4 of what is left, as in the source.\<close>

definition CmdOnlySegment_parse ::
  "u16 \<Rightarrow> Command \<Rightarrow> SegmentOption \<Rightarrow> u8 list \<Rightarrow> (unit, CmdOnlySegment \<times> u8 list) res" where
  "CmdOnlySegment_parse conv cmd opt data =
     (if length data < 12 then Err ()
      else rbind (word_at 0 data) (\<lambda>sending_next. rbind (tail_from 4 data) (\<lambda>data.
           rbind (word_at 4 data) (\<lambda>receiving_next. rbind (tail_from 4 data) (\<lambda>data.
           rbind (word_at 4 data) (\<lambda>peer_rto. rbind (tail_from 4 data) (\<lambda>data.
           Ok (\<lparr>c_conv = conv, c_cmd = cmd, c_option = opt, c_sending_next = sending_next,
                c_receiving_next = receiving_next, c_peer_rto = peer_rto\<rparr>, data))))))))"

definition read_segment :: "u8 list \<Rightarrow> (unit, Segment \<times> u8 list) res" where
  "read_segment data =
     (if length data < 4 then Err ()
      else let conv = from_be16 (take 2 data); cmd_byte = data ! 2; opt = data ! 3; data = drop 4 data in
        rbind (ok_or () (Command_from_byte cmd_byte)) (\<lambda>cmd.
        case cmd of
          CData \<Rightarrow> rbind (DataSegment_parse conv opt data) (\<lambda>(s, r). Ok (SData s, r))
        | CAck \<Rightarrow> rbind (AckSegment_parse conv opt data) (\<lambda>(s, r). Ok (SAck s, r))
        | _ \<Rightarrow> rbind (CmdOnlySegment_parse conv cmd opt data) (\<lambda>(s, r). Ok (SCmdOnly s, r))))"

fun Segment_serialize :: "Segment \<Rightarrow> u8 list" where
  "Segment_serialize (SData s) = DataSegment_serialize s"
| "Segment_serialize (SAck s) = AckSegment_serialize s"
| "Segment_serialize (SCmdOnly s) = CmdOnlySegment_serialize s"

section \<open>Parsing what was written\<close>

lemma word_at_Ok: "word_at i data = Ok w \<longleftrightarrow> i + 4 \<le> length data \<and> w = from_be32 (take 4 (drop i data))"
  by (auto simp: word_at_def rbind_eq_Ok slice_of_Some)

lemma tail_from_Ok: "tail_from i data = Ok r \<longleftrightarrow> i \<le> length data \<and> r = drop i data"
  by (auto simp: tail_from_def slice_of_Some)

lemma word_at_front [simp, wire]: "word_at 0 (to_be32 w @ r) = Ok w"
  by (simp add: word_at_Ok)

lemma tail_from_front [simp, wire]: "tail_from 4 (to_be32 w @ r) = Ok r"
  by (simp add: tail_from_Ok)

lemma slice2_front [simp, wire]: "slice_of (to_be16 w @ r) 0 2 = Some (to_be16 w)"
  by (simp add: slice_of_def)

lemma tail2_front [simp, wire]: "tail_from 2 (to_be16 w @ r) = Ok r"
  by (simp add: tail_from_Ok)

lemma slice1_front [simp, wire]: "slice_of (b # r) 0 (Suc 0) = Some [b]" "tail_from (Suc 0) (b # r) = Ok r"
  by (simp_all add: slice_of_def tail_from_Ok)

lemma ack_numbers_concat [wire]:
  "ack_numbers (length ns) (concat (map to_be32 ns) @ r) = ns \<and>
   length (concat (map to_be32 ns)) = length ns * 4"
  by (induction ns) simp_all

lemma fold_put_number:
  "fold put_number ns s = s\<lparr>a_number_list := a_number_list s @ ns\<rparr>"
  by (induction ns arbitrary: s) (simp_all add: put_number_def)

fun segment_ok :: "Segment \<Rightarrow> bool" where
  "segment_ok (SData s) \<longleftrightarrow>
     d_payload s \<noteq> [] \<and> length (d_payload s) \<le> 65535 \<and> d_timeout s = 0 \<and> d_transmit s = 0"
| "segment_ok (SAck s) \<longleftrightarrow> length (a_number_list s) \<le> 255 \<and> a_limit s = 128"
| "segment_ok (SCmdOnly s) \<longleftrightarrow> False"

lemma header_simps:
  "length p = 2 \<Longrightarrow> (p @ a # b # r) ! 2 = a" "length p = 2 \<Longrightarrow> (p @ a # b # r) ! 3 = b"
  "length p = 2 \<Longrightarrow> drop 4 (p @ a # b # r) = r"
  by (simp_all add: nth_append)

lemma Command_bytes [simp, wire]: "Command_from_byte (Command_as_byte c) = Some c"
  by (cases c) (simp_all add: Command_from_byte_def)

lemma DataSegment_parse_serialize:
  assumes "segment_ok (SData s)"
  shows "read_segment (DataSegment_serialize s @ rest) = Ok (SData s, rest)"
proof -
  have "unat (word_of_nat (length (d_payload s)) :: u16) = length (d_payload s)"
    using assms by (simp add: unat_of_nat)
  moreover have "1 \<le> length (d_payload s)" using assms by (cases "d_payload s") simp_all
  ultimately show ?thesis
    using assms Command_bytes [of CData]
    by (simp add: read_segment_def DataSegment_serialize_def header_simps DataSegment_parse_def Let_def)
qed

lemma AckSegment_parse_serialize:
  assumes "segment_ok (SAck s)"
  shows "read_segment (AckSegment_serialize s @ rest) = Ok (SAck s, rest)"
proof -
  have "unat (word_of_nat (length (a_number_list s)) :: u8) = length (a_number_list s)"
    using assms by (simp add: unat_of_nat)
  moreover note ack_numbers_concat [of "a_number_list s" rest]
  ultimately show ?thesis
    using assms Command_bytes [of CAck]
    by (simp add: read_segment_def AckSegment_serialize_def header_simps AckSegment_parse_def
        Let_def fold_put_number AckSegment_new_def ACK_NUMBER_LIMIT_def del: length_concat)
qed

lemma DataSegment_parse_shrinks: "DataSegment_parse c opt data = Ok (s, r) \<Longrightarrow> length r < length data"
  by (auto simp: DataSegment_parse_def rbind_eq_Ok tail_from_Ok word_at_Ok Let_def split: if_splits)

lemma AckSegment_parse_shrinks: "AckSegment_parse c opt data = Ok (s, r) \<Longrightarrow> length r < length data"
  by (auto simp: AckSegment_parse_def rbind_eq_Ok tail_from_Ok word_at_Ok Let_def split: if_splits)

lemma CmdOnlySegment_parse_shrinks: "CmdOnlySegment_parse c cmd opt data = Ok (s, r) \<Longrightarrow> length r < length data"
  by (auto simp: CmdOnlySegment_parse_def rbind_eq_Ok tail_from_Ok word_at_Ok split: if_splits)

lemma read_segment_shrinks:
  assumes "read_segment bs = Ok (s, rest)"
  shows "length rest < length bs"
proof -
  from assms obtain cmd where "4 \<le> length bs" and "Command_from_byte (bs ! 2) = Some cmd"
    by (auto simp: read_segment_def rbind_eq_Ok Let_def split: if_splits)
  with assms have "length rest < length (drop 4 bs)"
    by (cases cmd) (auto simp: read_segment_def rbind_eq_Ok Let_def
      dest!: DataSegment_parse_shrinks AckSegment_parse_shrinks CmdOnlySegment_parse_shrinks)
  then show ?thesis by simp
qed

lemma Segment_parse_serialize: "segment_ok s \<Longrightarrow> read_segment (Segment_serialize s @ rest) = Ok (s, rest)"
proof (cases s)
  case (SData d)
  then show "segment_ok s \<Longrightarrow> ?thesis" using DataSegment_parse_serialize [of d rest] by simp
next
  case (SAck a)
  then show "segment_ok s \<Longrightarrow> ?thesis" using AckSegment_parse_serialize [of a rest] by simp
qed simp

interpretation kcp: wire_codec Segment_serialize read_segment segment_ok
  by unfold_locales (rule Segment_parse_serialize, assumption, rule read_segment_shrinks)

section \<open>The packet reader (io.rs)\<close>

function KcpPacketReader_read :: "u8 list \<Rightarrow> (unit, Segment list) res" where
  "KcpPacketReader_read bs =
     (if bs = [] then Ok []
      else case read_segment bs of
             Ok (s, r) \<Rightarrow> rbind (KcpPacketReader_read r) (\<lambda>ss. Ok (s # ss))
           | Err _ \<Rightarrow> Ok []
           | Panic \<Rightarrow> Panic)"
  by pat_completeness auto
termination
  by (relation "measure length") (auto dest: read_segment_shrinks)

declare KcpPacketReader_read.simps [simp del]

text \<open>A packet of data and acknowledgement segments is read back as exactly those segments, in order,
  with all fields (payloads must be non-empty and below 64 KiB, at most 255 acknowledged numbers).\<close>
theorem KcpPacketReader_roundtrip:
  assumes "\<forall>s \<in> set ss. segment_ok s"
  shows "KcpPacketReader_read (concat (map Segment_serialize ss)) = Ok ss"
  by (rule kcp.loop_decodes [OF KcpPacketReader_read.simps assms])

definition sample_segments :: "Segment list" where
  "sample_segments =
     [SData \<lparr>d_conv = 7, d_option = 0, d_timestamp = 100, d_number = 3, d_sending_next = 2,
             d_payload = [1, 2, 3], d_timeout = 0, d_transmit = 0\<rparr>,
      SAck ((AckSegment_new 128)\<lparr>a_conv := 7, a_number_list := [5, 9]\<rparr>)]"

theorem KcpPacketReader_roundtrip_witness:
  "KcpPacketReader_read (concat (map Segment_serialize sample_segments)) = Ok sample_segments"
  by (rule KcpPacketReader_roundtrip)
    (simp add: sample_segments_def AckSegment_new_def ACK_NUMBER_LIMIT_def)

text \<open>Command segments do not survive parsing. A packet that is one serialised \<open>Ping\<close> or \<open>Terminate\<close>
  segment, the only form in which the connection sends them, makes the packet reader panic. With
  at least four bytes behind it the parser returns the peer's timeout in place of its receiving
  position, and those following bytes as the timeout.\<close>
theorem CmdOnlySegment_misparsed:
  assumes "c_cmd s = CPing \<or> c_cmd s = CTerminate"
  shows "KcpPacketReader_read (CmdOnlySegment_serialize s) = Panic \<and>
    read_segment (CmdOnlySegment_serialize s @ to_be32 x @ rest) =
      Ok (SCmdOnly (s\<lparr>c_receiving_next := c_peer_rto s, c_peer_rto := x\<rparr>), to_be32 x @ rest)"
proof -
  have ne: "CmdOnlySegment_serialize s \<noteq> []" by (simp add: CmdOnlySegment_serialize_def)
  have w4: "word_at 4 (to_be32 a @ to_be32 b @ r) = Ok b" for a b r by (simp add: word_at_Ok)
  have p4: "word_at 4 (to_be32 a) = Panic" for a by (simp add: word_at_def slice_of_def)
  have w4': "word_at 4 (to_be32 a @ to_be32 b) = Ok b" for a b using w4 [of a b "[]"] by simp
  have t4: "tail_from 4 (to_be32 a) = Ok []" for a by (simp add: tail_from_Ok)
  have "read_segment (CmdOnlySegment_serialize s) = Panic"
    using assms Command_bytes [of "c_cmd s"]
    by (auto simp: read_segment_def CmdOnlySegment_serialize_def header_simps CmdOnlySegment_parse_def
        w4' p4 Let_def)
  moreover have "read_segment (CmdOnlySegment_serialize s @ to_be32 x @ rest) =
      Ok (SCmdOnly (s\<lparr>c_receiving_next := c_peer_rto s, c_peer_rto := x\<rparr>), to_be32 x @ rest)"
    using assms Command_bytes [of "c_cmd s"]
    by (auto simp: read_segment_def CmdOnlySegment_serialize_def header_simps CmdOnlySegment_parse_def
        w4 Let_def)
  ultimately show ?thesis using ne by (simp add: KcpPacketReader_read.simps [of "CmdOnlySegment_serialize s"])
qed

theorem CmdOnlySegment_misparsed_witness:
  "KcpPacketReader_read (CmdOnlySegment_serialize (CmdOnlySegment_new CPing)) = Panic \<and>
    read_segment (CmdOnlySegment_serialize (CmdOnlySegment_new CPing) @ to_be32 9 @ []) =
      Ok (SCmdOnly ((CmdOnlySegment_new CPing)\<lparr>c_receiving_next := c_peer_rto (CmdOnlySegment_new CPing),
        c_peer_rto := 9\<rparr>), to_be32 9 @ [])"
  by (rule CmdOnlySegment_misparsed) (simp add: CmdOnlySegment_new_def)

end
