(* ===== verification/Kcp_Window.thy ===== *)
theory Kcp_Window
  imports Kcp_Segment "HOL-Library.Sublist"
begin

text \<open>
  \<^verbatim>\<open>astra-core-transport-kcp\<close>: configuration (\<^verbatim>\<open>config.rs\<close>), the sending side (\<^verbatim>\<open>sending.rs\<close>) and the
  receiving side (\<^verbatim>\<open>receiving.rs\<close>) of a KCP connection. Sequence numbers, times and window sizes
  are 32-bit words with the source's wrap-around; the receive cache is an association list. The
  main result is about the two workers joined by a network that loses, duplicates and reorders
  segments (\<open>link_step\<close>): what the receiver hands out is a prefix of what was pushed, and nothing
  leaves the sender's window before the receiver has it.
\<close>

section \<open>Configuration (config.rs)\<close>

record Config =
  mtu :: u32
  tti :: u32
  uplink_capacity :: u32
  downlink_capacity :: u32
  cwnd_multiplier :: u32
  max_sending_window :: u32

definition Config_default :: Config where
  "Config_default =
     \<lparr>mtu = 1350, tti = 50, uplink_capacity = 5, downlink_capacity = 20, cwnd_multiplier = 1,
      max_sending_window = 2 * 1024 * 1024\<rparr>"

text \<open>Division by zero panics.\<close>

definition u32_div :: "u32 \<Rightarrow> u32 \<Rightarrow> ('e, u32) res" where
  "u32_div a b = (if b = 0 then Panic else Ok (a div b))"

definition in_flight_size :: "u32 \<Rightarrow> Config \<Rightarrow> (unit, u32) res" where
  "in_flight_size cap c =
     rbind (u32_div (cap * 1024 * 1024) (mtu c)) (\<lambda>q.
     rbind (u32_div 1000 (tti c)) (\<lambda>t.
     rbind (u32_div q t) (\<lambda>sz. Ok (if sz < 8 then 8 else sz))))"

definition sending_in_flight_size :: "Config \<Rightarrow> (unit, u32) res" where
  "sending_in_flight_size c = in_flight_size (uplink_capacity c) c"

definition receiving_in_flight_size :: "Config \<Rightarrow> (unit, u32) res" where
  "receiving_in_flight_size c = in_flight_size (downlink_capacity c) c"

definition sending_buffer_size :: "Config \<Rightarrow> (unit, u32) res" where
  "sending_buffer_size c = u32_div (max_sending_window c) (mtu c)"

definition mss :: "Config \<Rightarrow> u32" where
  "mss c = mtu c - word_of_nat DATA_SEGMENT_OVERHEAD"

section \<open>The sending side (sending.rs)\<close>

record SendingWindow =
  cache :: "DataSegment list"
  total_in_flight_size :: u32

definition SendingWindow_new :: SendingWindow where
  "SendingWindow_new = \<lparr>cache = [], total_in_flight_size = 0\<rparr>"

definition SendingWindow_push :: "u32 \<Rightarrow> u8 list \<Rightarrow> SendingWindow \<Rightarrow> SendingWindow" where
  "SendingWindow_push n payload w =
     w\<lparr>cache := cache w @ [\<lparr>d_conv = 0, d_option = 0, d_timestamp = 0, d_number = n, d_sending_next = 0,
       d_payload = payload, d_timeout = 0, d_transmit = 0\<rparr>]\<rparr>"

definition first_number :: "SendingWindow \<Rightarrow> u32" where
  "first_number w = (case cache w of s # _ \<Rightarrow> d_number s | [] \<Rightarrow> 0)"

definition SendingWindow_clear :: "u32 \<Rightarrow> SendingWindow \<Rightarrow> SendingWindow" where
  "SendingWindow_clear una w = w\<lparr>cache := dropWhile (\<lambda>s. d_number s < una) (cache w)\<rparr>"

fun fast_ack_loop :: "u32 \<Rightarrow> u32 \<Rightarrow> DataSegment list \<Rightarrow> DataSegment list" where
  "fast_ack_loop n rto [] = []"
| "fast_ack_loop n rto (s # ss) =
     (if n - d_number s > 0x7FFFFFFF then s # ss
      else (if d_transmit s > 0 \<and> d_timeout s > rto div 3 then s\<lparr>d_timeout := d_timeout s - rto div 3\<rparr> else s)
           # fast_ack_loop n rto ss)"

definition handle_fast_ack :: "u32 \<Rightarrow> u32 \<Rightarrow> SendingWindow \<Rightarrow> SendingWindow" where
  "handle_fast_ack n rto w = w\<lparr>cache := fast_ack_loop n rto (cache w)\<rparr>"

text \<open>The loop of \<open>flush\<close>: the updated cache, the in-flight total and the segments to send.\<close>

fun flush_loop ::
  "u32 \<Rightarrow> u32 \<Rightarrow> u32 \<Rightarrow> u32 \<Rightarrow> u32 \<Rightarrow> DataSegment list \<Rightarrow> DataSegment list \<times> u32 \<times> DataSegment list" where
  "flush_loop current rto mx in_flight tot [] = ([], tot, [])"
| "flush_loop current rto mx in_flight tot (s # ss) =
     (if current - d_timeout s \<ge> 0x7FFFFFFF
      then (case flush_loop current rto mx in_flight tot ss of (c, t, r) \<Rightarrow> (s # c, t, r))
      else let tot = (if d_transmit s = 0 then tot + 1 else tot);
               s' = s\<lparr>d_timeout := current + rto, d_timestamp := current, d_transmit := d_transmit s + 1\<rparr>;
               in_flight = in_flight + 1
           in if in_flight \<ge> mx then (s' # ss, tot, [s'])
              else (case flush_loop current rto mx in_flight tot ss of (c, t, r) \<Rightarrow> (s' # c, t, s' # r)))"

definition SendingWindow_flush ::
  "u32 \<Rightarrow> u32 \<Rightarrow> u32 \<Rightarrow> SendingWindow \<Rightarrow> DataSegment list \<times> SendingWindow" where
  "SendingWindow_flush current rto max_in_flight_size w =
     (if cache w = [] then ([], w)
      else case flush_loop current rto max_in_flight_size 0 (total_in_flight_size w) (cache w) of
             (c, t, r) \<Rightarrow> (r, w\<lparr>cache := c, total_in_flight_size := t\<rparr>))"

fun remove_first :: "u32 \<Rightarrow> DataSegment list \<Rightarrow> DataSegment list" where
  "remove_first n [] = []"
| "remove_first n (s # ss) = (if d_number s = n then ss else s # remove_first n ss)"

definition SendingWindow_remove :: "u32 \<Rightarrow> SendingWindow \<Rightarrow> bool \<times> SendingWindow" where
  "SendingWindow_remove n w =
     (if \<exists>s \<in> set (cache w). d_number s = n
      then (True, w\<lparr>total_in_flight_size :=
                      (if total_in_flight_size w > 0 then total_in_flight_size w - 1 else total_in_flight_size w),
                    cache := remove_first n (cache w)\<rparr>)
      else (False, w))"

definition loss_rate :: "SendingWindow \<Rightarrow> u32" where
  "loss_rate w =
     (if total_in_flight_size w = 0 then 0
      else let tot = word_of_nat (length (cache w));
               lost = (if tot \<ge> total_in_flight_size w then tot - total_in_flight_size w else 0)
           in lost * 100 div total_in_flight_size w)"

record SendingWorker =
  window :: SendingWindow
  first_unacknowledged :: u32
  next_number :: u32
  remote_next_number :: u32
  control_window :: u32
  window_size :: u32
  first_unacknowledged_updated :: bool
  sw_closed :: bool

definition SendingWorker_new :: "Config \<Rightarrow> (unit, SendingWorker) res" where
  "SendingWorker_new c =
     rbind (sending_in_flight_size c) (\<lambda>cw. rbind (sending_buffer_size c) (\<lambda>ws.
       Ok \<lparr>window = SendingWindow_new, first_unacknowledged = 0, next_number = 0,
           remote_next_number = 32, control_window = cw, window_size = ws,
           first_unacknowledged_updated = False, sw_closed = False\<rparr>))"

definition SendingWorker_release :: "SendingWorker \<Rightarrow> SendingWorker" where
  "SendingWorker_release s = s\<lparr>window := (window s)\<lparr>cache := []\<rparr>, sw_closed := True\<rparr>"

definition find_first_unacknowledged :: "SendingWorker \<Rightarrow> SendingWorker" where
  "find_first_unacknowledged s =
     (let first = first_unacknowledged s;
          s = s\<lparr>first_unacknowledged :=
                  (if cache (window s) \<noteq> [] then first_number (window s) else next_number s)\<rparr>
      in if first \<noteq> first_unacknowledged s then s\<lparr>first_unacknowledged_updated := True\<rparr> else s)"

definition process_receiving_next :: "u32 \<Rightarrow> SendingWorker \<Rightarrow> SendingWorker" where
  "process_receiving_next n s =
     find_first_unacknowledged (s\<lparr>window := SendingWindow_clear n (window s)\<rparr>)"

definition process_ack :: "u32 \<Rightarrow> SendingWorker \<Rightarrow> bool \<times> SendingWorker" where
  "process_ack n s =
     (if n - first_unacknowledged s > 0x7FFFFFFF \<or> n - next_number s < 0x7FFFFFFF then (False, s)
      else case SendingWindow_remove n (window s) of (removed, w) \<Rightarrow>
        let s = s\<lparr>window := w\<rparr> in (removed, if removed then find_first_unacknowledged s else s))"

fun ack_loop :: "u32 list \<Rightarrow> u32 \<Rightarrow> bool \<Rightarrow> SendingWorker \<Rightarrow> u32 \<times> bool \<times> SendingWorker" where
  "ack_loop [] maxack maxack_removed s = (maxack, maxack_removed, s)"
| "ack_loop (n # ns) maxack maxack_removed s =
     (case process_ack n s of (removed, s) \<Rightarrow>
        if maxack < n then ack_loop ns n removed s else ack_loop ns maxack maxack_removed s)"

definition SendingWorker_process_segment :: "AckSegment \<Rightarrow> u32 \<Rightarrow> SendingWorker \<Rightarrow> SendingWorker" where
  "SendingWorker_process_segment seg rto s =
     (if sw_closed s then s
      else let s = (if remote_next_number s < a_receiving_window seg
                    then s\<lparr>remote_next_number := a_receiving_window seg\<rparr> else s);
               s = process_receiving_next (a_receiving_next seg) s
           in if AckSegment_is_empty seg then s
              else case ack_loop (a_number_list seg) 0 False s of (maxack, maxack_removed, s) \<Rightarrow>
                if maxack_removed then s\<lparr>window := handle_fast_ack maxack rto (window s)\<rparr> else s)"

definition SendingWorker_push :: "u8 list \<Rightarrow> SendingWorker \<Rightarrow> bool \<times> SendingWorker" where
  "SendingWorker_push payload s =
     (if sw_closed s then (False, s)
      else if word_of_nat (length (cache (window s))) > window_size s then (False, s)
      else (True, s\<lparr>window := SendingWindow_push (next_number s) payload (window s),
                    next_number := next_number s + 1\<rparr>))"

definition SendingWorker_flush ::
  "u32 \<Rightarrow> Config \<Rightarrow> u32 \<Rightarrow> SendingWorker \<Rightarrow> (unit, DataSegment list \<times> SendingWorker) res" where
  "SendingWorker_flush current c rto s =
     (if sw_closed s then Ok ([], s)
      else rbind (sending_in_flight_size c) (\<lambda>cwnd.
        let window_gap = remote_next_number s - first_unacknowledged s;
            cwnd = (if cwnd > window_gap then window_gap else cwnd);
            cwnd = (if cwnd > control_window s then control_window s else cwnd);
            cwnd = cwnd * cwnd_multiplier c
        in if cache (window s) \<noteq> []
           then (case SendingWindow_flush current rto cwnd (window s) of (segs, w) \<Rightarrow>
                   Ok (segs, s\<lparr>window := w, first_unacknowledged_updated := False\<rparr>))
           else Ok ([], s)))"

definition close_write :: "SendingWorker \<Rightarrow> SendingWorker" where
  "close_write s = s\<lparr>window := SendingWindow_clear 0xFFFFFFFF (window s)\<rparr>"

definition SendingWorker_is_empty :: "SendingWorker \<Rightarrow> bool" where
  "SendingWorker_is_empty s \<longleftrightarrow> cache (window s) = []"

definition SendingWorker_update_necessary :: "SendingWorker \<Rightarrow> bool" where
  "SendingWorker_update_necessary s \<longleftrightarrow> \<not> SendingWorker_is_empty s"

section \<open>The receiving side (receiving.rs)\<close>

type_synonym ReceivingWindow = "(u32 \<times> DataSegment) list"

definition ReceivingWindow_set :: "u32 \<Rightarrow> DataSegment \<Rightarrow> ReceivingWindow \<Rightarrow> bool \<times> ReceivingWindow" where
  "ReceivingWindow_set i seg w =
     (case map_of w i of None \<Rightarrow> (True, AList.update i seg w) | Some _ \<Rightarrow> (False, w))"

definition ReceivingWindow_has :: "u32 \<Rightarrow> ReceivingWindow \<Rightarrow> bool" where
  "ReceivingWindow_has i w \<longleftrightarrow> map_of w i \<noteq> None"

definition ReceivingWindow_remove :: "u32 \<Rightarrow> ReceivingWindow \<Rightarrow> DataSegment option \<times> ReceivingWindow" where
  "ReceivingWindow_remove i w = (map_of w i, AList.delete i w)"

record AckList =
  timestamps :: "u32 list"
  numbers :: "u32 list"
  next_flush :: "u32 list"
  flush_candidates :: "u32 list"
  dirty :: bool
  al_mss :: u32

definition AckList_new :: "u32 \<Rightarrow> AckList" where
  "AckList_new m =
     \<lparr>timestamps = [], numbers = [], next_flush = [], flush_candidates = [], dirty = False, al_mss = m\<rparr>"

definition AckList_add :: "u32 \<Rightarrow> u32 \<Rightarrow> AckList \<Rightarrow> AckList" where
  "AckList_add n ts al =
     al\<lparr>timestamps := timestamps al @ [ts], numbers := numbers al @ [n],
        next_flush := next_flush al @ [0], dirty := True\<rparr>"

text \<open>One turn of the compaction loop of \<open>clear\<close>, in place; \<open>count\<close> is the write position.\<close>

definition clear_turn :: "u32 \<Rightarrow> nat \<Rightarrow> nat \<times> AckList \<Rightarrow> nat \<times> AckList" where
  "clear_turn una i st =
     (case st of (count, al) \<Rightarrow>
        if numbers al ! i < una then (count, al)
        else (count + 1,
              if i \<noteq> count
              then al\<lparr>numbers := (numbers al)[count := numbers al ! i],
                      timestamps := (timestamps al)[count := timestamps al ! i],
                      next_flush := (next_flush al)[count := next_flush al ! i]\<rparr>
              else al))"

definition AckList_clear :: "u32 \<Rightarrow> AckList \<Rightarrow> AckList" where
  "AckList_clear una al =
     (case fold (clear_turn una) [0..<length (numbers al)] (0, al) of (count, al') \<Rightarrow>
        if count < length (numbers al')
        then al'\<lparr>numbers := take count (numbers al'), timestamps := take count (timestamps al'),
                 next_flush := take count (next_flush al'), dirty := True\<rparr>
        else al')"

definition need_flush :: "AckList \<Rightarrow> bool" where
  "need_flush al \<longleftrightarrow> numbers al \<noteq> []"

text \<open>\<^verbatim>\<open>Vec::with_capacity(128)\<close>: the candidates list never grows beyond its capacity.\<close>

definition CANDIDATES_CAP :: nat where "CANDIDATES_CAP = 128"

definition flush_turn ::
  "u32 \<Rightarrow> u32 \<Rightarrow> u16 \<Rightarrow> nat \<Rightarrow> nat \<Rightarrow> AckList \<times> AckSegment \<times> AckSegment list
     \<Rightarrow> AckList \<times> AckSegment \<times> AckSegment list" where
  "flush_turn current rto conv max_acks i st =
     (case st of (al, seg, result) \<Rightarrow>
        if next_flush al ! i > current
        then (if length (flush_candidates al) < CANDIDATES_CAP
              then al\<lparr>flush_candidates := flush_candidates al @ [numbers al ! i]\<rparr> else al, seg, result)
        else let seg = put_timestamp (timestamps al ! i) (put_number (numbers al ! i) seg);
                 timeout = max (rto div 2) 20;
                 al = al\<lparr>next_flush := (next_flush al)[i := current + timeout]\<rparr>
             in if AckSegment_is_full seg
                then (al\<lparr>dirty := False\<rparr>, (AckSegment_new max_acks)\<lparr>a_conv := conv\<rparr>, result @ [seg])
                else (al, seg, result))"

fun fill_candidates :: "u32 list \<Rightarrow> AckSegment \<Rightarrow> AckSegment" where
  "fill_candidates [] seg = seg"
| "fill_candidates (n # ns) seg =
     (if AckSegment_is_full seg then seg else fill_candidates ns (put_number n seg))"

definition AckList_flush :: "u32 \<Rightarrow> u32 \<Rightarrow> u16 \<Rightarrow> AckList \<Rightarrow> AckSegment list \<times> AckList" where
  "AckList_flush current rto conv al =
     (let al = al\<lparr>flush_candidates := []\<rparr>;
          max_acks = (unat (al_mss al) - 17) div 4;
          seg = (AckSegment_new max_acks)\<lparr>a_conv := conv\<rparr>
      in case fold (flush_turn current rto conv max_acks) [0..<length (numbers al)] (al, seg, []) of
           (al, seg, result) \<Rightarrow>
             if dirty al \<or> \<not> AckSegment_is_empty seg
             then (result @ [fill_candidates (flush_candidates al) seg], al\<lparr>dirty := False\<rparr>)
             else (result, al))"

record ReceivingWorker =
  rw_window :: ReceivingWindow
  acklist :: AckList
  rw_next_number :: u32
  rw_window_size :: u32

definition ReceivingWorker_new :: "u32 \<Rightarrow> ReceivingWorker" where
  "ReceivingWorker_new m =
     \<lparr>rw_window = [], acklist = AckList_new (m + word_of_nat DATA_SEGMENT_OVERHEAD),
      rw_next_number = 0, rw_window_size = 1024\<rparr>"

definition set_window_size :: "u32 \<Rightarrow> ReceivingWorker \<Rightarrow> ReceivingWorker" where
  "set_window_size sz r = r\<lparr>rw_window_size := sz\<rparr>"

definition ReceivingWorker_release :: "ReceivingWorker \<Rightarrow> ReceivingWorker" where
  "ReceivingWorker_release r = r\<lparr>rw_window := []\<rparr>"

definition process_sending_next :: "u32 \<Rightarrow> ReceivingWorker \<Rightarrow> ReceivingWorker" where
  "process_sending_next n r = r\<lparr>acklist := AckList_clear n (acklist r)\<rparr>"

definition ReceivingWorker_process_segment :: "DataSegment \<Rightarrow> ReceivingWorker \<Rightarrow> ReceivingWorker" where
  "ReceivingWorker_process_segment seg r =
     (if d_number seg - rw_next_number r \<ge> rw_window_size r then r
      else r\<lparr>acklist := AckList_add (d_number seg) (d_timestamp seg)
                        (AckList_clear (d_sending_next seg) (acklist r)),
             rw_window := snd (ReceivingWindow_set (d_number seg) seg (rw_window r))\<rparr>)"

text \<open>The loop of \<open>read_multi_buffer\<close>: it ends because every turn takes an entry out of the window.\<close>

function read_loop :: "ReceivingWindow \<Rightarrow> u32 \<Rightarrow> u8 list list \<times> ReceivingWindow \<times> u32" where
  "read_loop w n =
     (case map_of w n of
        Some seg \<Rightarrow> (case read_loop (AList.delete n w) (n + 1) of (ps, w', n') \<Rightarrow> (d_payload seg # ps, w', n'))
      | None \<Rightarrow> ([], w, n))"
  by pat_completeness auto
termination
proof (relation "measure (length \<circ> fst)")
  fix w :: ReceivingWindow and n :: u32 and seg
  assume "map_of w n = Some seg"
  then have "(n, seg) \<in> set w" by (rule map_of_SomeD)
  then have "length (filter (\<lambda>(k, _). n \<noteq> k) w) < length w" by (rule length_filter_less) simp
  then show "((AList.delete n w, n + 1), w, n) \<in> measure (length \<circ> fst)"
    by (simp add: AList.delete_eq split_def)
qed simp

declare read_loop.simps [simp del]

definition read_multi_buffer :: "ReceivingWorker \<Rightarrow> u8 list list \<times> ReceivingWorker" where
  "read_multi_buffer r =
     (case read_loop (rw_window r) (rw_next_number r) of (ps, w, n) \<Rightarrow>
        (ps, r\<lparr>rw_window := w, rw_next_number := n\<rparr>))"

definition is_data_available :: "ReceivingWorker \<Rightarrow> bool" where
  "is_data_available r = ReceivingWindow_has (rw_next_number r) (rw_window r)"

definition flush_acks :: "u32 \<Rightarrow> u32 \<Rightarrow> u16 \<Rightarrow> ReceivingWorker \<Rightarrow> AckSegment list \<times> ReceivingWorker" where
  "flush_acks current rto conv r =
     (case AckList_flush current rto conv (acklist r) of (segs, al) \<Rightarrow>
        (map (\<lambda>s. s\<lparr>a_receiving_next := rw_next_number r,
                    a_receiving_window := rw_next_number r + rw_window_size r\<rparr>) segs,
         r\<lparr>acklist := al\<rparr>))"

definition ReceivingWorker_update_necessary :: "ReceivingWorker \<Rightarrow> bool" where
  "ReceivingWorker_update_necessary r = need_flush (acklist r)"

definition close_read :: "ReceivingWorker \<Rightarrow> ReceivingWorker" where
  "close_read r = r"

section \<open>Acknowledgement lists\<close>

definition acklist_wf :: "AckList \<Rightarrow> bool" where
  "acklist_wf al \<longleftrightarrow>
     length (timestamps al) = length (numbers al) \<and> length (next_flush al) = length (numbers al)"

text \<open>The compaction as a reference definition: filter the three vectors together.\<close>

definition acks :: "AckList \<Rightarrow> (u32 \<times> u32 \<times> u32) list" where
  "acks al = zip (numbers al) (zip (timestamps al) (next_flush al))"

lemma numbers_acks: "acklist_wf al \<Longrightarrow> numbers al = map fst (acks al)"
  by (simp add: acks_def acklist_wf_def)

lemma length_acks: "acklist_wf al \<Longrightarrow> length (acks al) = length (numbers al)"
  by (simp add: acks_def acklist_wf_def)

lemma clear_fold_inv:
  fixes al :: AckList
  assumes "acklist_wf al" and "k \<le> length (numbers al)"
  shows "\<exists>count al'. fold (clear_turn una) [0..<k] (0, al) = (count, al') \<and> count \<le> k \<and> acklist_wf al' \<and>
    length (numbers al') = length (numbers al) \<and>
    take count (acks al') = filter (\<lambda>e. \<not> fst e < una) (take k (acks al)) \<and>
    drop k (acks al') = drop k (acks al)"
  using assms(2)
proof (induction k)
  case 0
  then show ?case using assms(1) by simp
next
  case (Suc k)
  then obtain count al' where ih: "fold (clear_turn una) [0..<k] (0, al) = (count, al')" "count \<le> k"
    "acklist_wf al'" "length (numbers al') = length (numbers al)"
    "take count (acks al') = filter (\<lambda>e. \<not> fst e < una) (take k (acks al))"
    "drop k (acks al') = drop k (acks al)" by auto
  let ?e = "acks al ! k"
  have k: "k < length (acks al)" "k < length (acks al')"
    using Suc.prems ih(3,4) assms(1) by (simp_all add: length_acks)
  have e': "acks al' ! k = ?e" using ih(6) k by (metis Cons_nth_drop_Suc list.inject)
  have n: "numbers al' ! k = fst ?e"
    using e' k ih(3) by (simp add: acks_def acklist_wf_def)
  have dr: "drop (Suc k) (acks al') = drop (Suc k) (acks al)"
    using ih(6) by (metis Suc_eq_plus1 add.commute drop_drop)
  have tk: "take (Suc k) (acks al) = take k (acks al) @ [?e]" using k by (simp add: take_Suc_conv_app_nth)
  show ?case
  proof (cases "fst ?e < una")
    case True
    then have "fold (clear_turn una) [0..<Suc k] (0, al) = (count, al')"
      using ih(1) n by (simp add: clear_turn_def)
    with True ih dr tk show ?thesis by auto
  next
    case False
    define al2 where "al2 = snd (clear_turn una k (count, al'))"
    have "acks al2 = (acks al')[count := acks al' ! k]"
    proof (cases "k = count")
      case True
      with False n show ?thesis by (simp add: al2_def clear_turn_def)
    next
      case neq: False
      with False n ih(3) k show ?thesis
        by (simp add: al2_def clear_turn_def acks_def acklist_wf_def zip_update [symmetric])
    qed
    then have a2: "acks al2 = (acks al')[count := ?e]" by (simp add: e')
    have wf2: "acklist_wf al2" and l2: "length (numbers al2) = length (numbers al')"
      using False n ih(3) by (auto simp: al2_def clear_turn_def acklist_wf_def)
    have "fold (clear_turn una) [0..<Suc k] (0, al) = (Suc count, al2)"
      using ih(1) n False by (simp add: al2_def clear_turn_def)
    moreover have "take (Suc count) (acks al2) = filter (\<lambda>e. \<not> fst e < una) (take (Suc k) (acks al))"
      using a2 ih(2,5) k False by (simp add: tk take_Suc_conv_app_nth)
    moreover have "drop (Suc k) (acks al2) = drop (Suc k) (acks al)"
      using a2 ih(2) dr by simp
    ultimately show ?thesis using ih(2,4) wf2 l2 by simp
  qed
qed

lemma AckList_clear_filter:
  assumes "acklist_wf al"
  shows "acklist_wf (AckList_clear una al) \<and> acks (AckList_clear una al) = filter (\<lambda>e. \<not> fst e < una) (acks al)"
proof -
  let ?n = "length (numbers al)"
  obtain count al' where f: "fold (clear_turn una) [0..<?n] (0, al) = (count, al')" "count \<le> ?n" "acklist_wf al'"
    "length (numbers al') = ?n" "take count (acks al') = filter (\<lambda>e. \<not> fst e < una) (take ?n (acks al))"
    using clear_fold_inv [OF assms order.refl] by blast
  have l: "length (acks al) = ?n" "length (acks al') = ?n" using assms f(3,4) by (simp_all add: length_acks)
  with f(5) have t: "take count (acks al') = filter (\<lambda>e. \<not> fst e < una) (acks al)" by simp
  show ?thesis
  proof (cases "count < ?n")
    case True
    with f t show ?thesis
      by (simp add: AckList_clear_def acklist_wf_def) (simp add: acks_def take_zip)
  next
    case False
    with f t l show ?thesis by (simp add: AckList_clear_def)
  qed
qed

text \<open>The in-place compaction of the acknowledgement list is a filter: the entries below the given
  number go, the others keep their order, timestamps and flush times, and the three parallel
  vectors keep equal lengths.\<close>
theorem AckList_clear_correct:
  assumes "acklist_wf al"
  shows "acklist_wf (AckList_clear una al) \<and> acks (AckList_clear una al) = filter (\<lambda>e. una \<le> fst e) (acks al)"
  using AckList_clear_filter [OF assms, of una] by (simp add: linorder_not_less)

theorem AckList_clear_correct_witness:
  "let al = AckList_add 9 30 (AckList_add 2 20 (AckList_add 5 10 (AckList_new 1350))) in
    acklist_wf (AckList_clear 5 al) \<and> acks (AckList_clear 5 al) = filter (\<lambda>e. 5 \<le> fst e) (acks al)"
  unfolding Let_def by (rule AckList_clear_correct) (simp add: acklist_wf_def AckList_add_def AckList_new_def)

lemma numbers_AckList_clear:
  "acklist_wf al \<Longrightarrow> set (numbers (AckList_clear una al)) \<subseteq> set (numbers al)"
  using AckList_clear_filter [of al una] by (auto simp: numbers_acks)

lemma acklist_wf_add: "acklist_wf al \<Longrightarrow> acklist_wf (AckList_add n ts al)"
  by (simp add: acklist_wf_def AckList_add_def)

definition ack_state_ok :: "AckList \<Rightarrow> AckList \<times> AckSegment \<times> AckSegment list \<Rightarrow> bool" where
  "ack_state_ok al st \<longleftrightarrow>
     (case st of (al', seg, result) \<Rightarrow>
        numbers al' = numbers al \<and> acklist_wf al' \<and> set (flush_candidates al') \<subseteq> set (numbers al) \<and>
        (\<forall>s \<in> set (seg # result). set (a_number_list s) \<subseteq> set (numbers al)))"

lemma flush_turn_ok:
  assumes "ack_state_ok al st" and "i < length (numbers al)"
  shows "ack_state_ok al (flush_turn current rto conv m i st)"
proof -
  obtain al' seg result where st: "st = (al', seg, result)" by (cases st)
  have "numbers al ! i \<in> set (numbers al)" using assms(2) by simp
  with assms st show ?thesis
    by (auto simp: ack_state_ok_def flush_turn_def Let_def acklist_wf_def put_timestamp_def put_number_def
        AckSegment_new_def)
qed

lemma flush_fold_ok:
  "ack_state_ok al st \<Longrightarrow> \<forall>i \<in> set is'. i < length (numbers al) \<Longrightarrow>
   ack_state_ok al (fold (flush_turn current rto conv m) is' st)"
  by (induction is' arbitrary: st) (simp_all add: flush_turn_ok)

lemma fill_candidates_numbers:
  "set (a_number_list (fill_candidates ns seg)) \<subseteq> set (a_number_list seg) \<union> set ns"
proof (induction ns arbitrary: seg)
  case (Cons n ns)
  from Cons [of "put_number n seg"] show ?case by (auto simp: put_number_def)
qed simp

lemma AckList_flush_sound:
  assumes "acklist_wf al" and "AckList_flush current rto conv al = (segs, al')"
  shows "numbers al' = numbers al \<and> acklist_wf al' \<and> (\<forall>s \<in> set segs. set (a_number_list s) \<subseteq> set (numbers al))"
proof -
  let ?al = "al\<lparr>flush_candidates := []\<rparr>"
  let ?m = "(unat (al_mss al) - 17) div 4"
  let ?r = "fold (flush_turn current rto conv ?m) [0..<length (numbers al)]
      (?al, (AckSegment_new ?m)\<lparr>a_conv := conv\<rparr>, [])"
  obtain al2 seg result where r: "?r = (al2, seg, result)" by (cases ?r)
  have "ack_state_ok al (?al, (AckSegment_new ?m)\<lparr>a_conv := conv\<rparr>, [])"
    using assms(1) by (simp add: ack_state_ok_def acklist_wf_def AckSegment_new_def)
  from flush_fold_ok [OF this, of "[0..<length (numbers al)]" current rto conv ?m] r
  have ok: "ack_state_ok al (al2, seg, result)" by simp
  have "set (a_number_list (fill_candidates (flush_candidates al2) seg)) \<subseteq> set (numbers al)"
    using fill_candidates_numbers [of "flush_candidates al2" seg] ok by (auto simp: ack_state_ok_def)
  moreover have "segs = result \<or> segs = result @ [fill_candidates (flush_candidates al2) seg]"
    and "al' = al2 \<or> al' = al2\<lparr>dirty := False\<rparr>"
    using r assms(2) by (auto simp: AckList_flush_def Let_def split: if_splits)
  ultimately show ?thesis
    using ok unfolding ack_state_ok_def acklist_wf_def by (elim disjE) simp_all
qed

section \<open>The sender's window\<close>

definition snumbers :: "SendingWorker \<Rightarrow> u32 list" where
  "snumbers s = map d_number (cache (window s))"

text \<open>What identifies a segment: its number and payload. The rest is transmission bookkeeping.\<close>

definition seg_key :: "DataSegment \<Rightarrow> u32 \<times> u8 list" where
  "seg_key d = (d_number d, d_payload d)"

lemma seg_key_update [simp]:
  "seg_key (d\<lparr>d_timeout := a\<rparr>) = seg_key d" "seg_key (d\<lparr>d_timestamp := a\<rparr>) = seg_key d"
  "seg_key (d\<lparr>d_transmit := a\<rparr>) = seg_key d" "seg_key (d\<lparr>d_conv := c\<rparr>) = seg_key d"
  "seg_key (d\<lparr>d_sending_next := a\<rparr>) = seg_key d" "seg_key (d\<lparr>d_option := b\<rparr>) = seg_key d"
  by (simp_all add: seg_key_def)

definition scontent :: "SendingWorker \<Rightarrow> (u32 \<times> u8 list) list" where
  "scontent s = map seg_key (cache (window s))"

lemma snumbers_scontent: "snumbers s = map fst (scontent s)"
  by (simp add: snumbers_def scontent_def seg_key_def comp_def)

lemma fast_ack_loop_content:
  "map seg_key (fast_ack_loop n rto ss) = map seg_key ss"
  by (induction ss) auto

lemma flush_loop_content:
  "flush_loop cur rto mx k t ss = (c, t', r) \<Longrightarrow>
   map seg_key c = map seg_key ss \<and>
   seg_key ` set r \<subseteq> seg_key ` set ss"
proof (induction cur rto mx k t ss arbitrary: c t' r rule: flush_loop.induct)
  case (2 current rto mx k t s ss)
  show ?case
  proof (cases "current - d_timeout s \<ge> 0x7FFFFFFF")
    case True
    then show ?thesis using 2 by (auto split: prod.splits)
  next
    case False
    define t2 where "t2 = (if d_transmit s = 0 then t + 1 else t)"
    obtain c2 t3 r2 where f: "flush_loop current rto mx (k + 1) t2 ss = (c2, t3, r2)"
      by (cases "flush_loop current rto mx (k + 1) t2 ss")
    show ?thesis
    proof (cases "k + 1 \<ge> mx")
      case True
      then show ?thesis using False 2(3) by (auto simp: Let_def)
    next
      case mx: False
      from 2(2) [OF False t2_def refl refl mx f]
      have "map seg_key c2 = map seg_key ss"
        "seg_key ` set r2 \<subseteq> seg_key ` set ss" by auto
      with False mx f 2(3) show ?thesis by (clarsimp simp: Let_def t2_def) blast
    qed
  qed
qed simp

lemma SendingWorker_flush_content:
  assumes "SendingWorker_flush current c rto s = Ok (segs, s')"
  shows "scontent s' = scontent s \<and> next_number s' = next_number s \<and>
    seg_key ` set segs \<subseteq> set (scontent s)"
proof -
  have "scontent s' = scontent s \<and> seg_key ` set segs \<subseteq> set (scontent s)
      \<and> next_number s' = next_number s"
    using assms
    by (auto simp: SendingWorker_flush_def rbind_eq_Ok Let_def SendingWindow_flush_def scontent_def
        split: if_splits prod.splits dest!: flush_loop_content)
  then show ?thesis by simp
qed

lemma find_first_content [simp]:
  "scontent (find_first_unacknowledged s) = scontent s" "next_number (find_first_unacknowledged s) = next_number s"
  by (simp_all add: find_first_unacknowledged_def Let_def scontent_def)

lemma remove_first_content:
  "set (map seg_key (remove_first n ss)) \<subseteq> set (map seg_key ss) \<and>
   (\<forall>k \<in> set (map seg_key ss). fst k \<noteq> n \<longrightarrow> k \<in> set (map seg_key (remove_first n ss))) \<and>
   (distinct (map d_number ss) \<longrightarrow> distinct (map d_number (remove_first n ss)))"
proof -
  have sub: "set (remove_first n ss) \<subseteq> set ss" for ss by (induction ss) auto
  have "d \<in> set (remove_first n ss)" if "d \<in> set ss" "d_number d \<noteq> n" for d
    using that by (induction ss) auto
  moreover have "distinct (map d_number (remove_first n ss))" if "distinct (map d_number ss)"
    using that by (induction ss) (auto dest: subsetD [OF sub])
  ultimately show ?thesis using sub [of ss] by (auto simp: seg_key_def image_iff)
qed

lemma distinct_snumbers_clear:
  "distinct (map d_number ss) \<Longrightarrow> distinct (map d_number (dropWhile P ss))"
  by (induction ss) auto

text \<open>Processing an acknowledgement takes away only what it acknowledges.\<close>

lemma process_receiving_next_content:
  "set (scontent (process_receiving_next n s)) \<subseteq> set (scontent s) \<and>
   next_number (process_receiving_next n s) = next_number s \<and>
   (\<forall>k \<in> set (scontent s). \<not> fst k < n \<longrightarrow> k \<in> set (scontent (process_receiving_next n s))) \<and>
   (distinct (snumbers s) \<longrightarrow> distinct (snumbers (process_receiving_next n s)))"
proof -
  have "d \<in> set (dropWhile (\<lambda>s. d_number s < n) ss)" if "d \<in> set ss" "\<not> d_number d < n" for d ss
    using that by (induction ss) auto
  then have "\<forall>k \<in> set (scontent s). \<not> fst k < n \<longrightarrow> k \<in> set (scontent (process_receiving_next n s))"
    by (auto simp: process_receiving_next_def)
      (auto simp: scontent_def SendingWindow_clear_def seg_key_def)
  then show ?thesis
    by (auto simp: process_receiving_next_def snumbers_scontent)
      (auto simp: scontent_def SendingWindow_clear_def seg_key_def comp_def distinct_snumbers_clear
        dest: set_dropWhileD)
qed

lemma process_ack_content:
  assumes "process_ack n s = (b, s')"
  shows "set (scontent s') \<subseteq> set (scontent s) \<and> next_number s' = next_number s \<and>
   (\<forall>k \<in> set (scontent s). fst k \<noteq> n \<longrightarrow> k \<in> set (scontent s')) \<and>
   (distinct (snumbers s) \<longrightarrow> distinct (snumbers s'))"
  using assms remove_first_content [of n "cache (window s)"]
  by (auto simp: process_ack_def SendingWindow_remove_def Let_def snumbers_scontent
      split: if_splits) (auto simp: scontent_def comp_def seg_key_def)

lemma ack_loop_content:
  "ack_loop ns m r s = (m', r', s') \<Longrightarrow>
   set (scontent s') \<subseteq> set (scontent s) \<and> next_number s' = next_number s \<and>
   (\<forall>k \<in> set (scontent s). fst k \<notin> set ns \<longrightarrow> k \<in> set (scontent s')) \<and>
   (distinct (snumbers s) \<longrightarrow> distinct (snumbers s'))"
proof (induction ns arbitrary: m r s)
  case (Cons n ns)
  obtain b s2 where p: "process_ack n s = (b, s2)" by (cases "process_ack n s")
  from Cons.prems p obtain m2 r2 where l: "ack_loop ns m2 r2 s2 = (m', r', s')"
    by (auto split: if_splits)
  from process_ack_content [OF p] Cons.IH [OF l] show ?case by auto
qed simp

lemma process_segment_content:
  "set (scontent (SendingWorker_process_segment seg rto s)) \<subseteq> set (scontent s) \<and>
   next_number (SendingWorker_process_segment seg rto s) = next_number s \<and>
   (\<forall>k \<in> set (scontent s). \<not> fst k < a_receiving_next seg \<longrightarrow> fst k \<notin> set (a_number_list seg) \<longrightarrow>
      k \<in> set (scontent (SendingWorker_process_segment seg rto s))) \<and>
   (distinct (snumbers s) \<longrightarrow> distinct (snumbers (SendingWorker_process_segment seg rto s)))"
proof (cases "sw_closed s")
  case True
  then show ?thesis by (simp add: SendingWorker_process_segment_def)
next
  case False
  define s1 where "s1 = (if remote_next_number s < a_receiving_window seg
    then s\<lparr>remote_next_number := a_receiving_window seg\<rparr> else s)"
  define s2 where "s2 = process_receiving_next (a_receiving_next seg) s1"
  obtain m r s3 where l: "ack_loop (a_number_list seg) 0 False s2 = (m, r, s3)"
    by (cases "ack_loop (a_number_list seg) 0 False s2")
  have s1: "scontent s1 = scontent s" "next_number s1 = next_number s"
    by (simp_all add: s1_def scontent_def)
  have f: "scontent (s3\<lparr>window := handle_fast_ack m rto (window s3)\<rparr>) = scontent s3"
    using fast_ack_loop_content [of m rto "cache (window s3)"] by (simp add: scontent_def handle_fast_ack_def)
  have e: "SendingWorker_process_segment seg rto s =
    (if AckSegment_is_empty seg then s2 else if r then s3\<lparr>window := handle_fast_ack m rto (window s3)\<rparr> else s3)"
    using False l by (simp add: SendingWorker_process_segment_def Let_def s1_def s2_def)
  from process_receiving_next_content [of "a_receiving_next seg" s1] ack_loop_content [OF l]
  show ?thesis
    unfolding e snumbers_scontent s2_def [symmetric] s1 by (auto simp: f s1)
qed

section \<open>Two workers and a network\<close>

text \<open>
  The sender's window and the receiver's window joined by a network that keeps every segment it was
  given: a segment may arrive any number of times, in any order, or never. Acknowledgements travel
  the same way. \<open>pushed\<close> and \<open>got\<close> record what the two applications gave and received.
\<close>

record kcp_link =
  snd_w :: SendingWorker
  rcv_w :: ReceivingWorker
  pushed :: "u8 list list"
  got :: "u8 list list"
  data_net :: "DataSegment set"
  ack_net :: "AckSegment set"

text \<open>The fields \<open>Connection::flush\<close> fills in before a segment is sent.\<close>

definition stamp :: "u16 \<Rightarrow> u32 \<Rightarrow> SegmentOption \<Rightarrow> DataSegment \<Rightarrow> DataSegment" where
  "stamp conv una opt d = d\<lparr>d_conv := conv, d_sending_next := una, d_option := opt\<rparr>"

inductive link_step :: "Config \<Rightarrow> kcp_link \<Rightarrow> kcp_link \<Rightarrow> bool" for cfg where
  l_push: "SendingWorker_push p (snd_w l) = (True, s) \<Longrightarrow> length (pushed l) < 2 ^ 31 \<Longrightarrow>
    link_step cfg l (l\<lparr>snd_w := s, pushed := pushed l @ [p]\<rparr>)"
| l_send: "SendingWorker_flush current cfg rto (snd_w l) = Ok (segs, s) \<Longrightarrow>
    link_step cfg l (l\<lparr>snd_w := s, data_net := data_net l \<union>
      stamp conv (first_unacknowledged (snd_w l)) opt ` set segs\<rparr>)"
| l_data: "d \<in> data_net l \<Longrightarrow>
    link_step cfg l (l\<lparr>rcv_w := ReceivingWorker_process_segment d (rcv_w l)\<rparr>)"
| l_read: "read_multi_buffer (rcv_w l) = (ps, r) \<Longrightarrow> link_step cfg l (l\<lparr>rcv_w := r, got := got l @ ps\<rparr>)"
| l_ack: "flush_acks current rto conv (rcv_w l) = (segs, r) \<Longrightarrow>
    link_step cfg l (l\<lparr>rcv_w := r, ack_net := ack_net l \<union> set segs\<rparr>)"
| l_acked: "a \<in> ack_net l \<Longrightarrow>
    link_step cfg l (l\<lparr>snd_w := SendingWorker_process_segment a rto (snd_w l)\<rparr>)"

definition link_init :: "Config \<Rightarrow> kcp_link \<Rightarrow> bool" where
  "link_init cfg l \<longleftrightarrow>
     (\<exists>s. SendingWorker_new cfg = Ok s \<and>
        l = \<lparr>snd_w = s, rcv_w = ReceivingWorker_new (mss cfg), pushed = [], got = [], data_net = {}, ack_net = {}\<rparr>)"

definition good_key :: "u8 list list \<Rightarrow> u32 \<times> u8 list \<Rightarrow> bool" where
  "good_key ps k \<longleftrightarrow> unat (fst k) < length ps \<and> snd k = ps ! unat (fst k)"

definition arrived :: "kcp_link \<Rightarrow> u32 \<Rightarrow> bool" where
  "arrived l n \<longleftrightarrow> unat n < length (got l) \<or> n \<in> fst ` set (rw_window (rcv_w l))"

definition sender_ok :: "kcp_link \<Rightarrow> bool" where
  "sender_ok l \<longleftrightarrow>
     length (pushed l) \<le> 2 ^ 31 \<and> next_number (snd_w l) = word_of_nat (length (pushed l)) \<and>
     distinct (snumbers (snd_w l)) \<and> (\<forall>k \<in> set (scontent (snd_w l)). good_key (pushed l) k) \<and>
     (\<forall>n < length (pushed l). word_of_nat n \<in> set (snumbers (snd_w l)) \<or> arrived l (word_of_nat n))"

definition receiver_ok :: "kcp_link \<Rightarrow> bool" where
  "receiver_ok l \<longleftrightarrow>
     rw_next_number (rcv_w l) = word_of_nat (length (got l)) \<and> prefix (got l) (pushed l) \<and>
     (\<forall>(n, d) \<in> set (rw_window (rcv_w l)). d_number d = n \<and> good_key (pushed l) (seg_key d)) \<and>
     acklist_wf (acklist (rcv_w l)) \<and> (\<forall>n \<in> set (numbers (acklist (rcv_w l))). arrived l n)"

definition net_ok :: "kcp_link \<Rightarrow> bool" where
  "net_ok l \<longleftrightarrow>
     (\<forall>d \<in> data_net l. good_key (pushed l) (seg_key d)) \<and>
     (\<forall>a \<in> ack_net l. unat (a_receiving_next a) \<le> length (got l) \<and> (\<forall>n \<in> set (a_number_list a). arrived l n))"

definition link_inv :: "kcp_link \<Rightarrow> bool" where
  "link_inv l \<longleftrightarrow> sender_ok l \<and> receiver_ok l \<and> net_ok l"

lemma good_key_append: "good_key ps k \<Longrightarrow> good_key (ps @ qs) k"
  by (simp add: good_key_def nth_append)

lemma read_loop_reads:
  assumes "read_loop w n = (out, w', n')" and "\<forall>(k, d) \<in> set w. d_number d = k \<and> good_key ps (seg_key d)"
    and "n = word_of_nat m" and "m \<le> length ps" and "length ps \<le> 2 ^ 31"
  shows "prefix out (drop m ps) \<and> n' = word_of_nat (m + length out) \<and> set w' \<subseteq> set w \<and>
    (\<forall>k \<in> fst ` set w. k \<in> fst ` set w' \<or> unat k < m + length out)"
  using assms
proof (induction w n arbitrary: m out w' n' rule: read_loop.induct)
  case (1 w n)
  show ?case
  proof (cases "map_of w n")
    case None
    then have "out = [] \<and> w' = w \<and> n' = n" using 1(2) by (auto simp: read_loop.simps [of w n])
    then show ?thesis using 1(4) by simp
  next
    case (Some d)
    obtain out2 where r: "read_loop (AList.delete n w) (n + 1) = (out2, w', n')" and out: "out = d_payload d # out2"
      using 1(2) Some by (auto simp: read_loop.simps [of w n] split: prod.splits)
    have "(n, d) \<in> set w" using Some by (rule map_of_SomeD)
    then have g: "unat n < length ps" "d_payload d = ps ! unat n"
      using 1(3) by (auto simp: good_key_def seg_key_def)
    have un: "unat n = m" using 1(4-6) by (simp add: unat_of_nat)
    have sub: "set (AList.delete n w) \<subseteq> set w" by (auto simp: AList.delete_eq)
    have ih: "prefix out2 (drop (Suc m) ps) \<and> n' = word_of_nat (Suc m + length out2) \<and> set w' \<subseteq> set (AList.delete n w) \<and>
      (\<forall>k \<in> fst ` set (AList.delete n w). k \<in> fst ` set w' \<or> unat k < Suc m + length out2)"
      using 1(1) [OF Some r, of "Suc m"] 1(3-6) sub g un by (auto simp: subset_eq)
    have "k \<in> fst ` set w' \<or> unat k < m + length out" if "k \<in> fst ` set w" for k
    proof (cases "k = n")
      case True
      then show ?thesis using un out by simp
    next
      case False
      with that have "k \<in> fst ` set (AList.delete n w)" by (force simp: AList.delete_eq)
      with ih out show ?thesis by auto
    qed
    moreover have "drop m ps = ps ! m # drop (Suc m) ps" using g un by (simp add: Cons_nth_drop_Suc)
    ultimately show ?thesis using ih out g un sub by auto
  qed
qed

lemma arrived_simps [simp]:
  "arrived (l\<lparr>snd_w := s\<rparr>) n = arrived l n" "arrived (l\<lparr>pushed := ps\<rparr>) n = arrived l n"
  "arrived (l\<lparr>data_net := D\<rparr>) n = arrived l n" "arrived (l\<lparr>ack_net := A\<rparr>) n = arrived l n"
  by (simp_all add: arrived_def)

lemma inv_push:
  assumes inv: "link_inv l" and push: "SendingWorker_push p (snd_w l) = (True, s)" and len: "length (pushed l) < 2 ^ 31"
  shows "link_inv (l\<lparr>snd_w := s, pushed := pushed l @ [p]\<rparr>)"
proof -
  let ?n = "length (pushed l)"
  have un: "unat (word_of_nat ?n :: u32) = ?n" using len by (simp add: unat_of_nat)
  have nx: "next_number (snd_w l) = word_of_nat ?n" using inv by (simp add: link_inv_def sender_ok_def)
  have c: "scontent s = scontent (snd_w l) @ [(word_of_nat ?n, p)]" and nn: "next_number s = word_of_nat (Suc ?n)"
    using push nx by (auto simp: SendingWorker_push_def scontent_def SendingWindow_push_def seg_key_def split: if_splits)
  have "word_of_nat ?n \<notin> set (snumbers (snd_w l))"
  proof
    assume "word_of_nat ?n \<in> set (snumbers (snd_w l))"
    then obtain k where "k \<in> set (scontent (snd_w l))" "fst k = word_of_nat ?n" by (auto simp: snumbers_scontent)
    then show False using inv un by (auto simp: link_inv_def sender_ok_def good_key_def)
  qed
  then have "sender_ok (l\<lparr>snd_w := s, pushed := pushed l @ [p]\<rparr>)"
    using inv c nn len un
    by (auto simp: link_inv_def sender_ok_def snumbers_scontent good_key_append good_key_def nth_append less_Suc_eq)
  moreover have "\<forall>(n, d) \<in> set (rw_window (rcv_w l)). d_number d = n \<and> good_key (pushed l @ [p]) (seg_key d)"
    using inv good_key_append [of "pushed l" _ "[p]"] by (fastforce simp: link_inv_def receiver_ok_def)
  ultimately show ?thesis
    using inv by (simp add: link_inv_def receiver_ok_def net_ok_def good_key_append)
qed

lemma inv_send:
  assumes inv: "link_inv l" and f: "SendingWorker_flush current cfg rto (snd_w l) = Ok (segs, s)"
  shows "link_inv (l\<lparr>snd_w := s, data_net := data_net l \<union> stamp conv una opt ` set segs\<rparr>)"
proof -
  have c: "scontent s = scontent (snd_w l)" "next_number s = next_number (snd_w l)"
    "seg_key ` set segs \<subseteq> set (scontent (snd_w l))" using SendingWorker_flush_content [OF f] by auto
  have "good_key (pushed l) (seg_key (stamp conv una opt d))" if "d \<in> set segs" for d
    using that c(3) inv by (auto simp: stamp_def link_inv_def sender_ok_def)
  then show ?thesis
    using inv c by (auto simp: link_inv_def sender_ok_def receiver_ok_def net_ok_def snumbers_scontent)
qed

lemma inv_data:
  assumes inv: "link_inv l" and d: "d \<in> data_net l"
  shows "link_inv (l\<lparr>rcv_w := ReceivingWorker_process_segment d (rcv_w l)\<rparr>)"
proof (cases "d_number d - rw_next_number (rcv_w l) \<ge> rw_window_size (rcv_w l)")
  case True
  then show ?thesis using inv by (simp add: ReceivingWorker_process_segment_def)
next
  case False
  let ?r = "rcv_w l" and ?r' = "ReceivingWorker_process_segment d (rcv_w l)"
  let ?w = "snd (ReceivingWindow_set (d_number d) d (rw_window ?r))"
  have g: "good_key (pushed l) (seg_key d)" using inv d by (auto simp: link_inv_def net_ok_def)
  have wf: "acklist_wf (acklist ?r)" using inv by (simp add: link_inv_def receiver_ok_def)
  have sub: "set ?w \<subseteq> insert (d_number d, d) (set (rw_window ?r))" and
    keys: "fst ` set ?w = insert (d_number d) (fst ` set (rw_window ?r))"
    using set_AList_update [of "d_number d" d "rw_window ?r"]
    by (auto simp: ReceivingWindow_set_def dom_update split: option.splits dest!: map_of_SomeD)
      (force simp: dom_update [symmetric])+
  have r': "rw_window ?r' = ?w" "rw_next_number ?r' = rw_next_number ?r"
    "acklist ?r' = AckList_add (d_number d) (d_timestamp d) (AckList_clear (d_sending_next d) (acklist ?r))"
    using False by (simp_all add: ReceivingWorker_process_segment_def)
  have ar: "arrived (l\<lparr>rcv_w := ?r'\<rparr>) n \<longleftrightarrow> arrived l n \<or> n = d_number d" for n
    by (auto simp: arrived_def r' keys)
  have "\<forall>n \<in> set (numbers (acklist ?r')). arrived (l\<lparr>rcv_w := ?r'\<rparr>) n"
    using inv numbers_AckList_clear [OF wf, of "d_sending_next d"]
    by (auto simp: ar r' AckList_add_def link_inv_def receiver_ok_def)
  moreover have "acklist_wf (acklist ?r')"
    using AckList_clear_filter [OF wf, of "d_sending_next d"] by (simp add: r' acklist_wf_add)
  moreover have "\<forall>(n, e) \<in> set ?w. d_number e = n \<and> good_key (pushed l) (seg_key e)"
    using sub inv g by (auto simp: link_inv_def receiver_ok_def)
  ultimately have "receiver_ok (l\<lparr>rcv_w := ?r'\<rparr>)"
    using inv by (simp add: link_inv_def receiver_ok_def r')
  then show ?thesis
    using inv ar by (auto simp: link_inv_def sender_ok_def net_ok_def)
qed

lemma inv_read:
  assumes inv: "link_inv l" and r: "read_multi_buffer (rcv_w l) = (ps, r)"
  shows "link_inv (l\<lparr>rcv_w := r, got := got l @ ps\<rparr>)"
proof -
  obtain w n where rl: "read_loop (rw_window (rcv_w l)) (rw_next_number (rcv_w l)) = (ps, w, n)"
    and r': "r = (rcv_w l)\<lparr>rw_window := w, rw_next_number := n\<rparr>"
    using r by (auto simp: read_multi_buffer_def split: prod.splits)
  have rc: "receiver_ok l" and sn: "sender_ok l" using inv by (auto simp: link_inv_def)
  have pre: "prefix (got l) (pushed l)" using rc by (simp add: receiver_ok_def)
  then have "length (got l) \<le> length (pushed l)" by (rule prefix_length_le)
  with read_loop_reads [OF rl, of "pushed l" "length (got l)"] rc sn
  have p: "prefix ps (drop (length (got l)) (pushed l))" "n = word_of_nat (length (got l) + length ps)"
    "set w \<subseteq> set (rw_window (rcv_w l))"
    "\<forall>k \<in> fst ` set (rw_window (rcv_w l)). k \<in> fst ` set w \<or> unat k < length (got l) + length ps"
    by (auto simp: receiver_ok_def sender_ok_def)
  have "prefix (got l @ ps) (pushed l)" using pre p(1) by (auto simp: prefix_def)
  moreover have ar: "arrived (l\<lparr>rcv_w := r, got := got l @ ps\<rparr>) k" if "arrived l k" for k
    using that p(4) by (auto simp: arrived_def r')
  ultimately have "receiver_ok (l\<lparr>rcv_w := r, got := got l @ ps\<rparr>)"
    using rc p(2,3) by (auto simp: receiver_ok_def r')
  moreover have "sender_ok (l\<lparr>rcv_w := r, got := got l @ ps\<rparr>)"
    using sn ar by (auto simp: sender_ok_def)
  ultimately show ?thesis
    using inv ar by (auto simp: link_inv_def net_ok_def)
qed

lemma inv_ack:
  assumes inv: "link_inv l" and f: "flush_acks current rto conv (rcv_w l) = (segs, r)"
  shows "link_inv (l\<lparr>rcv_w := r, ack_net := ack_net l \<union> set segs\<rparr>)"
proof -
  obtain ss al where fl: "AckList_flush current rto conv (acklist (rcv_w l)) = (ss, al)"
    and segs: "segs = map (\<lambda>s. s\<lparr>a_receiving_next := rw_next_number (rcv_w l),
      a_receiving_window := rw_next_number (rcv_w l) + rw_window_size (rcv_w l)\<rparr>) ss"
    and r: "r = (rcv_w l)\<lparr>acklist := al\<rparr>"
    using f by (auto simp: flush_acks_def split: prod.splits)
  have rc: "receiver_ok l" using inv by (simp add: link_inv_def)
  have ak: "numbers al = numbers (acklist (rcv_w l)) \<and> acklist_wf al \<and>
      (\<forall>s \<in> set ss. set (a_number_list s) \<subseteq> set (numbers (acklist (rcv_w l))))"
    by (rule AckList_flush_sound [OF _ fl]) (use rc in \<open>simp add: receiver_ok_def\<close>)
  have ar: "arrived (l\<lparr>rcv_w := r\<rparr>) n = arrived l n" for n by (simp add: arrived_def r)
  have "length (got l) \<le> length (pushed l)" using rc by (auto simp: receiver_ok_def prefix_length_le)
  then have un: "unat (rw_next_number (rcv_w l)) = length (got l)"
    using inv rc by (simp add: link_inv_def sender_ok_def receiver_ok_def unat_of_nat)
  have "receiver_ok (l\<lparr>rcv_w := r, ack_net := ack_net l \<union> set segs\<rparr>)"
    using rc ak by (simp add: receiver_ok_def ar [unfolded r] r)
  moreover have "sender_ok (l\<lparr>rcv_w := r, ack_net := ack_net l \<union> set segs\<rparr>)"
    using inv by (simp add: link_inv_def sender_ok_def ar)
  moreover have "\<forall>s \<in> set ss. \<forall>n \<in> set (a_number_list s). arrived l n"
    using ak rc unfolding receiver_ok_def by blast
  then have "net_ok (l\<lparr>rcv_w := r, ack_net := ack_net l \<union> set segs\<rparr>)"
    using inv un by (auto simp: link_inv_def net_ok_def ar segs)
  ultimately show ?thesis by (simp add: link_inv_def)
qed

lemma inv_acked:
  assumes inv: "link_inv l" and a: "a \<in> ack_net l"
  shows "link_inv (l\<lparr>snd_w := SendingWorker_process_segment a rto (snd_w l)\<rparr>)"
proof -
  let ?s = "SendingWorker_process_segment a rto (snd_w l)"
  note c = process_segment_content [of a rto "snd_w l"]
  have n: "unat (a_receiving_next a) \<le> length (got l)" "\<forall>n \<in> set (a_number_list a). arrived l n"
    using inv a by (auto simp: link_inv_def net_ok_def)
  have "word_of_nat m \<in> set (snumbers ?s) \<or> arrived l (word_of_nat m)" if m: "m < length (pushed l)" for m
  proof (cases "arrived l (word_of_nat m)")
    case False
    then obtain k where k: "k \<in> set (scontent (snd_w l))" "fst k = word_of_nat m"
      using inv m by (auto simp: link_inv_def sender_ok_def snumbers_scontent)
    have "\<not> fst k < a_receiving_next a" "fst k \<notin> set (a_number_list a)"
      using False k(2) n by (auto simp: arrived_def word_less_nat_alt)
    then have "k \<in> set (scontent ?s)" using c k(1) by blast
    then show ?thesis using k(2) by (force simp: snumbers_scontent)
  qed simp
  then have "sender_ok (l\<lparr>snd_w := ?s\<rparr>)"
    using inv c by (auto simp: link_inv_def sender_ok_def)
  then show ?thesis using inv by (simp add: link_inv_def receiver_ok_def net_ok_def)
qed

lemma link_inv_step: "link_inv l \<Longrightarrow> link_step cfg l l' \<Longrightarrow> link_inv l'"
  by (erule link_step.cases) (simp_all add: inv_push inv_send inv_data inv_read inv_ack inv_acked)

lemma link_inv_init: "link_init cfg l \<Longrightarrow> link_inv l"
  by (auto simp: link_init_def link_inv_def sender_ok_def receiver_ok_def net_ok_def SendingWorker_new_def
      rbind_eq_Ok snumbers_def scontent_def SendingWindow_new_def ReceivingWorker_new_def acklist_wf_def
      AckList_new_def)

interpretation kcp_sys: inv_system "link_init cfg" "link_step cfg" link_inv for cfg
  by unfold_locales (auto intro: link_inv_init link_inv_step)

text \<open>C2. Reliable, ordered delivery: over a network that loses, duplicates and reorders data and
  acknowledgement segments, in every reachable state the application at the receiver has got a
  prefix of what was pushed, in order and without duplicates, and every pushed chunk is still in
  the sender's window or has arrived at the receiver (up to 2^31 chunks).\<close>
theorem kcp_link_reliable:
  assumes "reach (link_init cfg) (link_step cfg) l"
  shows "prefix (got l) (pushed l) \<and>
    (\<forall>n. n < length (pushed l) \<longrightarrow> word_of_nat n \<in> set (snumbers (snd_w l)) \<or> n < length (got l) \<or>
       word_of_nat n \<in> fst ` set (rw_window (rcv_w l)))"
proof -
  have inv: "link_inv l" by (rule kcp_sys.inv_reach [OF assms])
  have "unat (word_of_nat n :: u32) = n" if "n < length (pushed l)" for n
    using inv that by (simp add: link_inv_def sender_ok_def unat_of_nat)
  with inv show ?thesis by (auto simp: link_inv_def sender_ok_def receiver_ok_def arrived_def)
qed

text \<open>A run with the default configuration: one chunk pushed, sent, received and read.\<close>

definition sw0 :: SendingWorker where
  "sw0 = \<lparr>window = SendingWindow_new, first_unacknowledged = 0, next_number = 0, remote_next_number = 32,
     control_window = 194, window_size = 1553, first_unacknowledged_updated = False, sw_closed = False\<rparr>"

lemma sw0_new: "SendingWorker_new Config_default = Ok sw0"
  by (simp add: SendingWorker_new_def sending_in_flight_size_def in_flight_size_def sending_buffer_size_def
      u32_div_def Config_default_def sw0_def)

definition link0 :: kcp_link where
  "link0 = \<lparr>snd_w = sw0, rcv_w = ReceivingWorker_new (mss Config_default), pushed = [], got = [],
     data_net = {}, ack_net = {}\<rparr>"

definition link1 :: kcp_link where
  "link1 = link0\<lparr>snd_w := snd (SendingWorker_push [1, 2] sw0), pushed := [[1, 2]]\<rparr>"

definition seg1 :: DataSegment where
  "seg1 = \<lparr>d_conv = 0, d_option = 0, d_timestamp = 5, d_number = 0, d_sending_next = 0, d_payload = [1, 2],
     d_timeout = 105, d_transmit = 1\<rparr>"

definition sw1 :: SendingWorker where
  "sw1 = sw0\<lparr>window := \<lparr>cache = [seg1], total_in_flight_size = 1\<rparr>, next_number := 1\<rparr>"

definition link4 :: kcp_link where
  "link4 = link1\<lparr>snd_w := sw1, data_net := {stamp 7 0 0 seg1},
     rcv_w := snd (read_multi_buffer (ReceivingWorker_process_segment (stamp 7 0 0 seg1) (rcv_w link0))),
     got := [[1, 2]]\<rparr>"

lemma link4_reached: "reach (link_init Config_default) (link_step Config_default) link4"
proof -
  let ?R = "reach (link_init Config_default) (link_step Config_default)"
  have r0: "?R link0" by (rule reach_init) (simp add: link_init_def sw0_new link0_def)
  have "SendingWorker_push [1, 2] (snd_w link0) = (True, snd (SendingWorker_push [1, 2] sw0))"
    by (simp add: link0_def SendingWorker_push_def sw0_def SendingWindow_new_def)
  then have "link_step Config_default link0 (link0\<lparr>snd_w := snd (SendingWorker_push [1, 2] sw0),
      pushed := pushed link0 @ [[1, 2]]\<rparr>)" by (rule l_push) (simp add: link0_def)
  then have r1: "?R link1" using reach_step [OF r0] by (simp add: link1_def link0_def)
  have "\<not> (32 :: u32) \<le> 1" by (simp add: word_le_nat_alt)
  then have "SendingWorker_flush 5 Config_default 100 (snd_w link1) = Ok ([seg1], sw1)"
    by (simp add: Let_def link1_def SendingWorker_push_def SendingWorker_flush_def sending_in_flight_size_def
        in_flight_size_def u32_div_def Config_default_def sw0_def SendingWindow_new_def SendingWindow_push_def
        SendingWindow_flush_def seg1_def sw1_def)
  then have "link_step Config_default link1 (link1\<lparr>snd_w := sw1, data_net := data_net link1 \<union>
      stamp 7 (first_unacknowledged (snd_w link1)) 0 ` set [seg1]\<rparr>)" by (rule l_send)
  moreover have "first_unacknowledged (snd_w link1) = 0"
    by (simp add: link1_def SendingWorker_push_def sw0_def SendingWindow_new_def)
  ultimately have r2: "?R (link1\<lparr>snd_w := sw1, data_net := {stamp 7 0 0 seg1}\<rparr>)"
    using reach_step [OF r1] by (simp add: link1_def link0_def)
  let ?l = "link1\<lparr>snd_w := sw1, data_net := {stamp 7 0 0 seg1}\<rparr>"
  let ?r = "ReceivingWorker_process_segment (stamp 7 0 0 seg1) (rcv_w link0)"
  have "?R (?l\<lparr>rcv_w := ReceivingWorker_process_segment (stamp 7 0 0 seg1) (rcv_w ?l)\<rparr>)"
    by (rule reach_step [OF r2]) (rule l_data, simp)
  then have r3: "?R (?l\<lparr>rcv_w := ?r\<rparr>)" by (simp add: link1_def)
  have "read_multi_buffer (rcv_w (?l\<lparr>rcv_w := ?r\<rparr>)) = ([[1, 2]], snd (read_multi_buffer ?r))"
    by (simp add: read_multi_buffer_def read_loop.simps ReceivingWorker_process_segment_def link0_def
        ReceivingWorker_new_def ReceivingWindow_set_def stamp_def seg1_def)
  from l_read [OF this] show ?thesis using reach_step [OF r3] by (simp add: link4_def link1_def link0_def)
qed

theorem kcp_link_reliable_witness:
  "prefix (got link4) (pushed link4) \<and> got link4 = [[1, 2]]"
  using kcp_link_reliable [OF link4_reached] by (simp add: link4_def)

end
