(* ===== verification/Kcp_Conn.thy ===== *)
theory Kcp_Conn
  imports Kcp_Window
begin

text \<open>
  \<^verbatim>\<open>astra-core-transport-kcp\<close>: the connection (\<^verbatim>\<open>connection.rs\<close>) and the packet dispatch of the listener
  and the dialer (\<^verbatim>\<open>listener.rs\<close>, \<^verbatim>\<open>dialer.rs\<close>).

  A handler runs to completion on the connection record. Every read of the clock may see a later
  time: \<open>clk\<close> gives the elapsed milliseconds at the \<open>ticks\<close>-th read. The workers are behind tokio
  mutexes taken with \<^verbatim>\<open>blocking_lock\<close>, which tokio documents to panic when called from an asynchronous
  task; the parameter \<open>blk\<close> says whether the caller may block. Packets handed to the writer are
  collected in \<open>out\<close>; a failed write is ignored by the code. A \<open>Notify\<close> is its permit.
\<close>

section \<open>Round-trip estimation\<close>

record RoundTripInfo =
  variation :: u32
  srtt :: u32
  rto :: u32
  min_rtt :: u32
  updated_timestamp :: u32

definition RoundTripInfo_new :: "u32 \<Rightarrow> RoundTripInfo" where
  "RoundTripInfo_new m = \<lparr>variation = 0, srtt = 0, rto = 100, min_rtt = m, updated_timestamp = 0\<rparr>"

definition update_peer_rto :: "u32 \<Rightarrow> u32 \<Rightarrow> RoundTripInfo \<Rightarrow> RoundTripInfo" where
  "update_peer_rto r current t =
     (if current - updated_timestamp t < 3000 then t else t\<lparr>updated_timestamp := current, rto := r\<rparr>)"

definition abs_diff :: "u32 \<Rightarrow> u32 \<Rightarrow> u32" where
  "abs_diff a b = (if a \<ge> b then a - b else b - a)"

definition RoundTripInfo_update :: "u32 \<Rightarrow> u32 \<Rightarrow> RoundTripInfo \<Rightarrow> RoundTripInfo" where
  "RoundTripInfo_update rtt current t =
     (if rtt > 0x7FFFFFFF then t
      else let t = (if srtt t = 0 then t\<lparr>srtt := rtt, variation := rtt div 2\<rparr>
                    else let delta = abs_diff rtt (srtt t);
                             t = t\<lparr>variation := (3 * variation t + delta) div 4, srtt := (7 * srtt t + rtt) div 8\<rparr>
                         in if srtt t < min_rtt t then t\<lparr>srtt := min_rtt t\<rparr> else t);
               r = (if min_rtt t < 4 * variation t then srtt t + 4 * variation t else srtt t + variation t);
               r = min r 10000
           in t\<lparr>rto := r * 5 div 4, updated_timestamp := current\<rparr>)"

definition timeout :: "RoundTripInfo \<Rightarrow> u32" where "timeout t = rto t"

section \<open>The connection\<close>

datatype State = Active | ReadyToClose | PeerClosed | Terminating | PeerTerminating | Terminated

definition State_from_i32 :: "int \<Rightarrow> State" where
  "State_from_i32 v =
     (if v = 0 then Active else if v = 1 then ReadyToClose else if v = 2 then PeerClosed
      else if v = 3 then Terminating else if v = 4 then PeerTerminating else if v = 5 then Terminated
      else Active)"

record Connection =
  conversation :: u16
  config :: Config
  state :: State
  state_begin_time :: u32
  last_incoming_time :: u32
  last_ping_time :: u32
  conn_mss :: u32
  data_input :: bool
  data_output :: bool
  round_trip :: RoundTripInfo
  receiving_worker :: ReceivingWorker
  sending_worker :: SendingWorker
  out :: "u8 list list"
  ticks :: nat

definition Connection_new :: "u16 \<Rightarrow> Config \<Rightarrow> (unit, Connection) res" where
  "Connection_new conv cfg =
     rbind (SendingWorker_new cfg) (\<lambda>sw.
       Ok \<lparr>conversation = conv, config = cfg, state = Active, state_begin_time = 0, last_incoming_time = 0,
           last_ping_time = 0, conn_mss = mss cfg, data_input = False, data_output = False,
           round_trip = RoundTripInfo_new (tti cfg), receiving_worker = ReceivingWorker_new (mss cfg),
           sending_worker = sw, out = [], ticks = 0\<rparr>)"

definition elapsed :: "(nat \<Rightarrow> u32) \<Rightarrow> Connection \<Rightarrow> u32 \<times> Connection" where
  "elapsed clk c = (clk (ticks c), c\<lparr>ticks := Suc (ticks c)\<rparr>)"

definition on_sw :: "bool \<Rightarrow> (SendingWorker \<Rightarrow> SendingWorker) \<Rightarrow> Connection \<Rightarrow> (unit, Connection) res" where
  "on_sw blk f c = rbind (blocking_lock blk) (\<lambda>_. Ok (c\<lparr>sending_worker := f (sending_worker c)\<rparr>))"

definition on_rw :: "bool \<Rightarrow> (ReceivingWorker \<Rightarrow> ReceivingWorker) \<Rightarrow> Connection \<Rightarrow> (unit, Connection) res" where
  "on_rw blk f c = rbind (blocking_lock blk) (\<lambda>_. Ok (c\<lparr>receiving_worker := f (receiving_worker c)\<rparr>))"

definition set_state :: "bool \<Rightarrow> (nat \<Rightarrow> u32) \<Rightarrow> State \<Rightarrow> Connection \<Rightarrow> (unit, Connection) res" where
  "set_state blk clk st c =
     (let (current, c) = elapsed clk c;
          c = c\<lparr>state := st, state_begin_time := current\<rparr>
      in case st of
           ReadyToClose \<Rightarrow> on_rw blk close_read c
         | PeerClosed \<Rightarrow> on_sw blk close_write c
         | Terminating \<Rightarrow> rbind (on_rw blk close_read c) (on_sw blk close_write)
         | PeerTerminating \<Rightarrow> on_sw blk close_write c
         | Terminated \<Rightarrow>
             rbind (on_rw blk close_read c) (\<lambda>c. rbind (on_sw blk close_write c) (\<lambda>c.
               Ok (c\<lparr>data_input := True, data_output := True\<rparr>)))
         | Active \<Rightarrow> Ok c)"

definition conn_close :: "bool \<Rightarrow> (nat \<Rightarrow> u32) \<Rightarrow> Connection \<Rightarrow> (unit, Connection) res" where
  "conn_close blk clk c =
     (let c = c\<lparr>data_input := True, data_output := True\<rparr>
      in case state c of
           Active \<Rightarrow> set_state blk clk ReadyToClose c
         | PeerClosed \<Rightarrow> set_state blk clk Terminating c
         | PeerTerminating \<Rightarrow> set_state blk clk Terminated c
         | _ \<Rightarrow> Ok c)"

definition write_packet :: "u8 list \<Rightarrow> Connection \<Rightarrow> Connection" where
  "write_packet p c = c\<lparr>out := out c @ [p]\<rparr>"

definition ping :: "bool \<Rightarrow> u32 \<Rightarrow> Command \<Rightarrow> Connection \<Rightarrow> (unit, Connection) res" where
  "ping blk current cmd c =
     rbind (blocking_lock blk) (\<lambda>_.
       let seg = (CmdOnlySegment_new cmd)
             \<lparr>c_conv := conversation c, c_receiving_next := rw_next_number (receiving_worker c),
              c_sending_next := first_unacknowledged (sending_worker c), c_peer_rto := timeout (round_trip c)\<rparr>;
           seg = (if state c = ReadyToClose then seg\<lparr>c_option := OPT_CLOSE\<rparr> else seg)
       in Ok ((write_packet (CmdOnlySegment_serialize seg) c)\<lparr>last_ping_time := current\<rparr>))"

definition send_acks :: "bool \<Rightarrow> u32 \<Rightarrow> u32 \<Rightarrow> Connection \<Rightarrow> (unit, Connection) res" where
  "send_acks blk current r c =
     rbind (blocking_lock blk) (\<lambda>_.
       case flush_acks current r (conversation c) (receiving_worker c) of (segs, rw) \<Rightarrow>
         Ok (foldl (\<lambda>c s. write_packet (AckSegment_serialize s) c) (c\<lparr>receiving_worker := rw\<rparr>) segs))"

definition send_data :: "bool \<Rightarrow> u32 \<Rightarrow> u32 \<Rightarrow> Connection \<Rightarrow> (unit, Connection) res" where
  "send_data blk current r c =
     rbind (blocking_lock blk) (\<lambda>_.
       let has_close = (state c = ReadyToClose); first_una = first_unacknowledged (sending_worker c) in
       rbind (SendingWorker_flush current (config c) r (sending_worker c)) (\<lambda>(segs, sw).
         Ok (foldl (\<lambda>c s. write_packet (DataSegment_serialize
               (stamp (conversation c) first_una (if has_close then OPT_CLOSE else 0) s)) c)
             (c\<lparr>sending_worker := sw\<rparr>) segs)))"

text \<open>\<open>flush\<close>: first the state timeouts, then what is sent.\<close>

definition flush_body :: "bool \<Rightarrow> (nat \<Rightarrow> u32) \<Rightarrow> u32 \<Rightarrow> Connection \<Rightarrow> (unit, Connection) res" where
  "flush_body blk clk current c =
     rbind (if state c = PeerTerminating \<and> current - state_begin_time c > 4000
            then set_state blk clk Terminating c else Ok c) (\<lambda>c.
     rbind (if state c = ReadyToClose \<and> current - state_begin_time c > 15000
            then set_state blk clk Terminating c else Ok c) (\<lambda>c.
     rbind (blocking_lock blk) (\<lambda>_.
     let r = timeout (round_trip c) in
     rbind (send_acks blk current r c) (\<lambda>c.
     rbind (send_data blk current r c) (\<lambda>c.
       if current - last_ping_time c \<ge> 3000 then ping blk current CPing c else Ok c)))))"

definition conn_flush :: "bool \<Rightarrow> (nat \<Rightarrow> u32) \<Rightarrow> Connection \<Rightarrow> (unit, Connection) res" where
  "conn_flush blk clk c =
     (let (current, c) = elapsed clk c in
      if state c = Terminated then Ok c
      else rbind (if state c = Active \<and> current - last_incoming_time c \<ge> 30000
                  then conn_close blk clk c else Ok c) (\<lambda>c.
           rbind (if state c = ReadyToClose
                  then rbind (blocking_lock blk) (\<lambda>_.
                    if SendingWorker_is_empty (sending_worker c) then set_state blk clk Terminating c else Ok c)
                  else Ok c) (\<lambda>c.
           if state c = Terminating
           then rbind (ping blk current CTerminate c) (\<lambda>c.
                  if current - state_begin_time c > 8000 then set_state blk clk Terminated c else Ok c)
           else flush_body blk clk current c)))"

text \<open>One tick of the two background loops; \<open>False\<close> when the loop ends.\<close>

definition data_updater_tick :: "bool \<Rightarrow> (nat \<Rightarrow> u32) \<Rightarrow> Connection \<Rightarrow> (unit, bool \<times> Connection) res" where
  "data_updater_tick blk clk c =
     (if state c = Terminated \<or> state c = Terminating then Ok (False, c)
      else rbind (blocking_lock blk) (\<lambda>_.
        let needs_update = SendingWorker_update_necessary (sending_worker c) \<or>
                           ReceivingWorker_update_necessary (receiving_worker c) in
        if \<not> needs_update \<and> state c = Active then Ok (True, c)
        else rbind (conn_flush blk clk c) (\<lambda>c. Ok (True, c))))"

definition ping_updater_tick :: "bool \<Rightarrow> (nat \<Rightarrow> u32) \<Rightarrow> Connection \<Rightarrow> (unit, bool \<times> Connection) res" where
  "ping_updater_tick blk clk c =
     (if state c = Terminated then Ok (False, c) else rbind (conn_flush blk clk c) (\<lambda>c. Ok (True, c)))"

section \<open>Incoming segments\<close>

definition handle_option :: "bool \<Rightarrow> (nat \<Rightarrow> u32) \<Rightarrow> SegmentOption \<Rightarrow> Connection \<Rightarrow> (unit, Connection) res" where
  "handle_option blk clk opt c =
     (if contains_close opt
      then (case state c of
              ReadyToClose \<Rightarrow> set_state blk clk Terminating c
            | Active \<Rightarrow> set_state blk clk PeerClosed c
            | _ \<Rightarrow> Ok c)
      else Ok c)"

definition input_data :: "bool \<Rightarrow> (nat \<Rightarrow> u32) \<Rightarrow> DataSegment \<Rightarrow> Connection \<Rightarrow> (unit, Connection) res" where
  "input_data blk clk ds c =
     (if d_conv ds \<noteq> conversation c then Ok c
      else rbind (handle_option blk clk (d_option ds) c) (\<lambda>c.
           rbind (on_rw blk (ReceivingWorker_process_segment ds) c) (\<lambda>c.
             Ok (if is_data_available (receiving_worker c) then c\<lparr>data_input := True\<rparr> else c))))"

definition input_ack :: "bool \<Rightarrow> (nat \<Rightarrow> u32) \<Rightarrow> AckSegment \<Rightarrow> Connection \<Rightarrow> (unit, Connection) res" where
  "input_ack blk clk a c =
     (if a_conv a \<noteq> conversation c then Ok c
      else rbind (handle_option blk clk (a_option a) c) (\<lambda>c.
           rbind (on_sw blk (SendingWorker_process_segment a (timeout (round_trip c))) c) (\<lambda>c.
             Ok (c\<lparr>data_output := True\<rparr>))))"

definition input_cmd ::
  "bool \<Rightarrow> (nat \<Rightarrow> u32) \<Rightarrow> u32 \<Rightarrow> CmdOnlySegment \<Rightarrow> Connection \<Rightarrow> (unit, Connection) res" where
  "input_cmd blk clk current cmd c =
     (if c_conv cmd \<noteq> conversation c then Ok c
      else rbind (handle_option blk clk (c_option cmd) c) (\<lambda>c.
           rbind (if c_cmd cmd = CTerminate
                  then (case state c of
                          Active \<Rightarrow> set_state blk clk PeerTerminating c
                        | PeerClosed \<Rightarrow> set_state blk clk PeerTerminating c
                        | ReadyToClose \<Rightarrow> set_state blk clk Terminating c
                        | Terminating \<Rightarrow> set_state blk clk Terminated c
                        | _ \<Rightarrow> Ok c)
                  else Ok c) (\<lambda>c.
           let c = (if contains_close (c_option cmd) \<or> c_cmd cmd = CTerminate
                    then c\<lparr>data_input := True, data_output := True\<rparr> else c) in
           rbind (on_sw blk (process_receiving_next (c_receiving_next cmd)) c) (\<lambda>c.
           rbind (on_rw blk (process_sending_next (c_sending_next cmd)) c) (\<lambda>c.
           rbind (blocking_lock blk) (\<lambda>_.
             Ok (c\<lparr>round_trip := update_peer_rto (c_peer_rto cmd) current (round_trip c)\<rparr>)))))))"

fun input_loop :: "bool \<Rightarrow> (nat \<Rightarrow> u32) \<Rightarrow> u32 \<Rightarrow> Segment list \<Rightarrow> Connection \<Rightarrow> (unit, Connection) res" where
  "input_loop blk clk current [] c = Ok c"
| "input_loop blk clk current (SData ds # ss) c = rbind (input_data blk clk ds c) (input_loop blk clk current ss)"
| "input_loop blk clk current (SAck a # ss) c = rbind (input_ack blk clk a c) (input_loop blk clk current ss)"
| "input_loop blk clk current (SCmdOnly cmd # ss) c =
     rbind (input_cmd blk clk current cmd c) (input_loop blk clk current ss)"

definition conn_input :: "bool \<Rightarrow> (nat \<Rightarrow> u32) \<Rightarrow> Segment list \<Rightarrow> Connection \<Rightarrow> (unit, Connection) res" where
  "conn_input blk clk segs c =
     (let (current, c) = elapsed clk c in input_loop blk clk current segs (c\<lparr>last_incoming_time := current\<rparr>))"

section \<open>The application's side\<close>

datatype kcp_io_error = ConnectionClosed | PeerIsTerminating | TimedOut

text \<open>
  \<open>read_bytes\<close> up to the point where it waits: \<open>Some\<close> the outcome, \<open>None\<close> to wait for input. \<open>cap\<close> is
  the length of the caller's buffer.
\<close>

fun fill_buf :: "nat \<Rightarrow> u8 list list \<Rightarrow> u8 list" where
  "fill_buf cap [] = []"
| "fill_buf cap (ch # chs) =
     (let n = min (length ch) cap in if cap - n = 0 then take n ch else take n ch @ fill_buf (cap - n) chs)"

definition read_turn ::
  "bool \<Rightarrow> nat \<Rightarrow> Connection \<Rightarrow> (unit, (kcp_io_error, u8 list) res option \<times> Connection) res" where
  "read_turn blk cap c =
     (if state c \<in> {ReadyToClose, Terminating, Terminated} then Ok (Some (Err ConnectionClosed), c)
      else rbind (blocking_lock blk) (\<lambda>_.
        case read_multi_buffer (receiving_worker c) of (chunks, rw) \<Rightarrow>
          let c = c\<lparr>receiving_worker := rw\<rparr>; bs = fill_buf cap chunks in
          if bs \<noteq> [] then Ok (Some (Ok bs), c)
          else if state c = PeerTerminating then Ok (Some (Err PeerIsTerminating), c)
          else Ok (None, c)))"

text \<open>
  \<open>read_bytes\<close> and \<open>write_bytes\<close> with the waits as a parameter: \<open>wait k c\<close> is the connection when the
  \<open>k\<close>-th wait is notified, or \<open>None\<close> when it times out. The loops may wait forever, hence the fuel;
  running out of it is \<open>None\<close>.
\<close>

fun read_bytes ::
  "bool \<Rightarrow> (nat \<Rightarrow> Connection \<Rightarrow> Connection option) \<Rightarrow> nat \<Rightarrow> nat \<Rightarrow> Connection
     \<Rightarrow> (unit, (kcp_io_error, u8 list) res \<times> Connection) res option" where
  "read_bytes blk wait 0 cap c = None"
| "read_bytes blk wait (Suc k) cap c =
     (case read_turn blk cap c of
        Ok (Some r, c') \<Rightarrow> Some (Ok (r, c'))
      | Ok (None, c') \<Rightarrow> (case wait k c' of None \<Rightarrow> Some (Ok (Err TimedOut, c')) | Some c'' \<Rightarrow> read_bytes blk wait k cap c'')
      | Err e \<Rightarrow> Some (Err e)
      | Panic \<Rightarrow> Some Panic)"

fun write_bytes ::
  "bool \<Rightarrow> (nat \<Rightarrow> Connection \<Rightarrow> Connection option) \<Rightarrow> nat \<Rightarrow> u8 list \<Rightarrow> nat \<Rightarrow> Connection
     \<Rightarrow> (unit, (kcp_io_error, nat) res \<times> Connection) res option" where
  "write_bytes blk wait 0 buf offset c = None"
| "write_bytes blk wait (Suc k) buf offset c =
     (if state c \<noteq> Active then Some (Ok (Err ConnectionClosed, c))
      else let end' = min (offset + unat (conn_mss c)) (length buf);
               chunk = take (end' - offset) (drop offset buf)
           in if chunk = [] then Some (Ok (Ok offset, c))
              else if \<not> blk then Some Panic
              else case SendingWorker_push chunk (sending_worker c) of
                     (True, sw) \<Rightarrow> write_bytes blk wait k buf end' (c\<lparr>sending_worker := sw\<rparr>)
                   | (False, sw) \<Rightarrow> (case wait k c of None \<Rightarrow> Some (Ok (Err TimedOut, c))
                                     | Some c' \<Rightarrow> write_bytes blk wait k buf offset c'))"

section \<open>Packet dispatch (listener.rs, dialer.rs)\<close>

type_synonym 'r sessions = "(('r \<times> u16) \<times> Connection) list"

definition listen_packet ::
  "bool \<Rightarrow> (nat \<Rightarrow> u32) \<Rightarrow> Config \<Rightarrow> 'r \<Rightarrow> u8 list \<Rightarrow> 'r sessions \<Rightarrow> (unit, 'r sessions) res" where
  "listen_packet blk clk cfg remote buf sessions =
     (if buf = [] then Ok sessions
      else rbind (KcpPacketReader_read buf) (\<lambda>segs.
        case segs of
          [] \<Rightarrow> Ok sessions
        | seg # _ \<Rightarrow>
            let i = (remote, segment_conv seg) in
            rbind (case map_of sessions i of
                     Some c \<Rightarrow> Ok c
                   | None \<Rightarrow> Connection_new (segment_conv seg) cfg) (\<lambda>c.
            rbind (conn_input blk clk segs c) (\<lambda>c'. Ok (AList.update i c' sessions)))))"

definition SessionCloser_close :: "'r \<times> u16 \<Rightarrow> 'r sessions \<Rightarrow> 'r sessions" where
  "SessionCloser_close i sessions = AList.delete i sessions"

definition dial_packet :: "bool \<Rightarrow> (nat \<Rightarrow> u32) \<Rightarrow> u8 list \<Rightarrow> Connection \<Rightarrow> (unit, Connection) res" where
  "dial_packet blk clk buf c =
     rbind (KcpPacketReader_read buf) (\<lambda>segs. if segs = [] then Ok c else conn_input blk clk segs c)"

text \<open>The conversation number of a dialled connection: \<^verbatim>\<open>GLOBAL_CONV.fetch_add(1)\<close>.\<close>

definition next_conv :: "u16 \<Rightarrow> u16 \<times> u16" where
  "next_conv g = (g, g + 1)"

section \<open>The state machine only moves forward\<close>

fun rank :: "State \<Rightarrow> nat" where
  "rank Active = 0"
| "rank ReadyToClose = 1"
| "rank PeerClosed = 1"
| "rank PeerTerminating = 2"
| "rank Terminating = 3"
| "rank Terminated = 4"

definition forward :: "State \<Rightarrow> State \<Rightarrow> bool" where
  "forward a b \<longleftrightarrow> a = b \<or> rank a < rank b"

lemma forward_refl [simp]: "forward a a"
  by (simp add: forward_def)

lemma forward_trans: "forward a b \<Longrightarrow> forward b c \<Longrightarrow> forward a c"
  by (auto simp: forward_def)

lemma blocking_lock_Ok [simp]: "blocking_lock blk = Ok u \<longleftrightarrow> blk"
  by (simp add: blocking_lock_def)

lemma on_w_Ok:
  "on_sw blk f c = Ok c' \<longleftrightarrow> blk \<and> c' = c\<lparr>sending_worker := f (sending_worker c)\<rparr>"
  "on_rw blk g c = Ok c' \<longleftrightarrow> blk \<and> c' = c\<lparr>receiving_worker := g (receiving_worker c)\<rparr>"
  by (auto simp: on_sw_def on_rw_def rbind_eq_Ok)

lemma set_state_state: "set_state blk clk st c = Ok c' \<Longrightarrow> state c' = st"
  by (cases st) (auto simp: set_state_def elapsed_def on_w_Ok rbind_eq_Ok)

lemma conn_close_forward: "conn_close blk clk c = Ok c' \<Longrightarrow> forward (state c) (state c')"
  by (cases "state c") (auto simp: conn_close_def forward_def dest!: set_state_state)

lemma handle_option_forward: "handle_option blk clk opt c = Ok c' \<Longrightarrow> forward (state c) (state c')"
  by (cases "state c") (auto simp: handle_option_def forward_def dest!: set_state_state split: if_splits)

lemma ping_state: "ping blk cur cmd c = Ok c' \<Longrightarrow> state c' = state c"
  by (auto simp: ping_def rbind_eq_Ok write_packet_def Let_def)

lemma foldl_write_packet:
  "foldl (\<lambda>c s. write_packet (f (conversation c) s) c) c segs = c\<lparr>out := out c @ map (f (conversation c)) segs\<rparr>"
  by (induction segs arbitrary: c) (simp_all add: write_packet_def)

lemma send_acks_state: "send_acks blk cur r c = Ok c' \<Longrightarrow> state c' = state c"
  using foldl_write_packet [of "\<lambda>_. AckSegment_serialize"]
  by (auto simp: send_acks_def rbind_eq_Ok split: prod.splits)

lemma send_data_out:
  assumes "send_data blk cur r c = Ok c'"
  shows "\<exists>segs sw. SendingWorker_flush cur (config c) r (sending_worker c) = Ok (segs, sw) \<and>
    c' = c\<lparr>sending_worker := sw, out := out c @ map (\<lambda>s. DataSegment_serialize (stamp (conversation c)
      (first_unacknowledged (sending_worker c)) (if state c = ReadyToClose then OPT_CLOSE else 0) s)) segs\<rparr>"
  using assms foldl_write_packet [of "\<lambda>cv s. DataSegment_serialize (stamp cv
      (first_unacknowledged (sending_worker c)) (if state c = ReadyToClose then OPT_CLOSE else 0) s)"]
  by (auto simp: send_data_def rbind_eq_Ok Let_def)

lemma flush_body_forward: "flush_body blk clk cur c = Ok c' \<Longrightarrow> forward (state c) (state c')"
  by (auto simp: flush_body_def rbind_eq_Ok Let_def forward_def split: if_splits
      dest!: set_state_state send_acks_state send_data_out ping_state)

lemma conn_flush_forward:
  assumes "conn_flush blk clk c = Ok c'"
  shows "forward (state c) (state c')"
proof (cases "state c = Terminated")
  case True
  with assms show ?thesis by (auto simp: conn_flush_def elapsed_def)
next
  case False
  let ?cur = "clk (ticks c)" and ?c = "c\<lparr>ticks := Suc (ticks c)\<rparr>"
  from assms False obtain c1 c2 where
    c1: "(if state ?c = Active \<and> ?cur - last_incoming_time ?c \<ge> 30000 then conn_close blk clk ?c else Ok ?c) = Ok c1"
    and c2: "(if state c1 = ReadyToClose
      then rbind (blocking_lock blk) (\<lambda>_.
        if SendingWorker_is_empty (sending_worker c1) then set_state blk clk Terminating c1 else Ok c1)
      else Ok c1) = Ok c2"
    and c3: "(if state c2 = Terminating
      then rbind (ping blk ?cur CTerminate c2) (\<lambda>c.
        if ?cur - state_begin_time c > 8000 then set_state blk clk Terminated c else Ok c)
      else flush_body blk clk ?cur c2) = Ok c'"
    unfolding conn_flush_def elapsed_def Let_def by (simp add: rbind_eq_Ok) blast
  have "forward (state c) (state c1)"
    using c1 conn_close_forward [of blk clk ?c c1] by (auto split: if_splits)
  moreover have "forward (state c1) (state c2)"
    using c2 by (auto simp: rbind_eq_Ok forward_def split: if_splits dest!: set_state_state)
  moreover have "forward (state c2) (state c')"
    using c3 by (auto simp: rbind_eq_Ok forward_def split: if_splits
        dest!: ping_state set_state_state flush_body_forward [unfolded forward_def])
  ultimately show ?thesis by (blast intro: forward_trans)
qed

lemma input_cmd_forward: "input_cmd blk clk cur cmd c = Ok c' \<Longrightarrow> forward (state c) (state c')"
proof (cases "c_conv cmd = conversation c")
  case True
  assume "input_cmd blk clk cur cmd c = Ok c'"
  then obtain c1 c2 where c1: "handle_option blk clk (c_option cmd) c = Ok c1"
    and c2: "(if c_cmd cmd = CTerminate then (case state c1 of
        Active \<Rightarrow> set_state blk clk PeerTerminating c1 | PeerClosed \<Rightarrow> set_state blk clk PeerTerminating c1
      | ReadyToClose \<Rightarrow> set_state blk clk Terminating c1 | Terminating \<Rightarrow> set_state blk clk Terminated c1
      | _ \<Rightarrow> Ok c1) else Ok c1) = Ok c2"
    and st: "state c' = state c2"
    using True unfolding input_cmd_def by (auto simp: rbind_eq_Ok on_w_Ok Let_def)
  have "forward (state c1) (state c2)"
    using c2 by (cases "state c1") (auto simp: forward_def split: if_splits dest!: set_state_state)
  with handle_option_forward [OF c1] st show ?thesis by (auto intro: forward_trans)
qed (simp add: input_cmd_def)

lemma input_loop_forward: "input_loop blk clk cur segs c = Ok c' \<Longrightarrow> forward (state c) (state c')"
proof (induction blk clk cur segs c rule: input_loop.induct)
  case (2 blk clk cur ds ss c)
  then obtain c1 where c1: "input_data blk clk ds c = Ok c1" and r: "input_loop blk clk cur ss c1 = Ok c'"
    by (auto simp: rbind_eq_Ok)
  have "forward (state c) (state c1)"
    using c1 by (auto simp: input_data_def rbind_eq_Ok on_w_Ok split: if_splits dest: handle_option_forward)
  from this 2(1) [OF r] show ?case by (rule forward_trans)
next
  case (3 blk clk cur a ss c)
  then obtain c1 where c1: "input_ack blk clk a c = Ok c1" and r: "input_loop blk clk cur ss c1 = Ok c'"
    by (auto simp: rbind_eq_Ok)
  have "forward (state c) (state c1)"
    using c1 by (auto simp: input_ack_def rbind_eq_Ok on_w_Ok split: if_splits dest: handle_option_forward)
  from this 3(1) [OF r] show ?case by (rule forward_trans)
next
  case (4 blk clk cur cmd ss c)
  then obtain c1 where c1: "input_cmd blk clk cur cmd c = Ok c1" and r: "input_loop blk clk cur ss c1 = Ok c'"
    by (auto simp: rbind_eq_Ok)
  from input_cmd_forward [OF c1] 4(1) [OF r] show ?case by (rule forward_trans)
qed simp

text \<open>Everything that can happen to a connection: its own loops, incoming packets, the application.\<close>

inductive conn_step :: "bool \<Rightarrow> (nat \<Rightarrow> u32) \<Rightarrow> Connection \<Rightarrow> Connection \<Rightarrow> bool" for blk clk where
  s_data_tick: "data_updater_tick blk clk c = Ok (go, c') \<Longrightarrow> conn_step blk clk c c'"
| s_ping_tick: "ping_updater_tick blk clk c = Ok (go, c') \<Longrightarrow> conn_step blk clk c c'"
| s_packet: "dial_packet blk clk buf c = Ok c' \<Longrightarrow> conn_step blk clk c c'"
| s_input: "conn_input blk clk segs c = Ok c' \<Longrightarrow> conn_step blk clk c c'"
| s_close: "conn_close blk clk c = Ok c' \<Longrightarrow> conn_step blk clk c c'"
| s_read: "read_turn blk cap c = Ok (r, c') \<Longrightarrow> conn_step blk clk c c'"
| s_write: "SendingWorker_push chunk (sending_worker c) = (b, sw) \<Longrightarrow> conn_step blk clk c (c\<lparr>sending_worker := sw\<rparr>)"

inductive_cases conn_stepE: "conn_step blk clk c c'"

lemma conn_input_forward: "conn_input blk clk segs c = Ok c' \<Longrightarrow> forward (state c) (state c')"
  by (auto simp: conn_input_def elapsed_def dest: input_loop_forward)

lemma conn_step_forward: "conn_step blk clk c c' \<Longrightarrow> forward (state c) (state c')"
  by (erule conn_stepE)
    (auto simp: data_updater_tick_def ping_updater_tick_def dial_packet_def read_turn_def rbind_eq_Ok Let_def
      split: if_splits prod.splits dest: conn_flush_forward conn_input_forward conn_close_forward)

interpretation conn_sys: inv_system "\<lambda>c. state c = st" "conn_step blk clk" "\<lambda>c. forward st (state c)"
  for st blk clk
  by unfold_locales (auto intro: forward_trans conn_step_forward)


definition conn0 :: Connection where
  "conn0 = \<lparr>conversation = 7, config = Config_default, state = Active, state_begin_time = 0,
     last_incoming_time = 0, last_ping_time = 0, conn_mss = mss Config_default, data_input = False,
     data_output = False, round_trip = RoundTripInfo_new 50,
     receiving_worker = ReceivingWorker_new (mss Config_default), sending_worker = sw0, out = [], ticks = 0\<rparr>"

lemma conn0_new: "Connection_new 7 Config_default = Ok conn0"
proof -
  have "tti Config_default = 50" by (simp add: Config_default_def)
  then show ?thesis by (simp add: Connection_new_def sw0_new conn0_def)
qed

lemma conn0_close: "conn_close True clk conn0 =
    Ok (conn0\<lparr>data_input := True, data_output := True, ticks := 1, state := ReadyToClose, state_begin_time := clk 0\<rparr>)"
  by (simp add: conn_close_def conn0_def set_state_def elapsed_def on_rw_def blocking_lock_def close_read_def)


section \<open>Timers\<close>

lemma set_state_Ok:
  "set_state True clk Terminating c = Ok (c\<lparr>ticks := Suc (ticks c), state := Terminating,
     state_begin_time := clk (ticks c), receiving_worker := close_read (receiving_worker c),
     sending_worker := close_write (sending_worker c)\<rparr>)"
  "\<exists>c'. set_state True clk Terminated c = Ok c' \<and> state c' = Terminated"
  by (simp_all add: set_state_def elapsed_def on_rw_def on_sw_def blocking_lock_def)

text \<open>The termination timer is compared with a clock read taken before the timer was started. When a
  closing connection has nothing left to send, the flush that starts termination should keep the
  connection in \<open>Terminating\<close> for eight seconds; but if the millisecond clock advances between
  the two reads in that flush, the unsigned difference wraps and the connection is terminated at
  once. It stays in \<open>Terminating\<close> exactly when both reads show the same time.\<close>
theorem terminating_skips_linger:
  assumes "state c = ReadyToClose" and "SendingWorker_is_empty (sending_worker c)"
    and "clk (Suc (ticks c)) = clk (ticks c) + d" and "d < 0x80000000"
  shows "\<exists>c'. conn_flush True clk c = Ok c' \<and> state c' = (if d = 0 then Terminating else Terminated)"
proof -
  have w: "(clk (ticks c) - (clk (ticks c) + d) > 8000) = (d \<noteq> 0)"
  proof -
    have "clk (ticks c) - (clk (ticks c) + d) = - d" by simp
    moreover have "8000 < - d" if "d \<noteq> 0"
    proof -
      have "uint d \<noteq> 0" using that by (simp add: uint_0_iff)
      with uint_ge_0 [of d] have "0 < uint d" by linarith
      moreover have "uint d < 0x80000000" using assms(4) by (simp add: word_less_def)
      ultimately have d: "0 < uint d" "uint d < 0x80000000" .
      then have "uint (- d) = 2 ^ 32 - uint d"
        by (simp add: uint_word_ariths zmod_zminus1_eq_if)
      with d show ?thesis by (simp add: word_less_def)
    qed
    ultimately show ?thesis by auto
  qed
  let ?c = "c\<lparr>ticks := Suc (ticks c)\<rparr>"
  obtain t where t: "set_state True clk Terminating ?c = Ok t" "state t = Terminating"
    "state_begin_time t = clk (ticks c) + d"
    using set_state_Ok(1) [of clk ?c] assms(3) by simp
  obtain p where p: "ping True (clk (ticks c)) CTerminate t = Ok p" "state p = Terminating"
    "state_begin_time p = clk (ticks c) + d"
    using t by (auto simp: ping_def blocking_lock_def write_packet_def Let_def)
  obtain f where f: "set_state True clk Terminated p = Ok f" "state f = Terminated"
    using set_state_Ok(2) by blast
  show ?thesis
    using assms(1,2) t p f w by (auto simp: conn_flush_def elapsed_def blocking_lock_def)
qed

theorem terminating_skips_linger_witness:
  "\<exists>c'. conn_flush True (\<lambda>k. word_of_nat k) (conn0\<lparr>state := ReadyToClose\<rparr>) = Ok c' \<and> state c' = Terminated"
  using terminating_skips_linger [of "conn0\<lparr>state := ReadyToClose\<rparr>" "\<lambda>k. word_of_nat k" 1]
  by (simp add: conn0_def sw0_def SendingWindow_new_def SendingWorker_is_empty_def)

text \<open>Called from an asynchronous task, where tokio's \<^verbatim>\<open>blocking_lock\<close> panics, every flush of a live
  connection and every turn of its update loop panics. Both background loops of a connection are
  such tasks.\<close>
theorem background_loops_panic:
  assumes "state c \<noteq> Terminated" and "state c \<noteq> Terminating"
  shows "data_updater_tick False clk c = Panic \<and> ping_updater_tick False clk c = Panic"
proof -
  have l: "blocking_lock False = Panic" by (simp add: blocking_lock_def)
  have s: "set_state False clk st c = Panic" if "st \<noteq> Active" for st c
    using that by (cases st) (simp_all add: set_state_def elapsed_def on_rw_def on_sw_def l)
  have cl: "conn_close False clk c = Panic" if "state c = Active" for c
    using that by (simp add: conn_close_def s)
  have b: "flush_body False clk cur c = Panic" for cur c
    by (simp add: flush_body_def l s)
  have "conn_flush False clk c = Panic"
    using assms by (cases "state c") (simp_all add: conn_flush_def elapsed_def cl b l)
  then show ?thesis using assms by (simp add: data_updater_tick_def ping_updater_tick_def l)
qed

theorem background_loops_panic_witness:
  "data_updater_tick False (\<lambda>_. 0) conn0 = Panic \<and> ping_updater_tick False (\<lambda>_. 0) conn0 = Panic"
  by (rule background_loops_panic) (simp_all add: conn0_def)

section \<open>Reading and writing\<close>

lemma fill_buf_take: "fill_buf cap chs = take cap (concat chs)"
proof (induction cap chs rule: fill_buf.induct)
  case (2 cap ch chs)
  show ?case
  proof (cases "length ch < cap")
    case True
    with 2 show ?thesis by (simp add: Let_def)
  next
    case False
    then show ?thesis by (simp add: Let_def)
  qed
qed simp

text \<open>A read takes everything the receiving window has in order, returns as much as fits in the caller's
  buffer, and drops the rest: the bytes beyond the buffer are in neither the result nor the
  connection.\<close>
theorem read_drops_excess:
  assumes "read_multi_buffer (receiving_worker c) = (chunks, rw)" and "take cap (concat chunks) \<noteq> []"
    and "state c = Active"
  shows "read_bytes True wait (Suc k) cap c =
    Some (Ok (Ok (take cap (concat chunks)), c\<lparr>receiving_worker := rw\<rparr>))"
  using assms by (simp add: read_turn_def blocking_lock_def fill_buf_take)

definition conn_with_data :: Connection where
  "conn_with_data = conn0\<lparr>receiving_worker :=
     ReceivingWorker_process_segment (stamp 7 0 0 seg1) (ReceivingWorker_new (mss Config_default))\<rparr>"

theorem read_drops_excess_witness:
  "read_bytes True (\<lambda>_ _. None) (Suc 0) 1 conn_with_data =
    Some (Ok (Ok (take 1 (concat [[1, 2]])),
      conn_with_data\<lparr>receiving_worker := snd (read_multi_buffer (receiving_worker conn_with_data))\<rparr>))"
  by (rule read_drops_excess)
    (simp_all add: conn_with_data_def conn0_def read_multi_buffer_def read_loop.simps
      ReceivingWorker_process_segment_def ReceivingWorker_new_def ReceivingWindow_set_def stamp_def seg1_def)

function chunks_of :: "nat \<Rightarrow> 'a list \<Rightarrow> 'a list list" where
  "chunks_of n xs = (if n = 0 \<or> xs = [] then [] else take n xs # chunks_of n (drop n xs))"
  by pat_completeness auto
termination
  by (relation "measure (length \<circ> snd)") auto

declare chunks_of.simps [simp del]

lemma concat_chunks_of: "0 < n \<Longrightarrow> concat (chunks_of n xs) = xs"
  by (induction n xs rule: chunks_of.induct) (subst chunks_of.simps, simp)

lemma write_bytes_from:
  assumes "state c = Active" and "0 < unat (conn_mss c)" and "\<not> sw_closed (sending_worker c)" and "off \<le> length buf"
    and "length (cache (window (sending_worker c))) + length (chunks_of (unat (conn_mss c)) (drop off buf))
      \<le> unat (window_size (sending_worker c))"
    and "length (chunks_of (unat (conn_mss c)) (drop off buf)) < k"
  shows "\<exists>sw. write_bytes True wait k buf off c = Some (Ok (Ok (length buf), c\<lparr>sending_worker := sw\<rparr>)) \<and>
    map snd (scontent sw) = map snd (scontent (sending_worker c)) @ chunks_of (unat (conn_mss c)) (drop off buf)"
  using assms
proof (induction k arbitrary: off c)
  case (Suc k)
  let ?m = "unat (conn_mss c)" and ?e = "min (off + unat (conn_mss c)) (length buf)"
  let ?chunk = "take (?e - off) (drop off buf)"
  have ch: "?chunk = take ?m (drop off buf)" by (auto simp: min_def)
  show ?case
  proof (cases "off = length buf")
    case True
    then show ?thesis
      using Suc.prems by (intro exI [of _ "sending_worker c"]) (simp add: chunks_of.simps)
  next
    case False
    with Suc.prems(4) have lt: "off < length buf" by simp
    have ne: "?chunk \<noteq> []" using lt Suc.prems(2) by simp
    have cs: "chunks_of ?m (drop off buf) = ?chunk # chunks_of ?m (drop ?e buf)"
    proof -
      have "drop ?m (drop off buf) = drop ?e buf" by (auto simp: min_def add.commute)
      then show ?thesis using lt Suc.prems(2) ch by (simp add: chunks_of.simps [of ?m "drop off buf"])
    qed
    define sw where "sw = snd (SendingWorker_push ?chunk (sending_worker c))"
    have "length (cache (window (sending_worker c))) < unat (window_size (sending_worker c))"
      using Suc.prems(5) cs by simp
    then have "\<not> word_of_nat (length (cache (window (sending_worker c)))) > window_size (sending_worker c)"
      using unat_bound [of "window_size (sending_worker c)"] by (simp add: word_less_nat_alt unat_of_nat)
    then have push: "SendingWorker_push ?chunk (sending_worker c) = (True, sw)"
      using Suc.prems(3) by (simp add: sw_def SendingWorker_push_def)
    have sw: "map snd (scontent sw) = map snd (scontent (sending_worker c)) @ [?chunk]"
      "length (cache (window sw)) = Suc (length (cache (window (sending_worker c))))"
      "window_size sw = window_size (sending_worker c)" "\<not> sw_closed sw"
      using push Suc.prems(3)
      by (auto simp: SendingWorker_push_def SendingWindow_push_def scontent_def seg_key_def split: if_splits)
    have "\<exists>sw'. write_bytes True wait k buf ?e (c\<lparr>sending_worker := sw\<rparr>)
        = Some (Ok (Ok (length buf), c\<lparr>sending_worker := sw\<rparr>\<lparr>sending_worker := sw'\<rparr>)) \<and>
      map snd (scontent sw') = map snd (scontent sw) @ chunks_of ?m (drop ?e buf)"
      using Suc.IH [of "c\<lparr>sending_worker := sw\<rparr>" ?e] Suc.prems sw cs by simp
    then show ?thesis
      using Suc.prems(1) ne push sw cs by (auto simp: Let_def)
  qed
qed simp

text \<open>Writing on an active connection whose window has room succeeds without waiting: it reports the
  whole length, and the sending window holds in addition exactly the buffer, cut into chunks of
  the maximum segment size.\<close>
theorem write_bytes_queues_all:
  assumes "state c = Active" and "0 < unat (conn_mss c)" and "\<not> sw_closed (sending_worker c)"
    and "length (cache (window (sending_worker c))) + length (chunks_of (unat (conn_mss c)) buf)
      \<le> unat (window_size (sending_worker c))"
    and "length (chunks_of (unat (conn_mss c)) buf) < k"
  shows "\<exists>sw chunks. write_bytes True wait k buf 0 c = Some (Ok (Ok (length buf), c\<lparr>sending_worker := sw\<rparr>)) \<and>
    map snd (scontent sw) = map snd (scontent (sending_worker c)) @ chunks \<and> concat chunks = buf"
  using write_bytes_from [of c 0 buf k wait] assms concat_chunks_of [OF assms(2), of buf] by auto

theorem write_bytes_queues_all_witness:
  "\<exists>sw chunks. write_bytes True (\<lambda>_ _. None) 2 [1, 2, 3] 0 conn0 = Some (Ok (Ok (length [1 :: u8, 2, 3]), conn0\<lparr>sending_worker := sw\<rparr>)) \<and>
    map snd (scontent sw) = map snd (scontent (sending_worker conn0)) @ chunks \<and> concat chunks = [1, 2, 3]"
  by (rule write_bytes_queues_all)
    (simp_all add: conn0_def sw0_def SendingWindow_new_def chunks_of.simps mss_def Config_default_def
      DATA_SEGMENT_OVERHEAD_def)

section \<open>What is on the wire\<close>

text \<open>The transmission bookkeeping is not sent.\<close>

definition on_wire :: "DataSegment \<Rightarrow> DataSegment" where
  "on_wire d = d\<lparr>d_timeout := 0, d_transmit := 0\<rparr>"

lemma serialize_on_wire: "DataSegment_serialize (on_wire d) = DataSegment_serialize d"
  by (simp add: on_wire_def DataSegment_serialize_def)

text \<open>Every packet a flush sends for the sending window is parsed by the peer as the one data segment it
  carries: number, payload, conversation, close flag and the sender's first unacknowledged number.\<close>
theorem send_data_packets_parse:
  assumes "send_data True current r c = Ok c'"
    and "\<forall>k \<in> set (scontent (sending_worker c)). snd k \<noteq> [] \<and> length (snd k) \<le> 65535"
  shows "\<exists>segs sw. SendingWorker_flush current (config c) r (sending_worker c) = Ok (segs, sw) \<and>
    map KcpPacketReader_read (drop (length (out c)) (out c')) =
      map (\<lambda>s. Ok [SData (on_wire (stamp (conversation c) (first_unacknowledged (sending_worker c))
        (if state c = ReadyToClose then OPT_CLOSE else 0) s))]) segs"
proof -
  let ?st = "\<lambda>s. stamp (conversation c) (first_unacknowledged (sending_worker c))
        (if state c = ReadyToClose then OPT_CLOSE else 0) s"
  obtain segs sw where f: "SendingWorker_flush current (config c) r (sending_worker c) = Ok (segs, sw)"
    and c': "c' = c\<lparr>sending_worker := sw, out := out c @ map (\<lambda>s. DataSegment_serialize (?st s)) segs\<rparr>"
    using send_data_out [OF assms(1)] by blast
  have "KcpPacketReader_read (DataSegment_serialize (?st s)) = Ok [SData (on_wire (?st s))]" if "s \<in> set segs" for s
  proof -
    have "seg_key s \<in> set (scontent (sending_worker c))" using SendingWorker_flush_content [OF f] that by auto
    then have "d_payload s \<noteq> []" "length (d_payload s) \<le> 65535" using assms(2) by (auto simp: seg_key_def)
    then have "\<forall>x \<in> set [SData (on_wire (?st s))]. segment_ok x" by (simp add: on_wire_def stamp_def)
    from kcp.loop_decodes [OF KcpPacketReader_read.simps this] show ?thesis by (simp add: serialize_on_wire)
  qed
  with f c' show ?thesis by auto
qed

theorem send_data_packets_parse_witness:
  "\<exists>segs sw. SendingWorker_flush 5 Config_default 100 (snd_w link1) = Ok (segs, sw) \<and>
    map KcpPacketReader_read (drop 0 (out (case send_data True 5 100 (conn0\<lparr>sending_worker := snd_w link1\<rparr>) of Ok c \<Rightarrow> c | _ \<Rightarrow> conn0))) =
      map (\<lambda>s. Ok [SData (on_wire (stamp 7 (first_unacknowledged (snd_w link1)) 0 s))]) segs"
proof -
  let ?c = "conn0\<lparr>sending_worker := snd_w link1\<rparr>"
  obtain c' where c': "send_data True 5 100 ?c = Ok c'"
    by (cases "send_data True 5 100 ?c")
      (auto simp: send_data_def blocking_lock_def SendingWorker_flush_def sending_in_flight_size_def Let_def
        in_flight_size_def u32_div_def conn0_def Config_default_def rbind_eq_Panic split: if_splits prod.splits)
  have "\<forall>k \<in> set (scontent (sending_worker ?c)). snd k \<noteq> [] \<and> length (snd k) \<le> 65535"
    by (simp add: link1_def SendingWorker_push_def sw0_def SendingWindow_new_def SendingWindow_push_def
        scontent_def seg_key_def)
  from send_data_packets_parse [OF c' this] c' show ?thesis by (simp add: conn0_def)
qed

end
