(* ===== verification/Trojan.thy ===== *)
theory Trojan
  imports Proxy_Io
begin

text \<open>
  \<^verbatim>\<open>astra-core-proxy-trojan\<close>: headers and datagrams, the user table, and the inbound handler from its
  first read to the session it dispatches or the fallback it connects to. The SHA-224 digest of a
  password and Unicode lower case are parameters.
\<close>

section \<open>Protocol (protocol.rs, config.rs)\<close>

definition COMMAND_TCP :: u8 where "COMMAND_TCP = 1"
definition COMMAND_UDP :: u8 where "COMMAND_UDP = 3"

definition crlf :: "u8 list" where "crlf = [0x0D, 0x0A]"

text \<open>\<open>digest\<close> is SHA-224; its 28 bytes are written in lower-case hexadecimal.\<close>

definition hex_digit :: "nat \<Rightarrow> u8" where
  "hex_digit n = (if n < 10 then word_of_nat (48 + n) else word_of_nat (87 + n))"

definition key_from_password :: "(u8 list \<Rightarrow> u8 list) \<Rightarrow> string \<Rightarrow> u8 list" where
  "key_from_password digest password =
     concat (map (\<lambda>b. [hex_digit (unat b div 16), hex_digit (unat b mod 16)]) (digest (as_bytes password)))"

fun write_address :: "Address \<Rightarrow> (string, u8 list) res" where
  "write_address (Ipv4 os) = Ok (1 # os)"
| "write_address (Ipv6 os) = Ok (4 # os)"
| "write_address (Domain_a d) = (if length d \<le> 255 then Ok (3 # word_of_nat (length d) # as_bytes d) else Panic)"

definition trojan_unknown :: "u8 \<Rightarrow> string" where
  "trojan_unknown t = ''unknown address type: '' @ show_nat (unat t)"

definition address_fmt :: addr_fmt where
  "address_fmt =
     \<lparr>tag_v4 = 1, tag_v6 = 4, tag_domain = 3, short_v4 = ''short ipv4 address'', short_v6 = ''short ipv6 address'',
      short_dlen = ''short domain length'', short_domain = ''short domain data'', bad_text = ''invalid domain'',
      unknown_tag = trojan_unknown, text_of = strict_text\<rparr>"

definition header_fmt :: addr_fmt where
  "header_fmt =
     \<lparr>tag_v4 = 1, tag_v6 = 4, tag_domain = 3, short_v4 = ''short ipv4'', short_v6 = ''short ipv6'',
      short_dlen = ''short domain len'', short_domain = ''short domain'', bad_text = ''invalid domain utf8'',
      unknown_tag = trojan_unknown, text_of = strict_text\<rparr>"

definition stream_fmt :: addr_fmt where
  "stream_fmt = header_fmt\<lparr>bad_text := ''trojan: invalid domain utf8'', unknown_tag := (\<lambda>t. ''trojan: '' @ trojan_unknown t)\<rparr>"

definition read_address :: "u8 list \<Rightarrow> (string, Address \<times> nat) res" where
  "read_address data =
     (if data = [] then Err ''empty address data''
      else rbind (take_addr address_fmt (hd data) data 1) (\<lambda>(addr, offset).
        if length data < offset + 2 then Err ''short port'' else Ok (addr, offset + 2)))"

definition write_tcp_header :: "u8 list \<Rightarrow> Address \<Rightarrow> u16 \<Rightarrow> (string, u8 list) res" where
  "write_tcp_header key addr p =
     rbind (write_address addr) (\<lambda>a. Ok (key @ crlf @ [COMMAND_TCP] @ a @ to_be16 p @ crlf))"

definition write_udp_packet :: "Address \<Rightarrow> u16 \<Rightarrow> u8 list \<Rightarrow> (string, u8 list) res" where
  "write_udp_packet addr p payload =
     rbind (write_address addr) (\<lambda>a. Ok (a @ to_be16 p @ to_be16 (word_of_nat (length payload)) @ crlf @ payload))"

definition read_udp_packet :: "u8 list \<Rightarrow> (string, Address \<times> u16 \<times> u8 list) res" where
  "read_udp_packet data =
     (if data = [] then Err ''empty trojan udp packet''
      else rbind (take_addr header_fmt (hd data) data 1) (\<lambda>(addr, offset).
        if length data < offset + 2 then Err ''short port''
        else if length data < offset + 4 then Err ''short length''
        else if length data < offset + 6 \<or> take 2 (drop (offset + 4) data) \<noteq> crlf
        then Err ''trojan udp: expected crlf after length''
        else Ok (addr, be16_at offset data, drop (offset + 6) data)))"

record TrojanHeader =
  th_key :: "u8 list"
  th_command :: u8
  th_destination :: Destination

definition command_network :: "u8 \<Rightarrow> (string, Network) res" where
  "command_network cmd =
     (if cmd = COMMAND_TCP then Ok Tcp
      else if cmd = COMMAND_UDP then Ok Udp
      else Err (''trojan: unknown command: '' @ show_nat (unat cmd)))"

text \<open>The command and the address type are indexed behind a check that covers neither.\<close>

definition read_header_from_slice :: "u8 list \<Rightarrow> (string, TrojanHeader \<times> nat) res" where
  "read_header_from_slice data =
     (if length data < 58 then Err ''trojan: header too short''
      else if data ! 56 \<noteq> 0x0D \<or> data ! 57 \<noteq> 0x0A then Err ''trojan: expected crlf after key''
      else if length data < 60 then Panic
      else rbind (take_addr header_fmt (data ! 59) data 60) (\<lambda>(addr, offset).
        if length data < offset + 2 then Err ''short port''
        else if length data < offset + 4 \<or> data ! (offset + 2) \<noteq> 0x0D \<or> data ! (offset + 3) \<noteq> 0x0A
        then Err ''trojan: expected trailing crlf''
        else rbind (command_network (data ! 58)) (\<lambda>net.
          Ok (\<lparr>th_key = take 56 data, th_command = data ! 58,
               th_destination = \<lparr>address = addr, port = Port (be16_at offset data), network = net\<rparr>\<rparr>, offset + 4))))"

definition read_header :: "TrojanHeader cio" where
  "read_header =
     cbind (cread ''trojan: read key: '' 56) (\<lambda>key.
     cbind (cread ''trojan: read crlf: '' 2) (\<lambda>sep.
       if sep \<noteq> crlf then cerr ''trojan: expected crlf after key''
       else
         cbind (cread_u8 ''trojan: read command: '') (\<lambda>cmd.
         cbind (cread_u8 ''trojan: read address type: '') (\<lambda>atype.
         cbind (read_addr stream_fmt ''trojan: read ipv4: '' ''trojan: read ipv6: '' ''trojan: read domain len: ''
                  ''trojan: read domain: '' atype) (\<lambda>addr.
         cbind (cread_u16 ''trojan: read port: '') (\<lambda>p.
         cbind (cread ''trojan: read trailing crlf: '' 2) (\<lambda>sep2.
           if sep2 \<noteq> crlf then cerr ''trojan: expected trailing crlf''
           else cbind (clift (command_network cmd)) (\<lambda>net.
             cret \<lparr>th_key = key, th_command = cmd,
                   th_destination = \<lparr>address = addr, port = Port p, network = net\<rparr>\<rparr>))))))))"

record Account =
  ac_password :: string
  ac_key :: "u8 list"

definition Account_new :: "(u8 list \<Rightarrow> u8 list) \<Rightarrow> string \<Rightarrow> Account" where
  "Account_new digest pw = \<lparr>ac_password = pw, ac_key = key_from_password digest pw\<rparr>"

record Fallback =
  fb_name :: string
  fb_alpn :: string
  fb_path :: string
  fb_dest :: string
  fb_xver :: u64

record ServerConfig =
  tr_users :: "Account list"
  fallbacks :: "Fallback list"

section \<open>The inbound handler (inbound.rs)\<close>

fun find_user_from :: "nat \<Rightarrow> u8 list \<Rightarrow> Account list \<Rightarrow> nat option" where
  "find_user_from i key [] = None"
| "find_user_from i key (a # as) = (if ac_key a = key then Some i else find_user_from (i + 1) key as)"

definition find_user :: "ServerConfig \<Rightarrow> u8 list \<Rightarrow> nat option" where
  "find_user cfg key = find_user_from 0 key (tr_users cfg)"

definition match_fallback :: "ServerConfig \<Rightarrow> string \<Rightarrow> string \<Rightarrow> string \<Rightarrow> Fallback option" where
  "match_fallback cfg sni alpn path =
     find (\<lambda>fb. (fb_name fb = [] \<or> fb_name fb = sni) \<and> (fb_alpn fb = [] \<or> fb_alpn fb = alpn) \<and>
                (fb_path fb = [] \<or> contains_str (fb_path fb) path)) (fallbacks cfg)"

definition fallback_dest :: "Fallback \<Rightarrow> string" where
  "fallback_dest fb = (if CHR '':'' \<in> set (fb_dest fb) then fb_dest fb else fb_dest fb @ '':443'')"

definition hex_or_lower :: "u8 \<Rightarrow> bool" where
  "hex_or_lower b \<longleftrightarrow> (48 \<le> b \<and> b \<le> 57) \<or> (65 \<le> b \<and> b \<le> 70) \<or> (97 \<le> b \<and> b \<le> 122)"

definition looks_like_trojan :: "u8 list \<Rightarrow> bool" where
  "looks_like_trojan data \<longleftrightarrow>
     length data \<ge> 58 \<and> list_all hex_or_lower (take 56 data) \<and> data ! 56 = 0x0D \<and> data ! 57 = 0x0A"

function hello_sni_loop :: "u8 list \<Rightarrow> nat \<Rightarrow> nat \<Rightarrow> string" where
  "hello_sni_loop data ext_end pos =
     (if pos + 4 \<le> ext_end then
        let ext_type = be16_at pos data; ext_data_len = unat (be16_at (pos + 2) data);
            name_len = unat (be16_at (pos + 7) data);
            bs = take name_len (drop (pos + 9) data)
        in if ext_type = 0 \<and> pos + 6 \<le> ext_end then
             if pos + 9 \<le> ext_end then
               if pos + 9 + name_len \<le> length data \<and> valid_utf8 bs then of_bytes bs
               else hello_sni_loop data ext_end (pos + 9 + ext_data_len)
             else hello_sni_loop data ext_end (pos + 6 + ext_data_len)
           else hello_sni_loop data ext_end (pos + 4 + ext_data_len)
      else [])"
  by pat_completeness auto
termination by (relation "measure (\<lambda>(_, ext_end, pos). ext_end - pos)") auto

declare hello_sni_loop.simps [simp del]

definition extract_sni_from_client_hello :: "u8 list \<Rightarrow> string" where
  "extract_sni_from_client_hello data =
     (if length data < 50 \<or> data ! 0 \<noteq> 0x16 then []
      else let pos = 44 + unat (data ! 43) in
        if pos + 1 \<ge> length data then []
        else let pos = pos + 2 + unat (be16_at pos data) in
          if pos \<ge> length data then []
          else let pos = pos + 1 + unat (data ! pos) in
            if pos + 1 \<ge> length data then []
            else let ext_end = pos + 2 + unat (be16_at pos data) in
              if ext_end > length data then [] else hello_sni_loop data ext_end (pos + 2))"

text \<open>\<open>&line[n..]\<close> panics past the end or inside a character.\<close>

definition str_from :: "nat \<Rightarrow> string \<Rightarrow> (string, string) res" where
  "str_from n s =
     (if n \<le> length s \<and> (n = length s \<or> \<not> (128 \<le> (of_char (s ! n) :: nat) \<and> (of_char (s ! n) :: nat) < 192))
      then Ok (drop n s) else Panic)"

fun host_line :: "(string \<Rightarrow> string) \<Rightarrow> string list \<Rightarrow> (string, string option) res" where
  "host_line lc [] = Ok None"
| "host_line lc (l # ls) =
     (if starts_with ''host:'' (lc l) then rbind (str_from 5 l) (\<lambda>v. Ok (Some (trim v)))
      else if starts_with '':authority:'' (lc l) then rbind (str_from 11 l) (\<lambda>v. Ok (Some (trim v)))
      else host_line lc ls)"

definition extract_http_path :: "(string \<Rightarrow> string) \<Rightarrow> u8 list \<Rightarrow> (string, string) res" where
  "extract_http_path lc data =
     (let s = (if valid_utf8 data then of_bytes data else []) in
      rbind (host_line lc (str_lines s)) (\<lambda>h.
        case h of
          Some v \<Rightarrow> Ok v
        | None \<Rightarrow>
            (case str_lines s of
               line # _ \<Rightarrow>
                 if (starts_with ''GET '' line \<or> starts_with ''POST '' line) \<and> length line > 5
                 then Ok (takeWhile (\<lambda>c. c \<noteq> CHR '' '') (tl (dropWhile (\<lambda>c. c \<noteq> CHR '' '') line)))
                 else Ok []
             | [] \<Rightarrow> Ok [])))"

datatype trojan_outcome =
    TrojanClosed
  | TrojanFallback string "u8 list"
  | TrojanDispatch Session Destination "u8 list"

definition trojan_session :: "Destination \<Rightarrow> Session" where
  "trojan_session target =
     \<lparr>inbound = Some \<lparr>ib_source = target, ib_local = None, ib_gateway = None, ib_tag = []\<rparr>,
      outbound = Some \<lparr>ob_target = target, original_target = target, route_target = None, ob_tag = []\<rparr>,
      content = Some \<lparr>ct_protocol = Some ''trojan'', sniffing_request = None, ct_attributes = [], skip_dns_resolve = False\<rparr>\<rparr>"

definition trojan_accept :: "ServerConfig \<Rightarrow> u8 list \<Rightarrow> (string, trojan_outcome) res" where
  "trojan_accept cfg data =
     (if length data < 58 then Err ''trojan inbound: header too short''
      else rbind (read_header_from_slice data) (\<lambda>(header, header_size).
        case find_user cfg (th_key header) of
          None \<Rightarrow> Err ''trojan inbound: unknown user''
        | Some _ \<Rightarrow>
            (let target = th_destination header in
             if network target \<noteq> Tcp then Err ''trojan inbound: non-TCP not supported yet''
             else Ok (TrojanDispatch (trojan_session target) target (drop header_size data)))))"

text \<open>The handler on the bytes of its first read, at most 2048.\<close>

definition trojan_process :: "(string \<Rightarrow> string) \<Rightarrow> ServerConfig \<Rightarrow> u8 list \<Rightarrow> (string, trojan_outcome) res" where
  "trojan_process lc cfg data =
     (if data = [] then Ok TrojanClosed
      else if fallbacks cfg \<noteq> [] \<and> \<not> looks_like_trojan data
      then rbind (extract_http_path lc data) (\<lambda>path.
             case match_fallback cfg (extract_sni_from_client_hello data) [] path of
               Some fb \<Rightarrow> Ok (TrojanFallback (fallback_dest fb) data)
             | None \<Rightarrow> trojan_accept cfg data)
      else trojan_accept cfg data)"

section \<open>The outbound handler (outbound.rs)\<close>

record ClientConfig =
  cl_server :: string
  cl_port :: u16
  cl_password :: string
  cl_key :: "u8 list"

definition ClientConfig_new :: "(u8 list \<Rightarrow> u8 list) \<Rightarrow> string \<Rightarrow> u16 \<Rightarrow> string \<Rightarrow> ClientConfig" where
  "ClientConfig_new digest srv p pw =
     \<lparr>cl_server = srv, cl_port = p, cl_password = pw, cl_key = key_from_password digest pw\<rparr>"

text \<open>The server it dials and the header it sends first.\<close>

definition trojan_outbound :: "ClientConfig \<Rightarrow> Session \<Rightarrow> (string, Destination \<times> u8 list) res" where
  "trojan_outbound cfg session =
     (case outbound session of
        None \<Rightarrow> Err ''trojan outbound: no target''
      | Some ob \<Rightarrow>
          rbind (write_tcp_header (cl_key cfg) (address (ob_target ob)) (port_value (port (ob_target ob)))) (\<lambda>h.
            Ok (TcpDestination (ParseAddress (cl_server cfg)) (Port (cl_port cfg)), h)))"

section \<open>Headers round trip\<close>

lemma trojan_fmts_ok [simp]: "fmt_ok address_fmt" "fmt_ok header_fmt" "fmt_ok stream_fmt"
  by (simp_all add: fmt_ok_def address_fmt_def header_fmt_def stream_fmt_def strict_text_valid)

lemma write_address_fits: "addr_fits a \<Longrightarrow> write_address a = Ok (addr_tag header_fmt a # addr_body a)"
  by (cases a) (simp_all add: header_fmt_def)

lemma stream_tag [simp]: "addr_tag stream_fmt a = addr_tag header_fmt a" "addr_tag address_fmt a = addr_tag header_fmt a"
  by (cases a; simp add: stream_fmt_def header_fmt_def address_fmt_def)+

definition tcp_header :: "u8 list \<Rightarrow> Address \<Rightarrow> u16 \<Rightarrow> TrojanHeader" where
  "tcp_header key a p = \<lparr>th_key = key, th_command = COMMAND_TCP, th_destination = TcpDestination a (Port p)\<rparr>"

lemma header_from_slice:
  assumes "length key = 56" and "addr_fits a" and "write_tcp_header key a p = Ok h"
  shows "read_header_from_slice (h @ payload) = Ok (tcp_header key a p, length h)"
proof -
  let ?t = "addr_tag header_fmt a" and ?b = "addr_body a"
  let ?pre = "key @ [0x0D, 0x0A, 1, ?t]"
  have h: "h @ payload = ?pre @ ?b @ (to_be16 p @ [0x0D, 0x0A] @ payload)"
    using assms(3) write_address_fits [OF assms(2)] by (auto simp: write_tcp_header_def crlf_def COMMAND_TCP_def)
  define data where "data = h @ payload"
  have ta: "take_addr header_fmt ?t data 60 = Ok (a, 60 + length ?b)"
    using take_addr_body [of header_fmt a ?pre "to_be16 p @ [0x0D, 0x0A] @ payload"] assms(1,2) by (simp add: data_def h)
  have i: "data ! 56 = 0x0D" "data ! 57 = 0x0A" "data ! 58 = 1" "data ! 59 = ?t"
    using assms(1) by (simp_all add: data_def h nth_append)
  have q: "be16_at (60 + length ?b) data = p"
    using be16_at_append [of "?pre @ ?b" "60 + length ?b" p] assms(1) by (simp add: data_def h)
  have r: "data ! (60 + length ?b + 2) = 0x0D" "data ! (60 + length ?b + 3) = 0x0A"
    using assms(1) by (simp_all add: data_def h nth_append)
  have l: "length data = 64 + length ?b + length payload" and hl: "length h = 64 + length ?b"
    using assms(1) arg_cong [OF h, of length] by (simp_all add: data_def)
  have k: "take 56 data = key" using assms(1) by (simp add: data_def h)
  show ?thesis unfolding data_def [symmetric]
    using ta i q r l hl k
    by (simp add: read_header_from_slice_def command_network_def COMMAND_TCP_def tcp_header_def TcpDestination_def)
qed

lemma header_from_stream:
  assumes "length key = 56" and "addr_fits a" and "write_tcp_header key a p = Ok h"
  shows "read_header (open_conn (h @ payload) e w) = (Ok (tcp_header key a p), open_conn payload e w)"
proof -
  let ?t = "addr_tag header_fmt a" and ?b = "addr_body a"
  have h: "h = key @ crlf @ [1] @ [?t] @ ?b @ to_be16 p @ crlf"
    using assms(3) write_address_fits [OF assms(2)] by (auto simp: write_tcp_header_def COMMAND_TCP_def)
  have k: "cread m 56 (open_conn (key @ r) e w) = (Ok key, open_conn r e w)" for m r
    by (rule cread_app) (simp add: assms(1))
  have c: "cread m 2 (open_conn (crlf @ r) e w) = (Ok crlf, open_conn r e w)" for m r
    by (rule cread_app) (simp add: crlf_def)
  have a: "read_addr stream_fmt m4 m6 ml md ?t (open_conn (?b @ r) e w) = (Ok a, open_conn r e w)" for m4 m6 ml md r
    using read_addr_body [of stream_fmt a m4 m6 ml md r e w] assms(2) by simp
  show ?thesis
    by (simp add: h read_header_def cbind_def k c a cio command_network_def COMMAND_TCP_def tcp_header_def TcpDestination_def)
qed

text \<open>Both header readers invert the header writer: for every 56-byte key and every address a header can carry,
  the slice reader returns the key, the TCP command and the destination together with the exact size of
  the header, and the stream reader returns the same header and stops right behind it, whatever
  payload follows.\<close>
theorem trojan_header_roundtrip:
  assumes "length key = 56" and "addr_fits a"
  shows "\<exists>h. write_tcp_header key a p = Ok h \<and>
    read_header_from_slice (h @ payload) = Ok (tcp_header key a p, length h) \<and>
    read_header (open_conn (h @ payload) e w) = (Ok (tcp_header key a p), open_conn payload e w)"
proof -
  obtain h where "write_tcp_header key a p = Ok h"
    using write_address_fits [OF assms(2)] by (simp add: write_tcp_header_def)
  with header_from_slice [OF assms this] header_from_stream [OF assms this] show ?thesis by blast
qed

theorem trojan_header_roundtrip_witness:
  "\<exists>h. write_tcp_header (replicate 56 97) (Ipv4 [1, 2, 3, 4]) 443 = Ok h \<and>
       read_header_from_slice (h @ [7]) = Ok (tcp_header (replicate 56 97) (Ipv4 [1, 2, 3, 4]) 443, length h)"
  using trojan_header_roundtrip [of "replicate 56 97" "Ipv4 [1, 2, 3, 4]" 443 "[7]"] by auto

text \<open>Datagrams lose their length field: the payload is everything that follows.\<close>

lemma trojan_udp_roundtrip:
  assumes "addr_fits a" and "write_udp_packet a p payload = Ok h"
  shows "read_udp_packet (h @ rest) = Ok (a, p, payload @ rest)"
proof -
  let ?t = "addr_tag header_fmt a" and ?b = "addr_body a"
  let ?post = "to_be16 p @ to_be16 (word_of_nat (length payload)) @ crlf @ payload @ rest"
  define data where "data = h @ rest"
  have h: "data = [?t] @ ?b @ ?post"
    using assms(2) write_address_fits [OF assms(1)] by (auto simp: data_def write_udp_packet_def)
  have ta: "take_addr header_fmt ?t data 1 = Ok (a, 1 + length ?b)"
    using take_addr_body [of header_fmt a "[?t]" ?post] assms(1) by (simp add: h)
  have q: "be16_at (1 + length ?b) data = p" using be16_at_append [of "[?t] @ ?b" "1 + length ?b" p] by (simp add: h)
  have h2: "data = ([?t] @ ?b @ to_be16 p @ to_be16 (word_of_nat (length payload))) @ crlf @ (payload @ rest)" by (simp add: h)
  have c: "take 2 (drop (1 + length ?b + 4) data) = crlf" unfolding h2 by (rule take_drop_at) (simp_all add: crlf_def)
  have h3: "data = ([?t] @ ?b @ to_be16 p @ to_be16 (word_of_nat (length payload)) @ crlf) @ (payload @ rest)" by (simp add: h)
  have d: "drop (1 + length ?b + 6) data = payload @ rest" unfolding h3 by (rule drop_at) (simp add: crlf_def)
  have l: "length data \<ge> 1 + length ?b + 6" by (simp add: h crlf_def)
  show ?thesis unfolding data_def [symmetric]
    using ta q c d l by (simp add: read_udp_packet_def) (simp add: h)
qed

section \<open>Panics and authentication\<close>

text \<open>The header reader panics on short headers and on nothing else: exactly when the input has 58 or 59 bytes with
  the line break behind the key in place, so anyone can crash the task of a connection by closing it
  after the key.\<close>
theorem trojan_header_panics_iff:
  "read_header_from_slice data = Panic \<longleftrightarrow>
     (length data = 58 \<or> length data = 59) \<and> data ! 56 = 0x0D \<and> data ! 57 = 0x0A"
  by (auto simp: read_header_from_slice_def rbind_eq_Panic command_network_def split: if_splits)

lemma find_user_from_Some: "find_user_from i key as = Some k \<Longrightarrow> key \<in> ac_key ` set as"
  by (induction i key as rule: find_user_from.induct) (auto split: if_splits)

lemma trojan_accept_dispatch:
  assumes "trojan_accept cfg data = Ok (TrojanDispatch s dest rest)"
  shows "take 56 data \<in> ac_key ` set (tr_users cfg)" and "s = trojan_session dest" and "network dest = Tcp"
    and "\<exists>hdr. data = hdr @ rest \<and> 60 < length hdr"
proof -
  obtain hdr n where r: "read_header_from_slice data = Ok (hdr, n)" and u: "find_user cfg (th_key hdr) \<noteq> None"
    and o: "s = trojan_session dest" "dest = th_destination hdr" "rest = drop n data" "network dest = Tcp"
    using assms by (auto simp: trojan_accept_def rbind_eq_Ok Let_def split: if_splits option.splits)
  have k: "th_key hdr = take 56 data" using r by (auto simp: read_header_from_slice_def rbind_eq_Ok split: if_splits)
  obtain a off where ta: "take_addr header_fmt (data ! 59) data 60 = Ok (a, off)" and n: "n = off + 4" "length data \<ge> off + 4" "60 \<le> length data"
    using r by (auto simp: read_header_from_slice_def rbind_eq_Ok split: if_splits)
  have "60 < off" using take_addr_Ok [OF ta n(3)] by simp
  then show "\<exists>hdr. data = hdr @ rest \<and> 60 < length hdr"
    using n o(3) by (intro exI [of _ "take n data"]) simp
  show "take 56 data \<in> ac_key ` set (tr_users cfg)"
    using u k find_user_from_Some by (auto simp: find_user_def)
  show "s = trojan_session dest" "network dest = Tcp" using o by simp_all
qed



end
