(* ===== verification/Proto.thy ===== *)
theory Proto
  imports Net
begin

text \<open>
  \<^verbatim>\<open>astra-core-proto\<close> and the account helpers that VLESS and VMess share: identifiers, the enumerations of
  request headers, users, and the text form of UUIDs. The MD5 digest is a parameter.
\<close>

section \<open>Identifiers (id.rs)\<close>

text \<open>A UUID is its 16 bytes.\<close>

type_synonym UUID = "u8 list"

record ID =
  uuid :: UUID
  cmd_key :: "u8 list"

definition ID_BYTES_LEN :: nat where "ID_BYTES_LEN = 16"

definition UUID_CMD_KEY_SALT :: "u8 list" where
  "UUID_CMD_KEY_SALT = as_bytes ''c48619fe-8f02-49e0-b9e9-edf763e17e21''"

definition ID_new :: "(u8 list \<Rightarrow> u8 list) \<Rightarrow> UUID \<Rightarrow> ID" where
  "ID_new md5 u = \<lparr>uuid = u, cmd_key = take ID_BYTES_LEN (md5 (u @ UUID_CMD_KEY_SALT))\<rparr>"

definition ID_bytes :: "ID \<Rightarrow> u8 list" where "ID_bytes i = uuid i"
definition ID_equals :: "ID \<Rightarrow> ID \<Rightarrow> bool" where "ID_equals a b \<longleftrightarrow> uuid a = uuid b"

definition hex_bytes :: "u8 list \<Rightarrow> string" where "hex_bytes bs = concat (map hex2 bs)"

definition show_uuid :: "UUID \<Rightarrow> string" where
  "show_uuid b = hex_bytes (take 4 b) @ ''-'' @ hex_bytes (take 2 (drop 4 b)) @ ''-'' @ hex_bytes (take 2 (drop 6 b)) @
     ''-'' @ hex_bytes (take 2 (drop 8 b)) @ ''-'' @ hex_bytes (take 6 (drop 10 b))"

text \<open>
  \<^verbatim>\<open>hex_decode\<close>: the string is cut into slices of two bytes, each parsed by
  \<^verbatim>\<open>u8::from_str_radix\<close> (which takes a plus sign before one digit); a slice that ends inside a character panics.
\<close>

definition hex_pair :: "char \<Rightarrow> char \<Rightarrow> u8 option" where
  "hex_pair a b =
     (case to_digit 16 b of
        None \<Rightarrow> None
      | Some l \<Rightarrow>
          (if a = CHR ''+'' then Some (word_of_nat l)
           else map_option (\<lambda>h. word_of_nat (h * 16 + l)) (to_digit 16 a)))"

definition in_char :: "string \<Rightarrow> bool" where
  "in_char s \<longleftrightarrow> s \<noteq> [] \<and> 128 \<le> (of_char (hd s) :: nat) \<and> (of_char (hd s) :: nat) < 192"

fun hex_pairs :: "string \<Rightarrow> (string, u8 list) res" where
  "hex_pairs (a # b # s) =
     (if in_char s then Panic
      else case hex_pair a b of
        None \<Rightarrow> Err ''invalid digit found in string''
      | Some v \<Rightarrow> rbind (hex_pairs s) (\<lambda>vs. Ok (v # vs)))"
| "hex_pairs _ = Ok []"

definition hex_decode :: "string \<Rightarrow> (string, u8 list) res" where
  "hex_decode s = (if odd (length s) then Err ''odd hex string length'' else hex_pairs s)"

definition parse_uuid :: "string \<Rightarrow> (string, UUID) res" where
  "parse_uuid s =
     rbind (hex_decode (filter (\<lambda>c. c \<noteq> CHR ''-'') (trim s))) (\<lambda>bytes.
       if length bytes \<noteq> 16 then Err (''invalid UUID length: '' @ show_nat (length bytes)) else Ok bytes)"

section \<open>Headers (headers.rs, payload.rs)\<close>

datatype SecurityType = SecUnknown | SecAuto | Aes128Gcm | ChaCha20Poly1305 | SecNone | SecZero

fun SecurityType_as_i32 :: "SecurityType \<Rightarrow> int" where
  "SecurityType_as_i32 SecUnknown = 0"
| "SecurityType_as_i32 SecAuto = 2"
| "SecurityType_as_i32 Aes128Gcm = 3"
| "SecurityType_as_i32 ChaCha20Poly1305 = 4"
| "SecurityType_as_i32 SecNone = 5"
| "SecurityType_as_i32 SecZero = 6"

definition SecurityType_from_i32 :: "int \<Rightarrow> SecurityType" where
  "SecurityType_from_i32 v =
     (if v = 2 then SecAuto else if v = 3 then Aes128Gcm else if v = 4 then ChaCha20Poly1305
      else if v = 5 then SecNone else if v = 6 then SecZero else SecUnknown)"

definition SecurityType_from_byte :: "u8 \<Rightarrow> SecurityType" where
  "SecurityType_from_byte b = SecurityType_from_i32 (uint b)"

definition SecurityType_as_byte :: "SecurityType \<Rightarrow> u8" where
  "SecurityType_as_byte t = word_of_int (SecurityType_as_i32 t)"

definition get_security_type :: "SecurityType \<Rightarrow> SecurityType" where
  "get_security_type t = (if t = SecAuto then Aes128Gcm else t)"

datatype TransferType = StreamTransfer | PacketTransfer

datatype RequestCommand = CmdTcp | CmdUdp | CmdMux | CmdRvs

definition RequestCommand_from_byte :: "u8 \<Rightarrow> RequestCommand option" where
  "RequestCommand_from_byte b =
     (if b = 1 then Some CmdTcp else if b = 2 then Some CmdUdp else if b = 3 then Some CmdMux
      else if b = 4 then Some CmdRvs else None)"

fun RequestCommand_as_byte :: "RequestCommand \<Rightarrow> u8" where
  "RequestCommand_as_byte CmdTcp = 1"
| "RequestCommand_as_byte CmdUdp = 2"
| "RequestCommand_as_byte CmdMux = 3"
| "RequestCommand_as_byte CmdRvs = 4"

definition transfer_type :: "RequestCommand \<Rightarrow> TransferType" where
  "transfer_type c = (if c = CmdUdp then PacketTransfer else StreamTransfer)"

record 'acc MemoryUser =
  account :: "'acc option"
  email :: string
  level :: u32

record 'acc RequestHeader =
  rq_version :: u8
  rq_command :: RequestCommand
  rq_option :: u8
  rq_security :: SecurityType
  rq_port :: Port
  rq_address :: Address
  rq_user :: "'acc MemoryUser option"

definition header_destination :: "'acc RequestHeader \<Rightarrow> Destination" where
  "header_destination h =
     (if rq_command h = CmdUdp then UdpDestination (rq_address h) (rq_port h)
      else TcpDestination (rq_address h) (rq_port h))"

section \<open>Codes and text round trip\<close>

lemma command_byte [simp]: "RequestCommand_from_byte (RequestCommand_as_byte c) = Some c"
  by (cases c) (simp_all add: RequestCommand_from_byte_def)

lemma security_byte [simp]: "SecurityType_from_byte (SecurityType_as_byte t) = t"
  by (cases t) (simp_all add: SecurityType_from_byte_def SecurityType_as_byte_def SecurityType_from_i32_def)

lemma digit_char_ascii: "d < 16 \<Longrightarrow> (of_char (digit_char d) :: nat) < 128 \<and> digit_char d \<noteq> CHR ''+'' \<and> digit_char d \<noteq> CHR ''-''"
  by (auto simp: digit_char_def dest: arg_cong [where f = "of_char :: char \<Rightarrow> nat"])

lemma digit_char_0 [simp]: "digit_char 0 = CHR ''0''"
  by (rule of_char_eq_iff [where 'a = nat, THEN iffD1]) (simp add: digit_char_def)

lemma hex2_digits: "hex2 b = [digit_char (unat b div 16), digit_char (unat b mod 16)]"
proof -
  have b: "unat b div 16 < 16" using unat_bound [of b] by simp
  then have "radix_digits 16 (unat b div 16) = [unat b div 16]" by (subst radix_digits.simps) simp
  then show ?thesis using b unfolding hex2_def show_hex_def
    by (subst radix_digits.simps) auto
qed

lemma hex_pair_digits:
  "h < 16 \<Longrightarrow> l < 16 \<Longrightarrow> hex_pair (digit_char h) (digit_char l) = Some (word_of_nat (h * 16 + l))"
  using digit_char_ascii [of h] by (simp add: hex_pair_def)

lemma hex_pairs_hex_bytes: "hex_pairs (hex_bytes bs) = Ok bs"
proof (induction bs)
  case (Cons b bs)
  have h: "unat b div 16 < 16" "unat b mod 16 < 16" using unat_bound [of b] by auto
  have "\<not> in_char (hex_bytes bs)"
    using unat_bound [of "hd bs"] digit_char_ascii [of "unat (hd bs) div 16"]
    by (cases bs) (simp_all add: in_char_def hex_bytes_def hex2_digits less_mult_imp_div_less)
  then show ?case using Cons hex_pair_digits [OF h] by (simp add: hex_bytes_def hex2_digits)
qed (simp add: hex_bytes_def)

lemma hex_bytes_append: "hex_bytes (a @ b) = hex_bytes a @ hex_bytes b"
  by (simp add: hex_bytes_def)

lemma length_hex_bytes [simp]: "length (hex_bytes bs) = 2 * length bs"
  by (induction bs) (simp_all add: hex_bytes_def hex2_digits)

lemma digit_char_range: "d < 16 \<Longrightarrow> (of_char (digit_char d) :: nat) \<in> {48..57} \<union> {97..102}"
  by (cases "d < 10") (simp_all add: digit_char_def)

lemma hex_bytes_char:
  "c \<in> set (hex_bytes bs) \<Longrightarrow> (of_char c :: nat) \<in> {48..57} \<union> {97..102}"
proof -
  assume "c \<in> set (hex_bytes bs)"
  then have "\<exists>b. c \<in> set (hex2 b)" by (auto simp: hex_bytes_def)
  then obtain b :: u8 where "c = digit_char (unat b div 16) \<or> c = digit_char (unat b mod 16)" by (auto simp: hex2_digits)
  moreover have "unat b div 16 < 16" using unat_bound [of b] by simp
  ultimately show ?thesis using digit_char_range [of "unat b div 16"] digit_char_range [of "unat b mod 16"] by auto
qed

lemma filter_hex_bytes [simp]: "filter (\<lambda>c. c \<noteq> CHR ''-'') (hex_bytes bs) = hex_bytes bs"
  by (rule filter_True) (auto dest: hex_bytes_char)

lemma trim_plain:
  assumes "s \<noteq> []" and "(of_char (hd s) :: nat) \<in> {48..102}" and "(of_char (last s) :: nat) \<in> {48..102}"
  shows "trim s = s"
proof -
  have "of_char (hd w) \<notin> {48..102 :: nat}" "of_char (last w) \<notin> {48..102 :: nat}" if "w \<in> set whitespace" for w
    using that by (auto simp: whitespace_def)
  then have "\<forall>w \<in> set whitespace. \<not> starts_with w s" "\<forall>w \<in> set (map rev whitespace). \<not> starts_with w (rev s)"
    using assms whitespace_nonempty by (auto dest!: starts_with_hd simp: hd_rev)
  then show ?thesis by (simp add: trim_def trim_start_def trim_end_def trim_prefixes_none)
qed

lemma uuid_split:
  assumes "length u = 16"
  shows "take 4 u @ take 2 (drop 4 u) @ take 2 (drop 6 u) @ take 2 (drop 8 u) @ take 6 (drop 10 u) = u"
  using assms by (simp add: list_eq_iff_nth_eq nth_append)

lemma parse_show_uuid:
  assumes "length u = 16"
  shows "parse_uuid (show_uuid u) = Ok u"
proof -
  have ne: "hex_bytes (take 4 u) \<noteq> []" "hex_bytes (take 6 (drop 10 u)) \<noteq> []"
    using assms by (simp_all add: length_0_conv [symmetric] del: length_0_conv)
  have c: "(of_char c :: nat) \<in> {48..102}" if "c \<in> set (hex_bytes bs)" for c bs using hex_bytes_char [OF that] by auto
  have "trim (show_uuid u) = show_uuid u"
    using ne c [OF hd_in_set [OF ne(1)]] c [OF last_in_set [OF ne(2)]]
    by (intro trim_plain) (simp_all add: show_uuid_def)
  moreover have "filter (\<lambda>c. c \<noteq> CHR ''-'') (show_uuid u) = hex_bytes u"
    by (simp add: show_uuid_def hex_bytes_append [symmetric] uuid_split [OF assms])
  ultimately show ?thesis using assms by (simp add: parse_uuid_def hex_decode_def hex_pairs_hex_bytes)
qed

end
