(* ===== verification/Vless.thy ===== *)
theory Vless
  imports Proto Proxy_Io
begin

text \<open>
  \<^verbatim>\<open>astra-core-proxy-vless\<close>: the addons' protobuf encoding, request and response headers, the user
  table, and both handlers up to the relay. The header decoder is given the user table and never looks
  at it; the model keeps that argument.
\<close>

section \<open>Accounts and users (account.rs, validator.rs)\<close>

definition flow_none :: string where "flow_none = ''none''"
definition flow_xrv :: string where "flow_xrv = ''xtls-rprx-vision''"

record MemoryAccount =
  acc_id :: ID
  acc_flow :: string

text \<open>A \<^verbatim>\<open>dyn Account\<close>: one of this crate's accounts, or one of another protocol.\<close>

datatype 'o dyn_account = VlessAccount MemoryAccount | OtherAccount 'o

fun account_equals :: "MemoryAccount \<Rightarrow> 'o dyn_account \<Rightarrow> bool" where
  "account_equals a (VlessAccount b) = (uuid (acc_id a) = uuid (acc_id b))"
| "account_equals a (OtherAccount _) = False"

definition ProcessUUID :: "UUID \<Rightarrow> UUID" where
  "ProcessUUID i = i[6 := 0, 7 := 0]"

record 'o MemoryValidator =
  users_by_uuid :: "(UUID \<times> 'o dyn_account MemoryUser) list"
  users_by_email :: "(string \<times> 'o dyn_account MemoryUser) list"

definition MemoryValidator_new :: "'o MemoryValidator" where
  "MemoryValidator_new = \<lparr>users_by_uuid = [], users_by_email = []\<rparr>"

definition validator_get :: "'o MemoryValidator \<Rightarrow> UUID \<Rightarrow> 'o dyn_account MemoryUser option" where
  "validator_get v i = map_of (users_by_uuid v) (ProcessUUID i)"

definition user_key :: "'o dyn_account MemoryUser \<Rightarrow> UUID" where
  "user_key u =
     (case account u of
        Some (VlessAccount a) \<Rightarrow> ProcessUUID (ID_bytes (acc_id a))
      | _ \<Rightarrow> ProcessUUID (replicate 16 0))"

definition validator_add ::
  "'o dyn_account MemoryUser \<Rightarrow> 'o MemoryValidator \<Rightarrow> (string, unit) res \<times> 'o MemoryValidator" where
  "validator_add u v =
     (if map_of (users_by_uuid v) (user_key u) \<noteq> None then (Err ''user already exists'', v)
      else (Ok (), v\<lparr>users_by_uuid := AList.update (user_key u) u (users_by_uuid v),
                    users_by_email := AList.update (email u) u (users_by_email v)\<rparr>))"

definition validator_del :: "string \<Rightarrow> 'o MemoryValidator \<Rightarrow> bool \<times> 'o MemoryValidator" where
  "validator_del em v =
     (map_of (users_by_email v) em \<noteq> None, v\<lparr>users_by_email := AList.delete em (users_by_email v)\<rparr>)"

definition get_count :: "'o MemoryValidator \<Rightarrow> nat" where
  "get_count v = length (users_by_uuid v)"

section \<open>Addons (encoding/addons.rs)\<close>

record Addons =
  flow :: string
  seed :: "u8 list option"

definition Addons_default :: Addons where "Addons_default = \<lparr>flow = [], seed = None\<rparr>"

lemma unat_drop_bit7: "unat (drop_bit 7 (v :: u64)) = unat v div 128"
  by (simp add: unat_drop_bit_eq drop_bit_eq_div [where 'a = nat])

function encode_varint :: "u64 \<Rightarrow> u8 list" where
  "encode_varint v = (if v < 0x80 then [ucast v] else (ucast v OR 0x80) # encode_varint (drop_bit 7 v))"
  by pat_completeness auto
termination
  by (relation "measure unat") (auto simp: unat_drop_bit7 word_less_nat_alt)

declare encode_varint.simps [simp del]

text \<open>The loop of \<^verbatim>\<open>decode_varint\<close>: the value and the offset behind it.\<close>

function decode_varint :: "u8 list \<Rightarrow> nat \<Rightarrow> u64 \<Rightarrow> nat \<Rightarrow> (string, nat \<times> nat) res" where
  "decode_varint data off result shift =
     (if off \<ge> length data then Err ''truncated varint''
      else let byte = ucast (data ! off) :: u64; result = result OR push_bit shift (byte AND 0x7f) in
        if byte AND 0x80 = 0 then Ok (unat result, off + 1)
        else if shift + 7 > 63 then Err ''varint too long''
        else decode_varint data (off + 1) result (shift + 7))"
  by pat_completeness auto
termination by (relation "measure (\<lambda>(data, off, _). length data - off)") auto

declare decode_varint.simps [simp del]

lemma decode_varint_bounds:
  "decode_varint data off r s = Ok (v, off') \<Longrightarrow> off < off' \<and> off' \<le> length data \<and> v < 2 ^ 64"
proof (induction data off r s rule: decode_varint.induct)
  case (1 data off r s)
  define r' where "r' = r OR push_bit s (ucast (data ! off) AND 0x7f :: u64)"
  have "off < length data" using 1(2) by (subst (asm) decode_varint.simps) (auto split: if_splits)
  moreover have "unat r' < 2 ^ 64" using unat_bound [of r'] by simp
  moreover have "(v, off') = (unat r', off + 1) \<or>
      ucast (data ! off) AND (0x80 :: u64) \<noteq> 0 \<and> s + 7 \<le> 63 \<and> decode_varint data (off + 1) r' (s + 7) = Ok (v, off')"
    using 1(2) by (subst (asm) decode_varint.simps) (auto simp: Let_def r'_def split: if_splits)
  moreover have "off + 1 < off' \<and> off' \<le> length data \<and> v < 2 ^ 64"
    if "ucast (data ! off) AND (0x80 :: u64) \<noteq> 0 \<and> s + 7 \<le> 63 \<and> decode_varint data (off + 1) r' (s + 7) = Ok (v, off')"
    using that calculation(1) by (intro 1(1)) (auto simp: r'_def)
  ultimately show ?case by auto
qed

text \<open>
  The fields behind \<open>off\<close>. The sum of offset and length wraps, and a slice whose end lies before its
  start panics.
\<close>

function decode_fields :: "u8 list \<Rightarrow> nat \<Rightarrow> Addons \<Rightarrow> (string, Addons) res" where
  "decode_fields data off a =
     (if off < length data then
        let tag = data ! off in
        if tag = 0x0a \<or> tag = 0x12 then
          (case decode_varint data (off + 1) 0 0 of
             Ok (len, p) \<Rightarrow>
               (let e = usize_add p len in
                if e > length data
                then Err (if tag = 0x0a then ''truncated addons flow'' else ''truncated addons seed'')
                else if e < p then Panic
                else decode_fields data e
                  (if tag = 0x0a then a\<lparr>flow := of_bytes (from_utf8_lossy (take (e - p) (drop p data)))\<rparr>
                   else a\<lparr>seed := Some (take (e - p) (drop p data))\<rparr>))
           | Err m \<Rightarrow> Err m
           | Panic \<Rightarrow> Panic)
        else Ok a
      else Ok a)"
  by pat_completeness auto
termination
  by (relation "measure (\<lambda>(data, off, _). length data - off)")
    (auto dest!: decode_varint_bounds)

declare decode_fields.simps [simp del]

definition Addons_decode :: "u8 list \<Rightarrow> (string, Addons) res" where
  "Addons_decode data = decode_fields data 0 Addons_default"

definition field :: "u8 \<Rightarrow> u8 list \<Rightarrow> u8 list" where
  "field tag bs = tag # encode_varint (word_of_nat (length bs)) @ bs"

definition Addons_encode :: "Addons \<Rightarrow> u8 list" where
  "Addons_encode a =
     (if flow a \<noteq> [] then field 0x0a (as_bytes (flow a)) else []) @
     (case seed a of Some s \<Rightarrow> if s \<noteq> [] then field 0x12 s else [] | None \<Rightarrow> [])"

section \<open>Headers (encoding/codec.rs)\<close>

definition VERSION :: u8 where "VERSION = 0"

fun encode_address :: "Address \<Rightarrow> u8 list" where
  "encode_address (Ipv4 ip) = 1 # ip"
| "encode_address (Domain_a d) =
     (let n = min (length d) 255 in 2 # word_of_nat n # take n (as_bytes d))"
| "encode_address (Ipv6 ip) = 3 # ip"

definition vless_fmt :: addr_fmt where
  "vless_fmt =
     \<lparr>tag_v4 = 1, tag_v6 = 3, tag_domain = 2, short_v4 = ''truncated IPv4 address'', short_v6 = ''truncated IPv6 address'',
      short_dlen = ''truncated domain length'', short_domain = ''truncated domain'', bad_text = [],
      unknown_tag = (\<lambda>t. ''unknown address type: '' @ show_nat (unat t)), text_of = lossy_text\<rparr>"

definition decode_address :: "u8 list \<Rightarrow> (string, Address \<times> nat) res" where
  "decode_address data =
     (if data = [] then Err ''truncated address type'' else take_addr vless_fmt (hd data) data 1)"

definition EncodeRequestHeader :: "'acc RequestHeader \<Rightarrow> Addons \<Rightarrow> u8 list" where
  "EncodeRequestHeader rq addons =
     (let ad = Addons_encode addons in
      VERSION # replicate 16 0 @ word_of_nat (length ad) # ad @ RequestCommand_as_byte (rq_command rq) #
      (if rq_command rq = CmdTcp \<or> rq_command rq = CmdUdp
       then to_be16 (port_value (rq_port rq)) @ encode_address (rq_address rq) else []))"

definition decode_target :: "RequestCommand \<Rightarrow> u8 list \<Rightarrow> nat \<Rightarrow> (string, Address \<times> Port) res" where
  "decode_target cmd data off =
     (if cmd = CmdTcp \<or> cmd = CmdUdp then
        if length data < off + 2 then Err ''truncated port''
        else rbind (decode_address (drop (off + 2) data)) (\<lambda>(addr, _). Ok (addr, Port (be16_at off data)))
      else Ok (Ipv4 [0, 0, 0, 0], Port 0))"

text \<open>From the command byte at \<open>off\<close> on.\<close>

definition decode_command :: "u8 list \<Rightarrow> nat \<Rightarrow> Addons \<Rightarrow> (string, 'acc RequestHeader \<times> Addons) res" where
  "decode_command data off addons =
     (if length data \<le> off then Err ''truncated command''
      else case RequestCommand_from_byte (data ! off) of
        None \<Rightarrow> Err (''unknown VLESS command: '' @ show_nat (unat (data ! off)))
      | Some cmd \<Rightarrow>
          rbind (decode_target cmd data (off + 1)) (\<lambda>(addr, p).
            Ok (\<lparr>rq_version = data ! 0, rq_command = cmd, rq_option = 0, rq_security = SecZero, rq_port = p,
                 rq_address = addr, rq_user = None\<rparr>, addons)))"

definition DecodeRequestHeader ::
  "u8 list \<Rightarrow> (UUID \<Rightarrow> 'acc MemoryUser option) \<Rightarrow> (string, 'acc RequestHeader \<times> Addons) res" where
  "DecodeRequestHeader data getter =
     (if data = [] then Err ''empty request header''
      else if data ! 0 \<noteq> VERSION then Err (''unsupported VLESS version: '' @ show_nat (unat (data ! 0)))
      else if length data < 17 then Err ''truncated UUID''
      else if length data \<le> 17 then Err ''truncated addons length''
      else let addons_len = unat (data ! 17) in
        if addons_len > 0 then
          if length data < 18 + addons_len then Err ''truncated addons''
          else rbind (Addons_decode (take addons_len (drop 18 data))) (decode_command data (18 + addons_len))
        else decode_command data 18 Addons_default)"

definition EncodeResponseHeader :: "Addons \<Rightarrow> u8 list" where
  "EncodeResponseHeader addons = VERSION # Addons_encode addons"

definition DecodeResponseHeader :: "u8 list \<Rightarrow> (string, Addons) res" where
  "DecodeResponseHeader data =
     (if data = [] then Err ''empty response header''
      else if data ! 0 \<noteq> VERSION then Err (''unsupported VLESS response version: '' @ show_nat (unat (data ! 0)))
      else if length data < 2 then Err ''truncated addons length in response''
      else Addons_decode (drop 1 data))"

definition read_packet :: "u8 list \<Rightarrow> (string, u8 list \<times> u8 list) res" where
  "read_packet data =
     (if length data < 2 then Err ''truncated length prefix''
      else let len = unat (be16_at 0 data) in
        if length data < 2 + len then Err ''truncated packet''
        else Ok (take len (drop 2 data), drop (2 + len) data))"

definition encode_packet :: "u8 list \<Rightarrow> u8 list" where
  "encode_packet payload =
     (let len = min (length payload) 65535 in to_be16 (word_of_nat len) @ take len payload)"

section \<open>Handlers (inbound.rs, outbound.rs)\<close>

definition vless_target :: "'acc RequestHeader \<Rightarrow> Destination" where
  "vless_target rq =
     \<lparr>address = rq_address rq, port = rq_port rq, network = (if rq_command rq = CmdUdp then Udp else Tcp)\<rparr>"

definition vless_inbound ::
  "(UUID \<Rightarrow> 'acc MemoryUser option) \<Rightarrow> Session \<Rightarrow> (Session \<times> Destination) cio" where
  "vless_inbound getter session =
     cbind (cread_u16 ''read vless length: '') (\<lambda>header_len.
     cbind (cread ''read vless header: '' (unat header_len)) (\<lambda>header_buf.
     cbind (clift (DecodeRequestHeader header_buf getter)) (\<lambda>(request, addons).
     cbind (cwrite ''write vless response: '' (EncodeResponseHeader addons)) (\<lambda>_.
       let target = vless_target request in cret (with_target target session, target)))))"

record OutboundConfig =
  oc_flow :: string
  oc_seed :: "u8 list option"

definition config_addons :: "OutboundConfig \<Rightarrow> Addons" where
  "config_addons cfg = \<lparr>flow = oc_flow cfg, seed = oc_seed cfg\<rparr>"

definition dest_to_request :: "Destination \<Rightarrow> 'acc RequestHeader" where
  "dest_to_request dest =
     \<lparr>rq_version = 0, rq_command = (if network dest = Udp then CmdUdp else CmdTcp), rq_option = 0, rq_security = SecZero,
      rq_port = port dest, rq_address = address dest, rq_user = None\<rparr>"

definition request_packet :: "OutboundConfig \<Rightarrow> Destination \<Rightarrow> u8 list" where
  "request_packet cfg dest =
     encode_packet (EncodeRequestHeader (dest_to_request dest :: unit RequestHeader) (config_addons cfg))"

definition outbound_process :: "OutboundConfig \<Rightarrow> Destination \<Rightarrow> Addons cio" where
  "outbound_process cfg dest =
     cbind (cwrite ''write request header: '' (request_packet cfg dest)) (\<lambda>_.
     cbind (cread_u16 ''read response length: '') (\<lambda>resp_len.
     cbind (cread ''read response: '' (unat resp_len)) (\<lambda>resp_buf.
       clift (DecodeResponseHeader resp_buf))))"

text \<open>\<^verbatim>\<open>process_async\<close> is the same exchange, and the handler runs it for the target of the session.\<close>

definition vless_outbound :: "OutboundConfig \<Rightarrow> Session \<Rightarrow> unit cio" where
  "vless_outbound cfg session =
     (case outbound session of
        None \<Rightarrow> cerr ''no target destination''
      | Some ob \<Rightarrow> cbind (outbound_process cfg (ob_target ob)) (\<lambda>_. cret ()))"

section \<open>Varints and addons round trip\<close>

lemma bit_127: "bit (127 :: int) n \<longleftrightarrow> n < 7"
proof -
  have m: "(127 :: int) = mask 7" by (simp add: mask_eq_exp_minus_1)
  show ?thesis unfolding m bit_mask_iff by simp
qed

lemma bit_128: "bit (128 :: int) n \<longleftrightarrow> n = 7"
proof -
  have m: "(128 :: int) = push_bit 7 1" by simp
  show ?thesis unfolding m bit_push_bit_iff by (auto simp: bit_1_iff)
qed

lemma varint_bits: "push_bit s (v AND 0x7f) OR push_bit (s + 7) (drop_bit 7 v) = push_bit s (v :: u64)"
proof (rule bit_word_eqI)
  fix n :: nat
  show "bit (push_bit s (v AND 0x7f) OR push_bit (s + 7) (drop_bit 7 v)) n = bit (push_bit s v) n"
    by (cases "s + 7 \<le> n") (auto simp: bit_or_iff bit_and_iff bit_push_bit_iff bit_drop_bit_eq bit_numeral_word_iff bit_127)
qed

lemma low_byte: "(ucast (ucast v OR 0x80 :: u8) :: u64) AND 0x7f = v AND 0x7f"
  by (rule bit_word_eqI) (auto simp: bit_or_iff bit_and_iff bit_ucast_iff bit_numeral_word_iff bit_127 bit_128)

lemma high_bit: "(ucast (ucast (v :: u64) OR 0x80 :: u8) :: u64) AND 0x80 \<noteq> 0"
proof
  assume "(ucast (ucast v OR 0x80 :: u8) :: u64) AND 0x80 = 0"
  then have "\<not> bit ((ucast (ucast v OR 0x80 :: u8) :: u64) AND 0x80) 7" by simp
  then show False by (simp add: bit_or_iff bit_and_iff bit_ucast_iff bit_128)
qed

lemma small_varint:
  assumes "v < (0x80 :: u64)"
  shows "(ucast (ucast v :: u8) :: u64) = v" and "v AND 0x80 = 0" and "v AND 0x7f = v"
proof -
  have "take_bit 7 (unat v) = unat v" using assms by (simp add: take_bit_nat_eq_self_iff word_less_nat_alt)
  then have "take_bit 7 v = v" by (metis unsigned_take_bit_eq word_unat_eq_iff)
  then have v: "v AND mask 7 = v" by (simp add: take_bit_eq_mask)
  then have b: "\<not> bit v n" if "7 \<le> n" for n using that
    by (metis bit_and_iff bit_mask_iff linorder_not_less)
  show "v AND 0x7f = v" using v by (simp add: mask_eq_exp_minus_1)
  show "v AND 0x80 = 0" using b by (intro bit_word_eqI) (auto simp: bit_and_iff bit_numeral_word_iff bit_128)
  show "(ucast (ucast v :: u8) :: u64) = v" using b by (intro bit_word_eqI) (auto simp: bit_ucast_iff not_less_eq_eq [symmetric] intro: ccontr)
qed

lemma decode_encode_varint:
  assumes "unat v * 2 ^ s < 2 ^ 64"
  shows "decode_varint (pre @ encode_varint v @ post) (length pre) r s =
    Ok (unat (r OR push_bit s v), length pre + length (encode_varint v))"
  using assms
proof (induction v arbitrary: pre r s rule: encode_varint.induct)
  case (1 v)
  show ?case
  proof (cases "v < 0x80")
    case True
    then have "encode_varint v = [ucast v]" by (subst encode_varint.simps) simp
    then show ?thesis using small_varint [OF True] by (subst decode_varint.simps) (simp add: Let_def del: push_bit_and)
  next
    case False
    let ?b = "ucast v OR 0x80 :: u8" and ?v = "drop_bit 7 v"
    have e: "encode_varint v = ?b # encode_varint ?v" using False by (subst encode_varint.simps) simp
    have "unat v \<ge> 128" using False by (simp add: word_less_nat_alt)
    then have "2 ^ 7 * 2 ^ s \<le> unat v * 2 ^ s" by (intro mult_le_mono1) simp
    then have "2 ^ 7 * 2 ^ s < (2 ^ 64 :: nat)" using 1(2) by (rule le_less_trans)
    then have "(2 :: nat) ^ (7 + s) < 2 ^ 64" by (simp only: power_add)
    then have "7 + s < 64" by (rule power_less_imp_less_exp [rotated]) simp
    moreover have "unat ?v * 2 ^ (s + 7) < 2 ^ 64"
    proof -
      have "unat ?v * 2 ^ (s + 7) = (unat v div 128 * 128) * 2 ^ s" by (simp add: unat_drop_bit7 power_add)
      also have "\<dots> \<le> unat v * 2 ^ s" by (intro mult_le_mono1) (simp add: div_times_less_eq_dividend)
      finally show ?thesis using 1(2) by simp
    qed
    ultimately have "decode_varint ((pre @ [?b]) @ encode_varint ?v @ post) (length (pre @ [?b])) (r OR push_bit s (v AND 0x7f)) (s + 7) =
        Ok (unat ((r OR push_bit s (v AND 0x7f)) OR push_bit (s + 7) ?v), length (pre @ [?b]) + length (encode_varint ?v))"
      using 1(1) [OF False] by blast
    then show ?thesis using \<open>7 + s < 64\<close> low_byte [of v] high_bit [of v]
      by (subst decode_varint.simps) (simp add: e Let_def varint_bits or.assoc del: push_bit_and)
  qed
qed


lemma varint_nonempty [simp]: "encode_varint v \<noteq> []"
  by (subst encode_varint.simps) simp

lemma length_field: "length bs < length (field tag bs)" by (simp add: field_def)

lemma decode_fields_field:
  assumes "tag = 0x0a \<or> tag = 0x12" and "data = pre @ field tag bs @ post" and "length data < 2 ^ 64"
  shows "decode_fields data (length pre) a = decode_fields data (length pre + length (field tag bs))
    (if tag = 0x0a then a\<lparr>flow := of_bytes (from_utf8_lossy bs)\<rparr> else a\<lparr>seed := Some bs\<rparr>)"
proof -
  let ?v = "word_of_nat (length bs) :: u64"
  let ?p = "length pre + 1 + length (encode_varint ?v)"
  have v: "unat ?v = length bs" using assms by (simp add: field_def unat_of_nat)
  have d: "data = (pre @ [tag]) @ encode_varint ?v @ (bs @ post)" using assms(2) by (simp add: field_def)
  have "decode_varint data (length (pre @ [tag])) 0 0 = Ok (unat (0 OR push_bit 0 ?v), length (pre @ [tag]) + length (encode_varint ?v))"
    unfolding d by (rule decode_encode_varint) (use unat_bound [of ?v] in simp)
  then have dv: "decode_varint data (length pre + 1) 0 0 = Ok (length bs, ?p)" using v by simp
  have l: "length data = ?p + length bs + length post" by (simp add: d)
  then have e: "usize_add ?p (length bs) = ?p + length bs" using assms(3) by (simp add: usize_add_def)
  have t: "take (length bs) (drop ?p data) = bs" by (simp add: d)
  have n: "data ! length pre = tag" by (simp add: d)
  show ?thesis using assms(1) e l t n dv
    by (subst decode_fields.simps) (auto simp: Let_def field_def add.assoc)
qed

definition addons_ok :: "Addons \<Rightarrow> bool" where
  "addons_ok a \<longleftrightarrow> valid_utf8 (as_bytes (flow a)) \<and> seed a \<noteq> Some [] \<and> length (Addons_encode a) \<le> 255"

lemma decode_fields_end: "length data \<le> off \<Longrightarrow> decode_fields data off a = Ok a"
  by (subst decode_fields.simps) simp

lemma addons_roundtrip:
  assumes "addons_ok a"
  shows "Addons_decode (Addons_encode a) = Ok a"
proof -
  define F where "F = (if flow a \<noteq> [] then field 0x0a (as_bytes (flow a)) else [])"
  define S where "S = (case seed a of Some s \<Rightarrow> if s \<noteq> [] then field 0x12 s else [] | None \<Rightarrow> [])"
  have e: "Addons_encode a = F @ S" by (simp add: Addons_encode_def F_def S_def)
  have l: "length (F @ S) < 2 ^ 64" using assms e by (simp add: addons_ok_def)
  have "decode_fields (F @ S) 0 Addons_default = decode_fields (F @ S) (length F) (Addons_default\<lparr>flow := flow a\<rparr>)"
    using decode_fields_field [of "0x0a" "F @ S" "[]" "as_bytes (flow a)" S] assms l
    by (auto simp: F_def Addons_default_def addons_ok_def from_utf8_lossy_valid)
  also have "\<dots> = Ok a"
    using decode_fields_field [of "0x12" "F @ S" F "the (seed a)" "[]"] assms l
    by (cases "seed a") (auto simp: S_def Addons_default_def addons_ok_def decode_fields_end)
  finally show ?thesis by (simp add: Addons_decode_def e)
qed


lemma vless_response_roundtrip:
  assumes "addons_ok a"
  shows "DecodeResponseHeader (EncodeResponseHeader a) =
    (if Addons_encode a = [] then Err ''truncated addons length in response'' else Ok a)"
  using addons_roundtrip [OF assms] by (cases "Addons_encode a") (auto simp: DecodeResponseHeader_def EncodeResponseHeader_def VERSION_def)

section \<open>Requests\<close>

text \<open>A request for \<open>dest\<close> with the bytes \<open>u\<close> in the place of the UUID.\<close>

definition request_bytes :: "UUID \<Rightarrow> Addons \<Rightarrow> Destination \<Rightarrow> u8 list" where
  "request_bytes u addons dest =
     VERSION # u @ word_of_nat (length (Addons_encode addons)) # Addons_encode addons @
       (if network dest = Udp then 2 else 1) # to_be16 (port_value (port dest)) @ encode_address (address dest)"

lemma vless_fmt_ok [simp]: "fmt_ok vless_fmt"
  by (simp add: fmt_ok_def vless_fmt_def lossy_text_valid)

lemma encode_address_fits: "addr_fits a \<Longrightarrow> encode_address a = addr_tag vless_fmt a # addr_body a"
  by (cases a) (simp_all add: vless_fmt_def Let_def)

lemma vless_decode_encode_address:
  assumes "addr_fits a"
  shows "\<exists>n. decode_address (encode_address a) = Ok (a, n)"
  using take_addr_body [of vless_fmt a "[addr_tag vless_fmt a]" "[]"] assms
  by (simp add: decode_address_def encode_address_fits)

lemma decode_request_bytes:
  assumes "length u = 16" and "addons_ok addons" and "addr_fits (address dest)"
  shows "DecodeRequestHeader (request_bytes u addons dest) getter = Ok (dest_to_request dest, addons)"
proof -
  define a where "a = address dest"
  define p where "p = port dest"
  define c where "c = (if network dest = Udp then CmdUdp else CmdTcp)"
  define ad where "ad = Addons_encode addons"
  define data where "data = request_bytes u addons dest"
  let ?n = "word_of_nat (length ad) :: u8"
  have n: "unat ?n = length ad" using assms(2) by (simp add: addons_ok_def ad_def unat_of_nat)
  have d: "data = (0 # u) @ ?n # ad @ RequestCommand_as_byte c # to_be16 (port_value p) @ encode_address a"
    by (simp add: data_def request_bytes_def ad_def VERSION_def a_def p_def c_def)
  have d0: "data ! 0 = 0" and d17: "data ! 17 = ?n" and dad: "take (length ad) (drop 18 data) = ad"
    using assms(1) by (simp_all add: d nth_append)
  have d2: "data = (0 # u @ ?n # ad) @ RequestCommand_as_byte c # to_be16 (port_value p) @ encode_address a" by (simp add: d)
  have dc: "data ! (18 + length ad) = RequestCommand_as_byte c" unfolding d2 using assms(1) by (simp add: nth_append)
  have d3: "data = (0 # u @ ?n # ad @ [RequestCommand_as_byte c]) @ to_be16 (port_value p) @ encode_address a" by (simp add: d)
  have dp: "be16_at (19 + length ad) data = port_value p" unfolding d3 by (rule be16_at_append) (use assms(1) in simp)
  have d4: "data = (0 # u @ ?n # ad @ RequestCommand_as_byte c # to_be16 (port_value p)) @ encode_address a" by (simp add: d)
  have da: "drop (21 + length ad) data = encode_address a" unfolding d4 by (rule drop_at) (use assms(1) in simp)
  have l: "21 + length ad \<le> length data" using assms(1) by (simp add: d)
  obtain k where "decode_address (encode_address a) = Ok (a, k)" using vless_decode_encode_address [OF assms(3)] unfolding a_def by blast
  then have dt: "decode_target c data (19 + length ad) = Ok (a, p)"
    using dp da l by (auto simp: decode_target_def c_def)
  have cmd: "decode_command data (18 + length ad) x = Ok (dest_to_request dest, x)" for x
    using dc dt l d0 by (simp add: decode_command_def dest_to_request_def a_def p_def c_def)
  have ao: "Addons_decode ad = Ok addons" and a0: "ad = [] \<Longrightarrow> addons = Addons_default"
  proof -
    show *: "Addons_decode ad = Ok addons" unfolding ad_def by (rule addons_roundtrip [OF assms(2)])
    show "ad = [] \<Longrightarrow> addons = Addons_default" using * by (simp add: Addons_decode_def decode_fields_end)
  qed
  show ?thesis unfolding data_def [symmetric]
    using d0 d17 dad n l cmd [of addons] ao a0 by (cases ad) (auto simp: DecodeRequestHeader_def VERSION_def Let_def)
qed

lemma cread_u16_packet: "length bs \<le> 65535 \<Longrightarrow> 
   cread_u16 m (open_conn (encode_packet bs @ r) e w) = (Ok (word_of_nat (length bs)), open_conn (bs @ r) e w)"
  by (simp add: encode_packet_def Let_def cread_u16_run)

lemma read_encode_packet:
  assumes "length bs \<le> 65535"
  shows "read_packet (encode_packet bs @ r) = Ok (bs, r)"
  using assms be16_at_append [of "[]" 0 "word_of_nat (length bs)" "bs @ r"] unat_u16 [of "length bs"]
  by (simp add: read_packet_def encode_packet_def Let_def)

lemma length_request_bytes:
  assumes "length u = 16" and "addons_ok addons" and "addr_fits (address dest)"
  shows "length (request_bytes u addons dest) \<le> 65535"
  using assms by (cases "address dest") (simp_all add: request_bytes_def addons_ok_def Let_def)

lemma client_request_bytes:
  "request_packet cfg dest = encode_packet (request_bytes (replicate 16 0) (config_addons cfg) dest)"
  by (simp add: request_packet_def EncodeRequestHeader_def request_bytes_def dest_to_request_def Let_def)

lemma vless_target_request: "network dest = Tcp \<or> network dest = Udp \<Longrightarrow> vless_target (dest_to_request dest) = dest"
  by (cases dest) (auto simp: vless_target_def dest_to_request_def)

text \<open>The VLESS inbound accepts everybody: whatever the user table is, and whatever sixteen bytes stand in the
  place of the UUID, a request with any addons and any target a header can carry makes the handler
  answer with the same addons and dispatch a session for exactly that target, reading nothing behind
  the request. (The client writes sixteen zeros.)\<close>
theorem vless_accepts_any_uuid:
  assumes "length u = 16" and "addons_ok addons" and "addr_fits (address dest)" and "network dest = Tcp \<or> network dest = Udp"
  shows "vless_inbound getter session (open_conn (encode_packet (request_bytes u addons dest) @ r) e []) =
    (Ok (with_target dest session, dest), open_conn r e (EncodeResponseHeader addons))"
  using length_request_bytes [OF assms(1-3)] decode_request_bytes [OF assms(1-3), of getter] unat_u16
  by (simp add: vless_inbound_def cbind_def cread_u16_packet cio Let_def vless_target_request [OF assms(4)])

theorem vless_accepts_any_uuid_witness:
  "fst (vless_inbound (\<lambda>_. None :: unit MemoryUser option) \<lparr>inbound = None, outbound = None, content = None\<rparr>
       (open_conn (encode_packet (request_bytes (replicate 16 9) \<lparr>flow = ''none'', seed = Some [7]\<rparr> (TcpDestination (Domain_a ''a.b'') (Port 80)))) [] [])) =
     Ok (with_target (TcpDestination (Domain_a ''a.b'') (Port 80)) \<lparr>inbound = None, outbound = None, content = None\<rparr>,
         TcpDestination (Domain_a ''a.b'') (Port 80))"
proof -
  let ?a = "\<lparr>flow = ''none'', seed = Some [7]\<rparr>"
  have u: "length (replicate 16 9 :: UUID) = 16" by simp
  have "valid_utf8 (as_bytes ''none'')" "valid_utf8 (as_bytes ''a.b'')" by code_simp+
  moreover have "length (Addons_encode ?a) \<le> 255"
    by (simp add: Addons_encode_def field_def encode_varint.simps word_less_nat_alt)
  ultimately show ?thesis
    using vless_accepts_any_uuid [OF u, of ?a "TcpDestination (Domain_a ''a.b'') (Port 80)"
        "\<lambda>_. None :: unit MemoryUser option" "\<lparr>inbound = None, outbound = None, content = None\<rparr>" "[]" "[]"]
    by (simp add: addons_ok_def TcpDestination_def)
qed

lemma varint_hd: "v \<noteq> 0 \<Longrightarrow> hd (encode_varint v) \<noteq> 0"
proof (cases "v < 0x80")
  case True
  then show "v \<noteq> 0 \<Longrightarrow> ?thesis" using small_varint(1) [OF True] by (subst encode_varint.simps) auto
next
  case False
  then show ?thesis using high_bit [of v] by (subst encode_varint.simps) auto
qed

lemma length_varint: "length (encode_varint v) < 2 ^ 64"
proof -
  have "length (encode_varint v) \<le> 1 + unat v div 128"
  proof (induction v rule: encode_varint.induct)
    case (1 v)
    show ?case
    proof (cases "v < 0x80")
      case False
      then have "unat v div 128 \<ge> 1" by (simp add: word_less_nat_alt)
      then show ?thesis using 1 [OF False] False by (subst encode_varint.simps) (simp add: unat_drop_bit7)
    qed (subst encode_varint.simps; simp)
  qed
  then show ?thesis using unat_bound [of v] by simp
qed

lemma field_head:
  assumes "bs \<noteq> []" and "length bs < 2 ^ 64"
  shows "\<exists>x rest. field tag bs = tag # x # rest \<and> x \<noteq> 0"
proof -
  have "word_of_nat (length bs) \<noteq> (0 :: u64)" 
  proof
    assume "word_of_nat (length bs) = (0 :: u64)"
    then have "unat (word_of_nat (length bs) :: u64) = 0" by simp
    then show False using assms by (simp add: unat_of_nat)
  qed
  then show ?thesis using varint_hd [of "word_of_nat (length bs)"]
    by (cases "encode_varint (word_of_nat (length bs))") (auto simp: field_def)
qed

lemma Addons_encode_head:
  assumes "Addons_encode a \<noteq> []" and "length (Addons_encode a) \<le> 255"
  shows "\<exists>tag x rest. Addons_encode a = tag # x # rest \<and> x \<noteq> 0 \<and> (tag = 0x0a \<or> tag = 0x12)"
proof (cases "flow a = []")
  case True
  then obtain s where s: "seed a = Some s" "s \<noteq> []" "Addons_encode a = field 0x12 s"
    using assms(1) by (auto simp: Addons_encode_def split: option.splits if_splits)
  then show ?thesis using field_head [of s "0x12"] length_field [of s "0x12"] assms(2) by fastforce
next
  case False
  then have "Addons_encode a = field 0x0a (as_bytes (flow a)) @ drop (length (field 0x0a (as_bytes (flow a)))) (Addons_encode a)"
    by (simp add: Addons_encode_def)
  moreover have "length (flow a) < 2 ^ 64" using False assms(2) length_field [of "as_bytes (flow a)" "0x0a"] by (simp add: Addons_encode_def)
  ultimately show ?thesis using field_head [of "as_bytes (flow a)" "0x0a"] False
    by (metis (no_types, lifting) append_Cons as_bytes_of_bytes length_as_bytes length_0_conv)
qed

text \<open>C25. Client and server disagree about the response: the server writes its header without a length, the client
  expects one. So whenever the addons are not empty (any flow or seed), no bytes that may follow
  make the client's handshake succeed: it always ends in an error.\<close>
theorem vless_client_rejects_server:
  assumes "Addons_encode addons \<noteq> []" and "length (Addons_encode addons) \<le> 255"
  shows "\<exists>m. fst (outbound_process cfg dest (open_conn (EncodeResponseHeader addons @ payload) e [])) = Err m"
proof -
  obtain tag x rest where en: "Addons_encode addons = tag # x # rest" and x: "x \<noteq> 0" and t: "tag = 0x0a \<or> tag = 0x12"
    using Addons_encode_head [OF assms] by blast
  have "from_be16 [0, tag] = 10 \<or> from_be16 [0, tag] = 18"
    using t by (auto simp: from_be16_def be_value_def)
  then obtain n where n: "unat (from_be16 [0, tag]) = Suc n" by (elim disjE) simp_all
  have r: "cread_u16 m (open_conn (0 # tag # r) e w) = (Ok (from_be16 [0, tag]), open_conn r e w)" for m r w
    by (simp add: cread_u16_def cbind_def cio cread_def open_conn_def)
  have d: "\<exists>m. fst (cbind (cread m' (Suc n)) (\<lambda>buf. clift (DecodeResponseHeader buf)) (open_conn (x # r) e w)) = Err m" for m' r w
    using x by (simp add: cbind_def cread_def open_conn_def clift_def DecodeResponseHeader_def VERSION_def)
  show ?thesis
    using d by (simp add: outbound_process_def EncodeResponseHeader_def VERSION_def en cio r n)
qed

theorem vless_client_rejects_server_witness:
  "\<forall>payload. \<exists>m. fst (outbound_process \<lparr>oc_flow = ''none'', oc_seed = None\<rparr> (TcpDestination (Domain_a ''a.b'') (Port 80))
     (open_conn (EncodeResponseHeader \<lparr>flow = ''none'', seed = None\<rparr> @ payload) [] [])) = Err m"
proof
  fix payload
  have "length (Addons_encode \<lparr>flow = ''none'', seed = None\<rparr>) = 6"
    by (simp add: Addons_encode_def field_def encode_varint.simps word_less_nat_alt)
  then have "Addons_encode \<lparr>flow = ''none'', seed = None\<rparr> \<noteq> []" "length (Addons_encode \<lparr>flow = ''none'', seed = None\<rparr>) \<le> 255"
    by (auto simp del: length_0_conv simp: length_0_conv [symmetric])
  from vless_client_rejects_server [OF this] show
    "\<exists>m. fst (outbound_process \<lparr>oc_flow = ''none'', oc_seed = None\<rparr> (TcpDestination (Domain_a ''a.b'') (Port 80))
     (open_conn (EncodeResponseHeader \<lparr>flow = ''none'', seed = None\<rparr> @ payload) [] [])) = Err m" .
qed

section \<open>Hostile addons\<close>

text \<open>A client without credentials can crash the task of its connection: a flow or seed field whose length, added to
  the offset behind it, leaves the range of a 64-bit integer passes the bounds check, and the slice
  panics. Any such field does, whatever bytes follow.\<close>
theorem vless_addons_panic:
  assumes "tag = 0x0a \<or> tag = 0x12" and "2 ^ 64 \<le> 1 + length (encode_varint v) + unat v"
  shows "Addons_decode (tag # encode_varint v @ rest) = Panic"
proof -
  let ?data = "tag # encode_varint v @ rest" and ?p = "1 + length (encode_varint v)"
  have "decode_varint ([tag] @ encode_varint v @ rest) (length [tag]) 0 0 = Ok (unat (0 OR push_bit 0 v), length [tag] + length (encode_varint v))"
    by (rule decode_encode_varint) (use unat_bound [of v] in simp)
  then have dv: "decode_varint ?data 1 0 0 = Ok (unat v, ?p)" by simp
  have "usize_add ?p (unat v) = ?p + unat v - 2 ^ 64"
  proof -
    have "?p \<le> 2 ^ 64" using length_varint [of v] by simp
    then have "?p + unat v - 2 ^ 64 < 2 ^ 64" using unat_bound [of v] by simp
    then show ?thesis using assms(2) by (simp add: usize_add_def mod_if le_mod_geq)
  qed
  moreover have "?p + unat v - 2 ^ 64 < ?p" using unat_bound [of v] assms(2) by simp
  ultimately have e: "usize_add ?p (unat v) < ?p" "usize_add ?p (unat v) \<le> length ?data" by simp_all
  show ?thesis using assms(1) e dv
    by (simp add: Addons_decode_def, subst decode_fields.simps) (auto simp: Let_def)
qed

theorem vless_addons_panic_witness:
  "Addons_decode (0x0a # encode_varint 0xFFFFFFFFFFFFFFFF @ [1, 2, 3]) = Panic"
  by (rule vless_addons_panic) simp_all

section \<open>The user table\<close>

lemma find_snoc: "find P (xs @ [x]) = (case find P xs of Some y \<Rightarrow> Some y | None \<Rightarrow> if P x then Some x else None)"
  by (induction xs) auto

datatype 'o table_op = AddUser "'o dyn_account MemoryUser" | DelUser string

fun table_step :: "'o table_op \<Rightarrow> 'o MemoryValidator \<Rightarrow> 'o MemoryValidator" where
  "table_step (AddUser u) v = snd (validator_add u v)"
| "table_step (DelUser em) v = snd (validator_del em v)"

definition added :: "'o table_op list \<Rightarrow> 'o dyn_account MemoryUser list" where
  "added ops = List.map_filter (\<lambda>x. case x of AddUser u \<Rightarrow> Some u | DelUser _ \<Rightarrow> None) ops"

text \<open>Looking up a user, whatever calls came before: the answer is the first user ever added with the same bytes of the
  UUID apart from the two that are masked out. Later users with those bytes are refused, and
  deleting a user does not take away the access: every deletion leaves every answer as it was.\<close>
theorem vless_lookup_is_first_added:
  "validator_get (fold table_step ops MemoryValidator_new) i = find (\<lambda>u. user_key u = ProcessUUID i) (added ops)"
proof (induction ops rule: rev_induct)
  case Nil
  show ?case by (simp add: validator_get_def MemoryValidator_new_def added_def List.map_filter_def)
next
  case (snoc x ops)
  let ?v = "fold table_step ops MemoryValidator_new"
  show ?case
  proof (cases x)
    case (AddUser u)
    have "added (ops @ [x]) = added ops @ [u]" by (simp add: added_def AddUser List.map_filter_def)
    moreover have "map_of (users_by_uuid ?v) (ProcessUUID i) = find (\<lambda>u. user_key u = ProcessUUID i) (added ops)"
      using snoc by (simp add: validator_get_def)
    ultimately show ?thesis
      by (auto simp: AddUser validator_add_def validator_get_def update_conv find_snoc split: option.splits)
  next
    case (DelUser em)
    then show ?thesis using snoc by (simp add: added_def validator_get_def validator_del_def List.map_filter_def)
  qed
qed

end
