(* ===== verification/Vmess.thy ===== *)
theory Vmess
  imports Proto Proxy_Io Crypto
begin

text \<open>
  \<^verbatim>\<open>astra-core-proxy-vmess\<close>: authentication identifiers with their CRC, key derivation, the sealed request
  header, response headers, response commands, the replay history, and both handlers up to the relay.
  HMAC, SHA-256, the AES block cipher, AES-GCM and MD5 are parameters; what the theorems need of them is
  \<open>vcrypto_ok\<close>. Random bytes are an argument, \<open>vm_rand\<close>.
\<close>

section \<open>Library calls\<close>

record vm_crypto =
  hmac_sha256 :: "u8 list \<Rightarrow> u8 list \<Rightarrow> u8 list"
  Sha256_hash :: "u8 list \<Rightarrow> u8 list"
  aes_encrypt :: "u8 list \<Rightarrow> u8 list \<Rightarrow> u8 list"
  aes_decrypt :: "u8 list \<Rightarrow> u8 list \<Rightarrow> u8 list"
  gcm_encrypt :: "u8 list \<Rightarrow> u8 list \<Rightarrow> u8 list \<Rightarrow> u8 list \<Rightarrow> u8 list option"
  gcm_decrypt :: "u8 list \<Rightarrow> u8 list \<Rightarrow> u8 list \<Rightarrow> u8 list \<Rightarrow> u8 list option"

definition gcm_res :: "u8 list option \<Rightarrow> (string, u8 list) res" where
  "gcm_res r = ok_or ''aead::Error'' r"

text \<open>The cipher under a key: \<^verbatim>\<open>AesGcmCipher::new\<close> of the crypto component.\<close>

definition gcm :: "vm_crypto \<Rightarrow> u8 list \<Rightarrow> aead" where
  "gcm cr key = AesGcmCipher (\<lambda>n ad p. gcm_res (gcm_encrypt cr key n ad p)) (\<lambda>n ad c. gcm_res (gcm_decrypt cr key n ad c))"

text \<open>Sealing falls back to the plaintext when the cipher fails.\<close>

definition aes_gcm_seal :: "vm_crypto \<Rightarrow> u8 list \<Rightarrow> u8 list \<Rightarrow> u8 list \<Rightarrow> u8 list \<Rightarrow> u8 list" where
  "aes_gcm_seal cr key iv p aad = (case ad_seal (gcm cr key) iv aad p of Ok c \<Rightarrow> c | _ \<Rightarrow> p)"

definition aes_gcm_open :: "vm_crypto \<Rightarrow> u8 list \<Rightarrow> u8 list \<Rightarrow> u8 list \<Rightarrow> u8 list \<Rightarrow> (string, u8 list) res" where
  "aes_gcm_open cr key iv c aad = ad_open (gcm cr key) iv aad c"

section \<open>Key derivation (aead/kdf.rs, aead/consts.rs)\<close>

definition KDF_SALT_AUTH_ID_ENCRYPTION_KEY :: "u8 list" where
  "KDF_SALT_AUTH_ID_ENCRYPTION_KEY = as_bytes ''AES Auth ID Encryption''"
definition KDF_SALT_AEAD_RESP_HEADER_LEN_KEY :: "u8 list" where
  "KDF_SALT_AEAD_RESP_HEADER_LEN_KEY = as_bytes ''AEAD Resp Header Len Key''"
definition KDF_SALT_AEAD_RESP_HEADER_LEN_IV :: "u8 list" where
  "KDF_SALT_AEAD_RESP_HEADER_LEN_IV = as_bytes ''AEAD Resp Header Len IV''"
definition KDF_SALT_AEAD_RESP_HEADER_PAYLOAD_KEY :: "u8 list" where
  "KDF_SALT_AEAD_RESP_HEADER_PAYLOAD_KEY = as_bytes ''AEAD Resp Header Key''"
definition KDF_SALT_AEAD_RESP_HEADER_PAYLOAD_IV :: "u8 list" where
  "KDF_SALT_AEAD_RESP_HEADER_PAYLOAD_IV = as_bytes ''AEAD Resp Header IV''"
definition KDF_SALT_VMESS_AEAD_KDF :: "u8 list" where
  "KDF_SALT_VMESS_AEAD_KDF = as_bytes ''VMess AEAD KDF''"
definition KDF_SALT_VMESS_HEADER_PAYLOAD_AEAD_KEY :: "u8 list" where
  "KDF_SALT_VMESS_HEADER_PAYLOAD_AEAD_KEY = as_bytes ''VMess Header AEAD Key''"
definition KDF_SALT_VMESS_HEADER_PAYLOAD_AEAD_IV :: "u8 list" where
  "KDF_SALT_VMESS_HEADER_PAYLOAD_AEAD_IV = as_bytes ''VMess Header AEAD Nonce''"
definition KDF_SALT_VMESS_HEADER_PAYLOAD_LENGTH_AEAD_KEY :: "u8 list" where
  "KDF_SALT_VMESS_HEADER_PAYLOAD_LENGTH_AEAD_KEY = as_bytes ''VMess Header AEAD Key_Length''"
definition KDF_SALT_VMESS_HEADER_PAYLOAD_LENGTH_AEAD_IV :: "u8 list" where
  "KDF_SALT_VMESS_HEADER_PAYLOAD_LENGTH_AEAD_IV = as_bytes ''VMess Header AEAD Nonce_Length''"

definition KDF :: "vm_crypto \<Rightarrow> u8 list \<Rightarrow> u8 list list \<Rightarrow> u8 list" where
  "KDF cr key path = hmac_sha256 cr (foldl (hmac_sha256 cr) (hmac_sha256 cr key KDF_SALT_VMESS_AEAD_KDF) path) key"

definition KDF16 :: "vm_crypto \<Rightarrow> u8 list \<Rightarrow> u8 list list \<Rightarrow> u8 list" where
  "KDF16 cr key path = take 16 (KDF cr key path)"

section \<open>Authentication identifiers (aead/authid.rs)\<close>

definition crc_bit :: "u32 \<Rightarrow> u32" where
  "crc_bit crc = (if crc AND 1 \<noteq> 0 then drop_bit 1 crc XOR 0xedb88320 else drop_bit 1 crc)"

definition CRC32_TABLE :: "u32 list" where
  "CRC32_TABLE = map (\<lambda>i. (crc_bit ^^ 8) (word_of_nat i)) [0..<256]"

definition crc_byte :: "u32 \<Rightarrow> u8 \<Rightarrow> u32" where
  "crc_byte crc b = CRC32_TABLE ! unat ((crc XOR ucast b) AND 0xFF) XOR drop_bit 8 crc"

definition crc32_ieee :: "u8 list \<Rightarrow> u32" where
  "crc32_ieee data = NOT (foldl crc_byte (NOT 0) data)"

definition to_be64 :: "u64 \<Rightarrow> u8 list" where "to_be64 w = be_bytes 8 (unat w)"
definition from_be64 :: "u8 list \<Rightarrow> u64" where "from_be64 bs = word_of_nat (be_value bs)"

definition CreateAuthID :: "vm_crypto \<Rightarrow> u8 list \<Rightarrow> u64 \<Rightarrow> u8 list \<Rightarrow> u8 list" where
  "CreateAuthID cr ck time rand_bytes =
     (let buf = to_be64 time @ rand_bytes; buf = buf @ to_be32 (crc32_ieee buf)
      in aes_encrypt cr (KDF16 cr ck [KDF_SALT_AUTH_ID_ENCRYPTION_KEY]) buf)"

text \<open>The time is an \<^verbatim>\<open>i64\<close>, kept as its bits.\<close>

definition DecodeAuthID :: "vm_crypto \<Rightarrow> u8 list \<Rightarrow> u8 list \<Rightarrow> (string, u64 \<times> u32 \<times> u32 \<times> u8 list) res" where
  "DecodeAuthID cr ck auth_id =
     (let plaintext = aes_decrypt cr (KDF16 cr ck [KDF_SALT_AUTH_ID_ENCRYPTION_KEY]) auth_id;
          time = from_be64 (take 8 plaintext);
          rand_val = from_be32 (take 4 (drop 8 plaintext));
          crc = from_be32 (take 4 (drop 12 plaintext))
      in if crc \<noteq> crc32_ieee (take 12 plaintext) then Err ''AuthID CRC mismatch''
         else Ok (time, rand_val, crc, plaintext))"

section \<open>The sealed header (aead/encrypt.rs)\<close>

definition SealVMessAEADHeader :: "vm_crypto \<Rightarrow> u64 \<Rightarrow> u8 list \<Rightarrow> u8 list \<Rightarrow> u8 list \<Rightarrow> u8 list \<Rightarrow> u8 list" where
  "SealVMessAEADHeader cr timestamp auth_rand conn_nonce key data =
     (let auth_id = CreateAuthID cr key timestamp auth_rand;
          len_key = KDF16 cr key [KDF_SALT_VMESS_HEADER_PAYLOAD_LENGTH_AEAD_KEY, auth_id, conn_nonce];
          len_iv = KDF cr key [KDF_SALT_VMESS_HEADER_PAYLOAD_LENGTH_AEAD_IV, auth_id, conn_nonce];
          len_cipher = aes_gcm_seal cr len_key (take 12 len_iv) (to_be16 (word_of_nat (length data))) auth_id;
          payload_key = KDF16 cr key [KDF_SALT_VMESS_HEADER_PAYLOAD_AEAD_KEY, auth_id, conn_nonce];
          payload_iv = KDF cr key [KDF_SALT_VMESS_HEADER_PAYLOAD_AEAD_IV, auth_id, conn_nonce];
          payload_cipher = aes_gcm_seal cr payload_key (take 12 payload_iv) data auth_id
      in auth_id @ len_cipher @ conn_nonce @ payload_cipher)"

definition OpenVMessAEADHeader :: "vm_crypto \<Rightarrow> u8 list \<Rightarrow> u8 list \<Rightarrow> u8 list \<Rightarrow> (string, u8 list \<times> bool \<times> nat) res" where
  "OpenVMessAEADHeader cr key auth_id data =
     (if length data < 18 then Err ''truncated length header''
      else if length data < 26 then Err ''truncated connection nonce''
      else
        let conn_nonce = take 8 (drop 18 data);
            len_key = KDF16 cr key [KDF_SALT_VMESS_HEADER_PAYLOAD_LENGTH_AEAD_KEY, auth_id, conn_nonce];
            len_iv = KDF cr key [KDF_SALT_VMESS_HEADER_PAYLOAD_LENGTH_AEAD_IV, auth_id, conn_nonce]
        in rbind (aes_gcm_open cr len_key (take 12 len_iv) (take 18 data) auth_id) (\<lambda>len_plain.
          if length len_plain < 2 then Panic
          else
            let payload_len = unat (be16_at 0 len_plain) in
            if length data < 26 + payload_len + 16 then Err ''truncated payload''
            else
              let payload_key = KDF16 cr key [KDF_SALT_VMESS_HEADER_PAYLOAD_AEAD_KEY, auth_id, conn_nonce];
                  payload_iv = KDF cr key [KDF_SALT_VMESS_HEADER_PAYLOAD_AEAD_IV, auth_id, conn_nonce]
              in rbind (aes_gcm_open cr payload_key (take 12 payload_iv) (take (payload_len + 16) (drop 26 data)) auth_id)
                   (\<lambda>payload. Ok (payload, False, 26 + payload_len + 16))))"

section \<open>Checksums and commands (encoding/auth.rs, encoding/commands.rs)\<close>

definition fnv_step :: "u32 \<Rightarrow> u8 \<Rightarrow> u32" where
  "fnv_step h b = (h XOR ucast b) * 0x01000193"

definition Authenticate :: "u8 list \<Rightarrow> u32" where
  "Authenticate b = foldl fnv_step 0x811c9dc5 b"

definition GenerateChacha20Poly1305Key :: "(u8 list \<Rightarrow> u8 list) \<Rightarrow> u8 list \<Rightarrow> u8 list" where
  "GenerateChacha20Poly1305Key md5 b = md5 b"

definition vmess_size_decode :: "u8 list \<Rightarrow> (string, u16) res" where
  "vmess_size_decode b = (if length b < 2 then Err ''insufficient length for size'' else Ok (be16_at 0 b))"

definition vmess_size_encode :: "u16 \<Rightarrow> u8 list" where
  "vmess_size_encode w = to_be16 w"

definition COMMAND_AUTH_LEN :: nat where "COMMAND_AUTH_LEN = 4"

datatype CommandError = TooLarge | TypeMismatch | InvalidAuth | InsufficientLength | UnknownCommand u16

definition compute_auth :: "u16 \<Rightarrow> u8 list \<Rightarrow> u32" where
  "compute_auth cmd_id cmd_data =
     foldl fnv_step (fnv_step (fnv_step 0x811c9dc5 (ucast (cmd_id AND 0xff))) (ucast (drop_bit 8 cmd_id AND 0xff))) cmd_data"

definition marshal_command :: "u16 \<Rightarrow> u8 list \<Rightarrow> (CommandError, u8 list) res" where
  "marshal_command cmd_id cmd_data =
     (if COMMAND_AUTH_LEN + 1 + 1 + length cmd_data > 65535 then Err TooLarge
      else Ok (to_be32 (compute_auth cmd_id cmd_data) @ ucast (cmd_id AND 0xff) # word_of_nat (length cmd_data) # cmd_data))"

definition unmarshal_command :: "u8 list \<Rightarrow> (CommandError, u16 \<times> u8 list) res" where
  "unmarshal_command data =
     (if length data < COMMAND_AUTH_LEN + 2 then Err InsufficientLength
      else
        let auth = from_be32 (take 4 data); cmd_id = ucast (data ! 4); cmd_len = unat (data ! 5) in
        if length data < COMMAND_AUTH_LEN + 2 + cmd_len then Err InsufficientLength
        else
          let cmd_data = take cmd_len (drop 6 data) in
          if auth \<noteq> compute_auth cmd_id cmd_data then Err InvalidAuth else Ok (cmd_id, cmd_data))"

section \<open>The client's session (encoding/client.rs)\<close>

record ClientSession =
  c_request_body_key :: "u8 list"
  c_request_body_iv :: "u8 list"
  c_response_body_key :: "u8 list"
  c_response_body_iv :: "u8 list"
  c_response_header :: u8

definition ClientSession_new :: "vm_crypto \<Rightarrow> u8 list \<Rightarrow> u8 list \<Rightarrow> u8 \<Rightarrow> ClientSession" where
  "ClientSession_new cr req_key req_iv resp_hdr =
     \<lparr>c_request_body_key = req_key, c_request_body_iv = req_iv,
      c_response_body_key = take 16 (Sha256_hash cr req_key), c_response_body_iv = take 16 (Sha256_hash cr req_iv),
      c_response_header = resp_hdr\<rparr>"

text \<open>The random bytes of one request header.\<close>

record vm_rand =
  rnd_pad_len :: u8
  rnd_padding :: "u8 list"
  rnd_auth :: "u8 list"
  rnd_nonce :: "u8 list"

definition vmess_encode_address :: "Address \<Rightarrow> u8 list" where
  "vmess_encode_address a =
     (case a of
        Ipv4 os \<Rightarrow> 1 # os
      | Domain_a d \<Rightarrow> 2 # word_of_nat (length d) # as_bytes d
      | Ipv6 os \<Rightarrow> 3 # os)"

definition request_plain :: "vm_rand \<Rightarrow> ClientSession \<Rightarrow> 'acc RequestHeader \<Rightarrow> u8 list" where
  "request_plain r cs h =
     (let pad_len = rnd_pad_len r AND 0x0f;
          buf = rq_version h # c_request_body_iv cs @ c_request_body_key cs @
            [c_response_header cs, rq_option h, push_bit 4 pad_len OR SecurityType_as_byte (rq_security h), 0,
             RequestCommand_as_byte (rq_command h)] @
            (if rq_command h = CmdTcp \<or> rq_command h = CmdUdp
             then to_be16 (port_value (rq_port h)) @ vmess_encode_address (rq_address h) else []) @
            take (unat pad_len) (rnd_padding r)
      in buf @ to_be32 (Authenticate buf))"

definition vmess_EncodeRequestHeader ::
  "vm_crypto \<Rightarrow> u64 \<Rightarrow> vm_rand \<Rightarrow> ClientSession \<Rightarrow> 'acc RequestHeader \<Rightarrow> u8 list \<Rightarrow> u8 list" where
  "vmess_EncodeRequestHeader cr now r cs h ck =
     SealVMessAEADHeader cr now (rnd_auth r) (rnd_nonce r) ck (request_plain r cs h)"

definition resp_len_key :: "vm_crypto \<Rightarrow> u8 list \<Rightarrow> u8 list" where
  "resp_len_key cr rk = KDF16 cr rk [KDF_SALT_AEAD_RESP_HEADER_LEN_KEY]"
definition resp_len_iv :: "vm_crypto \<Rightarrow> u8 list \<Rightarrow> u8 list" where
  "resp_len_iv cr riv = take 12 (KDF cr riv [KDF_SALT_AEAD_RESP_HEADER_LEN_IV])"
definition resp_payload_key :: "vm_crypto \<Rightarrow> u8 list \<Rightarrow> u8 list" where
  "resp_payload_key cr rk = KDF16 cr rk [KDF_SALT_AEAD_RESP_HEADER_PAYLOAD_KEY]"
definition resp_payload_iv :: "vm_crypto \<Rightarrow> u8 list \<Rightarrow> u8 list" where
  "resp_payload_iv cr riv = take 12 (KDF cr riv [KDF_SALT_AEAD_RESP_HEADER_PAYLOAD_IV])"

definition vmess_DecodeResponseHeader :: "vm_crypto \<Rightarrow> ClientSession \<Rightarrow> u8 list \<Rightarrow> (string, u8 list \<times> u8 list option) res" where
  "vmess_DecodeResponseHeader cr cs data =
     (let rk = take 16 (Sha256_hash cr (c_request_body_key cs)); riv = take 16 (Sha256_hash cr (c_request_body_iv cs)) in
      if length data < 18 then Err ''truncated response header''
      else rbind (aes_gcm_open cr (resp_len_key cr rk) (resp_len_iv cr riv) (take 18 data) []) (\<lambda>len_plain.
        if length len_plain < 2 then Panic
        else
          let payload_len = unat (be16_at 0 len_plain) in
          if length data < 18 + payload_len + 16 then Err ''truncated response payload''
          else rbind (aes_gcm_open cr (resp_payload_key cr rk) (resp_payload_iv cr riv) (take (payload_len + 16) (drop 18 data)) [])
            (\<lambda>payload. Ok (payload, None))))"

text \<open>Bodies: the writer keeps the bytes as they are, and the reader restarts its cipher for every read.\<close>

definition EncryptionWriter_write :: "u8 list \<Rightarrow> u8 list \<Rightarrow> u8 list" where
  "EncryptionWriter_write data buf = buf @ data"

record EncryptionReader =
  er_key :: "u8 list"
  er_iv :: "u8 list"
  er_buffer :: "u8 list"
  er_offset :: nat

definition new_aes_cfb :: "u8 list \<Rightarrow> u8 list \<Rightarrow> EncryptionReader" where
  "new_aes_cfb key iv = \<lparr>er_key = key, er_iv = iv, er_buffer = [], er_offset = 0\<rparr>"

definition DecodeResponseBody :: "vm_crypto \<Rightarrow> ClientSession \<Rightarrow> EncryptionReader" where
  "DecodeResponseBody cr cs =
     new_aes_cfb (take 16 (Sha256_hash cr (c_request_body_key cs))) (take 16 (Sha256_hash cr (c_request_body_iv cs)))"

definition er_feed :: "u8 list \<Rightarrow> EncryptionReader \<Rightarrow> EncryptionReader" where
  "er_feed data r = r\<lparr>er_buffer := er_buffer r @ data\<rparr>"

definition read_decrypted :: "vm_crypto \<Rightarrow> nat \<Rightarrow> EncryptionReader \<Rightarrow> u8 list \<times> EncryptionReader" where
  "read_decrypted cr room r =
     (let avail = length (er_buffer r) - er_offset r; to_read = min room avail in
      if to_read = 0 then ([], r)
      else
        (fst (xor_key_stream (take to_read (drop (er_offset r) (er_buffer r))) (cfb_new_decrypt (aes_encrypt cr (er_key r)) (er_iv r))),
         r\<lparr>er_offset := er_offset r + to_read\<rparr>))"

section \<open>The server's session (encoding/server.rs)\<close>

record SessionID =
  sid_user :: "u8 list"
  sid_key :: "u8 list"
  sid_nonce :: "u8 list"

type_synonym SessionHistory = "(SessionID \<times> u64) list"

definition add_if_not_exists :: "u64 \<Rightarrow> SessionID \<Rightarrow> SessionHistory \<Rightarrow> bool \<times> SessionHistory" where
  "add_if_not_exists now s cache =
     (let cache = filter (\<lambda>(_, expiry). expiry > now) cache in
      if map_of cache s \<noteq> None then (False, cache) else (True, AList.update s (now + 180) cache))"

record ServerSession =
  request_body_key :: "u8 list"
  request_body_iv :: "u8 list"
  response_body_key :: "u8 list"
  response_body_iv :: "u8 list"
  response_header :: u8
  session_history :: SessionHistory

definition ServerSession_new :: "SessionHistory \<Rightarrow> ServerSession" where
  "ServerSession_new h =
     \<lparr>request_body_key = replicate 16 0, request_body_iv = replicate 16 0, response_body_key = replicate 16 0,
      response_body_iv = replicate 16 0, response_header = 0, session_history = h\<rparr>"

definition vmess_fmt :: addr_fmt where
  "vmess_fmt =
     \<lparr>tag_v4 = 1, tag_v6 = 3, tag_domain = 2, short_v4 = ''truncated IPv4'', short_v6 = ''truncated IPv6'',
      short_dlen = ''truncated domain len'', short_domain = ''truncated domain'', bad_text = [],
      unknown_tag = (\<lambda>t. ''unknown address type: '' @ show_nat (unat t)), text_of = lossy_text\<rparr>"

definition vmess_decode_address :: "u8 list \<Rightarrow> (string, Address \<times> nat) res" where
  "vmess_decode_address data = (if data = [] then Err ''truncated address'' else take_addr vmess_fmt (hd data) data 1)"

text \<open>The target behind the command byte, and the offset after it.\<close>

definition parse_target :: "RequestCommand \<Rightarrow> u8 list \<Rightarrow> (string, Address \<times> Port \<times> nat) res" where
  "parse_target cmd pt =
     (if cmd = CmdTcp \<or> cmd = CmdUdp then
        if length pt < 40 then Err ''truncated port''
        else rbind (vmess_decode_address (drop 40 pt)) (\<lambda>(addr, consumed). Ok (addr, Port (be16_at 38 pt), 40 + consumed))
      else Ok (Ipv4 [0, 0, 0, 0], Port 0, 38))"

definition parse_plain :: "u8 list \<Rightarrow> (string, 'acc RequestHeader) res" where
  "parse_plain pt =
     (case RequestCommand_from_byte (pt ! 37) of
        None \<Rightarrow> Err (''unknown VMess command: '' @ show_nat (unat (pt ! 37)))
      | Some cmd \<Rightarrow>
          rbind (parse_target cmd pt) (\<lambda>(addr, p, off).
            let off = off + unat (drop_bit 4 (pt ! 35)) in
            if length pt < off + 4 then Err ''truncated checksum''
            else if from_be32 (take 4 (drop off pt)) \<noteq> Authenticate (take off pt) then Err ''FNV checksum mismatch''
            else Ok \<lparr>rq_version = pt ! 0, rq_command = cmd, rq_option = pt ! 34,
                     rq_security = SecurityType_from_byte (pt ! 35 AND 0x0f), rq_port = p, rq_address = addr, rq_user = None\<rparr>))"

definition take_keys :: "vm_crypto \<Rightarrow> u8 list \<Rightarrow> ServerSession \<Rightarrow> ServerSession" where
  "take_keys cr pt s =
     (let iv = take 16 (drop 1 pt); key = take 16 (drop 17 pt) in
      s\<lparr>request_body_iv := iv, request_body_key := key, response_header := pt ! 33,
        response_body_key := take 16 (Sha256_hash cr key), response_body_iv := take 16 (Sha256_hash cr iv)\<rparr>)"

definition vmess_DecodeRequestHeader ::
  "vm_crypto \<Rightarrow> u64 \<Rightarrow> u8 list \<Rightarrow> u8 list \<Rightarrow> u8 list \<Rightarrow> ServerSession \<Rightarrow> (string, 'acc RequestHeader) res \<times> ServerSession" where
  "vmess_DecodeRequestHeader cr now auth_id data ck s =
     (case OpenVMessAEADHeader cr ck auth_id data of
        Err e \<Rightarrow> (Err e, s)
      | Panic \<Rightarrow> (Panic, s)
      | Ok (pt, _, _) \<Rightarrow>
          if length pt < 38 then (Err ''request header too short'', s)
          else
            let s = take_keys cr pt s in
            (case parse_plain pt of
               Err e \<Rightarrow> (Err e, s)
             | Panic \<Rightarrow> (Panic, s)
             | Ok h \<Rightarrow>
                 let (fresh, hist) = add_if_not_exists now
                       \<lparr>sid_user = ck, sid_key = request_body_key s, sid_nonce = request_body_iv s\<rparr> (session_history s);
                     s = s\<lparr>session_history := hist\<rparr>
                 in (if fresh then Ok h else Err ''replay attack detected'', s)))"

definition vmess_EncodeResponseHeader :: "vm_crypto \<Rightarrow> u8 \<Rightarrow> u8 list option \<Rightarrow> ServerSession \<Rightarrow> u8 list" where
  "vmess_EncodeResponseHeader cr option_byte cmd_data s =
     (let plaintext = response_header s # option_byte # (case cmd_data of Some cmd \<Rightarrow> cmd | None \<Rightarrow> [0, 0]);
          rk = response_body_key s; riv = response_body_iv s
      in aes_gcm_seal cr (resp_len_key cr rk) (resp_len_iv cr riv) (to_be16 (word_of_nat (length plaintext))) [] @
         aes_gcm_seal cr (resp_payload_key cr rk) (resp_payload_iv cr riv) plaintext [])"

section \<open>Accounts (account.rs)\<close>

record VmessMemoryAccount =
  vma_id :: ID
  vma_security :: SecurityType
  authenticated_length_experiment :: bool
  no_termination_signal :: bool

datatype 'o vmess_dyn_account = VmessAccount VmessMemoryAccount | NotVmess 'o

fun vmess_account_equals :: "VmessMemoryAccount \<Rightarrow> 'o vmess_dyn_account \<Rightarrow> bool" where
  "vmess_account_equals a (VmessAccount b) = (uuid (vma_id a) = uuid (vma_id b) \<and> vma_security a = vma_security b)"
| "vmess_account_equals a (NotVmess _) = False"

definition parse_tests_enabled :: "string \<Rightarrow> bool \<times> bool" where
  "parse_tests_enabled s = (contains_str ''AuthenticatedLength'' s, contains_str ''NoTerminationSignal'' s)"

definition from_proto_account ::
  "(u8 list \<Rightarrow> u8 list) \<Rightarrow> string \<Rightarrow> SecurityType \<Rightarrow> string \<Rightarrow> (string, VmessMemoryAccount) res" where
  "from_proto_account md5 id_str security tests_enabled =
     rbind (parse_uuid id_str) (\<lambda>u.
       let (auth_len, no_term) = parse_tests_enabled tests_enabled in
       Ok \<lparr>vma_id = ID_new md5 u, vma_security = security, authenticated_length_experiment = auth_len,
           no_termination_signal = no_term\<rparr>)"

section \<open>The inbound handler (inbound/inbound.rs)\<close>

definition user_cmd_key :: "'o vmess_dyn_account MemoryUser \<Rightarrow> u8 list option" where
  "user_cmd_key u = (case account u of Some (VmessAccount a) \<Rightarrow> Some (cmd_key (vma_id a)) | _ \<Rightarrow> None)"

fun vmess_find_user :: "vm_crypto \<Rightarrow> u8 list \<Rightarrow> 'o vmess_dyn_account MemoryUser list \<Rightarrow> u8 list option" where
  "vmess_find_user cr aid [] = None"
| "vmess_find_user cr aid (u # us) =
     (case user_cmd_key u of
        Some k \<Rightarrow> (case DecodeAuthID cr k aid of Ok _ \<Rightarrow> Some k | _ \<Rightarrow> vmess_find_user cr aid us)
      | None \<Rightarrow> vmess_find_user cr aid us)"

text \<open>
  The connection: what each \<^verbatim>\<open>read\<close> finds waiting, in order, and how the input ends (with an error or
  the end of the stream). \<open>read_exact\<close> takes from several of them; one \<open>read\<close> takes at most 4096 bytes of one.
\<close>

record vm_conn =
  waiting :: "u8 list list"
  in_fail :: "string option"

fun take_exact :: "nat \<Rightarrow> u8 list list \<Rightarrow> (u8 list \<times> u8 list list) option" where
  "take_exact n [] = (if n = 0 then Some ([], []) else None)"
| "take_exact n (c # cs) =
     (if n = 0 then Some ([], c # cs)
      else if c = [] then None
      else if length c \<le> n then map_option (\<lambda>(bs, r). (c @ bs, r)) (take_exact (n - length c) cs)
      else Some (take n c, drop n c # cs))"

definition vm_input_end :: "string option \<Rightarrow> string" where
  "vm_input_end e = (case e of Some m \<Rightarrow> m | None \<Rightarrow> ''early eof'')"

text \<open>The loop that collects the header until it opens.\<close>

function header_loop :: "vm_crypto \<Rightarrow> u8 list \<Rightarrow> u8 list \<Rightarrow> string option \<Rightarrow> u8 list \<Rightarrow> u8 list list \<Rightarrow> (string, u8 list \<times> u8 list list) res" where
  "header_loop cr ck aid fail buf [] =
     (case fail of Some e \<Rightarrow> Err (''read header data: '' @ e) | None \<Rightarrow> Ok (buf, []))"
| "header_loop cr ck aid fail buf (c # cs) =
     (if c = [] then Ok (buf, cs)
      else
        let buf = buf @ take 4096 c; cs = (if length c \<le> 4096 then cs else drop 4096 c # cs) in
        (case OpenVMessAEADHeader cr ck aid buf of
           Ok _ \<Rightarrow> Ok (buf, cs)
         | Panic \<Rightarrow> Panic
         | Err _ \<Rightarrow> if length buf > 65536 then Err ''header too large'' else header_loop cr ck aid fail buf cs))"
  by pat_completeness auto
termination
  by (relation "measure (\<lambda>(_, _, _, _, _, cs). length cs + length (concat cs))") auto

definition vmess_target :: "'acc RequestHeader \<Rightarrow> Destination" where
  "vmess_target rq =
     \<lparr>address = rq_address rq, port = rq_port rq, network = (if rq_command rq = CmdUdp then Udp else Tcp)\<rparr>"

text \<open>
  \<open>process\<close> up to the relay: the session and target dispatched, the response header written (\<open>wr\<close>: how
  the write ends), and the input that is left, which the relay copies to the remote side as it is.
\<close>

definition vmess_accept ::
  "vm_crypto \<Rightarrow> u64 \<Rightarrow> (string, unit) res \<Rightarrow> u8 list \<Rightarrow> u8 list \<Rightarrow> Session \<Rightarrow> u8 list \<times> u8 list list \<Rightarrow>
   (string, Session \<times> Destination \<times> u8 list \<times> u8 list list) res" where
  "vmess_accept cr now wr aid ck session got =
     (case vmess_DecodeRequestHeader cr now aid (fst got) ck (ServerSession_new []) of
        (Ok request, server) \<Rightarrow>
          let response = vmess_EncodeResponseHeader cr 0 None server;
              target = vmess_target (request :: unit RequestHeader)
          in rbind (map_err (\<lambda>e. ''write response: '' @ e) wr) (\<lambda>_. Ok (with_target target session, target, response, snd got))
      | (Err e, _) \<Rightarrow> Err (''decode request: '' @ e)
      | (Panic, _) \<Rightarrow> Panic)"

definition vmess_inbound ::
  "vm_crypto \<Rightarrow> u64 \<Rightarrow> (string, unit) res \<Rightarrow> 'o vmess_dyn_account MemoryUser list \<Rightarrow> Session \<Rightarrow> vm_conn \<Rightarrow>
   (string, Session \<times> Destination \<times> u8 list \<times> u8 list list) res" where
  "vmess_inbound cr now wr users session conn =
     (case take_exact 16 (waiting conn) of
        None \<Rightarrow> Err (''read auth id: '' @ vm_input_end (in_fail conn))
      | Some (aid, cs) \<Rightarrow>
          (case vmess_find_user cr aid users of
             None \<Rightarrow> Err ''no matching user for auth id''
           | Some ck \<Rightarrow> rbind (header_loop cr ck aid (in_fail conn) [] cs) (vmess_accept cr now wr aid ck session)))"

section \<open>The outbound handler (outbound/outbound.rs)\<close>

definition vmess_request :: "'acc MemoryUser \<Rightarrow> Destination \<Rightarrow> 'acc RequestHeader" where
  "vmess_request u target =
     \<lparr>rq_version = 1, rq_command = (if network target = Udp then CmdUdp else CmdTcp), rq_option = 0x01 OR 0x04,
      rq_security = Aes128Gcm, rq_port = port target, rq_address = address target, rq_user = Some u\<rparr>"

definition build_request :: "vm_crypto \<Rightarrow> u64 \<Rightarrow> vm_rand \<Rightarrow> ClientSession \<Rightarrow> 'acc MemoryUser \<Rightarrow> u8 list \<Rightarrow> Destination \<Rightarrow> u8 list" where
  "build_request cr now r client u ck target = vmess_EncodeRequestHeader cr now r client (vmess_request u target) ck"

definition outbound_cmd_key :: "'o vmess_dyn_account MemoryUser \<Rightarrow> u8 list" where
  "outbound_cmd_key u = (case user_cmd_key u of Some k \<Rightarrow> k | None \<Rightarrow> replicate 16 0)"

text \<open>
  \<open>process\<close> up to the relay: \<open>client\<close> is the session it decodes with, \<open>inner\<close> the one \<open>build_request\<close>
  makes for itself; \<open>dial\<close> and \<open>wr\<close> are how dialling and writing end, and \<open>resp\<close> is what the single read of the response returns. The result is the request written.
\<close>

definition vmess_outbound ::
  "vm_crypto \<Rightarrow> u64 \<Rightarrow> vm_rand \<Rightarrow> ClientSession \<Rightarrow> ClientSession \<Rightarrow> 'o vmess_dyn_account MemoryUser \<Rightarrow> Session \<Rightarrow>
   (string, unit) res \<Rightarrow> (string, unit) res \<Rightarrow> (u8 list \<Rightarrow> (string, u8 list) res) \<Rightarrow> (string, u8 list) res" where
  "vmess_outbound cr now r client inner u session dial wr resp =
     (case outbound session of
        None \<Rightarrow> Err ''no target destination''
      | Some ob \<Rightarrow>
          let request_bytes = build_request cr now r inner u (outbound_cmd_key u) (ob_target ob) in
          rbind dial (\<lambda>_.
          rbind (map_err (\<lambda>e. ''write vmess header: '' @ e) wr) (\<lambda>_.
          rbind (map_err (\<lambda>e. ''read vmess response: '' @ e) (resp request_bytes)) (\<lambda>data.
          rbind (vmess_DecodeResponseHeader cr client (take 1024 data)) (\<lambda>_. Ok request_bytes)))))"

section \<open>The CRC\<close>

text \<open>The reference works bit by bit.\<close>

definition crc_poly_step :: "u32 \<Rightarrow> u32" where
  "crc_poly_step x = drop_bit 1 x XOR (if bit x 0 then 0xEDB88320 else 0)"

definition crc32_ref :: "u8 list \<Rightarrow> u32" where
  "crc32_ref data = NOT (foldl (\<lambda>crc b. (crc_poly_step ^^ 8) (crc XOR ucast b)) (NOT 0) data)"

lemma crc_bit_alt: "crc_bit x = drop_bit 1 x XOR (if bit x 0 then 0xedb88320 else 0)"
  by (simp add: crc_bit_def and_one_eq bit_0 odd_iff_mod_2_eq_one)

lemma crc_bit_xor: "crc_bit (x XOR y) = crc_bit x XOR crc_bit y"
  by (rule bit_word_eqI) (auto simp: crc_bit_alt bit_xor_iff bit_drop_bit_eq)

lemma crc_bits_xor: "(crc_bit ^^ k) (x XOR y) = (crc_bit ^^ k) x XOR (crc_bit ^^ k) y"
  by (induction k) (simp_all add: crc_bit_xor)

lemma crc_bits_shift: "\<forall>i < k. \<not> bit x i \<Longrightarrow> (crc_bit ^^ k) x = drop_bit k x"
proof (induction k arbitrary: x)
  case (Suc k)
  have "crc_bit x = drop_bit 1 x" using Suc.prems by (auto simp: crc_bit_alt)
  moreover have "(crc_bit ^^ k) (drop_bit 1 x) = drop_bit k (drop_bit 1 x)"
    using Suc.prems by (intro Suc.IH) (auto simp: bit_drop_bit_eq)
  ultimately show ?case by (simp add: funpow_swap1)
qed simp

lemma crc_byte_ref: "crc_byte crc b = (crc_bit ^^ 8) (crc XOR ucast b)"
proof -
  define z where "z = crc XOR ucast b"
  have m: "(0xFF :: u32) = mask 8" by (simp add: mask_eq_exp_minus_1)
  have split: "z = (z AND 0xFF) XOR (z AND NOT 0xFF)"
    unfolding m by (rule bit_word_eqI) (auto simp: bit_xor_iff bit_and_iff bit_not_iff bit_mask_iff)
  have hi: "(crc_bit ^^ 8) (z AND NOT 0xFF) = drop_bit 8 (z AND NOT 0xFF)"
    by (rule crc_bits_shift) (simp add: m bit_and_iff bit_not_iff bit_mask_iff)
  have d: "drop_bit 8 (z AND NOT 0xFF) = drop_bit 8 crc"
    unfolding m z_def by (rule bit_word_eqI) (auto simp: bit_drop_bit_eq bit_and_iff bit_xor_iff bit_not_iff bit_mask_iff bit_ucast_iff dest: bit_imp_le_length)
  have l: "unat (z AND 0xFF) < 256" unfolding m take_bit_eq_mask [symmetric] using take_bit_nat_less_exp [of 8 "unat z"] by (simp add: unsigned_take_bit_eq)
  have "CRC32_TABLE ! unat (z AND 0xFF) = (crc_bit ^^ 8) (z AND 0xFF)" using l by (simp add: CRC32_TABLE_def)
  then show ?thesis using split hi d crc_bits_xor [of 8 "z AND 0xFF" "z AND NOT 0xFF"] by (simp add: crc_byte_def z_def [symmetric])
qed

text \<open>C22. The table-driven CRC is the bit-by-bit CRC-32 of IEEE (reflected polynomial, all ones before and after).\<close>
theorem crc32_table_correct: "crc32_ieee data = crc32_ref data"
proof -
  have "crc_poly_step = crc_bit" by (rule ext) (simp add: crc_poly_step_def crc_bit_alt)
  then show ?thesis unfolding crc32_ieee_def crc32_ref_def by (simp add: crc_byte_ref [abs_def])
qed

section \<open>Sealing and opening\<close>

definition vcrypto_ok :: "vm_crypto \<Rightarrow> bool" where
  "vcrypto_ok cr \<longleftrightarrow>
     (\<forall>k d. length (hmac_sha256 cr k d) = 32) \<and> (\<forall>d. length (Sha256_hash cr d) = 32) \<and>
     (\<forall>k b. length b = 16 \<longrightarrow> length (aes_encrypt cr k b) = 16 \<and> aes_decrypt cr k (aes_encrypt cr k b) = b) \<and>
     (\<forall>k n ad p. length k = 16 \<and> length n = 12 \<longrightarrow>
        (\<exists>c. gcm_encrypt cr k n ad p = Some c \<and> length c = length p + 16 \<and> gcm_decrypt cr k n ad c = Some p))"

lemma length_KDF [simp]: "vcrypto_ok cr \<Longrightarrow> length (KDF cr k p) = 32"
  by (simp add: vcrypto_ok_def KDF_def)

lemma length_KDF16 [simp]: "vcrypto_ok cr \<Longrightarrow> length (KDF16 cr k p) = 16"
  by (simp add: KDF16_def)

lemma seal_open:
  assumes "vcrypto_ok cr" and "length k = 16" and "length iv = 12"
  shows "length (aes_gcm_seal cr k iv p ad) = length p + 16 \<and> aes_gcm_open cr k iv (aes_gcm_seal cr k iv p ad) ad = Ok p"
proof -
  obtain c where "gcm_encrypt cr k iv ad p = Some c" "length c = length p + 16" "gcm_decrypt cr k iv ad c = Some p"
    using assms unfolding vcrypto_ok_def by blast
  then show ?thesis using assms(3) by (simp add: aes_gcm_seal_def aes_gcm_open_def gcm_def AesGcmCipher_def gcm_res_def)
qed

lemma length_seal [simp]:
  "vcrypto_ok cr \<Longrightarrow> length k = 16 \<Longrightarrow> length iv = 12 \<Longrightarrow> length (aes_gcm_seal cr k iv p ad) = length p + 16"
  by (simp add: seal_open)

lemma from_to_be64 [simp]: "from_be64 (to_be64 w) = w"
  using unat_bound [of w] by (simp add: from_be64_def to_be64_def be_value_be_bytes)

lemma length_to_be64 [simp]: "length (to_be64 w) = 8" by (simp add: to_be64_def)

lemma length_CreateAuthID [simp]: "vcrypto_ok cr \<Longrightarrow> length rnd = 4 \<Longrightarrow> length (CreateAuthID cr k t rnd) = 16"
  by (simp add: vcrypto_ok_def CreateAuthID_def Let_def)

lemma DecodeAuthID_Create:
  assumes "vcrypto_ok cr" and "length rnd = 4"
  shows "\<exists>pt. DecodeAuthID cr k (CreateAuthID cr k t rnd) = Ok (t, from_be32 rnd, crc32_ieee (to_be64 t @ rnd), pt)"
proof -
  let ?b = "to_be64 t @ rnd @ to_be32 (crc32_ieee (to_be64 t @ rnd))"
  have "aes_decrypt cr (KDF16 cr k [KDF_SALT_AUTH_ID_ENCRYPTION_KEY]) (CreateAuthID cr k t rnd) = ?b"
    using assms by (simp add: CreateAuthID_def vcrypto_ok_def Let_def)
  then show ?thesis using assms(2) by (simp add: DecodeAuthID_def Let_def)
qed

text \<open>What follows the identifier in a sealed header.\<close>

definition sealed_rest :: "vm_crypto \<Rightarrow> u8 list \<Rightarrow> u8 list \<Rightarrow> u8 list \<Rightarrow> u8 list \<Rightarrow> u8 list" where
  "sealed_rest cr key aid nonce data =
     aes_gcm_seal cr (KDF16 cr key [KDF_SALT_VMESS_HEADER_PAYLOAD_LENGTH_AEAD_KEY, aid, nonce])
       (take 12 (KDF cr key [KDF_SALT_VMESS_HEADER_PAYLOAD_LENGTH_AEAD_IV, aid, nonce])) (to_be16 (word_of_nat (length data))) aid @
     nonce @
     aes_gcm_seal cr (KDF16 cr key [KDF_SALT_VMESS_HEADER_PAYLOAD_AEAD_KEY, aid, nonce])
       (take 12 (KDF cr key [KDF_SALT_VMESS_HEADER_PAYLOAD_AEAD_IV, aid, nonce])) data aid"

lemma Seal_alt: "SealVMessAEADHeader cr t rnd nonce key data = CreateAuthID cr key t rnd @ sealed_rest cr key (CreateAuthID cr key t rnd) nonce data"
  by (simp add: SealVMessAEADHeader_def sealed_rest_def Let_def)

lemma length_sealed_rest: "vcrypto_ok cr \<Longrightarrow> length nonce = 8 \<Longrightarrow> length (sealed_rest cr key aid nonce data) = 42 + length data"
  by (simp add: sealed_rest_def)

text \<open>A header opens exactly when all of it is there; every proper prefix is an error.\<close>

lemma Open_prefix:
  assumes "vcrypto_ok cr" and "length nonce = 8" and "length data \<le> 65535" and "buf = take n (sealed_rest cr key aid nonce data @ x)"
  shows "if 42 + length data \<le> length buf then OpenVMessAEADHeader cr key aid buf = Ok (data, False, 42 + length data)
    else \<exists>e. OpenVMessAEADHeader cr key aid buf = Err e"
proof -
  define lk where "lk = KDF16 cr key [KDF_SALT_VMESS_HEADER_PAYLOAD_LENGTH_AEAD_KEY, aid, nonce]"
  define li where "li = take 12 (KDF cr key [KDF_SALT_VMESS_HEADER_PAYLOAD_LENGTH_AEAD_IV, aid, nonce])"
  define pk where "pk = KDF16 cr key [KDF_SALT_VMESS_HEADER_PAYLOAD_AEAD_KEY, aid, nonce]"
  define pi' where "pi' = take 12 (KDF cr key [KDF_SALT_VMESS_HEADER_PAYLOAD_AEAD_IV, aid, nonce])"
  define a where "a = aes_gcm_seal cr lk li (to_be16 (word_of_nat (length data))) aid"
  define b where "b = aes_gcm_seal cr pk pi' data aid"
  have l: "length lk = 16" "length li = 12" "length pk = 16" "length pi' = 12" using assms(1) by (simp_all add: lk_def li_def pk_def pi'_def)
  have a: "length a = 18" "aes_gcm_open cr lk li a aid = Ok (to_be16 (word_of_nat (length data)))"
    and b: "length b = length data + 16" "aes_gcm_open cr pk pi' b aid = Ok data"
    using seal_open [OF assms(1) l(1,2)] seal_open [OF assms(1) l(3,4)] by (simp_all add: a_def b_def)
  have s: "sealed_rest cr key aid nonce data = a @ nonce @ b" by (simp add: sealed_rest_def a_def b_def lk_def li_def pk_def pi'_def)
  have n: "unat (be16_at 0 (to_be16 (word_of_nat (length data)))) = length data"
    using assms(3) be16_at_append [of "[]" 0 "word_of_nat (length data)" "[]"] by (simp add: unat_u16)
  show ?thesis
  proof (cases "length buf < 26")
    case True
    then show ?thesis by (auto simp: OpenVMessAEADHeader_def)
  next
    case False
    then have n26: "26 \<le> n" using assms(4) by simp
    then have t: "take 18 buf = a" "take 8 (drop 18 buf) = nonce" "drop 26 buf = take (n - 26) (b @ x)"
      using assms(2,4) a(1) by (simp_all add: s min_def)
    have "take (length data + 16) (drop 26 buf) = b" if "42 + length data \<le> length buf"
    proof -
      have "length data + 16 \<le> n - 26" using that assms(4) by simp
      then show ?thesis using b(1) by (simp add: t(3) min_def)
    qed
    then show ?thesis
      using False a(2) b(2) n by (simp add: OpenVMessAEADHeader_def t Let_def lk_def [symmetric] li_def [symmetric] pk_def [symmetric] pi'_def [symmetric])
  qed
qed

section \<open>Request headers\<close>

lemma nibbles:
  fixes s w :: u8
  assumes "s AND 0x0f = s"
  shows "(push_bit 4 (w AND 0x0f) OR s) AND 0x0f = s" and "drop_bit 4 (push_bit 4 (w AND 0x0f) OR s) = w AND 0x0f"
proof -
  have m: "(0x0f :: u8) = mask 4" by (simp add: mask_eq_exp_minus_1)
  have s: "bit s n \<Longrightarrow> n < 4" for n using assms unfolding m by (metis bit_and_iff bit_mask_iff)
  show "(push_bit 4 (w AND 0x0f) OR s) AND 0x0f = s" unfolding m
    by (rule bit_word_eqI) (use s in \<open>auto simp: bit_or_iff bit_and_iff bit_push_bit_iff bit_mask_iff\<close>)
  show "drop_bit 4 (push_bit 4 (w AND 0x0f) OR s) = w AND 0x0f" unfolding m
    by (rule bit_word_eqI) (use s in \<open>force simp: bit_or_iff bit_and_iff bit_push_bit_iff bit_drop_bit_eq bit_mask_iff\<close>)
qed

lemma security_nibble: "SecurityType_as_byte t AND 0x0f = SecurityType_as_byte t"
  by (cases t) (simp_all add: SecurityType_as_byte_def)

lemma low_nibble: "unat (w AND 0x0f :: u8) \<le> 15"
proof -
  have m: "(0x0f :: u8) = mask 4" by (simp add: mask_eq_exp_minus_1)
  show ?thesis unfolding m take_bit_eq_mask [symmetric] using take_bit_nat_less_exp [of 4 "unat w"] by (simp add: unsigned_take_bit_eq)
qed

lemma vmess_fmt_ok: "fmt_ok vmess_fmt"
  by (simp add: fmt_ok_def vmess_fmt_def lossy_text_valid)

lemma vmess_address: "vmess_encode_address a = addr_tag vmess_fmt a # addr_body a"
  by (cases a) (simp_all add: vmess_encode_address_def vmess_fmt_def)

lemma vmess_decode_encode_address:
  assumes "addr_fits a"
  shows "vmess_decode_address (vmess_encode_address a @ post) = Ok (a, length (vmess_encode_address a))"
  using take_addr_body [OF vmess_fmt_ok assms, of "[addr_tag vmess_fmt a]" post] by (simp add: vmess_decode_address_def vmess_address)

text \<open>What the server makes of a header: without the user, and without a target for the other commands.\<close>

definition decoded :: "'acc RequestHeader \<Rightarrow> 'b RequestHeader" where
  "decoded h =
     (let tgt = (rq_command h = CmdTcp \<or> rq_command h = CmdUdp) in
      \<lparr>rq_version = rq_version h, rq_command = rq_command h, rq_option = rq_option h, rq_security = rq_security h,
       rq_port = (if tgt then rq_port h else Port 0), rq_address = (if tgt then rq_address h else Ipv4 [0, 0, 0, 0]), rq_user = None\<rparr>)"

definition client_ok :: "ClientSession \<Rightarrow> vm_rand \<Rightarrow> bool" where
  "client_ok cs r \<longleftrightarrow> length (c_request_body_key cs) = 16 \<and> length (c_request_body_iv cs) = 16 \<and>
     length (rnd_padding r) = 15 \<and> length (rnd_auth r) = 4 \<and> length (rnd_nonce r) = 8"

definition plain_head :: "vm_rand \<Rightarrow> ClientSession \<Rightarrow> 'acc RequestHeader \<Rightarrow> u8 list" where
  "plain_head r cs h = rq_version h # c_request_body_iv cs @ c_request_body_key cs @
     [c_response_header cs, rq_option h, push_bit 4 (rnd_pad_len r AND 0x0f) OR SecurityType_as_byte (rq_security h), 0,
      RequestCommand_as_byte (rq_command h)]"

definition plain_target :: "'acc RequestHeader \<Rightarrow> u8 list" where
  "plain_target h = (if rq_command h = CmdTcp \<or> rq_command h = CmdUdp
     then to_be16 (port_value (rq_port h)) @ vmess_encode_address (rq_address h) else [])"

lemma request_plain_alt:
  "request_plain r cs h =
    (let buf = plain_head r cs h @ plain_target h @ take (unat (rnd_pad_len r AND 0x0f)) (rnd_padding r) in buf @ to_be32 (Authenticate buf))"
  by (simp add: request_plain_def plain_head_def plain_target_def Let_def)

lemma plain_head_fields:
  assumes "client_ok cs r"
  shows "length (plain_head r cs h) = 38" and "plain_head r cs h ! 0 = rq_version h"
    and "take 16 (drop 1 (plain_head r cs h)) = c_request_body_iv cs" and "take 16 (drop 17 (plain_head r cs h)) = c_request_body_key cs"
    and "plain_head r cs h ! 33 = c_response_header cs" and "plain_head r cs h ! 34 = rq_option h"
    and "plain_head r cs h ! 35 = push_bit 4 (rnd_pad_len r AND 0x0f) OR SecurityType_as_byte (rq_security h)"
    and "plain_head r cs h ! 37 = RequestCommand_as_byte (rq_command h)"
  using assms by (simp_all add: client_ok_def plain_head_def nth_append)

lemma parse_target_plain:
  fixes h :: "'acc RequestHeader"
  assumes "length head = 38" and "rq_command h = CmdTcp \<or> rq_command h = CmdUdp \<Longrightarrow> addr_fits (rq_address h)"
  shows "parse_target (rq_command h) (head @ plain_target h @ post) = Ok (rq_address (decoded h :: 'b RequestHeader), rq_port (decoded h :: 'b RequestHeader), 38 + length (plain_target h))"
proof (cases "rq_command h = CmdTcp \<or> rq_command h = CmdUdp")
  case True
  let ?p = "to_be16 (port_value (rq_port h))"
  have "drop 40 (head @ ?p @ vmess_encode_address (rq_address h) @ post) = vmess_encode_address (rq_address h) @ post" using assms(1) by simp
  moreover have "be16_at 38 (head @ ?p @ vmess_encode_address (rq_address h) @ post) = port_value (rq_port h)" using assms(1) by (rule be16_at_append)
  ultimately show ?thesis using True assms(1) vmess_decode_encode_address [OF assms(2)]
    by (cases "rq_port h") (simp add: parse_target_def plain_target_def decoded_def)
qed (simp add: parse_target_def plain_target_def decoded_def)

lemma parse_request_plain:
  fixes h :: "'acc RequestHeader"
  assumes "client_ok cs r" and "rq_command h = CmdTcp \<or> rq_command h = CmdUdp \<Longrightarrow> addr_fits (rq_address h)"
  shows "parse_plain (request_plain r cs h) = Ok (decoded h :: 'b RequestHeader)"
proof -
  define w where "w = rnd_pad_len r AND 0x0f"
  define sb where "sb = push_bit 4 w OR SecurityType_as_byte (rq_security h)"
  define pad where "pad = take (unat w) (rnd_padding r)"
  define buf where "buf = plain_head r cs h @ plain_target h @ pad"
  note hd = plain_head_fields [OF assms(1), of h]
  have s: "sb AND 0x0f = SecurityType_as_byte (rq_security h)" "drop_bit 4 sb = w" unfolding sb_def w_def by (rule nibbles [OF security_nibble])+
  have lp: "length pad = unat w" using assms(1) low_nibble [of "rnd_pad_len r"] by (simp add: pad_def client_ok_def w_def)
  have p: "request_plain r cs h = buf @ to_be32 (Authenticate buf)" by (simp add: request_plain_alt buf_def pad_def w_def Let_def)
  have nth: "(buf @ xs) ! i = plain_head r cs h ! i" if "i < 38" for i xs using that hd(1) by (simp add: buf_def nth_append)
  have t: "parse_target (rq_command h) (buf @ to_be32 (Authenticate buf)) = Ok (rq_address (decoded h :: 'b RequestHeader), rq_port (decoded h :: 'b RequestHeader), 38 + length (plain_target h))"
    using parse_target_plain [OF hd(1) assms(2), of "pad @ to_be32 (Authenticate buf)"] by (simp add: buf_def)
  have lb: "38 + length (plain_target h) + unat w = length buf" by (simp add: buf_def hd(1) lp)
  have h35: "plain_head r cs h ! 35 = sb" unfolding sb_def w_def by (rule hd(7))
  show ?thesis
    unfolding p parse_plain_def
    by (simp add: nth hd(2,6,8) h35 t lb s Let_def) (simp add: decoded_def Let_def)
qed

lemma length_request_plain:
  assumes "client_ok cs r" and "rq_command h = CmdTcp \<or> rq_command h = CmdUdp \<Longrightarrow> addr_fits (rq_address h)"
  shows "38 \<le> length (request_plain r cs h)" and "length (request_plain r cs h) \<le> 400"
proof -
  have "length (plain_target h) \<le> 300" using assms(2)
    by (cases "rq_address h") (auto simp: plain_target_def vmess_encode_address_def)
  then show "38 \<le> length (request_plain r cs h)" "length (request_plain r cs h) \<le> 400"
    using plain_head_fields(1) [OF assms(1), of h] low_nibble [of "rnd_pad_len r"] by (simp_all add: request_plain_alt Let_def)
qed

text \<open>The server's session after a request of the client's session.\<close>

definition accepted :: "vm_crypto \<Rightarrow> ClientSession \<Rightarrow> SessionHistory \<Rightarrow> ServerSession" where
  "accepted cr cs hist =
     \<lparr>request_body_key = c_request_body_key cs, request_body_iv = c_request_body_iv cs,
      response_body_key = take 16 (Sha256_hash cr (c_request_body_key cs)), response_body_iv = take 16 (Sha256_hash cr (c_request_body_iv cs)),
      response_header = c_response_header cs, session_history = hist\<rparr>"

lemma take_keys_plain:
  assumes "client_ok cs r"
  shows "take_keys cr (request_plain r cs h) s = accepted cr cs (session_history s)"
proof -
  note hd = plain_head_fields [OF assms, of h]
  obtain xs where p: "request_plain r cs h = plain_head r cs h @ xs" by (simp add: request_plain_alt Let_def)
  have "take 16 (drop 1 (plain_head r cs h @ xs)) = take 16 (drop 1 (plain_head r cs h))"
    "take 16 (drop 17 (plain_head r cs h @ xs)) = take 16 (drop 17 (plain_head r cs h))" using hd(1) by simp_all
  then show ?thesis using hd(1,3,4,5) by (simp add: take_keys_def p accepted_def Let_def nth_append)
qed

lemma decode_opened:
  fixes h :: "'acc RequestHeader"
  assumes "client_ok cs r" and "rq_command h = CmdTcp \<or> rq_command h = CmdUdp \<Longrightarrow> addr_fits (rq_address h)"
    and "OpenVMessAEADHeader cr ck aid data = Ok (request_plain r cs h, d, n)"
  shows "vmess_DecodeRequestHeader cr now aid data ck (ServerSession_new []) =
    (Ok (decoded h :: 'b RequestHeader), accepted cr cs [(\<lparr>sid_user = ck, sid_key = c_request_body_key cs, sid_nonce = c_request_body_iv cs\<rparr>, now + 180)])"
  using length_request_plain(1) [of cs r h, OF assms(1,2)]
  by (simp add: vmess_DecodeRequestHeader_def assms(3) take_keys_plain [OF assms(1)] parse_request_plain [OF assms(1,2)] add_if_not_exists_def
      accepted_def ServerSession_new_def)

lemma response_roundtrip:
  assumes "vcrypto_ok cr"
  shows "vmess_DecodeResponseHeader cr cs (vmess_EncodeResponseHeader cr b None (accepted cr cs hist)) = Ok ([c_response_header cs, b, 0, 0], None)"
proof -
  define rk where "rk = take 16 (Sha256_hash cr (c_request_body_key cs))"
  define riv where "riv = take 16 (Sha256_hash cr (c_request_body_iv cs))"
  let ?pt = "[c_response_header cs, b, 0, 0]"
  define x where "x = aes_gcm_seal cr (resp_len_key cr rk) (resp_len_iv cr riv) (to_be16 4) []"
  define y where "y = aes_gcm_seal cr (resp_payload_key cr rk) (resp_payload_iv cr riv) ?pt []"
  have l: "length (resp_len_key cr rk) = 16" "length (resp_len_iv cr riv) = 12" "length (resp_payload_key cr rk) = 16" "length (resp_payload_iv cr riv) = 12"
    using assms by (simp_all add: resp_len_key_def resp_len_iv_def resp_payload_key_def resp_payload_iv_def)
  have x: "length x = 18" "aes_gcm_open cr (resp_len_key cr rk) (resp_len_iv cr riv) x [] = Ok (to_be16 4)"
    and y: "length y = 20" "aes_gcm_open cr (resp_payload_key cr rk) (resp_payload_iv cr riv) y [] = Ok ?pt"
    using seal_open [OF assms l(1,2)] seal_open [OF assms l(3,4)] by (simp_all add: x_def y_def)
  have e: "vmess_EncodeResponseHeader cr b None (accepted cr cs hist) = x @ y"
    by (simp add: vmess_EncodeResponseHeader_def accepted_def rk_def riv_def x_def y_def Let_def)
  have four: "unat (be16_at 0 (to_be16 4)) = 4" using be16_at_append [of "[]" 0 4 "[]"] by simp
  show ?thesis using x y four
    by (simp add: e vmess_DecodeResponseHeader_def Let_def rk_def [symmetric] riv_def [symmetric])
qed

section \<open>The handlers\<close>

lemma header_loop_pieces:
  assumes "vcrypto_ok cr" and "length nonce = 8" and "length data \<le> 400"
    and "\<forall>p \<in> set (ps @ [q]). p \<noteq> [] \<and> length p \<le> 4096"
    and "buf @ concat ps @ q = sealed_rest cr ck aid nonce data @ body"
    and "length (buf @ concat ps) < 42 + length data"
  shows "header_loop cr ck aid fail buf (ps @ q # cs) = Ok (sealed_rest cr ck aid nonce data @ body, cs)"
  using assms(4-)
proof (induction ps arbitrary: buf)
  case Nil
  let ?ct = "sealed_rest cr ck aid nonce data"
  have t: "buf @ q = take (length (buf @ q)) (?ct @ body)" using Nil.prems(2) by simp
  have "42 + length data \<le> length (buf @ q)" using Nil.prems(2) length_sealed_rest [OF assms(1,2), of ck aid data] by (metis append_Nil concat.simps(1) le_add1 length_append)
  then have "OpenVMessAEADHeader cr ck aid (buf @ q) = Ok (data, False, 42 + length data)"
    using Open_prefix [OF assms(1,2) _ t] assms(3) by simp
  then show ?case using Nil.prems by (simp add: Let_def)
next
  case (Cons p ps)
  let ?ct = "sealed_rest cr ck aid nonce data"
  have t: "buf @ p = take (length (buf @ p)) (?ct @ body)" using Cons.prems(2) by (metis append.assoc append_eq_conv_conj concat.simps(2))
  have l: "length (buf @ p) < 42 + length data" using Cons.prems(3) by simp
  then obtain e where "OpenVMessAEADHeader cr ck aid (buf @ p) = Err e"
    using Open_prefix [OF assms(1,2) _ t] assms(3) by (auto split: if_splits)
  moreover have "header_loop cr ck aid fail (buf @ p) (ps @ q # cs) = Ok (?ct @ body, cs)"
    using Cons.prems by (intro Cons.IH) simp_all
  moreover have "p \<noteq> []" "length p \<le> 4096" using Cons.prems(1) by simp_all
  ultimately show ?case using l assms(3) by (simp add: Let_def)
qed

lemma find_user_first:
  assumes "user_cmd_key u = Some ck" and "DecodeAuthID cr ck aid = Ok x" and "vmess_find_user cr aid pre = None"
  shows "vmess_find_user cr aid (pre @ u # post) = Some ck"
  using assms(3) by (induction pre) (simp_all add: assms(1,2) split: option.splits res.splits)

text \<open>C4. A client's request is accepted, however the network cuts it: the server finds the user, opens the header, dispatches a session for
  exactly the client's target, and answers with a response header that opens under the request's session. What it relays
  afterwards is what arrived in later reads: bytes of the body that came in the read that completed the
  header are dropped.\<close>
theorem vmess_server_accepts:
  assumes "vcrypto_ok cr" and "client_ok cs r" and "addr_fits (address target)" and "network target \<in> {Tcp, Udp}"
    and "user_cmd_key u = Some ck"
    and "vmess_find_user cr (CreateAuthID cr ck t (rnd_auth r)) pre = None"
    and "take_exact 16 (waiting conn) = Some (take 16 (build_request cr t r cs u ck target), ps @ q # later)"
    and "\<forall>p \<in> set (ps @ [q]). p \<noteq> [] \<and> length p \<le> 4096"
    and "concat ps @ q = drop 16 (build_request cr t r cs u ck target) @ body"
    and "16 + length (concat ps) < length (build_request cr t r cs u ck target)"
  shows "\<exists>resp. vmess_inbound cr now (Ok ()) (pre @ u # post) session conn = Ok (with_target target session, target, resp, later) \<and>
    vmess_DecodeResponseHeader cr cs resp = Ok ([c_response_header cs, 0, 0, 0], None)"
proof -
  define aid where "aid = CreateAuthID cr ck t (rnd_auth r)"
  define h where "h = vmess_request u target"
  define data where "data = request_plain r cs h"
  have r: "length (rnd_auth r) = 4" "length (rnd_nonce r) = 8" using assms(2) by (simp_all add: client_ok_def)
  have b: "build_request cr t r cs u ck target = aid @ sealed_rest cr ck aid (rnd_nonce r) data"
    by (simp add: build_request_def vmess_EncodeRequestHeader_def Seal_alt aid_def data_def h_def)
  have la: "length aid = 16" using assms(1) r by (simp add: aid_def)
  have fits: "addr_fits (rq_address h)" using assms(3) by (simp add: h_def vmess_request_def)
  have ld: "length data \<le> 400" unfolding data_def by (rule length_request_plain(2) [OF assms(2) fits])
  have f: "vmess_find_user cr aid (pre @ u # post) = Some ck"
    using find_user_first [OF assms(5) _ assms(6)] DecodeAuthID_Create [OF assms(1) r(1), of ck t] unfolding aid_def by blast
  let ?buf = "sealed_rest cr ck aid (rnd_nonce r) data @ body"
  have lp: "header_loop cr ck aid (in_fail conn) [] (ps @ q # later) = Ok (?buf, later)"
    using assms(8-10) b la length_sealed_rest [OF assms(1) r(2)] by (intro header_loop_pieces [OF assms(1) r(2) ld]) simp_all
  have o': "OpenVMessAEADHeader cr ck aid ?buf = Ok (data, False, 42 + length data)"
    using Open_prefix [OF assms(1) r(2), of data ?buf "length ?buf" ck aid body] ld length_sealed_rest [OF assms(1) r(2)] by simp
  obtain hist where d: "vmess_DecodeRequestHeader cr now aid ?buf ck (ServerSession_new []) = (Ok (decoded h :: unit RequestHeader), accepted cr cs hist)"
    using decode_opened [OF assms(2) fits o' [unfolded data_def]] unfolding data_def by blast
  have tg: "vmess_target (decoded h :: unit RequestHeader) = target"
    using assms(4) by (cases target) (auto simp: vmess_target_def decoded_def h_def vmess_request_def)
  show ?thesis
    using assms(7) f lp d tg response_roundtrip [OF assms(1)] b la
    by (simp add: vmess_inbound_def vmess_accept_def Let_def)
qed

text \<open>A concrete instance of the library: keys are carried in the clear, so that a wrong key is noticed.\<close>

definition toy_crypto :: vm_crypto where
  "toy_crypto = \<lparr>hmac_sha256 = (\<lambda>k d. take 32 (k @ replicate 32 0)), Sha256_hash = (\<lambda>d. take 32 (d @ replicate 32 0)),
     aes_encrypt = (\<lambda>k b. b), aes_decrypt = (\<lambda>k b. b), gcm_encrypt = (\<lambda>k n ad p. Some (p @ k)),
     gcm_decrypt = (\<lambda>k n ad c. if drop (length c - 16) c = k then Some (take (length c - 16) c) else None)\<rparr>"

lemma toy_crypto_ok: "vcrypto_ok toy_crypto"
  by (auto simp: vcrypto_ok_def toy_crypto_def min_def)

lemma length_build_request:
  assumes "vcrypto_ok cr" and "client_ok cs r" and "addr_fits (address target)"
  shows "58 < length (build_request cr t r cs u ck target)" and "length (build_request cr t r cs u ck target) \<le> 458"
proof -
  have f: "addr_fits (rq_address (vmess_request u target))" using assms(3) by (simp add: vmess_request_def)
  have n: "length (rnd_auth r) = 4" "length (rnd_nonce r) = 8" using assms(2) by (simp_all add: client_ok_def)
  have "request_plain r cs (vmess_request u target) \<noteq> []"
    using length_request_plain(1) [OF assms(2) f] by (metis list.size(3) not_numeral_le_zero)
  then show "58 < length (build_request cr t r cs u ck target)" "length (build_request cr t r cs u ck target) \<le> 458"
    using length_request_plain [OF assms(2) f] length_sealed_rest [OF assms(1) n(2)] assms(1) n(1)
    by (simp_all add: build_request_def vmess_EncodeRequestHeader_def Seal_alt)
qed

definition toy_client :: ClientSession where
  "toy_client = ClientSession_new toy_crypto (replicate 16 1) (replicate 16 2) 7"

definition toy_rand :: vm_rand where
  "toy_rand = \<lparr>rnd_pad_len = 3, rnd_padding = replicate 15 9, rnd_auth = [1, 2, 3, 4], rnd_nonce = replicate 8 5\<rparr>"

definition toy_user :: "unit vmess_dyn_account MemoryUser" where
  "toy_user = \<lparr>account = Some (VmessAccount \<lparr>vma_id = \<lparr>uuid = replicate 16 0, cmd_key = replicate 16 6\<rparr>, vma_security = SecAuto,
     authenticated_length_experiment = False, no_termination_signal = False\<rparr>), email = [], level = 0\<rparr>"

lemma toy_ok: "client_ok toy_client toy_rand" "user_cmd_key toy_user = Some (replicate 16 6)"
  by (simp_all add: client_ok_def toy_client_def toy_rand_def ClientSession_new_def user_cmd_key_def toy_user_def)

theorem vmess_server_accepts_witness:
  "\<forall>session. \<exists>enc resp. vmess_inbound toy_crypto 5 (Ok ()) [toy_user] session \<lparr>waiting = [take 16 enc, drop 16 enc @ [8], [7]], in_fail = None\<rparr> =
     Ok (with_target (TcpDestination (Ipv4 [1, 2, 3, 4]) (Port 80)) session, TcpDestination (Ipv4 [1, 2, 3, 4]) (Port 80), resp, [[7]])"
proof
  fix session
  let ?t = "TcpDestination (Ipv4 [1, 2, 3, 4]) (Port 80)"
  define enc where "enc = build_request toy_crypto 0 toy_rand toy_client toy_user (replicate 16 6) ?t"
  have a: "addr_fits (address ?t)" "network ?t \<in> {Tcp, Udp}" by (simp_all add: TcpDestination_def)
  have l: "58 < length enc" "length enc \<le> 458" unfolding enc_def by (rule length_build_request [OF toy_crypto_ok toy_ok(1) a(1)])+
  have e: "take_exact 16 (waiting \<lparr>waiting = [take 16 enc, drop 16 enc @ [8], [7]], in_fail = None\<rparr>) = Some (take 16 enc, [] @ (drop 16 enc @ [8]) # [[7]])"
    using l by auto
  have p: "\<forall>p \<in> set ([] @ [drop 16 enc @ [8]]). p \<noteq> [] \<and> length p \<le> 4096" using l by simp
  have "\<exists>resp. vmess_inbound toy_crypto 5 (Ok ()) ([] @ toy_user # []) session \<lparr>waiting = [take 16 enc, drop 16 enc @ [8], [7]], in_fail = None\<rparr> =
      Ok (with_target ?t session, ?t, resp, [[7]]) \<and> vmess_DecodeResponseHeader toy_crypto toy_client resp = Ok ([c_response_header toy_client, 0, 0, 0], None)"
    using l by (intro vmess_server_accepts [OF toy_crypto_ok toy_ok(1) a toy_ok(2) _ e [unfolded enc_def] p [unfolded enc_def], folded enc_def]) simp_all
  then show "\<exists>enc resp. vmess_inbound toy_crypto 5 (Ok ()) [toy_user] session \<lparr>waiting = [take 16 enc, drop 16 enc @ [8], [7]], in_fail = None\<rparr> =
     Ok (with_target ?t session, ?t, resp, [[7]])" by auto
qed

section \<open>Replays\<close>

lemma AList_update_new: "k \<notin> fst ` set al \<Longrightarrow> AList.update k v al = al @ [(k, v)]"
  by (induction al) auto

lemma history_window:
  assumes "add_if_not_exists now s h = (True, h')"
  shows "fst (add_if_not_exists later s h') \<longleftrightarrow> now + 180 \<le> later"
proof -
  let ?al = "filter (\<lambda>(_, expiry). expiry > now) h"
  have n: "s \<notin> fst ` set ?al" and h': "h' = AList.update s (now + 180) ?al"
    using assms by (simp_all add: add_if_not_exists_def Let_def map_of_eq_None_iff split: if_splits)
  let ?b = "filter (\<lambda>(_, expiry). expiry > later) h'"
  have "map_of ?b s = None \<longleftrightarrow> s \<notin> fst ` set ?b" by (rule map_of_eq_None_iff)
  also have "\<dots> \<longleftrightarrow> now + 180 \<le> later" using n unfolding h' AList_update_new [OF n] by force
  finally show ?thesis by (cases "map_of ?b s") (simp_all add: add_if_not_exists_def Let_def)
qed

lemma response_ignores_history:
  "vmess_EncodeResponseHeader cr b c (s\<lparr>session_history := h\<rparr>) = vmess_EncodeResponseHeader cr b c s"
  by (simp add: vmess_EncodeResponseHeader_def)

lemma take_keys_history: "session_history (take_keys cr pt s) = session_history s"
  by (simp add: take_keys_def Let_def)

lemma fresh_history: "add_if_not_exists now s [] = (True, [(s, now + 180)])"
  by (simp add: add_if_not_exists_def)

lemma decode_clock:
  assumes "vmess_DecodeRequestHeader cr now aid data ck (ServerSession_new []) = (x, s)"
  shows "\<exists>h. vmess_DecodeRequestHeader cr later aid data ck (ServerSession_new []) = (x, s\<lparr>session_history := h\<rparr>)"
proof -
  have h: "session_history (take_keys cr pt (ServerSession_new [])) = []" for pt by (simp add: take_keys_history ServerSession_new_def)
  have s: "\<exists>h. t = t\<lparr>session_history := h\<rparr>" for t :: ServerSession by (rule exI [of _ "session_history t"]) simp
  have u: "\<exists>h. t\<lparr>session_history := g\<rparr> = t\<lparr>session_history := h\<rparr>" for t :: ServerSession and g by blast
  show ?thesis using assms unfolding vmess_DecodeRequestHeader_def
    by (auto simp: Let_def h fresh_history split: res.splits if_splits intro: s) (rule u)
qed

lemma accept_clock: "vmess_accept cr now wr aid ck session = vmess_accept cr later wr aid ck session"
proof
  fix got :: "u8 list \<times> u8 list list"
  obtain x s where d: "vmess_DecodeRequestHeader cr now aid (fst got) ck (ServerSession_new []) = (x :: (string, unit RequestHeader) res, s)"
    by (metis surj_pair)
  obtain h where "vmess_DecodeRequestHeader cr later aid (fst got) ck (ServerSession_new []) = (x, s\<lparr>session_history := h\<rparr>)"
    using decode_clock [OF d] by blast
  with d show "vmess_accept cr now wr aid ck session got = vmess_accept cr later wr aid ck session got"
    by (simp add: vmess_accept_def response_ignores_history split: res.split)
qed

text \<open>Replays: the history itself refuses a session for exactly 180 seconds after it was seen, but every connection
  starts with an empty one and nobody looks at the time in the identifier, so what the server does
  with a connection does not depend on the clock: recorded bytes are accepted again at any time.\<close>
theorem vmess_replay_accepted:
  "(add_if_not_exists now s h = (True, h') \<longrightarrow> (fst (add_if_not_exists later s h') \<longleftrightarrow> now + 180 \<le> later)) \<and>
   vmess_inbound cr now wr users session conn = vmess_inbound cr later wr users session conn"
proof
  show "add_if_not_exists now s h = (True, h') \<longrightarrow> (fst (add_if_not_exists later s h') \<longleftrightarrow> now + 180 \<le> later)"
    using history_window by blast
  show "vmess_inbound cr now wr users session conn = vmess_inbound cr later wr users session conn"
    by (simp add: vmess_inbound_def accept_clock [of cr now wr _ _ session later] split: option.split)
qed

theorem vmess_replay_accepted_witness:
  "\<not> fst (add_if_not_exists 179 \<lparr>sid_user = [], sid_key = [], sid_nonce = []\<rparr> (snd (add_if_not_exists 0 \<lparr>sid_user = [], sid_key = [], sid_nonce = []\<rparr> []))) \<and>
   fst (add_if_not_exists 180 \<lparr>sid_user = [], sid_key = [], sid_nonce = []\<rparr> (snd (add_if_not_exists 0 \<lparr>sid_user = [], sid_key = [], sid_nonce = []\<rparr> [])))"
proof -
  let ?s = "\<lparr>sid_user = [], sid_key = [], sid_nonce = []\<rparr>"
  have "fst (add_if_not_exists l ?s [(?s, 180)]) \<longleftrightarrow> 180 \<le> l" for l :: u64
    using vmess_replay_accepted [of 0 ?s "[]" "[(?s, 180)]" l, THEN conjunct1] fresh_history [of 0 ?s] by simp
  then show ?thesis by (simp add: fresh_history)
qed

section \<open>The client and the answer\<close>

text \<open>Decryption under another key fails, the promise of authenticated encryption.\<close>

definition gcm_key_bound :: "vm_crypto \<Rightarrow> bool" where
  "gcm_key_bound cr \<longleftrightarrow> (\<forall>k k' n n' ad p c. length k = 16 \<and> length k' = 16 \<and> gcm_encrypt cr k n ad p = Some c \<and> k' \<noteq> k \<longrightarrow> gcm_decrypt cr k' n' ad c = None)"

definition response_key :: "vm_crypto \<Rightarrow> ClientSession \<Rightarrow> u8 list" where
  "response_key cr cs = resp_len_key cr (take 16 (Sha256_hash cr (c_request_body_key cs)))"

lemma vcrypto_gcm: "vcrypto_ok cr \<Longrightarrow> length k = 16 \<Longrightarrow> length n = 12 \<Longrightarrow> \<exists>c. gcm_encrypt cr k n ad p = Some c \<and> length c = length p + 16"
  unfolding vcrypto_ok_def by blast

text \<open>The client of this crate refuses the answer of its own server: it seals the request with one session and opens the
  response with another, so whenever the two sessions have different response keys the handler ends
  with an error after the request was written, for every answer the server gives to that request.\<close>
theorem vmess_client_rejects_server:
  assumes "vcrypto_ok cr" and "gcm_key_bound cr" and "response_key cr client \<noteq> response_key cr inner" and "outbound session = Some ob"
  shows "vmess_outbound cr now r client inner u session (Ok ()) (Ok ()) (\<lambda>_. Ok (vmess_EncodeResponseHeader cr b cmd (accepted cr inner hist))) =
    Err ''GCM decrypt: aead::Error''"
proof -
  define rk where "rk = take 16 (Sha256_hash cr (c_request_body_key inner))"
  define riv where "riv = take 16 (Sha256_hash cr (c_request_body_iv inner))"
  have l: "length (resp_len_key cr k) = 16" "length (resp_len_iv cr k) = 12" for k
    using assms(1) by (simp_all add: resp_len_key_def resp_len_iv_def)
  obtain w y where e: "vmess_EncodeResponseHeader cr b cmd (accepted cr inner hist) = aes_gcm_seal cr (resp_len_key cr rk) (resp_len_iv cr riv) (to_be16 w) [] @ y"
    by (simp add: vmess_EncodeResponseHeader_def accepted_def rk_def riv_def Let_def)
  define x where "x = aes_gcm_seal cr (resp_len_key cr rk) (resp_len_iv cr riv) (to_be16 w) []"
  obtain c where "gcm_encrypt cr (resp_len_key cr rk) (resp_len_iv cr riv) [] (to_be16 w) = Some c" "length c = 18"
    using vcrypto_gcm [OF assms(1) l(1) l(2), of rk riv "[]" "to_be16 w"] by auto
  then have x: "gcm_encrypt cr (resp_len_key cr rk) (resp_len_iv cr riv) [] (to_be16 w) = Some x" "length x = 18"
    using l by (simp_all add: x_def aes_gcm_seal_def gcm_def AesGcmCipher_def gcm_res_def)
  have "resp_len_key cr (take 16 (Sha256_hash cr (c_request_body_key client))) \<noteq> resp_len_key cr rk"
    using assms(3) by (simp add: response_key_def rk_def)
  then have "gcm_decrypt cr (resp_len_key cr (take 16 (Sha256_hash cr (c_request_body_key client)))) (resp_len_iv cr k) [] x = None" for k
    using assms(2) x(1) l(1) unfolding gcm_key_bound_def by blast
  then have "aes_gcm_open cr (resp_len_key cr (take 16 (Sha256_hash cr (c_request_body_key client)))) (resp_len_iv cr k) x [] = Err ''GCM decrypt: aead::Error''" for k
    using l(2) by (simp add: aes_gcm_open_def gcm_def AesGcmCipher_def gcm_res_def)
  then show ?thesis using assms(4) x(2) by (simp add: vmess_outbound_def e x_def [symmetric] vmess_DecodeResponseHeader_def Let_def)
qed

theorem vmess_client_rejects_server_witness:
  "\<forall>session. vmess_outbound toy_crypto 0 toy_rand toy_client (ClientSession_new toy_crypto (replicate 16 3) (replicate 16 2) 7) toy_user
     (with_target (TcpDestination (Ipv4 [1, 2, 3, 4]) (Port 80)) session) (Ok ()) (Ok ())
     (\<lambda>_. Ok (vmess_EncodeResponseHeader toy_crypto 0 None (accepted toy_crypto (ClientSession_new toy_crypto (replicate 16 3) (replicate 16 2) 7) []))) =
    Err ''GCM decrypt: aead::Error''"
proof -
  let ?i = "ClientSession_new toy_crypto (replicate 16 3) (replicate 16 2) 7"
  have k: "gcm_key_bound toy_crypto" by (auto simp: gcm_key_bound_def toy_crypto_def)
  have d: "response_key toy_crypto toy_client \<noteq> response_key toy_crypto ?i"
    by (simp add: response_key_def resp_len_key_def KDF16_def KDF_def toy_client_def ClientSession_new_def toy_crypto_def)
  show ?thesis by (intro allI vmess_client_rejects_server [OF toy_crypto_ok k d]) (simp add: with_target_def)
qed

lemma marshal_roundtrip:
  assumes "length d \<le> 255" and "unat i < 256"
  shows "\<exists>bs. marshal_command i d = Ok bs \<and> unmarshal_command (bs @ rest) = Ok (i, d)"
proof -
  have "unat (take_bit 8 i) = unat i" using assms(2) by (simp add: unsigned_take_bit_eq take_bit_nat_eq_self_iff)
  then have e: "i AND 0xff = i" by (simp add: take_bit_eq_mask mask_eq_exp_minus_1 word_unat_eq_iff)
  have i: "ucast (ucast i :: u8) = i" using assms(2)
    by (simp add: word_unat_eq_iff unsigned_ucast_eq unsigned_take_bit_eq take_bit_nat_eq_self_iff)
  have n: "unat (word_of_nat (length d) :: u8) = length d" using assms(1) by (simp add: unat_of_nat)
  show ?thesis using assms i n e by (simp add: marshal_command_def unmarshal_command_def COMMAND_AUTH_LEN_def Let_def nth_append)
qed

end
