(* ===== verification/Sniffing.thy ===== *)
theory Sniffing
  imports Std_Text
begin

text \<open>
  \<^verbatim>\<open>astra-core-sniffing\<close>: the protocol and the host name of the first bytes of a connection, and the
  stream that replays the bytes looked at. \<open>lower\<close> is Unicode lower case.
\<close>

section \<open>Detection\<close>

datatype SniffProtocol = UnknownProtocol | Http | Tls | BitTorrent | DnsProtocol

fun sniff_as_str :: "SniffProtocol \<Rightarrow> string" where
  "sniff_as_str Http = ''http''"
| "sniff_as_str Tls = ''tls''"
| "sniff_as_str BitTorrent = ''bittorrent''"
| "sniff_as_str DnsProtocol = ''dns''"
| "sniff_as_str UnknownProtocol = ''''"

record SniffResult =
  sniffed_protocol :: SniffProtocol
  sniffed_domain :: "string option"

text \<open>The loop over the extensions of a ClientHello.\<close>

function sni_loop :: "u8 list \<Rightarrow> nat \<Rightarrow> nat \<Rightarrow> string option" where
  "sni_loop data ext_end pos =
     (if pos + 4 \<le> min ext_end (length data) then
        if be16_at pos data = 0 then
          if pos + 6 > length data \<or> pos + 9 > length data then None
          else let name_len = unat (be16_at (pos + 7) data) in
            if data ! (pos + 6) = 0 \<and> pos + 9 + name_len \<le> length data
            then let bs = take name_len (drop (pos + 9) data) in if valid_utf8 bs then Some (of_bytes bs) else None
            else None
        else sni_loop data ext_end (pos + 4 + unat (be16_at (pos + 2) data))
      else None)"
  by pat_completeness auto
termination by (relation "measure (\<lambda>(data, _, pos). length data - pos)") auto

declare sni_loop.simps [simp del]

definition sniff_tls_sni :: "u8 list \<Rightarrow> string option" where
  "sniff_tls_sni data =
     (if length data < 44 \<or> data ! 0 \<noteq> 0x16 \<or> data ! 5 \<noteq> 1 then None
      else let pos = 43 + 1 + unat (data ! 43) in
        if pos + 1 \<ge> length data then None
        else let pos = pos + 2 + unat (be16_at pos data) in
          if pos \<ge> length data then None
          else let pos = pos + 1 + unat (data ! pos) in
            if pos + 1 \<ge> length data then None
            else sni_loop data (pos + 2 + unat (be16_at pos data)) (pos + 2))"

fun host_scan :: "(string \<Rightarrow> string) \<Rightarrow> string list \<Rightarrow> string option" where
  "host_scan lower [] = None"
| "host_scan lower (l # ls) =
     (let l = trim l;
          host = (case strip_prefix ''Host:'' l of Some v \<Rightarrow> takeWhile (\<lambda>c. c \<noteq> CHR '':'') (trim v) | None \<Rightarrow> [])
      in if host \<noteq> [] then Some (lower host)
         else if l = [] then None
         else host_scan lower ls)"

definition sniff_http_host :: "(string \<Rightarrow> string) \<Rightarrow> u8 list \<Rightarrow> string option" where
  "sniff_http_host lower data =
     (if valid_utf8 data then host_scan lower (str_lines (of_bytes data)) else None)"

definition http_starts :: "u8 list list" where
  "http_starts = map as_bytes [''GET '', ''POST'', ''PUT '', ''HEAD'', ''PATC'', ''DELE'', ''OPTI'', ''TRAC'', ''CONN'']"

definition looks_dns :: "u8 list \<Rightarrow> bool" where
  "looks_dns data \<longleftrightarrow>
     length data \<ge> 12 \<and>
     drop_bit 7 (data ! 2) AND 1 = 0 \<and> drop_bit 3 (data ! 2) AND 0x0F = 0 \<and>
     1 \<le> be16_at 4 data \<and> be16_at 4 data \<le> 10"

definition sniff :: "(string \<Rightarrow> string) \<Rightarrow> u8 list \<Rightarrow> SniffResult" where
  "sniff lower data =
     (let unknown = \<lparr>sniffed_protocol = UnknownProtocol, sniffed_domain = None\<rparr> in
      if data = [] then unknown
      else if length data \<ge> 20 \<and> data ! 0 = 19 \<and> take 19 (drop 1 data) = as_bytes ''BitTorrent protocol''
      then \<lparr>sniffed_protocol = BitTorrent, sniffed_domain = None\<rparr>
      else if looks_dns data then \<lparr>sniffed_protocol = DnsProtocol, sniffed_domain = None\<rparr>
      else if length data \<ge> 4 \<and> take 4 data \<in> set http_starts
      then \<lparr>sniffed_protocol = Http, sniffed_domain = sniff_http_host lower data\<rparr>
      else if length data \<ge> 6 \<and> data ! 0 = 0x16 \<and> be16_at 1 data \<in> {0x0301, 0x0302, 0x0303, 0x0304}
      then \<lparr>sniffed_protocol = Tls, sniffed_domain = sniff_tls_sni data\<rparr>
      else unknown)"

section \<open>The replaying stream\<close>

text \<open>The inner stream is what is still to be read from it.\<close>

record SniffedStream =
  inner :: "u8 list"
  peek_buf :: "u8 list"
  peek_pos :: nat

definition SniffedStream_new :: "u8 list \<Rightarrow> u8 list \<Rightarrow> SniffedStream" where
  "SniffedStream_new i p = \<lparr>inner = i, peek_buf = p, peek_pos = 0\<rparr>"

text \<open>A read with room for \<open>room\<close> bytes, of which the inner stream delivers at most \<open>ready\<close>.\<close>

definition sniffed_read :: "nat \<Rightarrow> nat \<Rightarrow> SniffedStream \<Rightarrow> u8 list \<times> SniffedStream" where
  "sniffed_read room ready s =
     (if peek_pos s < length (peek_buf s)
      then let n = min room (length (peek_buf s) - peek_pos s)
           in (take n (drop (peek_pos s) (peek_buf s)), s\<lparr>peek_pos := peek_pos s + n\<rparr>)
      else let n = min room ready in (take n (inner s), s\<lparr>inner := drop n (inner s)\<rparr>))"

fun sniffed_reads :: "(nat \<times> nat) list \<Rightarrow> SniffedStream \<Rightarrow> u8 list \<times> SniffedStream" where
  "sniffed_reads [] s = ([], s)"
| "sniffed_reads ((room, ready) # rs) s =
     (case sniffed_read room ready s of (bs, s') \<Rightarrow>
      case sniffed_reads rs s' of (bs', s'') \<Rightarrow> (bs @ bs', s''))"

definition unread :: "SniffedStream \<Rightarrow> u8 list" where
  "unread s = drop (peek_pos s) (peek_buf s) @ inner s"

lemma sniffed_read_unread: "sniffed_read room ready s = (bs, s') \<Longrightarrow> unread s = bs @ unread s'"
proof -
  have "drop (k + n) xs = drop n (drop k xs)" for k n and xs :: "u8 list" by (simp add: add.commute)
  then show "sniffed_read room ready s = (bs, s') \<Longrightarrow> unread s = bs @ unread s'"
    by (auto simp: sniffed_read_def unread_def Let_def simp del: drop_drop split: if_splits)
qed

text \<open>Looking at the first bytes does not change the stream: whatever reads follow deliver the peeked bytes and then the rest, in order.\<close>

lemma sniffed_reads_transparent:
  "sniffed_reads rs (SniffedStream_new i p) = (bs, s') \<Longrightarrow> p @ i = bs @ unread s'"
proof -
  have "sniffed_reads rs s = (bs, s') \<Longrightarrow> unread s = bs @ unread s'" for s
    by (induction rs s arbitrary: bs s' rule: sniffed_reads.induct)
      (auto split: prod.splits dest!: sniffed_read_unread)
  from this [of "SniffedStream_new i p"] show "sniffed_reads rs (SniffedStream_new i p) = (bs, s') \<Longrightarrow> p @ i = bs @ unread s'"
    by (simp add: unread_def SniffedStream_new_def)
qed

section \<open>TLS ClientHellos\<close>

text \<open>
  A ClientHello in one record: version, record length, handshake length and version, random,
  session identifier, cipher suites, compression methods and extensions; the server name is in the
  first extension of type 0.
\<close>

definition encode_ext :: "u16 \<times> u8 list \<Rightarrow> u8 list" where
  "encode_ext e = to_be16 (fst e) @ to_be16 (word_of_nat (length (snd e))) @ snd e"

definition sni_ext :: "string \<Rightarrow> u8 list" where
  "sni_ext host =
     encode_ext (0, to_be16 (word_of_nat (3 + length host)) @ [0] @ to_be16 (word_of_nat (length host)) @ as_bytes host)"

record hello =
  minor :: u8
  rec_len :: u16
  hs_len :: "u8 list"
  hs_version :: u16
  random :: "u8 list"
  session_id :: "u8 list"
  suites :: "u8 list"
  compression :: "u8 list"
  exts_before :: "(u16 \<times> u8 list) list"
  server_name :: string
  exts_after :: "u8 list"

definition hello_exts :: "hello \<Rightarrow> u8 list" where
  "hello_exts h = concat (map encode_ext (exts_before h)) @ sni_ext (server_name h) @ exts_after h"

definition hello_prefix :: "hello \<Rightarrow> u8 list" where
  "hello_prefix h =
     [0x16, 3, minor h] @ to_be16 (rec_len h) @ [1] @ hs_len h @ to_be16 (hs_version h) @ random h"

definition encode_hello :: "hello \<Rightarrow> u8 list" where
  "encode_hello h =
     hello_prefix h @ [word_of_nat (length (session_id h))] @ session_id h @
     to_be16 (word_of_nat (length (suites h))) @ suites h @
     [word_of_nat (length (compression h))] @ compression h @
     to_be16 (word_of_nat (length (hello_exts h))) @ hello_exts h"

definition hello_ok :: "hello \<Rightarrow> bool" where
  "hello_ok h \<longleftrightarrow> 1 \<le> minor h \<and> minor h \<le> 4 \<and> length (hs_len h) = 3 \<and> length (random h) = 32 \<and> length (session_id h) < 256 \<and>
     length (suites h) < 65536 \<and> length (compression h) < 256 \<and> length (hello_exts h) < 65536 \<and>
     list_all (\<lambda>(t, d). t \<noteq> 0 \<and> length d < 65536) (exts_before h) \<and> valid_utf8 (as_bytes (server_name h))"

lemma hello_ok_name: "hello_ok h \<Longrightarrow> length (server_name h) + 9 \<le> length (hello_exts h)"
  by (simp add: hello_exts_def sni_ext_def encode_ext_def)

lemma sni_loop_name:
  assumes "data = pre @ sni_ext host @ post" and "length host < 65536" and "valid_utf8 (as_bytes host)"
    and "length pre + 9 + length host \<le> ext_end"
  shows "sni_loop data ext_end (length pre) = Some host"
proof -
  let ?d = "to_be16 (word_of_nat (3 + length host)) @ [0] @ to_be16 (word_of_nat (length host)) @ as_bytes host"
  have d: "data = pre @ to_be16 0 @ to_be16 (word_of_nat (length ?d)) @ to_be16 (word_of_nat (3 + length host)) @ 0 #
      to_be16 (word_of_nat (length host)) @ as_bytes host @ post"
    using assms(1) by (simp add: sni_ext_def encode_ext_def)
  have t: "be16_at (length pre) data = 0" unfolding d by (rule be16_at_append) simp
  have n: "be16_at (length pre + 7) data = word_of_nat (length host)" unfolding d
    by (subst be16_at_append [of "pre @ to_be16 0 @ to_be16 (word_of_nat (length ?d)) @ to_be16 (word_of_nat (3 + length host)) @ [0]", symmetric]) simp_all
  have z: "data ! (length pre + 6) = 0" unfolding d by (simp add: nth_append)
  have b: "take (length host) (drop (length pre + 9) data) = as_bytes host" unfolding d by simp
  have l: "length pre + 9 + length host \<le> length data" unfolding d by simp
  show ?thesis
    using t n z b l assms(2-4) by (subst sni_loop.simps) (simp add: Let_def unat_of_nat)
qed

lemma sni_loop_skip:
  assumes "data = pre @ concat (map encode_ext es) @ sni_ext host @ post" and "length host < 65536" and "valid_utf8 (as_bytes host)"
    and "list_all (\<lambda>(t, d). t \<noteq> 0 \<and> length d < 65536) es"
    and "length pre + length (concat (map encode_ext es)) + 9 + length host \<le> ext_end"
  shows "sni_loop data ext_end (length pre) = Some host"
  using assms
proof (induction es arbitrary: pre)
  case Nil
  then show ?case using sni_loop_name [of data pre host post ext_end] by simp
next
  case (Cons x es)
  obtain t d where e: "x = (t, d)" by (cases x)
  let ?pre = "pre @ encode_ext x"
  have IH: "sni_loop data ext_end (length ?pre) = Some host"
    using Cons.prems by (intro Cons.IH) simp_all
  have len: "unat (word_of_nat (length d) :: u16) = length d" using Cons.prems(4) e by (simp add: unat_of_nat)
  have dd: "data = pre @ to_be16 t @ to_be16 (word_of_nat (length d)) @ d @ concat (map encode_ext es) @ sni_ext host @ post"
    using Cons.prems(1) e by (simp add: encode_ext_def [of "(t, d)"])
  have a: "be16_at (length pre) data = t" unfolding dd by (rule be16_at_append) simp
  have b: "be16_at (length pre + 2) data = word_of_nat (length d)" unfolding dd
    using be16_at_append [of "pre @ to_be16 t" "length pre + 2"] by simp
  have "length pre + 4 \<le> length data" "length pre + 4 \<le> ext_end"
    using Cons.prems(5) e by (simp_all add: dd encode_ext_def)
  then have "sni_loop data ext_end (length pre) = sni_loop data ext_end (length pre + 4 + length d)"
    using a b len Cons.prems(4) e by (subst sni_loop.simps) simp
  moreover have "length pre + 4 + length d = length ?pre" by (simp add: e encode_ext_def)
  ultimately show ?case using IH by simp
qed

lemma sniff_tls_sni_hello:
  assumes "hello_ok h"
  shows "sniff_tls_sni (encode_hello h) = Some (server_name h)"
proof -
  let ?sid = "session_id h" and ?cs = "suites h" and ?cm = "compression h" and ?ex = "hello_exts h"
  let ?p0 = "hello_prefix h"
  let ?p1 = "?p0 @ [word_of_nat (length ?sid)] @ ?sid"
  let ?p2 = "?p1 @ to_be16 (word_of_nat (length ?cs)) @ ?cs"
  let ?p3 = "?p2 @ [word_of_nat (length ?cm)] @ ?cm"
  let ?p4 = "?p3 @ to_be16 (word_of_nat (length ?ex))"
  define data where "data = encode_hello h"
  have d: "data = ?p4 @ ?ex" by (simp add: data_def encode_hello_def)
  have l0: "length ?p0 = 43" using assms by (simp add: hello_prefix_def hello_ok_def)
  have u: "unat (word_of_nat (length ?sid) :: u8) = length ?sid" "unat (word_of_nat (length ?cs) :: u16) = length ?cs"
    "unat (word_of_nat (length ?cm) :: u8) = length ?cm" "unat (word_of_nat (length ?ex) :: u16) = length ?ex"
    using assms by (simp_all add: hello_ok_def unat_of_nat)
  have 0: "data ! 0 = 0x16" "data ! 5 = 1" by (simp_all add: d hello_prefix_def nth_append)
  have 1: "data ! 43 = word_of_nat (length ?sid)" using l0 by (simp add: d nth_append)
  have 2: "be16_at (length ?p1) data = word_of_nat (length ?cs)"
    by (simp only: d append_assoc) (subst append_assoc [symmetric], subst append_assoc [symmetric], rule be16_at_append, simp)
  have 3: "data ! length ?p2 = word_of_nat (length ?cm)" by (simp add: d nth_append)
  have 4: "be16_at (length ?p3) data = word_of_nat (length ?ex)"
    using be16_at_append [of ?p3 "length ?p3" "word_of_nat (length ?ex)" ?ex] by (simp add: d)
  have n: "length ?ex \<ge> 9 + length (server_name h)" using hello_ok_name [OF assms] by simp
  have loop: "sni_loop data (length ?p4 + length ?ex) (length ?p4) = Some (server_name h)"
    using assms n by (intro sni_loop_skip [where es = "exts_before h" and post = "exts_after h"])
      (auto simp: d hello_exts_def hello_ok_def sni_ext_def encode_ext_def)
  have s: "43 + 1 + length ?sid = length ?p1" "length ?p1 + 2 + length ?cs = length ?p2"
    "length ?p2 + 1 + length ?cm = length ?p3" "length ?p3 + 2 = length ?p4" using l0 by simp_all
  have len: "length data = length ?p4 + length ?ex" by (simp add: d)
  have lens: "\<not> length data < 44" "\<not> length data \<le> length ?p1 + 1" "\<not> length data \<le> length ?p2" "\<not> length data \<le> length ?p3 + 1"
    using l0 n unfolding len by simp_all
  show ?thesis unfolding data_def [symmetric] sniff_tls_sni_def Let_def
    unfolding 1 u s 2 3 4 using 0 lens loop by simp
qed

lemma minor_cases: "1 \<le> (w :: u8) \<Longrightarrow> w \<le> 4 \<Longrightarrow> w = 1 \<or> w = 2 \<or> w = 3 \<or> w = 4"
  by (simp add: word_le_nat_alt word_unat_eq_iff) linarith

lemma hello_looks_dns:
  assumes "hello_ok h"
  shows "looks_dns (encode_hello h) = (unat (rec_len h) mod 256 = 0)"
proof -
  define data where "data = encode_hello h"
  obtain hi lo where hl: "to_be16 (rec_len h) = [hi, lo]" and lo: "unat lo = unat (rec_len h) mod 256"
    by (simp add: to_be16_def numeral_2_eq_2 unat_of_nat)
  obtain rest where d: "data = [0x16, 3, minor h, hi, lo, 1] @ rest" and l: "12 \<le> length data"
    using assms hl by (auto simp: data_def encode_hello_def hello_prefix_def hello_ok_def)
  have m: "drop_bit 7 (minor h) AND 1 = 0" "drop_bit 3 (minor h) AND 0x0F = 0"
    using minor_cases [of "minor h"] assms by (auto simp: hello_ok_def)
  have b: "be16_at 4 data = word_of_nat (unat lo * 256 + 1)"
    by (simp add: d be16_at_def from_be16_def be_value_def)
  have "unat lo * 256 + 1 < 65536" using unat_bound [of lo] by simp
  then have "unat (be16_at 4 data) = unat lo * 256 + 1" unfolding b by (simp only: unat_of_nat) simp
  then have "(1 \<le> be16_at 4 data \<and> be16_at 4 data \<le> 10) = (unat lo = 0)"
    by (simp add: word_le_nat_alt) arith
  moreover have "data ! 2 = minor h" by (simp add: d)
  ultimately show ?thesis unfolding data_def [symmetric] looks_dns_def using l m lo by simp
qed

text \<open>C23. The server name of every ClientHello is found, except that the DNS test runs first: a ClientHello with any
  random, session identifier, cipher suites, compression methods and extensions is recognised as TLS
  with its server name exactly when the low byte of its record length is not zero; otherwise (for example a
  ClientHello padded to 512 bytes) it is taken for DNS and its name is lost.\<close>
theorem sniff_client_hello:
  assumes "hello_ok h"
  shows "sniff lower (encode_hello h) =
    (if unat (rec_len h) mod 256 = 0 then \<lparr>sniffed_protocol = DnsProtocol, sniffed_domain = None\<rparr>
     else \<lparr>sniffed_protocol = Tls, sniffed_domain = Some (server_name h)\<rparr>)"
proof -
  define data where "data = encode_hello h"
  obtain rest where d: "data = [0x16, 3, minor h] @ rest" and l: "44 \<le> length data"
    using assms by (auto simp: data_def encode_hello_def hello_prefix_def hello_ok_def)
  have "take 4 data \<notin> set http_starts" using l by (cases rest) (auto simp: d http_starts_def as_bytes_def)
  moreover have "be16_at 1 data \<in> {0x0301, 0x0302, 0x0303, 0x0304}"
    using minor_cases [of "minor h"] assms by (auto simp: d be16_at_def from_be16_def be_value_def hello_ok_def)
  ultimately show ?thesis
    using hello_looks_dns [OF assms] sniff_tls_sni_hello [OF assms] l unfolding data_def [symmetric]
    by (simp add: sniff_def Let_def) (auto simp: d)
qed

theorem sniff_client_hello_witness:
  "let h = \<lparr>minor = 1, rec_len = 512, hs_len = [0, 1, 252], hs_version = 0x0303, random = replicate 32 7, session_id = [],
            suites = [0x13, 1], compression = [0], exts_before = [(10, [0, 2])], server_name = ''a.org'', exts_after = []\<rparr>
   in sniffed_protocol (sniff id (encode_hello h)) = DnsProtocol \<and>
      sniffed_domain (sniff id (encode_hello (h\<lparr>rec_len := 513\<rparr>))) = Some ''a.org''"
proof -
  let ?h = "\<lparr>minor = 1, rec_len = 512, hs_len = [0, 1, 252], hs_version = 0x0303, random = replicate 32 7, session_id = [],
            suites = [0x13, 1], compression = [0], exts_before = [(10, [0, 2])], server_name = ''a.org'', exts_after = []\<rparr> :: hello"
  have v: "valid_utf8 (as_bytes ''a.org'')" by code_simp
  have "hello_ok ?h" "hello_ok (?h\<lparr>rec_len := 513\<rparr>)"
    using v by (simp_all add: hello_ok_def hello_exts_def sni_ext_def encode_ext_def word_le_nat_alt)
  from this [THEN sniff_client_hello, of id] show ?thesis by (simp add: Let_def)
qed

end
