(* ===== verification/Spec2Isabelle.thy ===== *)
theory Spec2Isabelle
  imports Signals Logs Reverse Hysteria Ss_2022 Plain_Proxies Transport_Conn Finalmask Tun Config Split_Http Freedom Http_Upgrade Common Stats Policy Observatory Buf_Io Mux_Session Kcp_Conn Socks Trojan Vless Vmess Shadowsocks Sniffing
begin

text \<open>
  A verification development for \<^verbatim>\<open>Astra-core\<close>, a proxy platform in Rust: inbound handlers accept client
  connections and decode a target, the dispatcher sniffs, routes and picks an outbound handler, and
  outbound handlers encode the target for the next hop over a transport. Multiplexing carries many
  streams over one connection, KCP carries a stream over datagrams, and DNS (real or fake) turns names
  into addresses along the way.

  \<^bold>\<open>Conventions.\<close> A Rust \<^verbatim>\<open>Result\<close> with panics is \<open>('e, 'a) res\<close> (\<open>Ok\<close>, \<open>Err\<close>, \<open>Panic\<close>) of \<open>Prelude\<close>; machine
  integers are words and wrap as release builds do; \<^verbatim>\<open>usize\<close> is \<open>nat\<close> where values are bounded by memory and
  goes through \<open>usize_add\<close> and \<open>usize_sub\<close> where the code can wrap; strings are lists of bytes as characters,
  with UTF-8 decoding in \<open>Prelude\<close> and text functions of the standard library in \<open>Std_Text\<close>. Shared state behind
  locks is a record passed along; tasks that interleave are step relations. Code of other crates
  (ciphers, digests, sockets, timers, random numbers, Unicode case mapping) is an argument, and what a theorem
  needs of it is a named predicate (\<open>crypto_ok\<close>, \<open>vcrypto_ok\<close>, \<open>reader_ok\<close>) with a concrete instance in the witness.

  \<^bold>\<open>Theories and sources\<close> (under \<^verbatim>\<open>src/astra-core-<crate>/src\<close>):
  \<^item> \<open>Net\<close>: \<^verbatim>\<open>net\<close> -- addresses, ports, networks, destinations, CIDR blocks and their text forms.
  \<^item> \<open>Buffer\<close>, \<open>Multi_Buffer\<close>, \<open>Buf_Io\<close>: \<^verbatim>\<open>buf\<close> -- the block pool, the byte window, queues of buffers, readers,
    writers, the copy loop. The locale \<open>byte_chunk\<close> is what queues rely on.
  \<^item> \<open>Mux_Frame\<close>, \<open>Mux_Session\<close>: \<^verbatim>\<open>mux\<close> -- frame encoding, chunk readers, sessions and their table, client and server
    workers as a step relation, the stream adapter. \<open>Prelude\<close>'s codec locale gives the stream round trips.
  \<^item> \<open>Kcp_Segment\<close>, \<open>Kcp_Window\<close>, \<open>Kcp_Conn\<close>: \<^verbatim>\<open>transport-kcp\<close> -- segments, the sending and receiving workers, the
    connection's state machine.
  \<^item> \<open>Routing\<close>: \<^verbatim>\<open>routing\<close> -- conditions, rules, balancers, webhook. \<open>Dns\<close>, \<open>Dns_Resolver\<close>, \<open>Fake_Dns\<close>: \<^verbatim>\<open>dns\<close> --
    messages, cache, hosts, name servers, the resolvers, the fake pool. \<open>Dispatcher\<close>: \<^verbatim>\<open>session\<close>, \<^verbatim>\<open>dispatcher\<close> --
    from a session to an outbound handler. \<open>Sniffing\<close>: the dispatcher's sniffer.
  \<^item> \<open>Proxy_Io\<close> (connections and address formats the protocols share), \<open>Socks\<close>, \<open>Trojan\<close>, \<open>Proto\<close>, \<open>Vless\<close>, \<open>Vmess\<close>,
    \<open>Shadowsocks\<close>: the proxy protocols, client and server side. \<open>Crypto\<close>: \<^verbatim>\<open>crypto\<close> -- nonce generators, the CFB stream,
    AEAD authenticators, chunk sizes.

  \<^bold>\<open>What is shown.\<close> Round trips of every wire format that has a decoder; end-to-end theorems that compose both
  sides of a protocol (multiplexed streams, KCP links, SOCKS, Trojan, VLESS, VMess, Shadowsocks) however the network cuts the
  bytes; invariants of the shared tables over all interleavings (session table, fake DNS); authentication
  (no dispatch without a known user, where the code has such a check); routing picks the first matching rule;
  equivalences with references (CFB, CRC, the rules the dispatcher can never match). Where the code
  does not do what its comments say, a theorem states what it does instead.

  \<^bold>\<open>Bounds and fuel.\<close> DNS name decoding has fuel, because the code follows compression pointers without a
  bound: one unit per label and two more are enough for every well-formed name, and a self-pointer exhausts
  every fuel. The copy loop's fuel is one more than the number of chunks. Loops over sockets that may never end
  are \<open>partial_function (option)\<close>. All other loops are total.

  \<^bold>\<open>Not modelled.\<close> TLS, QUIC, HTTP/2, gRPC, WebSocket, REALITY and WireGuard transports and the TUN stack are calls into
  libraries; logging, metrics, command line, process start and the gRPC services are input and output.
  Still to do: statistics and policies, the observatory, HTTP header obfuscation and the HTTP proxy, Shadowsocks 2022,
  split HTTP, the reverse proxy, the configuration reader, and the builder that assembles handlers.
\<close>

end
